(* ===== verification/Prelude.thy ===== *)
theory Prelude
  imports Complex_Main "HOL-Library.Word"
begin

text \<open>
  Prelude of the development: the names of the C++ types the server uses, the value a C++
  operation yields when it does not return normally, the parts of \<open>std::string\<close> the code
  relies on, and the generic lemmas on words and lists that the component theories share.

  \<^item> \<open>unsigned char\<close> is \<open>byte\<close>, a \<open>std::string\<close> of raw packet data is \<open>bytes\<close>, and
    \<open>std::size_t\<close> is \<open>size_t\<close>; arithmetic on them wraps as it does in C++.
  \<^item> A text \<open>std::string\<close> (a configuration value, an identifier) is HOL's \<open>string\<close>.
  \<^item> An operation that can throw, or whose behaviour is undefined for some arguments,
    returns \<open>'a outcome\<close>: \<open>Inl\<close> of the failure or \<open>Inr\<close> of the value.
\<close>

unbundle bit_operations_syntax

section \<open>Types and failures\<close>

type_synonym byte = "8 word"
type_synonym bytes = "8 word list"
type_synonym u16 = "16 word"
type_synonym u32 = "32 word"
type_synonym size_t = "64 word"

datatype failure =
    Read_Out_Of_Bounds      \<comment> \<open>a read outside a string or array: undefined behaviour\<close>
  | Write_Out_Of_Bounds     \<comment> \<open>a write outside a string or array: undefined behaviour\<close>
  | Signed_Overflow         \<comment> \<open>an \<open>int\<close> computation whose result does not fit: undefined behaviour\<close>
  | Division_By_Zero        \<comment> \<open>integer division or remainder by zero: undefined behaviour\<close>
  | Float_To_Int_Range      \<comment> \<open>conversion of a \<open>double\<close> outside the target range: undefined behaviour\<close>
  | Std_Out_Of_Range        \<comment> \<open>\<open>std::out_of_range\<close> thrown by \<open>std::string::substr\<close> or \<open>at\<close>\<close>
  | Null_Dereference        \<comment> \<open>use of a null pointer: undefined behaviour\<close>
  | Empty_Container         \<comment> \<open>\<open>top\<close>, \<open>front\<close> or \<open>pop\<close> of an empty container: undefined behaviour\<close>
  | Runtime_Error string    \<comment> \<open>\<open>std::runtime_error\<close> with its message\<close>
  | Invalid_Argument string \<comment> \<open>\<open>std::invalid_argument\<close> with its message\<close>

type_synonym 'a outcome = "failure + 'a"

text \<open>Sequencing: the rest of the operation runs only where the first part returned.\<close>

fun bind_out :: "'e + 'a \<Rightarrow> ('a \<Rightarrow> 'e + 'b) \<Rightarrow> 'e + 'b" where
  "bind_out (Inl e) f = Inl e"
| "bind_out (Inr x) f = f x"

lemma bind_out_Inr_iff:
  "bind_out m f = Inr y \<longleftrightarrow> (\<exists>x. m = Inr x \<and> f x = Inr y)"
  by (cases m) auto

lemma bind_out_cong [fundef_cong]:
  "m = m' \<Longrightarrow> (\<And>x. m' = Inr x \<Longrightarrow> f x = g x) \<Longrightarrow> bind_out m f = bind_out m' g"
  by (cases m') auto

lemma bind_out_assoc: "bind_out (bind_out m f) g = bind_out m (\<lambda>x. bind_out (f x) g)"
  by (cases m) auto

definition returned :: "'e + 'a \<Rightarrow> bool" where
  "returned m \<longleftrightarrow> (\<exists>x. m = Inr x)"

lemma returned_simps [simp]:
  "returned (Inr x)" "\<not> returned (Inl e)"
  by (simp_all add: returned_def)

named_theorems loop_simps \<open>unfolding equations of loops, kept out of the simpset\<close>

section \<open>\<open>std::string\<close>\<close>

text \<open>
  \<open>s[i]\<close> on a \<open>std::string\<close>: reading at \<open>size()\<close> gives the terminating NUL, and any other
  index outside the string is undefined behaviour.
\<close>

definition str_at :: "bytes \<Rightarrow> int \<Rightarrow> byte outcome" where
  "str_at s i =
     (if 0 \<le> i \<and> i < int (length s) then Inr (s ! nat i)
      else if i = int (length s) then Inr 0
      else Inl Read_Out_Of_Bounds)"

lemma str_at_inside [simp]:
  "0 \<le> i \<Longrightarrow> i < int (length s) \<Longrightarrow> str_at s i = Inr (s ! nat i)"
  by (simp add: str_at_def)

lemma str_at_nat [simp]: "i < length s \<Longrightarrow> str_at s (int i) = Inr (s ! i)"
  by (simp add: str_at_def)

text \<open>The bytes of a text string.\<close>

definition bytes_of :: "string \<Rightarrow> bytes" where
  "bytes_of s = map of_char s"

definition string_of :: "bytes \<Rightarrow> string" where
  "string_of b = map (\<lambda>x. char_of (unat x)) b"

lemma length_bytes_of [simp]: "length (bytes_of s) = length s"
  by (simp add: bytes_of_def)

text \<open>
  \<open>find_from p i s\<close> is the least index from \<open>i\<close> on whose element satisfies \<open>p\<close>, as
  \<open>find_first_of\<close>, \<open>find_first_not_of\<close> and \<open>find\<close> with one character return it;
  \<open>None\<close> is \<open>npos\<close>.
\<close>

definition find_from :: "('a \<Rightarrow> bool) \<Rightarrow> nat \<Rightarrow> 'a list \<Rightarrow> nat option" where
  "find_from p i s =
     (let n = length (takeWhile (\<lambda>x. \<not> p x) (drop i s))
      in if i + n < length s then Some (i + n) else None)"

lemma find_from_Some:
  assumes "find_from p i s = Some k"
  shows "i \<le> k" "k < length s" "p (s ! k)" "\<And>j. i \<le> j \<Longrightarrow> j < k \<Longrightarrow> \<not> p (s ! j)"
proof -
  let ?w = "takeWhile (\<lambda>x. \<not> p x) (drop i s)"
  from assms have k: "k = i + length ?w" and lt: "k < length s"
    by (auto simp: find_from_def Let_def split: if_splits)
  show "i \<le> k" "k < length s" using k lt by auto
  have "length ?w < length (drop i s)" using k lt by simp
  then have "p (drop i s ! length ?w)"
    using nth_length_takeWhile by blast
  then show "p (s ! k)" using k lt by simp
  fix j assume "i \<le> j" "j < k"
  then have "j - i < length ?w" using k by simp
  then have "?w ! (j - i) \<in> set ?w" by simp
  then have "\<not> p (?w ! (j - i))" using set_takeWhileD by fast
  moreover have "?w ! (j - i) = drop i s ! (j - i)"
    using \<open>j - i < length ?w\<close> by (rule takeWhile_nth)
  ultimately show "\<not> p (s ! j)" using \<open>i \<le> j\<close> \<open>j < k\<close> lt by simp
qed

lemma find_from_None:
  assumes "find_from p i s = None" "i \<le> j" "j < length s"
  shows "\<not> p (s ! j)"
proof -
  let ?w = "takeWhile (\<lambda>x. \<not> p x) (drop i s)"
  have "i + length ?w \<ge> length s" using assms(1)
    by (auto simp: find_from_def Let_def split: if_splits)
  moreover have "length ?w \<le> length s - i"
    using length_takeWhile_le [of _ "drop i s"] by simp
  ultimately have "length ?w = length (drop i s)"
    using assms by simp
  then have "?w = drop i s"
    by (subst takeWhile_eq_take) simp
  then have "\<forall>x \<in> set (drop i s). \<not> p x"
    by (simp add: takeWhile_eq_all_conv)
  moreover have "drop i s ! (j - i) \<in> set (drop i s)"
    using assms(2,3) by (intro nth_mem) simp
  moreover have "drop i s ! (j - i) = s ! j"
    using assms(2,3) by simp
  ultimately show ?thesis by auto
qed

section \<open>Words\<close>

lemma unat_of_nat_small [simp]: "n < 2 ^ LENGTH('a) \<Longrightarrow> unat (of_nat n :: 'a::len word) = n"
  by (simp add: unat_of_nat)

lemma byte_xor_self [simp]: "(b XOR m) XOR m = (b :: 'a::len word)"
  by (simp add: xor.assoc)

lemma unat_ucast_up:
  "LENGTH('a) \<le> LENGTH('b) \<Longrightarrow> unat (ucast (x :: 'a::len word) :: 'b::len word) = unat x"
proof -
  assume le: "LENGTH('a) \<le> LENGTH('b)"
  have "unat x < 2 ^ LENGTH('a)" by (rule unsigned_less)
  also have "(2 :: nat) ^ LENGTH('a) \<le> 2 ^ LENGTH('b)"
    using le by (rule power_increasing) simp
  finally show ?thesis
    by (simp add: unsigned_ucast_eq take_bit_nat_eq_self)
qed

lemma ucast_back:
  "LENGTH('a) \<le> LENGTH('b) \<Longrightarrow> ucast (ucast (x :: 'a::len word) :: 'b::len word) = x"
  by (subst word_unat_eq_iff, subst unsigned_ucast_eq)
    (simp add: unat_ucast_up take_bit_nat_eq_self unsigned_less)

section \<open>Lists read by index\<close>

lemma map_nth_upt_self: "map (\<lambda>i. s ! i) [0..<length s] = s"
  by (rule map_nth)

lemma nth_list_update_other [simp]: "i \<noteq> j \<Longrightarrow> xs[i := x] ! j = xs ! j"
  by (rule nth_list_update_neq)

end
