(* ===== verification/Codec.thy ===== *)
theory Codec
  imports Prelude
begin

text \<open>
  The interface of a pair of encoding and decoding functions: what a client of the pair may
  rely on, and what follows from it. It is interpreted on the packet identifier, the number
  encoding and the packet obfuscation (\<open>Packet_Codec\<close>) and on the serialised forms of a
  character's data.
\<close>

locale codec =
  fixes enc :: "'a \<Rightarrow> 'b" and dec :: "'b \<Rightarrow> 'a option" and valid :: "'a \<Rightarrow> bool"
  assumes dec_enc: "valid x \<Longrightarrow> dec (enc x) = Some x"
begin

lemma enc_inj: "valid x \<Longrightarrow> valid y \<Longrightarrow> enc x = enc y \<Longrightarrow> x = y"
  by (metis dec_enc option.inject)

lemma inj_on_enc: "inj_on enc {x. valid x}"
  by (auto intro: inj_onI enc_inj)

lemma dec_enc_all: "list_all valid xs \<Longrightarrow> map (\<lambda>x. dec (enc x)) xs = map Some xs"
  by (induction xs) (auto simp: dec_enc)

end

end
