(* ===== verification/Packet_Ids.thy ===== *)
theory Packet_Ids
  imports Prelude
begin

text \<open>
  The packet families and actions of the EO protocol (\<open>src/fwd/packet.hpp\<close>), their names in the
  log (\<open>GetFamilyName\<close>, \<open>GetActionName\<close>) and the packing of both into a packet identifier
  (\<open>PID\<close>, \<open>EPID\<close>, \<open>src/packet.cpp\<close>). The enumerations have underlying type
  \<open>unsigned char\<close>, so a value of one is a byte, and \<open>family_value\<close> and \<open>action_value\<close>
  give the byte of an enumerator.
\<close>

section \<open>Enumerations\<close>

datatype PacketFamily =
    PACKET_INTERNAL | PACKET_CONNECTION | PACKET_ACCOUNT | PACKET_CHARACTER | PACKET_LOGIN
    | PACKET_WELCOME | PACKET_WALK | PACKET_FACE | PACKET_CHAIR | PACKET_EMOTE
    | PACKET_ATTACK | PACKET_SPELL | PACKET_SHOP | PACKET_ITEM | PACKET_STATSKILL
    | PACKET_GLOBAL | PACKET_TALK | PACKET_WARP | PACKET_JUKEBOX | PACKET_PLAYERS
    | PACKET_AVATAR | PACKET_PARTY | PACKET_REFRESH | PACKET_NPC | PACKET_PLAYER_RANGE
    | PACKET_NPC_RANGE | PACKET_RANGE | PACKET_PAPERDOLL | PACKET_EFFECT | PACKET_TRADE
    | PACKET_CHEST | PACKET_DOOR | PACKET_MESSAGE | PACKET_BANK | PACKET_LOCKER
    | PACKET_BARBER | PACKET_GUILD | PACKET_MUSIC | PACKET_SIT | PACKET_RECOVER
    | PACKET_BOARD | PACKET_CAST | PACKET_ARENA | PACKET_PRIEST | PACKET_MARRIAGE
    | PACKET_ADMININTERACT | PACKET_CITIZEN | PACKET_QUEST | PACKET_BOOK | PACKET_F_INIT

datatype PacketAction =
    PACKET_REQUEST | PACKET_ACCEPT | PACKET_REPLY | PACKET_REMOVE | PACKET_AGREE
    | PACKET_CREATE | PACKET_ADD | PACKET_PLAYER | PACKET_TAKE | PACKET_USE | PACKET_BUY
    | PACKET_SELL | PACKET_OPEN | PACKET_CLOSE | PACKET_MSG | PACKET_SPEC | PACKET_ADMIN
    | PACKET_LIST | PACKET_TELL | PACKET_REPORT | PACKET_ANNOUNCE | PACKET_SERVER
    | PACKET_DROP | PACKET_JUNK | PACKET_OBTAIN | PACKET_GET | PACKET_KICK | PACKET_RANK
    | PACKET_TARGET_SELF | PACKET_TARGET_OTHER | PACKET_TARGET_GROUP | PACKET_DIALOG
    | PACKET_INTERNAL_NULL | PACKET_INTERNAL_WARP | PACKET_PING | PACKET_PONG | PACKET_NET3
    | PACKET_A_INIT

primrec family_value :: "PacketFamily \<Rightarrow> byte" where
  "family_value PACKET_INTERNAL = 0"
| "family_value PACKET_CONNECTION = 1"
| "family_value PACKET_ACCOUNT = 2"
| "family_value PACKET_CHARACTER = 3"
| "family_value PACKET_LOGIN = 4"
| "family_value PACKET_WELCOME = 5"
| "family_value PACKET_WALK = 6"
| "family_value PACKET_FACE = 7"
| "family_value PACKET_CHAIR = 8"
| "family_value PACKET_EMOTE = 9"
| "family_value PACKET_ATTACK = 11"
| "family_value PACKET_SPELL = 12"
| "family_value PACKET_SHOP = 13"
| "family_value PACKET_ITEM = 14"
| "family_value PACKET_STATSKILL = 16"
| "family_value PACKET_GLOBAL = 17"
| "family_value PACKET_TALK = 18"
| "family_value PACKET_WARP = 19"
| "family_value PACKET_JUKEBOX = 21"
| "family_value PACKET_PLAYERS = 22"
| "family_value PACKET_AVATAR = 23"
| "family_value PACKET_PARTY = 24"
| "family_value PACKET_REFRESH = 25"
| "family_value PACKET_NPC = 26"
| "family_value PACKET_PLAYER_RANGE = 27"
| "family_value PACKET_NPC_RANGE = 28"
| "family_value PACKET_RANGE = 29"
| "family_value PACKET_PAPERDOLL = 30"
| "family_value PACKET_EFFECT = 31"
| "family_value PACKET_TRADE = 32"
| "family_value PACKET_CHEST = 33"
| "family_value PACKET_DOOR = 34"
| "family_value PACKET_MESSAGE = 35"
| "family_value PACKET_BANK = 36"
| "family_value PACKET_LOCKER = 37"
| "family_value PACKET_BARBER = 38"
| "family_value PACKET_GUILD = 39"
| "family_value PACKET_MUSIC = 40"
| "family_value PACKET_SIT = 41"
| "family_value PACKET_RECOVER = 42"
| "family_value PACKET_BOARD = 43"
| "family_value PACKET_CAST = 44"
| "family_value PACKET_ARENA = 45"
| "family_value PACKET_PRIEST = 46"
| "family_value PACKET_MARRIAGE = 47"
| "family_value PACKET_ADMININTERACT = 48"
| "family_value PACKET_CITIZEN = 49"
| "family_value PACKET_QUEST = 50"
| "family_value PACKET_BOOK = 51"
| "family_value PACKET_F_INIT = 255"

primrec action_value :: "PacketAction \<Rightarrow> byte" where
  "action_value PACKET_REQUEST = 1"
| "action_value PACKET_ACCEPT = 2"
| "action_value PACKET_REPLY = 3"
| "action_value PACKET_REMOVE = 4"
| "action_value PACKET_AGREE = 5"
| "action_value PACKET_CREATE = 6"
| "action_value PACKET_ADD = 7"
| "action_value PACKET_PLAYER = 8"
| "action_value PACKET_TAKE = 9"
| "action_value PACKET_USE = 10"
| "action_value PACKET_BUY = 11"
| "action_value PACKET_SELL = 12"
| "action_value PACKET_OPEN = 13"
| "action_value PACKET_CLOSE = 14"
| "action_value PACKET_MSG = 15"
| "action_value PACKET_SPEC = 16"
| "action_value PACKET_ADMIN = 17"
| "action_value PACKET_LIST = 18"
| "action_value PACKET_TELL = 20"
| "action_value PACKET_REPORT = 21"
| "action_value PACKET_ANNOUNCE = 22"
| "action_value PACKET_SERVER = 23"
| "action_value PACKET_DROP = 24"
| "action_value PACKET_JUNK = 25"
| "action_value PACKET_OBTAIN = 26"
| "action_value PACKET_GET = 27"
| "action_value PACKET_KICK = 28"
| "action_value PACKET_RANK = 29"
| "action_value PACKET_TARGET_SELF = 30"
| "action_value PACKET_TARGET_OTHER = 31"
| "action_value PACKET_TARGET_GROUP = 33"
| "action_value PACKET_DIALOG = 34"
| "action_value PACKET_INTERNAL_NULL = 128"
| "action_value PACKET_INTERNAL_WARP = 129"
| "action_value PACKET_PING = 240"
| "action_value PACKET_PONG = 241"
| "action_value PACKET_NET3 = 242"
| "action_value PACKET_A_INIT = 255"

definition GetFamilyName_cases :: "(PacketFamily \<times> string) list" where
  "GetFamilyName_cases = [(PACKET_INTERNAL, ''INTERNAL''), (PACKET_CONNECTION, ''Connection''),
     (PACKET_ACCOUNT, ''Account''), (PACKET_CHARACTER, ''Character''),
     (PACKET_LOGIN, ''Login''), (PACKET_WELCOME, ''Welcome''), (PACKET_WALK, ''Walk''),
     (PACKET_FACE, ''Face''), (PACKET_CHAIR, ''Chair''), (PACKET_EMOTE, ''Emote''),
     (PACKET_ATTACK, ''Attack''), (PACKET_SPELL, ''Spell''), (PACKET_SHOP, ''Shop''),
     (PACKET_ITEM, ''Item''), (PACKET_STATSKILL, ''StatSkill''),
     (PACKET_GLOBAL, ''Global''), (PACKET_TALK, ''Talk''), (PACKET_WARP, ''Warp''),
     (PACKET_JUKEBOX, ''Jukebox''), (PACKET_PLAYERS, ''Players''),
     (PACKET_AVATAR, ''Avatar''), (PACKET_PARTY, ''Party''), (PACKET_REFRESH, ''Refresh''),
     (PACKET_NPC, ''NPC''), (PACKET_PLAYER_RANGE, ''PlayerRange''),
     (PACKET_NPC_RANGE, ''NpcRange''), (PACKET_RANGE, ''Range''),
     (PACKET_PAPERDOLL, ''Paperdoll''), (PACKET_EFFECT, ''Effect''),
     (PACKET_TRADE, ''Trade''), (PACKET_CHEST, ''Chest''), (PACKET_DOOR, ''Door''),
     (PACKET_MESSAGE, ''Message''), (PACKET_BANK, ''Bank''), (PACKET_LOCKER, ''Locker''),
     (PACKET_BARBER, ''Barber''), (PACKET_GUILD, ''Guild''), (PACKET_MUSIC, ''Music''),
     (PACKET_SIT, ''Sit''), (PACKET_RECOVER, ''Recover''), (PACKET_BOARD, ''Board''),
     (PACKET_CAST, ''Cast''), (PACKET_ARENA, ''Arena''), (PACKET_PRIEST, ''Priest''),
     (PACKET_MARRIAGE, ''Marriage''), (PACKET_ADMININTERACT, ''AdminInteract''),
     (PACKET_CITIZEN, ''Citizen''), (PACKET_QUEST, ''Quest''), (PACKET_BOOK, ''Book''),
     (PACKET_F_INIT, ''Init'')]"

definition GetActionName_cases :: "(PacketAction \<times> string) list" where
  "GetActionName_cases = [(PACKET_REQUEST, ''Request''), (PACKET_ACCEPT, ''Accept''), (PACKET_REPLY, ''Reply''),
     (PACKET_REMOVE, ''Remove''), (PACKET_AGREE, ''Agree''), (PACKET_CREATE, ''Create''),
     (PACKET_ADD, ''Add''), (PACKET_PLAYER, ''Player''), (PACKET_TAKE, ''Take''),
     (PACKET_USE, ''Use''), (PACKET_BUY, ''Buy''), (PACKET_SELL, ''Sell''),
     (PACKET_OPEN, ''Open''), (PACKET_CLOSE, ''Close''), (PACKET_MSG, ''Msg''),
     (PACKET_SPEC, ''Spec''), (PACKET_ADMIN, ''Admin''), (PACKET_LIST, ''List''),
     (PACKET_TELL, ''Tell''), (PACKET_REPORT, ''Report''), (PACKET_ANNOUNCE, ''Announce''),
     (PACKET_SERVER, ''Server''), (PACKET_DROP, ''Drop''), (PACKET_JUNK, ''Junk''),
     (PACKET_OBTAIN, ''Obtain''), (PACKET_GET, ''Get''), (PACKET_KICK, ''Kick''),
     (PACKET_RANK, ''Rank''), (PACKET_TARGET_SELF, ''TargetSelf''),
     (PACKET_TARGET_OTHER, ''TargetOther''), (PACKET_TARGET_GROUP, ''TargetGroup''),
     (PACKET_DIALOG, ''Dialog''), (PACKET_INTERNAL_NULL, ''INTERNAL_NULL''),
     (PACKET_INTERNAL_WARP, ''INTERNAL_WARP''), (PACKET_PING, ''Ping''),
     (PACKET_PONG, ''Pong''), (PACKET_NET3, ''Net3''), (PACKET_A_INIT, ''Init'')]"

text \<open>A \<open>switch\<close> over the enumerators: the first case whose value matches, else \<open>UNKNOWN\<close>.\<close>

definition GetFamilyName :: "byte \<Rightarrow> string" where
  "GetFamilyName b =
     (case find (\<lambda>(f, _). family_value f = b) GetFamilyName_cases of
        Some (_, n) \<Rightarrow> n | None \<Rightarrow> ''UNKNOWN'')"

definition GetActionName :: "byte \<Rightarrow> string" where
  "GetActionName b =
     (case find (\<lambda>(a, _). action_value a = b) GetActionName_cases of
        Some (_, n) \<Rightarrow> n | None \<Rightarrow> ''UNKNOWN'')"

text \<open>\<open>PID\<close> packs family and action in 16 bits, \<open>EPID\<close> splits them: action first.\<close>

definition PID :: "byte \<Rightarrow> byte \<Rightarrow> u16" where
  "PID family action = ucast family OR push_bit 8 (ucast action)"

definition EPID :: "u16 \<Rightarrow> byte \<times> byte" where
  "EPID pid = (ucast (drop_bit 8 pid), ucast (pid AND 0xFF))"

section \<open>Lemmas\<close>

lemma family_value_inj [simp]: "family_value f = family_value g \<longleftrightarrow> f = g"
  by (cases f; cases g) simp_all

lemma action_value_inj [simp]: "action_value a = action_value b \<longleftrightarrow> a = b"
  by (cases a; cases b) simp_all

lemma EPID_PID [simp]: "EPID (PID f a) = (a, f)"
proof -
  let ?p = "ucast f OR push_bit 8 (ucast a) :: u16"
  have "?p AND 0xFF = take_bit 8 ?p"
    by (simp add: take_bit_eq_mask mask_eq_exp_minus_1)
  moreover have "(ucast (take_bit 8 ?p) :: byte) = f"
    by (rule bit_word_eqI) (auto simp: bit_simps)
  moreover have "(ucast (drop_bit 8 ?p) :: byte) = a"
    by (rule bit_word_eqI) (auto simp: bit_simps dest: bit_imp_le_length)
  ultimately show ?thesis by (simp add: EPID_def PID_def)
qed

end
