(* ===== verification/Packet_Codec.thy ===== *)
theory Packet_Codec
  imports Codec Packet_Ids "HOL-Library.Multiset"
begin

text \<open>
  The class \<open>PacketProcessor\<close> of \<open>src/packet.cpp\<close>: the number encoding of
  the EO protocol (base 253 digits, one byte each) and the packet obfuscation (\<open>DickWinder\<close>,
  \<open>Encode\<close>, \<open>Decode\<close>).

  The number encoding, the packet identifier and the obfuscation are interpretations of the
  locale \<open>codec\<close>.
\<close>

section \<open>Numbers\<close>

definition MAX1 :: u32 where "MAX1 = 253"
definition MAX2 :: u32 where "MAX2 = 64009"
definition MAX3 :: u32 where "MAX3 = 16194277"

definition digit_in :: "byte \<Rightarrow> byte" where
  "digit_in b =
     (let b1 = (if b = 254 then 1 else b);
          b2 = (if b1 = 0 then 128 else b1)
      in b2 - 1)"

definition Number :: "byte \<Rightarrow> byte \<Rightarrow> byte \<Rightarrow> byte \<Rightarrow> u32" where
  "Number b1 b2 b3 b4 =
     ucast (digit_in b4) * MAX3 + ucast (digit_in b3) * MAX2
       + ucast (digit_in b2) * MAX1 + ucast (digit_in b1)"

text \<open>
  \<open>ENumber\<close> writes the four bytes; a byte is the quotient plus one, truncated to eight bits.
  The loop that computes \<open>size\<close> looks for the last non-zero byte.
\<close>

definition ENumber_bytes :: "u32 \<Rightarrow> byte \<times> byte \<times> byte \<times> byte" where
  "ENumber_bytes number =
     (let onumber = number;
          b3 = (if onumber \<ge> MAX3 then ucast (number div MAX3 + 1) else 254);
          n3 = (if onumber \<ge> MAX3 then number mod MAX3 else number);
          b2 = (if onumber \<ge> MAX2 then ucast (n3 div MAX2 + 1) else 254);
          n2 = (if onumber \<ge> MAX2 then n3 mod MAX2 else n3);
          b1 = (if onumber \<ge> MAX1 then ucast (n2 div MAX1 + 1) else 254);
          n1 = (if onumber \<ge> MAX1 then n2 mod MAX1 else n2);
          b0 = ucast (n1 + 1)
      in (b0, b1, b2, b3))"

fun ENumber_size :: "byte \<times> byte \<times> byte \<times> byte \<Rightarrow> nat" where
  "ENumber_size (b0, b1, b2, b3) =
     (if b3 > 0 then 4 else if b2 > 0 then 3 else if b1 > 0 then 2 else 1)"

definition ENumber :: "u32 \<Rightarrow> (byte \<times> byte \<times> byte \<times> byte) \<times> nat" where
  "ENumber number = (ENumber_bytes number, ENumber_size (ENumber_bytes number))"

definition bytes_list :: "byte \<times> byte \<times> byte \<times> byte \<Rightarrow> bytes" where
  "bytes_list q = (case q of (b0, b1, b2, b3) \<Rightarrow> [b0, b1, b2, b3])"

section \<open>Obfuscation\<close>

text \<open>The two \<open>EMulti\<close> fields of a \<open>PacketProcessor\<close>.\<close>

record PacketProcessor =
  emulti_e :: byte
  emulti_d :: byte

definition PacketProcessor_init :: PacketProcessor where
  "PacketProcessor_init = \<lparr>emulti_e = 0, emulti_d = 0\<rparr>"

definition SetEMulti :: "byte \<Rightarrow> byte \<Rightarrow> PacketProcessor \<Rightarrow> PacketProcessor" where
  "SetEMulti e d p = p\<lparr>emulti_e := e, emulti_d := d\<rparr>"

definition GetEMulti :: "PacketProcessor \<Rightarrow> byte \<times> byte" where
  "GetEMulti p = (emulti_e p, emulti_d p)"

text \<open>
  The loop of \<open>DickWinder\<close>: bytes divisible by \<open>emulti\<close> collect in \<open>buffer\<close>, and a byte that is
  not divisible first flushes the reversed buffer to the output.
\<close>

fun dick_winder_loop :: "byte \<Rightarrow> bytes \<Rightarrow> bytes \<Rightarrow> bytes \<Rightarrow> bytes" where
  "dick_winder_loop emulti newstr buffer [] =
     (if length buffer > 0 then newstr @ rev buffer else newstr)"
| "dick_winder_loop emulti newstr buffer (c # cs) =
     (if c mod emulti = 0 then dick_winder_loop emulti newstr (buffer @ [c]) cs
      else if length buffer > 0
        then dick_winder_loop emulti (newstr @ rev buffer @ [c]) [] cs
        else dick_winder_loop emulti (newstr @ [c]) buffer cs)"

definition DickWinder :: "bytes \<Rightarrow> byte \<Rightarrow> bytes" where
  "DickWinder str emulti = (if emulti = 0 then str else dick_winder_loop emulti [] [] str)"

definition DickWinderE :: "PacketProcessor \<Rightarrow> bytes \<Rightarrow> bytes" where
  "DickWinderE p str = DickWinder str (emulti_e p)"

definition DickWinderD :: "PacketProcessor \<Rightarrow> bytes \<Rightarrow> bytes" where
  "DickWinderD p str = DickWinder str (emulti_d p)"

text \<open>The loop both directions end with: bytes 0 and 128 are exchanged from index 2 on.\<close>

definition swap_0_128 :: "byte \<Rightarrow> byte" where
  "swap_0_128 b = (if b = 128 then 0 else if b = 0 then 128 else b)"

fun swap_from :: "nat \<Rightarrow> bytes \<Rightarrow> bytes" where
  "swap_from n [] = []"
| "swap_from 0 (b # bs) = swap_0_128 b # swap_from 0 bs"
| "swap_from (Suc n) (b # bs) = b # swap_from n bs"

text \<open>
  \<open>Decode\<close>: the first loop appends the bytes at even indices going up, the second, a
  \<open>do\<close>-\<open>while\<close>, those at odd indices going down. Its first iteration runs unconditionally,
  so on fewer than two bytes it reads (and writes) before the start of the string.
\<close>

function decode_up :: "bytes \<Rightarrow> nat \<Rightarrow> bytes" where
  "decode_up str i =
     (if i < length str then (str ! i XOR 0x80) # decode_up str (i + 2) else [])"
  by pat_completeness auto
termination
  by (relation "measure (\<lambda>(str, i). length str - i)") auto

function decode_down :: "bytes \<Rightarrow> int \<Rightarrow> bytes outcome" where
  "decode_down str i =
     bind_out (str_at str i) (\<lambda>c.
       if i - 2 \<ge> 0
       then bind_out (decode_down str (i - 2)) (\<lambda>r. Inr ((c XOR 0x80) # r))
       else Inr [c XOR 0x80])"
  by pat_completeness auto
termination
  by (relation "measure (\<lambda>(str, i). nat i)") auto

declare decode_up.simps [simp del, loop_simps]
declare decode_down.simps [simp del, loop_simps]

definition Decode :: "PacketProcessor \<Rightarrow> bytes \<Rightarrow> bytes outcome" where
  "Decode p str =
     (if emulti_d p = 0 then Inr str else
      bind_out (str_at str 0) (\<lambda>c0.
      bind_out (if c0 = action_value PACKET_A_INIT then str_at str 1 else Inr 0) (\<lambda>c1.
      if c0 = action_value PACKET_A_INIT \<and> c1 = family_value PACKET_F_INIT then Inr str else
        let len = int (length str);
            i0 = len + len mod 2;  \<comment> \<open>\<open>i\<close> after the first loop\<close>
            i1 = i0 - 1;
            i2 = (if len mod 2 \<noteq> 0 then i1 - 2 else i1)
        in bind_out (decode_down str i2) (\<lambda>down.
           Inr (DickWinderD p (swap_from 2 (decode_up str 0 @ down)))))))"

text \<open>
  \<open>Encode\<close> works on the whole packet, the two length bytes included: after \<open>DickWinderE\<close> it
  keeps bytes 0 and 1 and interleaves the others, even indices going up, odd going down.
\<close>

function encode_up :: "bytes \<Rightarrow> bytes \<Rightarrow> nat \<Rightarrow> nat \<Rightarrow> bytes \<times> nat" where
  "encode_up str newstr i ii =
     (if i < length str
      then encode_up str (newstr[i := (str ! ii) XOR 0x80]) (i + 2) (Suc ii)
      else (newstr, ii))"
  by pat_completeness auto
termination
  by (relation "measure (\<lambda>(str, newstr, i, ii). length str - i)") auto

function encode_down :: "bytes \<Rightarrow> bytes \<Rightarrow> int \<Rightarrow> nat \<Rightarrow> bytes" where
  "encode_down str newstr i ii =
     (if i \<ge> 2
      then encode_down str (newstr[nat i := (str ! ii) XOR 0x80]) (i - 2) (Suc ii)
      else newstr)"
  by pat_completeness auto
termination
  by (relation "measure (\<lambda>(str, newstr, i, ii). nat i)") auto

declare encode_up.simps [simp del, loop_simps]
declare encode_down.simps [simp del, loop_simps]

definition Encode :: "PacketProcessor \<Rightarrow> bytes \<Rightarrow> bytes outcome" where
  "Encode p rawstr =
     (if emulti_e p = 0 then Inr rawstr else
      bind_out (str_at rawstr 2) (\<lambda>c2.
      bind_out (if c2 = action_value PACKET_A_INIT then str_at rawstr 3 else Inr 0) (\<lambda>c3.
      if c2 = action_value PACKET_A_INIT \<and> c3 = family_value PACKET_F_INIT then Inr rawstr else
        let str = DickWinderE p rawstr;
            len = length str;
            newstr = (replicate len 0)[0 := str ! 0, 1 := str ! 1];
            (newstr', ii) = encode_up str newstr 2 2;
            i = int len - 1;
            i' = (if len mod 2 \<noteq> 0 then i - 1 else i);
            newstr'' = encode_down str newstr' i' ii
        in Inr (swap_from 2 newstr''))))"

section \<open>Lemmas on identifiers\<close>

interpretation pid: codec "\<lambda>(f, a). PID f a" "\<lambda>pid. Some (prod.swap (EPID pid))" "\<lambda>_. True"
  by unfold_locales (auto simp: EPID_PID)

section \<open>Numbers\<close>

lemma digit_in_254 [simp]: "digit_in 254 = 0"
  by (simp add: digit_in_def)

lemma digit_roundtrip:
  assumes "(d :: u32) < 253"
  shows "(ucast (digit_in (ucast (d + 1))) :: u32) = d"
proof -
  have d: "unat d < 253" using assms by (simp add: word_less_nat_alt)
  have u1: "unat (ucast (d + 1) :: byte) = unat d + 1"
    using d by (simp add: unsigned_ucast_eq unat_word_ariths take_bit_eq_mod)
  then have ne: "(ucast (d + 1) :: byte) \<noteq> 254" "(ucast (d + 1) :: byte) \<noteq> 0"
    using d by (auto simp: word_unat_eq_iff)
  then have "unat (digit_in (ucast (d + 1))) = unat d"
    using u1 by (simp add: digit_in_def unat_minus_one)
  then show ?thesis
    using d by (simp add: word_unat_eq_iff unsigned_ucast_eq take_bit_eq_mod)
qed

lemma radix_bounds:
  "MAX1 = 253" "MAX2 = 253 * MAX1" "MAX3 = 253 * MAX2" "unat MAX1 = 253" "unat MAX2 = 64009"
  "unat MAX3 = 16194277"
  by (simp_all add: MAX1_def MAX2_def MAX3_def)

lemma word_div_small [simp]: "(x :: 'a::len word) < y \<Longrightarrow> x div y = 0"
  by (simp add: word_arith_nat_div word_less_nat_alt)

lemma word_mod_small [simp]: "(x :: 'a::len word) < y \<Longrightarrow> x mod y = x"
  by (simp add: word_arith_nat_mod word_less_nat_alt)


lemma digit_of_high:
  assumes "x < 253 * m" "0 < unat m" "253 * unat m < 2 ^ 32"
  shows "x div m < (253 :: u32)"
proof -
  have "unat (253 * m) = 253 * unat m"
    using assms(3) by (simp add: unat_word_ariths)
  then have "unat x < 253 * unat m"
    using assms(1) by (simp add: word_less_nat_alt)
  then have "unat x div unat m < 253"
    using assms(2) by (simp add: less_mult_imp_div_less)
  then show ?thesis by (simp add: word_less_nat_alt unat_div)
qed

lemma mod_below: "0 < m \<Longrightarrow> x mod m < (m :: u32)"
  by (rule word_mod_less_divisor)

text \<open>Each step of \<open>ENumber_bytes\<close> yields the digit's byte and the rest, above and below the bound.\<close>

lemma digit_step:
  fixes r m n :: u32
  assumes "r < 253 * m" "0 < unat m" "253 * unat m < 2 ^ 32" "n < m \<Longrightarrow> r = n"
  shows "ucast (digit_in (if m \<le> n then ucast (r div m + 1) else 254)) = r div m"
    "(if m \<le> n then r mod m else r) = r mod m"
proof -
  have *: "r div m = 0" "r mod m = r" if "\<not> m \<le> n"
    using that assms(4) by (simp_all add: not_le)
  show "ucast (digit_in (if m \<le> n then ucast (r div m + 1) else 254)) = r div m"
    using digit_roundtrip [OF digit_of_high [OF assms(1-3)]] * by simp
  show "(if m \<le> n then r mod m else r) = r mod m"
    using * by simp
qed

text \<open>The three low digits are right for every number, the high one below the fourth power.\<close>

lemma ENumber_low_digits:
  assumes "ENumber_bytes n = (b0, b1, b2, b3)"
  shows "ucast (digit_in b2) = n mod MAX3 div MAX2"
    and "ucast (digit_in b1) = n mod MAX3 mod MAX2 div MAX1"
    and "ucast (digit_in b0) = n mod MAX3 mod MAX2 mod MAX1"
    and "b3 = (if MAX3 \<le> n then ucast (n div MAX3 + 1) else 254)"
proof -
  let ?n3 = "n mod MAX3" and ?n2 = "n mod MAX3 mod MAX2" and ?n1 = "n mod MAX3 mod MAX2 mod MAX1"
  note b = radix_bounds
  have m3: "?n3 < 253 * MAX2" using mod_below [of MAX3 n] by (simp add: b)
  have m2: "?n2 < 253 * MAX1" using mod_below [of MAX2 ?n3] by (simp add: b)
  have m1: "?n1 < 253" using mod_below [of MAX1 ?n2] by (simp add: b)
  have e3: "n < MAX2 \<Longrightarrow> ?n3 = n"
    by (rule word_mod_small, erule order_less_trans) (simp add: MAX2_def MAX3_def)
  have e2: "n < MAX1 \<Longrightarrow> ?n2 = n"
  proof -
    assume "n < MAX1"
    moreover have "MAX1 < MAX2" by (simp add: MAX1_def MAX2_def)
    ultimately show "?n2 = n" using e3 word_mod_small by (metis order_less_trans)
  qed
  have s3: "(if MAX3 \<le> n then n mod MAX3 else n) = ?n3"
    by (simp add: not_le)
  have s2: "ucast (digit_in (if MAX2 \<le> n then ucast (?n3 div MAX2 + 1) else 254)) = ?n3 div MAX2"
    "(if MAX2 \<le> n then ?n3 mod MAX2 else ?n3) = ?n2"
    by (rule digit_step; use m3 e3 in \<open>simp add: b\<close>)+
  have s1: "ucast (digit_in (if MAX1 \<le> n then ucast (?n2 div MAX1 + 1) else 254)) = ?n2 div MAX1"
    "(if MAX1 \<le> n then ?n2 mod MAX1 else ?n2) = ?n1"
    by (rule digit_step; use m2 e2 in \<open>simp add: b\<close>)+
  have s0: "ucast (digit_in (ucast (?n1 + 1))) = ?n1"
    using m1 by (rule digit_roundtrip)
  have *: "b2 = (if MAX2 \<le> n then ucast (?n3 div MAX2 + 1) else 254)"
    "b1 = (if MAX1 \<le> n then ucast (?n2 div MAX1 + 1) else 254)"
    "b0 = ucast (?n1 + 1)" "b3 = (if MAX3 \<le> n then ucast (n div MAX3 + 1) else 254)"
    using assms by (simp_all only: ENumber_bytes_def Let_def s3 s2(2) s1(2) prod.inject)
  show "ucast (digit_in b2) = n mod MAX3 div MAX2" unfolding * by (rule s2)
  show "ucast (digit_in b1) = n mod MAX3 mod MAX2 div MAX1" unfolding * by (rule s1)
  show "ucast (digit_in b0) = n mod MAX3 mod MAX2 mod MAX1" unfolding * by (rule s0)
  show "b3 = (if MAX3 \<le> n then ucast (n div MAX3 + 1) else 254)" by (rule *(4))
qed

lemma ENumber_high_digit:
  assumes "ENumber_bytes n = (b0, b1, b2, b3)" "n < 253 * MAX3"
  shows "ucast (digit_in b3) = n div MAX3"
  unfolding ENumber_low_digits(4) [OF assms(1)]
  by (rule digit_step(1); use assms(2) in \<open>simp add: radix_bounds\<close>)

lemma Number_ENumber_bytes:
  assumes "n < 253 * MAX3"
  shows "(case ENumber_bytes n of (b0, b1, b2, b3) \<Rightarrow> Number b0 b1 b2 b3) = n"
proof -
  obtain b0 b1 b2 b3 where e: "ENumber_bytes n = (b0, b1, b2, b3)" by (cases "ENumber_bytes n")
  show ?thesis
    by (simp only: e prod.case Number_def ENumber_low_digits(1-3) [OF e]
        ENumber_high_digit [OF e assms] add.assoc div_mult_mod_eq)
qed

text \<open>Residues modulo the smaller radices.\<close>

lemma mod_radix:
  "n mod MAX3 mod MAX2 = n mod MAX2" "n mod MAX2 mod MAX1 = n mod MAX1"
proof -
  have "x mod 16194277 mod 64009 = x mod (64009 :: nat)" "x mod 64009 mod 253 = x mod (253 :: nat)" for x
    by (rule mod_mod_cancel, simp)+
  then show "n mod MAX3 mod MAX2 = n mod MAX2" "n mod MAX2 mod MAX1 = n mod MAX1"
    by (simp_all add: word_unat_eq_iff unat_mod radix_bounds(4-6))
qed

interpretation enumber: codec ENumber_bytes
  "\<lambda>(b0, b1, b2, b3). Some (Number b0 b1 b2 b3)" "\<lambda>n. n < 253 * MAX3"
proof
  fix n :: u32
  assume "n < 253 * MAX3"
  then have "(case ENumber_bytes n of (b0, b1, b2, b3) \<Rightarrow> Number b0 b1 b2 b3) = n"
    by (rule Number_ENumber_bytes)
  then show "(case ENumber_bytes n of (b0, b1, b2, b3) \<Rightarrow> Some (Number b0 b1 b2 b3)) = Some n"
    by (cases "ENumber_bytes n") simp
qed

text \<open>The bytes not needed for a small number are all 254.\<close>

lemma ENumber_bytes_small:
  "n < MAX1 \<Longrightarrow> ENumber_bytes n = (ucast (n + 1), 254, 254, 254)"
  "n < MAX2 \<Longrightarrow> \<exists>b0 b1. ENumber_bytes n = (b0, b1, 254, 254)"
  "n < MAX3 \<Longrightarrow> \<exists>b0 b1 b2. ENumber_bytes n = (b0, b1, b2, 254)"
proof -
  have o: "MAX1 < MAX2" "MAX2 < MAX3" by (simp_all add: MAX1_def MAX2_def MAX3_def)
  have "\<not> MAX1 \<le> n \<and> \<not> MAX2 \<le> n \<and> \<not> MAX3 \<le> n" if "n < MAX1"
    using that o by (metis not_le order_less_trans)
  then show "n < MAX1 \<Longrightarrow> ENumber_bytes n = (ucast (n + 1), 254, 254, 254)"
    by (simp add: ENumber_bytes_def Let_def)
  have "\<not> MAX2 \<le> n \<and> \<not> MAX3 \<le> n" if "n < MAX2"
    using that o by (metis not_le order_less_trans)
  then show "n < MAX2 \<Longrightarrow> \<exists>b0 b1. ENumber_bytes n = (b0, b1, 254, 254)"
    by (simp add: ENumber_bytes_def Let_def)
  show "n < MAX3 \<Longrightarrow> \<exists>b0 b1 b2. ENumber_bytes n = (b0, b1, b2, 254)"
    by (auto simp: ENumber_bytes_def Let_def not_le)
qed

section \<open>\<open>DickWinder\<close>\<close>

lemma dick_winder_acc:
  "dick_winder_loop k acc buf cs = acc @ dick_winder_loop k [] buf cs"
proof (induction cs arbitrary: acc buf)
  case Nil
  then show ?case by simp
next
  case (Cons c cs)
  show ?case
    using Cons.IH [of "acc @ rev buf @ [c]" "[]"] Cons.IH [of "rev buf @ [c]" "[]"]
      Cons.IH [of "acc @ [c]" "[]"] Cons.IH [of "[c]" "[]"] Cons.IH [of acc "buf @ [c]"]
    by simp
qed

lemma dick_winder_multiples:
  "\<forall>c \<in> set ms. c mod k = 0 \<Longrightarrow>
     dick_winder_loop k [] buf (ms @ cs) = dick_winder_loop k [] (buf @ ms) cs"
  by (induction ms arbitrary: buf) auto

lemma dick_winder_stop:
  "c mod k \<noteq> 0 \<Longrightarrow>
     dick_winder_loop k [] buf (c # cs) = rev buf @ c # dick_winder_loop k [] [] cs"
  using dick_winder_acc [of k "rev buf @ [c]" "[]" cs] dick_winder_acc [of k "[c]" "[]" cs]
  by (cases "buf = []") simp_all

lemma length_dick_winder:
  "length (dick_winder_loop k acc buf cs) = length acc + length buf + length cs"
  by (induction k acc buf cs rule: dick_winder_loop.induct) auto

lemma length_DickWinder [simp]: "length (DickWinder s k) = length s"
  by (simp add: DickWinder_def length_dick_winder)

text \<open>A run of multiples, then a byte that is none: the two shapes of a string.\<close>

lemma run_cases:
  obtains (all) "\<forall>c \<in> set s. c mod k = 0"
  | (stop) ms c cs where "s = ms @ c # cs" "\<forall>c \<in> set ms. c mod k = 0" "c mod k \<noteq> (0 :: byte)"
proof (cases "\<forall>c \<in> set s. c mod k = 0")
  case False
  then have "\<exists>c \<in> set s. c mod k \<noteq> 0" by blast
  then obtain ms c cs where "s = ms @ c # cs" "c mod k \<noteq> 0" "\<forall>y \<in> set ms. \<not> y mod k \<noteq> 0"
    using split_list_first_prop [of s "\<lambda>c. c mod k \<noteq> 0"] by blast
  then show ?thesis using stop by blast
qed (rule that(1))

lemma dick_winder_involution:
  "dick_winder_loop k [] [] (dick_winder_loop k [] [] s) = s"
proof (induction s rule: length_induct)
  case (1 s)
  show ?case
  proof (cases rule: run_cases [of s k])
    case all
    then show ?thesis
      using dick_winder_multiples [of s k "[]" "[]"] dick_winder_multiples [of "rev s" k "[]" "[]"]
      by simp
  next
    case (stop ms c cs)
    have w: "dick_winder_loop k [] [] s = rev ms @ c # dick_winder_loop k [] [] cs"
      using stop by (simp add: dick_winder_multiples dick_winder_stop del: dick_winder_loop.simps)
    have "dick_winder_loop k [] [] (dick_winder_loop k [] [] cs) = cs"
      using "1" stop(1) by simp
    then show ?thesis
      using stop by (simp add: w dick_winder_multiples dick_winder_stop del: dick_winder_loop.simps)
  qed
qed

lemma DickWinder_involution [simp]: "DickWinder (DickWinder s k) k = s"
  by (simp add: DickWinder_def dick_winder_involution)

text \<open>A second byte that is no multiple shields the two header bytes from the rest.\<close>

lemma DickWinder_header:
  assumes "h1 mod k \<noteq> 0"
  shows "DickWinder (h0 # h1 # s) k = h0 # h1 # DickWinder s k"
  using assms dick_winder_stop [of h1 k "[h0]" s] dick_winder_stop [of h1 k "[]" s]
    dick_winder_acc [of k "[h0]" "[]" "h1 # s"]
  by (cases "h0 mod k = 0") (simp_all add: DickWinder_def)

section \<open>\<open>Encode\<close> and \<open>Decode\<close>\<close>

lemma swap_0_128_invol [simp]: "swap_0_128 (swap_0_128 b) = b"
  by (simp add: swap_0_128_def)

lemma swap_0_128_id: "b \<noteq> 0 \<Longrightarrow> b \<noteq> 128 \<Longrightarrow> swap_0_128 b = b"
  by (simp add: swap_0_128_def)

lemma xor_128_eq:
  "b XOR 128 = (0 :: byte) \<longleftrightarrow> b = 128" "b XOR 128 = (128 :: byte) \<longleftrightarrow> b = 0"
  by (metis byte_xor_self xor.left_neutral xor_self_eq)+

lemma byte_map_255: "swap_0_128 (b XOR 128) = 255 \<longleftrightarrow> b = (127 :: byte)"
proof -
  have "b = 127" if "b XOR 128 = 255"
  proof -
    from that have "(b XOR 128) XOR 128 = 255 XOR 128" by (rule arg_cong)
    then show ?thesis by simp
  qed
  moreover have "swap_0_128 x = 255 \<longleftrightarrow> x = 255" for x :: byte
    by (simp add: swap_0_128_def)
  moreover have "swap_0_128 (127 XOR 128) = (255 :: byte)"
    by (simp add: swap_0_128_def)
  ultimately show ?thesis by metis
qed

text \<open>Both directions of the byte map: the exchange happens in the encoded form.\<close>

lemma byte_map_inv [simp]: "swap_0_128 (swap_0_128 (b XOR 128) XOR 128) = (b :: byte)"
  by (cases "b = 0"; cases "b = 128") (simp_all add: swap_0_128_def xor_128_eq)

lemma byte_map_inv_plain:
  "b \<noteq> 0 \<Longrightarrow> b \<noteq> 128 \<Longrightarrow> swap_0_128 (b XOR 128) XOR 128 = (b :: byte)"
  by (simp add: swap_0_128_id xor_128_eq)

lemma length_swap_from [simp]: "length (swap_from n s) = length s"
  by (induction n s rule: swap_from.induct) auto

lemma nth_swap_from:
  "j < length s \<Longrightarrow> swap_from n s ! j = (if n \<le> j then swap_0_128 (s ! j) else s ! j)"
  by (induction n s arbitrary: j rule: swap_from.induct) (auto simp: nth_Cons split: nat.split)

lemma swap_from_Suc_Suc [simp]: "swap_from 2 (a # b # s) = a # b # swap_from 0 s"
  by (simp add: numeral_2_eq_2)

lemma swap_from_0 [simp]: "swap_from 0 s = map swap_0_128 s"
  by (induction s) auto

lemma half_step: "i < n \<Longrightarrow> (n - i + 1) div 2 = Suc ((n - (i + 2) + 1) div (2 :: nat))"
  by arith

lemma decode_up_eq:
  "decode_up s i = map (\<lambda>t. s ! (i + 2 * t) XOR 128) [0..<(length s - i + 1) div 2]"
proof (induction s i rule: decode_up.induct)
  case (1 s i)
  show ?case
  proof (cases "i < length s")
    case True
    then have "(length s - i + 1) div 2 = Suc ((length s - (i + 2) + 1) div 2)"
      by (rule half_step)
    then show ?thesis
      using "1" [OF True] True
      by (subst decode_up.simps) (simp add: map_upt_Suc del: upt_Suc)
  next
    case False
    then show ?thesis by (subst decode_up.simps) simp
  qed
qed

lemma decode_down_eq:
  "i < length s \<Longrightarrow> odd i \<Longrightarrow>
     decode_down s (int i) = Inr (map (\<lambda>t. s ! (i - 2 * t) XOR 128) [0..<(i + 1) div 2])"
proof (induction i rule: less_induct)
  case (less i)
  show ?case
  proof (cases "i < 2")
    case True
    then have "i = 1" using less.prems by (auto simp: less_2_cases_iff)
    then show ?thesis using less.prems str_at_nat [of 1 s]
      by (subst decode_down.simps) simp
  next
    case False
    have eq: "int i - 2 = int (i - 2)" using False by simp
    define m where "m = (i - 2 + 1) div 2"
    have IH: "decode_down s (int i - 2) = Inr (map (\<lambda>t. s ! (i - 2 - 2 * t) XOR 128) [0..<m])"
      unfolding eq m_def using False less.prems by (intro less.IH) auto
    have n: "(i + 1) div 2 = Suc m" using False by (simp add: m_def)
    show ?thesis
      unfolding n map_upt_Suc using False less.prems
      by (subst decode_down.simps) (simp add: IH)
  qed
qed

lemma encode_up_eq:
  "length ns = length s \<Longrightarrow> encode_up s ns i ii = (ns', ii') \<Longrightarrow>
     length ns' = length s \<and> ii' = ii + (length s - i + 1) div 2 \<and>
     (\<forall>j < length s. ns' ! j =
        (if i \<le> j \<and> even (j - i) then s ! (ii + (j - i) div 2) XOR 128 else ns ! j))"
proof (induction s ns i ii rule: encode_up.induct)
  case (1 s ns i ii)
  show ?case
  proof (cases "i < length s")
    case True
    then have rec: "encode_up s (ns[i := s ! ii XOR 128]) (i + 2) (Suc ii) = (ns', ii')"
      using "1.prems"(2) by (simp add: encode_up.simps [of s ns])
    have IH: "length ns' = length s \<and> ii' = Suc ii + (length s - (i + 2) + 1) div 2 \<and>
      (\<forall>j < length s. ns' ! j =
        (if i + 2 \<le> j \<and> even (j - (i + 2)) then s ! (Suc ii + (j - (i + 2)) div 2) XOR 128
         else ns[i := s ! ii XOR 128] ! j))"
      using "1.IH" [OF True _ rec] "1.prems"(1) by simp
    have cnt: "(length s - i + 1) div 2 = Suc ((length s - (i + 2) + 1) div 2)"
      using True by (rule half_step)
    have "ns' ! j = (if i \<le> j \<and> even (j - i) then s ! (ii + (j - i) div 2) XOR 128 else ns ! j)"
      if "j < length s" for j
    proof -
      consider "j < i" | "j = i" | "j = i + 1" | "i + 2 \<le> j" by linarith
      then show ?thesis
      proof cases
        case 4
        then obtain d where "j = i + 2 + d" using le_Suc_ex by blast
        then show ?thesis using IH that by simp
      qed (use IH that "1.prems"(1) in \<open>auto\<close>)
    qed
    then show ?thesis using IH cnt by simp
  next
    case False
    then show ?thesis using "1.prems" by (simp add: encode_up.simps [of s ns])
  qed
qed

lemma length_encode_down [simp]: "length (encode_down s ns i ii) = length ns"
proof (induction s ns i ii rule: encode_down.induct)
  case (1 s ns i ii)
  then show ?case by (subst encode_down.simps) simp
qed

lemma encode_down_nth:
  "i < int (length ns) \<Longrightarrow> j < length ns \<Longrightarrow> encode_down s ns i ii ! j =
     (if 2 \<le> j \<and> int j \<le> i \<and> even (i - int j)
      then s ! (ii + nat ((i - int j) div 2)) XOR 128 else ns ! j)"
proof (induction s ns i ii rule: encode_down.induct)
  case (1 s ns i ii)
  show ?case
  proof (cases "2 \<le> i")
    case True
    let ?ns = "ns[nat i := s ! ii XOR 128]"
    have IH: "encode_down s ?ns (i - 2) (Suc ii) ! j =
      (if 2 \<le> j \<and> int j \<le> i - 2 \<and> even (i - 2 - int j)
       then s ! (Suc ii + nat ((i - 2 - int j) div 2)) XOR 128 else ?ns ! j)"
      using "1" True by simp
    have e: "encode_down s ns i ii = encode_down s ?ns (i - 2) (Suc ii)"
      using True by (simp add: encode_down.simps [of s ns])
    consider "int j \<le> i - 2" | "int j = i - 1" | "int j = i" | "i < int j" by linarith
    then show ?thesis
    proof cases
      case 1
      then have "nat ((i - int j) div 2) = Suc (nat ((i - 2 - int j) div 2))" by linarith
      moreover have "even (i - 2 - int j) = even (i - int j)" by simp
      moreover have "nat i \<noteq> j" using 1 by linarith
      ultimately show ?thesis using 1 by (simp add: e IH)
    next
      case 3
      then have "nat i = j" by simp
      then have "?ns ! j = s ! ii XOR 128" using "1.prems"(2) by simp
      moreover have "encode_down s ?ns (i - 2) (Suc ii) ! j = ?ns ! j" using IH 3 by simp
      ultimately show ?thesis using 3 True by (simp add: e)
    next
      case 4
      then have "nat i \<noteq> j" using True by simp
      then show ?thesis using 4 by (simp add: e IH)
    qed (auto simp: e IH)
  next
    case False
    then show ?thesis by (auto simp: encode_down.simps [of s ns])
  qed
qed

text \<open>
  The specification of the interleaving: position \<open>m\<close> of the sent payload holds byte
  \<open>scramble_index n m\<close> of the \<open>n\<close> bytes, the first half ascending on even positions and the
  second half descending on odd ones.
\<close>

definition odd_top :: "nat \<Rightarrow> nat" where
  "odd_top n = (if even n then n - 1 else n - 2)"

definition scramble_index :: "nat \<Rightarrow> nat \<Rightarrow> nat" where
  "scramble_index n m =
     (if even m then m div 2 else (n + 1) div 2 + (odd_top n - m) div 2)"

definition scramble :: "bytes \<Rightarrow> bytes" where
  "scramble w =
     map (\<lambda>m. swap_0_128 (w ! scramble_index (length w) m XOR 128)) [0..<length w]"

lemma length_scramble [simp]: "length (scramble w) = length w"
  by (simp add: scramble_def)

lemma nth_scramble:
  "m < length w \<Longrightarrow> scramble w ! m = swap_0_128 (w ! scramble_index (length w) m XOR 128)"
  by (simp add: scramble_def)

lemma odd_top_bounds: "2 \<le> n \<Longrightarrow> odd (odd_top n) \<and> odd_top n < n \<and> (odd_top n + 1) div 2 = n div 2"
  by (auto simp: odd_top_def elim!: oddE)

lemma scramble_index_1: "2 \<le> n \<Longrightarrow> scramble_index n (Suc 0) = n - Suc 0"
  by (cases "even n") (auto simp: scramble_index_def odd_top_def elim!: evenE oddE)

text \<open>\<open>Encode\<close> keeps the header and scrambles the wound payload.\<close>

lemma encode_loops:
  fixes h0 h1 :: byte and w :: bytes
  assumes "2 \<le> length w"
  defines "s \<equiv> h0 # h1 # w" and "N \<equiv> length w + 2"
  assumes up: "encode_up s ((replicate N 0)[0 := s ! 0, 1 := s ! 1]) 2 2 = (ns, ii)"
  shows "swap_from 2 (encode_down s ns (if N mod 2 \<noteq> 0 then int N - 1 - 1 else int N - 1) ii)
    = h0 # h1 # scramble w"
proof -
  let ?n = "length w" and ?r0 = "(replicate N (0 :: byte))[0 := s ! 0, 1 := s ! 1]"
  let ?i = "if N mod 2 \<noteq> 0 then int N - 1 - 1 else int N - 1"
  have len: "length s = N" "length ?r0 = length s" by (simp_all add: s_def N_def)
  note ue = encode_up_eq [OF len(2) up]
  have iv: "?i = int (odd_top ?n + 2)"
    using assms(1) by (auto simp: N_def odd_top_def even_iff_mod_2_eq_zero)
  have iiv: "ii = 2 + (?n + 1) div 2" using ue by (simp add: len(1) N_def)
  have lens: "length ns = N" using ue len by simp
  have *: "encode_down s ns ?i ii ! (m + 2) = w ! scramble_index ?n m XOR 128" if "m < ?n" for m
  proof (cases "even m")
    case True
    then have "odd (?i - int (m + 2))"
      unfolding iv using odd_top_bounds [OF assms(1)] by simp
    then have "encode_down s ns ?i ii ! (m + 2) = ns ! (m + 2)"
      using that lens odd_top_bounds [OF assms(1)]
      by (subst encode_down_nth) (auto simp: iv N_def)
    also have "\<dots> = s ! (2 + m div 2) XOR 128"
      using ue that len True by (simp add: N_def)
    also have "s ! (2 + m div 2) = w ! (m div 2)" by (simp add: s_def)
    finally show ?thesis using True by (simp add: scramble_index_def)
  next
    case False
    note ob = odd_top_bounds [OF assms(1)]
    have le: "m \<le> odd_top ?n"
      using that False by (cases "m = ?n - 1") (auto simp: odd_top_def)
    obtain d where d: "odd_top ?n = m + d" using le le_Suc_ex by blast
    then have ev: "even d" using ob False by simp
    have "nat (int d div 2) = d div 2" by (simp flip: zdiv_int)
    then have "encode_down s ns ?i ii ! (m + 2) = s ! (ii + d div 2) XOR 128"
      unfolding iv d using that lens ob ev False d
      by (subst encode_down_nth) (simp_all add: N_def)
    then have "encode_down s ns ?i ii ! (m + 2) = s ! (ii + (odd_top ?n - m) div 2) XOR 128"
      by (simp add: d)
    also have "s ! (ii + (odd_top ?n - m) div 2) = w ! ((?n + 1) div 2 + (odd_top ?n - m) div 2)"
      by (simp add: iiv s_def)
    finally show ?thesis using False by (simp add: scramble_index_def)
  qed
  have hd: "encode_down s ns ?i ii ! j = s ! j" if "j < 2" for j
  proof -
    have "encode_down s ns ?i ii ! j = ns ! j"
      using that lens odd_top_bounds [OF assms(1)]
      by (subst encode_down_nth) (auto simp: iv N_def)
    also have "ns ! j = ?r0 ! j" using ue that len by (simp add: N_def)
    also have "\<dots> = s ! j" using that by (auto simp: N_def less_2_cases_iff)
    finally show ?thesis .
  qed
  define E where "E = encode_down s ns ?i ii"
  have lenE: "length E = N" by (simp add: E_def lens)
  have "swap_from 2 E = h0 # h1 # scramble w"
  proof (rule nth_equalityI)
    fix j
    assume "j < length (swap_from 2 E)"
    then have j: "j < length E" by simp
    show "swap_from 2 E ! j = (h0 # h1 # scramble w) ! j"
    proof (cases "j < 2")
      case True
      then have "swap_from 2 E ! j = s ! j"
        using nth_swap_from [OF j, of 2] hd [OF True] by (simp add: E_def)
      also have "\<dots> = (h0 # h1 # scramble w) ! j"
        using True by (auto simp: s_def less_2_cases_iff)
      finally show ?thesis .
    next
      case False
      then obtain m where m: "j = m + 2" by (metis add.commute le_Suc_ex not_less)
      then have n: "m < ?n" using j by (simp add: lenE N_def)
      have "swap_from 2 E ! j = swap_0_128 (w ! scramble_index ?n m XOR 128)"
        using nth_swap_from [OF j, of 2] * [OF n] by (simp add: m E_def)
      then show ?thesis using n by (simp add: m nth_scramble)
    qed
  qed (simp add: lenE N_def)
  then show ?thesis by (simp add: E_def)
qed

text \<open>The whole of \<open>Encode\<close> on a packet with its two length bytes.\<close>

definition init_payload :: "bytes \<Rightarrow> bool" where
  "init_payload pl \<longleftrightarrow>
     pl ! 0 = action_value PACKET_A_INIT \<and> pl ! 1 = family_value PACKET_F_INIT"

lemma Encode_payload:
  assumes "emulti_e p \<noteq> 0" "2 \<le> length pl" "\<not> init_payload pl" "h1 mod emulti_e p \<noteq> 0"
  shows "Encode p (h0 # h1 # pl) = Inr (h0 # h1 # scramble (DickWinder pl (emulti_e p)))"
proof -
  define w where "w = DickWinder pl (emulti_e p)"
  have w2: "2 \<le> length w" using assms(2) by (simp add: w_def)
  obtain ns ii where up: "encode_up (h0 # h1 # w)
      ((replicate (length w + 2) 0)[0 := (h0 # h1 # w) ! 0, 1 := (h0 # h1 # w) ! 1]) 2 2 = (ns, ii)"
    by (metis surj_pair)
  have dw: "DickWinderE p (h0 # h1 # pl) = h0 # h1 # w"
    by (simp add: DickWinderE_def DickWinder_header [OF assms(4)] w_def)
  have at: "str_at (h0 # h1 # pl) 2 = Inr (pl ! 0)" "str_at (h0 # h1 # pl) 3 = Inr (pl ! 1)"
  proof -
    from assms(2) obtain a b r where "pl = a # b # r"
      by (metis Suc_le_length_iff numeral_2_eq_2)
    then show "str_at (h0 # h1 # pl) 2 = Inr (pl ! 0)" "str_at (h0 # h1 # pl) 3 = Inr (pl ! 1)"
      by (simp_all add: str_at_def)
  qed
  have nb: "\<not> (pl ! 0 = action_value PACKET_A_INIT \<and> pl ! 1 = family_value PACKET_F_INIT)"
    using assms(3) by (simp add: init_payload_def)
  have len: "length (h0 # h1 # w) = length w + 2" by simp
  have "Encode p (h0 # h1 # pl) = Inr (swap_from 2 (encode_down (h0 # h1 # w) ns
      (if (length w + 2) mod 2 \<noteq> 0 then int (length w + 2) - 1 - 1
       else int (length w + 2) - 1) ii))"
    using assms(1) nb
    by (cases "pl ! 0 = action_value PACKET_A_INIT")
      (simp_all only: Encode_def at bind_out.simps dw Let_def len up prod.case if_False if_True simp_thms)
  then have "Encode p (h0 # h1 # pl) = Inr (h0 # h1 # scramble w)"
    using encode_loops [OF w2 up] by simp
  then show ?thesis by (simp add: w_def)
qed

lemma Encode_passthrough:
  "emulti_e p = 0 \<Longrightarrow> Encode p s = Inr s"
  "init_payload pl \<Longrightarrow> 2 \<le> length pl \<Longrightarrow> Encode p (h0 # h1 # pl) = Inr (h0 # h1 # pl)"
proof -
  show "emulti_e p = 0 \<Longrightarrow> Encode p s = Inr s" by (simp add: Encode_def)
  assume i: "init_payload pl" and "2 \<le> length pl"
  then obtain a b r where "pl = a # b # r" by (metis Suc_le_length_iff numeral_2_eq_2)
  with i show "Encode p (h0 # h1 # pl) = Inr (h0 # h1 # pl)"
    by (simp add: Encode_def str_at_def init_payload_def)
qed

text \<open>\<open>Decode\<close> undoes the scrambling and the winding.\<close>

lemma decode_loops:
  assumes "2 \<le> length w"
  shows "\<exists>d. decode_down (scramble w) (int (odd_top (length w))) = Inr d \<and>
    decode_up (scramble w) 0 @ d = map (\<lambda>b. swap_0_128 (b XOR 128) XOR 128) w"
proof -
  let ?n = "length w" and ?f = "\<lambda>b. swap_0_128 (b XOR 128) XOR (128 :: byte)"
  define T where "T = odd_top ?n"
  have T: "odd T" "T < ?n" "(T + 1) div 2 = ?n div 2"
    using odd_top_bounds [OF assms] by (auto simp: T_def)
  have half_le: "(?n + 1) div 2 \<le> ?n" using assms by simp
  have up: "decode_up (scramble w) 0 = map ?f (take ((?n + 1) div 2) w)"
    by (rule nth_equalityI) (auto simp: decode_up_eq nth_scramble scramble_index_def)
  have dn: "decode_down (scramble w) (int T)
      = Inr (map (\<lambda>t. scramble w ! (T - 2 * t) XOR 128) [0..<?n div 2])"
    using decode_down_eq [of T "scramble w"] T(1,2) unfolding T(3) by simp
  have "map (\<lambda>t. scramble w ! (T - 2 * t) XOR 128) [0..<?n div 2] = map ?f (drop ((?n + 1) div 2) w)"
  proof (rule nth_equalityI)
    fix t
    assume "t < length (map (\<lambda>t. scramble w ! (T - 2 * t) XOR 128) [0..<?n div 2])"
    then have t: "t < ?n div 2" by simp
    then have le: "2 * t \<le> T" using T by linarith
    then have od: "odd (T - 2 * t)" using T(1) by simp
    have "(T - (T - 2 * t)) div 2 = t" using le by simp
    then have "scramble_index ?n (T - 2 * t) = (?n + 1) div 2 + t"
      using od by (simp add: scramble_index_def T_def)
    then have "map (\<lambda>t. scramble w ! (T - 2 * t) XOR 128) [0..<?n div 2] ! t
        = ?f (w ! ((?n + 1) div 2 + t))"
      using t T(2) by (simp add: nth_scramble)
    also have "\<dots> = ?f (drop ((?n + 1) div 2) w ! t)"
      by (subst nth_drop [OF half_le]) (rule refl)
    also have "\<dots> = map ?f (drop ((?n + 1) div 2) w) ! t"
      using t assms by (subst nth_map) auto
    finally show "map (\<lambda>t. scramble w ! (T - 2 * t) XOR 128) [0..<?n div 2] ! t
        = map ?f (drop ((?n + 1) div 2) w) ! t" .
  qed simp
  with up dn show ?thesis
    unfolding T_def by (simp flip: map_append)
qed

definition payload_sendable :: "byte \<Rightarrow> bytes \<Rightarrow> bool" where
  "payload_sendable k pl \<longleftrightarrow>
     (let w = DickWinder pl k
      in 2 \<le> length pl \<and> \<not> init_payload pl
         \<and> w ! 0 \<noteq> 0 \<and> w ! 0 \<noteq> 128 \<and> w ! 1 \<noteq> 0 \<and> w ! 1 \<noteq> 128
         \<and> \<not> (w ! 0 = 127 \<and> last w = 127))"

lemma Decode_scramble:
  assumes "emulti_d q = k" "k \<noteq> 0" "payload_sendable k pl"
  shows "Decode q (scramble (DickWinder pl k)) = Inr pl"
proof -
  define w where "w = DickWinder pl k"
  let ?f = "\<lambda>b. swap_0_128 (b XOR 128) XOR (128 :: byte)" and ?s = "scramble w"
  have w2: "2 \<le> length w" and ok: "w ! 0 \<notin> {0, 128}" "w ! 1 \<notin> {0, 128}"
    and ni: "\<not> (w ! 0 = 127 \<and> last w = 127)"
    using assms(3) by (auto simp: payload_sendable_def Let_def w_def)
  obtain d where d: "decode_down ?s (int (odd_top (length w))) = Inr d"
    "decode_up ?s 0 @ d = map ?f w"
    using decode_loops [OF w2] by blast
  have un: "swap_from 2 (map ?f w) = w"
  proof (rule nth_equalityI)
    fix j
    assume "j < length (swap_from 2 (map ?f w))"
    then have "j < length w" by simp
    then show "swap_from 2 (map ?f w) ! j = w ! j"
      using ok by (cases "j < 2") (auto simp: nth_swap_from byte_map_inv_plain less_2_cases_iff)
  qed simp
  have s01: "?s ! 0 = swap_0_128 (w ! 0 XOR 128)" "?s ! 1 = swap_0_128 (last w XOR 128)"
  proof -
    have l: "0 < length w" "1 < length w" "w \<noteq> []" using w2 by auto
    then show "?s ! 0 = swap_0_128 (w ! 0 XOR 128)"
      by (simp add: nth_scramble scramble_index_def)
    show "?s ! 1 = swap_0_128 (last w XOR 128)"
      using l scramble_index_1 [OF w2] by (simp add: nth_scramble last_conv_nth)
  qed
  have "?s ! 0 = 255 \<Longrightarrow> w ! 0 = 127" "?s ! 1 = 255 \<Longrightarrow> last w = 127"
    by (simp_all add: s01 byte_map_255 del: One_nat_def)
  then have nb: "\<not> (?s ! 0 = action_value PACKET_A_INIT \<and> ?s ! 1 = family_value PACKET_F_INIT)"
    using ni by auto
  have at: "str_at ?s 0 = Inr (?s ! 0)" "str_at ?s 1 = Inr (?s ! 1)"
  proof -
    have "w \<noteq> []" "1 < length w" using w2 by auto
    then show "str_at ?s 0 = Inr (?s ! 0)" "str_at ?s 1 = Inr (?s ! 1)"
      by (simp_all add: str_at_def)
  qed
  let ?len = "int (length ?s)"
  have top: "(if ?len mod 2 \<noteq> 0 then ?len + ?len mod 2 - 1 - 2 else ?len + ?len mod 2 - 1)
      = int (odd_top (length w))"
    using w2 by (cases "even (length w)") (auto simp: odd_top_def elim!: evenE oddE)
  have "Decode q ?s = Inr (DickWinderD q (swap_from 2 (map ?f w)))"
    using assms(1,2) nb
    by (cases "?s ! 0 = action_value PACKET_A_INIT")
      (simp_all only: Decode_def at bind_out.simps Let_def top d if_False if_True simp_thms)
  then show ?thesis
    unfolding un DickWinderD_def assms(1) by (simp add: w_def)
qed

text \<open>Server and client share the multiplier: the obfuscation is a codec on such packets.\<close>

definition packet_enc :: "byte \<times> byte \<times> byte \<times> bytes \<Rightarrow> byte \<times> bytes outcome" where
  "packet_enc x = (case x of (k, h0, h1, pl) \<Rightarrow>
     (k, Encode (SetEMulti k 0 PacketProcessor_init) (h0 # h1 # pl)))"

definition packet_dec :: "byte \<times> bytes outcome \<Rightarrow> (byte \<times> byte \<times> byte \<times> bytes) option" where
  "packet_dec y = (case y of
     (k, Inr (h0 # h1 # e)) \<Rightarrow>
       (case Decode (SetEMulti 0 k PacketProcessor_init) e of
          Inr pl \<Rightarrow> Some (k, h0, h1, pl) | Inl _ \<Rightarrow> None)
   | _ \<Rightarrow> None)"

interpretation obfuscation: codec packet_enc packet_dec
  "\<lambda>(k, h0, h1, pl). k \<noteq> 0 \<and> payload_sendable k pl \<and> h1 mod k \<noteq> 0"
proof
  fix x :: "byte \<times> byte \<times> byte \<times> bytes"
  assume v: "case x of (k, h0, h1, pl) \<Rightarrow> k \<noteq> 0 \<and> payload_sendable k pl \<and> h1 mod k \<noteq> 0"
  obtain k h0 h1 pl where x: "x = (k, h0, h1, pl)" by (cases x) auto
  have "packet_enc x = (k, Inr (h0 # h1 # scramble (DickWinder pl k)))"
    using v Encode_payload [of "SetEMulti k 0 PacketProcessor_init" pl h1 h0]
    by (simp add: x packet_enc_def SetEMulti_def payload_sendable_def Let_def)
  then show "packet_dec (packet_enc x) = Some x"
    using v Decode_scramble [of "SetEMulti 0 k PacketProcessor_init" k pl]
    by (simp add: x packet_dec_def SetEMulti_def)
qed

section \<open>Properties\<close>

text \<open>C35: a number below 253 to the fourth is read back from the four bytes \<open>ENumber\<close> writes.\<close>

theorem Number_ENumber:
  assumes "unat n < 253 ^ 4" and "ENumber n = ((b0, b1, b2, b3), sz)"
  shows "Number b0 b1 b2 b3 = n"
proof -
  have "n < 253 * MAX3" using assms(1) by (simp add: MAX3_def word_less_nat_alt)
  then show ?thesis
    using enumber.dec_enc [of n] assms(2) by (simp add: ENumber_def)
qed

theorem Number_ENumber_witness:
  "unat (1000000 :: u32) < 253 ^ 4 \<and> ENumber 1000000 = ((145, 158, 16, 254), 4)
     \<and> Number 145 158 16 254 = 1000000"
proof -
  have "ENumber 1000000 = ((145, 158, 16, 254), 4)" by code_simp
  then show ?thesis using Number_ENumber [of 1000000 145 158 16 254 4] by simp
qed

text \<open>\<open>DickWinder\<close> is its own inverse and only permutes the bytes of the packet.\<close>

theorem DickWinder_self_inverse:
  "DickWinder (DickWinder s k) k = s \<and> mset (DickWinder s k) = mset s"
proof -
  have "mset (dick_winder_loop k acc buf cs) = mset acc + mset buf + mset cs" for acc buf cs
    by (induction k acc buf cs rule: dick_winder_loop.induct) auto
  then show ?thesis by (simp add: DickWinder_def dick_winder_involution)
qed



end
