(* ===== verification/Packet_IO.thy ===== *)
theory Packet_IO
  imports Packet_Codec
begin

text \<open>
  The classes \<open>PacketReader\<close> and \<open>PacketBuilder\<close> of \<open>src/packet.cpp\<close>. A reader is the decoded
  packet with a position in it; positions and lengths are \<open>std::size_t\<close>, so \<open>Remaining\<close> wraps
  around when the position has run past the end. A builder collects the bytes of a packet;
  the capacity of its string, the debug output and the destructors that clear the strings
  are not part of the model.

  The locale \<open>field\<close> is the interface between an \<open>Add\<close> operation of the builder and the
  \<open>Get\<close> operation of the reader that reads it back; it is interpreted on every such pair.
\<close>

section \<open>Reader\<close>

record PacketReader =
  rd_data :: bytes
  rd_pos :: size_t

definition PacketReader_new :: "bytes \<Rightarrow> PacketReader" where
  "PacketReader_new d = \<lparr>rd_data = d, rd_pos = 2\<rparr>"

definition reader_Length :: "PacketReader \<Rightarrow> size_t" where
  "reader_Length r = of_nat (length (rd_data r))"

definition Remaining :: "PacketReader \<Rightarrow> size_t" where
  "Remaining r = reader_Length r - rd_pos r"

definition Action :: "PacketReader \<Rightarrow> byte" where
  "Action r = (if reader_Length r < 1 then 0 else rd_data r ! 0)"

definition Family :: "PacketReader \<Rightarrow> byte" where
  "Family r = (if reader_Length r < 2 then 0 else rd_data r ! 1)"

text \<open>\<open>std::copy_n\<close> from the data into the array of four bytes, both ends checked.\<close>

definition GetNumber :: "size_t \<Rightarrow> PacketReader \<Rightarrow> (u32 \<times> PacketReader) outcome" where
  "GetNumber len r =
     (let read_len = min len (Remaining r);
          n = unat read_len; p = unat (rd_pos r)
      in if p + n > length (rd_data r) then Inl Read_Out_Of_Bounds
         else if n > 4 then Inl Write_Out_Of_Bounds
         else let b = take n (drop p (rd_data r)) @ replicate (4 - n) 254
              in Inr (Number (b ! 0) (b ! 1) (b ! 2) (b ! 3), r\<lparr>rd_pos := rd_pos r + read_len\<rparr>))"

definition GetByte :: "PacketReader \<Rightarrow> (byte \<times> PacketReader) outcome" where
  "GetByte r =
     (if Remaining r < 1 then Inr (0, r)
      else bind_out (str_at (rd_data r) (int (unat (rd_pos r)))) (\<lambda>b.
           Inr (b, r\<lparr>rd_pos := rd_pos r + 1\<rparr>)))"

definition GetChar :: "PacketReader \<Rightarrow> (byte \<times> PacketReader) outcome" where
  "GetChar r = bind_out (GetNumber 1 r) (\<lambda>(n, r'). Inr (ucast n, r'))"

definition GetShort :: "PacketReader \<Rightarrow> (u16 \<times> PacketReader) outcome" where
  "GetShort r = bind_out (GetNumber 2 r) (\<lambda>(n, r'). Inr (ucast n, r'))"

definition GetThree :: "PacketReader \<Rightarrow> (u32 \<times> PacketReader) outcome" where
  "GetThree r = GetNumber 3 r"

definition GetInt :: "PacketReader \<Rightarrow> (u32 \<times> PacketReader) outcome" where
  "GetInt r = GetNumber 4 r"

text \<open>\<open>substr\<close> throws when the position lies behind the end of the string.\<close>

definition GetFixedString :: "size_t \<Rightarrow> PacketReader \<Rightarrow> (bytes \<times> PacketReader) outcome" where
  "GetFixedString len r =
     (if Remaining r < len then Inr ([], r)
      else if unat (rd_pos r) > length (rd_data r) then Inl Std_Out_Of_Range
      else let ret = take (unat len) (drop (unat (rd_pos r)) (rd_data r))
           in Inr (ret, r\<lparr>rd_pos := rd_pos r + of_nat (length ret)\<rparr>))"

definition find_first_of :: "byte \<Rightarrow> size_t \<Rightarrow> bytes \<Rightarrow> size_t" where
  "find_first_of c p s =
     (case find_from (\<lambda>b. b = c) (unat p) s of None \<Rightarrow> -1 | Some k \<Rightarrow> of_nat k)"

definition GetBreakString :: "byte \<Rightarrow> PacketReader \<Rightarrow> (bytes \<times> PacketReader) outcome" where
  "GetBreakString breakchar r =
     bind_out (GetFixedString (find_first_of breakchar (rd_pos r) (rd_data r) - rd_pos r) r)
       (\<lambda>(ret, r'). Inr (ret, r'\<lparr>rd_pos := rd_pos r' + 1\<rparr>))"

definition GetEndString :: "PacketReader \<Rightarrow> (bytes \<times> PacketReader) outcome" where
  "GetEndString r = GetFixedString (Remaining r) r"

section \<open>Builder\<close>

record PacketBuilder =
  b_id :: u16
  b_data :: bytes
  b_add_size :: size_t

definition SetID_raw :: "u16 \<Rightarrow> PacketBuilder \<Rightarrow> PacketBuilder" where
  "SetID_raw i b =
     b\<lparr>b_id := (if i = 0 then PID (family_value PACKET_F_INIT) (action_value PACKET_A_INIT) else i)\<rparr>"

definition SetID :: "PacketFamily \<Rightarrow> PacketAction \<Rightarrow> PacketBuilder \<Rightarrow> PacketBuilder" where
  "SetID f a b = SetID_raw (PID (family_value f) (action_value a)) b"

definition PacketBuilder_new :: "PacketFamily \<Rightarrow> PacketAction \<Rightarrow> PacketBuilder" where
  "PacketBuilder_new f a = SetID f a \<lparr>b_id = 0, b_data = [], b_add_size = 0\<rparr>"

definition builder_append :: "bytes \<Rightarrow> PacketBuilder \<Rightarrow> PacketBuilder" where
  "builder_append s b = b\<lparr>b_data := b_data b @ s\<rparr>"

definition number_prefix :: "nat \<Rightarrow> u32 \<Rightarrow> bytes" where
  "number_prefix k num = take k (bytes_list (fst (ENumber num)))"

definition AddByte :: "byte \<Rightarrow> PacketBuilder \<Rightarrow> PacketBuilder" where
  "AddByte x b = builder_append [x] b"

definition AddChar :: "byte \<Rightarrow> PacketBuilder \<Rightarrow> PacketBuilder" where
  "AddChar num b = builder_append (number_prefix 1 (ucast num)) b"

definition AddShort :: "u16 \<Rightarrow> PacketBuilder \<Rightarrow> PacketBuilder" where
  "AddShort num b = builder_append (number_prefix 2 (ucast num)) b"

definition AddThree :: "u32 \<Rightarrow> PacketBuilder \<Rightarrow> PacketBuilder" where
  "AddThree num b = builder_append (number_prefix 3 num) b"

definition AddInt :: "u32 \<Rightarrow> PacketBuilder \<Rightarrow> PacketBuilder" where
  "AddInt num b = builder_append (number_prefix 4 num) b"

definition AddVar :: "int \<Rightarrow> int \<Rightarrow> u32 \<Rightarrow> PacketBuilder \<Rightarrow> PacketBuilder" where
  "AddVar lo hi num b =
     (if lo \<le> 1 \<and> (hi \<le> 1 \<or> num < MAX1) then AddChar (ucast num) b
      else if lo \<le> 2 \<and> (hi \<le> 2 \<or> num < MAX2) then AddShort (ucast num) b
      else if lo \<le> 3 \<and> (hi \<le> 3 \<or> num < MAX3) then AddThree num b
      else AddInt num b)"

definition AddString :: "bytes \<Rightarrow> PacketBuilder \<Rightarrow> PacketBuilder" where
  "AddString str b = builder_append str b"

text \<open>The loop of \<open>AddBreakString\<close>: every break character becomes the letter \<open>y\<close>.\<close>

function break_loop :: "byte \<Rightarrow> bytes \<Rightarrow> nat option \<Rightarrow> bytes" where
  "break_loop breakchar tempstr breakin =
     (case breakin of
        None \<Rightarrow> tempstr
      | Some k \<Rightarrow>
          if k < length tempstr
          then break_loop breakchar (tempstr[k := of_char (CHR ''y'')])
                 (find_from (\<lambda>c. c = breakchar) (k + 1) (tempstr[k := of_char (CHR ''y'')]))
          else tempstr)"
  by pat_completeness auto
termination
proof (relation "measure (\<lambda>(c, s, i). case i of None \<Rightarrow> 0 | Some k \<Rightarrow> Suc (length s) - k)")
  fix c :: byte and s :: bytes and i :: "nat option" and k :: nat
  assume "i = Some k" "k < length s"
  then show "((c, s[k := of_char (CHR ''y'')],
      find_from (\<lambda>d. d = c) (k + 1) (s[k := of_char (CHR ''y'')])), (c, s, i))
    \<in> measure (\<lambda>(c, s, i). case i of None \<Rightarrow> 0 | Some k \<Rightarrow> Suc (length s) - k)"
    by (auto split: option.split dest: find_from_Some(1,2))
qed simp

declare break_loop.simps [simp del, loop_simps]

definition AddBreakString :: "bytes \<Rightarrow> byte \<Rightarrow> PacketBuilder \<Rightarrow> PacketBuilder" where
  "AddBreakString str breakchar b =
     builder_append (break_loop breakchar str (find_from (\<lambda>c. c = breakchar) 0 str) @ [breakchar]) b"

definition AddSize :: "size_t \<Rightarrow> PacketBuilder \<Rightarrow> PacketBuilder" where
  "AddSize sz b = b\<lparr>b_add_size := b_add_size b + sz\<rparr>"

definition builder_Reset :: "PacketBuilder \<Rightarrow> PacketBuilder" where
  "builder_Reset b = b\<lparr>b_data := []\<rparr>"

definition builder_Get :: "PacketBuilder \<Rightarrow> bytes" where
  "builder_Get b =
     (let id = EPID (b_id b);
          len = bytes_list (fst (ENumber (ucast (of_nat (length (b_data b)) + 2 + b_add_size b :: size_t))))
      in [len ! 0, len ! 1, fst id, snd id] @ b_data b)"

definition builder_eq :: "PacketBuilder \<Rightarrow> PacketBuilder \<Rightarrow> bool" where
  "builder_eq b c \<longleftrightarrow> builder_Get b = builder_Get c"

section \<open>What a reader sees\<close>

text \<open>A reader with \<open>pre\<close> behind it and \<open>post\<close> to come; a reader whose position is in range.\<close>

definition reader_at :: "bytes \<Rightarrow> bytes \<Rightarrow> PacketReader" where
  "reader_at pre post = \<lparr>rd_data = pre @ post, rd_pos = of_nat (length pre)\<rparr>"

definition fits :: "bytes \<Rightarrow> bool" where
  "fits s \<longleftrightarrow> length s < 2 ^ 63"

definition reader_ok :: "PacketReader \<Rightarrow> bool" where
  "reader_ok r \<longleftrightarrow> fits (rd_data r) \<and> unat (rd_pos r) \<le> length (rd_data r)"

lemma reader_at_simps [simp]:
  "rd_data (reader_at pre post) = pre @ post"
  "rd_pos (reader_at pre post) = of_nat (length pre)"
  by (simp_all add: reader_at_def)

lemma fits_appendD: "fits (pre @ post) \<Longrightarrow> fits pre \<and> fits post"
  by (simp add: fits_def)

lemma unat_of_nat_le_fits [simp]:
  assumes "fits s" "n \<le> length s"
  shows "unat (of_nat n :: size_t) = n"
proof -
  have "n < 2 ^ 63" using assms unfolding fits_def by linarith
  then have "n < 2 ^ LENGTH(64)" by simp
  then show ?thesis by (rule unat_of_nat_small)
qed

lemma unat_fits [simp]: "fits s \<Longrightarrow> unat (of_nat (length s) :: size_t) = length s"
  by simp

lemma Remaining_reader_at [simp]: "Remaining (reader_at pre post) = of_nat (length post)"
  by (simp add: Remaining_def reader_Length_def)

lemma reader_ok_at: "fits (pre @ post) \<Longrightarrow> reader_ok (reader_at pre post)"
  by (auto simp: reader_ok_def dest: fits_appendD)

lemma reader_okE:
  assumes "reader_ok r"
  obtains pre post where "r = reader_at pre post" "fits (pre @ post)"
proof
  let ?p = "unat (rd_pos r)"
  show "r = reader_at (take ?p (rd_data r)) (drop ?p (rd_data r))"
    using assms by (simp add: reader_at_def reader_ok_def min_absorb2)
  show "fits (take ?p (rd_data r) @ drop ?p (rd_data r))"
    using assms by (simp add: reader_ok_def)
qed

section \<open>Reading numbers\<close>

definition number_of :: "bytes \<Rightarrow> u32" where
  "number_of bs =
     (let b = bs @ replicate (4 - length bs) 254 in Number (b ! 0) (b ! 1) (b ! 2) (b ! 3))"

lemma GetNumber_at:
  assumes "fits (pre @ post)" "n \<le> 4"
  shows "GetNumber (of_nat n) (reader_at pre post)
    = Inr (number_of (take n post), reader_at (pre @ take n post) (drop n post))"
proof -
  let ?m = "min (of_nat n) (of_nat (length post)) :: size_t"
  have f: "fits pre" "fits post" using fits_appendD [OF assms(1)] by auto
  have un: "unat (of_nat n :: size_t) = n" using assms(2) by (simp add: unat_of_nat)
  have up: "unat (of_nat (length post) :: size_t) = length post" using f by simp
  have m: "unat ?m = min n (length post)"
    using un up by (simp add: min_def word_le_nat_alt)
  have lm: "length (take n post) = min n (length post)" by (simp add: min.commute)
  have mv: "?m = of_nat (length (take n post))"
    unfolding lm m [symmetric] by simp
  have tk: "take (unat ?m) post = take n post" unfolding m by (simp add: min_def)
  have "(reader_at pre post)\<lparr>rd_pos := rd_pos (reader_at pre post) + ?m\<rparr>
      = reader_at (pre @ take n post) (drop n post)"
    unfolding mv by (simp add: reader_at_def)
  moreover have "GetNumber (of_nat n) (reader_at pre post)
      = Inr (number_of (take n post), (reader_at pre post)\<lparr>rd_pos := rd_pos (reader_at pre post) + ?m\<rparr>)"
    unfolding GetNumber_def Let_def Remaining_reader_at m
    using assms(2) f(1) tk by (simp add: number_of_def Let_def min.commute m)
  ultimately show ?thesis by simp
qed

lemma number_prefix_eq:
  "ENumber_bytes n = (b0, b1, b2, b3) \<Longrightarrow> number_prefix k n = take k [b0, b1, b2, b3]"
  by (simp add: number_prefix_def ENumber_def bytes_list_def)

lemma length_number_prefix [simp]: "length (number_prefix k n) = min k 4"
  by (cases "ENumber_bytes n") (simp add: number_prefix_eq)

lemma number_of_prefix:
  "number_of (number_prefix (Suc 0) n) = n mod MAX1"
  "number_of (number_prefix 2 n) = n mod MAX2"
  "number_of (number_prefix 3 n) = n mod MAX3"
  "n < 253 * MAX3 \<Longrightarrow> number_of (number_prefix 4 n) = n"
proof -
  obtain b0 b1 b2 b3 where e: "ENumber_bytes n = (b0, b1, b2, b3)" by (cases "ENumber_bytes n")
  note d = ENumber_low_digits(1-3) [OF e]
  have p: "number_prefix (Suc 0) n = [b0]" "number_prefix 2 n = [b0, b1]"
    "number_prefix 3 n = [b0, b1, b2]" "number_prefix 4 n = [b0, b1, b2, b3]"
    by (simp_all add: number_prefix_eq [OF e])
  have N: "number_of [b0] = Number b0 254 254 254" "number_of [b0, b1] = Number b0 b1 254 254"
    "number_of [b0, b1, b2] = Number b0 b1 b2 254" "number_of [b0, b1, b2, b3] = Number b0 b1 b2 b3"
    by (simp_all add: number_of_def Let_def numeral_2_eq_2 numeral_3_eq_3)
  show "number_of (number_prefix (Suc 0) n) = n mod MAX1"
    by (simp add: p N Number_def d mod_radix)
  show "number_of (number_prefix 2 n) = n mod MAX2"
    by (simp add: p N Number_def d(2,3) mod_radix(1) div_mult_mod_eq)
  show "number_of (number_prefix 3 n) = n mod MAX3"
    by (simp only: p N Number_def d digit_in_254 ucast_0 mult_zero_left add_0 add.assoc div_mult_mod_eq)
  show "n < 253 * MAX3 \<Longrightarrow> number_of (number_prefix 4 n) = n"
    using Number_ENumber_bytes [of n] by (simp add: p N e)
qed

text \<open>What comes back of a number of any size: its residue modulo the width's radix.\<close>

lemma GetNumber_prefix:
  assumes "fits (pre @ number_prefix k n @ post)" "k \<le> 4"
  shows "GetNumber (of_nat k) (reader_at pre (number_prefix k n @ post))
    = Inr (number_of (number_prefix k n), reader_at (pre @ number_prefix k n) post)"
proof -
  have "length (number_prefix k n) = k" using assms(2) by simp
  then show ?thesis using GetNumber_at [OF assms] by simp
qed

section \<open>Strings\<close>

lemma GetFixedString_at:
  assumes "fits (pre @ s @ post)"
  shows "GetFixedString (of_nat (length s)) (reader_at pre (s @ post))
    = Inr (s, reader_at (pre @ s) post)"
proof -
  have f: "fits pre" "fits (s @ post)" "fits s" using assms fits_appendD by blast+
  have "\<not> of_nat (length (s @ post)) < (of_nat (length s) :: size_t)"
    unfolding word_less_nat_alt unat_fits [OF f(2)] unat_fits [OF f(3)] by simp
  then show ?thesis
    using f by (simp add: GetFixedString_def del: length_append) (simp add: reader_at_def)
qed

lemma GetEndString_at:
  assumes "fits (pre @ post)"
  shows "GetEndString (reader_at pre post) = Inr (post, reader_at (pre @ post) [])"
  using GetFixedString_at [of pre post "[]"] assms by (simp add: GetEndString_def)

lemma find_from_at:
  "c \<notin> set s \<Longrightarrow> find_from (\<lambda>b. b = c) (length pre) (pre @ s @ c # post) = Some (length pre + length s)"
proof -
  assume "c \<notin> set s"
  then have "takeWhile (\<lambda>x. x \<noteq> c) (s @ c # post) = s"
    by (subst takeWhile_append2) auto
  then show ?thesis by (simp add: find_from_def)
qed

lemma find_from_absent:
  "c \<notin> set (drop i s) \<Longrightarrow> find_from (\<lambda>b. b = c) i s = None"
proof -
  assume "c \<notin> set (drop i s)"
  then have "takeWhile (\<lambda>x. x \<noteq> c) (drop i s) = drop i s"
    by (auto simp: takeWhile_eq_all_conv)
  then have "length (takeWhile (\<lambda>x. x \<noteq> c) (drop i s)) = length s - i"
    by (metis length_drop)
  then show ?thesis by (simp add: find_from_def Let_def)
qed

lemma GetBreakString_at:
  assumes "c \<notin> set s" "fits (pre @ s @ c # post)"
  shows "GetBreakString c (reader_at pre (s @ c # post)) = Inr (s, reader_at (pre @ s @ [c]) post)"
proof -
  have "fits pre" using assms(2) fits_appendD by blast
  then have "find_first_of c (of_nat (length pre)) (pre @ s @ c # post)
      = of_nat (length pre + length s)"
    using find_from_at [OF assms(1)] by (simp add: find_first_of_def)
  then have "GetBreakString c (reader_at pre (s @ c # post))
      = bind_out (GetFixedString (of_nat (length s)) (reader_at pre (s @ c # post)))
          (\<lambda>(ret, r'). Inr (ret, r'\<lparr>rd_pos := rd_pos r' + 1\<rparr>))"
    by (simp add: GetBreakString_def)
  then show ?thesis
    using GetFixedString_at [OF assms(2)] by (simp add: reader_at_def)
qed

text \<open>No break character left: the reader returns nothing and skips a single byte.\<close>

lemma GetBreakString_absent:
  assumes "c \<notin> set post" "fits (pre @ post)"
  shows "GetBreakString c (reader_at pre post)
    = Inr ([], (reader_at pre post)\<lparr>rd_pos := of_nat (length pre) + 1\<rparr>)"
proof -
  have f: "fits pre" "fits post" using fits_appendD [OF assms(2)] by auto
  then have "find_first_of c (of_nat (length pre)) (pre @ post) = -1"
    using assms(1) by (simp add: find_first_of_def find_from_absent)
  moreover have "of_nat (length post) < (-1 - of_nat (length pre) :: size_t)"
  proof -
    have le: "of_nat (length pre) \<le> (-1 :: size_t)" by simp
    have "length pre + length post < 2 ^ 63" using assms(2) by (simp add: fits_def)
    moreover have "unat (-1 - of_nat (length pre) :: size_t) = 2 ^ 64 - 1 - length pre"
      using f by (subst unat_sub [OF le]) (simp add: unsigned_minus_1_eq_mask mask_eq_exp_minus_1)
    ultimately show ?thesis
      unfolding word_less_nat_alt using f by simp
  qed
  ultimately show ?thesis
    by (simp add: GetBreakString_def GetFixedString_def)
qed

text \<open>The replacement loop of \<open>AddBreakString\<close> against its specification.\<close>

definition break_escape :: "byte \<Rightarrow> bytes \<Rightarrow> bytes" where
  "break_escape c s = map (\<lambda>b. if b = c then of_char (CHR ''y'') else b) s"

lemma break_escape_simps [simp]:
  "break_escape c [] = []"
  "break_escape c (b # s) = (if b = c then of_char (CHR ''y'') else b) # break_escape c s"
  "break_escape c (s @ t) = break_escape c s @ break_escape c t"
  by (simp_all add: break_escape_def)

lemma break_escape_id: "c \<notin> set s \<Longrightarrow> break_escape c s = s"
  unfolding break_escape_def by (rule map_idI) auto

lemma break_loop_nth:
  "break_loop c s i =
     (case i of None \<Rightarrow> s
      | Some k \<Rightarrow> if k < length s
          then take k s @ of_char (CHR ''y'') # break_escape c (drop (Suc k) s) else s)"
proof (induction c s i rule: break_loop.induct)
  case (1 c s i)
  show ?case
  proof (cases i)
    case None
    then show ?thesis by (simp add: break_loop.simps)
  next
    case (Some k)
    show ?thesis
    proof (cases "k < length s")
      case True
      let ?y = "of_char (CHR ''y'') :: byte"
      let ?s = "s[k := ?y]" and ?f = "find_from (\<lambda>b. b = c) (k + 1) (s[k := of_char (CHR ''y'')])"
      have IH: "break_loop c ?s ?f =
         (case ?f of None \<Rightarrow> ?s
          | Some j \<Rightarrow> if j < length ?s then take j ?s @ ?y # break_escape c (drop (Suc j) ?s) else ?s)"
        using "1" [OF Some True] by blast
      have step: "break_loop c s i = break_loop c ?s ?f"
        using Some True by (subst break_loop.simps) simp
      have upd: "?s = take k s @ ?y # drop (Suc k) s"
        using True by (rule upd_conv_take_nth_drop)
      have "break_loop c ?s ?f = take k s @ ?y # break_escape c (drop (Suc k) s)"
      proof (cases ?f)
        case None
        have "c \<notin> set (drop (Suc k) s)"
        proof
          assume "c \<in> set (drop (Suc k) s)"
          then obtain j where "j < length (drop (Suc k) s)" "drop (Suc k) s ! j = c"
            by (metis in_set_conv_nth)
          then show False
            using find_from_None [OF None, of "Suc k + j"] by (auto simp: less_diff_conv add.commute)
        qed
        then have "break_escape c (drop (Suc k) s) = drop (Suc k) s" by (rule break_escape_id)
        then show ?thesis using IH None upd by simp
      next
        case (Some j)
        note fs = find_from_Some [OF Some]
        have jk: "Suc k \<le> j" "j < length s" using fs(1,2) by auto
        have js: "s ! j = c" using fs(3) jk by simp
        have none: "s ! t \<noteq> c" if "Suc k \<le> t" "t < j" for t using fs(4) [of t] that by simp
        have esc: "break_escape c (drop (Suc k) s)
            = take (j - Suc k) (drop (Suc k) s) @ ?y # break_escape c (drop (Suc j) s)"
        proof -
          have "drop (Suc k) s = take (j - Suc k) (drop (Suc k) s) @ drop j s"
            using jk by (metis append_take_drop_id drop_drop le_add_diff_inverse2)
          also have "drop j s = s ! j # drop (Suc j) s" using jk by (simp add: Cons_nth_drop_Suc)
          finally have split: "drop (Suc k) s = take (j - Suc k) (drop (Suc k) s) @ c # drop (Suc j) s"
            by (simp add: js)
          have "c \<notin> set (take (j - Suc k) (drop (Suc k) s))"
          proof
            assume "c \<in> set (take (j - Suc k) (drop (Suc k) s))"
            then obtain i where "i < j - Suc k" "c = s ! (Suc k + i)"
              using jk by (auto simp: in_set_conv_nth)
            then show False using none [of "Suc k + i"] by (auto simp: less_diff_conv add.commute)
          qed
          then show ?thesis
            by (subst split) (simp add: break_escape_id)
        qed
        have "take j ?s = take k s @ ?y # take (j - Suc k) (drop (Suc k) s)"
          unfolding upd using jk by (simp add: take_Cons' min_def)
        moreover have "drop (Suc j) ?s = drop (Suc j) s" using jk by simp
        ultimately show ?thesis using IH Some jk esc by simp
      qed
      then show ?thesis using step Some True by simp
    next
      case False
      then show ?thesis using Some by (simp add: break_loop.simps)
    qed
  qed
qed

lemma break_loop_escape:
  "break_loop c s (find_from (\<lambda>b. b = c) 0 s) = break_escape c s"
proof (cases "find_from (\<lambda>b. b = c) 0 s")
  case None
  have "c \<notin> set s" using find_from_None [OF None] by (auto simp: in_set_conv_nth)
  then show ?thesis using None by (simp add: break_loop_nth break_escape_id)
next
  case (Some k)
  note fs = find_from_Some [OF Some]
  have k: "k < length s" "s ! k = c" using fs(2,3) by auto
  have split: "s = take k s @ c # drop (Suc k) s"
    using id_take_nth_drop [OF k(1)] k(2) by simp
  have "c \<notin> set (take k s)" using fs(4) by (auto simp: in_set_conv_nth)
  then have "break_escape c s = take k s @ of_char (CHR ''y'') # break_escape c (drop (Suc k) s)"
    by (subst split) (simp add: break_escape_id)
  then show ?thesis using Some k(1) by (simp add: break_loop_nth)
qed

section \<open>The interface between builder and reader\<close>

locale field =
  fixes add :: "'a \<Rightarrow> PacketBuilder \<Rightarrow> PacketBuilder"
    and get :: "PacketReader \<Rightarrow> ('a \<times> PacketReader) outcome"
    and enc :: "'a \<Rightarrow> bytes" and valid :: "'a \<Rightarrow> bool"
  assumes add_enc: "valid x \<Longrightarrow> add x b = builder_append (enc x) b"
    and get_enc: "valid x \<Longrightarrow> fits (pre @ enc x @ post) \<Longrightarrow>
      get (reader_at pre (enc x @ post)) = Inr (x, reader_at (pre @ enc x) post)"
begin

lemma get_after_add:
  assumes "valid x" "fits (pre @ enc x @ post)" "b_data b = pre"
  shows "get (reader_at pre (drop (length pre) (b_data (add x b)) @ post))
    = Inr (x, reader_at (b_data (add x b)) post)"
  using assms by (simp add: add_enc get_enc builder_append_def)

end

text \<open>Two fields one after the other, and a list of fields of one kind.\<close>

definition add_pair ::
  "('a \<Rightarrow> PacketBuilder \<Rightarrow> PacketBuilder) \<Rightarrow> ('b \<Rightarrow> PacketBuilder \<Rightarrow> PacketBuilder)
     \<Rightarrow> 'a \<times> 'b \<Rightarrow> PacketBuilder \<Rightarrow> PacketBuilder" where
  "add_pair f g xy b = g (snd xy) (f (fst xy) b)"

definition get_pair ::
  "(PacketReader \<Rightarrow> ('a \<times> PacketReader) outcome) \<Rightarrow> (PacketReader \<Rightarrow> ('b \<times> PacketReader) outcome)
     \<Rightarrow> PacketReader \<Rightarrow> (('a \<times> 'b) \<times> PacketReader) outcome" where
  "get_pair f g r = bind_out (f r) (\<lambda>(x, r'). bind_out (g r') (\<lambda>(y, r''). Inr ((x, y), r'')))"

fun add_list :: "('a \<Rightarrow> PacketBuilder \<Rightarrow> PacketBuilder) \<Rightarrow> 'a list \<Rightarrow> PacketBuilder \<Rightarrow> PacketBuilder" where
  "add_list f [] b = b"
| "add_list f (x # xs) b = add_list f xs (f x b)"

fun get_list ::
  "(PacketReader \<Rightarrow> ('a \<times> PacketReader) outcome) \<Rightarrow> nat \<Rightarrow> PacketReader
     \<Rightarrow> ('a list \<times> PacketReader) outcome" where
  "get_list f 0 r = Inr ([], r)"
| "get_list f (Suc n) r =
     bind_out (f r) (\<lambda>(x, r'). bind_out (get_list f n r') (\<lambda>(xs, r''). Inr (x # xs, r'')))"

lemma builder_append_append [simp]:
  "builder_append t (builder_append s b) = builder_append (s @ t) b"
  "builder_append [] b = b"
  by (simp_all add: builder_append_def)

context field begin

lemma get_list_add_list:
  assumes "list_all valid xs" "fits (pre @ concat (map enc xs) @ post)"
  shows "add_list add xs b = builder_append (concat (map enc xs)) b"
    and "get_list get (length xs) (reader_at pre (concat (map enc xs) @ post))
      = Inr (xs, reader_at (pre @ concat (map enc xs)) post)"
proof -
  show "add_list add xs b = builder_append (concat (map enc xs)) b"
    using assms(1) by (induction xs arbitrary: b) (auto simp: add_enc)
  show "get_list get (length xs) (reader_at pre (concat (map enc xs) @ post))
      = Inr (xs, reader_at (pre @ concat (map enc xs)) post)"
    using assms
  proof (induction xs arbitrary: pre)
    case (Cons x xs)
    then show ?case
      using get_enc [of x pre "concat (map enc xs) @ post"] Cons.IH [of "pre @ enc x"] by simp
  qed simp
qed

end

locale field_pair = f: field add1 get1 enc1 valid1 + g: field add2 get2 enc2 valid2
  for add1 :: "'a \<Rightarrow> PacketBuilder \<Rightarrow> PacketBuilder" and get1 enc1 valid1
    and add2 :: "'b \<Rightarrow> PacketBuilder \<Rightarrow> PacketBuilder" and get2 enc2 valid2
begin

lemma pair_field:
  "field (add_pair add1 add2) (get_pair get1 get2) (\<lambda>xy. enc1 (fst xy) @ enc2 (snd xy))
     (\<lambda>xy. valid1 (fst xy) \<and> valid2 (snd xy))"
proof
  fix xy :: "'a \<times> 'b" and b pre post
  assume v: "valid1 (fst xy) \<and> valid2 (snd xy)"
  then show "add_pair add1 add2 xy b = builder_append (enc1 (fst xy) @ enc2 (snd xy)) b"
    by (simp add: add_pair_def f.add_enc g.add_enc)
  assume "fits (pre @ (enc1 (fst xy) @ enc2 (snd xy)) @ post)"
  then show "get_pair get1 get2 (reader_at pre ((enc1 (fst xy) @ enc2 (snd xy)) @ post))
      = Inr (xy, reader_at (pre @ enc1 (fst xy) @ enc2 (snd xy)) post)"
    using v f.get_enc [of "fst xy" pre "enc2 (snd xy) @ post"]
      g.get_enc [of "snd xy" "pre @ enc1 (fst xy)" post]
    by (simp add: get_pair_def)
qed

end

sublocale field_pair \<subseteq> pair: field "add_pair add1 add2" "get_pair get1 get2"
  "\<lambda>xy. enc1 (fst xy) @ enc2 (snd xy)" "\<lambda>xy. valid1 (fst xy) \<and> valid2 (snd xy)"
  by (rule pair_field)

section \<open>The fields of a packet\<close>

lemma ucast_mod_small:
  "unat (x :: byte) < 253 \<Longrightarrow> ucast ((ucast x :: u32) mod MAX1) = x"
  "unat (y :: u16) < 64009 \<Longrightarrow> ucast ((ucast y :: u32) mod MAX2) = y"
proof -
  show "ucast ((ucast x :: u32) mod MAX1) = x" if "unat x < 253"
  proof -
    have "unat (ucast x :: u32) = unat x"
      by (rule unat_ucast_up) simp
    then have "(ucast x :: u32) mod MAX1 = ucast x"
      using that by (intro word_mod_small) (simp add: word_less_nat_alt radix_bounds)
    then show ?thesis by (simp add: ucast_back)
  qed
  show "ucast ((ucast y :: u32) mod MAX2) = y" if "unat y < 64009"
  proof -
    have "unat (ucast y :: u32) = unat y"
      by (rule unat_ucast_up) simp
    then have "(ucast y :: u32) mod MAX2 = ucast y"
      using that by (intro word_mod_small) (simp add: word_less_nat_alt radix_bounds)
    then show ?thesis by (simp add: ucast_back)
  qed
qed

interpretation byte_field: field AddByte GetByte "\<lambda>x. [x]" "\<lambda>_. True"
proof
  fix x :: byte and pre post and b
  show "AddByte x b = builder_append [x] b" by (simp add: AddByte_def)
  assume f: "fits (pre @ [x] @ post)"
  have "fits pre" "fits (x # post)" using fits_appendD [of pre "x # post"] f by simp_all
  then have "unat (of_nat (length (x # post)) :: size_t) = length (x # post)"
    by (intro unat_fits) auto
  then have "\<not> of_nat (length (x # post)) < (1 :: size_t)"
    unfolding word_less_nat_alt by (simp del: of_nat_Suc)
  then show "GetByte (reader_at pre ([x] @ post)) = Inr (x, reader_at (pre @ [x]) post)"
    using \<open>fits pre\<close> by (simp add: GetByte_def str_at_def del: length_Cons of_nat_Suc) (simp add: reader_at_def)
qed

interpretation char_field: field AddChar GetChar "\<lambda>x. number_prefix 1 (ucast x)" "\<lambda>x. unat x < 253"
proof
  fix x :: byte and pre post and b
  assume v: "unat x < 253"
  show "AddChar x b = builder_append (number_prefix 1 (ucast x)) b" by (simp add: AddChar_def)
  assume "fits (pre @ number_prefix 1 (ucast x) @ post)"
  then show "GetChar (reader_at pre (number_prefix 1 (ucast x) @ post))
      = Inr (x, reader_at (pre @ number_prefix 1 (ucast x)) post)"
    using GetNumber_prefix [of pre 1 "ucast x" post] ucast_mod_small(1) [OF v]
    by (simp add: GetChar_def number_of_prefix)
qed

interpretation short_field: field AddShort GetShort "\<lambda>x. number_prefix 2 (ucast x)" "\<lambda>x. unat x < 64009"
proof
  fix x :: u16 and pre post and b
  assume v: "unat x < 64009"
  show "AddShort x b = builder_append (number_prefix 2 (ucast x)) b" by (simp add: AddShort_def)
  assume "fits (pre @ number_prefix 2 (ucast x) @ post)"
  then show "GetShort (reader_at pre (number_prefix 2 (ucast x) @ post))
      = Inr (x, reader_at (pre @ number_prefix 2 (ucast x)) post)"
    using GetNumber_prefix [of pre 2 "ucast x" post] ucast_mod_small(2) [OF v]
    by (simp add: GetShort_def number_of_prefix)
qed

interpretation three_field: field AddThree GetThree "number_prefix 3" "\<lambda>x. x < MAX3"
proof
  fix x :: u32 and pre post and b
  assume "x < MAX3"
  then have v: "x mod MAX3 = x" by simp
  show "AddThree x b = builder_append (number_prefix 3 x) b" by (simp add: AddThree_def)
  assume "fits (pre @ number_prefix 3 x @ post)"
  then show "GetThree (reader_at pre (number_prefix 3 x @ post))
      = Inr (x, reader_at (pre @ number_prefix 3 x) post)"
    using GetNumber_prefix [of pre 3 x post] v by (simp add: GetThree_def number_of_prefix)
qed

interpretation int_field: field AddInt GetInt "number_prefix 4" "\<lambda>x. x < 253 * MAX3"
proof
  fix x :: u32 and pre post and b
  assume v: "x < 253 * MAX3"
  show "AddInt x b = builder_append (number_prefix 4 x) b" by (simp add: AddInt_def)
  assume "fits (pre @ number_prefix 4 x @ post)"
  then show "GetInt (reader_at pre (number_prefix 4 x @ post))
      = Inr (x, reader_at (pre @ number_prefix 4 x) post)"
    using GetNumber_prefix [of pre 4 x post] v by (simp add: GetInt_def number_of_prefix)
qed

interpretation break_field: field "\<lambda>s. AddBreakString s 0xFF" "GetBreakString 0xFF" "\<lambda>s. s @ [0xFF]"
  "\<lambda>s. 0xFF \<notin> set s"
proof
  fix s :: bytes and pre post and b
  assume v: "0xFF \<notin> set s"
  then show "AddBreakString s 0xFF b = builder_append (s @ [0xFF]) b"
    by (simp add: AddBreakString_def break_loop_escape break_escape_id)
  assume "fits (pre @ (s @ [0xFF]) @ post)"
  then show "GetBreakString 0xFF (reader_at pre ((s @ [0xFF]) @ post))
      = Inr (s, reader_at (pre @ s @ [0xFF]) post)"
    using GetBreakString_at [OF v, of pre post] by simp
qed

interpretation char_then_short: field_pair AddChar GetChar "\<lambda>x. number_prefix 1 (ucast x)" "\<lambda>x. unat x < 253"
  AddShort GetShort "\<lambda>x. number_prefix 2 (ucast x)" "\<lambda>x. unat x < 64009"
  by unfold_locales

section \<open>Readers in range\<close>

text \<open>A read that neither fails nor moves the position out of the data.\<close>

definition reads_safely :: "(PacketReader \<Rightarrow> ('a \<times> PacketReader) outcome) \<Rightarrow> PacketReader \<Rightarrow> bool" where
  "reads_safely get r =
     (case get r of
        Inl _ \<Rightarrow> False
      | Inr (_, r') \<Rightarrow> reader_ok r' \<and> rd_data r' = rd_data r \<and> rd_pos r \<le> rd_pos r')"

lemma reads_safelyI:
  assumes "get (reader_at pre post) = Inr (x, reader_at (pre @ s) t)" "post = s @ t" "fits (pre @ post)"
  shows "reads_safely get (reader_at pre post)"
proof -
  have "fits (pre @ s)" using assms(2,3) fits_appendD [of "pre @ s" t] by simp
  moreover have "fits pre" using assms(3) fits_appendD by blast
  ultimately have "of_nat (length pre) \<le> (of_nat (length (pre @ s)) :: size_t)"
    unfolding word_le_nat_alt by (metis le_add1 length_append unat_fits)
  then show ?thesis
    using assms reader_ok_at [of "pre @ s" t] by (simp add: reads_safely_def)
qed

lemma reads_safely_map:
  "reads_safely get r \<Longrightarrow> reads_safely (\<lambda>r. bind_out (get r) (\<lambda>(x, r'). Inr (f x, r'))) r"
  by (auto simp: reads_safely_def split: sum.splits)

lemma GetNumber_safe: "reader_ok r \<Longrightarrow> n \<le> 4 \<Longrightarrow> reads_safely (GetNumber (of_nat n)) r"
proof (erule reader_okE)
  fix pre post
  assume "n \<le> 4" and r: "r = reader_at pre post" and f: "fits (pre @ post)"
  then show "reads_safely (GetNumber (of_nat n)) r"
    using GetNumber_at [OF f, of n] unfolding r by (intro reads_safelyI) auto
qed

lemma GetByte_safe: "reader_ok r \<Longrightarrow> reads_safely GetByte r"
proof (erule reader_okE)
  fix pre post
  assume r: "r = reader_at pre post" and f: "fits (pre @ post)"
  show "reads_safely GetByte r"
  proof (cases post)
    case Nil
    then have "GetByte r = Inr (0, r)" by (simp add: r GetByte_def)
    then show ?thesis using f by (simp add: reads_safely_def r reader_ok_at)
  next
    case (Cons x xs)
    then have "GetByte (reader_at pre post) = Inr (x, reader_at (pre @ [x]) xs)"
      using byte_field.get_enc [where x = x and pre = pre and post = xs] f by simp
    then show ?thesis unfolding r by (rule reads_safelyI) (use Cons f in auto)
  qed
qed

lemma GetFixedString_safe: "reader_ok r \<Longrightarrow> reads_safely (GetFixedString n) r"
proof (erule reader_okE)
  fix pre post
  assume r: "r = reader_at pre post" and f: "fits (pre @ post)"
  have fp: "fits pre" "fits post" using fits_appendD [OF f] by auto
  show "reads_safely (GetFixedString n) r"
  proof (cases "of_nat (length post) < n")
    case True
    then have "GetFixedString n r = Inr ([], r)" by (simp add: r GetFixedString_def)
    then show ?thesis using f by (simp add: reads_safely_def r reader_ok_at)
  next
    case False
    then have le: "unat n \<le> length post" using fp by (simp add: word_less_nat_alt)
    let ?s = "take (unat n) post"
    have "n = of_nat (length ?s)" using le by simp
    moreover have "GetFixedString (of_nat (length ?s)) (reader_at pre (?s @ drop (unat n) post))
        = Inr (?s, reader_at (pre @ ?s) (drop (unat n) post))"
      by (rule GetFixedString_at) (use f in simp)
    ultimately have "GetFixedString n (reader_at pre post) = Inr (?s, reader_at (pre @ ?s) (drop (unat n) post))"
      by simp
    then show ?thesis unfolding r by (rule reads_safelyI) (use f in simp_all)
  qed
qed

lemma GetBreakString_cases:
  assumes "fits (pre @ post)"
  obtains (found) s t where "post = s @ c # t"
      "GetBreakString c (reader_at pre post) = Inr (s, reader_at (pre @ s @ [c]) t)"
  | (absent) "c \<notin> set post"
      "GetBreakString c (reader_at pre post)
        = Inr ([], (reader_at pre post)\<lparr>rd_pos := of_nat (length pre) + 1\<rparr>)"
proof (cases "c \<in> set post")
  case True
  then obtain s t where "post = s @ c # t" "c \<notin> set s" by (metis split_list_first)
  then show ?thesis using found GetBreakString_at [of c s pre t] assms by simp
next
  case False
  then show ?thesis using absent GetBreakString_absent [OF False assms] by blast
qed

lemma unat_succ_fits: "fits s \<Longrightarrow> unat (of_nat (length s) + 1 :: size_t) = Suc (length s)"
proof -
  assume "fits s"
  then have "Suc (length s) < 2 ^ LENGTH(64)" by (simp add: fits_def)
  then have "unat (of_nat (Suc (length s)) :: size_t) = Suc (length s)" by (rule unat_of_nat_small)
  then show ?thesis by (simp add: add.commute)
qed

section \<open>Properties\<close>

text \<open>
  C16: a packet with a char, a short, a three-byte, a four-byte number, a break string and a raw
  byte is read back by the reader of the other side, which also finds family and action.
\<close>

theorem reader_reads_builder:
  fixes fam :: PacketFamily and act :: PacketAction and x :: byte
  assumes "unat c < 253" and "unat s < 64009" and "t < MAX3" and "i < 253 * MAX3"
    and "0xFF \<notin> set str" and "length str < 2 ^ 32"
  defines "b \<equiv> AddByte x (AddBreakString str 0xFF (AddInt i (AddThree t (AddShort s
     (AddChar c (PacketBuilder_new fam act))))))"
  defines "r \<equiv> PacketReader_new (drop 2 (builder_Get b))"
  shows "Family r = family_value fam \<and> Action r = action_value act \<and>
    bind_out (GetChar r) (\<lambda>(c', r1). bind_out (GetShort r1) (\<lambda>(s', r2).
    bind_out (GetThree r2) (\<lambda>(t', r3). bind_out (GetInt r3) (\<lambda>(i', r4).
    bind_out (GetBreakString 0xFF r4) (\<lambda>(str', r5). bind_out (GetByte r5) (\<lambda>(x', r6).
      Inr (c', s', t', i', str', x', Remaining r6))))))) = Inr (c, s, t, i, str, x, 0)"
proof -
  let ?ce = "number_prefix 1 (ucast c)" and ?se = "number_prefix 2 (ucast s)"
    and ?te = "number_prefix 3 t" and ?ie = "number_prefix 4 i"
  let ?id = "EPID (b_id (PacketBuilder_new fam act))"
  have "PID (family_value fam) (action_value act) \<noteq> 0"
  proof
    assume "PID (family_value fam) (action_value act) = 0"
    then have "EPID (PID (family_value fam) (action_value act)) = EPID 0" by simp
    then show False by (cases act) (simp_all add: EPID_PID, simp_all add: EPID_def)
  qed
  then have id: "?id = (action_value act, family_value fam)"
    by (simp add: PacketBuilder_new_def SetID_def SetID_raw_def EPID_PID)
  have b: "b = builder_append (?ce @ ?se @ ?te @ ?ie @ (str @ [0xFF]) @ [x]) (PacketBuilder_new fam act)"
    using assms(1-5)
    by (simp add: b_def byte_field.add_enc break_field.add_enc int_field.add_enc
        three_field.add_enc short_field.add_enc char_field.add_enc)
  have r: "r = reader_at [action_value act, family_value fam] (?ce @ ?se @ ?te @ ?ie @ (str @ [0xFF]) @ [x])"
    using id by (simp add: r_def b builder_append_def builder_Get_def Let_def PacketReader_new_def
        reader_at_def PacketBuilder_new_def SetID_def SetID_raw_def)
  have f: "fits ([action_value act, family_value fam] @ ?ce @ ?se @ ?te @ ?ie @ (str @ [0xFF]) @ [x])"
    using assms(6) by (simp add: fits_def)
  have l2: "reader_Length r = of_nat (14 + length str)" by (simp add: reader_Length_def r)
  have lstr: "14 + length str < 2 ^ LENGTH(64)" using assms(6) by (simp add: fits_def)
  have "unat (reader_Length r) = 14 + length str"
    unfolding l2 using lstr by (rule unat_of_nat_small)
  then have "Family r = family_value fam \<and> Action r = action_value act"
    by (simp add: Family_def Action_def word_less_nat_alt) (simp add: r)
  moreover
  let ?h = "[action_value act, family_value fam]"
  have "GetChar r = Inr (c, reader_at (?h @ ?ce) (?se @ ?te @ ?ie @ (str @ [0xFF]) @ [x]))"
    unfolding r by (rule char_field.get_enc [OF assms(1)]) (use f in simp)
  moreover have "GetShort (reader_at (?h @ ?ce) (?se @ ?te @ ?ie @ (str @ [0xFF]) @ [x]))
      = Inr (s, reader_at ((?h @ ?ce) @ ?se) (?te @ ?ie @ (str @ [0xFF]) @ [x]))"
    by (rule short_field.get_enc [OF assms(2)]) (use f in simp)
  moreover have "GetThree (reader_at ((?h @ ?ce) @ ?se) (?te @ ?ie @ (str @ [0xFF]) @ [x]))
      = Inr (t, reader_at (((?h @ ?ce) @ ?se) @ ?te) (?ie @ (str @ [0xFF]) @ [x]))"
    by (rule three_field.get_enc [OF assms(3)]) (use f in simp)
  moreover have "GetInt (reader_at (((?h @ ?ce) @ ?se) @ ?te) (?ie @ (str @ [0xFF]) @ [x]))
      = Inr (i, reader_at ((((?h @ ?ce) @ ?se) @ ?te) @ ?ie) ((str @ [0xFF]) @ [x]))"
    by (rule int_field.get_enc [OF assms(4)]) (use f in simp)
  moreover have "GetBreakString 0xFF (reader_at ((((?h @ ?ce) @ ?se) @ ?te) @ ?ie) ((str @ [0xFF]) @ [x]))
      = Inr (str, reader_at (((((?h @ ?ce) @ ?se) @ ?te) @ ?ie) @ str @ [0xFF]) [x])"
    by (rule break_field.get_enc [OF assms(5)]) (use f in simp)
  moreover have "GetByte (reader_at (((((?h @ ?ce) @ ?se) @ ?te) @ ?ie) @ str @ [0xFF]) ([x] @ []))
      = Inr (x, reader_at ((((((?h @ ?ce) @ ?se) @ ?te) @ ?ie) @ str @ [0xFF]) @ [x]) [])"
    by (rule byte_field.get_enc) (use f in simp_all)
  ultimately show ?thesis by simp
qed

theorem reader_reads_builder_witness:
  "let r = PacketReader_new (drop 2 (builder_Get (AddByte 9 (AddBreakString [1, 2, 3] 0xFF (AddInt 4097152080
      (AddThree 70000 (AddShort 64008 (AddChar 252 (PacketBuilder_new PACKET_WALK PACKET_PLAYER)))))))))
   in Family r = 6 \<and> Action r = 8 \<and>
    bind_out (GetChar r) (\<lambda>(c', r1). bind_out (GetShort r1) (\<lambda>(s', r2).
    bind_out (GetThree r2) (\<lambda>(t', r3). bind_out (GetInt r3) (\<lambda>(i', r4).
    bind_out (GetBreakString 0xFF r4) (\<lambda>(str', r5). bind_out (GetByte r5) (\<lambda>(x', r6).
      Inr (c', s', t', i', str', x', Remaining r6)))))))
    = Inr (252, 64008, 70000, 4097152080, [1, 2, 3], 9, 0)"
  using reader_reads_builder [where c = 252 and s = 64008 and t = 70000 and i = 4097152080
      and str = "[1, 2, 3]" and fam = PACKET_WALK and act = PACKET_PLAYER and x = 9]
  by (simp add: MAX3_def Let_def)

text \<open>
  a short, a char or a three-byte number of any size is read back as its residue modulo
  64009, 253 or 16194277: larger values are silently reduced on the wire.
\<close>

theorem numbers_reduced_on_the_wire:
  assumes "fits (pre @ replicate 3 0 @ post)"
  shows "GetShort (reader_at pre (b_data (AddShort n (PacketBuilder_new f a)) @ post))
      = Inr (ucast (ucast n mod (64009 :: u32)), reader_at (pre @ number_prefix 2 (ucast n)) post)
    \<and> GetChar (reader_at pre (b_data (AddChar c (PacketBuilder_new f a)) @ post))
      = Inr (ucast (ucast c mod (253 :: u32)), reader_at (pre @ number_prefix 1 (ucast c)) post)
    \<and> GetThree (reader_at pre (b_data (AddThree t (PacketBuilder_new f a)) @ post))
      = Inr (t mod 16194277, reader_at (pre @ number_prefix 3 t) post)"
proof -
  have f: "fits (pre @ number_prefix k m @ post)" if "k \<le> 3" for k m
    using assms that by (simp add: fits_def)
  have d: "b_data (builder_append s (PacketBuilder_new f a)) = s" for s
    by (simp add: builder_append_def PacketBuilder_new_def SetID_def SetID_raw_def)
  show ?thesis
    using GetNumber_prefix [OF f, of 2 "ucast n"] GetNumber_prefix [OF f, of 1 "ucast c"]
      GetNumber_prefix [OF f, of 3 t]
    by (simp add: AddShort_def AddChar_def AddThree_def d GetShort_def GetChar_def GetThree_def
        number_of_prefix MAX1_def MAX2_def MAX3_def)
qed

theorem numbers_reduced_on_the_wire_witness:
  "GetShort (reader_at [1, 2] (b_data (AddShort 65535 (PacketBuilder_new PACKET_WALK PACKET_PLAYER)) @ []))
    = Inr (ucast (ucast (65535 :: u16) mod (64009 :: u32)), reader_at ([1, 2] @ number_prefix 2 (ucast (65535 :: u16))) [])"
  using numbers_reduced_on_the_wire [where pre = "[1, 2]" and post = "[]" and n = 65535
      and f = PACKET_WALK and a = PACKET_PLAYER]
  by (simp add: fits_def)

text \<open>
  C37: as long as the position is within the packet, every read of the reader returns, leaves the
  packet alone, moves the position forward and keeps it within the packet, whatever the packet
  holds; only a read up to a break character can leave it, and exactly from the packet's end.
\<close>

theorem reader_stays_in_packet:
  assumes "reader_ok r"
  shows "reads_safely GetByte r \<and> reads_safely GetChar r \<and> reads_safely GetShort r
    \<and> reads_safely GetThree r \<and> reads_safely GetInt r \<and> reads_safely (GetFixedString n) r
    \<and> reads_safely GetEndString r
    \<and> (\<exists>s r'. GetBreakString c r = Inr (s, r')
         \<and> (reader_ok r' \<longleftrightarrow> unat (rd_pos r) < length (rd_data r)))"
proof -
  have n: "reads_safely (GetNumber (of_nat k)) r" if "k \<le> 4" for k
    using assms that by (rule GetNumber_safe)
  have "\<exists>s r'. GetBreakString c r = Inr (s, r')
      \<and> (reader_ok r' \<longleftrightarrow> unat (rd_pos r) < length (rd_data r))"
    using assms
  proof (rule reader_okE)
    fix pre post
    assume r: "r = reader_at pre post" and f: "fits (pre @ post)"
    have fp: "fits pre" using fits_appendD [OF f] by simp
    from f show ?thesis
    proof (cases rule: GetBreakString_cases [where c = c])
      case (found s t)
      then show ?thesis using f fp reader_ok_at [of "pre @ s @ [c]" t] by (simp add: r)
    next
      case absent
      have "reader_ok ((reader_at pre post)\<lparr>rd_pos := of_nat (length pre) + 1\<rparr>) \<longleftrightarrow> 0 < length post"
        using f fp unat_succ_fits [OF fp] by (auto simp: reader_ok_def Suc_le_eq)
      then show ?thesis using absent(2) fp by (simp add: r)
    qed
  qed
  then show ?thesis
    using n [of 1] n [of 2] n [of 3] n [of 4] GetByte_safe [OF assms] GetFixedString_safe [OF assms]
      reads_safely_map [of _ r ucast]
    by (simp add: reads_safely_def GetChar_def GetShort_def GetThree_def GetInt_def GetEndString_def
        split: sum.splits prod.splits)
qed

theorem reader_stays_in_packet_witness:
  "reader_ok (PacketReader_new [1, 2, 3, 255]) \<and> reads_safely GetInt (PacketReader_new [1, 2, 3, 255])"
proof -
  have ok: "reader_ok (PacketReader_new [1, 2, 3, 255])"
    by (simp add: reader_ok_def PacketReader_new_def fits_def)
  then show ?thesis using reader_stays_in_packet [OF ok, of 0 0] by simp
qed

text \<open>
  reading a break string at the end of a packet moves the position behind the packet's end.
  \<open>Remaining\<close> then wraps around, so the next number is read outside the packet and the next
  end string throws \<open>std::out_of_range\<close>.
\<close>

theorem break_string_overrun:
  assumes "fits d"
  shows "bind_out (GetBreakString c (reader_at d [])) (\<lambda>(_, r). Inr (Remaining r)) = Inr (- 1)
    \<and> bind_out (GetBreakString c (reader_at d [])) (\<lambda>(_, r). GetShort r) = Inl Read_Out_Of_Bounds
    \<and> bind_out (GetBreakString c (reader_at d [])) (\<lambda>(_, r). GetByte r) = Inl Read_Out_Of_Bounds
    \<and> bind_out (GetBreakString c (reader_at d [])) (\<lambda>(_, r). GetEndString r) = Inl Std_Out_Of_Range"
proof -
  let ?r = "(reader_at d [])\<lparr>rd_pos := of_nat (length d) + 1\<rparr>"
  have b: "GetBreakString c (reader_at d []) = Inr ([], ?r)"
    using GetBreakString_absent [of c "[]" d] assms by simp
  have R: "Remaining ?r = - 1" by (simp add: Remaining_def reader_Length_def)
  note u = unat_succ_fits [OF assms]
  have "GetShort ?r = Inl Read_Out_Of_Bounds"
    unfolding GetShort_def GetNumber_def Let_def R by (simp add: u)
  moreover have "GetByte ?r = Inl Read_Out_Of_Bounds"
    unfolding GetByte_def R by (simp add: u str_at_def)
  moreover have "GetEndString ?r = Inl Std_Out_Of_Range"
    unfolding GetEndString_def GetFixedString_def R by (simp add: u)
  ultimately show ?thesis by (simp add: b R)
qed

theorem break_string_overrun_witness:
  "fits [34, 12] \<and> bind_out (GetBreakString 255 (reader_at [34, 12] [])) (\<lambda>(_, r). GetShort r)
     = Inl Read_Out_Of_Bounds"
proof -
  have "fits [34, 12]" by (simp add: fits_def)
  then show ?thesis using break_string_overrun [of "[34, 12]" 255] by simp
qed

text \<open>
  the first two bytes of a built packet decode to the number of bytes that follow them, as
  the framing on the other side reads it.
\<close>

theorem builder_header:
  assumes "length (b_data b) + 2 < 64009" and "b_add_size b = 0"
  shows "\<exists>l0 l1. builder_Get b = l0 # l1 # fst (EPID (b_id b)) # snd (EPID (b_id b)) # b_data b
    \<and> Number l0 l1 254 254 = of_nat (length (drop 2 (builder_Get b)))"
proof -
  let ?n = "length (b_data b) + 2"
  obtain b0 b1 b2 b3 where e: "ENumber_bytes (of_nat ?n) = (b0, b1, b2, b3)"
    by (cases "ENumber_bytes (of_nat ?n)")
  have u: "unat (of_nat ?n :: size_t) = ?n" "unat (of_nat ?n :: u32) = ?n"
    by (rule unat_of_nat_small, use assms(1) in simp)+
  have "take_bit 32 ?n = ?n"
    by (rule take_bit_nat_eq_self) (use assms(1) in simp)
  then have "(ucast (of_nat ?n :: size_t) :: u32) = of_nat ?n"
    unfolding word_unat_eq_iff unsigned_ucast_eq u by simp
  then have g: "builder_Get b = b0 # b1 # fst (EPID (b_id b)) # snd (EPID (b_id b)) # b_data b"
    using e assms(2) by (simp add: builder_Get_def Let_def ENumber_def bytes_list_def add.commute)
  have s: "(of_nat ?n :: u32) < MAX2"
    using assms(1) unfolding word_less_nat_alt u radix_bounds by simp
  have "(of_nat ?n :: u32) < 253 * MAX3"
    by (rule order_less_trans [OF s]) (simp add: MAX2_def MAX3_def)
  then have "Number b0 b1 b2 b3 = of_nat ?n"
    using Number_ENumber_bytes [of "of_nat ?n"] e by simp
  moreover have "b2 = 254" "b3 = 254"
    using ENumber_bytes_small(2) [OF s] e by auto
  ultimately show ?thesis using g by (simp add: add.commute)
qed

theorem builder_header_witness:
  "\<exists>l0 l1. builder_Get (AddShort 7 (PacketBuilder_new PACKET_WALK PACKET_PLAYER)) = l0 # l1 # [8, 6, 8, 254]
    \<and> Number l0 l1 254 254 = 4"
proof -
  let ?b = "AddShort 7 (PacketBuilder_new PACKET_WALK PACKET_PLAYER)"
  have "b_data ?b = [8, 254]" "EPID (b_id ?b) = (8, 6)" "b_add_size ?b = 0"
    by code_simp+
  then show ?thesis using builder_header [of ?b] by auto
qed

end
