(* ===== verification/Double.thy ===== *)
theory Double
  imports Prelude
begin

text \<open>
  The type \<open>double\<close> of C++ as IEEE 754 binary64: a finite value is a rational, every
  operation is the exact one followed by rounding to 53 significant bits (to nearest, ties
  to even, subnormals with the fixed exponent), and results beyond the range are
  infinities. The two zeros are one value, and the rounding of a value just above the
  largest finite one goes to infinity at once. The transcendental functions of the C
  library are parameters of the definitions that call them.
\<close>

section \<open>Rounding\<close>

text \<open>\<open>pow2 e\<close> is two to an integer power; \<open>ilog2 x\<close> is the binary exponent of a positive \<open>x\<close>.\<close>

definition pow2 :: "int \<Rightarrow> rat" where
  "pow2 e = (if 0 \<le> e then 2 ^ nat e else 1 / 2 ^ nat (- e))"

function ilog2_up :: "rat \<Rightarrow> int" where
  "ilog2_up x = (if x < 2 then 0 else 1 + ilog2_up (x / 2))"
  by pat_completeness auto
termination
  by (relation "measure (\<lambda>x. nat \<lfloor>x\<rfloor>)") (auto simp: floor_less_iff, linarith)

function ilog2_down :: "rat \<Rightarrow> int" where
  "ilog2_down x = (if x \<le> 0 \<or> 1 \<le> x then 0 else ilog2_down (2 * x) - 1)"
  by pat_completeness auto
termination
proof (relation "measure (\<lambda>x. nat \<lceil>1 / x\<rceil>)", goal_cases)
  case (2 x)
  then have x: "0 < x" "x < 1" by auto
  define y where "y = 1 / x"
  have y: "1 < y" using x by (simp add: y_def)
  have half: "1 / (2 * x) = y / 2" by (simp add: y_def)
  have "\<lceil>y / 2\<rceil> < \<lceil>y\<rceil>"
  proof (cases "y \<le> 2")
    case True
    then have "\<lceil>y / 2\<rceil> \<le> 1" by (simp add: ceiling_le_iff)
    moreover have "1 < \<lceil>y\<rceil>" using y by (simp add: less_ceiling_iff)
    ultimately show ?thesis by linarith
  next
    case False
    have "of_int \<lceil>y / 2\<rceil> < y / 2 + 1" by linarith
    also have "\<dots> < y" using False by simp
    finally show ?thesis by (simp add: less_ceiling_iff)
  qed
  moreover have "0 < \<lceil>y\<rceil>" using y by (simp add: less_ceiling_iff)
  ultimately show ?case by (simp add: half y_def [symmetric])
qed simp

declare ilog2_up.simps [simp del, loop_simps]
declare ilog2_down.simps [simp del, loop_simps]

definition ilog2 :: "rat \<Rightarrow> int" where
  "ilog2 x = (if 1 \<le> x then ilog2_up x else ilog2_down x)"

text \<open>Round half to even, and rounding to a multiple of the unit in the last place.\<close>

definition round_even :: "rat \<Rightarrow> int" where
  "round_even q =
     (let f = \<lfloor>q\<rfloor>; r = q - of_int f
      in if r < 1 / 2 then f
         else if r > 1 / 2 then f + 1
         else if even f then f else f + 1)"

definition ulp_exp :: "rat \<Rightarrow> int" where
  "ulp_exp x = max (ilog2 \<bar>x\<bar> - 52) (- 1074)"

definition fround :: "rat \<Rightarrow> rat" where
  "fround x =
     (if x = 0 then 0
      else let u = pow2 (ulp_exp x) in of_int (round_even (x / u)) * u)"

section \<open>Values and operations\<close>

datatype double = Fin rat | PInf | NInf | NaN

definition dbl :: "rat \<Rightarrow> double" where
  "dbl x =
     (let r = fround x
      in if r \<ge> pow2 1024 then PInf else if r \<le> - pow2 1024 then NInf else Fin r)"

definition d_of_int :: "int \<Rightarrow> double" where
  "d_of_int n = dbl (of_int n)"

fun d_neg :: "double \<Rightarrow> double" where
  "d_neg (Fin x) = Fin (- x)"
| "d_neg PInf = NInf"
| "d_neg NInf = PInf"
| "d_neg NaN = NaN"

fun d_add :: "double \<Rightarrow> double \<Rightarrow> double" where
  "d_add (Fin x) (Fin y) = dbl (x + y)"
| "d_add NaN _ = NaN"
| "d_add _ NaN = NaN"
| "d_add PInf NInf = NaN"
| "d_add NInf PInf = NaN"
| "d_add PInf _ = PInf"
| "d_add _ PInf = PInf"
| "d_add NInf _ = NInf"
| "d_add _ NInf = NInf"

definition d_sub :: "double \<Rightarrow> double \<Rightarrow> double" where
  "d_sub x y = d_add x (d_neg y)"

definition d_signed_inf :: "rat \<Rightarrow> double" where
  "d_signed_inf s = (if s > 0 then PInf else if s < 0 then NInf else NaN)"

text \<open>The sign of a value that is not \<open>NaN\<close>.\<close>

fun d_sgn :: "double \<Rightarrow> rat" where
  "d_sgn (Fin x) = sgn x"
| "d_sgn PInf = 1"
| "d_sgn NInf = - 1"
| "d_sgn NaN = 0"

fun d_mul :: "double \<Rightarrow> double \<Rightarrow> double" where
  "d_mul (Fin x) (Fin y) = dbl (x * y)"
| "d_mul NaN _ = NaN"
| "d_mul _ NaN = NaN"
| "d_mul x y = d_signed_inf (d_sgn x * d_sgn y)"

fun d_div :: "double \<Rightarrow> double \<Rightarrow> double" where
  "d_div NaN _ = NaN"
| "d_div _ NaN = NaN"
| "d_div (Fin x) (Fin y) = (if y = 0 then d_signed_inf x else dbl (x / y))"
| "d_div (Fin x) _ = Fin 0"
| "d_div x (Fin y) = d_signed_inf (d_sgn x * (if y = 0 then 1 else sgn y))"
| "d_div _ _ = NaN"

text \<open>Comparisons; every comparison with \<open>NaN\<close> is false.\<close>

fun d_less :: "double \<Rightarrow> double \<Rightarrow> bool" where
  "d_less (Fin x) (Fin y) = (x < y)"
| "d_less NaN _ = False"
| "d_less _ NaN = False"
| "d_less PInf _ = False"
| "d_less _ PInf = True"
| "d_less _ NInf = False"
| "d_less NInf _ = True"

fun d_le :: "double \<Rightarrow> double \<Rightarrow> bool" where
  "d_le (Fin x) (Fin y) = (x \<le> y)"
| "d_le NaN _ = False"
| "d_le _ NaN = False"
| "d_le _ PInf = True"
| "d_le PInf _ = False"
| "d_le NInf _ = True"
| "d_le _ NInf = False"

text \<open>\<open>x == y\<close>, and the test of a \<open>double\<close> as a condition.\<close>

fun d_eq :: "double \<Rightarrow> double \<Rightarrow> bool" where
  "d_eq NaN _ = False"
| "d_eq _ NaN = False"
| "d_eq x y = (x = y)"

definition d_true :: "double \<Rightarrow> bool" where
  "d_true x = (x \<noteq> Fin 0)"

fun d_floor :: "double \<Rightarrow> double" where
  "d_floor (Fin x) = Fin (of_int \<lfloor>x\<rfloor>)"
| "d_floor d = d"

fun d_ceil :: "double \<Rightarrow> double" where
  "d_ceil (Fin x) = Fin (of_int \<lceil>x\<rceil>)"
| "d_ceil d = d"

text \<open>Conversion to \<open>int\<close> truncates; a value that does not fit is undefined behaviour.\<close>

definition rat_trunc :: "rat \<Rightarrow> int" where
  "rat_trunc x = (if 0 \<le> x then \<lfloor>x\<rfloor> else \<lceil>x\<rceil>)"

definition INT_MAX :: int where "INT_MAX = 2147483647"
definition INT_MIN :: int where "INT_MIN = - 2147483648"

definition int_range :: "int \<Rightarrow> bool" where
  "int_range n \<longleftrightarrow> INT_MIN \<le> n \<and> n \<le> INT_MAX"

fun d_to_int :: "double \<Rightarrow> int outcome" where
  "d_to_int (Fin x) =
     (if int_range (rat_trunc x) then Inr (rat_trunc x) else Inl Float_To_Int_Range)"
| "d_to_int _ = Inl Float_To_Int_Range"

section \<open>Integers are exact\<close>

lemma pow2_pos [simp]: "0 < pow2 e"
  by (simp add: pow2_def)

lemma round_even_of_int [simp]: "round_even (of_int n) = n"
  by (simp add: round_even_def Let_def)

lemma ilog2_up_bound: "1 \<le> x \<Longrightarrow> x < 2 ^ Suc k \<Longrightarrow> ilog2_up x \<le> int k"
proof (induction k arbitrary: x)
  case 0
  then show ?case by (simp add: ilog2_up.simps)
next
  case (Suc k)
  show ?case
  proof (cases "x < 2")
    case True
    then show ?thesis by (simp add: ilog2_up.simps)
  next
    case False
    then have "ilog2_up (x / 2) \<le> int k"
      using Suc.prems by (intro Suc.IH) auto
    then show ?thesis using False by (subst ilog2_up.simps) simp
  qed
qed

lemma fround_of_int:
  assumes "\<bar>n\<bar> < 2 ^ 53"
  shows "fround (of_int n) = of_int n"
proof (cases "n = 0")
  case False
  let ?x = "of_int n :: rat"
  have one: "1 \<le> \<bar>?x\<bar>" using False by (simp flip: of_int_abs)
  have "\<bar>?x\<bar> < 2 ^ Suc 52"
    using assms by (simp flip: of_int_abs)
  then have "ilog2 \<bar>?x\<bar> \<le> 52"
    using one ilog2_up_bound [of "\<bar>?x\<bar>" 52] by (simp add: ilog2_def)
  then have u: "ulp_exp ?x \<le> 0" by (simp add: ulp_exp_def)
  define k where "k = nat (- ulp_exp ?x)"
  have "pow2 (ulp_exp ?x) = 1 / 2 ^ k"
    using u by (cases "ulp_exp ?x = 0") (auto simp: pow2_def k_def)
  then have "?x / pow2 (ulp_exp ?x) = of_int (n * 2 ^ k)" "pow2 (ulp_exp ?x) = 1 / 2 ^ k"
    by simp_all
  then show ?thesis
    using False by (simp add: fround_def Let_def del: of_int_mult) simp
qed (simp add: fround_def)

lemma dbl_of_int: "\<bar>n\<bar> < 2 ^ 53 \<Longrightarrow> dbl (of_int n) = Fin (of_int n)"
proof -
  assume n: "\<bar>n\<bar> < 2 ^ 53"
  have "(2 :: rat) ^ 53 \<le> 2 ^ 1024" by (rule power_increasing) auto
  moreover have "\<bar>of_int n :: rat\<bar> < 2 ^ 53"
    using n by (simp flip: of_int_abs)
  ultimately have "\<bar>of_int n :: rat\<bar> < pow2 1024" by (simp add: pow2_def)
  then show ?thesis
    by (simp add: dbl_def Let_def fround_of_int [OF n] abs_less_iff)
qed

text \<open>For evaluation: integers need no rounding.\<close>

lemma dbl_code [code]:
  "dbl x =
     (case quotient_of x of (n, d) \<Rightarrow>
        if d = 1 \<and> \<bar>n\<bar> < 9007199254740992 then Fin (rat_of_int n)
        else (let r = fround x in if r \<ge> pow2 1024 then PInf else if r \<le> - pow2 1024 then NInf else Fin r))"
proof (cases "quotient_of x")
  case (Pair n d)
  then have "x = rat_of_int n" if "d = 1" using that quotient_of_div [OF Pair] by simp
  then show ?thesis using Pair dbl_of_int [of n] by (auto simp: dbl_def)
qed

lemma d_of_int_exact [simp]: "\<bar>n\<bar> < 2 ^ 53 \<Longrightarrow> d_of_int n = Fin (of_int n)"
  by (simp add: d_of_int_def dbl_of_int)

lemma d_add_int: "\<bar>a + b\<bar> < 2 ^ 53 \<Longrightarrow> d_add (Fin (of_int a)) (Fin (of_int b)) = Fin (of_int (a + b))"
  using dbl_of_int [of "a + b"] by simp

lemma d_mul_int: "\<bar>a * b\<bar> < 2 ^ 53 \<Longrightarrow> d_mul (Fin (of_int a)) (Fin (of_int b)) = Fin (of_int (a * b))"
  using dbl_of_int [of "a * b"] by simp

lemma d_add_nat: "a + b < 2 ^ 53 \<Longrightarrow> d_add (Fin (of_nat a)) (Fin (of_nat b)) = Fin (of_nat (a + b))"
  using d_add_int [of "int a" "int b"]
  by (metis abs_of_nat of_int_of_nat_eq of_nat_add of_nat_less_iff of_nat_numeral of_nat_power)

lemma d_mul_nat: "a * b < 2 ^ 53 \<Longrightarrow> d_mul (Fin (of_nat a)) (Fin (of_nat b)) = Fin (of_nat (a * b))"
  using d_mul_int [of "int a" "int b"]
  by (metis abs_of_nat of_int_of_nat_eq of_nat_mult of_nat_less_iff of_nat_numeral of_nat_power)

lemma rat_trunc_of_int [simp]: "rat_trunc (of_int n) = n"
  by (simp add: rat_trunc_def)

lemma d_to_int_of_int: "int_range n \<Longrightarrow> d_to_int (Fin (of_int n)) = Inr n"
  by simp

lemma int_range_exact: "int_range n \<Longrightarrow> \<bar>n\<bar> < 2 ^ 53"
  by (auto simp: int_range_def INT_MAX_def INT_MIN_def)

lemma d_to_int_inv: "d_to_int d = Inr n \<Longrightarrow> int_range n"
  by (cases d) (auto split: if_splits)

section \<open>Rounding of dyadic fractions and of quotients\<close>

lemma ilog2_down_nonpos: "ilog2_down x \<le> 0"
proof (induction x rule: ilog2_down.induct)
  case (1 x)
  then show ?case by (subst ilog2_down.simps) auto
qed

lemma ilog2_down_bound: "0 < x \<Longrightarrow> x < 1 / 2 ^ m \<Longrightarrow> ilog2_down x \<le> - int m - 1"
proof (induction m arbitrary: x)
  case 0
  then show ?case
    using ilog2_down_nonpos [of "2 * x"] by (subst ilog2_down.simps) simp
next
  case (Suc m)
  have "x < 1 / 2 ^ m" using Suc.prems(2) by (simp add: field_simps)
  moreover have "1 / 2 ^ m \<le> (1 :: rat)" by simp
  ultimately have "x < 1" by linarith
  then have "ilog2_down x = ilog2_down (2 * x) - 1"
    using Suc.prems(1) by (subst ilog2_down.simps) simp
  moreover have "ilog2_down (2 * x) \<le> - int m - 1"
    using Suc.prems by (intro Suc.IH) (auto simp: field_simps)
  ultimately show ?case by simp
qed

lemma ilog2_bound_pos: "0 < x \<Longrightarrow> x < 2 ^ Suc k \<Longrightarrow> ilog2 x \<le> int k"
  using ilog2_up_bound [of x k] ilog2_down_nonpos [of x] by (auto simp: ilog2_def)

lemma pow2_neg: "e \<le> 0 \<Longrightarrow> pow2 e = 1 / 2 ^ nat (- e)"
  by (cases "e = 0") (auto simp: pow2_def)

lemma fround_dyadic:
  assumes "\<bar>n\<bar> < 2 ^ 53" "k \<le> 53"
  shows "fround (of_int n / 2 ^ k) = of_int n / 2 ^ k"
proof (cases "n = 0")
  case False
  let ?x = "of_int n / 2 ^ k :: rat"
  have n: "\<bar>of_int n :: rat\<bar> < 2 ^ 53" using assms(1) by (simp flip: of_int_abs)
  have pos: "0 < \<bar>?x\<bar>" using False by simp
  have up: "\<bar>?x\<bar> < 2 ^ 53 / 2 ^ k" using n by (simp add: abs_divide divide_strict_right_mono)
  have "ilog2 \<bar>?x\<bar> \<le> 52 - int k"
  proof (cases "k \<le> 52")
    case True
    then have "(2 :: rat) ^ 53 = 2 ^ Suc (52 - k) * 2 ^ k"
      by (subst power_add [symmetric]) simp
    then have "(2 :: rat) ^ 53 / 2 ^ k = 2 ^ Suc (52 - k)"
      by (simp add: nonzero_divide_eq_eq del: power_Suc)
    then show ?thesis using ilog2_bound_pos [OF pos, of "52 - k"] up True by simp
  next
    case False
    then have k: "k = 53" using assms(2) by simp
    then have lt: "\<bar>?x\<bar> < 1" using up by simp
    then have "ilog2_down \<bar>?x\<bar> \<le> - 1" using ilog2_down_bound [of "\<bar>?x\<bar>" 0] pos by simp
    then show ?thesis using lt k by (simp add: ilog2_def)
  qed
  then have u: "ulp_exp ?x \<le> - int k" using assms(2) by (simp add: ulp_exp_def)
  define j where "j = nat (- ulp_exp ?x)"
  have "k \<le> j" using u by (simp add: j_def)
  then have "(2 :: rat) ^ j = 2 ^ k * 2 ^ (j - k)" by (simp flip: power_add)
  moreover have p: "pow2 (ulp_exp ?x) = 1 / 2 ^ j" using u by (simp add: pow2_neg j_def)
  ultimately have "?x / pow2 (ulp_exp ?x) = of_int (n * 2 ^ (j - k))" by simp
  then have "round_even (?x / pow2 (ulp_exp ?x)) = n * 2 ^ (j - k)"
    by (simp only: round_even_of_int)
  then have "of_int (round_even (?x / pow2 (ulp_exp ?x))) * pow2 (ulp_exp ?x) = ?x"
    using \<open>(2 :: rat) ^ j = 2 ^ k * 2 ^ (j - k)\<close> by (simp add: p)
  then show ?thesis using False by (simp add: fround_def Let_def)
qed (simp add: fround_def)

lemma pow2_1024_ge: "(2 :: rat) ^ 53 \<le> pow2 1024"
proof -
  have "(2 :: rat) ^ 53 \<le> 2 ^ 1024" by (rule power_increasing) auto
  then show ?thesis by (simp add: pow2_def)
qed

lemma dbl_finite: "\<bar>fround x\<bar> < 2 ^ 53 \<Longrightarrow> dbl x = Fin (fround x)"
  using pow2_1024_ge by (auto simp: dbl_def Let_def abs_less_iff)

lemma dbl_dyadic:
  assumes "\<bar>n\<bar> < 2 ^ 53" "k \<le> 53"
  shows "dbl (of_int n / 2 ^ k) = Fin (of_int n / 2 ^ k)"
proof -
  have n: "\<bar>of_int n :: rat\<bar> < 2 ^ 53" using assms(1) by (simp flip: of_int_abs)
  have "\<bar>of_int n / 2 ^ k :: rat\<bar> \<le> \<bar>of_int n\<bar>"
    by (simp add: abs_divide divide_le_eq mult_le_cancel_left1)
  then have "\<bar>fround (of_int n / 2 ^ k)\<bar> < 2 ^ 53" using n fround_dyadic [OF assms] by simp
  then show ?thesis using dbl_finite fround_dyadic [OF assms] by metis
qed

lemma round_even_error: "\<bar>of_int (round_even q) - q\<bar> \<le> 1 / 2"
  using floor_correct [of q] by (auto simp: round_even_def Let_def abs_le_iff)

lemma fround_error: "\<bar>fround x - x\<bar> \<le> pow2 (ulp_exp x) / 2"
proof (cases "x = 0")
  case False
  let ?u = "pow2 (ulp_exp x)"
  have "fround x - x = (of_int (round_even (x / ?u)) - x / ?u) * ?u"
    using False pow2_pos [of "ulp_exp x"]
    by (simp add: fround_def Let_def left_diff_distrib less_imp_neq [THEN not_sym])
  then have "\<bar>fround x - x\<bar> = \<bar>of_int (round_even (x / ?u)) - x / ?u\<bar> * ?u"
    by (simp add: abs_mult abs_of_pos)
  also have "\<dots> \<le> 1 / 2 * ?u"
    by (intro mult_right_mono round_even_error less_imp_le pow2_pos)
  finally show ?thesis by simp
qed (simp add: fround_def less_imp_le)

lemma fround_error_31:
  assumes "0 \<le> x" "x < 2 ^ 31"
  shows "\<bar>fround x - x\<bar> \<le> 1 / 2 ^ 23"
proof (cases "x = 0")
  case False
  then have "ilog2 \<bar>x\<bar> \<le> int 30" using assms by (intro ilog2_bound_pos) auto
  then have u: "ulp_exp x \<le> - 22" by (simp add: ulp_exp_def)
  then have "(2 :: rat) ^ 22 \<le> 2 ^ nat (- ulp_exp x)" by (intro power_increasing) auto
  then have "pow2 (ulp_exp x) \<le> 1 / 2 ^ 22"
    using u by (subst pow2_neg) (auto intro: divide_left_mono)
  then show ?thesis using fround_error [of x] by simp
qed (simp add: fround_def)

text \<open>
  The truncated quotient of two integers in floating point is the integer quotient, for
  numerators below \<open>2 ^ 31\<close> and denominators up to \<open>2 ^ 20\<close>.
\<close>

lemma d_to_int_div:
  assumes n: "0 \<le> n" "n < 2 ^ 31" and m: "1 \<le> m" "m \<le> 2 ^ 20"
  shows "d_to_int (d_div (Fin (of_int n)) (Fin (of_int m))) = Inr (n div m)"
proof -
  define x where "x = (of_int n / of_int m :: rat)"
  have x0: "0 \<le> x" using n m by (simp add: x_def)
  have "x \<le> of_int n" using n m by (simp add: x_def divide_le_eq mult_le_cancel_left1)
  moreover have "(of_int n :: rat) < 2 ^ 31" using n by simp
  ultimately have x31: "x < 2 ^ 31" by linarith
  have eq: "of_int n = of_int (n div m) * of_int m + (of_int (n mod m) :: rat)"
    by (metis div_mult_mod_eq of_int_add of_int_mult)
  have xq: "x = of_int (n div m) + of_int (n mod m) / of_int m"
    unfolding x_def by (subst eq) (use m in \<open>simp add: field_simps\<close>)
  have r: "0 \<le> n mod m" "n mod m \<le> m - 1" using m by (simp_all add: zle_diff1_eq)
  have q: "0 \<le> n div m" "n div m \<le> n"
    using n m div_by_1 [of n] zdiv_mono2 [of n 1 m] by (auto simp: pos_imp_zdiv_nonneg_iff)
  have fl: "\<lfloor>fround x\<rfloor> = n div m"
  proof (cases "n mod m = 0")
    case True
    then have "fround x = of_int (n div m)"
      using fround_of_int [of "n div m"] q n by (simp add: xq)
    then show ?thesis by simp
  next
    case False
    have mr: "(of_int m :: rat) \<le> 2 ^ 20" "(1 :: rat) \<le> of_int m" using m by simp_all
    have inv: "1 / 2 ^ 20 \<le> 1 / (of_int m :: rat)" using mr by (intro divide_left_mono) auto
    have "1 / (of_int m :: rat) \<le> of_int (n mod m) / of_int m"
    proof (rule divide_right_mono)
      have "1 \<le> n mod m" using False r by linarith
      then show "(1 :: rat) \<le> of_int (n mod m)" by simp
    qed (use mr in simp)
    moreover have "of_int (n mod m) / of_int m \<le> (of_int m - 1) / (of_int m :: rat)"
    proof (rule divide_right_mono)
      have "(of_int (n mod m) :: rat) \<le> of_int (m - 1)" using r(2) by (simp only: of_int_le_iff)
      then show "(of_int (n mod m) :: rat) \<le> of_int m - 1" by simp
    qed (use mr in simp)
    moreover have "(of_int m - 1) / (of_int m :: rat) = 1 - 1 / of_int m"
      using mr by (simp add: field_simps)
    ultimately have "of_int (n div m) + 1 / 2 ^ 20 \<le> x" "x \<le> of_int (n div m) + 1 - 1 / 2 ^ 20"
      using inv xq by linarith+
    moreover have "1 / 2 ^ 23 < (1 :: rat) / 2 ^ 20" by simp
    moreover have "fround x - x \<le> 1 / 2 ^ 23" "- (1 / 2 ^ 23) \<le> fround x - x"
      using fround_error_31 [OF x0 x31] by (simp_all only: abs_le_iff minus_le_iff)
    ultimately have "of_int (n div m) \<le> fround x" "fround x < of_int (n div m) + 1"
      by linarith+
    then show ?thesis by (simp add: floor_unique)
  qed
  have "0 \<le> \<lfloor>fround x\<rfloor>" "\<lfloor>fround x\<rfloor> < 2 ^ 31" using q n fl by simp_all
  then have b: "0 \<le> fround x" "fround x < 2 ^ 31" by (simp_all add: floor_less_iff)
  then have "dbl x = Fin (fround x)" by (intro dbl_finite) auto
  moreover have "rat_trunc (fround x) = n div m" using fl b by (simp add: rat_trunc_def)
  moreover have "int_range (n div m)"
    using q n by (simp add: int_range_def INT_MIN_def INT_MAX_def)
  ultimately show ?thesis using m by (simp add: x_def)
qed

end
