(* ===== verification/Util_Strings.thy ===== *)
theory Util_Strings
  imports Prelude
begin

text \<open>
  The string helpers of \<open>src/src/util.cpp\<close>: trimming, splitting, unsigned parsing, letter case
  and the text measuring functions the client's fonts need. A text is a \<open>string\<close>; an index is
  a natural number, and a place where the code counts a \<open>std::size_t\<close> through zero keeps the
  64-bit word. The properties: trimming against \<open>dropWhile\<close>, splitting against joining,
  \<open>text_cap\<close> as the longest prefix within the width, and where \<open>text_word_wrap\<close> returns,
  throws or never ends.
\<close>

section \<open>\<open>std::string\<close> operations\<close>

text \<open>\<open>substr\<close> with one and with two arguments throws when the position is behind the end.\<close>

definition substr :: "string \<Rightarrow> nat \<Rightarrow> string outcome" where
  "substr s i = (if i \<le> length s then Inr (drop i s) else Inl Std_Out_Of_Range)"

definition substr_n :: "string \<Rightarrow> nat \<Rightarrow> nat \<Rightarrow> string outcome" where
  "substr_n s i n = (if i \<le> length s then Inr (take n (drop i s)) else Inl Std_Out_Of_Range)"

text \<open>\<open>find_last_not_of\<close>, with \<open>None\<close> as \<open>npos\<close>.\<close>

definition find_last :: "(char \<Rightarrow> bool) \<Rightarrow> string \<Rightarrow> nat option" where
  "find_last p s =
     (let n = length (dropWhile (\<lambda>c. \<not> p c) (rev s)) in if n = 0 then None else Some (n - 1))"

text \<open>\<open>find\<close> of a string from a position.\<close>

definition starts_with :: "string \<Rightarrow> string \<Rightarrow> bool" where
  "starts_with p s = (take (length p) s = p)"

function find_str :: "string \<Rightarrow> string \<Rightarrow> nat \<Rightarrow> nat option" where
  "find_str d s i =
     (if i > length s then None
      else if starts_with d (drop i s) then Some i
      else find_str d s (i + 1))"
  by pat_completeness auto
termination by (relation "measure (\<lambda>(d, s, i). Suc (length s) - i)") auto

declare find_str.simps [simp del, loop_simps]

section \<open>Trimming\<close>

definition is_space :: "char \<Rightarrow> bool" where
  "is_space c \<longleftrightarrow> c \<in> {CHR '' '', CHR 0x09, CHR 0x0A, CHR 0x0D}"

definition ltrim :: "string \<Rightarrow> string outcome" where
  "ltrim str =
     (let si = (case find_from (\<lambda>c. \<not> is_space c) 0 str of
                  None \<Rightarrow> 0
                | Some k \<Rightarrow> of_nat k - 1) :: size_t;
          si = si + 1
      in substr str (unat si))"

definition rtrim :: "string \<Rightarrow> string outcome" where
  "rtrim str =
     (let ei = (case find_last (\<lambda>c. \<not> is_space c) str of
                  None \<Rightarrow> of_nat (length str) - 1
                | Some k \<Rightarrow> of_nat k) :: size_t;
          ei = ei + 1
      in substr_n str 0 (unat ei))"

definition trim :: "string \<Rightarrow> string outcome" where
  "trim str =
     (let first = find_from (\<lambda>c. \<not> is_space c) 0 str;
          si = (case first of None \<Rightarrow> 0 | Some k \<Rightarrow> of_nat k) :: size_t;
          notfound = (first = None)
      in case find_last (\<lambda>c. \<not> is_space c) str of
           None \<Rightarrow>
             (if notfound then Inr ''''
              else let ei = of_nat (length str) - 1 + 1 :: size_t
                   in substr_n str (unat si) (unat (ei - si)))
         | Some k \<Rightarrow>
             (let ei = of_nat k + 1 :: size_t in substr_n str (unat si) (unat (ei - si))))"

section \<open>Splitting\<close>

function explode_from :: "char \<Rightarrow> string \<Rightarrow> nat \<Rightarrow> nat option \<Rightarrow> string list outcome" where
  "explode_from d str lastpos pos =
     (case pos of
        None \<Rightarrow> bind_out (substr str lastpos) (\<lambda>piece. Inr [piece])
      | Some p \<Rightarrow>
          (if p < length str then
             bind_out (substr_n str lastpos (p - lastpos)) (\<lambda>piece.
             bind_out (explode_from d str (p + 1) (find_from (\<lambda>c. c = d) (p + 1) str)) (\<lambda>pieces.
             Inr (piece # pieces)))
           else Inl Std_Out_Of_Range))"
  by pat_completeness auto
termination
proof (relation "measure (\<lambda>(d, str, l, pos). case pos of None \<Rightarrow> 0 | Some p \<Rightarrow> Suc (length str) - p)",
    goal_cases)
  case (2 d str lastpos pos p)
  show ?case
  proof (cases "find_from (\<lambda>c. c = d) (p + 1) str")
    case (Some k)
    then have "p + 1 \<le> k" "k < length str" by (auto dest: find_from_Some)
    then show ?thesis using 2 Some by simp
  qed (use 2 in simp)
qed simp

declare explode_from.simps [simp del, loop_simps]

definition explode_char :: "char \<Rightarrow> string \<Rightarrow> string list outcome" where
  "explode_char delimiter str =
     explode_from delimiter str 0 (find_from (\<lambda>c. c = delimiter) 0 str)"

text \<open>
  The overload with a string delimiter; an empty delimiter is found at every position, so
  its loop need not end and is an option, with \<open>None\<close> where the function never returns.
  Every position it takes a piece from is one \<open>find\<close> returned or the end of the delimiter
  behind it, so \<open>substr\<close> does not throw.
\<close>

partial_function (option) explode_str_from ::
    "string \<Rightarrow> string \<Rightarrow> nat \<Rightarrow> nat option \<Rightarrow> string list option" where
  "explode_str_from d str lastpos pos =
     (if pos = None then Some [drop lastpos str]
      else Option.bind
             (explode_str_from d str (the pos + length d) (find_str d str (the pos + length d)))
             (\<lambda>pieces. Some (take (the pos - lastpos) (drop lastpos str) # pieces)))"

definition explode_str :: "string \<Rightarrow> string \<Rightarrow> string list option" where
  "explode_str delimiter str = explode_str_from delimiter str 0 (find_str delimiter str 0)"

text \<open>The inverse of splitting.\<close>

fun join :: "string \<Rightarrow> string list \<Rightarrow> string" where
  "join d [] = ''''"
| "join d [p] = p"
| "join d (p # q # ps) = p @ d @ join d (q # ps)"

section \<open>Unsigned parsing and letter case\<close>

definition is_digit :: "char \<Rightarrow> bool" where
  "is_digit c \<longleftrightarrow> 48 \<le> (of_char c :: nat) \<and> (of_char c :: nat) \<le> 57"

definition digit_value :: "char \<Rightarrow> nat" where
  "digit_value c = of_char c - 48"

text \<open>The loop reads the digits from the last one; the list is the reversed string.\<close>

fun to_uint_loop :: "string \<Rightarrow> u32 \<Rightarrow> u32 \<Rightarrow> u32 outcome" where
  "to_uint_loop [] multiplier result = Inr result"
| "to_uint_loop (c # cs) multiplier result =
     (if \<not> is_digit c then Inl (Invalid_Argument ''Non-numeric argument'')
      else to_uint_loop cs (multiplier * 10) (result + of_nat (digit_value c) * multiplier))"

definition to_uint_raw :: "string \<Rightarrow> u32 outcome" where
  "to_uint_raw subject = (if length subject = 0 then Inr 0 else to_uint_loop (rev subject) 1 0)"

text \<open>\<open>std::tolower\<close> and \<open>std::toupper\<close> in the C locale.\<close>

definition tolower :: "char \<Rightarrow> char" where
  "tolower c = (let n = (of_char c :: nat) in if 65 \<le> n \<and> n \<le> 90 then char_of (n + 32) else c)"

definition toupper :: "char \<Rightarrow> char" where
  "toupper c = (let n = (of_char c :: nat) in if 97 \<le> n \<and> n \<le> 122 then char_of (n - 32) else c)"

definition lowercase :: "string \<Rightarrow> string" where
  "lowercase subject = map tolower subject"

definition uppercase :: "string \<Rightarrow> string" where
  "uppercase subject = map toupper subject"

definition ucfirst :: "string \<Rightarrow> string" where
  "ucfirst subject =
     (case subject of
        [] \<Rightarrow> []
      | c # cs \<Rightarrow>
          (let n = (of_char c :: nat)
           in if 97 \<le> n \<and> n \<le> 122 then char_of (n - 32) # cs else c # cs))"

section \<open>Measuring text\<close>

text \<open>The widths of the characters of the client's font.\<close>

definition sizes :: "int list" where
  "sizes = [
     3,  3,  3,  3,  3,  3,  3,  3,  3,  3,  3,  3,  3,  3,  3,  3,
     3,  3,  3,  3,  3,  3,  3,  3,  3,  3,  3,  3,  3,  3,  3,  3,
     3,  3,  5,  7,  6,  8,  6,  2,  3,  3,  4,  6,  3,  3,  3,  5,
     6,  6,  6,  6,  6,  6,  6,  6,  6,  6,  3,  3,  6,  6,  6,  6,
    11,  7,  7,  7,  8,  7,  6,  8,  8,  3,  5,  7,  6,  9,  8,  8,
     7,  8,  8,  7,  7,  8,  7, 11,  7,  7,  7,  3,  5,  3,  6,  6,
     3,  6,  6,  6,  6,  6,  3,  6,  6,  2,  2,  6,  2,  8,  6,  6,
     6,  6,  3,  5,  3,  6,  6,  8,  5,  5,  5,  4,  2,  4,  7,  3,
     0,  0,  0,  0,  0,  0,  0,  0,  0,  0,  0,  0,  0,  0,  0,  0,
     0,  0,  0,  0,  0,  0,  0,  0,  0,  0,  0,  0,  0,  0,  0,  0,
     3,  3,  6,  6,  6,  6,  2,  6,  3,  9,  4,  6,  6,  3,  8,  6,
     4,  6,  3,  3,  3,  6,  6,  3,  3,  3,  4,  6,  8,  8,  8,  6,
     7,  7,  7,  7,  7,  7, 10,  7,  7,  7,  7,  7,  3,  3,  3,  3,
     8,  8,  8,  8,  8,  8,  8,  6,  8,  8,  8,  8,  8,  7,  7,  6,
     6,  6,  6,  6,  6,  6, 10,  6,  6,  6,  6,  6,  2,  4,  4,  4,
     6,  6,  6,  6,  6,  6,  6,  6,  6,  6,  6,  6,  6,  5,  6,  5]"

definition size_of :: "char \<Rightarrow> int" where
  "size_of c = sizes ! of_char c"

definition text_width :: "string \<Rightarrow> int" where
  "text_width string = foldl (\<lambda>len c. len + size_of c) 0 string"

fun max_word_loop :: "string \<Rightarrow> int \<Rightarrow> int \<Rightarrow> int" where
  "max_word_loop [] max_length len = max max_length len"
| "max_word_loop (c # cs) max_length len =
     (if c = CHR '' '' then max_word_loop cs (max max_length len) 0
      else max_word_loop cs max_length (len + size_of c))"

definition text_max_word_width :: "string \<Rightarrow> int" where
  "text_max_word_width string = max_word_loop string 0 0"

text \<open>
  \<open>text_cap\<close> takes the code of the character at \<open>i\<close> (a signed \<open>char\<close>) off the length where
  its width was meant.
\<close>

definition char_code :: "char \<Rightarrow> int" where
  "char_code c = (let n = (of_char c :: int) in if n < 128 then n else n - 256)"

fun cap_back :: "string \<Rightarrow> int \<Rightarrow> int \<Rightarrow> nat \<Rightarrow> nat" where
  "cap_back string limit len 0 = 0"
| "cap_back string limit len (Suc i) =
     (if len > limit then cap_back string limit (len - char_code (string ! Suc i)) i
      else Suc i)"

fun cap_loop :: "string \<Rightarrow> int \<Rightarrow> string \<Rightarrow> nat \<Rightarrow> int \<Rightarrow> string \<Rightarrow> string" where
  "cap_loop string width elipses i len [] = string"
| "cap_loop string width elipses i len (c # cs) =
     (let len = len + size_of c
      in if len > width then
           (let elipses_length = text_width elipses
            in take (cap_back string (width + elipses_length) len i) string)
         else cap_loop string width elipses (i + 1) len cs)"

definition text_cap :: "string \<Rightarrow> int \<Rightarrow> string \<Rightarrow> string" where
  "text_cap string width elipses = cap_loop string width elipses 0 0 string"

text \<open>
  \<open>text_word_wrap\<close> inserts a space before the previous character and goes on with the
  character at \<open>i + 1\<close>, which after the insertion is the one just measured. The insertion
  at \<open>i - 1\<close> with \<open>i = 0\<close> throws. The loop need not end.
\<close>

definition insert_space :: "string \<Rightarrow> nat \<Rightarrow> string" where
  "insert_space s i = take i s @ CHR '' '' # drop i s"

partial_function (option) wrap_loop ::
    "int \<Rightarrow> string \<Rightarrow> nat \<Rightarrow> int \<Rightarrow> string outcome option" where
  "wrap_loop width result i len =
     (if i < length result then
        (if result ! i = CHR '' '' then wrap_loop width result (i + 1) 0
         else
           (let len = len + size_of (result ! i)
            in if len > width then
                 (if i = 0 then Some (Inl Std_Out_Of_Range)
                  else wrap_loop width (insert_space result (i - 1)) (i + 1) 0)
               else wrap_loop width result (i + 1) len))
      else Some (Inr result))"

definition text_word_wrap :: "string \<Rightarrow> int \<Rightarrow> string outcome option" where
  "text_word_wrap string width = wrap_loop width string 0 0"

section \<open>Trimming and \<open>dropWhile\<close>\<close>

lemma find_from_0:
  "find_from p 0 s =
     (let n = length (takeWhile (\<lambda>x. \<not> p x) s) in if n < length s then Some n else None)"
  unfolding find_from_def drop_0 add_0 ..

lemma takeWhile_length_less: "length (takeWhile P s) < length s \<longleftrightarrow> (\<exists>x \<in> set s. \<not> P x)"
  by (induction s) auto

lemma drop_takeWhile: "drop (length (takeWhile P s)) s = dropWhile P s"
  by (rule dropWhile_eq_drop [symmetric])

lemma rev_dropWhile_take: "take (length (dropWhile P (rev s))) s = rev (dropWhile P (rev s))"
proof -
  have "length (takeWhile P (rev s)) \<le> length s"
    using length_takeWhile_le [of P "rev s"] by simp
  then show ?thesis
    by (simp add: dropWhile_eq_drop rev_drop)
qed

lemma length_dropWhile_pos: "length (dropWhile P s) = 0 \<longleftrightarrow> (\<forall>x \<in> set s. P x)"
  by (induction s) auto

definition strip :: "string \<Rightarrow> string" where
  "strip s = rev (dropWhile is_space (rev (dropWhile is_space s)))"

lemma ltrim_eq:
  assumes "length s < 2 ^ 64"
  shows "ltrim s =
    (if s = [] then Inl Std_Out_Of_Range
     else if \<forall>c \<in> set s. is_space c then Inr (tl s)
     else Inr (dropWhile is_space s))"
proof (cases "\<forall>c \<in> set s. is_space c")
  case True
  then have "find_from (\<lambda>c. \<not> is_space c) 0 s = None"
    by (simp add: find_from_0 Let_def takeWhile_length_less)
  then show ?thesis
    using True by (cases s) (auto simp: ltrim_def Let_def substr_def drop_Suc)
next
  case False
  let ?n = "length (takeWhile is_space s)"
  have n: "?n < length s" using False by (simp add: takeWhile_length_less)
  then have "find_from (\<lambda>c. \<not> is_space c) 0 s = Some ?n"
    by (simp add: find_from_0 Let_def)
  then show ?thesis
    using False n assms by (auto simp: ltrim_def Let_def substr_def drop_takeWhile)
qed

lemma find_last_none: "\<forall>c \<in> set s. \<not> p c \<Longrightarrow> find_last p s = None"
  by (simp add: find_last_def Let_def)

lemma find_last_some:
  assumes "\<exists>c \<in> set s. p c"
  obtains k where "find_last p s = Some k" "k + 1 = length (dropWhile (\<lambda>c. \<not> p c) (rev s))"
    "k < length s"
proof -
  let ?n = "length (dropWhile (\<lambda>c. \<not> p c) (rev s))"
  have "?n \<noteq> 0" using assms by (auto simp: length_dropWhile_pos simp del: length_0_conv)
  moreover have "?n \<le> length s"
    using length_dropWhile_le [of _ "rev s"] by simp
  moreover from calculation have "?n - 1 + 1 = ?n" "?n - 1 < length s" by linarith+
  moreover have "find_last p s = Some (?n - 1)"
    using \<open>?n \<noteq> 0\<close> unfolding find_last_def Let_def by (rule if_not_P)
  ultimately show thesis by (intro that)
qed

lemma rtrim_eq:
  assumes "length s < 2 ^ 64"
  shows "rtrim s =
    Inr (if \<forall>c \<in> set s. is_space c then s else rev (dropWhile is_space (rev s)))"
proof (cases "\<forall>c \<in> set s. is_space c")
  case True
  then have "find_last (\<lambda>c. \<not> is_space c) s = None" by (simp add: find_last_none)
  then show ?thesis using True assms by (simp add: rtrim_def substr_n_def)
next
  case False
  then obtain k where "find_last (\<lambda>c. \<not> is_space c) s = Some k"
    and k: "k + 1 = length (dropWhile is_space (rev s))" "k < length s"
    using find_last_some [of s "\<lambda>c. \<not> is_space c"] by auto
  moreover have "(of_nat k + 1 :: size_t) = of_nat (k + 1)" by simp
  moreover have "unat (of_nat (k + 1) :: size_t) = k + 1"
    using k(2) assms by (intro unat_of_nat_small) simp
  moreover have "take (k + 1) s = rev (dropWhile is_space (rev s))"
    unfolding k by (rule rev_dropWhile_take)
  ultimately show ?thesis
    using False by (auto simp: rtrim_def substr_n_def simp del: of_nat_add of_nat_Suc)
qed

lemma trim_eq:
  assumes "length s < 2 ^ 64"
  shows "trim s = Inr (strip s)"
proof (cases "\<forall>c \<in> set s. is_space c")
  case True
  then have "dropWhile is_space s = []" by (simp add: dropWhile_eq_Nil_conv)
  then have "strip s = []" unfolding strip_def by (simp only: rev.simps dropWhile.simps)
  moreover have "find_from (\<lambda>c. \<not> is_space c) 0 s = None"
    using True by (simp add: find_from_0 Let_def takeWhile_length_less)
  moreover have "find_last (\<lambda>c. \<not> is_space c) s = None" using True by (simp add: find_last_none)
  ultimately show ?thesis by (simp add: trim_def)
next
  case False
  let ?n = "length (takeWhile is_space s)" and ?t = "dropWhile is_space s"
  obtain k where fl: "find_last (\<lambda>c. \<not> is_space c) s = Some k"
    and k: "k + 1 = length (dropWhile is_space (rev s))" "k < length s"
    using False find_last_some [of s "\<lambda>c. \<not> is_space c"] by auto
  have n: "?n < length s" using False by (simp add: takeWhile_length_less)
  have ff: "find_from (\<lambda>c. \<not> is_space c) 0 s = Some ?n"
    using n by (simp add: find_from_0 Let_def)
  obtain x where x: "x \<in> set (rev ?t)" "\<not> is_space x"
    using False by (metis set_rev takeWhile_dropWhile_id in_set_conv_decomp dropWhile_eq_Nil_conv
        hd_dropWhile hd_in_set)
  have "dropWhile is_space (rev s) = dropWhile is_space (rev ?t @ rev (takeWhile is_space s))"
    by (metis rev_append takeWhile_dropWhile_id)
  also have "\<dots> = dropWhile is_space (rev ?t) @ rev (takeWhile is_space s)"
    using x by (rule dropWhile_append1)
  finally have k1: "k + 1 = length (dropWhile is_space (rev ?t)) + ?n"
    using k(1) by simp
  have k1w: "(of_nat k + 1 :: size_t) = of_nat (k + 1)" by simp
  have "unat (of_nat k + 1 - of_nat ?n :: size_t) = k + 1 - ?n"
    unfolding k1w using k1 k(2) assms n
    by (subst unat_sub) (auto simp: word_le_nat_alt simp del: of_nat_Suc of_nat_add)
  moreover have "take (k + 1 - ?n) ?t = strip s"
    using k1 rev_dropWhile_take [of is_space ?t] by (simp add: strip_def)
  ultimately show ?thesis
    using n assms by (simp add: trim_def ff fl Let_def substr_n_def drop_takeWhile)
qed

text \<open>
  For texts below \<open>2 ^ 64\<close> characters, \<open>trim\<close> removes exactly the white space (blank, tab,
  carriage return, line feed) at both ends. \<open>rtrim\<close> removes it at the right end, except that a
  text of nothing but white space is left as it is; \<open>ltrim\<close> removes it at the left end,
  except that it takes only one character off a text of nothing but white space and throws
  \<open>std::out_of_range\<close> on the empty text.
\<close>

theorem trim_functions:
  assumes "length s < 2 ^ 64"
  shows "trim s = Inr (strip s) \<and>
    rtrim s = Inr (if \<forall>c \<in> set s. is_space c then s else rev (dropWhile is_space (rev s))) \<and>
    ltrim s = (if s = [] then Inl Std_Out_Of_Range
               else if \<forall>c \<in> set s. is_space c then Inr (tl s)
               else Inr (dropWhile is_space s))"
  by (intro conjI trim_eq rtrim_eq ltrim_eq assms)

theorem trim_functions_witness:
  "trim '' key = v '' = Inr ''key = v'' \<and> rtrim ''  '' = Inr ''  '' \<and> ltrim ''  '' = Inr '' ''"
  using trim_functions [of "'' key = v ''"] trim_functions [of "''  ''"]
  by (simp add: strip_def is_space_def)

section \<open>Splitting and joining\<close>

fun pieces :: "char \<Rightarrow> string \<Rightarrow> string list" where
  "pieces d [] = [[]]"
| "pieces d (c # cs) =
     (if c = d then [] # pieces d cs
      else (case pieces d cs of [] \<Rightarrow> [[c]] | p # ps \<Rightarrow> (c # p) # ps))"

lemma pieces_not_Nil [simp]: "pieces d s \<noteq> []"
  by (induction s) (auto split: list.splits)

lemma pieces_no_delimiter: "d \<notin> set p \<Longrightarrow> pieces d p = [p]"
  by (induction p) auto

lemma pieces_append_delimiter: "d \<notin> set p \<Longrightarrow> pieces d (p @ d # s) = p # pieces d s"
  by (induction p) auto

lemma pieces_join:
  "ps \<noteq> [] \<Longrightarrow> \<forall>p \<in> set ps. d \<notin> set p \<Longrightarrow> pieces d (join [d] ps) = ps"
  by (induction "[d]" ps rule: join.induct) (auto simp: pieces_no_delimiter pieces_append_delimiter)

lemma join_pieces: "join [d] (pieces d s) = s"
proof (induction s)
  case (Cons c cs)
  obtain p ps where ps: "pieces d cs = p # ps" by (cases "pieces d cs") auto
  then show ?case using Cons by (cases ps) auto
qed simp

lemma pieces_clean: "p \<in> set (pieces d s) \<Longrightarrow> d \<notin> set p"
  by (induction s arbitrary: p) (auto split: if_splits list.splits)

lemma explode_from_pieces:
  "l \<le> length s \<Longrightarrow>
   explode_from d s l (find_from (\<lambda>c. c = d) l s) = Inr (pieces d (drop l s))"
proof (induction "length s - l" arbitrary: l rule: less_induct)
  case less
  let ?w = "takeWhile (\<lambda>c. c \<noteq> d) (drop l s)"
  show ?case
  proof (cases "l + length ?w < length s")
    case False
    then have none: "find_from (\<lambda>c. c = d) l s = None" by (simp add: find_from_def Let_def)
    have "d \<notin> set (drop l s)"
    proof
      assume "d \<in> set (drop l s)"
      then have "length ?w < length (drop l s)" by (subst takeWhile_length_less) auto
      then show False using False less.prems by simp
    qed
    then show ?thesis
      unfolding none using less.prems
      by (simp add: explode_from.simps substr_def pieces_no_delimiter)
  next
    case True
    let ?p = "l + length ?w"
    have some: "find_from (\<lambda>c. c = d) l s = Some ?p"
      using True by (simp add: find_from_def Let_def)
    have at: "s ! ?p = d" using find_from_Some(3) [OF some] .
    have "drop l s = ?w @ drop ?p s"
      by (metis append_take_drop_id drop_drop takeWhile_eq_take add.commute)
    moreover have "drop ?p s = d # drop (?p + 1) s"
      using True at by (metis Cons_nth_drop_Suc Suc_eq_plus1)
    moreover have "d \<notin> set ?w" by (auto dest: set_takeWhileD)
    ultimately have "pieces d (drop l s) = ?w # pieces d (drop (?p + 1) s)"
      using pieces_append_delimiter [of d ?w "drop (?p + 1) s"] by simp
    moreover have "take (?p - l) (drop l s) = ?w" by (simp add: takeWhile_eq_take [symmetric])
    moreover have "explode_from d s (?p + 1) (find_from (\<lambda>c. c = d) (?p + 1) s) =
        Inr (pieces d (drop (?p + 1) s))"
      using True by (intro less.hyps) auto
    ultimately show ?thesis
      using True less.prems
      by (subst explode_from.simps) (simp add: some substr_n_def)
  qed
qed

lemma explode_char_pieces: "explode_char d s = Inr (pieces d s)"
  using explode_from_pieces [of 0 s d] by (simp add: explode_char_def)

text \<open>
  \<open>explode\<close> with a character and joining with that character are inverse: every text is
  split into at least one piece, no piece holds the delimiter, the pieces joined give the
  text again, and any list of pieces without the delimiter is what its joined text splits
  into.
\<close>

theorem explode_join:
  assumes "ps \<noteq> []" "\<forall>p \<in> set ps. d \<notin> set p"
  shows "explode_char d (join [d] ps) = Inr ps \<and>
    (\<exists>qs. explode_char d s = Inr qs \<and> qs \<noteq> [] \<and> (\<forall>q \<in> set qs. d \<notin> set q) \<and> join [d] qs = s)"
  using assms by (auto simp: explode_char_pieces pieces_join join_pieces dest: pieces_clean)

theorem explode_join_witness:
  "explode_char (CHR '','') ''1,,22'' = Inr [''1'', '''', ''22'']"
  using explode_join [of "[''1'', '''', ''22'']" "CHR '',''" "''''"] by simp

lemma explode_str_from_empty_delimiter:
  "explode_str_from d s l p = Some y \<Longrightarrow> d = [] \<longrightarrow> p = None \<or> the p > length s"
proof (rule explode_str_from.raw_induct
    [where P = "\<lambda>d s l p y. d = [] \<longrightarrow> p = None \<or> the p > length s"])
  fix f d s l p y
  assume IH: "\<And>d s l p y. f d s l p = Some y \<Longrightarrow> d = [] \<longrightarrow> p = None \<or> the p > length s"
    and step: "(if p = None then Some [drop l s]
      else Option.bind (f d s (the p + length d) (find_str d s (the p + length d)))
             (\<lambda>pieces. Some (take (the p - l) (drop l s) # pieces))) = Some y"
  show "d = [] \<longrightarrow> p = None \<or> the p > length s"
  proof (intro impI, rule ccontr)
    assume d: "d = []" and "\<not> (p = None \<or> the p > length s)"
    then obtain k where p: "p = Some k" "k \<le> length s" by auto
    then have "find_str [] s k = Some k"
      by (subst find_str.simps) (simp add: starts_with_def)
    then show False using IH [of d s k "Some k"] step d p by (auto simp: bind_eq_Some_conv)
  qed
qed

lemma explode_str_empty_delimiter: "explode_str [] s = None"
proof -
  have "find_str [] s 0 = Some 0"
    by (subst find_str.simps) (simp add: starts_with_def)
  then show ?thesis
    using explode_str_from_empty_delimiter [of "[]" s 0 "Some 0"]
    by (cases "explode_str_from [] s 0 (Some 0)") (auto simp: explode_str_def)
qed

section \<open>Decimal digits\<close>

definition dec_value :: "string \<Rightarrow> nat" where
  "dec_value s = foldl (\<lambda>n c. 10 * n + digit_value c) 0 s"

lemma dec_value_snoc: "dec_value (s @ [c]) = 10 * dec_value s + digit_value c"
  by (simp add: dec_value_def)

lemma to_uint_loop_digits:
  "\<forall>c \<in> set s. is_digit c \<Longrightarrow>
   to_uint_loop (rev s) m r = Inr (r + m * of_nat (dec_value s))"
  by (induction s arbitrary: m r rule: rev_induct)
    (auto simp: dec_value_def algebra_simps)

lemma to_uint_loop_error:
  "\<exists>c \<in> set s. \<not> is_digit c \<Longrightarrow>
   to_uint_loop s m r = Inl (Invalid_Argument ''Non-numeric argument'')"
  by (induction s arbitrary: m r) auto

lemma to_uint_raw_eq:
  "to_uint_raw s =
    (if \<forall>c \<in> set s. is_digit c then Inr (of_nat (dec_value s))
     else Inl (Invalid_Argument ''Non-numeric argument''))"
proof (cases "s = []")
  case False
  then show ?thesis
    using to_uint_loop_digits [of s 1 0] to_uint_loop_error [of "rev s" 1 0]
    by (auto simp: to_uint_raw_def)
qed (simp add: to_uint_raw_def dec_value_def)

section \<open>Widths\<close>

lemma length_sizes: "length sizes = 256"
  by (simp add: sizes_def)

lemma sizes_bounds: "\<forall>n \<in> set sizes. 0 \<le> n \<and> n \<le> 11"
  by (simp add: sizes_def)

lemma size_of_bounds: "0 \<le> size_of c" "size_of c \<le> 11"
proof -
  have "(of_char c :: nat) < 256" by simp
  then have "size_of c \<in> set sizes" by (simp add: size_of_def length_sizes)
  then show "0 \<le> size_of c" "size_of c \<le> 11" using sizes_bounds by auto
qed

lemma text_width_Nil [simp]: "text_width [] = 0"
  by (simp add: text_width_def)

lemma text_width_snoc [simp]: "text_width (s @ [c]) = text_width s + size_of c"
  by (simp add: text_width_def)

lemma text_width_append: "text_width (s @ t) = text_width s + text_width t"
proof (induction t rule: rev_induct)
  case (snoc c t)
  then show ?case using text_width_snoc [of "s @ t" c] by simp
qed simp

lemma text_width_nonneg: "0 \<le> text_width s"
  by (induction s rule: rev_induct) (simp_all add: size_of_bounds add_nonneg_nonneg)

lemma text_width_take_mono: "i \<le> j \<Longrightarrow> text_width (take i s) \<le> text_width (take j s)"
proof -
  assume "i \<le> j"
  then have "take j s = take i s @ drop i (take j s)"
    by (metis append_take_drop_id min.absorb1 take_take)
  then have "text_width (take j s) = text_width (take i s) + text_width (drop i (take j s))"
    by (metis text_width_append)
  then show ?thesis using text_width_nonneg by simp
qed

lemma cap_back_le: "cap_back s limit len i \<le> i"
  by (induction i arbitrary: len) (auto intro: le_SucI)

lemma cap_back_stay: "len \<le> limit \<Longrightarrow> cap_back s limit len i = i"
  by (cases i) auto

lemma cap_loop_cases:
  assumes "s = pre @ cs" "len = text_width pre" "len \<le> width"
  shows "(text_width s \<le> width \<and> cap_loop s width e (length pre) len cs = s) \<or>
    (\<exists>k j. k < length s \<and> text_width (take k s) \<le> width \<and> width < text_width (take (Suc k) s)
       \<and> j \<le> k \<and> cap_loop s width e (length pre) len cs = take j s
       \<and> (11 \<le> text_width e \<longrightarrow> j = k))"
  using assms
proof (induction cs arbitrary: pre len)
  case (Cons c cs)
  show ?case
  proof (cases "len + size_of c > width")
    case True
    let ?k = "length pre"
    let ?j = "cap_back s (width + text_width e) (len + size_of c) ?k"
    have "take ?k s = pre" "take (Suc ?k) s = pre @ [c]" using Cons.prems by simp_all
    moreover have "11 \<le> text_width e \<Longrightarrow> ?j = ?k"
      using Cons.prems size_of_bounds(2) [of c] by (intro cap_back_stay) simp
    ultimately show ?thesis
      using True Cons.prems cap_back_le [of s _ _ ?k]
      by (intro disjI2 exI [of _ ?k] exI [of _ ?j]) (auto simp: Let_def)
  next
    case False
    have "cap_loop s width e (length pre) len (c # cs) =
        cap_loop s width e (length (pre @ [c])) (len + size_of c) cs"
      using False by (simp add: Let_def)
    then show ?thesis
      using Cons.IH [of "pre @ [c]" "len + size_of c"] Cons.prems False by simp
  qed
qed simp

text \<open>
  \<open>text_cap\<close> with a width that is not negative returns a text that fits the width: the whole
  text when it fits, and otherwise a proper prefix of it; with an ellipsis at least as wide as
  every character the prefix is the longest one that fits. The ellipsis is never appended.
\<close>

theorem text_cap_fits:
  assumes "0 \<le> width"
  shows "text_width (text_cap s width e) \<le> width \<and>
    (text_width s \<le> width \<longrightarrow> text_cap s width e = s) \<and>
    (width < text_width s \<longrightarrow>
      (\<exists>k < length s. text_cap s width e = take k s \<and>
        (11 \<le> text_width e \<longrightarrow> width < text_width (take (Suc k) s))))"
proof -
  consider (all) "text_width s \<le> width" "text_cap s width e = s"
    | (cut) k j where "k < length s" "text_width (take k s) \<le> width"
        "width < text_width (take (Suc k) s)" "j \<le> k" "text_cap s width e = take j s"
        "11 \<le> text_width e \<longrightarrow> j = k"
    using cap_loop_cases [of s "[]" s 0 width e] assms by (auto simp: text_cap_def)
  then show ?thesis
  proof cases
    case cut
    have "text_width (take j s) \<le> width" using cut text_width_take_mono [of j k s] by simp
    moreover have "width < text_width s"
      using cut text_width_take_mono [of "Suc k" "length s" s] by simp
    ultimately show ?thesis using cut by (auto intro!: exI [of _ j])
  qed simp
qed

theorem text_cap_fits_witness:
  "text_cap ''Apozen of Aeven'' 30 ''......'' = ''Apoze''"
proof -
  have "text_width (text_cap ''Apozen of Aeven'' 30 ''......'') \<le> 30"
    using text_cap_fits [of 30 "''Apozen of Aeven''" "''......''"] by simp
  then show ?thesis by (simp add: text_cap_def text_width_def size_of_def sizes_def)
qed

section \<open>Word wrapping\<close>

text \<open>
  The loop of \<open>text_word_wrap\<close> seen as a function of the part already read and the rest,
  for texts whose characters all fit the width.
\<close>

fun wrap_done :: "int \<Rightarrow> string \<Rightarrow> int \<Rightarrow> string \<Rightarrow> string" where
  "wrap_done width d len [] = d"
| "wrap_done width d len (c # cs) =
     (if c = CHR '' '' then wrap_done width (d @ [c]) 0 cs
      else if len + size_of c > width then
        wrap_done width (butlast d @ [CHR '' '', last d, c]) (size_of c) cs
      else wrap_done width (d @ [c]) (len + size_of c) cs)"

definition fits_width :: "int \<Rightarrow> char \<Rightarrow> bool" where
  "fits_width width c \<longleftrightarrow> c = CHR '' '' \<or> size_of c \<le> width"

lemma insert_space_before_last:
  "d \<noteq> [] \<Longrightarrow>
   insert_space (d @ cs) (length d - Suc 0) = (butlast d @ [CHR '' '', last d]) @ cs"
  by (cases d rule: rev_cases) (auto simp: insert_space_def)

lemma wrap_loop_step:
  assumes "d \<noteq> [] \<or> len = 0" "0 \<le> len" "fits_width width c"
  shows "wrap_loop width (d @ c # cs) (length d) len =
    (if c = CHR '' '' then wrap_loop width ((d @ [c]) @ cs) (length (d @ [c])) 0
     else if len + size_of c > width then
       (let d' = butlast d @ [CHR '' '', last d, c]
        in wrap_loop width (d' @ cs) (length d') (size_of c))
     else wrap_loop width ((d @ [c]) @ cs) (length (d @ [c])) (len + size_of c))"
proof (cases "c \<noteq> CHR '' '' \<and> len + size_of c > width")
  case True
  then have fit: "size_of c \<le> width" and d: "d \<noteq> []"
    using assms by (auto simp: fits_width_def)
  let ?e = "butlast d @ [CHR '' '', last d]"
  have "wrap_loop width (d @ c # cs) (length d) len = wrap_loop width (?e @ c # cs) (length ?e) 0"
    using True d by (subst wrap_loop.simps) (simp add: Let_def insert_space_before_last)
  also have "\<dots> = wrap_loop width (?e @ c # cs) (length ?e + 1) (size_of c)"
    using True fit by (subst wrap_loop.simps) (simp add: Let_def nth_append)
  finally show ?thesis using True by (simp add: Let_def)
next
  case False
  then show ?thesis by (subst wrap_loop.simps) (auto simp: Let_def)
qed

lemma wrap_loop_done:
  assumes "d \<noteq> [] \<or> len = 0" "0 \<le> len" "\<forall>c \<in> set pre. fits_width width c"
  shows "\<exists>d' len'. wrap_loop width (d @ pre @ cs) (length d) len =
      wrap_loop width (d' @ cs) (length d') len' \<and> d' = wrap_done width d len pre
    \<and> (d' \<noteq> [] \<or> len' = 0) \<and> 0 \<le> len' \<and> (d @ pre \<noteq> [] \<longrightarrow> d' \<noteq> [])"
  using assms
proof (induction pre arbitrary: d len)
  case (Cons c pre)
  then have fit: "fits_width width c" by simp
  have step: "wrap_loop width (d @ (c # pre) @ cs) (length d) len =
      (if c = CHR '' '' then wrap_loop width ((d @ [c]) @ pre @ cs) (length (d @ [c])) 0
       else if len + size_of c > width then
         (let d' = butlast d @ [CHR '' '', last d, c]
          in wrap_loop width (d' @ pre @ cs) (length d') (size_of c))
       else wrap_loop width ((d @ [c]) @ pre @ cs) (length (d @ [c])) (len + size_of c))"
    using wrap_loop_step [OF Cons.prems(1,2) fit, of "pre @ cs"] by simp
  consider "c = CHR '' ''" | "c \<noteq> CHR '' ''" "len + size_of c > width"
    | "c \<noteq> CHR '' ''" "len + size_of c \<le> width" by linarith
  then show ?case
  proof cases
    case 1
    then show ?thesis
      using Cons.IH [of "d @ [c]" 0] Cons.prems unfolding step by simp
  next
    case 2
    then show ?thesis
      using Cons.IH [of "butlast d @ [CHR '' '', last d, c]" "size_of c"] Cons.prems
      unfolding step by (simp add: size_of_bounds)
  next
    case 3
    then show ?thesis
      using Cons.IH [of "d @ [c]" "len + size_of c"] Cons.prems
      unfolding step by (simp add: size_of_bounds add_nonneg_nonneg)
  qed
qed auto

lemma wrap_all_fit:
  "\<forall>c \<in> set s. fits_width width c \<Longrightarrow>
   text_word_wrap s width = Some (Inr (wrap_done width [] 0 s))"
  using wrap_loop_done [of "[]" 0 s width "[]"] wrap_loop.simps
  by (fastforce simp: text_word_wrap_def)

lemma wrap_done_filter:
  "d \<noteq> [] \<or> len = 0 \<Longrightarrow> 0 \<le> len \<Longrightarrow> \<forall>c \<in> set s. fits_width width c \<Longrightarrow>
   filter (\<lambda>c. c \<noteq> CHR '' '') (wrap_done width d len s) =
   filter (\<lambda>c. c \<noteq> CHR '' '') (d @ s)"
proof (induction width d len s rule: wrap_done.induct)
  case (2 width d len c cs)
  show ?case
  proof (cases "c \<noteq> CHR '' '' \<and> len + size_of c > width")
    case True
    then have "d \<noteq> []" using 2(4-6) by (auto simp: fits_width_def)
    then have "d = butlast d @ [last d]" by simp
    then have "filter (\<lambda>c. c \<noteq> CHR '' '') d =
        filter (\<lambda>c. c \<noteq> CHR '' '') (butlast d) @ filter (\<lambda>c. c \<noteq> CHR '' '') [last d]"
      by (metis filter_append)
    then show ?thesis using 2 True by (simp add: size_of_bounds)
  qed (use 2 in \<open>auto simp: size_of_bounds add_nonneg_nonneg not_less\<close>)
qed simp

text \<open>The widest word so far and the width of the word that is not yet closed.\<close>

fun word_scan :: "int \<times> int \<Rightarrow> char \<Rightarrow> int \<times> int" where
  "word_scan (m, l) c = (if c = CHR '' '' then (max m l, 0) else (m, l + size_of c))"

definition scan :: "string \<Rightarrow> int \<times> int" where
  "scan s = foldl word_scan (0, 0) s"

lemma scan_snoc [simp]: "scan (s @ [c]) = word_scan (scan s) c"
  by (simp add: scan_def)

lemma max_word_loop_scan:
  "max_word_loop s m l = (case foldl word_scan (m, l) s of (m', l') \<Rightarrow> max m' l')"
  by (induction s arbitrary: m l) auto

lemma text_max_word_width_scan: "text_max_word_width s = max (fst (scan s)) (snd (scan s))"
  by (simp add: text_max_word_width_def max_word_loop_scan scan_def split: prod.splits)

lemma scan_nonneg: "0 \<le> snd (scan s)"
proof (induction s rule: rev_induct)
  case (snoc c s)
  then show ?case by (cases "scan s") (simp add: size_of_bounds add_nonneg_nonneg)
qed (simp add: scan_def)

lemma scan_butlast:
  "s \<noteq> [] \<Longrightarrow> fst (scan (butlast s)) \<le> fst (scan s) \<and>
    max (fst (scan (butlast s))) (snd (scan (butlast s))) \<le> max (fst (scan s)) (snd (scan s))"
proof (cases s rule: rev_cases)
  case (snoc t c)
  then show ?thesis
    using scan_nonneg [of t] size_of_bounds(1) [of c] by (cases "scan t") auto
qed simp

lemma wrap_done_width:
  assumes "d \<noteq> [] \<or> len = 0" "0 \<le> len" "len \<le> width" "\<forall>c \<in> set s. fits_width width c"
    and "fst (scan d) \<le> width + 11" "snd (scan d) \<le> len + 11"
  shows "text_max_word_width (wrap_done width d len s) \<le> width + 11"
  using assms
proof (induction width d len s rule: wrap_done.induct)
  case (1 width d len)
  then show ?case by (simp add: text_max_word_width_scan)
next
  case (2 width d len c cs)
  obtain m l where ml: "scan d = (m, l)" by (cases "scan d")
  consider "c = CHR '' ''" | "c \<noteq> CHR '' ''" "len + size_of c > width"
    | "c \<noteq> CHR '' ''" "len + size_of c \<le> width" by linarith
  then show ?case
  proof cases
    case 1
    then show ?thesis using 2 ml by simp
  next
    case over: 2
    then have "d \<noteq> []" using 2(4-7) by (auto simp: fits_width_def)
    obtain m' l' where ml': "scan (butlast d) = (m', l')" by (cases "scan (butlast d)")
    have "max m' l' \<le> width + 11"
      using scan_butlast [OF \<open>d \<noteq> []\<close>] ml ml' "2.prems" by auto
    have sc: "scan (butlast d @ [CHR '' '', last d, c]) =
        word_scan (word_scan (word_scan (m', l') (CHR '' '')) (last d)) c"
      by (simp add: scan_def flip: ml' [unfolded scan_def])
    have "fst (scan (butlast d @ [CHR '' '', last d, c])) \<le> width + 11"
      "snd (scan (butlast d @ [CHR '' '', last d, c])) \<le> size_of c + 11"
      unfolding sc using \<open>max m' l' \<le> width + 11\<close> over size_of_bounds(2) [of "last d"]
        "2.prems" by auto
    then show ?thesis
      using over "2.IH"(2) "2.prems" size_of_bounds(1) [of c] by (simp add: fits_width_def)
  next
    case 3
    then show ?thesis
      using "2.IH"(3) "2.prems" ml size_of_bounds(1) [of c] by simp
  qed
qed

lemma wrap_loop_stuck:
  "wrap_loop width s i len = Some y \<Longrightarrow>
   \<not> (0 < i \<and> i < length s \<and> s ! i \<noteq> CHR '' '' \<and> width < size_of (s ! i) \<and> 0 \<le> len)"
proof (rule wrap_loop.raw_induct [where P = "\<lambda>width s i len y.
    \<not> (0 < i \<and> i < length s \<and> s ! i \<noteq> CHR '' '' \<and> width < size_of (s ! i) \<and> 0 \<le> len)"])
  fix f width s i len y
  assume IH: "\<And>width s i len y. f width s i len = Some y \<Longrightarrow>
      \<not> (0 < i \<and> i < length s \<and> s ! i \<noteq> CHR '' '' \<and> width < size_of (s ! i) \<and> 0 \<le> len)"
    and step: "(if i < length s
          then if s ! i = CHR '' '' then f width s (i + 1) 0
               else let len = len + size_of (s ! i)
                    in if width < len
                       then if i = 0 then Some (Inl Std_Out_Of_Range)
                            else f width (insert_space s (i - 1)) (i + 1) 0
                       else f width s (i + 1) len
          else Some (Inr s)) = Some y"
  show "\<not> (0 < i \<and> i < length s \<and> s ! i \<noteq> CHR '' '' \<and> width < size_of (s ! i) \<and> 0 \<le> len)"
  proof
    assume a: "0 < i \<and> i < length s \<and> s ! i \<noteq> CHR '' '' \<and> width < size_of (s ! i) \<and> 0 \<le> len"
    let ?t = "insert_space s (i - 1)"
    have "?t ! (i + 1) = s ! i" "i + 1 < length ?t"
      using a by (auto simp: insert_space_def nth_append)
    moreover have "f width ?t (i + 1) 0 = Some y" using step a by (simp add: Let_def)
    ultimately show False using IH [of width ?t "i + 1" 0 y] a by simp
  qed
qed

lemma split_too_wide:
  assumes "\<exists>c \<in> set s. \<not> fits_width width c"
  obtains pre c cs where "s = pre @ c # cs" "\<not> fits_width width c"
    "\<forall>x \<in> set pre. fits_width width x"
  using split_list_first_prop [OF assms] by auto

lemma wrap_too_wide:
  assumes "s = pre @ c # cs" "\<not> fits_width width c" "\<forall>x \<in> set pre. fits_width width x"
  shows "text_word_wrap s width = (if pre = [] then Some (Inl Std_Out_Of_Range) else None)"
proof (cases "pre = []")
  case True
  have "c \<noteq> CHR '' ''" "width < size_of c" using assms(2) by (auto simp: fits_width_def)
  then show ?thesis
    using True assms(1) by (simp add: text_word_wrap_def) (subst wrap_loop.simps, simp)
next
  case False
  obtain d len where eq: "text_word_wrap s width = wrap_loop width (d @ c # cs) (length d) len"
    and "d \<noteq> []" "0 \<le> len"
    using wrap_loop_done [of "[]" 0 pre width "c # cs"] assms False
    by (auto simp: text_word_wrap_def)
  then show ?thesis
    using False wrap_loop_stuck [of width "d @ c # cs" "length d" len] assms(2)
    by (cases "wrap_loop width (d @ c # cs) (length d) len") (auto simp: fits_width_def)
qed

text \<open>
  When every character other than a space is at most as wide as a line,
  \<open>text_word_wrap\<close> returns; it has only inserted spaces, and no word of the result is wider than the line by
  more than the widest character (11). When some character is wider than a line, it throws
  \<open>std::out_of_range\<close> if that is the first character, and otherwise never returns.
\<close>

theorem word_wrap_outcome:
  assumes "0 \<le> width"
  shows "if \<forall>c \<in> set s. fits_width width c
    then (\<exists>r. text_word_wrap s width = Some (Inr r) \<and>
            filter (\<lambda>c. c \<noteq> CHR '' '') r = filter (\<lambda>c. c \<noteq> CHR '' '') s \<and>
            text_max_word_width r \<le> width + 11)
    else if s \<noteq> [] \<and> \<not> fits_width width (hd s)
    then text_word_wrap s width = Some (Inl Std_Out_Of_Range)
    else text_word_wrap s width = None"
proof (cases "\<forall>c \<in> set s. fits_width width c")
  case True
  then show ?thesis
    using assms wrap_done_filter [of "[]" 0 s width] wrap_done_width [of "[]" 0 width s]
    by (simp add: wrap_all_fit scan_def)
next
  case False
  then obtain pre c cs where s: "s = pre @ c # cs" "\<not> fits_width width c"
    "\<forall>x \<in> set pre. fits_width width x"
    by (meson split_too_wide)
  have "hd s = (if pre = [] then c else hd pre)" using s by simp
  then show ?thesis
    using wrap_too_wide [OF s] False s by (cases pre) auto
qed

theorem word_wrap_outcome_witness:
  "text_word_wrap ''aW'' 8 = None"
  using word_wrap_outcome [of 8 "''aW''"] by (simp add: fits_width_def size_of_def sizes_def)

end
