(* ===== verification/Variant.thy ===== *)
theory Variant
  imports Double Util_Strings
begin

text \<open>
  \<open>util::variant\<close> (\<open>src/src/util/variant.cpp\<close>) and the conversions built on it: \<open>tdparse\<close>,
  \<open>to_int\<close>, \<open>to_float\<close> and \<open>to_string\<close> of \<open>src/src/util.cpp\<close>. A variant holds a value of one of
  four types and caches its conversions to the others; the getters fill the cache and so
  return the changed variant with the value. The abstract value of a variant, its
  conversions and the proof that the cache is invisible close the theory, with the round
  trip of \<open>to_int\<close> and \<open>to_string\<close>.
\<close>

section \<open>Time periods\<close>

record td =
  td_ret :: double
  td_val :: double
  td_decimal :: bool
  td_multi :: double
  td_negate :: bool

text \<open>The tables \<open>period_names\<close> and \<open>period_mul\<close>.\<close>

definition period_mul :: "char \<Rightarrow> double option" where
  "period_mul c = map_of
     [(CHR ''s'', Fin 1), (CHR ''m'', Fin 60), (CHR ''%'', Fin 100), (CHR ''k'', Fin 1000),
      (CHR ''h'', Fin 3600), (CHR ''d'', Fin 86400)] c"

definition td_period :: "td \<Rightarrow> double \<Rightarrow> td" where
  "td_period st r =
     st\<lparr>td_ret := d_add (td_ret st) r, td_val := Fin 0, td_decimal := False, td_multi := dbl (1 / 10)\<rparr>"

definition td_other :: "td \<Rightarrow> char \<Rightarrow> td" where
  "td_other st c =
     (if is_digit c then
        (if \<not> td_decimal st then
           st\<lparr>td_val := d_add (d_mul (td_val st) (Fin 10)) (d_of_int (int (digit_value c)))\<rparr>
         else
           st\<lparr>td_val := d_add (td_val st) (d_mul (d_of_int (int (digit_value c))) (td_multi st)),
              td_multi := d_div (td_multi st) (Fin 10)\<rparr>)
      else if c = CHR ''.'' then st\<lparr>td_decimal := True, td_multi := dbl (1 / 10)\<rparr>
      else st)"

fun td_loop :: "string \<Rightarrow> td \<Rightarrow> td" where
  "td_loop [] st = st"
| "td_loop (c # cs) st =
     (if c = CHR ''-'' then td_loop cs (st\<lparr>td_negate := True\<rparr>)
      else
        (let c = tolower c
         in case period_mul c of
              Some mul \<Rightarrow>
                (if c = CHR ''m'' \<and> cs \<noteq> [] \<and> hd cs = CHR ''s'' then
                   td_loop (tl cs) (td_period st (d_div (td_val st) (Fin 1000)))
                 else if c = CHR ''%'' then
                   td_loop cs (td_period st (d_div (td_val st) mul))
                 else
                   td_loop cs (td_period st (d_mul (td_val st) mul)))
            | None \<Rightarrow> td_loop cs (td_other st c)))"

definition td_start :: td where
  "td_start = \<lparr>td_ret = Fin 0, td_val = Fin 0, td_decimal = False, td_multi = dbl (1 / 10),
               td_negate = False\<rparr>"

definition tdparse :: "string \<Rightarrow> double" where
  "tdparse timestr =
     (let st = td_loop timestr td_start
      in d_mul (d_add (td_ret st) (td_val st)) (if td_negate st then Fin (- 1) else Fin 1))"

section \<open>Formatting and scanning of the C library\<close>

text \<open>\<open>%i\<close>.\<close>

definition digit_char :: "nat \<Rightarrow> char" where
  "digit_char n = char_of (48 + n)"

fun dec_digits :: "nat \<Rightarrow> string" where
  "dec_digits n =
     (if n < 10 then [digit_char n] else dec_digits (n div 10) @ [digit_char (n mod 10)])"

declare dec_digits.simps [simp del, loop_simps]

definition format_i :: "int \<Rightarrow> string" where
  "format_i n = (if n < 0 then CHR ''-'' # dec_digits (nat (- n)) else dec_digits (nat n))"

text \<open>
  \<open>%g\<close>: six significant digits, without trailing zeros, in the exponent style when the
  decimal exponent is below \<open>- 4\<close> or above 5.
\<close>

definition pow10 :: "int \<Rightarrow> rat" where
  "pow10 e = (if 0 \<le> e then 10 ^ nat e else 1 / 10 ^ nat (- e))"

definition ilog10 :: "rat \<Rightarrow> int" where
  "ilog10 x =
     (let b = ilog2 x;
          e = \<lfloor>of_int b * (301 / 1000) :: rat\<rfloor> - 2
      in e + int (length (takeWhile (\<lambda>k. pow10 (e + k) \<le> x) [1..8])))"

definition strip_zeros :: "string \<Rightarrow> string" where
  "strip_zeros s = rev (dropWhile (\<lambda>c. c = CHR ''0'') (rev s))"

definition with_point :: "string \<Rightarrow> string \<Rightarrow> string" where
  "with_point i f = (let f = strip_zeros f in if f = [] then i else i @ CHR ''.'' # f)"

definition zeros :: "nat \<Rightarrow> string" where
  "zeros n = replicate n (CHR ''0'')"

definition format_exp :: "int \<Rightarrow> string" where
  "format_exp e =
     (let d = dec_digits (nat \<bar>e\<bar>)
      in (if e < 0 then ''e-'' else ''e+'') @ (if length d < 2 then CHR ''0'' # d else d))"

definition format_g_pos :: "rat \<Rightarrow> string" where
  "format_g_pos x =
     (let e = ilog10 x;
          m = round_even (x / pow10 (e - 5));
          (m, e) = (if m = 1000000 then (100000, e + 1) else (m, e));
          d = dec_digits (nat m)
      in if e < - 4 \<or> 6 \<le> e then with_point (take 1 d) (drop 1 d) @ format_exp e
         else if 0 \<le> e then with_point (take (nat e + 1) d) (drop (nat e + 1) d)
         else with_point ''0'' (zeros (nat (- e - 1)) @ d))"

fun format_g :: "double \<Rightarrow> string" where
  "format_g (Fin x) =
     (if x = 0 then ''0''
      else if x < 0 then CHR ''-'' # format_g_pos (- x) else format_g_pos x)"
| "format_g PInf = ''inf''"
| "format_g NInf = ''-inf''"
| "format_g NaN = ''nan''"

text \<open>
  \<open>sscanf\<close> with \<open>%d\<close> into a variable that holds 0: white space, an optional sign, digits; a
  number outside the range of \<open>int\<close> is undefined behaviour.
\<close>

definition is_c_space :: "char \<Rightarrow> bool" where
  "is_c_space c \<longleftrightarrow> c = CHR '' '' \<or> (9 \<le> (of_char c :: nat) \<and> (of_char c :: nat) \<le> 13)"

definition scan_d :: "string \<Rightarrow> int outcome" where
  "scan_d s =
     (let s = dropWhile is_c_space s;
          neg = (s \<noteq> [] \<and> hd s = CHR ''-'');
          s = (if s \<noteq> [] \<and> (hd s = CHR ''-'' \<or> hd s = CHR ''+'') then tl s else s);
          n = int (dec_value (takeWhile is_digit s));
          n = (if neg then - n else n)
      in if int_range n then Inr n else Inl Signed_Overflow)"

section \<open>\<open>util::variant\<close>\<close>

datatype var_type = type_int | type_float | type_string | type_bool

record variant =
  val_int :: int
  val_float :: double
  val_string :: string
  val_bool :: bool
  cache_val :: "var_type \<Rightarrow> bool"
  var_type :: var_type

definition SetType :: "variant \<Rightarrow> var_type \<Rightarrow> variant" where
  "SetType v t = v\<lparr>var_type := t, cache_val := (\<lambda>i. i = t)\<rparr>"

definition SetInt :: "variant \<Rightarrow> int \<Rightarrow> variant" where
  "SetInt v i = SetType (v\<lparr>val_int := i\<rparr>) type_int"

definition SetFloat :: "variant \<Rightarrow> double \<Rightarrow> variant" where
  "SetFloat v d = SetType (v\<lparr>val_float := d\<rparr>) type_float"

definition SetString :: "variant \<Rightarrow> string \<Rightarrow> variant" where
  "SetString v s = SetType (v\<lparr>val_string := s\<rparr>) type_string"

definition SetBool :: "variant \<Rightarrow> bool \<Rightarrow> variant" where
  "SetBool v b = SetType (v\<lparr>val_bool := b\<rparr>) type_bool"

text \<open>
  The members a constructor does not set are indeterminate in the code and are never read
  before the cache flag of their type is set; here they start as zero values.
\<close>

definition blank_variant :: variant where
  "blank_variant = \<lparr>val_int = 0, val_float = Fin 0, val_string = '''', val_bool = False,
                    cache_val = (\<lambda>_. False), var_type = type_int\<rparr>"

definition variant_default :: variant where "variant_default = SetInt blank_variant 0"
definition variant_of_int :: "int \<Rightarrow> variant" where "variant_of_int i = SetInt blank_variant i"
definition variant_of_float :: "double \<Rightarrow> variant" where "variant_of_float d = SetFloat blank_variant d"
definition variant_of_string :: "string \<Rightarrow> variant" where "variant_of_string s = SetString blank_variant s"
definition variant_of_bool :: "bool \<Rightarrow> variant" where "variant_of_bool b = SetBool blank_variant b"

definition cached :: "variant \<Rightarrow> var_type \<Rightarrow> variant" where
  "cached v t = v\<lparr>cache_val := (cache_val v)(t := True)\<rparr>"

definition variant_GetInt :: "variant \<Rightarrow> (int \<times> variant) outcome" where
  "variant_GetInt v =
     (if cache_val v type_int then Inr (val_int v, v)
      else
        let v = cached v type_int
        in case var_type v of
             type_float \<Rightarrow> bind_out (d_to_int (val_float v)) (\<lambda>i. Inr (i, v\<lparr>val_int := i\<rparr>))
           | type_string \<Rightarrow>
               bind_out (d_to_int (tdparse (val_string v))) (\<lambda>i. Inr (i, v\<lparr>val_int := i\<rparr>))
           | type_bool \<Rightarrow> (let i = if val_bool v then 0 else - 1 in Inr (i, v\<lparr>val_int := i\<rparr>))
           | type_int \<Rightarrow> Inr (val_int v, v))"

definition variant_GetFloat :: "variant \<Rightarrow> double \<times> variant" where
  "variant_GetFloat v =
     (if cache_val v type_float then (val_float v, v)
      else
        let v = cached v type_float
        in case var_type v of
             type_int \<Rightarrow> (let d = d_of_int (val_int v) in (d, v\<lparr>val_float := d\<rparr>))
           | type_string \<Rightarrow> (let d = tdparse (val_string v) in (d, v\<lparr>val_float := d\<rparr>))
           | type_bool \<Rightarrow> (let d = if val_bool v then Fin 0 else Fin 1 in (d, v\<lparr>val_float := d\<rparr>))
           | type_float \<Rightarrow> (val_float v, v))"

definition variant_GetString :: "variant \<Rightarrow> string \<times> variant" where
  "variant_GetString v =
     (if cache_val v type_string then (val_string v, v)
      else
        let v = cached v type_string
        in case var_type v of
             type_int \<Rightarrow> (let s = format_i (val_int v) in (s, v\<lparr>val_string := s\<rparr>))
           | type_float \<Rightarrow> (let s = format_g (val_float v) in (s, v\<lparr>val_string := s\<rparr>))
           | type_bool \<Rightarrow> (let s = if val_bool v then ''yes'' else ''no'' in (s, v\<lparr>val_string := s\<rparr>))
           | type_string \<Rightarrow> (val_string v, v))"

definition variant_GetBool :: "variant \<Rightarrow> (bool \<times> variant) outcome" where
  "variant_GetBool v =
     (if cache_val v type_bool then Inr (val_bool v, v)
      else
        let v = cached v type_bool
        in case var_type v of
             type_int \<Rightarrow> (let b = (val_int v \<noteq> 0) in Inr (b, v\<lparr>val_bool := b\<rparr>))
           | type_float \<Rightarrow>
               (let b = (val_float v \<noteq> Fin 0 \<and> d_eq (val_float v) (val_float v))
                in Inr (b, v\<lparr>val_bool := b\<rparr>))
           | type_string \<Rightarrow>
               bind_out (scan_d (val_string v)) (\<lambda>intval.
                 let s = lowercase (val_string v);
                     b = (s = ''yes'' \<or> s = ''true'' \<or> s = ''enabled'' \<or> intval \<noteq> 0)
                 in Inr (b, v\<lparr>val_bool := b\<rparr>))
           | type_bool \<Rightarrow> Inr (val_bool v, v))"

text \<open>The helper \<open>int_length\<close>; negating the least \<open>int\<close> is undefined behaviour.\<close>

function count_digits :: "int \<Rightarrow> int" where
  "count_digits x = (if x > 0 then count_digits (x div 10) + 1 else 0)"
  by pat_completeness auto
termination by (relation "measure nat") auto

declare count_digits.simps [simp del, loop_simps]

definition int_length :: "int \<Rightarrow> int outcome" where
  "int_length x =
     (if x = 0 then Inr 1
      else if x < 0 then
        (if - x > INT_MAX then Inl Signed_Overflow else Inr (1 + count_digits (- x)))
      else Inr (count_digits x))"

section \<open>Conversions of \<open>util.cpp\<close>\<close>

definition to_int :: "string \<Rightarrow> int outcome" where
  "to_int subject = bind_out (variant_GetInt (variant_of_string subject)) (\<lambda>(i, _). Inr i)"

definition to_float :: "string \<Rightarrow> double" where
  "to_float subject = fst (variant_GetFloat (variant_of_string subject))"

definition to_string_int :: "int \<Rightarrow> string" where
  "to_string_int subject = fst (variant_GetString (variant_of_int subject))"

definition to_string_float :: "double \<Rightarrow> string" where
  "to_string_float subject = fst (variant_GetString (variant_of_float subject))"

section \<open>The abstract value, and the cache as an implementation detail\<close>

datatype vval = VInt int | VFloat double | VString string | VBool bool

fun as_int :: "vval \<Rightarrow> int outcome" where
  "as_int (VInt i) = Inr i"
| "as_int (VFloat d) = d_to_int d"
| "as_int (VString s) = d_to_int (tdparse s)"
| "as_int (VBool b) = Inr (if b then 0 else - 1)"

fun as_float :: "vval \<Rightarrow> double" where
  "as_float (VInt i) = d_of_int i"
| "as_float (VFloat d) = d"
| "as_float (VString s) = tdparse s"
| "as_float (VBool b) = (if b then Fin 0 else Fin 1)"

fun as_string :: "vval \<Rightarrow> string" where
  "as_string (VInt i) = format_i i"
| "as_string (VFloat d) = format_g d"
| "as_string (VString s) = s"
| "as_string (VBool b) = (if b then ''yes'' else ''no'')"

fun as_bool :: "vval \<Rightarrow> bool outcome" where
  "as_bool (VInt i) = Inr (i \<noteq> 0)"
| "as_bool (VFloat d) = Inr (d \<noteq> Fin 0 \<and> d \<noteq> NaN)"
| "as_bool (VString s) =
     bind_out (scan_d s) (\<lambda>n. Inr (lowercase s \<in> {''yes'', ''true'', ''enabled''} \<or> n \<noteq> 0))"
| "as_bool (VBool b) = Inr b"

definition vabs :: "variant \<Rightarrow> vval" where
  "vabs v = (case var_type v of
     type_int \<Rightarrow> VInt (val_int v)
   | type_float \<Rightarrow> VFloat (val_float v)
   | type_string \<Rightarrow> VString (val_string v)
   | type_bool \<Rightarrow> VBool (val_bool v))"

definition variant_ok :: "variant \<Rightarrow> bool" where
  "variant_ok v \<longleftrightarrow>
     cache_val v (var_type v) \<and>
     (cache_val v type_int \<longrightarrow> as_int (vabs v) = Inr (val_int v)) \<and>
     (cache_val v type_float \<longrightarrow> as_float (vabs v) = val_float v) \<and>
     (cache_val v type_string \<longrightarrow> as_string (vabs v) = val_string v) \<and>
     (cache_val v type_bool \<longrightarrow> as_bool (vabs v) = Inr (val_bool v))"

lemma d_eq_self: "d_eq d d \<longleftrightarrow> d \<noteq> NaN"
  by (cases d) auto

lemmas variant_defs = variant_ok_def vabs_def cached_def Let_def

lemma SetType_ok [simp]:
  "variant_ok (SetInt v i)" "variant_ok (SetFloat v d)" "variant_ok (SetString v s)"
  "variant_ok (SetBool v b)"
  "vabs (SetInt v i) = VInt i" "vabs (SetFloat v d) = VFloat d"
  "vabs (SetString v s) = VString s" "vabs (SetBool v b) = VBool b"
  by (simp_all add: variant_defs SetType_def SetInt_def SetFloat_def SetString_def SetBool_def)

text \<open>A getter in terms of the abstract value, and the variant it leaves.\<close>

lemma cached_ok:
  "variant_ok v \<Longrightarrow> as_int (vabs v) = Inr i \<Longrightarrow> \<not> cache_val v type_int \<Longrightarrow>
     variant_ok ((cached v type_int)\<lparr>val_int := i\<rparr>) \<and>
     vabs ((cached v type_int)\<lparr>val_int := i\<rparr>) = vabs v"
  "variant_ok v \<Longrightarrow> as_float (vabs v) = d \<Longrightarrow> \<not> cache_val v type_float \<Longrightarrow>
     variant_ok ((cached v type_float)\<lparr>val_float := d\<rparr>) \<and>
     vabs ((cached v type_float)\<lparr>val_float := d\<rparr>) = vabs v"
  "variant_ok v \<Longrightarrow> as_string (vabs v) = s \<Longrightarrow> \<not> cache_val v type_string \<Longrightarrow>
     variant_ok ((cached v type_string)\<lparr>val_string := s\<rparr>) \<and>
     vabs ((cached v type_string)\<lparr>val_string := s\<rparr>) = vabs v"
  "variant_ok v \<Longrightarrow> as_bool (vabs v) = Inr b \<Longrightarrow> \<not> cache_val v type_bool \<Longrightarrow>
     variant_ok ((cached v type_bool)\<lparr>val_bool := b\<rparr>) \<and>
     vabs ((cached v type_bool)\<lparr>val_bool := b\<rparr>) = vabs v"
  by (cases "var_type v"; simp add: variant_defs)+

lemma Get_uncached:
  "variant_ok v \<Longrightarrow> \<not> cache_val v type_int \<Longrightarrow> variant_GetInt v =
     bind_out (as_int (vabs v)) (\<lambda>i. Inr (i, (cached v type_int)\<lparr>val_int := i\<rparr>))"
  "variant_ok v \<Longrightarrow> \<not> cache_val v type_float \<Longrightarrow> variant_GetFloat v =
     (as_float (vabs v), (cached v type_float)\<lparr>val_float := as_float (vabs v)\<rparr>)"
  "variant_ok v \<Longrightarrow> \<not> cache_val v type_string \<Longrightarrow> variant_GetString v =
     (as_string (vabs v), (cached v type_string)\<lparr>val_string := as_string (vabs v)\<rparr>)"
  "variant_ok v \<Longrightarrow> \<not> cache_val v type_bool \<Longrightarrow> variant_GetBool v =
     bind_out (as_bool (vabs v)) (\<lambda>b. Inr (b, (cached v type_bool)\<lparr>val_bool := b\<rparr>))"
  by (cases "var_type v";
      simp add: variant_GetInt_def variant_GetFloat_def variant_GetString_def variant_GetBool_def variant_defs d_eq_self
        bind_out_assoc)+

lemma Get_cached:
  "variant_ok v \<Longrightarrow> cache_val v type_int \<Longrightarrow>
     variant_GetInt v = Inr (val_int v, v) \<and> as_int (vabs v) = Inr (val_int v)"
  "variant_ok v \<Longrightarrow> cache_val v type_float \<Longrightarrow> variant_GetFloat v = (as_float (vabs v), v)"
  "variant_ok v \<Longrightarrow> cache_val v type_string \<Longrightarrow> variant_GetString v = (as_string (vabs v), v)"
  "variant_ok v \<Longrightarrow> cache_val v type_bool \<Longrightarrow>
     variant_GetBool v = Inr (val_bool v, v) \<and> as_bool (vabs v) = Inr (val_bool v)"
  by (simp_all add: variant_GetInt_def variant_GetFloat_def variant_GetString_def variant_GetBool_def variant_ok_def)

lemma GetInt_ok:
  "variant_ok v \<Longrightarrow> as_int (vabs v) = Inl e \<Longrightarrow> variant_GetInt v = Inl e"
  "variant_ok v \<Longrightarrow> as_int (vabs v) = Inr i \<Longrightarrow>
     \<exists>v'. variant_GetInt v = Inr (i, v') \<and> variant_ok v' \<and> vabs v' = vabs v"
  using Get_cached(1) [of v] Get_uncached(1) [of v] cached_ok(1) [of v i]
  by (cases "cache_val v type_int"; simp)+

lemma GetFloat_ok:
  "variant_ok v \<Longrightarrow>
     \<exists>v'. variant_GetFloat v = (as_float (vabs v), v') \<and> variant_ok v' \<and> vabs v' = vabs v"
  using Get_cached(2) [of v] Get_uncached(2) [of v] cached_ok(2) [of v]
  by (cases "cache_val v type_float"; simp)

lemma GetString_ok:
  "variant_ok v \<Longrightarrow>
     \<exists>v'. variant_GetString v = (as_string (vabs v), v') \<and> variant_ok v' \<and> vabs v' = vabs v"
  using Get_cached(3) [of v] Get_uncached(3) [of v] cached_ok(3) [of v]
  by (cases "cache_val v type_string"; simp)

lemma GetBool_ok:
  "variant_ok v \<Longrightarrow> as_bool (vabs v) = Inl e \<Longrightarrow> variant_GetBool v = Inl e"
  "variant_ok v \<Longrightarrow> as_bool (vabs v) = Inr b \<Longrightarrow>
     \<exists>v'. variant_GetBool v = Inr (b, v') \<and> variant_ok v' \<and> vabs v' = vabs v"
  using Get_cached(4) [of v] Get_uncached(4) [of v] cached_ok(4) [of v b]
  by (cases "cache_val v type_bool"; simp)+

text \<open>
  The caches of a variant are invisible. In every variant whose caches agree with its
  value, as all variants the constructors and setters make, each getter returns the
  conversion of the abstract value, whatever getters ran before, and leaves the abstract
  value and the agreement of the caches unchanged.
\<close>

theorem variant_cache_invisible:
  assumes "variant_ok v"
  shows "(case as_int (vabs v) of
            Inl e \<Rightarrow> variant_GetInt v = Inl e
          | Inr i \<Rightarrow> (\<exists>v'. variant_GetInt v = Inr (i, v') \<and> variant_ok v' \<and> vabs v' = vabs v))
       \<and> (\<exists>v'. variant_GetFloat v = (as_float (vabs v), v') \<and> variant_ok v' \<and> vabs v' = vabs v)
       \<and> (\<exists>v'. variant_GetString v = (as_string (vabs v), v') \<and> variant_ok v' \<and> vabs v' = vabs v)
       \<and> (case as_bool (vabs v) of
            Inl e \<Rightarrow> variant_GetBool v = Inl e
          | Inr b \<Rightarrow> (\<exists>v'. variant_GetBool v = Inr (b, v') \<and> variant_ok v' \<and> vabs v' = vabs v))"
proof (intro conjI)
  show "case as_int (vabs v) of Inl e \<Rightarrow> variant_GetInt v = Inl e
      | Inr i \<Rightarrow> \<exists>v'. variant_GetInt v = Inr (i, v') \<and> variant_ok v' \<and> vabs v' = vabs v"
    using GetInt_ok [OF assms] by (simp split: sum.split)
  show "case as_bool (vabs v) of Inl e \<Rightarrow> variant_GetBool v = Inl e
      | Inr b \<Rightarrow> \<exists>v'. variant_GetBool v = Inr (b, v') \<and> variant_ok v' \<and> vabs v' = vabs v"
    using GetBool_ok [OF assms] by (simp split: sum.split)
qed (rule GetFloat_ok [OF assms] GetString_ok [OF assms])+

theorem variant_cache_invisible_witness:
  "\<exists>v'. variant_GetInt (variant_of_bool True) = Inr (0, v') \<and> variant_ok v' \<and> vabs v' = VBool True"
  using variant_cache_invisible [of "variant_of_bool True"] by (simp add: variant_of_bool_def)

section \<open>Numbers in text\<close>

lemma is_digit_char:
  assumes "is_digit c"
  shows "tolower c = c" "period_mul c = None" "c \<noteq> CHR ''-''" "c \<noteq> CHR ''s''" "c \<noteq> CHR ''.''"
proof -
  have le: "(of_char c :: nat) \<le> 57" "48 \<le> (of_char c :: nat)"
    using assms by (auto simp: is_digit_def)
  then show "tolower c = c" by (simp add: tolower_def Let_def)
  have "c \<noteq> d" if "57 < (of_char d :: nat) \<or> (of_char d :: nat) < 48" for d
    using le that by auto
  from this [of "CHR ''s''"] this [of "CHR ''m''"] this [of "CHR ''%''"] this [of "CHR ''k''"]
    this [of "CHR ''h''"] this [of "CHR ''d''"] this [of "CHR ''-''"] this [of "CHR ''.''"]
  show "period_mul c = None" "c \<noteq> CHR ''-''" "c \<noteq> CHR ''s''" "c \<noteq> CHR ''.''"
    by (simp_all add: period_mul_def)
qed

lemma of_char_digit_char: "n < 10 \<Longrightarrow> (of_char (digit_char n) :: nat) = 48 + n"
  by (simp add: digit_char_def)

lemma digit_char [simp]:
  assumes "n < 10"
  shows "is_digit (digit_char n)" "digit_value (digit_char n) = n"
  using of_char_digit_char [OF assms] assms by (simp_all add: is_digit_def digit_value_def)

lemma dec_digits_digits: "\<forall>c \<in> set (dec_digits n). is_digit c"
proof (induction n rule: dec_digits.induct)
  case (1 n)
  then show ?case by (subst dec_digits.simps) auto
qed

lemma dec_digits_not_Nil [simp]: "dec_digits n \<noteq> []"
  by (subst dec_digits.simps) simp

lemma dec_value_dec_digits [simp]: "dec_value (dec_digits n) = n"
proof (induction n rule: dec_digits.induct)
  case (1 n)
  show ?case
  proof (cases "n < 10")
    case True
    then show ?thesis by (subst dec_digits.simps) (simp add: dec_value_def)
  next
    case False
    then show ?thesis
      using 1 by (subst dec_digits.simps) (simp add: dec_value_snoc)
  qed
qed

lemma foldl_digits_mono: "m \<le> foldl (\<lambda>n c. 10 * n + digit_value c) m s"
proof (induction s arbitrary: m)
  case (Cons c s)
  have "m \<le> 10 * m + digit_value c" by simp
  also have "\<dots> \<le> foldl (\<lambda>n c. 10 * n + digit_value c) m (c # s)" using Cons by simp
  finally show ?case .
qed simp

lemma td_loop_digits:
  assumes "\<forall>c \<in> set s. is_digit c" "\<not> td_decimal st" "td_val st = Fin (of_nat m)"
    and "foldl (\<lambda>n c. 10 * n + digit_value c) m s < 2 ^ 53"
  shows "td_loop (s @ cs) st =
    td_loop cs (st\<lparr>td_val := Fin (of_nat (foldl (\<lambda>n c. 10 * n + digit_value c) m s))\<rparr>)"
  using assms
proof (induction s arbitrary: m st)
  case Nil
  then show ?case by (cases st) simp
next
  case (Cons c s)
  have c: "is_digit c" using Cons.prems by simp
  have m: "10 * m + digit_value c < 2 ^ 53"
    using Cons.prems(4) foldl_digits_mono [of "10 * m + digit_value c" s] by simp
  have "d_mul (Fin (of_nat m)) (Fin 10) = Fin (of_nat (10 * m))"
    using d_mul_int [of "int m" 10] m by (simp add: mult.commute)
  moreover have "d_of_int (int (digit_value c)) = Fin (of_nat (digit_value c))"
    using m by simp
  moreover have "d_add (Fin (of_nat (10 * m))) (Fin (of_nat (digit_value c))) =
      Fin (of_nat (10 * m + digit_value c))"
    using d_add_int [of "int (10 * m)" "int (digit_value c)"] m by simp
  ultimately have "td_other st c = st\<lparr>td_val := Fin (of_nat (10 * m + digit_value c))\<rparr>"
    using c Cons.prems by (simp add: td_other_def del: d_add.simps d_mul.simps of_nat_add of_nat_mult)
  then have "td_loop ((c # s) @ cs) st =
      td_loop (s @ cs) (st\<lparr>td_val := Fin (of_nat (10 * m + digit_value c))\<rparr>)"
    using c by (simp add: is_digit_char Let_def)
  also have "\<dots> = td_loop cs (st\<lparr>td_val := Fin (of_nat
      (foldl (\<lambda>n c. 10 * n + digit_value c) (10 * m + digit_value c) s))\<rparr>)"
    using Cons.IH [of "st\<lparr>td_val := Fin (of_nat (10 * m + digit_value c))\<rparr>" "10 * m + digit_value c"]
      Cons.prems by simp
  finally show ?case by simp
qed

lemma td_loop_number:
  assumes "\<not> td_decimal st" "td_val st = Fin 0" "n < 2 ^ 53"
  shows "td_loop (dec_digits n @ cs) st = td_loop cs (st\<lparr>td_val := Fin (of_nat n)\<rparr>)"
proof -
  have "foldl (\<lambda>n c. 10 * n + digit_value c) 0 (dec_digits n) = n"
    using dec_value_dec_digits [of n] by (simp add: dec_value_def)
  then show ?thesis
    using td_loop_digits [OF dec_digits_digits, of st 0 n cs] assms by simp
qed

lemma tdparse_format_i:
  assumes "\<bar>n\<bar> < 2 ^ 53"
  shows "tdparse (format_i n) = Fin (of_int n)"
proof (cases "n < 0")
  case True
  have "td_loop (format_i n) td_start = td_start\<lparr>td_negate := True, td_val := Fin (of_nat (nat (- n)))\<rparr>"
    using True assms td_loop_number [of "td_start\<lparr>td_negate := True\<rparr>" "nat (- n)" "[]"]
    by (simp add: format_i_def td_start_def)
  moreover have "d_mul (Fin (of_int (- n))) (Fin (- 1)) = Fin (of_int n)"
    using d_mul_int [of "- n" "- 1"] assms by simp
  moreover have "d_add (Fin 0) (Fin (of_int (- n))) = Fin (of_int (- n))"
    using d_add_int [of 0 "- n"] assms by simp
  ultimately show ?thesis
    using True by (simp add: tdparse_def td_start_def Let_def del: d_add.simps d_mul.simps)
next
  case False
  have "td_loop (format_i n) td_start = td_start\<lparr>td_val := Fin (of_nat (nat n))\<rparr>"
    using False assms td_loop_number [of td_start "nat n" "[]"]
    by (simp add: format_i_def td_start_def)
  moreover have "d_mul (Fin (of_int n)) (Fin 1) = Fin (of_int n)"
    using d_mul_int [of n 1] assms by simp
  moreover have "d_add (Fin 0) (Fin (of_int n)) = Fin (of_int n)"
    using d_add_int [of 0 n] assms by simp
  ultimately show ?thesis
    using False by (simp add: tdparse_def td_start_def Let_def del: d_add.simps d_mul.simps)
qed

lemma to_string_int: "to_string_int n = format_i n"
  using GetString_ok [of "variant_of_int n"]
  by (auto simp: to_string_int_def variant_of_int_def)

lemma to_int_as_int: "to_int s = as_int (VString s)"
  using GetInt_ok [of "variant_of_string s"]
  by (cases "as_int (VString s)") (auto simp: to_int_def variant_of_string_def)

lemma to_int_format_i: "int_range n \<Longrightarrow> to_int (format_i n) = Inr n"
  using tdparse_format_i [OF int_range_exact] d_to_int_of_int by (simp add: to_int_as_int)

text \<open>
  \<open>to_int\<close> reads back the text \<open>to_string\<close> makes, for every value of \<open>int\<close>, although it
  reads it with \<open>tdparse\<close> in floating point.
\<close>

theorem to_int_to_string:
  assumes "int_range n"
  shows "to_int (to_string_int n) = Inr n"
  using assms by (simp add: to_string_int to_int_format_i)

theorem to_int_to_string_witness: "to_int (to_string_int (- 2147483648)) = Inr (- 2147483648)"
  by (rule to_int_to_string) (simp add: int_range_def INT_MIN_def INT_MAX_def)

section \<open>Durations\<close>

definition unit_seconds :: "char \<Rightarrow> nat" where
  "unit_seconds u =
     (if u = CHR ''s'' then 1 else if u = CHR ''m'' then 60 else if u = CHR ''k'' then 1000
      else if u = CHR ''h'' then 3600 else 86400)"

definition duration :: "(nat \<times> char) list \<Rightarrow> string" where
  "duration ps = concat (map (\<lambda>(n, u). dec_digits n @ [u]) ps)"

definition duration_seconds :: "(nat \<times> char) list \<Rightarrow> nat" where
  "duration_seconds ps = sum_list (map (\<lambda>(n, u). n * unit_seconds u) ps)"

lemma duration_not_s: "duration ps \<noteq> [] \<Longrightarrow> hd (duration ps) \<noteq> CHR ''s''"
proof (cases ps)
  case (Cons p qs)
  obtain n u where p: "p = (n, u)" by (cases p)
  have "is_digit (hd (dec_digits n))"
    using dec_digits_digits [of n] by (simp add: hd_in_set)
  then show ?thesis using Cons p is_digit_char(4) by (auto simp: duration_def)
qed (simp add: duration_def)

lemma period_mul_unit:
  "u \<in> set ''smkhd'' \<Longrightarrow> period_mul u = Some (Fin (of_nat (unit_seconds u)))"
  by (auto simp: period_mul_def unit_seconds_def)

lemma td_loop_unit:
  assumes "u \<in> set ''smkhd''" "td_ret st = Fin (of_nat r)" "td_val st = Fin (of_nat n)"
    and "r + n * unit_seconds u < 2 ^ 53" "cs \<noteq> [] \<longrightarrow> hd cs \<noteq> CHR ''s''"
  shows "td_loop (u # cs) st = td_loop cs (st\<lparr>td_ret := Fin (of_nat (r + n * unit_seconds u)),
    td_val := Fin 0, td_decimal := False, td_multi := dbl (1 / 10)\<rparr>)"
proof -
  have "d_mul (td_val st) (Fin (of_nat (unit_seconds u))) = Fin (of_nat (n * unit_seconds u))"
    using d_mul_nat [of n "unit_seconds u"] assms(3,4) by (simp del: d_mul.simps)
  moreover have "d_add (td_ret st) (Fin (of_nat (n * unit_seconds u))) =
      Fin (of_nat (r + n * unit_seconds u))"
    using d_add_nat [of r "n * unit_seconds u"] assms(2,4) by (simp del: d_add.simps)
  moreover have "tolower u = u" "u \<noteq> CHR ''-''" "u \<noteq> CHR ''%''"
    using assms(1) by (auto simp: tolower_def Let_def)
  ultimately show ?thesis
    using assms(5) period_mul_unit [OF assms(1)]
    by (auto simp add: td_period_def Let_def del: d_add.simps d_mul.simps of_nat_add of_nat_mult)
qed

lemma td_loop_duration:
  assumes "\<forall>(n, u) \<in> set ps. u \<in> set ''smkhd''" "td_ret st = Fin (of_nat r)" "td_val st = Fin 0"
    and "\<not> td_decimal st" "\<not> td_negate st" "r + duration_seconds ps < 2 ^ 53"
  shows "td_ret (td_loop (duration ps) st) = Fin (of_nat (r + duration_seconds ps)) \<and>
    td_val (td_loop (duration ps) st) = Fin 0 \<and> \<not> td_negate (td_loop (duration ps) st)"
  using assms
proof (induction ps arbitrary: st r)
  case Nil
  then show ?case by (simp add: duration_def duration_seconds_def)
next
  case (Cons p ps)
  obtain n u where p: "p = (n, u)" by (cases p)
  have dur: "duration (p # ps) = dec_digits n @ u # duration ps"
    by (simp add: duration_def p)
  have sec: "duration_seconds (p # ps) = n * unit_seconds u + duration_seconds ps"
    by (simp add: duration_seconds_def p)
  have u: "u \<in> set ''smkhd''" using Cons.prems(1) p by simp
  then have "1 \<le> unit_seconds u" by (auto simp: unit_seconds_def)
  then have "n \<le> n * unit_seconds u" by simp
  then have n: "n < 2 ^ 53" using Cons.prems(6) sec by linarith
  have "td_loop (duration (p # ps)) st =
      td_loop (u # duration ps) (st\<lparr>td_val := Fin (of_nat n)\<rparr>)"
    unfolding dur using td_loop_number n Cons.prems by blast
  also have "\<dots> = td_loop (duration ps) (st\<lparr>td_val := Fin (of_nat n),
      td_ret := Fin (of_nat (r + n * unit_seconds u)), td_val := Fin 0, td_decimal := False,
      td_multi := dbl (1 / 10)\<rparr>)"
    using td_loop_unit [OF u, of "st\<lparr>td_val := Fin (of_nat n)\<rparr>" r n "duration ps"]
      Cons.prems sec duration_not_s [of ps] by simp
  finally have step: "td_loop (duration (p # ps)) st = td_loop (duration ps)
      (st\<lparr>td_val := Fin (of_nat n), td_ret := Fin (of_nat (r + n * unit_seconds u)), td_val := Fin 0,
        td_decimal := False, td_multi := dbl (1 / 10)\<rparr>)" .
  show ?case
    unfolding step sec add.assoc [symmetric] using Cons.prems sec by (intro Cons.IH) auto
qed

text \<open>
  A text of whole numbers each followed by a unit (s, m, k, h or d) parses to the exact sum of
  the numbers times 1, 60, 1000, 3600 or 86400 seconds, while that sum is below \<open>2 ^ 53\<close>.
\<close>

theorem tdparse_duration:
  assumes "\<forall>(n, u) \<in> set ps. u \<in> set ''smkhd''" "duration_seconds ps < 2 ^ 53"
  shows "tdparse (duration ps) = Fin (of_nat (duration_seconds ps))"
proof -
  let ?n = "int (duration_seconds ps)"
  have "d_add (Fin (of_int ?n)) (Fin (of_int 0)) = Fin (of_int ?n)"
    using d_add_int [of ?n 0] assms by simp
  moreover have "d_mul (Fin (of_int ?n)) (Fin (of_int 1)) = Fin (of_int ?n)"
    using d_mul_int [of ?n 1] assms by simp
  ultimately show ?thesis
    using td_loop_duration [OF assms(1), of td_start 0] assms(2)
    by (simp add: tdparse_def td_start_def Let_def del: d_add.simps d_mul.simps)
qed

theorem tdparse_duration_witness: "tdparse ''2h30m'' = Fin 9000"
proof -
  have "duration [(2, CHR ''h''), (30, CHR ''m'')] = ''2h30m''"
    by (simp add: duration_def dec_digits.simps) code_simp
  moreover have "duration_seconds [(2, CHR ''h''), (30, CHR ''m'')] = 9000"
    by (simp add: duration_seconds_def unit_seconds_def)
  ultimately show ?thesis
    using tdparse_duration [of "[(2, CHR ''h''), (30, CHR ''m'')]"] by simp
qed

end
