(* ===== verification/Util_Numbers.thy ===== *)
theory Util_Numbers
  imports Variant
begin

text \<open>
  The numeric helpers of \<open>src/src/util.cpp\<close> and \<open>src/src/util.hpp\<close>: random numbers, rounding,
  the description of a time difference, distances and clamping. The values \<open>std::rand\<close> returns
  are arguments. The properties: where a random number lies, what \<open>timeago\<close> says from one
  second on, and what it does below.
\<close>

section \<open>Definitions\<close>

text \<open>
  \<open>long_rand\<close> with the values of two calls of \<open>std::rand\<close>, for a \<open>RAND_MAX\<close> between 65535 and
  4294967294; \<open>unsigned long\<close> has 64 bits.
\<close>

definition long_rand :: "u32 \<times> u32 \<Rightarrow> 64 word" where
  "long_rand r =
     push_bit 16 (ucast (fst r AND 0xFFFF)) OR ucast (snd r AND 0xFFFF)"

definition double_of_long :: "64 word \<Rightarrow> double" where
  "double_of_long w = d_of_int (uint w)"

definition int_result :: "int \<Rightarrow> int outcome" where
  "int_result n = (if int_range n then Inr n else Inl Signed_Overflow)"

definition rand_int :: "u32 \<times> u32 \<Rightarrow> int \<Rightarrow> int \<Rightarrow> int outcome" where
  "rand_int r lo hi =
     bind_out (int_result (hi - lo)) (\<lambda>d.
     bind_out (int_result (d + 1)) (\<lambda>d.
     d_to_int (d_add (d_mul (d_div (double_of_long (long_rand r)) (Fin 4294967296)) (d_of_int d))
                     (d_of_int lo))))"

definition rand_double :: "u32 \<times> u32 \<Rightarrow> double \<Rightarrow> double \<Rightarrow> double" where
  "rand_double r lo hi =
     d_add (d_mul (d_div (double_of_long (long_rand r)) (Fin 4294967296)) (d_sub hi lo)) lo"

definition round_double :: "double \<Rightarrow> double" where
  "round_double subject = d_floor (d_add subject (Fin (1 / 2)))"

text \<open>
  The static table of \<open>timeago\<close> after its initialisation: \<open>resize (5)\<close> makes five entries of
  zero and the empty text, and the units are put behind them.
\<close>

definition times :: "(int \<times> string) list" where
  "times = replicate 5 (0, '''') @
     [(1, ''second''), (60, ''minute''), (60 * 60, ''hour''), (24 * 60 * 60, ''day''),
      (7 * 24 * 60 * 60, ''week'')]"

text \<open>The loop from the last entry to the first; the list is the reversed table.\<close>

fun timeago_loop :: "(int \<times> string) list \<Rightarrow> double \<Rightarrow> string \<Rightarrow> string outcome" where
  "timeago_loop [] diff ago = Inr ''now''"
| "timeago_loop ((secs, name) # ts) diff ago =
     bind_out (d_to_int (d_div diff (d_of_int secs))) (\<lambda>x.
     bind_out (int_result (x * secs)) (\<lambda>xs.
       if x > 0 then
         Inr (to_string_int x @ '' '' @ name @ (if x = 1 then '''' else ''s'') @ ago)
       else timeago_loop ts (d_sub diff (d_of_int xs)) ago))"

definition timeago :: "double \<Rightarrow> double \<Rightarrow> string outcome" where
  "timeago time current_time =
     (let diff = d_sub current_time time;
          ago = (if d_le (Fin 0) diff then '' ago'' else '' from now'');
          diff = (if d_le (Fin 0) diff then diff else d_neg diff)
      in timeago_loop (rev times) diff ago)"

definition path_length :: "int \<Rightarrow> int \<Rightarrow> int \<Rightarrow> int \<Rightarrow> int outcome" where
  "path_length x1 y1 x2 y2 =
     bind_out (int_result (x1 - x2)) (\<lambda>ex. bind_out (int_result \<bar>ex\<bar>) (\<lambda>dx.
     bind_out (int_result (y1 - y2)) (\<lambda>ey. bind_out (int_result \<bar>ey\<bar>) (\<lambda>dy.
     int_result (dx + dy)))))"

definition clamp :: "int \<Rightarrow> int \<Rightarrow> int \<Rightarrow> int" where
  "clamp val mn mx = min (max val mn) mx"

lemma clamp_bounds: "mn \<le> mx \<Longrightarrow> mn \<le> clamp val mn mx \<and> clamp val mn mx \<le> mx"
  by (auto simp: clamp_def)

section \<open>Random numbers\<close>

lemma uint_long_rand: "0 \<le> uint (long_rand r)" "uint (long_rand r) < 2 ^ 32"
proof -
  have m: "(0xFFFF :: u32) = mask 16" by (simp add: mask_eq_exp_minus_1)
  have "take_bit 32 (long_rand r) = long_rand r"
    unfolding long_rand_def m by (rule bit_word_eqI) (auto simp: bit_simps)
  then have "uint (long_rand r) = take_bit 32 (uint (long_rand r))"
    by (metis unsigned_take_bit_eq)
  then show "uint (long_rand r) < 2 ^ 32" by (metis take_bit_int_less_exp)
qed simp

lemma d_scaled:
  assumes "0 \<le> x" "x < 2 ^ 32" "0 \<le> d" "d \<le> 2 ^ 20" "\<bar>m\<bar> \<le> 2 ^ 20"
  shows "d_add (d_mul (d_div (d_of_int x) (Fin 4294967296)) (d_of_int d)) (d_of_int m) =
    Fin (of_int (x * d + m * 2 ^ 32) / 2 ^ 32)"
proof -
  have xd: "0 \<le> x * d" "x * d \<le> (2 ^ 32 - 1) * 2 ^ 20"
    using assms mult_mono [of x "2 ^ 32 - 1" d "2 ^ 20"] by simp_all
  have "d_div (d_of_int x) (Fin 4294967296) = Fin (of_int x / 2 ^ 32)"
    using dbl_dyadic [of x 32] assms by simp
  moreover have "d_mul (Fin (of_int x / 2 ^ 32)) (d_of_int d) = Fin (of_int (x * d) / 2 ^ 32)"
    using dbl_dyadic [of "x * d" 32] assms xd by simp
  moreover have "d_add (Fin (of_int (x * d) / 2 ^ 32)) (d_of_int m) =
      Fin (of_int (x * d + m * 2 ^ 32) / 2 ^ 32)"
  proof -
    have "\<bar>x * d + m * 2 ^ 32\<bar> < 2 ^ 53" using xd assms(5) by (simp add: abs_le_iff abs_less_iff)
    moreover have "of_int (x * d) / 2 ^ 32 + of_int m =
        (of_int (x * d + m * 2 ^ 32) / 2 ^ 32 :: rat)"
      by (simp add: field_simps)
    moreover have "d_of_int m = Fin (of_int m)" using assms(5) by simp
    ultimately show ?thesis
      using dbl_dyadic [of "x * d + m * 2 ^ 32" 32] by (simp only: d_add.simps)
  qed
  ultimately show ?thesis by simp
qed

lemma rand_int_exact:
  assumes "lo \<le> hi" "hi - lo < 2 ^ 20" "\<bar>lo\<bar> \<le> 2 ^ 20"
  shows "rand_int r lo hi = Inr (rat_trunc
    (of_int (uint (long_rand r) * (hi - lo + 1) + lo * 2 ^ 32) / 2 ^ 32))"
proof -
  let ?x = "uint (long_rand r)" and ?d = "hi - lo + 1"
  let ?n = "?x * ?d + lo * 2 ^ 32"
  have ir: "int_result (hi - lo) = Inr (hi - lo)" "int_result ?d = Inr ?d"
    using assms by (simp_all add: int_result_def int_range_def INT_MAX_def INT_MIN_def)
  have xd: "0 \<le> ?x * ?d" "?x * ?d \<le> 2 ^ 32 * ?d"
    using uint_long_rand [of r] assms(1) by (simp, intro mult_right_mono) simp_all
  define p where "p = ?x * ?d"
  have "0 \<le> p" "p \<le> 2 ^ 32 * ?d" using xd by (simp_all only: p_def)
  moreover have "?d \<le> 2 ^ 20" "- (2 ^ 20) \<le> lo" "lo \<le> 2 ^ 20"
    using assms by (simp_all add: abs_le_iff)
  ultimately have "- (2 ^ 52) \<le> p + lo * 2 ^ 32" "p + lo * 2 ^ 32 \<le> 2 ^ 53" by simp_all
  then have "- (2 ^ 52) \<le> ?n" "?n \<le> 2 ^ 53" by (simp_all only: p_def)
  then have b: "- (2 ^ 20) \<le> (of_int ?n / 2 ^ 32 :: rat)" "(of_int ?n / 2 ^ 32 :: rat) \<le> 2 ^ 21"
    by (simp_all add: pos_le_divide_eq pos_divide_le_eq flip: of_int_le_iff [where 'a = rat])
  then have "int_range (rat_trunc (of_int ?n / 2 ^ 32))"
    by (simp add: int_range_def INT_MIN_def INT_MAX_def rat_trunc_def le_floor_iff floor_le_iff
        ceiling_le_iff le_ceiling_iff)
  then show ?thesis
    using d_scaled [of ?x ?d lo] uint_long_rand [of r] assms ir
    by (simp add: rand_int_def double_of_long_def del: d_of_int_exact)
qed

text \<open>
  For ranges of fewer than \<open>2 ^ 20\<close> numbers whose lower end is at most \<open>2 ^ 20\<close> in size, and for
  all values of \<open>std::rand\<close>, \<open>rand\<close> returns; with a lower end of at least 0 it returns the lower
  end plus the scaled random number rounded down, with an upper end of at least 0 a number of
  the range. With a negative upper end the conversion to \<open>int\<close>, which truncates, can yield the
  number above the range.
\<close>

theorem rand_in_range:
  assumes "lo \<le> hi" "hi - lo < 2 ^ 20" "\<bar>lo\<bar> \<le> 2 ^ 20"
  shows "\<exists>n. rand_int r lo hi = Inr n \<and> lo \<le> n \<and> n \<le> (if 0 \<le> hi then hi else hi + 1) \<and>
    (0 \<le> lo \<longrightarrow> n = lo + uint (long_rand r) * (hi - lo + 1) div 2 ^ 32)"
proof -
  let ?x = "uint (long_rand r)" and ?d = "hi - lo + 1"
  let ?y = "of_int (?x * ?d + lo * 2 ^ 32) / 2 ^ 32 :: rat"
  have xd: "0 \<le> ?x * ?d" "?x * ?d < 2 ^ 32 * ?d"
    using uint_long_rand [of r] assms(1) by (simp, intro mult_strict_right_mono) simp_all
  have "lo * 2 ^ 32 \<le> ?x * ?d + lo * 2 ^ 32" "?x * ?d + lo * 2 ^ 32 < (hi + 1) * 2 ^ 32"
    using xd by (auto simp: algebra_simps)
  then have y: "of_int lo \<le> ?y" "?y < of_int (hi + 1)"
    by (simp_all add: pos_le_divide_eq pos_divide_less_eq
        flip: of_int_le_iff [where 'a = rat] of_int_less_iff [where 'a = rat])
  have fl: "\<lfloor>?y\<rfloor> = lo + ?x * ?d div 2 ^ 32"
    using floor_divide_of_int_eq [of "?x * ?d + lo * 2 ^ 32" "2 ^ 32", where 'a = rat]
    by (simp add: div_add_self1)
  have "lo \<le> rat_trunc ?y" using y by (auto simp: rat_trunc_def le_floor_iff le_ceiling_iff)
  moreover have "rat_trunc ?y \<le> (if 0 \<le> hi then hi else hi + 1)"
    using y by (auto simp: rat_trunc_def floor_le_iff ceiling_le_iff)
  moreover have "0 \<le> lo \<Longrightarrow> rat_trunc ?y = \<lfloor>?y\<rfloor>"
    using y by (auto simp: rat_trunc_def)
  ultimately show ?thesis using rand_int_exact [OF assms, of r] fl by auto
qed

theorem rand_in_range_witness:
  "\<exists>n. rand_int (0x1234, 0x5678) 1 6 = Inr n \<and> 1 \<le> n \<and> n \<le> 6"
  using rand_in_range [of 1 6 "(0x1234, 0x5678)"] by auto

lemma rand_above_negative_range: "rand_int (0xFFFF, 0xFFFF) (- 5) (- 3) = Inr (- 2)"
proof -
  have "uint (long_rand (0xFFFF, 0xFFFF)) = 4294967295" by (simp add: long_rand_def)
  then show ?thesis by (simp add: rand_int_exact rat_trunc_def ceiling_minus floor_eq_iff)
qed

section \<open>Describing a time difference\<close>

lemma to_string_int_eq: "to_string_int n = format_i n"
  using GetString_ok [of "variant_of_int n"] by (auto simp: to_string_int_def variant_of_int_def)

lemma fround_nonneg: "0 \<le> x \<Longrightarrow> 0 \<le> fround x"
proof (cases "x = 0")
  case False
  assume "0 \<le> x"
  then have "0 \<le> x / pow2 (ulp_exp x)" by (simp add: less_imp_le)
  then have "0 \<le> \<lfloor>x / pow2 (ulp_exp x)\<rfloor>" by simp
  then have "0 \<le> round_even (x / pow2 (ulp_exp x))" by (simp add: round_even_def Let_def)
  then show ?thesis using False by (simp add: fround_def Let_def less_imp_le)
qed (simp add: fround_def)

text \<open>One step of the loop on a whole number of seconds, and on a fraction of a second.\<close>

lemma timeago_step:
  assumes "0 \<le> n" "n < 2 ^ 31" "1 \<le> u" "u \<le> 2 ^ 20"
  shows "timeago_loop ((u, name) # ts) (Fin (of_int n)) ago =
    (if n div u > 0 then
       Inr (format_i (n div u) @ '' '' @ name @ (if n div u = 1 then '''' else ''s'') @ ago)
     else timeago_loop ts (Fin (of_int n)) ago)"
proof -
  have "n div u * u \<le> n" "0 \<le> n div u * u"
    using assms zmod_le_nonneg_dividend [of n u]
    by (simp_all add: minus_mod_eq_div_mult [symmetric])
  then have "int_result (n div u * u) = Inr (n div u * u)"
    using assms by (simp add: int_result_def int_range_def INT_MIN_def INT_MAX_def)
  moreover have "d_to_int (d_div (Fin (of_int n)) (d_of_int u)) = Inr (n div u)"
    using d_to_int_div [of n u] assms by simp
  moreover have "0 \<le> n div u" using assms by (simp add: pos_imp_zdiv_nonneg_iff)
  then have "n div u > 0 \<or> n div u = 0" by linarith
  moreover have "d_sub (Fin (of_int n)) (d_of_int 0) = Fin (of_int n)"
    using dbl_of_int [of n] assms by (simp add: d_sub_def)
  ultimately show ?thesis using \<open>n div u > 0 \<or> n div u = 0\<close>
    by (auto simp: to_string_int_eq simp del: d_of_int_exact)
qed

lemma timeago_fraction_step:
  assumes "0 \<le> q" "q < 1" "fround q = q" "u = 1 \<or> 60 \<le> u" "u \<le> 2 ^ 20"
  shows "timeago_loop ((u, name) # ts) (Fin q) ago = timeago_loop ts (Fin q) ago"
proof -
  let ?y = "q / of_int u"
  have "0 \<le> ?y" "?y < 2 ^ 31" "?y < 1 / 60 \<or> u = 1"
    using assms by (auto simp: divide_less_eq)
  moreover have "fround ?y - ?y \<le> 1 / 2 ^ 23"
    using fround_error_31 [of ?y] calculation by (simp only: abs_le_iff)
  ultimately have y: "0 \<le> fround ?y" "fround ?y < 1"
    using assms(2,3) fround_nonneg [of ?y] by auto
  then have "dbl ?y = Fin (fround ?y)" by (intro dbl_finite) simp
  moreover have "rat_trunc (fround ?y) = 0" using y by (simp add: rat_trunc_def floor_eq_iff)
  moreover have "dbl q = Fin q" using dbl_finite [of q] assms by simp
  ultimately show ?thesis
    using assms by (auto simp: int_range_def INT_MIN_def INT_MAX_def int_result_def d_sub_def)
qed

lemma rev_times:
  "rev times = [(604800, ''week''), (86400, ''day''), (3600, ''hour''), (60, ''minute''),
    (1, ''second'')] @ replicate 5 (0, '''')"
  by (simp add: times_def eval_nat_numeral)

lemma timeago_loop_fraction:
  assumes "0 \<le> q" "q < 1" "fround q = q"
  shows "timeago_loop (rev times) (Fin q) ago = Inl Float_To_Int_Range"
  using assms
  by (simp add: rev_times timeago_fraction_step numeral_eq_Suc d_signed_inf_def
      del: timeago_loop.simps) (simp add: d_signed_inf_def)

definition largest_unit :: "int \<Rightarrow> int \<times> string" where
  "largest_unit n =
     (if 604800 \<le> n then (604800, ''week'') else if 86400 \<le> n then (86400, ''day'')
      else if 3600 \<le> n then (3600, ''hour'') else if 60 \<le> n then (60, ''minute'')
      else (1, ''second''))"

lemma timeago_loop_units:
  assumes "1 \<le> n" "n < 2 ^ 31"
  shows "timeago_loop (rev times) (Fin (of_int n)) ago =
    (case largest_unit n of (u, name) \<Rightarrow>
       Inr (format_i (n div u) @ '' '' @ name @ (if n div u = 1 then '''' else ''s'') @ ago))"
  using assms
  by (simp add: rev_times timeago_step largest_unit_def pos_imp_zdiv_pos_iff
      del: timeago_loop.simps)

text \<open>
  For a difference of \<open>n\<close> whole seconds, \<open>1 \<le> n < 2 ^ 31\<close>, \<open>timeago\<close> names the largest unit of
  which there is at least one and how many of them there are, with a plural s, and says
  whether it is past. For equal times it does not say "now": it divides by the zeros of the
  resized table and converts the undefined quotient to \<open>int\<close>.
\<close>

theorem timeago_units:
  assumes "1 \<le> n" "n < 2 ^ 31" "\<bar>t\<bar> < 2 ^ 52"
  shows "timeago (Fin (of_int t)) (Fin (of_int (t + n))) =
      (case largest_unit n of (u, name) \<Rightarrow>
         Inr (format_i (n div u) @ '' '' @ name @ (if n div u = 1 then '''' else ''s'') @ '' ago'')) \<and>
    timeago (Fin (of_int (t + n))) (Fin (of_int t)) =
      (case largest_unit n of (u, name) \<Rightarrow>
         Inr (format_i (n div u) @ '' '' @ name @ (if n div u = 1 then '''' else ''s'') @ '' from now'')) \<and>
    timeago (Fin (of_int t)) (Fin (of_int t)) = Inl Float_To_Int_Range"
proof -
  have "d_sub (Fin (of_int (t + n))) (Fin (of_int t)) = Fin (of_int n)"
    using d_add_int [of "t + n" "- t"] assms by (simp add: d_sub_def)
  moreover have "d_sub (Fin (of_int t)) (Fin (of_int (t + n))) = Fin (of_int (- n))"
    using d_add_int [of t "- (t + n)"] assms by (simp add: d_sub_def)
  moreover have "d_sub (Fin (of_int t)) (Fin (of_int t)) = Fin 0"
    using d_add_int [of t "- t"] by (simp add: d_sub_def)
  ultimately show ?thesis
    using timeago_loop_units [OF assms(1,2)] timeago_loop_fraction [of 0] assms(1)
    by (simp add: timeago_def fround_def del: of_int_add)
qed

theorem timeago_units_witness:
  "timeago (Fin 1000) (Fin 8300) = Inr ''2 hours ago'' \<and>
   timeago (Fin 1000) (Fin 1000) = Inl Float_To_Int_Range"
proof -
  have "format_i 2 = ''2''" by code_simp
  then show ?thesis
    using timeago_units [of 7300 1000] by (simp add: largest_unit_def)
qed

end
