(* ===== verification/Rpn.thy ===== *)
theory Rpn
  imports Util_Numbers
begin

text \<open>
  The formula evaluator (\<open>src/src/util/rpn.cpp\<close>): a formula is cut into tokens, the first token
  on top of a stack, and the tokens are evaluated on a stack of doubles. The transcendental
  functions of the C library are the fields of a record the evaluator takes, and the values of
  \<open>std::rand\<close> come from a source indexed by the number of calls made so far. The properties: the
  tokens of a formula, the value of a formula made from an expression tree, and the operands'
  order and the comparison \<open>>=\<close>, which are not what a reader of the formulas expects.
\<close>

section \<open>Cutting a formula into tokens\<close>

definition swap_chars :: "string \<Rightarrow> nat \<Rightarrow> nat \<Rightarrow> string" where
  "swap_chars s i j = s[i := s ! j, j := s ! i]"

function reverse_loop :: "string \<Rightarrow> nat \<Rightarrow> nat \<Rightarrow> string" where
  "reverse_loop str beg fin =
     (if beg < fin then reverse_loop (swap_chars str beg fin) (beg + 1) (fin - 1) else str)"
  by pat_completeness auto
termination by (relation "measure (\<lambda>(_, beg, fin). fin - beg)") auto

declare reverse_loop.simps [simp del, loop_simps]

text \<open>Called with a text that is not empty, so that the last index does not wrap.\<close>

definition rpn_parse_str_reverse :: "string \<Rightarrow> string" where
  "rpn_parse_str_reverse str = reverse_loop str 0 (length str - 1)"

text \<open>The loop reads the formula from its last character; the list is the reversed formula.\<close>

fun parse_loop :: "string \<Rightarrow> string \<Rightarrow> variant list \<Rightarrow> string \<times> variant list" where
  "parse_loop [] tok stack = (tok, stack)"
| "parse_loop (c # cs) tok stack =
     (if c \<noteq> CHR '' '' then parse_loop cs (tok @ [c]) stack
      else if tok \<noteq> [] then
        parse_loop cs [] (variant_of_string (rpn_parse_str_reverse tok) # stack)
      else parse_loop cs tok stack)"

definition rpn_parse :: "string \<Rightarrow> variant list outcome" where
  "rpn_parse expr =
     (if length expr = 0 then Inl Read_Out_Of_Bounds
      else
        case parse_loop (rev expr) [] [] of
          (tok, stack) \<Rightarrow>
            Inr (if tok \<noteq> [] then variant_of_string (rpn_parse_str_reverse tok) # stack
                 else stack))"

section \<open>The functions\<close>

record libm =
  lib_pow :: "double \<Rightarrow> double \<Rightarrow> double"
  lib_log10 :: "double \<Rightarrow> double"
  lib_exp :: "double \<Rightarrow> double"
  lib_log :: "double \<Rightarrow> double"
  lib_sqrt :: "double \<Rightarrow> double"
  lib_sin :: "double \<Rightarrow> double"
  lib_cos :: "double \<Rightarrow> double"
  lib_tan :: "double \<Rightarrow> double"

definition rpn_cmp_epsilon :: double where
  "rpn_cmp_epsilon = dbl (1 / 10000)"

definition rpn_cmp_epsilon_2 :: double where
  "rpn_cmp_epsilon_2 = d_div rpn_cmp_epsilon (Fin 2)"

definition rounded_int :: "double \<Rightarrow> int outcome" where
  "rounded_int d = d_to_int (d_floor (d_add d (Fin (1 / 2))))"

text \<open>The remainder has the sign of the dividend.\<close>

definition c_rem :: "int \<Rightarrow> int \<Rightarrow> int outcome" where
  "c_rem a b =
     (if b = 0 then Inl Division_By_Zero
      else if a = INT_MIN \<and> b = - 1 then Inl Signed_Overflow
      else Inr (sgn a * (\<bar>a\<bar> mod \<bar>b\<bar>)))"

definition int_op :: "(int \<Rightarrow> int \<Rightarrow> int outcome) \<Rightarrow> double list \<Rightarrow> double outcome" where
  "int_op f args =
     bind_out (rounded_int (args ! 0)) (\<lambda>a.
     bind_out (rounded_int (args ! 1)) (\<lambda>b.
     bind_out (f a b) (\<lambda>r. Inr (d_of_int r))))"

definition d_bool :: "bool \<Rightarrow> double" where
  "d_bool b = (if b then Fin 1 else Fin 0)"

type_synonym rpn_func = "libm \<Rightarrow> u32 \<times> u32 \<Rightarrow> double list \<Rightarrow> double outcome"

definition rpn_eval_add :: rpn_func where "rpn_eval_add m r args = Inr (d_add (args ! 0) (args ! 1))"
definition rpn_eval_sub :: rpn_func where "rpn_eval_sub m r args = Inr (d_sub (args ! 0) (args ! 1))"
definition rpn_eval_mul :: rpn_func where "rpn_eval_mul m r args = Inr (d_mul (args ! 0) (args ! 1))"
definition rpn_eval_div :: rpn_func where "rpn_eval_div m r args = Inr (d_div (args ! 0) (args ! 1))"
definition rpn_eval_mod :: rpn_func where "rpn_eval_mod m r args = int_op c_rem args"
definition rpn_eval_and :: rpn_func where "rpn_eval_and m r args = int_op (\<lambda>a b. Inr (a AND b)) args"
definition rpn_eval_or :: rpn_func where "rpn_eval_or m r args = int_op (\<lambda>a b. Inr (a OR b)) args"
definition rpn_eval_xor :: rpn_func where "rpn_eval_xor m r args = int_op (\<lambda>a b. Inr (a XOR b)) args"

definition rpn_eval_not :: rpn_func where
  "rpn_eval_not m r args = bind_out (rounded_int (args ! 0)) (\<lambda>a. Inr (d_of_int (NOT a)))"

definition rpn_eval_pow :: rpn_func where "rpn_eval_pow m r args = Inr (lib_pow m (args ! 0) (args ! 1))"
definition rpn_eval_log :: rpn_func where "rpn_eval_log m r args = Inr (lib_log10 m (args ! 0))"
definition rpn_eval_exp :: rpn_func where "rpn_eval_exp m r args = Inr (lib_exp m (args ! 0))"
definition rpn_eval_ln :: rpn_func where "rpn_eval_ln m r args = Inr (lib_log m (args ! 0))"
definition rpn_eval_sqrt :: rpn_func where "rpn_eval_sqrt m r args = Inr (lib_sqrt m (args ! 0))"
definition rpn_eval_sin :: rpn_func where "rpn_eval_sin m r args = Inr (lib_sin m (args ! 0))"
definition rpn_eval_cos :: rpn_func where "rpn_eval_cos m r args = Inr (lib_cos m (args ! 0))"
definition rpn_eval_tan :: rpn_func where "rpn_eval_tan m r args = Inr (lib_tan m (args ! 0))"
definition rpn_eval_rand :: rpn_func where "rpn_eval_rand m r args = Inr (rand_double r (args ! 0) (args ! 1))"

text \<open>\<open>std::min\<close> and \<open>std::max\<close> return their first argument unless the comparison holds.\<close>

definition rpn_eval_min :: rpn_func where
  "rpn_eval_min m r args = Inr (if d_less (args ! 1) (args ! 0) then args ! 1 else args ! 0)"
definition rpn_eval_max :: rpn_func where
  "rpn_eval_max m r args = Inr (if d_less (args ! 0) (args ! 1) then args ! 1 else args ! 0)"

definition rpn_eval_ceil :: rpn_func where "rpn_eval_ceil m r args = Inr (d_ceil (args ! 0))"
definition rpn_eval_round :: rpn_func where
  "rpn_eval_round m r args = Inr (d_floor (d_add (args ! 0) (Fin (1 / 2))))"
definition rpn_eval_floor :: rpn_func where "rpn_eval_floor m r args = Inr (d_floor (args ! 0))"

definition rpn_eval_lt :: rpn_func where
  "rpn_eval_lt m r args = Inr (d_bool (d_less (args ! 0) (d_sub (args ! 1) rpn_cmp_epsilon)))"
definition rpn_eval_lte :: rpn_func where
  "rpn_eval_lte m r args = Inr (d_bool (d_le (args ! 0) (d_add (args ! 1) rpn_cmp_epsilon)))"
definition rpn_eval_eq :: rpn_func where
  "rpn_eval_eq m r args =
     Inr (d_bool (d_le (d_sub (args ! 1) rpn_cmp_epsilon_2) (args ! 0) \<and>
                  d_le (args ! 0) (d_add (args ! 1) rpn_cmp_epsilon_2)))"
definition rpn_eval_gte :: rpn_func where
  "rpn_eval_gte m r args = Inr (d_bool (d_le (d_sub (args ! 1) rpn_cmp_epsilon) (args ! 0)))"
definition rpn_eval_gt :: rpn_func where
  "rpn_eval_gt m r args = Inr (d_bool (d_less (d_add (args ! 1) rpn_cmp_epsilon) (args ! 0)))"
definition rpn_eval_iif :: rpn_func where
  "rpn_eval_iif m r args =
     Inr (if d_true (d_floor (d_add (args ! 0) (Fin (1 / 2)))) then args ! 1 else args ! 2)"

record rpn_entry =
  fop :: char
  fname :: string
  fargs :: nat
  ffunc :: rpn_func

definition entry :: "char \<Rightarrow> string \<Rightarrow> nat \<Rightarrow> rpn_func \<Rightarrow> rpn_entry" where
  "entry op' name' args' func' = \<lparr>fop = op', fname = name', fargs = args', ffunc = func'\<rparr>"

definition rpn_eval_funcs :: "rpn_entry list" where
  "rpn_eval_funcs = [
     entry (CHR ''+'') ''add'' 2 rpn_eval_add,
     entry (CHR ''-'') ''sub'' 2 rpn_eval_sub,
     entry (CHR ''*'') ''mul'' 2 rpn_eval_mul,
     entry (CHR ''/'') ''div'' 2 rpn_eval_div,
     entry (CHR ''%'') ''mod'' 2 rpn_eval_mod,
     entry (CHR ''&'') ''and'' 2 rpn_eval_and,
     entry (CHR ''|'') ''or'' 2 rpn_eval_or,
     entry (CHR ''^'') ''xor'' 2 rpn_eval_xor,
     entry (CHR ''~'') ''not'' 1 rpn_eval_not,
     entry (CHR '' '') ''pow'' 2 rpn_eval_pow,
     entry (CHR '' '') ''sqrt'' 1 rpn_eval_sqrt,
     entry (CHR '' '') ''log'' 1 rpn_eval_log,
     entry (CHR '' '') ''exp'' 1 rpn_eval_exp,
     entry (CHR '' '') ''ln'' 1 rpn_eval_ln,
     entry (CHR '' '') ''sin'' 1 rpn_eval_sin,
     entry (CHR '' '') ''cos'' 1 rpn_eval_cos,
     entry (CHR '' '') ''tan'' 1 rpn_eval_tan,
     entry (CHR '' '') ''rand'' 2 rpn_eval_rand,
     entry (CHR '' '') ''min'' 2 rpn_eval_min,
     entry (CHR '' '') ''max'' 2 rpn_eval_max,
     entry (CHR '' '') ''ceil'' 1 rpn_eval_ceil,
     entry (CHR '' '') ''round'' 1 rpn_eval_round,
     entry (CHR '' '') ''floor'' 1 rpn_eval_floor,
     entry (CHR ''<'') ''lt'' 2 rpn_eval_lt,
     entry (CHR '' '') ''lte'' 2 rpn_eval_lte,
     entry (CHR ''='') ''eq'' 2 rpn_eval_eq,
     entry (CHR '' '') ''gte'' 2 rpn_eval_gte,
     entry (CHR ''>'') ''gt'' 2 rpn_eval_gt,
     entry (CHR ''?'') ''iif'' 3 rpn_eval_iif]"

text \<open>
  The first entry a token selects: by its full name, or by its first character alone. The
  first character of an empty text is NUL.
\<close>

definition entry_matches :: "string \<Rightarrow> rpn_entry \<Rightarrow> bool" where
  "entry_matches s e \<longleftrightarrow>
     s = fname e \<or> (fop e \<noteq> CHR '' '' \<and> (if s = [] then CHR 0x00 else hd s) = fop e)"

definition find_entry :: "string \<Rightarrow> rpn_entry option" where
  "find_entry s = find (entry_matches s) rpn_eval_funcs"

text \<open>Popping the arguments of a function: \<open>args[0]\<close> is the value pushed last.\<close>

fun pop_args :: "nat \<Rightarrow> double list \<Rightarrow> (double list \<times> double list) outcome" where
  "pop_args 0 argstack = Inr ([], argstack)"
| "pop_args (Suc n) [] = Inl (Runtime_Error ''RPN Stack underflow'')"
| "pop_args (Suc n) (a # argstack) =
     bind_out (pop_args n argstack) (\<lambda>(args, rest). Inr (a # args, rest))"

text \<open>
  The main loop. \<open>rnd\<close> counts the calls of \<open>rand\<close>; it is returned with the value.
\<close>

fun eval_loop ::
    "libm \<Rightarrow> (nat \<Rightarrow> u32 \<times> u32) \<Rightarrow> (string \<rightharpoonup> double) \<Rightarrow> variant list \<Rightarrow> double list \<Rightarrow> nat \<Rightarrow>
     (double \<times> nat) outcome" where
  "eval_loop m src vars [] argstack rnd =
     (case argstack of [] \<Rightarrow> Inl Empty_Container | a # _ \<Rightarrow> Inr (a, rnd))"
| "eval_loop m src vars (v # stack) argstack rnd =
     (let s = fst (variant_GetString v)
      in case find_entry s of
           Some e \<Rightarrow>
             bind_out (pop_args (fargs e) argstack) (\<lambda>(args, rest).
             bind_out (ffunc e m (src rnd) args) (\<lambda>x.
               eval_loop m src vars stack (x # rest)
                 (if fname e = ''rand'' then rnd + 1 else rnd)))
         | None \<Rightarrow>
             (case vars s of
                Some x \<Rightarrow> eval_loop m src vars stack (x # argstack) rnd
              | None \<Rightarrow> eval_loop m src vars stack (fst (variant_GetFloat v) # argstack) rnd))"

definition rpn_eval ::
    "libm \<Rightarrow> (nat \<Rightarrow> u32 \<times> u32) \<Rightarrow> variant list \<Rightarrow> (string \<rightharpoonup> double) \<Rightarrow> nat \<Rightarrow>
     (double \<times> nat) outcome" where
  "rpn_eval m src stack vars rnd = eval_loop m src vars stack [] rnd"

section \<open>The tokens of a formula\<close>

lemma reverse_loop_length [simp]: "length (reverse_loop s i j) = length s"
proof (induction s i j rule: reverse_loop.induct)
  case (1 s i j)
  then show ?case by (subst reverse_loop.simps) (simp add: swap_chars_def)
qed

lemma reverse_loop_nth:
  "j < length s \<Longrightarrow> k < length s \<Longrightarrow>
   reverse_loop s i j ! k = (if i \<le> k \<and> k \<le> j then s ! (i + j - k) else s ! k)"
proof (induction s i j rule: reverse_loop.induct)
  case (1 s i j)
  show ?case
  proof (cases "i < j")
    case True
    then have "reverse_loop s i j ! k = reverse_loop (swap_chars s i j) (i + 1) (j - 1) ! k"
      by (subst reverse_loop.simps) simp
    also have "\<dots> = (if i + 1 \<le> k \<and> k \<le> j - 1
        then swap_chars s i j ! (i + 1 + (j - 1) - k) else swap_chars s i j ! k)"
      using 1 True by (intro "1.IH") (auto simp: swap_chars_def)
    also have "\<dots> = (if i \<le> k \<and> k \<le> j then s ! (i + j - k) else s ! k)"
      using True 1 by (auto simp: swap_chars_def nth_list_update)
    finally show ?thesis .
  next
    case False
    then have "i \<le> k \<Longrightarrow> k \<le> j \<Longrightarrow> i + j - k = k" by linarith
    then show ?thesis using False by (subst reverse_loop.simps) auto
  qed
qed

lemma rpn_parse_str_reverse [simp]: "rpn_parse_str_reverse s = rev s"
proof (rule nth_equalityI)
  fix k assume "k < length (rpn_parse_str_reverse s)"
  then have k: "k < length s" by (simp add: rpn_parse_str_reverse_def)
  then have "k \<le> length s - Suc 0" "length s - Suc 0 < length s" by linarith+
  then show "rpn_parse_str_reverse s ! k = rev s ! k"
    using k by (simp add: rpn_parse_str_reverse_def reverse_loop_nth rev_nth)
qed (simp add: rpn_parse_str_reverse_def)

definition words :: "string \<Rightarrow> string list" where
  "words s = filter (\<lambda>p. p \<noteq> []) (pieces (CHR '' '') s)"

lemma pieces_append: "pieces d (s @ d # t) = pieces d s @ pieces d t"
proof (induction s)
  case (Cons c s)
  then show ?case by (cases "pieces d s") auto
qed simp

lemma words_no_space: "CHR '' '' \<notin> set p \<Longrightarrow> words p = (if p = [] then [] else [p])"
  by (simp add: words_def pieces_no_delimiter)

lemma words_space: "CHR '' '' \<notin> set p \<Longrightarrow> words (s @ CHR '' '' # p) = words s @ words p"
  by (simp add: words_def pieces_append)

lemma parse_loop_words:
  "CHR '' '' \<notin> set tok \<Longrightarrow>
   (case parse_loop (rev s) tok stack of
      (tok, stack) \<Rightarrow>
        (if tok \<noteq> [] then variant_of_string (rpn_parse_str_reverse tok) # stack else stack)) =
   map variant_of_string (words (s @ rev tok)) @ stack"
proof (induction s arbitrary: tok stack rule: rev_induct)
  case Nil
  then show ?case by (simp add: words_no_space)
next
  case (snoc c s)
  show ?case
  proof (cases "c = CHR '' ''")
    case True
    have "words (s @ [c] @ rev tok) = words s @ (if tok = [] then [] else [rev tok])"
      using True snoc.prems words_space [of "rev tok" s] words_no_space [of "rev tok"] by simp
    then show ?thesis
      using True snoc.IH [of "[]" stack] snoc.IH [of "[]" "variant_of_string (rev tok) # stack"]
      by (cases "tok = []") simp_all
  next
    case False
    then show ?thesis using snoc.IH [of "tok @ [c]" stack] snoc.prems by simp
  qed
qed

text \<open>
  \<open>rpn_parse\<close> cuts a formula that is not empty at its spaces, drops the empty pieces and returns
  the pieces with the first on top; the empty formula is read out of bounds.
\<close>

theorem rpn_parse_words:
  "rpn_parse s = (if s = [] then Inl Read_Out_Of_Bounds
                  else Inr (map variant_of_string (words s)))"
proof -
  obtain tok stack where p: "parse_loop (rev s) [] [] = (tok, stack)"
    by (cases "parse_loop (rev s) [] []")
  then have "(if tok \<noteq> [] then variant_of_string (rpn_parse_str_reverse tok) # stack else stack) =
      map variant_of_string (words s)"
    using parse_loop_words [of "[]" s "[]"] by simp
  then show ?thesis by (simp add: rpn_parse_def p)
qed

section \<open>The value of a formula\<close>

text \<open>A formula as a tree: a leaf is a variable or a number, a call has its operands in order.\<close>

datatype formula = Leaf string | Call string "formula list"

definition leaf_value :: "(string \<rightharpoonup> double) \<Rightarrow> string \<Rightarrow> double" where
  "leaf_value vars s = (case vars s of Some x \<Rightarrow> x | None \<Rightarrow> tdparse s)"

fun fval :: "libm \<Rightarrow> (nat \<Rightarrow> u32 \<times> u32) \<Rightarrow> (string \<rightharpoonup> double) \<Rightarrow> nat \<Rightarrow> formula \<Rightarrow>
      (double \<times> nat) outcome"
  and fvals :: "libm \<Rightarrow> (nat \<Rightarrow> u32 \<times> u32) \<Rightarrow> (string \<rightharpoonup> double) \<Rightarrow> nat \<Rightarrow> formula list \<Rightarrow>
      (double list \<times> nat) outcome" where
  "fval m src vars rnd (Leaf s) = Inr (leaf_value vars s, rnd)"
| "fval m src vars rnd (Call f es) =
     bind_out (fvals m src vars rnd es) (\<lambda>(args, rnd).
       case find_entry f of
         None \<Rightarrow> Inl Empty_Container
       | Some e \<Rightarrow>
           bind_out (ffunc e m (src rnd) args) (\<lambda>x.
             Inr (x, if fname e = ''rand'' then rnd + 1 else rnd)))"
| "fvals m src vars rnd [] = Inr ([], rnd)"
| "fvals m src vars rnd (e # es) =
     bind_out (fvals m src vars rnd es) (\<lambda>(as, rnd).
     bind_out (fval m src vars rnd e) (\<lambda>(a, rnd). Inr (a # as, rnd)))"

text \<open>The text of a formula: the operands from the last to the first, then the function.\<close>

fun toks :: "formula \<Rightarrow> string list" and toks_rev :: "formula list \<Rightarrow> string list" where
  "toks (Leaf s) = [s]"
| "toks (Call f es) = toks_rev es @ [f]"
| "toks_rev [] = []"
| "toks_rev (e # es) = toks_rev es @ toks e"

definition word :: "string \<Rightarrow> bool" where
  "word s \<longleftrightarrow> s \<noteq> [] \<and> CHR '' '' \<notin> set s"

fun formula_ok :: "formula \<Rightarrow> bool" where
  "formula_ok (Leaf s) \<longleftrightarrow> word s \<and> find_entry s = None"
| "formula_ok (Call f es) \<longleftrightarrow>
     word f \<and> map_option fargs (find_entry f) = Some (length es) \<and> (\<forall>e \<in> set es. formula_ok e)"

definition formula_text :: "formula \<Rightarrow> string" where
  "formula_text e = join '' '' (toks e)"

lemma GetString_token [simp]: "fst (variant_GetString (variant_of_string s)) = s"
  by (simp add: variant_of_string_def SetString_def SetType_def variant_GetString_def)

lemma GetFloat_token [simp]: "fst (variant_GetFloat (variant_of_string s)) = tdparse s"
  by (simp add: variant_of_string_def SetString_def SetType_def variant_GetFloat_def cached_def Let_def
      blank_variant_def)

lemma pop_args_append: "pop_args (length as) (as @ st) = Inr (as, st)"
  by (induction as) auto

lemma fvals_length: "fvals m src vars rnd es = Inr (as, rnd') \<Longrightarrow> length as = length es"
  by (induction es arbitrary: as rnd') (auto simp: bind_out_Inr_iff)

lemma eval_loop_formula:
  "formula_ok e \<Longrightarrow>
   eval_loop m src vars (map variant_of_string (toks e) @ stack) st rnd =
   bind_out (fval m src vars rnd e) (\<lambda>(x, rnd). eval_loop m src vars stack (x # st) rnd)"
  "\<forall>e \<in> set es. formula_ok e \<Longrightarrow>
   eval_loop m src vars (map variant_of_string (toks_rev es) @ stack) st rnd =
   bind_out (fvals m src vars rnd es) (\<lambda>(xs, rnd). eval_loop m src vars stack (xs @ st) rnd)"
proof (induction e and es arbitrary: stack st rnd and stack st rnd rule: toks_toks_rev.induct)
  case (1 s)
  then show ?case by (cases "vars s") (auto simp: leaf_value_def Let_def)
next
  case (2 f es)
  then obtain e where e: "find_entry f = Some e" "fargs e = length es" by auto
  show ?case
  proof (cases "fvals m src vars rnd es")
    case (Inr p)
    obtain as r where p: "p = (as, r)" by (cases p)
    have "fargs e = length as" using fvals_length [of m src vars rnd es as r] Inr p e by simp
    then show ?thesis
      using 2 Inr p e
      by (cases "ffunc e m (src r) as") (simp_all add: Let_def pop_args_append)
  qed (use 2 in simp)
next
  case (4 e es)
  show ?case
  proof (cases "fvals m src vars rnd es")
    case (Inr p)
    then show ?thesis using 4 by (cases p) (simp add: bind_out_assoc split_def)
  qed (use 4 in simp)
qed simp

lemma words_join:
  "\<forall>t \<in> set ts. word t \<Longrightarrow> words (join '' '' ts) = ts"
proof (cases "ts = []")
  case False
  assume "\<forall>t \<in> set ts. word t"
  then show ?thesis
    using False by (auto simp: words_def pieces_join word_def intro!: filter_True)
qed (simp add: words_def)

lemma toks_words: "formula_ok e \<Longrightarrow> \<forall>t \<in> set (toks e). word t"
  "\<forall>e \<in> set es. formula_ok e \<Longrightarrow> \<forall>t \<in> set (toks_rev es). word t"
  by (induction e and es rule: toks_toks_rev.induct) auto

lemma formula_text_not_Nil: "formula_ok e \<Longrightarrow> formula_text e \<noteq> []"
proof
  assume ok: "formula_ok e" and "formula_text e = []"
  then have "words (formula_text e) = []" by (simp add: words_def)
  then have "toks e = []" using words_join [OF toks_words(1) [OF ok]] by (simp add: formula_text_def)
  then show False by (cases e) auto
qed

text \<open>
  C34: Parsing and evaluating the text of a formula tree gives the value of the tree, a failure of one
  of its functions included. The text has the operands of a function in the order from the
  last to the first, so that \<open>3 str /\<close> is \<open>str\<close> divided by 3.
\<close>

theorem rpn_eval_formula:
  assumes "formula_ok e"
  shows "bind_out (rpn_parse (formula_text e)) (\<lambda>stack. rpn_eval m src stack vars rnd) =
    fval m src vars rnd e"
proof -
  have "rpn_parse (formula_text e) = Inr (map variant_of_string (toks e))"
    using formula_text_not_Nil [OF assms] words_join [OF toks_words(1) [OF assms]]
    by (simp add: rpn_parse_words formula_text_def)
  moreover have "rpn_eval m src (map variant_of_string (toks e)) vars rnd = fval m src vars rnd e"
    using eval_loop_formula(1) [OF assms, of m src vars "[]" "[]" rnd]
    by (cases "fval m src vars rnd e") (auto simp: rpn_eval_def)
  ultimately show ?thesis by simp
qed

lemma dbl_numeral: "n < 2 ^ 53 \<Longrightarrow> dbl (of_nat n) = Fin (of_nat n)"
  using dbl_of_int [of "int n"] by simp

theorem rpn_eval_formula_witness:
  "\<forall>m src rnd. bind_out (rpn_parse ''3 str /'')
      (\<lambda>stack. rpn_eval m src stack [''str'' \<mapsto> Fin 12] rnd) = Inr (Fin 4, rnd)"
proof (intro allI)
  fix m src rnd
  let ?e = "Call ''/'' [Leaf ''str'', Leaf ''3'']"
  have f: "find_entry ''/'' = Some (entry (CHR ''/'') ''div'' 2 rpn_eval_div)"
    "find_entry ''str'' = None" "find_entry ''3'' = None"
    by (simp_all add: find_entry_def rpn_eval_funcs_def entry_matches_def entry_def)
  have "formula_ok ?e" using f by (simp add: word_def entry_def)
  moreover have "formula_text ?e = ''3 str /''" by (simp add: formula_text_def)
  moreover have "format_i 3 = ''3''" by code_simp
  then have "tdparse ''3'' = Fin 3" using tdparse_format_i [of 3] by simp
  ultimately show "bind_out (rpn_parse ''3 str /'')
      (\<lambda>stack. rpn_eval m src stack [''str'' \<mapsto> Fin 12] rnd) = Inr (Fin 4, rnd)"
    using rpn_eval_formula [of ?e m src "[''str'' \<mapsto> Fin 12]" rnd] f dbl_numeral [of 4]
    by (simp add: leaf_value_def rpn_eval_div_def entry_def)
qed

lemma epsilon_between:
  assumes "0 \<le> b" "b < 2 ^ 31 - 1"
  obtains y where "d_add (Fin (of_int b)) rpn_cmp_epsilon = Fin y" "of_int b < y" "y < of_int b + 1"
proof -
  let ?e = "fround (1 / 10000)" and ?s = "fround (of_int b + fround (1 / 10000))"
  have "\<bar>?e - 1 / 10000\<bar> \<le> 1 / 2 ^ 23" by (rule fround_error_31) simp_all
  then have "?e - 1 / 10000 \<le> 1 / 2 ^ 23" "- (?e - 1 / 10000) \<le> 1 / 2 ^ 23"
    by (simp_all only: abs_le_iff)
  then have e: "1 / 20000 \<le> ?e" "?e \<le> 1 / 5000" by simp_all
  have b: "0 \<le> (of_int b :: rat)" "(of_int b :: rat) \<le> 2 ^ 31 - 2" using assms by simp_all
  then have "\<bar>?s - (of_int b + ?e)\<bar> \<le> 1 / 2 ^ 23"
    using e by (intro fround_error_31) auto
  then have "?s - (of_int b + ?e) \<le> 1 / 2 ^ 23" "- (?s - (of_int b + ?e)) \<le> 1 / 2 ^ 23"
    by (simp_all only: abs_le_iff)
  then have s: "of_int b < ?s" "?s < of_int b + 1" using e by simp_all
  have eps: "rpn_cmp_epsilon = Fin ?e"
    unfolding rpn_cmp_epsilon_def using e by (intro dbl_finite) auto
  have "dbl (of_int b + ?e) = Fin ?s"
    using s b by (intro dbl_finite) (auto simp: abs_less_iff)
  then have "d_add (Fin (of_int b)) rpn_cmp_epsilon = Fin ?s" by (simp only: eps d_add.simps)
  then show thesis using s by (rule that)
qed

text \<open>
  In a formula, the token \<open>>=\<close> is the strict comparison: no function has that name, and the table
  is searched by first characters, so it selects \<open>gt\<close>. For whole numbers from 0 to
  \<open>2 ^ 31 - 2\<close> it gives 1 exactly when the operand before it is greater than the one before
  that, and so 0 for equal ones.
\<close>

theorem gte_token_is_strict:
  assumes "0 \<le> b" "b < 2 ^ 31 - 1"
  shows "bind_out (rpn_parse ''b a >='')
      (\<lambda>stack. rpn_eval m src stack [''a'' \<mapsto> Fin (of_int a), ''b'' \<mapsto> Fin (of_int b)] rnd) =
    Inr (if a > b then Fin 1 else Fin 0, rnd)"
proof -
  let ?e = "Call ''>='' [Leaf ''a'', Leaf ''b'']"
  have f: "find_entry ''>='' = Some (entry (CHR ''>'') ''gt'' 2 rpn_eval_gt)"
    "find_entry ''a'' = None" "find_entry ''b'' = None"
    by (simp_all add: find_entry_def rpn_eval_funcs_def entry_matches_def entry_def)
  obtain y where y: "d_add (Fin (of_int b)) rpn_cmp_epsilon = Fin y" "of_int b < y" "y < of_int b + 1"
    using epsilon_between [OF assms] .
  have "y < of_int a \<longleftrightarrow> a > b"
  proof
    assume "y < of_int a"
    then have "(of_int b :: rat) < of_int a" using y by linarith
    then show "a > b" by simp
  next
    assume "a > b"
    then have "of_int b + 1 \<le> (of_int a :: rat)"
      by (metis of_int_1 of_int_add of_int_le_iff zless_imp_add1_zle)
    then show "y < of_int a" using y by linarith
  qed
  then have "ffunc (entry (CHR ''>'') ''gt'' 2 rpn_eval_gt) m r [Fin (of_int a), Fin (of_int b)] =
      Inr (if a > b then Fin 1 else Fin 0)" for r
    using y(1) by (simp add: entry_def rpn_eval_gt_def d_bool_def)
  moreover have "formula_ok ?e" using f by (simp add: word_def entry_def)
  moreover have "formula_text ?e = ''b a >=''" by (simp add: formula_text_def)
  moreover have "fname (entry (CHR ''>'') ''gt'' 2 rpn_eval_gt) = ''gt''" by (simp add: entry_def)
  ultimately show ?thesis
    using rpn_eval_formula [of ?e m src "[''a'' \<mapsto> Fin (of_int a), ''b'' \<mapsto> Fin (of_int b)]" rnd] f
    by (simp add: leaf_value_def)
qed

theorem gte_token_is_strict_witness:
  "\<forall>m src rnd. bind_out (rpn_parse ''b a >='')
      (\<lambda>stack. rpn_eval m src stack [''a'' \<mapsto> Fin (of_int 7), ''b'' \<mapsto> Fin (of_int 7)] rnd) =
    Inr (Fin 0, rnd)"
  using gte_token_is_strict [of 7 _ _ 7] by simp

end
