(* ===== verification/Config.thy ===== *)
theory Config
  imports Variant
begin

text \<open>
  Configuration files (\<open>src/src/config.cpp\<close>). The file system and the environment are
  arguments: a map from file names to contents and one from variable names to values. A
  configuration keeps its entries and the keys whose environment variable has been looked up.
  Reading a file can read others, and a file may include itself, so \<open>config_read\<close> takes the
  depth of nested reads it may use and is an option. The properties: the escapes of values,
  where reading returns, and which of the file and the environment gives a value.
\<close>

section \<open>Definitions\<close>

type_synonym files = "string \<Rightarrow> string option"
type_synonym environment = "string \<Rightarrow> string option"

record config =
  entries :: "string \<rightharpoonup> variant"
  filename :: string
  loadedEnvs :: "string list"

definition MaxLineLength :: nat where "MaxLineLength = 4096"

definition eoserv_config_fromenv :: "environment \<Rightarrow> string \<Rightarrow> string" where
  "eoserv_config_fromenv env key =
     (case env (uppercase (''etheos_'' @ key)) of None \<Rightarrow> '''' | Some v \<Rightarrow> v)"

definition LoadFromEnvironment :: "environment \<Rightarrow> string \<Rightarrow> config \<Rightarrow> config" where
  "LoadFromEnvironment env key cfg =
     (if key \<in> set (loadedEnvs cfg) then cfg
      else
        let envVal = eoserv_config_fromenv env key;
            cfg = (if length envVal \<noteq> 0
                   then cfg\<lparr>entries := (entries cfg)(key \<mapsto> variant_of_string envVal)\<rparr> else cfg)
        in cfg\<lparr>loadedEnvs := loadedEnvs cfg @ [key]\<rparr>)"

text \<open>\<open>operator []\<close> makes a default entry for a key that has none.\<close>

definition config_index :: "environment \<Rightarrow> string \<Rightarrow> config \<Rightarrow> variant \<times> config" where
  "config_index env key cfg =
     (let cfg = LoadFromEnvironment env key cfg
      in case entries cfg key of
           Some v \<Rightarrow> (v, cfg)
         | None \<Rightarrow> (variant_default, cfg\<lparr>entries := (entries cfg)(key \<mapsto> variant_default)\<rparr>))"

text \<open>Assigning through the reference \<open>operator []\<close> returns.\<close>

definition config_assign :: "environment \<Rightarrow> string \<Rightarrow> variant \<Rightarrow> config \<Rightarrow> config" where
  "config_assign env key v cfg =
     (let cfg = snd (config_index env key cfg) in cfg\<lparr>entries := (entries cfg)(key \<mapsto> v)\<rparr>)"

text \<open>
  \<open>fgets\<close>: a line ends behind a newline, or after \<open>MaxLineLength - 1\<close> characters. The buffer is
  read as a C string, up to a NUL.
\<close>

fun fgets_line :: "nat \<Rightarrow> string \<Rightarrow> string \<times> string" where
  "fgets_line 0 s = ([], s)"
| "fgets_line (Suc n) [] = ([], [])"
| "fgets_line (Suc n) (c # cs) =
     (if c = CHR 0x0A then ([c], cs)
      else let (l, r) = fgets_line n cs in (c # l, r))"

lemma fgets_line_rest: "length (snd (fgets_line n s)) \<le> length s"
  by (induction n s rule: fgets_line.induct) (auto simp: split_def Let_def)

lemma fgets_line_shorter: "length (snd (fgets_line (Suc n) (c # cs))) < length (c # cs)"
  using fgets_line_rest [of n cs] by (auto simp: split_def Let_def)

function file_lines :: "string \<Rightarrow> string list" where
  "file_lines [] = []"
| "file_lines (c # cs) =
     (let (l, r) = fgets_line (MaxLineLength - 1) (c # cs)
      in takeWhile (\<lambda>x. x \<noteq> CHR 0x00) l # file_lines r)"
  by pat_completeness auto
termination
proof (relation "measure length", goal_cases)
  case (2 c cs x l r)
  have "MaxLineLength - 1 = Suc 4094" by (simp add: MaxLineLength_def)
  then have "length (snd (fgets_line (MaxLineLength - 1) (c # cs))) < length (c # cs)"
    by (simp only: fgets_line_shorter)
  then show ?case using 2 by (metis in_measure snd_conv)
qed simp

text \<open>The escapes of a value: the loop over the positions of its backslashes.\<close>

definition char_at :: "string \<Rightarrow> nat \<Rightarrow> char" where
  "char_at s i = (if i < length s then s ! i else CHR 0x00)"

definition replace_2 :: "string \<Rightarrow> nat \<Rightarrow> char \<Rightarrow> string" where
  "replace_2 s i c = take i s @ c # drop (i + 2) s"

definition escape_at :: "string \<Rightarrow> nat \<Rightarrow> string" where
  "escape_at s loc =
     (let c = char_at s (loc + 1)
      in if c = CHR ''t'' then replace_2 s loc (CHR 0x09)
         else if c = CHR ''r'' then replace_2 s loc (CHR 0x0D)
         else if c = CHR ''n'' then replace_2 s loc (CHR 0x0A)
         else if c = CHR 0x5C then replace_2 s loc (CHR 0x5C)
         else s)"

definition is_backslash :: "char \<Rightarrow> bool" where
  "is_backslash c \<longleftrightarrow> c = CHR 0x5C"

lemma escape_at_length: "loc < length s \<Longrightarrow> length (escape_at s loc) \<le> length s"
  by (auto simp: escape_at_def replace_2_def char_at_def Let_def)

function escape_loop :: "string \<Rightarrow> nat option \<Rightarrow> string" where
  "escape_loop val None = val"
| "escape_loop val (Some loc) =
     (if loc \<ge> length val then val
      else
        let val = escape_at val loc
        in escape_loop val (find_from is_backslash (loc + 1) val))"
  by pat_completeness auto
termination
proof (relation "measure (\<lambda>(s, l). case l of None \<Rightarrow> 0 | Some i \<Rightarrow> Suc (length s) - i)", goal_cases)
  case (2 val loc x)
  then show ?case
    using escape_at_length [of loc val]
    by (cases "find_from is_backslash (loc + 1) x") (auto dest: find_from_Some(1,2))
qed simp

definition unescape :: "string \<Rightarrow> string" where
  "unescape val = escape_loop val (find_from is_backslash 0 val)"

text \<open>One line: a key and its value, or nothing.\<close>

definition parse_line :: "string \<Rightarrow> (string \<times> string) option outcome" where
  "parse_line buf =
     bind_out (trim buf) (\<lambda>line.
       if length line < 1 then Inr None
       else if hd line = CHR ''#'' then Inr None
       else
         case find_from (\<lambda>c. c = CHR ''='') 0 line of
           None \<Rightarrow> Inr None
         | Some eqloc \<Rightarrow>
             bind_out (rtrim (take eqloc line)) (\<lambda>key.
             bind_out (if length line > eqloc + 1 then ltrim (drop (eqloc + 1) line) else Inr '''')
               (\<lambda>value. Inr (Some (key, value)))))"

definition is_runtime_error :: "failure \<Rightarrow> bool" where
  "is_runtime_error e = (case e of Runtime_Error _ \<Rightarrow> True | _ \<Rightarrow> False)"

text \<open>
  Reading returns the configuration with how the call ended: an exception leaves what was
  read before it. \<open>None\<close> is a nesting deeper than the bound.
\<close>

function (sequential) config_read ::
    "files \<Rightarrow> environment \<Rightarrow> nat \<Rightarrow> string \<Rightarrow> config \<Rightarrow> (config \<times> unit outcome) option"
  and config_lines ::
    "files \<Rightarrow> environment \<Rightarrow> nat \<Rightarrow> string list \<Rightarrow> config \<Rightarrow> (config \<times> unit outcome) option" where
  "config_read files env 0 fn cfg = None"
| "config_read files env (Suc n) fn cfg =
     (let cfg = cfg\<lparr>loadedEnvs := [], filename := fn\<rparr>
      in case files fn of
           None \<Rightarrow> Some (cfg, Inl (Runtime_Error (''Configuration file not found: '' @ fn)))
         | Some content \<Rightarrow> config_lines files env n (file_lines content) cfg)"
| "config_lines files env n [] cfg = Some (cfg, Inr ())"
| "config_lines files env n (l # ls) cfg =
     (case parse_line l of
        Inl e \<Rightarrow> Some (cfg, Inl e)
      | Inr None \<Rightarrow> config_lines files env n ls cfg
      | Inr (Some (key, val)) \<Rightarrow>
          (if key = ''REQUIRE'' then
             (case config_read files env n val cfg of
                None \<Rightarrow> None
              | Some (cfg, Inl e) \<Rightarrow> Some (cfg, Inl e)
              | Some (cfg, Inr _) \<Rightarrow> config_lines files env n ls cfg)
           else if key = ''INCLUDE'' \<or> key = ''INCLUDE_NOWARN'' then
             (case config_read files env n val cfg of
                None \<Rightarrow> None
              | Some (cfg, Inl e) \<Rightarrow>
                  (if is_runtime_error e then config_lines files env n ls cfg
                   else Some (cfg, Inl e))
              | Some (cfg, Inr _) \<Rightarrow> config_lines files env n ls cfg)
           else
             config_lines files env n ls
               (config_assign env key (variant_of_string (unescape val)) cfg)))"
  by pat_completeness auto
termination
  by (relation "measures [case_sum (\<lambda>(_, _, n, _). n) (\<lambda>(_, _, n, _). n),
        case_sum (\<lambda>_. 0) (\<lambda>(_, _, _, ls, _). Suc (length ls))]") auto

definition empty_config :: config where
  "empty_config = \<lparr>entries = Map.empty, filename = '''', loadedEnvs = []\<rparr>"

section \<open>Escapes\<close>

definition escape_char :: "char \<Rightarrow> char option" where
  "escape_char c =
     (if c = CHR ''t'' then Some (CHR 0x09) else if c = CHR ''r'' then Some (CHR 0x0D)
      else if c = CHR ''n'' then Some (CHR 0x0A) else if c = CHR 0x5C then Some (CHR 0x5C)
      else None)"

fun unescape_spec :: "string \<Rightarrow> string" where
  "unescape_spec [] = []"
| "unescape_spec [c] = [c]"
| "unescape_spec (c # d # ds) =
     (if c = CHR 0x5C then
        (case escape_char d of
           Some e \<Rightarrow> e # unescape_spec ds
         | None \<Rightarrow> c # unescape_spec (d # ds))
      else c # unescape_spec (d # ds))"

lemma unescape_spec_append:
  "\<forall>c \<in> set w. \<not> is_backslash c \<Longrightarrow> unescape_spec (w @ s) = w @ unescape_spec s"
proof (induction w)
  case (Cons c w)
  then show ?case by (cases "w @ s") (auto simp: is_backslash_def)
qed simp

lemma escape_at_split:
  assumes "s = p @ CHR 0x5C # r"
  shows "escape_at s (length p) =
    (case r of [] \<Rightarrow> s
     | d # ds \<Rightarrow> (case escape_char d of Some e \<Rightarrow> p @ e # ds | None \<Rightarrow> s))"
  using assms
  by (cases r) (auto simp: escape_at_def Let_def char_at_def escape_char_def replace_2_def nth_append)

lemma escape_loop_spec:
  "i \<le> length s \<Longrightarrow>
   escape_loop s (find_from is_backslash i s) = take i s @ unescape_spec (drop i s)"
proof (induction "length s - i" arbitrary: i s rule: less_induct)
  case less
  show ?case
  proof (cases "find_from is_backslash i s")
    case None
    have "\<not> is_backslash c" if mem: "c \<in> set (drop i s)" for c
    proof -
      obtain j where "j < length (drop i s)" "drop i s ! j = c" using mem by (auto simp: in_set_conv_nth)
      then show ?thesis using find_from_None [OF None, of "i + j"] less.prems by (auto simp: nth_drop)
    qed
    then have "unescape_spec (drop i s @ []) = drop i s @ unescape_spec []"
      by (intro unescape_spec_append) blast
    then show ?thesis using None by simp
  next
    case (Some k)
    note k = find_from_Some [OF Some]
    let ?w = "drop i (take k s)" and ?p = "take k s" and ?r = "drop (k + 1) s"
    have s: "s = ?p @ CHR 0x5C # ?r"
      using k(2,3) by (metis Suc_eq_plus1 id_take_nth_drop is_backslash_def)
    have d: "drop i s = ?w @ CHR 0x5C # ?r"
      using k(1,2) arg_cong [OF s, of "drop i"] by simp
    have "\<not> is_backslash c" if mem: "c \<in> set ?w" for c
    proof -
      obtain j where "j < length ?w" "?w ! j = c" using mem by (auto simp: in_set_conv_nth)
      then show ?thesis using k(4) [of "i + j"] k(1,2) by (auto simp: nth_drop)
    qed
    then have spec: "unescape_spec (drop i s) = ?w @ unescape_spec (CHR 0x5C # ?r)"
      unfolding d by (intro unescape_spec_append) blast
    have len: "length ?p = k" using k(2) by simp
    have pw: "take i s @ ?w = ?p"
      using k(1) by (metis append_take_drop_id min.absorb1 take_take)
    let ?t = "escape_at s k"
    have t: "?t = (case ?r of [] \<Rightarrow> s
        | d # ds \<Rightarrow> (case escape_char d of Some e \<Rightarrow> ?p @ e # ds | None \<Rightarrow> s))"
      using escape_at_split [OF s] len by simp
    have tk: "k + 1 \<le> length ?t" "length ?t - (k + 1) < length s - i"
      using t len k(1,2) less.prems by (auto split: list.splits option.splits dest: arg_cong [where f = length])
    have "escape_loop s (Some k) = escape_loop ?t (find_from is_backslash (k + 1) ?t)"
      using k(2) by (simp add: Let_def)
    also have "\<dots> = take (k + 1) ?t @ unescape_spec (drop (k + 1) ?t)"
      using tk by (intro less.hyps) auto
    also have "\<dots> = ?p @ unescape_spec (CHR 0x5C # ?r)"
    proof (cases ?r)
      case Nil
      then have "?t = ?p @ [CHR 0x5C]" using t s by simp
      then show ?thesis using Nil len by simp
    next
      case (Cons d ds)
      then have s': "s = ?p @ CHR 0x5C # d # ds" using s by simp
      show ?thesis
      proof (cases "escape_char d")
        case None
        then have "?t = ?p @ CHR 0x5C # d # ds" using t Cons s' by simp
        then show ?thesis using Cons None len by simp
      next
        case (Some e)
        then have "?t = ?p @ e # ds" using t Cons by simp
        then show ?thesis using Cons Some len by simp
      qed
    qed
    finally show ?thesis using Some spec pw by simp
  qed
qed

lemma unescape_eq: "unescape s = unescape_spec s"
  using escape_loop_spec [of 0 s] by (simp add: unescape_def)

fun escape_text :: "string \<Rightarrow> string" where
  "escape_text [] = []"
| "escape_text (c # cs) =
     (if c = CHR 0x09 then CHR 0x5C # CHR ''t'' # escape_text cs
      else if c = CHR 0x0D then CHR 0x5C # CHR ''r'' # escape_text cs
      else if c = CHR 0x0A then CHR 0x5C # CHR ''n'' # escape_text cs
      else if c = CHR 0x5C then CHR 0x5C # CHR 0x5C # escape_text cs
      else c # escape_text cs)"

lemma unescape_escape_text: "unescape_spec (escape_text s) = s"
proof (induction s)
  case (Cons c cs)
  have "unescape_spec ([c] @ escape_text cs) = [c] @ unescape_spec (escape_text cs)"
    if "c \<noteq> CHR 0x5C"
    using that by (intro unescape_spec_append) (simp add: is_backslash_def)
  then show ?case using Cons by (auto simp: escape_char_def)
qed simp

text \<open>
  C39: The loop over the backslashes of a value replaces each escape once, from the left, as
  \<open>unescape_spec\<close> does on the list of characters: a replaced text is not read again, and
  a backslash before any other character, or at the end, is kept. Every text without NUL
  can be written with escapes and is read back.
\<close>

theorem config_escapes: "unescape s = unescape_spec s \<and> unescape (escape_text s) = s"
  by (simp add: unescape_eq unescape_escape_text)

section \<open>Lines\<close>

lemma fgets_line_length: "length (fst (fgets_line n s)) \<le> n"
  by (induction n s rule: fgets_line.induct) (auto simp: split_def Let_def)

lemma file_lines_length: "l \<in> set (file_lines s) \<Longrightarrow> length l \<le> 4095"
proof (induction s rule: file_lines.induct)
  case (2 c cs)
  obtain l' r where p: "fgets_line (MaxLineLength - 1) (c # cs) = (l', r)"
    by (cases "fgets_line (MaxLineLength - 1) (c # cs)")
  have "length l' \<le> MaxLineLength - 1"
    using fgets_line_length [of "MaxLineLength - 1" "c # cs"] p by simp
  then have "length (takeWhile (\<lambda>x. x \<noteq> CHR 0x00) l') \<le> 4095"
    using length_takeWhile_le [of "\<lambda>x. x \<noteq> CHR 0x00" l'] by (simp add: MaxLineLength_def)
  then show ?case using 2 p by (auto simp: Let_def)
qed simp

lemma parse_line_returns:
  assumes "length buf < 2 ^ 64"
  shows "\<exists>r. parse_line buf = Inr r"
proof -
  let ?line = "strip buf"
  have "length ?line \<le> length buf"
    using length_dropWhile_le [of is_space "rev (dropWhile is_space buf)"]
      length_dropWhile_le [of is_space buf] by (simp add: strip_def)
  then have len: "length ?line < 2 ^ 64" using assms by linarith
  show ?thesis
  proof (cases "length ?line < 1 \<or> hd ?line = CHR ''#''")
    case False
    show ?thesis
    proof (cases "find_from (\<lambda>c. c = CHR ''='') 0 ?line")
      case None
      then show ?thesis using False assms by (simp add: parse_line_def trim_eq)
    next
      case (Some k)
      have "length (take k ?line) < 2 ^ 64" "length (drop (k + 1) ?line) < 2 ^ 64"
        using len by simp_all
      then show ?thesis
        using Some False assms
        by (auto simp: parse_line_def trim_eq rtrim_eq ltrim_eq simp del: length_take length_drop)
    qed
  qed (use assms in \<open>auto simp: parse_line_def trim_eq\<close>)
qed

definition line_setting :: "string \<Rightarrow> (string \<times> string) option" where
  "line_setting l = (case parse_line l of Inr r \<Rightarrow> r | Inl _ \<Rightarrow> None)"

definition settings_of :: "string list \<Rightarrow> (string \<times> string) list" where
  "settings_of ls = map the (filter (\<lambda>x. x \<noteq> None) (map line_setting ls))"

definition settings :: "string \<Rightarrow> (string \<times> string) list" where
  "settings content = settings_of (file_lines content)"

definition special :: "string \<Rightarrow> bool" where
  "special key \<longleftrightarrow> key = ''REQUIRE'' \<or> key = ''INCLUDE'' \<or> key = ''INCLUDE_NOWARN''"

lemma parse_line_setting: "l \<in> set (file_lines s) \<Longrightarrow> parse_line l = Inr (line_setting l)"
  using parse_line_returns [of l] file_lines_length [of l s] by (auto simp: line_setting_def)

section \<open>Reading without and with nested files\<close>

definition assign_all :: "environment \<Rightarrow> (string \<times> string) list \<Rightarrow> config \<Rightarrow> config" where
  "assign_all env kvs cfg =
     foldl (\<lambda>cfg (k, v). config_assign env k (variant_of_string (unescape v)) cfg) cfg kvs"

lemma config_assign_entries:
  "entries (config_assign env k v cfg) = (entries cfg)(k \<mapsto> v)"
  "set (loadedEnvs (config_assign env k v cfg)) = insert k (set (loadedEnvs cfg))"
  by (auto simp: config_assign_def config_index_def LoadFromEnvironment_def Let_def
      split: option.splits)

lemma assign_all_entries:
  "entries (assign_all env kvs cfg) =
     entries cfg ++ map_of (rev (map (\<lambda>(k, v). (k, variant_of_string (unescape v))) kvs))"
  "set (loadedEnvs (assign_all env kvs cfg)) = fst ` set kvs \<union> set (loadedEnvs cfg)"
  by (induction kvs arbitrary: cfg)
    (auto simp: assign_all_def config_assign_entries)

lemma settings_of_simps [simp]:
  "settings_of [] = []"
  "settings_of (l # ls) =
     (case line_setting l of None \<Rightarrow> settings_of ls | Some kv \<Rightarrow> kv # settings_of ls)"
  by (auto simp: settings_of_def split: option.splits)

lemma config_lines_plain:
  assumes "\<forall>l \<in> set ls. parse_line l = Inr (line_setting l)"
    and "settings_of ls = kvs @ rest" "\<forall>(k, v) \<in> set kvs. \<not> special k"
  shows "\<exists>ls'. settings_of ls' = rest \<and> set ls' \<subseteq> set ls \<and>
    config_lines files env n ls cfg = config_lines files env n ls' (assign_all env kvs cfg)"
  using assms
proof (induction ls arbitrary: kvs cfg)
  case Nil
  then show ?case by (intro exI [of _ "[]"]) (simp add: assign_all_def)
next
  case (Cons l ls)
  show ?case
  proof (cases "line_setting l")
    case None
    then have "config_lines files env n (l # ls) cfg = config_lines files env n ls cfg"
      using Cons.prems(1) by simp
    then show ?thesis
      using Cons.IH [of kvs cfg] Cons.prems None by (auto split: option.splits)
  next
    case (Some kv)
    show ?thesis
    proof (cases kvs)
      case Nil
      then show ?thesis
        using Cons.prems by (intro exI [of _ "l # ls"]) (simp add: assign_all_def)
    next
      case (Cons kv' kvs')
      obtain k v where kv: "kv = (k, v)" "kv' = (k, v)"
        using Cons.prems(2) Some Cons by (cases kv) auto
      have "\<not> special k" using Cons.prems(3) Cons kv by auto
      then have "config_lines files env n (l # ls) cfg =
          config_lines files env n ls (config_assign env k (variant_of_string (unescape v)) cfg)"
        using Cons.prems(1) Some kv by (auto simp: special_def)
      then show ?thesis
        using Cons.IH [of kvs' "config_assign env k (variant_of_string (unescape v)) cfg"]
          Cons.prems Some Cons kv
        by (auto simp: assign_all_def)
    qed
  qed
qed

definition fresh :: "config \<Rightarrow> string \<Rightarrow> config" where
  "fresh cfg fn = cfg\<lparr>loadedEnvs := [], filename := fn\<rparr>"

lemma config_lines_no_setting:
  "\<forall>l \<in> set ls. parse_line l = Inr (line_setting l) \<Longrightarrow> settings_of ls = [] \<Longrightarrow>
   config_lines files env n ls cfg = Some (cfg, Inr ())"
  by (induction ls) (auto split: option.splits)

lemma config_lines_missing:
  assumes "\<forall>l \<in> set ls. parse_line l = Inr (line_setting l)"
    and "settings_of ls = [(''INCLUDE'', gn)]" "files gn = None"
  shows "config_lines files env (Suc n) ls cfg = Some (fresh cfg gn, Inr ())"
  using assms
proof (induction ls)
  case (Cons l ls)
  show ?case
  proof (cases "line_setting l")
    case (Some kv)
    then have "settings_of ls = []" "kv = (''INCLUDE'', gn)" using Cons.prems by auto
    then show ?thesis
      using Cons.prems Some config_lines_no_setting [of ls files env "Suc n"]
      by (simp add: is_runtime_error_def fresh_def)
  qed (use Cons in simp)
qed simp

lemma config_read_plain:
  assumes "files fn = Some content" "\<forall>(k, v) \<in> set (settings content). \<not> special k"
  shows "config_read files env (Suc n) fn cfg =
    Some (assign_all env (settings content) (fresh cfg fn), Inr ())"
proof -
  have "\<forall>l \<in> set (file_lines content). parse_line l = Inr (line_setting l)"
    using parse_line_setting by blast
  then obtain ls' where ls: "settings_of ls' = []" "set ls' \<subseteq> set (file_lines content)"
    "config_lines files env n (file_lines content) (fresh cfg fn) =
      config_lines files env n ls' (assign_all env (settings content) (fresh cfg fn))"
    using config_lines_plain [of "file_lines content" "settings content" "[]" files env n "fresh cfg fn"]
      assms(2) by (auto simp: settings_def)
  then have "\<forall>l \<in> set ls'. parse_line l = Inr (line_setting l)"
    using parse_line_setting by blast
  then have "config_lines files env n ls' c = Some (c, Inr ())" for c
    using ls(1) config_lines_no_setting by blast
  then show ?thesis using assms(1) ls(3) by (simp add: fresh_def Let_def)
qed

definition env_value :: "environment \<Rightarrow> string \<Rightarrow> variant option" where
  "env_value env k =
     (let v = eoserv_config_fromenv env k in if v = [] then None else Some (variant_of_string v))"

lemma fst_config_index:
  "fst (config_index env k cfg) =
     (if k \<in> set (loadedEnvs cfg) then case_option variant_default id (entries cfg k)
      else case env_value env k of
             Some v \<Rightarrow> v | None \<Rightarrow> case_option variant_default id (entries cfg k))"
  by (auto simp: config_index_def LoadFromEnvironment_def env_value_def Let_def split: option.splits)

definition file_value :: "(string \<times> string) list \<Rightarrow> string \<Rightarrow> variant option" where
  "file_value kvs = map_of (rev (map (\<lambda>(k, v). (k, variant_of_string (unescape v))) kvs))"

lemma file_value_None: "file_value kvs k = None \<longleftrightarrow> k \<notin> fst ` set kvs"
  by (force simp: file_value_def map_of_eq_None_iff image_image split_def)

text \<open>
  Which source gives a value. After reading a file without nested files, a key the file sets has the
  value of its last line in the file, with its escapes replaced, whatever the environment
  says; a key the file does not set has the value of its environment variable when that is
  not empty, and otherwise what it was before or the default. When the file ends by including
  a file that does not exist, the environment comes before the file for every key.
\<close>

theorem config_priority:
  assumes "files fn = Some content" "\<forall>(k, v) \<in> set (settings content). \<not> special k"
    and "files fn' = Some content'" "settings content' = settings content @ [(''INCLUDE'', gn)]"
    and "files gn = None"
  shows "\<exists>cfg1 cfg2.
    config_read files env (Suc n) fn cfg = Some (cfg1, Inr ()) \<and>
    fst (config_index env k cfg1) =
      (case file_value (settings content) k of
         Some v \<Rightarrow> v
       | None \<Rightarrow> case_option (case_option variant_default id (entries cfg k)) id (env_value env k)) \<and>
    config_read files env (Suc (Suc n)) fn' cfg = Some (cfg2, Inr ()) \<and>
    fst (config_index env k cfg2) =
      (case env_value env k of
         Some v \<Rightarrow> v
       | None \<Rightarrow> case_option (case_option variant_default id (entries cfg k)) id
                    (file_value (settings content) k))"
proof -
  let ?c1 = "assign_all env (settings content) (fresh cfg fn)"
  let ?c2 = "fresh (assign_all env (settings content) (fresh cfg fn')) gn"
  have entries: "entries (assign_all env (settings content) (fresh cfg f)) =
      entries cfg ++ file_value (settings content)" for f
    by (simp add: assign_all_entries file_value_def fresh_def)
  have loaded: "set (loadedEnvs ?c1) = fst ` set (settings content)"
    by (simp add: assign_all_entries fresh_def)
  have r1: "config_read files env (Suc n) fn cfg = Some (?c1, Inr ())"
    using assms(1,2) by (rule config_read_plain)
  have "\<forall>l \<in> set (file_lines content'). parse_line l = Inr (line_setting l)"
    using parse_line_setting by blast
  then obtain ls' where ls: "settings_of ls' = [(''INCLUDE'', gn)]"
    "set ls' \<subseteq> set (file_lines content')"
    "config_lines files env (Suc n) (file_lines content') (fresh cfg fn') =
      config_lines files env (Suc n) ls' (assign_all env (settings content) (fresh cfg fn'))"
    using config_lines_plain [of "file_lines content'" "settings content" "[(''INCLUDE'', gn)]"
        files env "Suc n" "fresh cfg fn'"] assms(2,4) by (auto simp: settings_def)
  moreover have "\<forall>l \<in> set ls'. parse_line l = Inr (line_setting l)"
    using ls(2) parse_line_setting by blast
  ultimately have "config_lines files env (Suc n) ls' c = Some (fresh c gn, Inr ())" for c
    using config_lines_missing assms(5) by blast
  then have r2: "config_read files env (Suc (Suc n)) fn' cfg = Some (?c2, Inr ())"
    using assms(3) ls(3) by (simp add: fresh_def Let_def)
  have "fst (config_index env k ?c1) =
      (case file_value (settings content) k of
         Some v \<Rightarrow> v
       | None \<Rightarrow> case_option (case_option variant_default id (entries cfg k)) id (env_value env k))"
    using loaded file_value_None [of "settings content" k]
    by (cases "file_value (settings content) k"; cases "env_value env k")
      (simp_all add: fst_config_index entries map_add_def)
  moreover have "fst (config_index env k ?c2) =
      (case env_value env k of
         Some v \<Rightarrow> v
       | None \<Rightarrow> case_option (case_option variant_default id (entries cfg k)) id
                    (file_value (settings content) k))"
    by (cases "file_value (settings content) k"; cases "env_value env k")
      (simp_all add: fst_config_index fresh_def [of _ gn] entries map_add_def)
  ultimately show ?thesis using r1 r2 by blast
qed

theorem config_priority_witness:
  "\<exists>cfg1 cfg2.
    config_read [''a'' \<mapsto> ''Port=8078'', ''b'' \<mapsto> ''Port=8078'' @ [CHR 0x0A] @ ''INCLUDE=c'']
      [''ETHEOS_PORT'' \<mapsto> ''1''] 1 ''a'' empty_config = Some (cfg1, Inr ()) \<and>
    fst (config_index [''ETHEOS_PORT'' \<mapsto> ''1''] ''Port'' cfg1) = variant_of_string ''8078'' \<and>
    config_read [''a'' \<mapsto> ''Port=8078'', ''b'' \<mapsto> ''Port=8078'' @ [CHR 0x0A] @ ''INCLUDE=c'']
      [''ETHEOS_PORT'' \<mapsto> ''1''] 2 ''b'' empty_config = Some (cfg2, Inr ()) \<and>
    fst (config_index [''ETHEOS_PORT'' \<mapsto> ''1''] ''Port'' cfg2) = variant_of_string ''1''"
proof -
  let ?fs = "[''a'' \<mapsto> ''Port=8078'', ''b'' \<mapsto> ''Port=8078'' @ [CHR 0x0A] @ ''INCLUDE=c'']"
    and ?env = "[''ETHEOS_PORT'' \<mapsto> ''1'']"
  have a: "settings ''Port=8078'' = [(''Port'', ''8078'')]" by code_simp
  have b: "settings (''Port=8078'' @ [CHR 0x0A] @ ''INCLUDE=c'') =
      [(''Port'', ''8078''), (''INCLUDE'', ''c'')]" by code_simp
  have "file_value [(''Port'', ''8078'')] ''Port'' = Some (variant_of_string ''8078'')"
    by (simp add: file_value_def unescape_eq)
  moreover have "env_value ?env ''Port'' = Some (variant_of_string ''1'')"
  proof -
    have "uppercase (''etheos_'' @ ''Port'') = ''ETHEOS_PORT''" by code_simp
    then show ?thesis by (simp add: env_value_def eoserv_config_fromenv_def)
  qed
  ultimately show ?thesis
    using config_priority [of ?fs "''a''" "''Port=8078''" "''b''"
        "''Port=8078'' @ [CHR 0x0A] @ ''INCLUDE=c''" "''c''" ?env 0 empty_config "''Port''"] a b
    by (simp add: special_def eval_nat_numeral)
qed

text \<open>
  C40: Reading returns when the includes of the files go down along some rank: then the rank bounds the
  nesting. A file whose first line that is not a plain setting includes the file itself is
  read without end.
\<close>

theorem config_read_returns:
  assumes "\<forall>fn content. files fn = Some content \<longrightarrow>
    (\<forall>(k, v) \<in> set (settings content). special k \<longrightarrow> rank v < rank fn)"
    and "rank fn < n"
    and "self (fn' :: string) = Some content'" "settings content' = kvs @ (k, fn') # rest"
    and "\<forall>(k, v) \<in> set kvs. \<not> special k" "special k"
  shows "config_read files env n fn cfg \<noteq> None \<and> config_read self env m fn' cfg = None"
proof
  have lines: "config_lines files env n ls cfg \<noteq> None"
    if deep: "\<And>fn cfg. rank fn < n \<Longrightarrow> config_read files env n fn cfg \<noteq> None"
      and ranks: "\<forall>(k, v) \<in> set (settings_of ls). special k \<longrightarrow> rank v < n"
      and ok: "\<forall>l \<in> set ls. parse_line l = Inr (line_setting l)" for n ls cfg
    using ranks ok
  proof (induction ls arbitrary: cfg)
    case (Cons l ls)
    show ?case
    proof (cases "line_setting l")
      case (Some kv)
      obtain k v where kv: "kv = (k, v)" by (cases kv)
      have rest: "config_lines files env n ls c \<noteq> None" for c
        using Cons Some by auto
      show ?thesis
      proof (cases "special k")
        case True
        then have "rank v < n" using Cons.prems(1) Some kv by auto
        then obtain c r where "config_read files env n v cfg = Some (c, r)"
          using deep [of v cfg] by auto
        then show ?thesis
          using Some kv True rest Cons.prems(2) by (cases r) (auto simp: special_def)
      next
        case False
        then show ?thesis using Some kv rest Cons.prems(2) by (simp add: special_def)
      qed
    qed (use Cons in simp)
  qed simp
  have "\<And>fn cfg. rank fn < n \<Longrightarrow> config_read files env n fn cfg \<noteq> None"
  proof (induction n)
    case (Suc n)
    show ?case
    proof (cases "files fn")
      case (Some content)
      have "\<forall>(k, v) \<in> set (settings content). special k \<longrightarrow> rank v < n"
        using assms(1) Some Suc.prems by fastforce
      then show ?thesis
        using Some lines [OF Suc.IH] parse_line_setting [of _ content]
        by (auto simp: settings_def Let_def)
    qed simp
  qed simp
  then show "config_read files env n fn cfg \<noteq> None" using assms(2) by blast
next
  show "config_read self env m fn' cfg = None"
  proof (induction m arbitrary: cfg)
    case (Suc m)
    obtain ls' where ls: "settings_of ls' = (k, fn') # rest"
      "set ls' \<subseteq> set (file_lines content')"
      "config_lines self env m (file_lines content') (fresh cfg fn') =
        config_lines self env m ls' (assign_all env kvs (fresh cfg fn'))"
      using config_lines_plain [of "file_lines content'" kvs "(k, fn') # rest" self env m "fresh cfg fn'"]
        assms(4,5) parse_line_setting by (auto simp: settings_def)
    have "\<forall>l \<in> set ls'. parse_line l = Inr (line_setting l)"
      using ls(2) parse_line_setting by blast
    then have "config_lines self env m ls' c = None" for c
      using ls(1)
    proof (induction ls' arbitrary: c)
      case (Cons l ls')
      then show ?case
        using Suc.IH assms(6) by (cases "line_setting l") (auto simp: special_def)
    qed simp
    then show ?case using assms(3) ls(3) by (simp add: fresh_def Let_def)
  qed simp
qed

theorem config_read_returns_witness:
  "config_read [''a'' \<mapsto> ''Port=8078''] Map.empty 1 ''a'' empty_config \<noteq> None \<and>
   config_read [''a'' \<mapsto> ''INCLUDE=a''] Map.empty 1000 ''a'' empty_config = None"
proof -
  have "settings ''Port=8078'' = [(''Port'', ''8078'')]"
    "settings ''INCLUDE=a'' = [] @ (''INCLUDE'', ''a'') # []" by code_simp+
  then show ?thesis
    using config_read_returns [of "[''a'' \<mapsto> ''Port=8078'']" "\<lambda>_. 0" "''a''" 1
        "[''a'' \<mapsto> ''INCLUDE=a'']" "''a''" "''INCLUDE=a''" "[]" "''INCLUDE''" "[]"
        Map.empty empty_config 1000]
    by (simp add: special_def)
qed

end
