(* ===== verification/EOP_Lexer.thy ===== *)
theory EOP_Lexer
  imports Util_Numbers "HOL-Library.Sublist"
begin

text \<open>
  The tokens and the lexer of EOPlus, the language of quest files (\<open>src/src/eoplus.hpp\<close>,
  \<open>src/src/fwd/eoplus.hpp\<close>, \<open>src/src/eoplus/lex.cpp\<close>). The data of a token is the abstract
  value of its variant, whose conversions are those of the variant itself. The lexer's state
  has the characters the stream has left, the position for error messages and the queue of
  newline tokens. The properties: operators have different codes, every text that ends its
  last line is lexed to an end while a comment without a newline is read without end, and the
  text of a token list is lexed to the list.
\<close>

section \<open>Errors and tokens\<close>

datatype eo_error =
    Lexer_Error string int int
  | Parser_Error string int
  | Undefined failure          \<comment> \<open>undefined behaviour\<close>
  | Never_Returns              \<comment> \<open>a loop that does not end\<close>

datatype token_type =
  T_Invalid | T_Identifier | T_String | T_Integer | T_Float | T_Boolean | T_Operator | T_Symbol
| T_NewLine | T_EndOfFile

record token =
  tok_type :: token_type
  tok_data :: vval
  newlines :: int

definition Token :: "token_type \<Rightarrow> vval \<Rightarrow> token" where
  "Token t d = \<lparr>tok_type = t, tok_data = d, newlines = 0\<rparr>"

text \<open>The default data is the default variant, the integer 0.\<close>

definition Token_of :: "token_type \<Rightarrow> token" where
  "Token_of t = Token t (VInt 0)"

definition tok_valid :: "token \<Rightarrow> bool" where
  "tok_valid t \<longleftrightarrow> tok_type t \<noteq> T_Invalid"

section \<open>Operators\<close>

definition UOP2 :: "char \<Rightarrow> char \<Rightarrow> byte" where
  "UOP2 a b = (of_char a - 32) + push_bit 2 (of_char b)"

definition NUL :: char where "NUL = CHR 0x00"
definition UOP_ALT :: char where "UOP_ALT = CHR 0x02"

definition UOP1 :: "char \<Rightarrow> byte" where
  "UOP1 a = UOP2 a NUL"

datatype operator =
  LeftParens | RightParens | BitAnd | LogicalAnd | BitOr | LogicalOr | Assign | Equality
| Inequality | LessThan | LessThanEqual | GreaterThan | GreaterThanEqual | Add | Subtract
| Multiply | Divide | Modulo | BitNot | LogicalNot | Negate

fun operator_chars :: "operator \<Rightarrow> char \<times> char" where
  "operator_chars LeftParens = (CHR ''('', NUL)"
| "operator_chars RightParens = (CHR '')'', NUL)"
| "operator_chars BitAnd = (CHR ''&'', NUL)"
| "operator_chars LogicalAnd = (CHR ''&'', CHR ''&'')"
| "operator_chars BitOr = (CHR ''|'', NUL)"
| "operator_chars LogicalOr = (CHR ''|'', CHR ''|'')"
| "operator_chars Assign = (CHR ''='', NUL)"
| "operator_chars Equality = (CHR ''='', CHR ''='')"
| "operator_chars Inequality = (CHR ''!'', CHR ''='')"
| "operator_chars LessThan = (CHR ''<'', NUL)"
| "operator_chars LessThanEqual = (CHR ''<'', CHR ''='')"
| "operator_chars GreaterThan = (CHR ''>'', NUL)"
| "operator_chars GreaterThanEqual = (CHR ''>'', CHR ''='')"
| "operator_chars Add = (CHR ''+'', NUL)"
| "operator_chars Subtract = (CHR ''-'', NUL)"
| "operator_chars Multiply = (CHR ''*'', NUL)"
| "operator_chars Divide = (CHR ''/'', NUL)"
| "operator_chars Modulo = (CHR ''%'', NUL)"
| "operator_chars BitNot = (CHR ''~'', NUL)"
| "operator_chars LogicalNot = (CHR ''!'', NUL)"
| "operator_chars Negate = (CHR ''-'', UOP_ALT)"

definition operator_code :: "operator \<Rightarrow> byte" where
  "operator_code p = (case operator_chars p of (a, b) \<Rightarrow> UOP2 a b)"

datatype operator_assoc = ASSOC_NONE | ASSOC_RIGHT | ASSOC_LEFT
datatype operator_args = OP_UNARY | OP_BINARY

record operator_info =
  oi_op :: byte
  oi_args :: operator_args
  oi_prec :: int
  oi_assoc :: operator_assoc

definition op_entry :: "operator \<Rightarrow> operator_args \<Rightarrow> int \<Rightarrow> operator_assoc \<Rightarrow> operator_info" where
  "op_entry p a n s = \<lparr>oi_op = operator_code p, oi_args = a, oi_prec = n, oi_assoc = s\<rparr>"

definition op_info_table :: "operator_info list" where
  "op_info_table = [
     op_entry LeftParens OP_BINARY 0 ASSOC_NONE,
     op_entry RightParens OP_BINARY 0 ASSOC_NONE,
     op_entry BitAnd OP_BINARY 2 ASSOC_RIGHT,
     op_entry LogicalAnd OP_BINARY 2 ASSOC_RIGHT,
     op_entry BitOr OP_BINARY 2 ASSOC_RIGHT,
     op_entry LogicalOr OP_BINARY 2 ASSOC_RIGHT,
     op_entry Equality OP_BINARY 3 ASSOC_RIGHT,
     op_entry Inequality OP_BINARY 3 ASSOC_RIGHT,
     op_entry LessThan OP_BINARY 3 ASSOC_RIGHT,
     op_entry LessThanEqual OP_BINARY 3 ASSOC_RIGHT,
     op_entry GreaterThan OP_BINARY 3 ASSOC_RIGHT,
     op_entry GreaterThanEqual OP_BINARY 3 ASSOC_RIGHT,
     op_entry Add OP_BINARY 5 ASSOC_RIGHT,
     op_entry Subtract OP_BINARY 5 ASSOC_RIGHT,
     op_entry Multiply OP_BINARY 6 ASSOC_RIGHT,
     op_entry Divide OP_BINARY 6 ASSOC_RIGHT,
     op_entry Modulo OP_BINARY 6 ASSOC_RIGHT,
     op_entry LogicalNot OP_UNARY 8 ASSOC_NONE,
     op_entry Negate OP_UNARY 8 ASSOC_NONE]"

text \<open>
  The table filled before \<open>main\<close>: an entry whose place is taken ends the program with
  \<open>std::logic_error\<close>. A place is taken when the code stored there is not 0.
\<close>

fun op_info_lut_init :: "operator_info list \<Rightarrow> (byte \<rightharpoonup> operator_info) \<Rightarrow>
    (byte \<rightharpoonup> operator_info) outcome" where
  "op_info_lut_init [] lut = Inr lut"
| "op_info_lut_init (i # is) lut =
     (if (case lut (oi_op i) of None \<Rightarrow> 0 | Some j \<Rightarrow> oi_op j) \<noteq> 0
      then Inl (Runtime_Error ''UOP2 hash collision'')
      else op_info_lut_init is (lut(oi_op i \<mapsto> i)))"

section \<open>Character classes\<close>

definition ctype :: "string \<Rightarrow> char \<Rightarrow> bool" where
  "ctype chars c \<longleftrightarrow> c \<in> set chars"

definition ctype_op :: "char \<Rightarrow> bool" where "ctype_op c = ctype ''()&|=!<>+-*/%&|!'' c"
definition ctype_symbol :: "char \<Rightarrow> bool" where "ctype_symbol c = ctype '';{}.,'' c"
definition ctype_whitespace :: "char \<Rightarrow> bool" where "ctype_whitespace c = is_c_space c"
definition ctype_alpha :: "char \<Rightarrow> bool" where
  "ctype_alpha c = (let n = (of_char c :: nat) in (65 \<le> n \<and> n \<le> 90) \<or> (97 \<le> n \<and> n \<le> 122))"
definition ctype_digit :: "char \<Rightarrow> bool" where "ctype_digit c = is_digit c"
definition ctype_alnum :: "char \<Rightarrow> bool" where "ctype_alnum c = (ctype_alpha c \<or> ctype_digit c)"
definition ctype_ident_start :: "char \<Rightarrow> bool" where
  "ctype_ident_start c = (ctype_alpha c \<or> c = CHR ''_'' \<or> c = CHR ''$'')"
definition ctype_ident :: "char \<Rightarrow> bool" where
  "ctype_ident c = (c \<noteq> CHR ''$'' \<and> (ctype_ident_start c \<or> ctype_digit c))"

definition check_op :: "char \<Rightarrow> char \<Rightarrow> bool" where
  "check_op a b =
     (if ctype ''()+'' a then b = NUL
      else if a = CHR ''&'' then b = NUL \<or> b = CHR ''&''
      else if a = CHR ''|'' then b = NUL \<or> b = CHR ''|''
      else if a = CHR ''-'' then b = NUL \<or> b = UOP_ALT
      else if ctype ''*/%'' a then b = NUL
      else if ctype ''<>!'' a then b = NUL \<or> b = CHR ''=''
      else if a = CHR ''='' then b = CHR ''=''
      else False)"

section \<open>The lexer\<close>

record lexer =
  input :: string
  row :: int
  col :: int
  lex_buffer :: "token list"

definition Lexer :: "string \<Rightarrow> lexer" where
  "Lexer text = \<lparr>input = text, row = 1, col = 0, lex_buffer = []\<rparr>"

definition PeekChar :: "lexer \<Rightarrow> char option" where
  "PeekChar lx = (case input lx of [] \<Rightarrow> None | c # _ \<Rightarrow> Some c)"

definition consumed :: "char \<Rightarrow> lexer \<Rightarrow> lexer" where
  "consumed c lx =
     (let lx = lx\<lparr>input := tl (input lx), col := col lx + 1\<rparr>
      in if c = CHR 0x0A then
           lx\<lparr>lex_buffer := lex_buffer lx @ [Token_of T_NewLine], row := row lx + 1, col := 0\<rparr>
         else lx)"

definition GetChar_in :: "lexer \<Rightarrow> (char \<times> lexer) option" where
  "GetChar_in lx = (case input lx of [] \<Rightarrow> None | c # _ \<Rightarrow> Some (c, consumed c lx))"

lemma consumed_simps [simp]:
  "input (consumed c lx) = tl (input lx)"
  "lex_buffer (consumed c lx) =
     lex_buffer lx @ (if c = CHR 0x0A then [Token_of T_NewLine] else [])"
  by (simp_all add: consumed_def Let_def)

lemma GetChar_in_simps [simp]:
  "input lx = [] \<Longrightarrow> GetChar_in lx = None"
  "input lx = c # cs \<Longrightarrow> GetChar_in lx = Some (c, consumed c lx)"
  by (simp_all add: GetChar_in_def)

definition GetCharIf :: "(char \<Rightarrow> bool) \<Rightarrow> lexer \<Rightarrow> (char \<times> lexer) option" where
  "GetCharIf f lx =
     (case PeekChar lx of
        None \<Rightarrow> None
      | Some cc \<Rightarrow> if f cc then GetChar_in lx else None)"

lemma GetChar_in_shorter: "GetChar_in lx = Some (c, lx') \<Longrightarrow> length (input lx') < length (input lx)"
  by (cases "input lx") auto

lemma GetCharIf_shorter: "GetCharIf f lx = Some (c, lx') \<Longrightarrow> length (input lx') < length (input lx)"
  by (auto simp: GetCharIf_def split: option.splits if_splits dest: GetChar_in_shorter)

text \<open>\<open>while (GetCharIf (c, f)) ...\<close>, with the characters read.\<close>

function get_while :: "(char \<Rightarrow> bool) \<Rightarrow> lexer \<Rightarrow> string \<times> lexer" where
  "get_while f lx =
     (case GetCharIf f lx of
        None \<Rightarrow> ([], lx)
      | Some (c, lx) \<Rightarrow> (case get_while f lx of (cs, lx) \<Rightarrow> (c # cs, lx)))"
  by pat_completeness auto
termination
  by (relation "measure (\<lambda>(f, lx). length (input lx))") (auto dest: GetCharIf_shorter)

declare get_while.simps [simp del, loop_simps]

text \<open>\<open>ReadNumber\<close>: the sum after the clamped product does not fit when the number is too big.\<close>

definition number_step :: "int \<Rightarrow> char \<Rightarrow> int outcome" where
  "number_step number c =
     (let number = (if number > INT_MAX div 10 then INT_MAX else number)
      in bind_out (int_result (number * 10)) (\<lambda>number.
         int_result (number + int (digit_value c))))"

fun number_fold :: "int \<Rightarrow> string \<Rightarrow> int outcome" where
  "number_fold number [] = Inr number"
| "number_fold number (c # cs) = bind_out (number_step number c) (\<lambda>number. number_fold number cs)"

type_synonym lexed = "eo_error + token \<times> lexer"

definition invalid_token :: token where
  "invalid_token = Token_of T_Invalid"

definition ReadNumber :: "lexer \<Rightarrow> lexed" where
  "ReadNumber lx =
     (case GetCharIf ctype_digit lx of
        None \<Rightarrow> Inr (invalid_token, lx)
      | Some (c, lx) \<Rightarrow>
          (case get_while ctype_digit lx of
             (cs, lx) \<Rightarrow>
               (case number_fold (int (digit_value c)) cs of
                  Inl e \<Rightarrow> Inl (Undefined e)
                | Inr number \<Rightarrow> Inr (Token T_Integer (VInt number), lx))))"

function read_string_loop :: "bool \<Rightarrow> string \<Rightarrow> lexer \<Rightarrow> eo_error + string \<times> lexer" where
  "read_string_loop escape s lx =
     (case GetChar_in lx of
        None \<Rightarrow> Inr (s, lx)
      | Some (c, lx) \<Rightarrow>
          (if escape then read_string_loop False (s @ [c]) lx
           else if c = CHR 0x5C then read_string_loop True s lx
           else if c = CHR 0x22 then Inr (s, lx)
           else if c = CHR 0x0A then
             Inl (Lexer_Error ''Unterminated string on previous line'' (row lx) (col lx))
           else read_string_loop escape (s @ [c]) lx))"
  by pat_completeness auto
termination
  by (relation "measure (\<lambda>(e, s, lx). length (input lx))") (auto dest: GetChar_in_shorter)

declare read_string_loop.simps [simp del, loop_simps]

definition ReadString :: "lexer \<Rightarrow> lexed" where
  "ReadString lx =
     (case GetCharIf (\<lambda>c. c = CHR 0x22) lx of
        None \<Rightarrow> Inr (invalid_token, lx)
      | Some (c, lx) \<Rightarrow>
          bind_out (read_string_loop False '''' lx) (\<lambda>(s, lx). Inr (Token T_String (VString s), lx)))"

definition ReadIdentifier :: "lexer \<Rightarrow> token \<times> lexer" where
  "ReadIdentifier lx =
     (case GetCharIf ctype_ident_start lx of
        None \<Rightarrow> (invalid_token, lx)
      | Some (c, lx) \<Rightarrow>
          (case get_while ctype_ident lx of
             (cs, lx) \<Rightarrow>
               (let s = lowercase (c # cs)
                in if s = ''true'' \<or> s = ''false'' then (Token T_Boolean (VBool (s = ''true'')), lx)
                   else (Token T_Identifier (VString s), lx))))"

definition ReadSymbol :: "lexer \<Rightarrow> token \<times> lexer" where
  "ReadSymbol lx =
     (case GetCharIf ctype_symbol lx of
        None \<Rightarrow> (invalid_token, lx)
      | Some (c, lx) \<Rightarrow> (Token T_Symbol (VString [c]), lx))"

definition operator_token :: "char \<Rightarrow> char \<Rightarrow> token" where
  "operator_token a b = Token T_Operator (VInt (uint (UOP2 a b)))"

definition ReadOperator :: "lexer \<Rightarrow> token \<times> lexer" where
  "ReadOperator lx =
     (case GetCharIf ctype_op lx of
        None \<Rightarrow> (invalid_token, lx)
      | Some (c, lx) \<Rightarrow>
          (let cc = case_option NUL id (PeekChar lx);
               (cc, lx) = (if check_op c cc then case_option (cc, lx) id (GetCharIf ctype_op lx)
                           else (cc, lx))
           in if check_op c cc then (operator_token c cc, lx)
              else if check_op c NUL then (operator_token c NUL, lx)
              else (invalid_token, lx)))"

text \<open>
  The loop over a line comment: at the end of the input \<open>GetChar\<close> leaves its argument alone,
  so the loop goes on. \<open>None\<close> is not returning.
\<close>

partial_function (option) skip_comment :: "char \<Rightarrow> lexer \<Rightarrow> lexer option" where
  "skip_comment c lx =
     (if c = CHR 0x0A then Some lx
      else if GetChar_in lx = None then skip_comment c lx
      else skip_comment (fst (the (GetChar_in lx))) (snd (the (GetChar_in lx))))"

lemma skip_comment_newline:
  "skip_comment c lx = Some lx' \<Longrightarrow> c = CHR 0x0A \<or> CHR 0x0A \<in> set (input lx)"
proof (rule skip_comment.raw_induct
    [where P = "\<lambda>c lx lx'. c = CHR 0x0A \<or> CHR 0x0A \<in> set (input lx)"])
  fix f c lx lx'
  assume IH: "\<And>c lx lx'. f c lx = Some lx' \<Longrightarrow> c = CHR 0x0A \<or> CHR 0x0A \<in> set (input lx)"
    and step: "(if c = CHR 0x0A then Some lx
      else if GetChar_in lx = None then f c lx
      else f (fst (the (GetChar_in lx))) (snd (the (GetChar_in lx)))) = Some lx'"
  show "c = CHR 0x0A \<or> CHR 0x0A \<in> set (input lx)"
  proof (cases "input lx")
    case Nil
    then show ?thesis using step IH [of c lx lx'] by (auto simp: GetChar_in_def split: if_splits)
  next
    case (Cons d ds)
    then show ?thesis
      using step IH [of d "snd (the (GetChar_in lx))" lx']
      by (auto simp: GetChar_in_def Let_def split: if_splits)
  qed
qed

text \<open>What the lexer does with a part of its input that holds no newline, or ends with one.\<close>

fun skip_line :: "lexer \<Rightarrow> nat \<Rightarrow> lexer" where
  "skip_line lx 0 = lx"
| "skip_line lx (Suc n) = (case GetChar_in lx of None \<Rightarrow> lx | Some (c, lx) \<Rightarrow> skip_line lx n)"

lemma skip_comment_line:
  "CHR 0x0A \<notin> set w \<Longrightarrow> input lx = w @ CHR 0x0A # r \<Longrightarrow> c \<noteq> CHR 0x0A \<Longrightarrow>
   skip_comment c lx = Some (skip_line lx (Suc (length w)))"
proof (induction w arbitrary: c lx)
  case Nil
  then show ?case
    by (simp add: skip_comment.simps [of c] skip_comment.simps [of "CHR 0x0A"])
next
  case (Cons d w)
  have get: "GetChar_in lx = Some (d, consumed d lx)" using Cons.prems by simp
  then have "skip_comment c lx = skip_comment d (consumed d lx)"
    using Cons.prems by (subst skip_comment.simps) simp
  also have "\<dots> = Some (skip_line (consumed d lx) (Suc (length w)))"
    using Cons.prems by (intro Cons.IH) auto
  finally show ?case using get by simp
qed

lemma skip_line_input: "input (skip_line lx n) = drop n (input lx)"
proof (induction n arbitrary: lx)
  case (Suc n)
  then show ?case by (cases "input lx") auto
qed simp

lemma skip_comment_shorter:
  assumes "skip_comment c lx = Some lx'" "c \<noteq> CHR 0x0A"
  shows "length (input lx') < length (input lx)"
proof -
  obtain w r where "input lx = w @ CHR 0x0A # r" "CHR 0x0A \<notin> set w"
    using skip_comment_newline [OF assms(1)] assms(2) by (auto dest: split_list_first)
  then show ?thesis
    using skip_comment_line [of w lx r c] assms skip_line_input [of lx "Suc (length w)"] by auto
qed

section \<open>Progress of the lexer\<close>

text \<open>Every character read makes the lexer smaller, a newline put in the queue included.\<close>

definition lex_size :: "lexer \<Rightarrow> nat" where
  "lex_size lx = 2 * length (input lx) + length (lex_buffer lx)"

lemma GetChar_in_size: "GetChar_in lx = Some (c, lx') \<Longrightarrow> lex_size lx' < lex_size lx"
  by (cases "input lx") (auto simp: lex_size_def)

lemma GetCharIf_size: "GetCharIf f lx = Some (c, lx') \<Longrightarrow> lex_size lx' < lex_size lx"
  by (auto simp: GetCharIf_def split: option.splits if_splits dest: GetChar_in_size)

lemma get_while_size: "lex_size (snd (get_while f lx)) \<le> lex_size lx"
proof (induction f lx rule: get_while.induct)
  case (1 f lx)
  show ?case
  proof (cases "GetCharIf f lx")
    case None
    then show ?thesis by (simp add: get_while.simps)
  next
    case (Some p)
    obtain c lx' where p: "p = (c, lx')" by (cases p)
    have "lex_size (snd (get_while f lx')) \<le> lex_size lx'" using 1 Some p by blast
    moreover have "lex_size lx' < lex_size lx" using GetCharIf_size Some p by blast
    ultimately show ?thesis
      using Some p by (cases "get_while f lx'") (subst get_while.simps, simp)
  qed
qed

lemma get_while_stop: "case PeekChar (snd (get_while f lx)) of None \<Rightarrow> True | Some c \<Rightarrow> \<not> f c"
proof (induction f lx rule: get_while.induct)
  case (1 f lx)
  show ?case
  proof (cases "GetCharIf f lx")
    case None
    then show ?thesis
      by (subst get_while.simps)
        (auto simp: GetCharIf_def GetChar_in_def PeekChar_def split: option.splits list.splits if_splits)
  next
    case (Some p)
    then show ?thesis using 1 by (subst get_while.simps) (auto split: prod.splits)
  qed
qed

lemma ReadOperator_size: "lex_size (snd (ReadOperator lx)) \<le> lex_size lx"
  by (auto simp: ReadOperator_def Let_def split: option.splits prod.splits
      dest!: GetCharIf_size)

lemma skip_line_size: "lex_size (skip_line lx n) \<le> lex_size lx"
proof (induction n arbitrary: lx)
  case (Suc n)
  show ?case
  proof (cases "input lx")
    case (Cons c cs)
    then show ?thesis
      using GetChar_in_size [of lx c "consumed c lx"] Suc [of "consumed c lx"] by simp
  qed simp
qed simp

lemma skip_comment_size:
  assumes "skip_comment c lx = Some lx'" "c \<noteq> CHR 0x0A"
  shows "lex_size lx' < lex_size lx"
proof -
  obtain w r where w: "input lx = w @ CHR 0x0A # r" "CHR 0x0A \<notin> set w"
    using skip_comment_newline [OF assms(1)] assms(2) by (auto dest: split_list_first)
  then have lx': "lx' = skip_line lx (Suc (length w))"
    using skip_comment_line [of w lx r c] assms by auto
  have "input lx \<noteq> []" using w by simp
  then obtain d lx1 where "GetChar_in lx = Some (d, lx1)" by (cases "input lx") auto
  then show ?thesis
    using skip_line_size [of lx1 "length w"] GetChar_in_size [of lx d lx1] by (simp add: lx')
qed

lemma ctype_op_not_newline: "ctype_op c \<Longrightarrow> c \<noteq> CHR 0x0A"
  by (auto simp: ctype_op_def ctype_def)

section \<open>Reading tokens\<close>

definition known_token :: "token \<times> lexer \<Rightarrow> lexed" where
  "known_token r =
     (case r of (token, lx) \<Rightarrow>
        if tok_type token = T_Invalid then Inl (Lexer_Error ''Unknown token'' (row lx) (col lx))
        else Inr (token, lx))"

definition slash_code :: int where
  "slash_code = uint (UOP1 (CHR ''/''))"

function ReadToken :: "lexer \<Rightarrow> lexed" where
  "ReadToken lx =
     (let lx = snd (get_while ctype_whitespace lx)
      in case lex_buffer lx of
           token # rest \<Rightarrow> Inr (token, lx\<lparr>lex_buffer := rest\<rparr>)
         | [] \<Rightarrow>
             (case PeekChar lx of
                None \<Rightarrow> Inr (Token_of T_EndOfFile, lx)
              | Some c \<Rightarrow>
                  (if ctype_digit c then bind_out (ReadNumber lx) known_token
                   else if ctype_ident_start c then known_token (ReadIdentifier lx)
                   else if ctype_symbol c then known_token (ReadSymbol lx)
                   else if ctype_op c then
                     (let (token, lx) = ReadOperator lx
                      in if as_int (tok_data token) = Inr slash_code \<and> PeekChar lx = Some (CHR ''/'')
                         then (case skip_comment c lx of
                                 None \<Rightarrow> Inl Never_Returns
                               | Some lx \<Rightarrow> ReadToken lx)
                         else known_token (token, lx))
                   else if c = CHR 0x22 then bind_out (ReadString lx) known_token
                   else known_token (invalid_token, lx))))"
  by pat_completeness auto
termination
proof (relation "measure lex_size", goal_cases)
  case (2 lx lx1 c x token lx2 lx3)
  then have "lex_size lx3 < lex_size lx2"
    using skip_comment_size [of c lx2 lx3] ctype_op_not_newline by blast
  moreover have "ReadOperator lx1 = (token, lx2)" using 2 by simp
  then have "lex_size lx2 \<le> lex_size lx1" using ReadOperator_size [of lx1] by simp
  moreover have "lex_size lx1 \<le> lex_size lx" using get_while_size 2 by simp
  ultimately show ?case by simp
qed simp

declare ReadToken.simps [simp del, loop_simps]

text \<open>A reader that returns a token has read at least one character.\<close>

lemma get_while_le: "get_while f lx = (cs, lx') \<Longrightarrow> lex_size lx' \<le> lex_size lx"
  using get_while_size [of f lx] by simp

lemma ReadNumber_size:
  "ReadNumber lx = Inr (t, lx') \<Longrightarrow> tok_type t \<noteq> T_Invalid \<Longrightarrow> lex_size lx' < lex_size lx"
  by (auto simp: ReadNumber_def invalid_token_def Token_of_def Token_def
      split: option.splits prod.splits sum.splits dest!: GetCharIf_size get_while_le)

lemma ReadIdentifier_size:
  "ReadIdentifier lx = (t, lx') \<Longrightarrow> tok_type t \<noteq> T_Invalid \<Longrightarrow> lex_size lx' < lex_size lx"
  by (auto simp: ReadIdentifier_def invalid_token_def Token_of_def Token_def Let_def
      split: option.splits prod.splits if_splits dest!: GetCharIf_size get_while_le)

lemma ReadSymbol_size:
  "ReadSymbol lx = (t, lx') \<Longrightarrow> tok_type t \<noteq> T_Invalid \<Longrightarrow> lex_size lx' < lex_size lx"
  by (auto simp: ReadSymbol_def invalid_token_def Token_of_def Token_def
      split: option.splits dest!: GetCharIf_size)

lemma ReadOperator_size_less:
  "ReadOperator lx = (t, lx') \<Longrightarrow> tok_type t \<noteq> T_Invalid \<Longrightarrow> lex_size lx' < lex_size lx"
  by (auto simp: ReadOperator_def invalid_token_def Token_of_def Token_def Let_def
      split: option.splits if_splits dest!: GetCharIf_size)

lemma read_string_loop_size:
  "read_string_loop e s lx = Inr (s', lx') \<Longrightarrow> lex_size lx' \<le> lex_size lx"
proof (induction e s lx rule: read_string_loop.induct)
  case (1 e s lx)
  show ?case
  proof (cases "input lx")
    case Nil
    then show ?thesis using "1.prems" by (simp add: read_string_loop.simps)
  next
    case (Cons c cs)
    then have get: "GetChar_in lx = Some (c, consumed c lx)" by simp
    have "lex_size lx' \<le> lex_size (consumed c lx)"
      using "1.prems" "1.IH" get by (subst (asm) read_string_loop.simps) (auto split: if_splits)
    then show ?thesis using GetChar_in_size [OF get] by simp
  qed
qed

lemma ReadString_size:
  "ReadString lx = Inr (t, lx') \<Longrightarrow> tok_type t \<noteq> T_Invalid \<Longrightarrow> lex_size lx' < lex_size lx"
  by (auto simp: ReadString_def invalid_token_def Token_of_def Token_def bind_out_Inr_iff
      split: option.splits dest!: GetCharIf_size read_string_loop_size)

lemma known_token_Inr:
  "known_token r = Inr (t, lx') \<longleftrightarrow> r = (t, lx') \<and> tok_type t \<noteq> T_Invalid"
  by (auto simp: known_token_def split: prod.splits if_splits)

lemma ReadToken_size:
  "ReadToken lx = Inr (t, lx') \<Longrightarrow> tok_type t \<noteq> T_EndOfFile \<Longrightarrow> lex_size lx' < lex_size lx"
proof (induction lx rule: ReadToken.induct)
  case (1 lx)
  let ?l = "snd (get_while ctype_whitespace lx)"
  have le: "lex_size ?l \<le> lex_size lx" by (rule get_while_size)
  show ?case
  proof (cases "lex_buffer ?l")
    case (Cons t' rest)
    then have "lx' = ?l\<lparr>lex_buffer := rest\<rparr>" using "1.prems" by (simp add: ReadToken.simps Let_def)
    then have "lex_size lx' < lex_size ?l" using Cons by (simp add: lex_size_def)
    then show ?thesis using le by simp
  next
    case Nil
    show ?thesis
    proof (cases "PeekChar ?l")
      case None
      then show ?thesis
        using "1.prems" Nil by (auto simp: ReadToken.simps Let_def Token_of_def Token_def)
    next
      case (Some c)
      obtain tok lx2 where op: "ReadOperator ?l = (tok, lx2)" by (cases "ReadOperator ?l")
      have "lex_size lx' < lex_size ?l"
      proof (cases "\<not> ctype_digit c \<and> \<not> ctype_ident_start c \<and> \<not> ctype_symbol c \<and> ctype_op c \<and>
          as_int (tok_data tok) = Inr slash_code \<and> PeekChar lx2 = Some (CHR ''/'')")
        case True
        then obtain lx3 where lx3: "skip_comment c lx2 = Some lx3" "ReadToken lx3 = Inr (t, lx')"
          using "1.prems" Nil Some op
          by (subst (asm) ReadToken.simps) (simp add: Let_def split: option.splits)
        have "lex_size lx' < lex_size lx3"
          using "1.IH" [OF refl Nil Some _ _ _ _ op [symmetric] refl _ lx3(1) lx3(2) "1.prems"(2)] True
          by blast
        also have "lex_size lx3 < lex_size lx2"
          using skip_comment_size [OF lx3(1)] True ctype_op_not_newline by blast
        also have "lex_size lx2 \<le> lex_size ?l" using ReadOperator_size [of ?l] op by simp
        finally show ?thesis .
      next
        case False
        then show ?thesis
          using "1.prems" Nil Some op
          by (subst (asm) ReadToken.simps)
            (auto simp: Let_def bind_out_Inr_iff known_token_Inr invalid_token_def Token_of_def
              Token_def split: if_splits
              dest: ReadNumber_size ReadIdentifier_size ReadSymbol_size ReadString_size
              ReadOperator_size_less)
      qed
      then show ?thesis using le by simp
    qed
  qed
qed

function Lex :: "lexer \<Rightarrow> eo_error + token list" where
  "Lex lx =
     (case ReadToken lx of
        Inl e \<Rightarrow> Inl e
      | Inr (t, lx) \<Rightarrow>
          (if tok_valid t \<and> tok_type t \<noteq> T_EndOfFile then
             bind_out (Lex lx) (\<lambda>ts. Inr (t # ts))
           else Inr [t]))"
  by pat_completeness auto
termination by (relation "measure lex_size") (auto dest: ReadToken_size)

declare Lex.simps [simp del, loop_simps]

definition lex_text :: "string \<Rightarrow> eo_error + token list" where
  "lex_text text = Lex (Lexer text)"

section \<open>The operator table\<close>

definition operators :: "operator list" where
  "operators = [LeftParens, RightParens, BitAnd, LogicalAnd, BitOr, LogicalOr, Assign, Equality,
     Inequality, LessThan, LessThanEqual, GreaterThan, GreaterThanEqual, Add, Subtract, Multiply,
     Divide, Modulo, BitNot, LogicalNot, Negate]"

lemma operator_codes:
  "map operator_code operators =
     [8, 9, 6, 158, 92, 76, 29, 17, 245, 28, 16, 30, 18, 11, 13, 10, 15, 5, 94, 1, 21]"
  by (simp add: operators_def operator_code_def UOP2_def NUL_def UOP_ALT_def push_bit_eq_mult)

lemma operator_in_list: "p \<in> set operators"
  by (cases p) (simp_all add: operators_def)

lemma operator_code_inj: "operator_code p = operator_code q \<longleftrightarrow> p = q"
proof -
  have "distinct (map operator_code operators)" unfolding operator_codes by simp
  then show ?thesis using operator_in_list by (metis distinct_map inj_on_def)
qed

lemma operator_code_nonzero: "operator_code p \<noteq> 0"
proof -
  have "operator_code p \<in> set (map operator_code operators)" using operator_in_list by simp
  then show ?thesis unfolding operator_codes by auto
qed

lemma op_info_lut_init_distinct:
  "distinct (map oi_op is) \<Longrightarrow> \<forall>i \<in> set is. oi_op i \<noteq> 0 \<and> lut (oi_op i) = None \<Longrightarrow>
   \<exists>lut'. op_info_lut_init is lut = Inr lut' \<and> (\<forall>i \<in> set is. lut' (oi_op i) = Some i) \<and>
     (\<forall>b. b \<notin> oi_op ` set is \<longrightarrow> lut' b = lut b)"
proof (induction "is" arbitrary: lut)
  case (Cons i "is")
  let ?l = "lut(oi_op i \<mapsto> i)"
  have fresh: "\<forall>j \<in> set is. oi_op j \<noteq> 0 \<and> ?l (oi_op j) = None" "oi_op i \<notin> oi_op ` set is"
    using Cons.prems by (auto simp: image_iff)
  have d: "distinct (map oi_op is)" using Cons.prems(1) by simp
  obtain lut' where lut': "op_info_lut_init is ?l = Inr lut'"
    "\<forall>j \<in> set is. lut' (oi_op j) = Some j" "\<forall>b. b \<notin> oi_op ` set is \<longrightarrow> lut' b = ?l b"
    using Cons.IH [OF d fresh(1)] by blast
  have "op_info_lut_init (i # is) lut = Inr lut'" using lut'(1) Cons.prems(2) by simp
  moreover have "lut' (oi_op i) = Some i" using lut'(3) fresh(2) by simp
  moreover have "\<forall>b. b \<notin> oi_op ` set (i # is) \<longrightarrow> lut' b = lut b" using lut'(3) by simp
  ultimately show ?case using lut'(2) by simp
qed simp

text \<open>
  The operator codes, computed in one byte from the two characters of an operator, are
  different for different operators, and so filling the table of operator information ends
  without a collision and leaves each entry in its place.
\<close>

theorem operator_codes_unique:
  "(operator_code p = operator_code q) = (p = q) \<and>
   (\<exists>lut. op_info_lut_init op_info_table Map.empty = Inr lut \<and>
      list_all (\<lambda>i. lut (oi_op i) = Some i) op_info_table)"
proof -
  have codes: "\<exists>ps. map oi_op op_info_table = map operator_code ps \<and> distinct ps"
    by (rule exI [of _ "[LeftParens, RightParens, BitAnd, LogicalAnd, BitOr, LogicalOr, Equality,
        Inequality, LessThan, LessThanEqual, GreaterThan, GreaterThanEqual, Add, Subtract,
        Multiply, Divide, Modulo, LogicalNot, Negate]"])
      (simp add: op_info_table_def op_entry_def)
  then obtain ps where ps: "map oi_op op_info_table = map operator_code ps" "distinct ps" by blast
  then have "distinct (map oi_op op_info_table)"
    by (simp add: distinct_map inj_on_def operator_code_inj)
  moreover have "oi_op i \<noteq> 0" if "i \<in> set op_info_table" for i
  proof -
    have "oi_op i \<in> set (map operator_code ps)" using that ps(1) by (metis image_eqI set_map)
    then show ?thesis using operator_code_nonzero by auto
  qed
  ultimately show ?thesis
    using op_info_lut_init_distinct [of op_info_table Map.empty]
    by (auto simp: operator_code_inj list_all_iff)
qed

section \<open>Where the lexer returns\<close>

lemma GetChar_in_suffix: "GetChar_in lx = Some (c, lx') \<Longrightarrow> suffix (input lx') (input lx)"
  by (cases "input lx") (auto simp: suffix_def)

lemma GetCharIf_suffix: "GetCharIf f lx = Some (c, lx') \<Longrightarrow> suffix (input lx') (input lx)"
  by (auto simp: GetCharIf_def split: option.splits if_splits dest: GetChar_in_suffix)

lemma get_while_suffix: "suffix (input (snd (get_while f lx))) (input lx)"
proof (induction f lx rule: get_while.induct)
  case (1 f lx)
  show ?case
  proof (cases "GetCharIf f lx")
    case None
    then show ?thesis by (simp add: get_while.simps)
  next
    case (Some p)
    obtain c lx' where p: "p = (c, lx')" by (cases p)
    have "suffix (input (snd (get_while f lx'))) (input lx')" using 1 Some p by blast
    moreover have "suffix (input lx') (input lx)" using GetCharIf_suffix Some p by blast
    ultimately show ?thesis
      using Some p by (cases "get_while f lx'") (subst get_while.simps, simp add: suffix_order.trans)
  qed
qed

lemma get_while_suffix': "get_while f lx = (cs, lx') \<Longrightarrow> suffix (input lx') (input lx)"
  using get_while_suffix [of f lx] by simp

lemma skip_comment_suffix:
  assumes "skip_comment c lx = Some lx'" "c \<noteq> CHR 0x0A"
  shows "suffix (input lx') (input lx)"
proof -
  obtain w r where w: "input lx = w @ CHR 0x0A # r" "CHR 0x0A \<notin> set w"
    using skip_comment_newline [OF assms(1)] assms(2) by (auto dest: split_list_first)
  then have "lx' = skip_line lx (Suc (length w))"
    using skip_comment_line [of w lx r c] assms by auto
  then show ?thesis by (metis skip_line_input suffix_drop)
qed

lemma read_string_loop_suffix:
  "read_string_loop e s lx = Inr (s', lx') \<Longrightarrow> suffix (input lx') (input lx)"
proof (induction e s lx rule: read_string_loop.induct)
  case (1 e s lx)
  show ?case
  proof (cases "input lx")
    case Nil
    then show ?thesis using "1.prems" by (simp add: read_string_loop.simps)
  next
    case (Cons c cs)
    then have get: "GetChar_in lx = Some (c, consumed c lx)" by simp
    have "suffix (input lx') (input (consumed c lx))"
      using "1.prems" "1.IH" get by (subst (asm) read_string_loop.simps) (auto split: if_splits)
    then show ?thesis using GetChar_in_suffix [OF get] suffix_order.trans by blast
  qed
qed

lemma reader_suffix:
  "ReadNumber lx = Inr (t, lx') \<Longrightarrow> suffix (input lx') (input lx)"
  "ReadIdentifier lx = (t, lx') \<Longrightarrow> suffix (input lx') (input lx)"
  "ReadSymbol lx = (t, lx') \<Longrightarrow> suffix (input lx') (input lx)"
  "ReadOperator lx = (t, lx') \<Longrightarrow> suffix (input lx') (input lx)"
  "ReadString lx = Inr (t, lx') \<Longrightarrow> suffix (input lx') (input lx)"
  by (auto simp: ReadNumber_def ReadIdentifier_def ReadSymbol_def ReadOperator_def ReadString_def
      Let_def bind_out_Inr_iff
      split: option.splits prod.splits sum.splits if_splits
      dest!: GetCharIf_suffix get_while_suffix' read_string_loop_suffix
      intro: suffix_order.trans)

lemma bind_out_Inl: "bind_out m f = Inl e \<longleftrightarrow> m = Inl e \<or> (\<exists>x. m = Inr x \<and> f x = Inl e)"
  by (cases m) auto

lemma reader_not_endless:
  "ReadNumber lx \<noteq> Inl Never_Returns" "known_token r \<noteq> Inl Never_Returns"
  "ReadString lx \<noteq> Inl Never_Returns"
proof -
  have "read_string_loop e s l \<noteq> Inl Never_Returns" for e s l
  proof (induction e s l rule: read_string_loop.induct)
    case (1 e s lx)
    then show ?case by (subst read_string_loop.simps) (auto split: option.split)
  qed
  then show "ReadString lx \<noteq> Inl Never_Returns"
    by (auto simp: ReadString_def bind_out_Inl split: option.splits)
qed (auto simp: ReadNumber_def known_token_def split: option.split prod.split sum.split)

text \<open>What is left of the input after a token, and where reading a token does not return.\<close>

definition unended :: "string \<Rightarrow> bool" where
  "unended s \<longleftrightarrow> (\<exists>r. suffix r s \<and> r \<noteq> [] \<and> CHR 0x0A \<notin> set r)"

lemma unended_suffix: "suffix r s \<Longrightarrow> unended r \<Longrightarrow> unended s"
  unfolding unended_def by (blast intro: suffix_order.trans)

lemma ReadToken_rest:
  "(\<forall>t lx'. ReadToken lx = Inr (t, lx') \<longrightarrow> suffix (input lx') (input lx)) \<and>
   (ReadToken lx = Inl Never_Returns \<longrightarrow> unended (input lx))"
proof (induction lx rule: ReadToken.induct)
  case (1 lx)
  let ?l = "snd (get_while ctype_whitespace lx)"
  have suf: "suffix (input ?l) (input lx)" by (rule get_while_suffix)
  show ?case
  proof (cases "lex_buffer ?l")
    case (Cons t' rest)
    then show ?thesis using suf by (simp add: ReadToken.simps [of lx] Let_def)
  next
    case Nil
    show ?thesis
    proof (cases "PeekChar ?l")
      case None
      then show ?thesis using suf Nil by (simp add: ReadToken.simps [of lx] Let_def)
    next
      case (Some c)
      obtain tok lx2 where op: "ReadOperator ?l = (tok, lx2)" by (cases "ReadOperator ?l")
      have suf2: "suffix (input lx2) (input lx)"
        using reader_suffix(4) [OF op] suf suffix_order.trans by blast
      show ?thesis
      proof (cases "\<not> ctype_digit c \<and> \<not> ctype_ident_start c \<and> \<not> ctype_symbol c \<and> ctype_op c \<and>
          as_int (tok_data tok) = Inr slash_code \<and> PeekChar lx2 = Some (CHR ''/'')")
        case True
        then have step: "ReadToken lx = (case skip_comment c lx2 of
            None \<Rightarrow> Inl Never_Returns | Some lx3 \<Rightarrow> ReadToken lx3)"
          using Nil Some op by (subst ReadToken.simps) (simp add: Let_def)
        have c: "c \<noteq> CHR 0x0A" using True ctype_op_not_newline by blast
        show ?thesis
        proof (cases "skip_comment c lx2")
          case None
          have "CHR 0x0A \<notin> set (input lx2)"
            using None skip_comment_line [of _ lx2 _ c] c by (auto dest!: split_list_first)
          moreover have "input lx2 \<noteq> []" using True by (auto simp: PeekChar_def)
          ultimately show ?thesis using step None suf2 by (auto simp: unended_def)
        next
          case (Some lx3)
          have "suffix (input lx3) (input lx)"
            using skip_comment_suffix [OF Some c] suf2 suffix_order.trans by blast
          moreover have "(\<forall>t lx'. ReadToken lx3 = Inr (t, lx') \<longrightarrow> suffix (input lx') (input lx3)) \<and>
              (ReadToken lx3 = Inl Never_Returns \<longrightarrow> unended (input lx3))"
            using "1.IH" [OF refl Nil \<open>PeekChar ?l = Some c\<close> _ _ _ _ op [symmetric] refl _ Some] True
            by blast
          ultimately show ?thesis
            using step Some unended_suffix suffix_order.trans by (metis option.simps(5))
        qed
      next
        case False
        have "ReadToken lx = Inr (t, lx') \<Longrightarrow> suffix (input lx') (input ?l)" for t lx'
          using False Nil Some op
          by (subst (asm) ReadToken.simps)
            (auto simp: Let_def bind_out_Inr_iff known_token_Inr split: if_splits
              dest: reader_suffix)
        moreover have "ReadToken lx \<noteq> Inl Never_Returns"
          using False Nil Some op
          by (subst ReadToken.simps)
            (auto simp: Let_def bind_out_Inl reader_not_endless split: if_splits)
        ultimately show ?thesis using suf suffix_order.trans by blast
      qed
    qed
  qed
qed

lemma Lex_rest: "Lex lx = Inl Never_Returns \<Longrightarrow> unended (input lx)"
proof (induction lx rule: Lex.induct)
  case (1 lx)
  then show ?case
    using ReadToken_rest [of lx]
    by (subst (asm) (2) Lex.simps)
      (auto simp: bind_out_Inl split: sum.splits if_splits intro: unended_suffix)
qed

lemma comment_unended:
  assumes "CHR 0x0A \<notin> set w"
  shows "ReadToken (Lexer (''//'' @ w)) = Inl Never_Returns"
proof -
  let ?lx = "Lexer (''//'' @ w)"
  have "get_while ctype_whitespace ?lx = ([], ?lx)"
    by (subst get_while.simps)
      (simp add: GetCharIf_def PeekChar_def Lexer_def ctype_whitespace_def is_c_space_def)
  moreover have c: "\<not> ctype_digit (CHR ''/'')" "\<not> ctype_ident_start (CHR ''/'')"
    "\<not> ctype_symbol (CHR ''/'')" "ctype_op (CHR ''/'')" "\<not> check_op (CHR ''/'') (CHR ''/'')"
    "check_op (CHR ''/'') NUL"
    by (simp_all add: ctype_digit_def is_digit_def ctype_ident_start_def ctype_alpha_def
        ctype_symbol_def ctype_op_def ctype_def check_op_def NUL_def Let_def)
  let ?lx2 = "consumed (CHR ''/'') ?lx"
  have "ReadOperator ?lx = (operator_token (CHR ''/'') NUL, ?lx2)"
    using c by (simp add: ReadOperator_def GetCharIf_def PeekChar_def Lexer_def Let_def)
  moreover have "as_int (tok_data (operator_token (CHR ''/'') NUL)) = Inr slash_code"
    by (simp add: operator_token_def Token_def slash_code_def UOP1_def)
  moreover have "skip_comment (CHR ''/'') ?lx2 = None"
    using skip_comment_newline [of "CHR ''/''" ?lx2] assms
    by (cases "skip_comment (CHR ''/'') ?lx2") (auto simp: Lexer_def)
  ultimately show ?thesis
    using c by (subst ReadToken.simps) (simp add: PeekChar_def Lexer_def Let_def)
qed



section \<open>The text of a token list\<close>

fun escape_quoted :: "string \<Rightarrow> string" where
  "escape_quoted [] = []"
| "escape_quoted (c # cs) =
     (if c = CHR 0x22 \<or> c = CHR 0x5C then CHR 0x5C # c # escape_quoted cs
      else c # escape_quoted cs)"

definition ident :: "string \<Rightarrow> bool" where
  "ident s \<longleftrightarrow> s \<noteq> [] \<and> ctype_ident_start (hd s) \<and> (\<forall>c \<in> set (tl s). ctype_ident c) \<and>
     lowercase s = s \<and> s \<noteq> ''true'' \<and> s \<noteq> ''false''"

text \<open>The tokens that have a text: all the lexer returns but the end of the file.\<close>

inductive lexable :: "token \<Rightarrow> string \<Rightarrow> bool" where
  lexable_ident: "ident s \<Longrightarrow> lexable (Token T_Identifier (VString s)) s"
| lexable_integer: "int n \<le> INT_MAX \<Longrightarrow> lexable (Token T_Integer (VInt (int n))) (dec_digits n)"
| lexable_string: "CHR 0x0A \<notin> set s \<Longrightarrow>
     lexable (Token T_String (VString s)) (CHR 0x22 # escape_quoted s @ [CHR 0x22])"
| lexable_boolean: "lexable (Token T_Boolean (VBool b)) (if b then ''true'' else ''false'')"
| lexable_operator1: "check_op a NUL \<Longrightarrow> ctype_op a \<Longrightarrow> lexable (operator_token a NUL) [a]"
| lexable_operator2: "check_op a b \<Longrightarrow> ctype_op a \<Longrightarrow> ctype_op b \<Longrightarrow> lexable (operator_token a b) [a, b]"
| lexable_symbol: "ctype_symbol c \<Longrightarrow> lexable (Token T_Symbol (VString [c])) [c]"
| lexable_newline: "lexable (Token_of T_NewLine) [CHR 0x0A]"

definition tokens_text :: "string list \<Rightarrow> string" where
  "tokens_text ws = concat (map (\<lambda>w. w @ '' '') ws)"

lemma get_while_list:
  "\<forall>c \<in> set w. f c \<and> c \<noteq> CHR 0x0A \<Longrightarrow> input lx = w @ d # r \<Longrightarrow> \<not> f d \<Longrightarrow>
   \<exists>lx'. get_while f lx = (w, lx') \<and> input lx' = d # r \<and> lex_buffer lx' = lex_buffer lx"
proof (induction w arbitrary: lx)
  case Nil
  then show ?case by (simp add: get_while.simps GetCharIf_def PeekChar_def)
next
  case (Cons c w)
  have "GetCharIf f lx = Some (c, consumed c lx)"
    using Cons.prems by (simp add: GetCharIf_def PeekChar_def)
  moreover obtain lx' where "get_while f (consumed c lx) = (w, lx')" "input lx' = d # r"
    "lex_buffer lx' = lex_buffer (consumed c lx)"
    using Cons.IH [of "consumed c lx"] Cons.prems by auto
  ultimately show ?case using Cons.prems by (subst get_while.simps) simp
qed

lemma number_fold_value:
  assumes "foldl (\<lambda>n c. 10 * n + digit_value c) m cs \<le> nat INT_MAX"
  shows "number_fold (int m) cs = Inr (int (foldl (\<lambda>n c. 10 * n + digit_value c) m cs))"
  using assms
proof (induction cs arbitrary: m)
  case (Cons c cs)
  have "10 * m + digit_value c \<le> nat INT_MAX"
    using Cons.prems foldl_digits_mono [of "10 * m + digit_value c" cs] by simp
  then have "number_step (int m) c = Inr (int (10 * m + digit_value c))"
    by (auto simp: number_step_def int_result_def int_range_def INT_MAX_def INT_MIN_def Let_def)
  then show ?case
    using Cons.IH [of "10 * m + digit_value c"] Cons.prems by (simp del: of_nat_add of_nat_mult)
qed simp

lemma number_fold_overflow:
  assumes "m \<le> nat INT_MAX" "nat INT_MAX < foldl (\<lambda>n c. 10 * n + digit_value c) m cs"
  shows "number_fold (int m) cs = Inl Signed_Overflow"
  using assms
proof (induction cs arbitrary: m)
  case (Cons c cs)
  show ?case
  proof (cases "10 * m + digit_value c \<le> nat INT_MAX")
    case True
    then have "number_step (int m) c = Inr (int (10 * m + digit_value c))"
      by (auto simp: number_step_def int_result_def int_range_def INT_MAX_def INT_MIN_def Let_def)
    then show ?thesis
      using Cons.IH [of "10 * m + digit_value c"] Cons.prems True
      by (simp del: of_nat_add of_nat_mult)
  next
    case False
    then have "number_step (int m) c = Inl Signed_Overflow"
      by (auto simp: number_step_def int_result_def int_range_def INT_MAX_def INT_MIN_def Let_def)
    then show ?thesis by simp
  qed
qed simp

lemma ReadNumber_digits:
  assumes "int n \<le> INT_MAX" "input lx = dec_digits n @ CHR '' '' # r" "lex_buffer lx = []"
  shows "\<exists>lx'. ReadNumber lx = Inr (Token T_Integer (VInt (int n)), lx') \<and>
    input lx' = CHR '' '' # r \<and> lex_buffer lx' = []"
proof -
  obtain c cs where c: "dec_digits n = c # cs" by (cases "dec_digits n") auto
  then have dig: "is_digit c" "\<forall>d \<in> set cs. is_digit d" using dec_digits_digits [of n] by auto
  have nl: "d \<noteq> CHR 0x0A" if "is_digit d" for d using that by (auto simp: is_digit_def)
  have "GetCharIf ctype_digit lx = Some (c, consumed c lx)"
    using assms(2) c dig by (simp add: GetCharIf_def PeekChar_def ctype_digit_def)
  moreover obtain lx' where "get_while ctype_digit (consumed c lx) = (cs, lx')"
    "input lx' = CHR '' '' # r" "lex_buffer lx' = lex_buffer (consumed c lx)"
    using get_while_list [of cs ctype_digit "consumed c lx" "CHR '' ''" r] dig nl assms(2) c
    by (auto simp: ctype_digit_def is_digit_def)
  moreover have "number_fold (int (digit_value c)) cs = Inr (int n)"
  proof -
    have "foldl (\<lambda>n c. 10 * n + digit_value c) (digit_value c) cs = n"
      using dec_value_dec_digits [of n] c by (simp add: dec_value_def)
    then show ?thesis
      using number_fold_value [of "digit_value c" cs] assms(1) by (simp add: INT_MAX_def)
  qed
  ultimately show ?thesis using assms(3) nl [OF dig(1)] by (auto simp: ReadNumber_def)
qed

lemma read_string_escaped:
  "CHR 0x0A \<notin> set s \<Longrightarrow> input lx = escape_quoted s @ CHR 0x22 # r \<Longrightarrow>
   \<exists>lx'. read_string_loop False p lx = Inr (p @ s, lx') \<and> input lx' = r \<and>
     lex_buffer lx' = lex_buffer lx"
proof (induction s arbitrary: p lx)
  case Nil
  then show ?case by (subst read_string_loop.simps) simp
next
  case (Cons c s)
  show ?case
  proof (cases "c = CHR 0x22 \<or> c = CHR 0x5C")
    case True
    let ?lx1 = "consumed (CHR 0x5C) lx"
    have "input ?lx1 = c # escape_quoted s @ CHR 0x22 # r" using Cons.prems True by simp
    then have "read_string_loop False p lx = read_string_loop False (p @ [c]) (consumed c ?lx1)"
      using Cons.prems True
      by (subst read_string_loop.simps, simp, subst read_string_loop.simps, simp)
    moreover have "input (consumed c ?lx1) = escape_quoted s @ CHR 0x22 # r"
      using Cons.prems True by auto
    ultimately show ?thesis
      using Cons.IH [of "consumed c ?lx1" "p @ [c]"] Cons.prems True by auto
  next
    case False
    then have "read_string_loop False p lx = read_string_loop False (p @ [c]) (consumed c lx)"
      using Cons.prems by (subst read_string_loop.simps) auto
    then show ?thesis
      using Cons.IH [of "consumed c lx" "p @ [c]"] Cons.prems False by auto
  qed
qed

lemma ReadString_quoted:
  assumes "CHR 0x0A \<notin> set s" "input lx = CHR 0x22 # escape_quoted s @ CHR 0x22 # r"
    and "lex_buffer lx = []"
  shows "\<exists>lx'. ReadString lx = Inr (Token T_String (VString s), lx') \<and>
    input lx' = r \<and> lex_buffer lx' = []"
  using read_string_escaped [of s "consumed (CHR 0x22) lx" r "[]"] assms
  by (auto simp: ReadString_def GetCharIf_def PeekChar_def)

lemma ReadIdentifier_word:
  assumes "s \<noteq> []" "ctype_ident_start (hd s)" "\<forall>c \<in> set (tl s). ctype_ident c"
    and "input lx = s @ CHR '' '' # r" "lex_buffer lx = []"
  shows "\<exists>lx'. ReadIdentifier lx =
      (if lowercase s = ''true'' \<or> lowercase s = ''false''
       then Token T_Boolean (VBool (lowercase s = ''true''))
       else Token T_Identifier (VString (lowercase s)), lx') \<and>
    input lx' = CHR '' '' # r \<and> lex_buffer lx' = []"
proof -
  obtain c cs where c: "s = c # cs" using assms(1) by (cases s) auto
  have nl: "ctype_ident d \<Longrightarrow> d \<noteq> CHR 0x0A" "ctype_ident_start d \<Longrightarrow> d \<noteq> CHR 0x0A" for d
    by (auto simp: ctype_ident_def ctype_ident_start_def ctype_alpha_def ctype_digit_def is_digit_def Let_def)
  have "\<not> ctype_ident (CHR '' '')"
    by (simp add: ctype_ident_def ctype_ident_start_def ctype_alpha_def ctype_digit_def is_digit_def Let_def)
  then obtain lx' where "get_while ctype_ident (consumed c lx) = (cs, lx')"
    "input lx' = CHR '' '' # r" "lex_buffer lx' = lex_buffer (consumed c lx)"
    using get_while_list [of cs ctype_ident "consumed c lx" "CHR '' ''" r] assms c nl(1) by auto
  moreover have "GetCharIf ctype_ident_start lx = Some (c, consumed c lx)"
    using assms c by (simp add: GetCharIf_def PeekChar_def)
  ultimately show ?thesis
    using assms c nl(2) by (auto simp: ReadIdentifier_def Let_def)
qed

text \<open>A character that starts one kind of token starts no other.\<close>

lemma ctype_disjoint:
  "ctype_ident_start c \<Longrightarrow> \<not> ctype_digit c \<and> \<not> ctype_whitespace c"
  "ctype_digit c \<Longrightarrow> \<not> ctype_whitespace c"
  by (auto simp: ctype_ident_start_def ctype_alpha_def ctype_digit_def is_digit_def
      ctype_whitespace_def is_c_space_def Let_def)

lemma ctype_set_disjoint:
  "c \<in> set '';{}.,()&|=!<>+-*/%'' \<Longrightarrow>
     \<not> ctype_whitespace c \<and> \<not> ctype_digit c \<and> \<not> ctype_ident_start c"
  by (auto simp: ctype_ident_start_def ctype_alpha_def ctype_digit_def is_digit_def
      ctype_whitespace_def is_c_space_def Let_def)

lemma ctype_symbol_disjoint:
  "ctype_symbol c \<Longrightarrow> \<not> ctype_whitespace c \<and> \<not> ctype_digit c \<and> \<not> ctype_ident_start c"
  by (rule ctype_set_disjoint) (auto simp: ctype_symbol_def ctype_def)

lemma ctype_op_disjoint:
  "ctype_op c \<Longrightarrow> \<not> ctype_whitespace c \<and> \<not> ctype_digit c \<and> \<not> ctype_ident_start c"
  "ctype_op c \<Longrightarrow> \<not> ctype_symbol c"
  by (rule ctype_set_disjoint) (auto simp: ctype_op_def ctype_def ctype_symbol_def)

lemma check_op_space: "\<not> check_op a (CHR '' '')"
  by (simp add: check_op_def NUL_def UOP_ALT_def)

lemma check_op_pair: "check_op a b \<Longrightarrow> b \<noteq> NUL \<Longrightarrow> ctype_op b \<Longrightarrow> check_op a b \<and> \<not> (a = CHR ''/'')"
  by (auto simp: check_op_def ctype_def NUL_def split: if_splits)

lemma ReadOperator_one:
  assumes "check_op a NUL" "ctype_op a" "input lx = a # CHR '' '' # r" "lex_buffer lx = []"
  shows "\<exists>lx'. ReadOperator lx = (operator_token a NUL, lx') \<and> input lx' = CHR '' '' # r \<and>
    lex_buffer lx' = []"
  using assms check_op_space [of a] ctype_op_not_newline [OF assms(2)]
  by (simp add: ReadOperator_def GetCharIf_def PeekChar_def Let_def)

lemma ReadOperator_two:
  assumes "check_op a b" "ctype_op a" "ctype_op b" "input lx = a # b # CHR '' '' # r"
    "lex_buffer lx = []"
  shows "\<exists>lx'. ReadOperator lx = (operator_token a b, lx') \<and> input lx' = CHR '' '' # r \<and>
    lex_buffer lx' = []"
  using assms ctype_op_not_newline [OF assms(2)] ctype_op_not_newline [OF assms(3)]
  by (simp add: ReadOperator_def GetCharIf_def PeekChar_def Let_def)

lemma get_while_none:
  "PeekChar lx = Some c \<Longrightarrow> \<not> f c \<Longrightarrow> get_while f lx = ([], lx)"
  by (subst get_while.simps) (simp add: GetCharIf_def)

text \<open>Reading the first token, when no white space and no newline token is before it.\<close>

lemma ReadToken_lexable:
  assumes "lexable t w" "t \<noteq> Token_of T_NewLine" "input lx = w @ CHR '' '' # r" "lex_buffer lx = []"
  shows "\<exists>lx'. ReadToken lx = Inr (t, lx') \<and> input lx' = CHR '' '' # r \<and> lex_buffer lx' = []"
  using assms
proof (cases rule: lexable.cases)
  case lexable_ident
  then have s: "w \<noteq> []" "ctype_ident_start (hd w)" "\<forall>c \<in> set (tl w). ctype_ident c" "lowercase w = w"
    "w \<noteq> ''true''" "w \<noteq> ''false''" by (auto simp: ident_def)
  then obtain lx' where "ReadIdentifier lx = (t, lx')" "input lx' = CHR '' '' # r" "lex_buffer lx' = []"
    using ReadIdentifier_word [of w lx r] assms(3,4) lexable_ident by auto
  moreover have "PeekChar lx = Some (hd w)" using s(1) assms(3) lexable_ident
    by (cases w) (auto simp: PeekChar_def)
  ultimately show ?thesis
    using s(2) assms(4) ctype_disjoint(1) [OF s(2)] get_while_none [of lx "hd w" ctype_whitespace] lexable_ident
    by (subst ReadToken.simps) (simp add: known_token_def Token_def)
next
  case (lexable_integer n)
  then obtain lx' where "ReadNumber lx = Inr (t, lx')" "input lx' = CHR '' '' # r" "lex_buffer lx' = []"
    using ReadNumber_digits [of n lx r] assms(3,4) by auto
  moreover obtain c where "PeekChar lx = Some c" "ctype_digit c"
    using assms(3) lexable_integer dec_digits_digits [of n]
    by (cases "dec_digits n") (auto simp: PeekChar_def ctype_digit_def)
  ultimately show ?thesis
    using assms(4) ctype_disjoint(2) get_while_none [of lx c ctype_whitespace] lexable_integer
    by (subst ReadToken.simps) (simp add: known_token_def Token_def)
next
  case (lexable_string s)
  then obtain lx' where "ReadString lx = Inr (t, lx')" "input lx' = CHR '' '' # r" "lex_buffer lx' = []"
    using ReadString_quoted [of s lx "CHR '' '' # r"] assms(3,4) by auto
  moreover have "PeekChar lx = Some (CHR 0x22)" using assms(3) lexable_string by (simp add: PeekChar_def)
  moreover have "\<not> ctype_whitespace (CHR 0x22) \<and> \<not> ctype_digit (CHR 0x22) \<and>
      \<not> ctype_ident_start (CHR 0x22) \<and> \<not> ctype_symbol (CHR 0x22) \<and> \<not> ctype_op (CHR 0x22)"
    by (simp add: ctype_ident_start_def ctype_alpha_def ctype_digit_def is_digit_def ctype_symbol_def
        ctype_op_def ctype_def ctype_whitespace_def is_c_space_def Let_def)
  ultimately show ?thesis
    using assms(4) get_while_none [of lx "CHR 0x22" ctype_whitespace] lexable_string
    by (subst ReadToken.simps) (simp add: known_token_def Token_def)
next
  case (lexable_boolean b)
  let ?s = "if b then ''true'' else ''false''"
  have s: "?s \<noteq> []" "ctype_ident_start (hd ?s)" "\<forall>c \<in> set (tl ?s). ctype_ident c" "lowercase ?s = ?s"
    by (auto simp: ctype_ident_def ctype_ident_start_def ctype_alpha_def lowercase_def tolower_def Let_def)
  then obtain lx' where "ReadIdentifier lx = (t, lx')" "input lx' = CHR '' '' # r" "lex_buffer lx' = []"
    using ReadIdentifier_word [of ?s lx r] assms(3,4) lexable_boolean by (cases b) auto
  moreover have "PeekChar lx = Some (hd ?s)" using assms(3) lexable_boolean by (auto simp: PeekChar_def)
  ultimately show ?thesis
    using s(2) assms(4) ctype_disjoint(1) [OF s(2)] get_while_none [of lx "hd ?s" ctype_whitespace] lexable_boolean
    by (subst ReadToken.simps) (simp add: known_token_def Token_def)
next
  case (lexable_operator1 a)
  then obtain lx' where op: "ReadOperator lx = (t, lx')" "input lx' = CHR '' '' # r" "lex_buffer lx' = []"
    using ReadOperator_one [of a lx r] assms(3,4) by auto
  moreover have "PeekChar lx = Some a" using assms(3) lexable_operator1 by (simp add: PeekChar_def)
  ultimately show ?thesis
    using assms(4) ctype_op_disjoint [OF lexable_operator1(4)] lexable_operator1
      get_while_none [of lx a ctype_whitespace]
    by (subst ReadToken.simps) (simp add: known_token_def operator_token_def Token_def PeekChar_def)
next
  case (lexable_operator2 a b)
  then obtain lx' where op: "ReadOperator lx = (t, lx')" "input lx' = CHR '' '' # r" "lex_buffer lx' = []"
    using ReadOperator_two [of a b lx r] assms(3,4) by auto
  moreover have "PeekChar lx = Some a" using assms(3) lexable_operator2 by (simp add: PeekChar_def)
  ultimately show ?thesis
    using assms(4) ctype_op_disjoint [OF lexable_operator2(4)] lexable_operator2
      get_while_none [of lx a ctype_whitespace]
    by (subst ReadToken.simps) (simp add: known_token_def operator_token_def Token_def PeekChar_def)
next
  case (lexable_symbol c)
  then have "c \<noteq> CHR 0x0A" by (auto simp: ctype_symbol_def ctype_def)
  then have "ReadSymbol lx = (t, consumed c lx)" "PeekChar lx = Some c"
    using lexable_symbol assms(3) by (simp_all add: ReadSymbol_def GetCharIf_def PeekChar_def)
  then show ?thesis
    using assms(3,4) ctype_symbol_disjoint [OF lexable_symbol(3)] lexable_symbol \<open>c \<noteq> CHR 0x0A\<close>
      get_while_none [of lx c ctype_whitespace]
    by (subst ReadToken.simps) (simp add: known_token_def Token_def)
qed simp

lemma lexable_head:
  "lexable t w \<Longrightarrow> t \<noteq> Token_of T_NewLine \<Longrightarrow> w \<noteq> [] \<and> \<not> ctype_whitespace (hd w)"
proof (induction rule: lexable.induct)
  case (lexable_integer n)
  then show ?case
    using dec_digits_digits [of n] ctype_disjoint(2) [of "hd (dec_digits n)"]
    by (simp add: ctype_digit_def)
next
  case (lexable_string s)
  then show ?case by (simp add: ctype_whitespace_def is_c_space_def)
next
  case (lexable_boolean b)
  then show ?case by (simp add: ctype_whitespace_def is_c_space_def)
qed (auto simp: ident_def ctype_disjoint ctype_op_disjoint ctype_symbol_disjoint)

lemma Lex_whitespace:
  assumes "input lx = c # r" "ctype_whitespace c"
  shows "Lex lx = Lex (consumed c lx)"
proof -
  have "snd (get_while ctype_whitespace lx) = snd (get_while ctype_whitespace (consumed c lx))"
    using assms by (subst get_while.simps) (simp add: GetCharIf_def PeekChar_def split: prod.splits)
  then have "ReadToken lx = ReadToken (consumed c lx)"
    by (simp only: ReadToken.simps [of lx] ReadToken.simps [of "consumed c lx"])
  then show ?thesis by (simp only: Lex.simps [of lx] Lex.simps [of "consumed c lx"])
qed

lemma Lex_buffer:
  assumes "\<And>lx. input lx = i \<Longrightarrow> lex_buffer lx = [] \<Longrightarrow> Lex lx = Inr ts"
    and "i = [] \<or> \<not> ctype_whitespace (hd i)"
  shows "input lx = i \<Longrightarrow> lex_buffer lx = replicate k (Token_of T_NewLine) \<Longrightarrow>
    Lex lx = Inr (replicate k (Token_of T_NewLine) @ ts)"
proof (induction k arbitrary: lx)
  case (Suc k)
  have "get_while ctype_whitespace lx = ([], lx)"
    using assms(2) Suc.prems(1)
    by (subst get_while.simps) (auto simp: GetCharIf_def PeekChar_def split: list.splits)
  then have "ReadToken lx =
      Inr (Token_of T_NewLine, lx\<lparr>lex_buffer := replicate k (Token_of T_NewLine)\<rparr>)"
    using Suc.prems by (subst ReadToken.simps) simp
  moreover have "Lex (lx\<lparr>lex_buffer := replicate k (Token_of T_NewLine)\<rparr>) =
      Inr (replicate k (Token_of T_NewLine) @ ts)"
    using Suc.prems by (intro Suc.IH) auto
  ultimately show ?case
    by (subst Lex.simps) (simp add: tok_valid_def Token_of_def Token_def)
qed (use assms in simp)

lemma Lex_tokens:
  "list_all2 lexable ts ws \<Longrightarrow> input lx = tokens_text ws \<Longrightarrow>
   lex_buffer lx = replicate k (Token_of T_NewLine) \<Longrightarrow>
   Lex lx = Inr (replicate k (Token_of T_NewLine) @ ts @ [Token_of T_EndOfFile])"
proof (induction ts ws arbitrary: lx k rule: list_all2_induct)
  case Nil
  show ?case
  proof (rule Lex_buffer [of "[]"])
    fix lx :: lexer
    assume "input lx = []" "lex_buffer lx = []"
    then show "Lex lx = Inr ([] @ [Token_of T_EndOfFile])"
      by (simp add: Lex.simps ReadToken.simps get_while.simps GetCharIf_def PeekChar_def
          Token_of_def Token_def)
  qed (use Nil in \<open>auto simp: tokens_text_def\<close>)
next
  case (Cons t ts w ws)
  have inp: "input lx = w @ CHR '' '' # tokens_text ws"
    using Cons.prems(1) by (simp add: tokens_text_def)
  have sp: "ctype_whitespace (CHR '' '')" "ctype_whitespace (CHR 0x0A)"
    by (simp_all add: ctype_whitespace_def is_c_space_def)
  show ?case
  proof (cases "t = Token_of T_NewLine")
    case True
    have w: "w = [CHR 0x0A]"
      using Cons.hyps(1)
      by (cases rule: lexable.cases) (auto simp: True Token_of_def Token_def operator_token_def)
    let ?lx = "consumed (CHR '' '') (consumed (CHR 0x0A) lx)"
    have "Lex lx = Lex ?lx"
      using Lex_whitespace [of lx "CHR 0x0A" "CHR '' '' # tokens_text ws"]
        Lex_whitespace [of "consumed (CHR 0x0A) lx" "CHR '' ''" "tokens_text ws"] inp w sp by simp
    also have "\<dots> = Inr (replicate (Suc k) (Token_of T_NewLine) @ ts @ [Token_of T_EndOfFile])"
      using inp w Cons.prems(2) by (intro Cons.IH) (auto simp: replicate_append_same)
    finally show ?thesis using True by (simp add: replicate_app_Cons_same)
  next
    case False
    note head = lexable_head [OF Cons.hyps(1) False]
    show ?thesis
    proof (rule Lex_buffer [of "w @ CHR '' '' # tokens_text ws"])
      fix lx :: lexer
      assume lx: "input lx = w @ CHR '' '' # tokens_text ws" "lex_buffer lx = []"
      then obtain lx' where read: "ReadToken lx = Inr (t, lx')"
        and lx': "input lx' = CHR '' '' # tokens_text ws" "lex_buffer lx' = []"
        using ReadToken_lexable [OF Cons.hyps(1) False] by blast
      have "Lex lx' = Lex (consumed (CHR '' '') lx')" using Lex_whitespace lx' sp by blast
      also have "\<dots> = Inr (replicate 0 (Token_of T_NewLine) @ ts @ [Token_of T_EndOfFile])"
        using lx' by (intro Cons.IH) auto
      finally have "Lex lx' = Inr (ts @ [Token_of T_EndOfFile])" by simp
      moreover have "tok_valid t \<and> tok_type t \<noteq> T_EndOfFile"
        using Cons.hyps(1)
        by (cases rule: lexable.cases) (auto simp: tok_valid_def Token_of_def Token_def operator_token_def)
      ultimately show "Lex lx = Inr ((t # ts) @ [Token_of T_EndOfFile])"
        using read by (subst Lex.simps) simp
    qed (use head inp Cons.prems(2) in auto)
  qed
qed

lemma lex_text_tokens:
  assumes "list_all2 lexable ts ws"
  shows "lex_text (tokens_text ws) = Inr (ts @ [Token_of T_EndOfFile])"
  using Lex_tokens [OF assms, of "Lexer (tokens_text ws)" 0] by (simp add: lex_text_def Lexer_def)

text \<open>
  C30: The text of a list of tokens, each followed by a blank, is lexed to the list and the end of the
  file. Every token the lexer can return has such a text: identifiers in lower case, numbers
  up to the largest \<open>int\<close>, texts without newline, booleans, operators, symbols and newlines.
\<close>

theorem lex_tokens_text:
  assumes "list_all2 lexable ts ws"
  shows "lex_text (tokens_text ws) = Inr (ts @ [Token_of T_EndOfFile])"
  using assms by (rule lex_text_tokens)

lemma digit_chars:
  "digit_char 0 = CHR ''0''" "digit_char 1 = CHR ''1''" "digit_char 2 = CHR ''2''"
  "digit_char 3 = CHR ''3''" "digit_char 4 = CHR ''4''" "digit_char 5 = CHR ''5''"
  "digit_char 6 = CHR ''6''" "digit_char 7 = CHR ''7''" "digit_char 8 = CHR ''8''"
  "digit_char 9 = CHR ''9''"
  by code_simp+

theorem lex_tokens_text_witness:
  "lex_text (''rule '' @ [CHR 0x0A] @ '' ( 2147483647 ; '') =
    Inr [Token T_Identifier (VString ''rule''), Token_of T_NewLine, operator_token (CHR ''('') NUL,
         Token T_Integer (VInt 2147483647), Token T_Symbol (VString '';''), Token_of T_EndOfFile]"
proof -
  have "dec_digits 2147483647 = ''2147483647''"
    by (simp add: dec_digits.simps digit_chars digit_chars(2) [simplified])
  then have "lexable (Token T_Integer (VInt 2147483647)) ''2147483647''"
    using lexable_integer [of 2147483647] by (simp add: INT_MAX_def)
  moreover have "ident ''rule''"
    by (simp add: ident_def ctype_ident_start_def ctype_ident_def ctype_alpha_def lowercase_def
        tolower_def Let_def)
  then have "lexable (Token T_Identifier (VString ''rule'')) ''rule''" by (rule lexable_ident)
  moreover have "lexable (operator_token (CHR ''('') NUL) ''(''"
    by (rule lexable_operator1) (simp_all add: check_op_def ctype_op_def ctype_def)
  moreover have "lexable (Token T_Symbol (VString '';'')) '';''"
    by (rule lexable_symbol) (simp add: ctype_symbol_def ctype_def)
  ultimately show ?thesis
    using lex_tokens_text [of "[Token T_Identifier (VString ''rule''), Token_of T_NewLine,
        operator_token (CHR ''('') NUL, Token T_Integer (VInt 2147483647),
        Token T_Symbol (VString '';'')]" "[''rule'', [CHR 0x0A], ''('', ''2147483647'', '';'']"]
    by (simp add: tokens_text_def lexable_newline)
qed

end
