(* ===== verification/EOP_Parser.thy ===== *)
theory EOP_Parser
  imports EOP_Lexer
begin

text \<open>
  The parser of EOPlus (\<open>src/src/eoplus/parse.cpp\<close>, \<open>src/src/eoplus.hpp\<close>) and the quest a file is
  read to. The token server keeps the tokens not yet read, the stack of tokens put back and
  the line numbers; every parsing function takes the server and returns its result with the
  server after it, or the error it throws. Every token taken makes the server smaller, which
  ends the loops. The properties are in EOP_Grammar.
\<close>

section \<open>Quests\<close>

datatype scope_type = S_Default | S_Character | S_NPC | S_Map | S_World

record scope =
  s_type :: scope_type
  s_args :: "vval list"

record expression =
  scopes :: "scope list"
  func :: string
  eargs :: "vval list"

datatype conditional = C_None | C_If | C_Else | C_ElseIf

record action =
  cond :: conditional
  cond_expr :: expression
  act_expr :: expression

record rule =
  rule_expr :: expression
  rule_action :: action

datatype hidden_type = NotHidden | Hidden | HiddenEnd

record info =
  info_name :: string
  version :: u32
  hidden :: hidden_type
  disabled :: bool

record state =
  state_name :: string
  has_desc :: bool
  desc :: string
  rules :: "rule list"
  actions :: "action list"
  goal_rule :: nat

record quest =
  has_info :: bool
  quest_info :: info
  states :: "string \<rightharpoonup> state"

definition empty_expression :: expression where
  "empty_expression = \<lparr>scopes = [], func = '''', eargs = []\<rparr>"

definition new_info :: info where
  "new_info = \<lparr>info_name = '''', version = 0, hidden = NotHidden, disabled = False\<rparr>"

definition new_state :: state where
  "new_state = \<lparr>state_name = '''', has_desc = False, desc = '''', rules = [], actions = [], goal_rule = 0\<rparr>"

definition new_quest :: quest where
  "new_quest = \<lparr>has_info = False, quest_info = new_info, states = Map.empty\<rparr>"

section \<open>The token server\<close>

record server =
  tokens :: "token list"
  buffer :: "token list"
  line :: int
  reject_token :: token
  reject_line :: int

definition new_server :: "token list \<Rightarrow> server" where
  "new_server ts = \<lparr>tokens = ts, buffer = [], line = 1, reject_token = invalid_token, reject_line = 1\<rparr>"

definition RejectLine :: "server \<Rightarrow> int" where
  "RejectLine sv = max (line sv) (reject_line sv)"

definition xGetToken :: "server \<Rightarrow> token \<times> server" where
  "xGetToken sv =
     (case tokens sv of [] \<Rightarrow> (invalid_token, sv) | t # ts \<Rightarrow> (t, sv\<lparr>tokens := ts\<rparr>))"

definition next_token :: "server \<Rightarrow> token \<times> server" where
  "next_token sv =
     (case buffer sv of t # ts \<Rightarrow> (t, sv\<lparr>buffer := ts\<rparr>) | [] \<Rightarrow> xGetToken sv)"

definition pending :: "server \<Rightarrow> token list" where
  "pending sv = buffer sv @ tokens sv"

lemma next_token_pending:
  "pending sv = t # ts \<Longrightarrow> fst (next_token sv) = t \<and> pending (snd (next_token sv)) = ts"
  "pending sv = [] \<Longrightarrow> next_token sv = (invalid_token, sv)"
  by (auto simp: pending_def next_token_def xGetToken_def split: list.splits)

definition PutBack :: "token \<Rightarrow> server \<Rightarrow> server" where
  "PutBack t sv =
     sv\<lparr>reject_token := t, reject_line := line sv,
        line := line sv - newlines t - (if tok_type t = T_NewLine then 1 else 0),
        buffer := t\<lparr>newlines := (if newlines t > 0 then - 1 else newlines t - 1)\<rparr>
                  # replicate (nat (newlines t)) (Token_of T_NewLine) @ buffer sv\<rparr>"

function get_loop :: "token_type list \<Rightarrow> int \<Rightarrow> server \<Rightarrow> token \<times> int \<times> server" where
  "get_loop allow n sv =
     (case next_token sv of
        (t, sv) \<Rightarrow>
          (if tok_type t = T_NewLine then
             (let sv = sv\<lparr>line := line sv + 1\<rparr>
              in if T_NewLine \<in> set allow then (t, n, sv) else get_loop allow (n + 1) sv)
           else (t, n, sv)))"
  by pat_completeness auto
termination
proof (relation "measure (\<lambda>(_, _, sv). length (pending sv))", goal_cases)
  case (2 allow n sv t sv1 sv2)
  then have "pending sv \<noteq> []"
    using next_token_pending(2) [of sv] by (auto simp: invalid_token_def Token_of_def Token_def)
  then obtain u us where us: "pending sv = u # us" by (cases "pending sv") auto
  have "pending sv2 = pending sv1" using 2 by (simp add: pending_def)
  also have "\<dots> = us" using 2 next_token_pending(1) [OF us] by (metis snd_conv)
  finally show ?case using us by simp
qed simp

declare get_loop.simps [simp del, loop_simps]

definition GetToken :: "token_type list \<Rightarrow> server \<Rightarrow> token \<times> server" where
  "GetToken allow sv =
     (case get_loop allow 0 sv of
        (t, n, sv) \<Rightarrow>
          (let t = t\<lparr>newlines := n\<rparr>
           in if tok_type t \<noteq> T_Invalid \<and> tok_type t \<notin> set allow then (invalid_token, PutBack t sv)
              else (t, sv)))"

definition GetTokenIf :: "(token \<Rightarrow> bool) \<Rightarrow> token_type list \<Rightarrow> server \<Rightarrow> token \<times> server" where
  "GetTokenIf f allow sv =
     (case GetToken allow sv of
        (t, sv) \<Rightarrow> if tok_valid t \<and> \<not> f t then (invalid_token, PutBack t sv) else (t, sv))"

text \<open>The tokens that are not newlines, which every token taken makes fewer.\<close>

definition solid :: "token \<Rightarrow> bool" where
  "solid t \<longleftrightarrow> tok_type t \<noteq> T_NewLine"

definition remaining :: "server \<Rightarrow> nat" where
  "remaining sv = length (filter solid (pending sv))"

lemma get_loop_remaining:
  "get_loop allow n sv = (t, n', sv') \<Longrightarrow> T_NewLine \<notin> set allow \<Longrightarrow>
   solid t \<and> remaining sv = remaining sv' + (if pending sv' = [] \<and> t = invalid_token \<and>
      filter solid (pending sv) = [] then 0 else 1)"
proof (induction allow n sv rule: get_loop.induct)
  case (1 allow n sv)
  obtain u sv1 where nt: "next_token sv = (u, sv1)" by (cases "next_token sv")
  show ?case
  proof (cases "pending sv")
    case Nil
    then have "u = invalid_token" "sv1 = sv" using nt next_token_pending(2) [of sv] by auto
    then show ?thesis
      using "1.prems" nt Nil
      by (subst (asm) get_loop.simps) (auto simp: remaining_def solid_def invalid_token_def Token_of_def Token_def)
  next
    case (Cons v vs)
    then have u: "u = v" "pending sv1 = vs" using nt next_token_pending(1) [OF Cons] by auto
    show ?thesis
    proof (cases "tok_type v = T_NewLine")
      case True
      let ?sv2 = "sv1\<lparr>line := line sv1 + 1\<rparr>"
      have p: "pending ?sv2 = vs" using u by (simp add: pending_def)
      have step: "get_loop allow (n + 1) ?sv2 = (t, n', sv')"
        using "1.prems" nt u True by (subst (asm) get_loop.simps) (simp add: Let_def)
      have "filter solid (pending sv) = filter solid vs" using Cons True by (simp add: solid_def)
      then show ?thesis
        using "1.IH" [OF nt [symmetric] _ refl _ step "1.prems"(2)] True u p "1.prems"(2)
        by (simp add: remaining_def)
    next
      case False
      then have "t = v" "sv' = sv1" using "1.prems" nt u by (auto simp: get_loop.simps)
      then show ?thesis using False Cons u by (simp add: remaining_def solid_def)
    qed
  qed
qed

lemma PutBack_remaining: "solid t \<Longrightarrow> remaining (PutBack t sv) = remaining sv + 1"
  by (simp add: remaining_def PutBack_def pending_def solid_def Token_of_def Token_def)

lemma GetToken_remaining:
  assumes "GetToken allow sv = (t, sv')" "T_NewLine \<notin> set allow"
  shows "remaining sv' \<le> remaining sv" "tok_valid t \<Longrightarrow> remaining sv' < remaining sv"
    "tok_valid t \<Longrightarrow> tok_type t \<in> set allow"
proof -
  obtain u n sv1 where gl: "get_loop allow 0 sv = (u, n, sv1)" by (cases "get_loop allow 0 sv") auto
  note r = get_loop_remaining [OF gl assms(2)]
  show "remaining sv' \<le> remaining sv" "tok_valid t \<Longrightarrow> remaining sv' < remaining sv"
    "tok_valid t \<Longrightarrow> tok_type t \<in> set allow"
    using r assms(1) gl PutBack_remaining [of "u\<lparr>newlines := n\<rparr>" sv1]
    by (auto simp: GetToken_def Let_def tok_valid_def invalid_token_def Token_of_def Token_def solid_def
        split: if_splits)
qed

lemma GetTokenIf_remaining:
  assumes "GetTokenIf f allow sv = (t, sv')" "T_NewLine \<notin> set allow"
  shows "remaining sv' \<le> remaining sv" "tok_valid t \<Longrightarrow> remaining sv' < remaining sv"
proof -
  obtain u sv1 where gt: "GetToken allow sv = (u, sv1)" by (cases "GetToken allow sv")
  have "tok_valid u \<Longrightarrow> solid u"
    using GetToken_remaining(3) [OF gt assms(2)] assms(2) by (auto simp: solid_def)
  then show "remaining sv' \<le> remaining sv" "tok_valid t \<Longrightarrow> remaining sv' < remaining sv"
    using GetToken_remaining(1,2) [OF gt assms(2)] assms(1) gt PutBack_remaining [of u sv1]
    by (auto simp: GetTokenIf_def tok_valid_def invalid_token_def Token_of_def Token_def split: if_splits)
qed

section \<open>Error messages\<close>

definition op_to_string :: "byte \<Rightarrow> string" where
  "op_to_string h =
     (case map_of
        [(operator_code LeftParens, ''(''), (operator_code RightParens, '')''),
         (operator_code BitAnd, ''&''), (operator_code LogicalAnd, ''&&''),
         (operator_code BitOr, ''|''), (operator_code LogicalOr, ''||''),
         (operator_code Assign, ''=''), (operator_code Equality, ''==''),
         (operator_code Inequality, ''!=''), (operator_code LessThan, ''<''),
         (operator_code LessThanEqual, ''<=''), (operator_code GreaterThan, ''>''),
         (operator_code GreaterThanEqual, ''>=''), (operator_code Add, ''+''),
         (operator_code Subtract, ''-''), (operator_code Multiply, ''*''),
         (operator_code Divide, ''/''), (operator_code Modulo, ''%''),
         (operator_code BitNot, ''~''), (operator_code LogicalNot, ''!''),
         (operator_code Negate, ''-'')] h of
        Some s \<Rightarrow> s
      | None \<Rightarrow> ''(unknown)'')"

definition cut_string :: "string \<Rightarrow> string" where
  "cut_string s = (if length s > 16 then take 13 s @ ''...'' else s)"

definition quoted :: "string \<Rightarrow> string \<Rightarrow> string" where
  "quoted what s = what @ '' '' @ [CHR 0x27] @ s @ [CHR 0x27]"

text \<open>Boolean and operator tokens hold a truth value and an integer.\<close>

definition token_got_string :: "token \<Rightarrow> string" where
  "token_got_string t =
     (let s = as_string (tok_data t)
      in case tok_type t of
           T_Invalid \<Rightarrow> ''invalid token''
         | T_Identifier \<Rightarrow> quoted ''identifier'' s
         | T_String \<Rightarrow> quoted ''string'' (cut_string s)
         | T_Integer \<Rightarrow> quoted ''integer'' s
         | T_Float \<Rightarrow> quoted ''float'' s
         | T_Boolean \<Rightarrow>
             quoted ''boolean'' (if as_bool (tok_data t) = Inr True then ''true'' else ''false'')
         | T_Operator \<Rightarrow>
             quoted ''operator'' (case as_int (tok_data t) of
                                    Inr i \<Rightarrow> op_to_string (word_of_int i)
                                  | Inl _ \<Rightarrow> ''(unknown)'')
         | T_Symbol \<Rightarrow> quoted ''symbol'' s
         | T_NewLine \<Rightarrow> ''new-line''
         | T_EndOfFile \<Rightarrow> ''end of file'')"

definition PARSER_ERROR :: "string \<Rightarrow> server \<Rightarrow> eo_error + 'a" where
  "PARSER_ERROR s sv = Inl (Parser_Error s (RejectLine sv))"

definition PARSER_ERROR_GOT :: "string \<Rightarrow> server \<Rightarrow> eo_error + 'a" where
  "PARSER_ERROR_GOT s sv =
     Inl (Parser_Error (s @ '' Got: '' @ token_got_string (reject_token sv)) (RejectLine sv))"

section \<open>Parsing\<close>

type_synonym 'a parsed = "eo_error + 'a \<times> server"

definition tok_string :: "token \<Rightarrow> string" where
  "tok_string t = as_string (tok_data t)"

definition tok_int :: "token \<Rightarrow> eo_error + int" where
  "tok_int t = (case as_int (tok_data t) of Inl e \<Rightarrow> Inl (Undefined e) | Inr i \<Rightarrow> Inr i)"

definition is_operator :: "operator \<Rightarrow> token \<Rightarrow> bool" where
  "is_operator p t \<longleftrightarrow> as_int (tok_data t) = Inr (uint (operator_code p))"

definition ParseVersion :: "server \<Rightarrow> u32 parsed" where
  "ParseVersion sv =
     (case GetToken [T_Integer] sv of
        (t, sv) \<Rightarrow>
          (if \<not> tok_valid t then PARSER_ERROR_GOT (quoted ''Expected number after'' ''version'') sv
           else
             bind_out (tok_int t) (\<lambda>major.
             let ver = 0 + push_bit 16 (word_of_int major)
             in case GetTokenIf (\<lambda>t. tok_string t = ''.'') [T_Symbol] sv of
                  (t, sv) \<Rightarrow>
                    (if \<not> tok_valid t then Inr (ver, sv)
                     else
                       (case GetToken [T_Integer] sv of
                          (t, sv) \<Rightarrow>
                            (if tok_valid t then
                               bind_out (tok_int t)
                                 (\<lambda>minor. Inr (ver OR (word_of_int minor AND 0xFFFF), sv))
                             else PARSER_ERROR_GOT (quoted ''Expected number after'' ''.'' @ '' in version.'') sv))))))"

definition scope_id_map :: "string \<Rightarrow> scope_type option" where
  "scope_id_map s = map_of
     [(''character'', S_Character), (''npc'', S_NPC), (''map'', S_Map), (''world'', S_World)] s"

function ParseScopes :: "server \<Rightarrow> scope list parsed" where
  "ParseScopes sv =
     (case GetToken [T_Identifier] sv of
        (t, sv) \<Rightarrow>
          (if \<not> tok_valid t then Inr ([], sv)
           else
             (case scope_id_map (tok_string t) of
                None \<Rightarrow> Inr ([], PutBack t sv)
              | Some ty \<Rightarrow>
                  (case GetTokenIf (\<lambda>t. tok_string t = ''.'') [T_Symbol] sv of
                     (d, sv) \<Rightarrow>
                       (if tok_valid d then
                          bind_out (ParseScopes sv) (\<lambda>(ss, sv).
                            Inr (\<lparr>s_type = ty, s_args = []\<rparr> # ss, sv))
                        else PARSER_ERROR_GOT (quoted ''Expected'' ''.'' @ '' after scope-identifier.'') sv)))))"
  by pat_completeness auto
termination
proof (relation "measure remaining", goal_cases)
  case (2 sv t sv1 ty d sv2)
  then show ?case
    using GetToken_remaining(2) [of "[T_Identifier]" sv t sv1]
      GetTokenIf_remaining(1) [of _ "[T_Symbol]" sv1 d sv2] by fastforce
qed simp

declare ParseScopes.simps [simp del, loop_simps]

text \<open>The loop over the arguments of a function.\<close>

definition arg_separator :: "token \<Rightarrow> bool" where
  "arg_separator t \<longleftrightarrow>
     (tok_type t = T_Symbol \<and> tok_string t = '','') \<or>
     (tok_type t = T_Operator \<and> is_operator RightParens t)"

function parse_args :: "server \<Rightarrow> vval list parsed" where
  "parse_args sv =
     (case GetToken [T_String, T_Float, T_Integer] sv of
        (t, sv) \<Rightarrow>
          (if \<not> tok_valid t then
             PARSER_ERROR_GOT ''Expected function-argument in function-argument-list.'' sv
           else
             (case GetTokenIf arg_separator [T_Symbol, T_Operator] sv of
                (d, sv) \<Rightarrow>
                  (if tok_valid d then
                     bind_out (tok_int d) (\<lambda>i.
                       if i = uint (operator_code RightParens) then Inr ([tok_data t], sv)
                       else bind_out (parse_args sv) (\<lambda>(as, sv). Inr (tok_data t # as, sv)))
                   else
                     PARSER_ERROR_GOT (quoted ''Expected'' '','' @ quoted '' or'' '')'' @
                         '' after function-argument in function-argument-list.'')
                       sv))))"
  by pat_completeness auto
termination
proof (relation "measure remaining", goal_cases)
  case (2 sv t sv1 d sv2 i)
  then show ?case
    using GetToken_remaining(2) [of "[T_String, T_Float, T_Integer]" sv t sv1]
      GetTokenIf_remaining(1) [of arg_separator "[T_Symbol, T_Operator]" sv1 d sv2] by fastforce
qed simp

declare parse_args.simps [simp del, loop_simps]

definition ParseExpression :: "server \<Rightarrow> expression parsed" where
  "ParseExpression sv =
     (case GetToken [T_Identifier] sv of
        (t, sv) \<Rightarrow>
          (if \<not> tok_valid t then Inr (empty_expression, sv)
           else if tok_string t = ''goto'' then
             (case GetToken [T_Identifier] sv of
                (tt, sv) \<Rightarrow>
                  (if tok_valid tt then
                     Inr (empty_expression\<lparr>func := ''setstate'', eargs := [VString (tok_string tt)]\<rparr>, sv)
                   else PARSER_ERROR_GOT (quoted ''Expected identifier after'' ''goto'' @ ''.'') sv))
           else
             bind_out (ParseScopes sv) (\<lambda>(ss, sv).
             let e = empty_expression\<lparr>scopes := ss, func := tok_string t\<rparr>
             in case GetTokenIf (is_operator LeftParens) [T_Operator] sv of
                  (p, sv) \<Rightarrow>
                    (if tok_valid p then
                       (case GetTokenIf (is_operator RightParens) [T_Operator] sv of
                          (q, sv) \<Rightarrow>
                            (if tok_valid q then Inr (e, sv)
                             else bind_out (parse_args sv) (\<lambda>(as, sv). Inr (e\<lparr>eargs := as\<rparr>, sv))))
                     else PARSER_ERROR_GOT (quoted ''Expected'' ''('' @ '' after function-name.'') sv))))"

definition ParseQuestName :: "server \<Rightarrow> string parsed" where
  "ParseQuestName sv =
     (case GetToken [T_String] sv of
        (t, sv) \<Rightarrow>
          if tok_valid t then Inr (tok_string t, sv)
          else PARSER_ERROR_GOT (quoted ''Expected string after'' ''questname'' @ ''.'') sv)"

definition ParseDesc :: "server \<Rightarrow> string parsed" where
  "ParseDesc sv =
     (case GetToken [T_String] sv of
        (t, sv) \<Rightarrow>
          if tok_valid t then Inr (tok_string t, sv)
          else PARSER_ERROR_GOT (quoted ''Expected string after'' ''desc'' @ ''.'') sv)"

definition ParseAction :: "server \<Rightarrow> action parsed" where
  "ParseAction sv =
     bind_out (ParseExpression sv) (\<lambda>(e, sv).
       Inr (\<lparr>cond = C_None, cond_expr = empty_expression, act_expr = e\<rparr>, sv))"

definition ParseRule :: "server \<Rightarrow> rule parsed" where
  "ParseRule sv =
     bind_out (ParseExpression sv) (\<lambda>(e, sv).
     bind_out (ParseAction sv) (\<lambda>(a, sv). Inr (\<lparr>rule_expr = e, rule_action = a\<rparr>, sv)))"

section \<open>Tokens used by the parsing functions\<close>

lemma ParseVersion_remaining:
  assumes "ParseVersion sv = Inr (v, sv')"
  shows "remaining sv' \<le> remaining sv"
proof -
  obtain t1 sv1 where 1: "GetToken [T_Integer] sv = (t1, sv1)" by fastforce
  obtain t2 sv2 where 2: "GetTokenIf (\<lambda>t. tok_string t = ''.'') [T_Symbol] sv1 = (t2, sv2)" by fastforce
  obtain t3 sv3 where 3: "GetToken [T_Integer] sv2 = (t3, sv3)" by fastforce
  have "sv' \<in> {sv2, sv3}"
    using assms 1 2 3
    by (auto simp: ParseVersion_def PARSER_ERROR_GOT_def bind_out_Inr_iff Let_def split: if_split_asm)
  then show ?thesis
    using GetToken_remaining(1) [OF 1] GetTokenIf_remaining(1) [OF 2] GetToken_remaining(1) [OF 3] by auto
qed

lemma ParseScopes_remaining: "ParseScopes sv = Inr (ss, sv') \<Longrightarrow> remaining sv' \<le> remaining sv"
proof (induction sv arbitrary: ss rule: ParseScopes.induct)
  case (1 sv)
  obtain t sv1 where t: "GetToken [T_Identifier] sv = (t, sv1)" by (cases "GetToken [T_Identifier] sv")
  show ?case
  proof (cases "tok_valid t")
    case False
    then show ?thesis
      using "1.prems" t GetToken_remaining(1) [OF t] by (subst (asm) ParseScopes.simps) simp
  next
    case True
    have less: "remaining sv1 < remaining sv" and s: "solid t"
      using GetToken_remaining(2,3) [OF t] True by (auto simp: solid_def)
    show ?thesis
    proof (cases "scope_id_map (tok_string t)")
      case None
      then show ?thesis
        using "1.prems" t True less PutBack_remaining [OF s, of sv1]
        by (subst (asm) ParseScopes.simps) simp
    next
      case (Some ty)
      obtain d sv2 where d: "GetTokenIf (\<lambda>t. tok_string t = ''.'') [T_Symbol] sv1 = (d, sv2)"
        by (cases "GetTokenIf (\<lambda>t. tok_string t = ''.'') [T_Symbol] sv1")
      then obtain ss' where "ParseScopes sv2 = Inr (ss', sv')" "tok_valid d"
        using "1.prems" t True Some
        by (subst (asm) ParseScopes.simps) (auto simp: PARSER_ERROR_GOT_def bind_out_Inr_iff split: if_splits)
      then have "remaining sv' \<le> remaining sv2" using "1.IH" [OF t [symmetric] _ Some d [symmetric]] True by blast
      then show ?thesis using less GetTokenIf_remaining(1) [OF d] by simp
    qed
  qed
qed

lemma parse_args_remaining: "parse_args sv = Inr (as, sv') \<Longrightarrow> remaining sv' \<le> remaining sv"
proof (induction sv arbitrary: as rule: parse_args.induct)
  case (1 sv)
  obtain t sv1 where t: "GetToken [T_String, T_Float, T_Integer] sv = (t, sv1)"
    by (cases "GetToken [T_String, T_Float, T_Integer] sv")
  obtain d sv2 where d: "GetTokenIf arg_separator [T_Symbol, T_Operator] sv1 = (d, sv2)"
    by (cases "GetTokenIf arg_separator [T_Symbol, T_Operator] sv1")
  have le: "remaining sv2 \<le> remaining sv"
    using GetToken_remaining(1) [OF t] GetTokenIf_remaining(1) [OF d] by simp
  consider "sv' = sv2" | as' where "parse_args sv2 = Inr (as', sv')" "tok_valid t" "tok_valid d"
      "tok_int d \<noteq> Inr (uint (operator_code RightParens))" "\<exists>i. tok_int d = Inr i"
    using "1.prems" t d
    by (subst (asm) parse_args.simps)
      (auto simp: PARSER_ERROR_GOT_def bind_out_Inr_iff split: if_splits)
  then show ?case
  proof cases
    case 2
    then show ?thesis using "1.IH" [OF t [symmetric] _ d [symmetric]] le by fastforce
  qed (use le in simp)
qed

lemma ParseExpression_remaining:
  assumes "ParseExpression sv = Inr (e, sv')"
  shows "remaining sv' \<le> remaining sv"
proof -
  obtain t sv1 where 1: "GetToken [T_Identifier] sv = (t, sv1)" by fastforce
  obtain t2 sv2 where 2: "GetToken [T_Identifier] sv1 = (t2, sv2)" by fastforce
  note le1 = GetToken_remaining(1) [OF 1] GetToken_remaining(1) [OF 2]
  show ?thesis
  proof (cases "tok_valid t \<and> tok_string t \<noteq> ''goto''")
    case False
    then have "sv' \<in> {sv1, sv2}"
      using assms 1 2 by (auto simp: ParseExpression_def PARSER_ERROR_GOT_def split: if_split_asm)
    then show ?thesis using le1 by auto
  next
    case True
    then obtain ss sv3 where 3: "ParseScopes sv1 = Inr (ss, sv3)"
      using assms 1 by (auto simp: ParseExpression_def bind_out_Inr_iff)
    obtain p sv4 where 4: "GetTokenIf (is_operator LeftParens) [T_Operator] sv3 = (p, sv4)" by fastforce
    obtain q sv5 where 5: "GetTokenIf (is_operator RightParens) [T_Operator] sv4 = (q, sv5)" by fastforce
    have "sv' = sv5 \<or> (\<exists>as. parse_args sv5 = Inr (as, sv'))"
      using assms True 1 3 4 5
      by (auto simp: ParseExpression_def PARSER_ERROR_GOT_def bind_out_Inr_iff Let_def split: if_split_asm)
    then have "remaining sv' \<le> remaining sv5" using parse_args_remaining by auto
    then show ?thesis
      using le1(1) ParseScopes_remaining [OF 3] GetTokenIf_remaining(1) [OF 4]
        GetTokenIf_remaining(1) [OF 5] by simp
  qed
qed

lemma ParseAction_remaining: "ParseAction sv = Inr (a, sv') \<Longrightarrow> remaining sv' \<le> remaining sv"
  by (auto simp: ParseAction_def bind_out_Inr_iff dest!: ParseExpression_remaining)

lemma ParseRule_remaining: "ParseRule sv = Inr (r, sv') \<Longrightarrow> remaining sv' \<le> remaining sv"
  by (auto simp: ParseRule_def bind_out_Inr_iff dest!: ParseExpression_remaining ParseAction_remaining)

lemma ParseDesc_remaining: "ParseDesc sv = Inr (s, sv') \<Longrightarrow> remaining sv' \<le> remaining sv"
  by (auto simp: ParseDesc_def PARSER_ERROR_GOT_def split: prod.split_asm if_split_asm
      dest!: GetToken_remaining(1))

lemma ParseQuestName_remaining: "ParseQuestName sv = Inr (s, sv') \<Longrightarrow> remaining sv' \<le> remaining sv"
  by (auto simp: ParseQuestName_def PARSER_ERROR_GOT_def split: prod.split_asm if_split_asm
      dest!: GetToken_remaining(1))

section \<open>Blocks\<close>

definition if_action :: "conditional \<Rightarrow> rule \<Rightarrow> action" where
  "if_action c r = \<lparr>cond = c, cond_expr = rule_expr r, act_expr = act_expr (rule_action r)\<rparr>"

text \<open>
  The entries a state block adds to those of every rule and action block: the handler
  returns whether it knows the entry. The flag is the local variable \<open>has_desc\<close>; the member
  of that name is not set.
\<close>

definition state_entry :: "string \<Rightarrow> state \<Rightarrow> bool \<Rightarrow> server \<Rightarrow> (bool \<times> state \<times> bool) parsed" where
  "state_entry entry st hd' sv =
     (if entry = ''desc'' then
        (if hd' then PARSER_ERROR ''State can only contain one description.'' sv
         else bind_out (ParseDesc sv) (\<lambda>(d, sv). Inr ((True, st\<lparr>desc := d\<rparr>, True), sv)))
      else if entry = ''goal'' then
        bind_out (ParseRule sv) (\<lambda>(r, sv).
          let st = st\<lparr>rules := rules st @ [r]\<rparr>
          in Inr ((True, st\<lparr>goal_rule := length (rules st) - 1\<rparr>, hd'), sv))
      else Inr ((False, st, hd'), sv))"

definition block_error :: "string \<Rightarrow> server \<Rightarrow> eo_error + 'a" where
  "block_error name sv =
     PARSER_ERROR_GOT (quoted (''Expected state-block entry ('' @ ''rule/action/if/elseif/else'' @
       ''/goal/desc) or closing brace'') ''}'' @ quoted '' in state'' name @ ''.'') sv"

text \<open>One identifier of a block; \<open>None\<close> is an entry no handler knows.\<close>

definition block_entry :: "string \<Rightarrow> state \<Rightarrow> bool \<Rightarrow> server \<Rightarrow> (state \<times> bool) option parsed" where
  "block_entry e st hd' sv =
     (if e = ''rule'' then
        bind_out (ParseRule sv) (\<lambda>(r, sv). Inr (Some (st\<lparr>rules := rules st @ [r]\<rparr>, hd'), sv))
      else if e = ''action'' then
        bind_out (ParseAction sv) (\<lambda>(a, sv). Inr (Some (st\<lparr>actions := actions st @ [a]\<rparr>, hd'), sv))
      else if e = ''if'' then
        bind_out (ParseRule sv) (\<lambda>(r, sv).
          Inr (Some (st\<lparr>actions := actions st @ [if_action C_If r]\<rparr>, hd'), sv))
      else if e = ''elseif'' \<or> e = ''elif'' then
        bind_out (ParseRule sv) (\<lambda>(r, sv).
          Inr (Some (st\<lparr>actions := actions st @ [if_action C_ElseIf r]\<rparr>, hd'), sv))
      else if e = ''else'' then
        bind_out (ParseAction sv) (\<lambda>(a, sv).
          Inr (Some (st\<lparr>actions := actions st @ [a\<lparr>cond := C_Else\<rparr>]\<rparr>, hd'), sv))
      else
        bind_out (state_entry e st hd' sv) (\<lambda>((known, st, hd'), sv).
          Inr (if known then Some (st, hd') else None, sv)))"

lemma block_entry_remaining:
  "block_entry e st hd' sv = Inr (r, sv') \<Longrightarrow> remaining sv' \<le> remaining sv"
  by (auto simp: block_entry_def state_entry_def PARSER_ERROR_def bind_out_Inr_iff Let_def
      split: if_split_asm
      dest!: ParseRule_remaining ParseAction_remaining ParseDesc_remaining)

function ParseRuleActionBlock :: "string \<Rightarrow> state \<Rightarrow> bool \<Rightarrow> server \<Rightarrow> state parsed" where
  "ParseRuleActionBlock name st hd' sv =
     (case GetToken [T_Identifier, T_Symbol] sv of
        (t, sv) \<Rightarrow>
          (if \<not> tok_valid t then block_error name sv
           else if tok_type t = T_Identifier then
             bind_out (block_entry (tok_string t) st hd' sv) (\<lambda>(r, sv).
               case r of
                 None \<Rightarrow> block_error name (PutBack t sv)
               | Some (st, hd') \<Rightarrow> ParseRuleActionBlock name st hd' sv)
           else if tok_string t = ''}'' then Inr (st, sv)
           else if tok_string t = '';'' then ParseRuleActionBlock name st hd' sv
           else block_error name (PutBack t sv)))"
  by pat_completeness auto
termination
proof (relation "measure (\<lambda>(_, _, _, sv). remaining sv)", goal_cases)
  case (2 name st hd' sv t sv1 x r sv2 p st2 hd2)
  have "remaining sv1 < remaining sv"
    using GetToken_remaining(2) [of "[T_Identifier, T_Symbol]" sv t sv1] 2 by auto
  moreover have "remaining sv2 \<le> remaining sv1" using block_entry_remaining 2 by blast
  ultimately show ?case by simp
next
  case (3 name st hd' sv t sv1)
  then show ?case using GetToken_remaining(2) [of "[T_Identifier, T_Symbol]" sv t sv1] by auto
qed simp

declare ParseRuleActionBlock.simps [simp del, loop_simps]

definition main_error :: "server \<Rightarrow> eo_error + 'a" where
  "main_error sv =
     PARSER_ERROR_GOT (quoted (''Expected main-block entry '' @
       ''(questname/version/hidden/hidden_end/disabled) or closing brace'') ''}'' @ ''.'') sv"

text \<open>The entries of the main block, with the flags of the entries seen.\<close>

record main_state =
  has_questname :: bool
  has_version :: bool
  m_info :: info

definition main_entry :: "string \<Rightarrow> main_state \<Rightarrow> server \<Rightarrow> main_state option parsed" where
  "main_entry e m sv =
     (let i = m_info m
      in if e = ''questname'' then
           (if has_questname m then PARSER_ERROR ''Main-block can only contain one questname.'' sv
            else bind_out (ParseQuestName sv) (\<lambda>(n, sv).
                   Inr (Some (m\<lparr>has_questname := True, m_info := i\<lparr>info_name := n\<rparr>\<rparr>), sv)))
         else if e = ''version'' then
           (if has_version m then PARSER_ERROR ''Main-block can only contain one version.'' sv
            else bind_out (ParseVersion sv) (\<lambda>(v, sv).
                   Inr (Some (m\<lparr>has_version := True, m_info := i\<lparr>version := v\<rparr>\<rparr>), sv)))
         else if e = ''hidden'' then
           (if hidden i \<noteq> NotHidden then PARSER_ERROR ''Main-block can only contain one hidden attribute.'' sv
            else Inr (Some (m\<lparr>m_info := i\<lparr>hidden := Hidden\<rparr>\<rparr>), sv))
         else if e = ''hidden_end'' then
           (if hidden i \<noteq> NotHidden then PARSER_ERROR ''Main-block can only contain one hidden attribute.'' sv
            else Inr (Some (m\<lparr>m_info := i\<lparr>hidden := HiddenEnd\<rparr>\<rparr>), sv))
         else if e = ''disabled'' then
           (if disabled i then PARSER_ERROR ''Main-block can only contain one disabled attribute.'' sv
            else Inr (Some (m\<lparr>m_info := i\<lparr>disabled := True\<rparr>\<rparr>), sv))
         else Inr (None, sv))"

lemma main_entry_remaining: "main_entry e m sv = Inr (r, sv') \<Longrightarrow> remaining sv' \<le> remaining sv"
  by (auto simp: main_entry_def PARSER_ERROR_def bind_out_Inr_iff Let_def split: if_split_asm
      dest!: ParseQuestName_remaining ParseVersion_remaining)

function parse_main_loop :: "main_state \<Rightarrow> server \<Rightarrow> info parsed" where
  "parse_main_loop m sv =
     (case GetToken [T_Identifier, T_Symbol] sv of
        (t, sv) \<Rightarrow>
          (if \<not> tok_valid t then main_error sv
           else if tok_type t = T_Identifier then
             bind_out (main_entry (tok_string t) m sv) (\<lambda>(r, sv).
               case r of None \<Rightarrow> main_error sv | Some m \<Rightarrow> parse_main_loop m sv)
           else if tok_string t = ''}'' then Inr (m_info m, sv)
           else main_error sv))"
  by pat_completeness auto
termination
proof (relation "measure (\<lambda>(_, sv). remaining sv)", goal_cases)
  case (2 m sv t sv1 x r sv2 m2)
  have "remaining sv1 < remaining sv"
    using GetToken_remaining(2) [of "[T_Identifier, T_Symbol]" sv t sv1] 2 by auto
  moreover have "remaining sv2 \<le> remaining sv1" using main_entry_remaining 2 by blast
  ultimately show ?case by simp
qed simp

declare parse_main_loop.simps [simp del, loop_simps]

definition ParseMain :: "server \<Rightarrow> info parsed" where
  "ParseMain sv = parse_main_loop \<lparr>has_questname = False, has_version = False, m_info = new_info\<rparr> sv"

definition ParseStateBlock :: "server \<Rightarrow> (string \<times> state) parsed" where
  "ParseStateBlock sv =
     (case GetToken [T_Identifier] sv of
        (t, sv) \<Rightarrow>
          (if \<not> tok_valid t then
             PARSER_ERROR_GOT (quoted ''Expected state-name after'' ''state'' @ ''.'') sv
           else
             (let name = tok_string t
              in case GetToken [T_Symbol] sv of
                   (t, sv) \<Rightarrow>
                     (if tok_valid t \<and> tok_string t = ''{'' then
                        bind_out (ParseRuleActionBlock name new_state False sv) (\<lambda>(st, sv).
                          Inr ((name, st\<lparr>state_name := name\<rparr>), sv))
                      else
                        PARSER_ERROR_GOT (quoted ''Expected opening brace'' ''{'' @
                          '' after state-name.'') sv))))"

definition ParseMainBlock :: "server \<Rightarrow> info parsed" where
  "ParseMainBlock sv =
     (case GetToken [T_Symbol] sv of
        (t, sv) \<Rightarrow>
          (if tok_valid t \<and> tok_string t = ''{'' then ParseMain sv
           else PARSER_ERROR_GOT (quoted (quoted ''Expected opening brace'' ''{'' @ '' after'') ''main'' @ ''.'') sv))"

definition global_error :: "server \<Rightarrow> eo_error + 'a" where
  "global_error sv = PARSER_ERROR_GOT ''Expected block-identifier (main/state) in global scope.'' sv"

lemma ParseRuleActionBlock_remaining:
  "ParseRuleActionBlock name st hd' sv = Inr (st', sv') \<Longrightarrow> remaining sv' \<le> remaining sv"
proof (induction name st hd' sv rule: ParseRuleActionBlock.induct)
  case (1 name st hd' sv)
  obtain t sv1 where t: "GetToken [T_Identifier, T_Symbol] sv = (t, sv1)" by fastforce
  have le: "remaining sv1 \<le> remaining sv" using GetToken_remaining(1) [OF t] by simp
  have v: "tok_valid t"
    using "1.prems" t by (subst (asm) ParseRuleActionBlock.simps)
      (auto simp: block_error_def PARSER_ERROR_GOT_def split: if_split_asm)
  show ?case
  proof (cases "tok_type t = T_Identifier")
    case True
    then obtain st2 hd2 sv2 where b: "block_entry (tok_string t) st hd' sv1 = Inr (Some (st2, hd2), sv2)"
      and r: "ParseRuleActionBlock name st2 hd2 sv2 = Inr (st', sv')"
      using "1.prems" t v by (subst (asm) ParseRuleActionBlock.simps)
        (auto simp: block_error_def PARSER_ERROR_GOT_def bind_out_Inr_iff split: option.split_asm)
    have "remaining sv' \<le> remaining sv2"
      using "1.IH"(1) [OF t [symmetric] _ True b refl refl refl r] v by simp
    then show ?thesis using le block_entry_remaining [OF b] by simp
  next
    case False
    show ?thesis
    proof (cases "tok_string t = '';''")
      case True
      then have r: "ParseRuleActionBlock name st hd' sv1 = Inr (st', sv')"
        using "1.prems" t v False by (subst (asm) ParseRuleActionBlock.simps) simp
      show ?thesis
        using "1.IH"(2) [OF t [symmetric] _ False _ True r] v True le by simp
    next
      case no: False
      then have "sv' = sv1"
        using "1.prems" t v False by (subst (asm) ParseRuleActionBlock.simps)
          (auto simp: block_error_def PARSER_ERROR_GOT_def split: if_split_asm)
      then show ?thesis using le by simp
    qed
  qed
qed

lemma parse_main_loop_remaining:
  "parse_main_loop m sv = Inr (i, sv') \<Longrightarrow> remaining sv' \<le> remaining sv"
proof (induction m sv rule: parse_main_loop.induct)
  case (1 m sv)
  obtain t sv1 where t: "GetToken [T_Identifier, T_Symbol] sv = (t, sv1)" by fastforce
  have le: "remaining sv1 \<le> remaining sv" using GetToken_remaining(1) [OF t] by simp
  have v: "tok_valid t"
    using "1.prems" t by (subst (asm) parse_main_loop.simps)
      (auto simp: main_error_def PARSER_ERROR_GOT_def split: if_split_asm)
  show ?case
  proof (cases "tok_type t = T_Identifier")
    case True
    then obtain m2 sv2 where b: "main_entry (tok_string t) m sv1 = Inr (Some m2, sv2)"
      and r: "parse_main_loop m2 sv2 = Inr (i, sv')"
      using "1.prems" t v by (subst (asm) parse_main_loop.simps)
        (auto simp: main_error_def PARSER_ERROR_GOT_def bind_out_Inr_iff split: option.split_asm)
    have "remaining sv' \<le> remaining sv2"
      using "1.IH" [OF t [symmetric] _ True b refl refl r] v by simp
    then show ?thesis using le main_entry_remaining [OF b] by simp
  next
    case False
    then have "sv' = sv1"
      using "1.prems" t v by (subst (asm) parse_main_loop.simps)
        (auto simp: main_error_def PARSER_ERROR_GOT_def split: if_split_asm)
    then show ?thesis using le by simp
  qed
qed

lemma ParseStateBlock_remaining:
  assumes "ParseStateBlock sv = Inr (p, sv')"
  shows "remaining sv' \<le> remaining sv"
proof -
  obtain t sv1 where 1: "GetToken [T_Identifier] sv = (t, sv1)" by fastforce
  obtain b sv2 where 2: "GetToken [T_Symbol] sv1 = (b, sv2)" by fastforce
  obtain st where "ParseRuleActionBlock (tok_string t) new_state False sv2 = Inr (st, sv')"
    using assms 1 2
    by (auto simp: ParseStateBlock_def PARSER_ERROR_GOT_def bind_out_Inr_iff Let_def split: if_split_asm)
  then show ?thesis
    using GetToken_remaining(1) [OF 1] GetToken_remaining(1) [OF 2]
      ParseRuleActionBlock_remaining by fastforce
qed

lemma ParseMainBlock_remaining:
  assumes "ParseMainBlock sv = Inr (i, sv')"
  shows "remaining sv' \<le> remaining sv"
proof -
  obtain t sv1 where 1: "GetToken [T_Symbol] sv = (t, sv1)" by fastforce
  then have "ParseMain sv1 = Inr (i, sv')"
    using assms by (auto simp: ParseMainBlock_def PARSER_ERROR_GOT_def split: if_split_asm)
  then show ?thesis
    using GetToken_remaining(1) [OF 1] parse_main_loop_remaining by (fastforce simp: ParseMain_def)
qed

function ParseGlobal :: "quest \<Rightarrow> server \<Rightarrow> quest parsed" where
  "ParseGlobal q sv =
     (case GetToken [T_Identifier, T_EndOfFile] sv of
        (t, sv) \<Rightarrow>
          (if \<not> tok_valid t then global_error sv
           else if tok_type t = T_Identifier then
             (if tok_string t = ''main'' then
                (if has_info q then PARSER_ERROR ''Quest can only contain one main-block.'' sv
                 else bind_out (ParseMainBlock sv) (\<lambda>(i, sv).
                        ParseGlobal (q\<lparr>quest_info := i, has_info := True\<rparr>) sv))
              else if tok_string t = ''state'' then
                bind_out (ParseStateBlock sv) (\<lambda>(st, sv).
                  if states q (fst st) \<noteq> None then
                    PARSER_ERROR (quoted ''State'' (fst st) @ '' already exists'') sv
                  else ParseGlobal (q\<lparr>states := (states q)(fst st \<mapsto> snd st)\<rparr>) sv)
              else global_error sv)
           else
             (if \<not> has_info q then PARSER_ERROR ''No main-block in quest file.'' sv
              else Inr (q, sv))))"
  by pat_completeness auto
termination
proof (relation "measure (\<lambda>(_, sv). remaining sv)", goal_cases)
  case (2 q sv t sv1 x i sv2)
  have "remaining sv1 < remaining sv"
    using GetToken_remaining(2) [of "[T_Identifier, T_EndOfFile]" sv t sv1] 2 by auto
  moreover have "remaining sv2 \<le> remaining sv1" using ParseMainBlock_remaining 2 by blast
  ultimately show ?case by simp
next
  case (3 q sv t sv1 x st sv2)
  have "remaining sv1 < remaining sv"
    using GetToken_remaining(2) [of "[T_Identifier, T_EndOfFile]" sv t sv1] 3 by auto
  moreover have "remaining sv2 \<le> remaining sv1" using ParseStateBlock_remaining 3 by blast
  ultimately show ?case by simp
qed simp

declare ParseGlobal.simps [simp del, loop_simps]

text \<open>The constructor of \<open>Quest\<close> from a stream: the text is lexed to the end first.\<close>

definition Quest :: "string \<Rightarrow> eo_error + quest" where
  "Quest text =
     bind_out (lex_text text) (\<lambda>ts.
     bind_out (ParseGlobal new_quest (new_server ts)) (\<lambda>(q, _). Inr q))"

end
