(* ===== verification/EOP_Grammar.thy ===== *)
theory EOP_Grammar
  imports EOP_Parser
begin

text \<open>
  The grammar of EOPlus quests and the parser of \<open>src/src/eoplus/parse.cpp\<close> against it. A rule of
  the grammar relates the tokens of a construct, without newlines and positions, to its
  meaning; the flag of the relations adds the one construct the parser accepts beyond the
  grammar, an expression of no tokens. The parser accepts every token list of the grammar
  with its meaning, and what it accepts is well formed.
\<close>

section \<open>Tokens without positions\<close>

type_synonym core = "token_type \<times> vval"

definition core :: "token \<Rightarrow> core" where
  "core t = (tok_type t, tok_data t)"

definition solids :: "server \<Rightarrow> core list" where
  "solids sv = map core (filter solid (pending sv))"

abbreviation c_id :: "string \<Rightarrow> core" where "c_id s \<equiv> (T_Identifier, VString s)"
abbreviation c_str :: "string \<Rightarrow> core" where "c_str s \<equiv> (T_String, VString s)"
abbreviation c_int :: "int \<Rightarrow> core" where "c_int n \<equiv> (T_Integer, VInt n)"
abbreviation c_sym :: "string \<Rightarrow> core" where "c_sym s \<equiv> (T_Symbol, VString s)"
abbreviation c_op :: "operator \<Rightarrow> core" where "c_op p \<equiv> (T_Operator, VInt (uint (operator_code p)))"
abbreviation c_eof :: core where "c_eof \<equiv> (T_EndOfFile, VInt 0)"

section \<open>The grammar\<close>

fun scope_name :: "scope_type \<Rightarrow> string" where
  "scope_name S_Default = ''''"
| "scope_name S_Character = ''character''"
| "scope_name S_NPC = ''npc''"
| "scope_name S_Map = ''map''"
| "scope_name S_World = ''world''"

definition scope_tokens :: "scope_type list \<Rightarrow> core list" where
  "scope_tokens tys = concat (map (\<lambda>ty. [c_id (scope_name ty), c_sym ''.'']) tys)"

inductive arg_token :: "core \<Rightarrow> vval \<Rightarrow> bool" where
  arg_string: "arg_token (c_str s) (VString s)"
| arg_integer: "arg_token (c_int n) (VInt n)"

inductive args_tokens :: "core list \<Rightarrow> vval list \<Rightarrow> bool" where
  args_last: "arg_token c v \<Longrightarrow> args_tokens [c, c_op RightParens] [v]"
| args_more: "arg_token c v \<Longrightarrow> args_tokens cs vs \<Longrightarrow> args_tokens (c # c_sym '','' # cs) (v # vs)"

definition scope_of :: "scope_type \<Rightarrow> scope" where
  "scope_of ty = \<lparr>s_type = ty, s_args = []\<rparr>"

inductive expr_tokens :: "bool \<Rightarrow> core list \<Rightarrow> expression \<Rightarrow> bool" where
  expr_goto: "expr_tokens lax [c_id ''goto'', c_id s]
     \<lparr>scopes = [], func = ''setstate'', eargs = [VString s]\<rparr>"
| expr_call0: "f \<noteq> ''goto'' \<Longrightarrow> S_Default \<notin> set tys \<Longrightarrow>
     expr_tokens lax (c_id f # scope_tokens tys @ [c_op LeftParens, c_op RightParens])
       \<lparr>scopes = map scope_of tys, func = f, eargs = []\<rparr>"
| expr_call: "f \<noteq> ''goto'' \<Longrightarrow> S_Default \<notin> set tys \<Longrightarrow> args_tokens cs vs \<Longrightarrow>
     expr_tokens lax (c_id f # scope_tokens tys @ c_op LeftParens # cs)
       \<lparr>scopes = map scope_of tys, func = f, eargs = vs\<rparr>"
| expr_empty: "lax \<Longrightarrow> expr_tokens lax [] empty_expression"

definition plain_action :: "expression \<Rightarrow> action" where
  "plain_action e = \<lparr>cond = C_None, cond_expr = empty_expression, act_expr = e\<rparr>"

inductive rule_tokens :: "bool \<Rightarrow> core list \<Rightarrow> rule \<Rightarrow> bool" where
  rule_intro: "expr_tokens lax cs e \<Longrightarrow> expr_tokens lax ds a \<Longrightarrow>
     rule_tokens lax (cs @ ds) \<lparr>rule_expr = e, rule_action = plain_action a\<rparr>"

text \<open>An entry of a state block, as a step of the state read so far and the description flag.\<close>

inductive entry_tokens :: "bool \<Rightarrow> state \<times> bool \<Rightarrow> core list \<Rightarrow> state \<times> bool \<Rightarrow> bool" where
  entry_rule: "rule_tokens lax cs r \<Longrightarrow>
     entry_tokens lax (st, h) (c_id ''rule'' # cs) (st\<lparr>rules := rules st @ [r]\<rparr>, h)"
| entry_action: "expr_tokens lax cs e \<Longrightarrow>
     entry_tokens lax (st, h) (c_id ''action'' # cs)
       (st\<lparr>actions := actions st @ [plain_action e]\<rparr>, h)"
| entry_if: "rule_tokens lax cs r \<Longrightarrow>
     entry_tokens lax (st, h) (c_id ''if'' # cs)
       (st\<lparr>actions := actions st @ [if_action C_If r]\<rparr>, h)"
| entry_elseif: "rule_tokens lax cs r \<Longrightarrow> kw = ''elseif'' \<or> kw = ''elif'' \<Longrightarrow>
     entry_tokens lax (st, h) (c_id kw # cs)
       (st\<lparr>actions := actions st @ [if_action C_ElseIf r]\<rparr>, h)"
| entry_else: "expr_tokens lax cs e \<Longrightarrow>
     entry_tokens lax (st, h) (c_id ''else'' # cs)
       (st\<lparr>actions := actions st @ [(plain_action e)\<lparr>cond := C_Else\<rparr>]\<rparr>, h)"
| entry_desc: "entry_tokens lax (st, False) [c_id ''desc'', c_str s] (st\<lparr>desc := s\<rparr>, True)"
| entry_goal: "rule_tokens lax cs r \<Longrightarrow>
     entry_tokens lax (st, h) (c_id ''goal'' # cs)
       (st\<lparr>rules := rules st @ [r], goal_rule := length (rules st)\<rparr>, h)"
| entry_semicolon: "entry_tokens lax (st, h) [c_sym '';''] (st, h)"

inductive block_tokens :: "bool \<Rightarrow> state \<times> bool \<Rightarrow> core list \<Rightarrow> state \<Rightarrow> bool" where
  block_end: "block_tokens lax (st, h) [c_sym ''}''] st"
| block_step: "entry_tokens lax p cs p' \<Longrightarrow> block_tokens lax p' ds st \<Longrightarrow>
     block_tokens lax p (cs @ ds) st"

inductive version_tokens :: "core list \<Rightarrow> u32 \<Rightarrow> bool" where
  version_major: "version_tokens [c_int n] (push_bit 16 (word_of_int n))"
| version_minor: "version_tokens [c_int n, c_sym ''.'', c_int k]
     (push_bit 16 (word_of_int n) OR (word_of_int k AND 0xFFFF))"

inductive main_tokens :: "main_state \<Rightarrow> core list \<Rightarrow> info \<Rightarrow> bool" where
  main_end: "main_tokens m [c_sym ''}''] (m_info m)"
| main_name: "\<not> has_questname m \<Longrightarrow>
     main_tokens (m\<lparr>has_questname := True, m_info := (m_info m)\<lparr>info_name := s\<rparr>\<rparr>) cs i \<Longrightarrow>
     main_tokens m (c_id ''questname'' # c_str s # cs) i"
| main_version: "\<not> has_version m \<Longrightarrow> version_tokens vs v \<Longrightarrow>
     main_tokens (m\<lparr>has_version := True, m_info := (m_info m)\<lparr>version := v\<rparr>\<rparr>) cs i \<Longrightarrow>
     main_tokens m (c_id ''version'' # vs @ cs) i"
| main_hidden: "hidden (m_info m) = NotHidden \<Longrightarrow>
     main_tokens (m\<lparr>m_info := (m_info m)\<lparr>hidden := Hidden\<rparr>\<rparr>) cs i \<Longrightarrow>
     main_tokens m (c_id ''hidden'' # cs) i"
| main_hidden_end: "hidden (m_info m) = NotHidden \<Longrightarrow>
     main_tokens (m\<lparr>m_info := (m_info m)\<lparr>hidden := HiddenEnd\<rparr>\<rparr>) cs i \<Longrightarrow>
     main_tokens m (c_id ''hidden_end'' # cs) i"
| main_disabled: "\<not> disabled (m_info m) \<Longrightarrow>
     main_tokens (m\<lparr>m_info := (m_info m)\<lparr>disabled := True\<rparr>\<rparr>) cs i \<Longrightarrow>
     main_tokens m (c_id ''disabled'' # cs) i"

definition new_main :: main_state where
  "new_main = \<lparr>has_questname = False, has_version = False, m_info = new_info\<rparr>"

text \<open>The tokens of a quest, from the quest read so far to the end of the file.\<close>

inductive quest_tokens :: "bool \<Rightarrow> quest \<Rightarrow> core list \<Rightarrow> quest \<Rightarrow> bool" where
  quest_end: "has_info q \<Longrightarrow> quest_tokens lax q [c_eof] q"
| quest_main: "\<not> has_info q \<Longrightarrow> main_tokens new_main cs i \<Longrightarrow>
     quest_tokens lax (q\<lparr>quest_info := i, has_info := True\<rparr>) ds q' \<Longrightarrow>
     quest_tokens lax q (c_id ''main'' # c_sym ''{'' # cs @ ds) q'"
| quest_state: "states q n = None \<Longrightarrow> block_tokens lax (new_state, False) cs st \<Longrightarrow>
     quest_tokens lax (q\<lparr>states := (states q)(n \<mapsto> st\<lparr>state_name := n\<rparr>)\<rparr>) ds q' \<Longrightarrow>
     quest_tokens lax q (c_id ''state'' # c_id n # c_sym ''{'' # cs @ ds) q'"

section \<open>The token server up to newlines\<close>

lemma solids_PutBack:
  "solid t \<Longrightarrow> solids (PutBack t sv) = core t # solids sv"
  by (simp add: solids_def PutBack_def pending_def solid_def Token_of_def Token_def core_def)

lemma core_newlines [simp]: "core (t\<lparr>newlines := n\<rparr>) = core t"
  by (simp add: core_def)

lemma get_loop_solids:
  "get_loop allow n sv = (t, n', sv') \<Longrightarrow> T_NewLine \<notin> set allow \<Longrightarrow>
   (solids sv = [] \<longrightarrow> t = invalid_token \<and> solids sv' = []) \<and>
   (\<forall>c cs. solids sv = c # cs \<longrightarrow> core t = c \<and> solid t \<and> solids sv' = cs)"
proof (induction allow n sv rule: get_loop.induct)
  case (1 allow n sv)
  obtain u sv1 where nt: "next_token sv = (u, sv1)" by fastforce
  show ?case
  proof (cases "pending sv")
    case Nil
    then have "u = invalid_token" "sv1 = sv" using nt next_token_pending(2) [of sv] by auto
    then show ?thesis
      using "1.prems" nt Nil by (subst (asm) get_loop.simps)
        (auto simp: solids_def invalid_token_def Token_of_def Token_def)
  next
    case (Cons v vs)
    then have u: "u = v" "pending sv1 = vs" using nt next_token_pending(1) [OF Cons] by auto
    show ?thesis
    proof (cases "tok_type v = T_NewLine")
      case True
      let ?sv2 = "sv1\<lparr>line := line sv1 + 1\<rparr>"
      have step: "get_loop allow (n + 1) ?sv2 = (t, n', sv')"
        using "1.prems" nt u True by (subst (asm) get_loop.simps) (simp add: Let_def)
      have "solids ?sv2 = solids sv" using u Cons True by (simp add: solids_def pending_def solid_def)
      then show ?thesis
        using "1.IH" [OF nt [symmetric] _ refl _ step "1.prems"(2)] True u "1.prems"(2) by simp
    next
      case False
      then have "t = v" "sv' = sv1" using "1.prems" nt u by (auto simp: get_loop.simps)
      then show ?thesis using False Cons u by (simp add: solids_def solid_def)
    qed
  qed
qed

lemma GetToken_solids:
  assumes "T_NewLine \<notin> set allow" "solids sv = c # cs" "fst c \<noteq> T_Invalid"
  shows "fst c \<in> set allow \<Longrightarrow>
      \<exists>t sv'. GetToken allow sv = (t, sv') \<and> core t = c \<and> solid t \<and> tok_valid t \<and> solids sv' = cs"
    "fst c \<notin> set allow \<Longrightarrow>
      \<exists>sv'. GetToken allow sv = (invalid_token, sv') \<and> solids sv' = c # cs"
proof -
  obtain t n sv1 where gl: "get_loop allow 0 sv = (t, n, sv1)" by (cases "get_loop allow 0 sv") auto
  then have t: "core t = c" "solid t" "solids sv1 = cs"
    using get_loop_solids [OF gl assms(1)] assms(2) by auto
  then have ty: "tok_type t = fst c" by (auto simp: core_def)
  show "fst c \<in> set allow \<Longrightarrow>
      \<exists>t sv'. GetToken allow sv = (t, sv') \<and> core t = c \<and> solid t \<and> tok_valid t \<and> solids sv' = cs"
    using t ty gl assms(3) by (auto simp: GetToken_def tok_valid_def solid_def)
  show "fst c \<notin> set allow \<Longrightarrow>
      \<exists>sv'. GetToken allow sv = (invalid_token, sv') \<and> solids sv' = c # cs"
    using t ty gl assms(3) solids_PutBack [of "t\<lparr>newlines := n\<rparr>" sv1]
    by (auto simp: GetToken_def solid_def)
qed

text \<open>A test of a token looks at its type and data only.\<close>

lemma GetTokenIf_solids:
  assumes "T_NewLine \<notin> set allow" "solids sv = c # cs" "fst c \<noteq> T_Invalid"
    and "\<And>t. core t = c \<Longrightarrow> f t = b"
  shows "fst c \<in> set allow \<Longrightarrow> b \<Longrightarrow>
      \<exists>t sv'. GetTokenIf f allow sv = (t, sv') \<and> core t = c \<and> tok_valid t \<and> solids sv' = cs"
    "fst c \<notin> set allow \<or> \<not> b \<Longrightarrow>
      \<exists>sv'. GetTokenIf f allow sv = (invalid_token, sv') \<and> solids sv' = c # cs"
proof -
  note gt = GetToken_solids [OF assms(1-3)]
  show "fst c \<in> set allow \<Longrightarrow> b \<Longrightarrow>
      \<exists>t sv'. GetTokenIf f allow sv = (t, sv') \<and> core t = c \<and> tok_valid t \<and> solids sv' = cs"
    using gt(1) assms(4) by (auto simp: GetTokenIf_def)
  assume "fst c \<notin> set allow \<or> \<not> b"
  then show "\<exists>sv'. GetTokenIf f allow sv = (invalid_token, sv') \<and> solids sv' = c # cs"
  proof (cases "fst c \<in> set allow")
    case True
    then obtain t sv1 where "GetToken allow sv = (t, sv1)" "core t = c" "solid t" "tok_valid t" "solids sv1 = cs"
      using gt(1) by blast
    then show ?thesis
      using \<open>fst c \<notin> set allow \<or> \<not> b\<close> True assms(4) solids_PutBack [of t sv1]
      by (auto simp: GetTokenIf_def)
  next
    case False
    then show ?thesis using gt(2)
      by (auto simp: GetTokenIf_def tok_valid_def invalid_token_def Token_of_def Token_def)
  qed
qed

lemma invalid_not_valid [simp]: "\<not> tok_valid invalid_token"
  by (simp add: tok_valid_def invalid_token_def Token_of_def Token_def)

section \<open>The parser accepts the grammar\<close>

definition parses :: "(server \<Rightarrow> 'a parsed) \<Rightarrow> core list \<Rightarrow> 'a \<Rightarrow> core list \<Rightarrow> bool" where
  "parses P cs r rest \<longleftrightarrow>
     (\<forall>sv. solids sv = cs @ rest \<longrightarrow> (\<exists>sv'. P sv = Inr (r, sv') \<and> solids sv' = rest))"

lemma parsesI:
  "(\<And>sv. solids sv = cs @ rest \<Longrightarrow> \<exists>sv'. P sv = Inr (r, sv') \<and> solids sv' = rest) \<Longrightarrow>
   parses P cs r rest"
  by (simp add: parses_def)

lemma parsesE:
  assumes "parses P cs r rest" "solids sv = cs @ rest"
  obtains sv' where "P sv = Inr (r, sv')" "solids sv' = rest"
  using assms by (auto simp: parses_def)

lemma uint_operator_code_inj [simp]: "uint (operator_code p) = uint (operator_code q) \<longleftrightarrow> p = q"
  using operator_code_inj [of p q] by (metis word_uint_eqI)

lemma tok_core:
  "core t = (ty, VString s) \<Longrightarrow> tok_string t = s"
  "core t = (ty, VInt n) \<Longrightarrow> tok_int t = Inr n"
  "core t = (ty, d) \<Longrightarrow> tok_type t = ty \<and> tok_data t = d"
  "core t = c_op p \<Longrightarrow> is_operator q t = (p = q)"
  by (auto simp: core_def tok_string_def tok_int_def is_operator_def)

lemma tok_string_core: "core t = c_sym s \<Longrightarrow> (tok_string t = u) = (s = u)"
  by (auto simp: core_def tok_string_def)

lemma scope_name_map: "ty \<noteq> S_Default \<Longrightarrow> scope_id_map (scope_name ty) = Some ty"
  by (cases ty) (simp_all add: scope_id_map_def)

lemma parses_scopes:
  assumes "S_Default \<notin> set tys" "fst d \<noteq> T_Identifier" "fst d \<noteq> T_Invalid"
  shows "parses ParseScopes (scope_tokens tys) (map scope_of tys) (d # rest)"
  using assms(1)
proof (induction tys)
  case Nil
  show ?case
  proof (rule parsesI)
    fix sv assume "solids sv = scope_tokens [] @ d # rest"
    then obtain sv' where "GetToken [T_Identifier] sv = (invalid_token, sv')" "solids sv' = d # rest"
      using GetToken_solids(2) [of "[T_Identifier]" sv d rest] assms(2,3) by (auto simp: scope_tokens_def)
    then show "\<exists>sv'. ParseScopes sv = Inr (map scope_of [], sv') \<and> solids sv' = d # rest"
      by (subst ParseScopes.simps) simp
  qed
next
  case (Cons ty tys)
  show ?case
  proof (rule parsesI)
    fix sv assume "solids sv = scope_tokens (ty # tys) @ d # rest"
    then have s: "solids sv = c_id (scope_name ty) # c_sym ''.'' # scope_tokens tys @ d # rest"
      by (simp add: scope_tokens_def)
    obtain t sv1 where 1: "GetToken [T_Identifier] sv = (t, sv1)" "core t = c_id (scope_name ty)"
      "tok_valid t" "solids sv1 = c_sym ''.'' # scope_tokens tys @ d # rest"
      using GetToken_solids(1) [OF _ s, of "[T_Identifier]"] by auto
    obtain u sv2 where 2: "GetTokenIf (\<lambda>t. tok_string t = ''.'') [T_Symbol] sv1 = (u, sv2)" "tok_valid u"
      "solids sv2 = scope_tokens tys @ d # rest"
      using GetTokenIf_solids(1) [OF _ 1(4), of "[T_Symbol]" "\<lambda>t. tok_string t = ''.''" True]
      by (auto dest: tok_core(1))
    obtain sv3 where 3: "ParseScopes sv2 = Inr (map scope_of tys, sv3)" "solids sv3 = d # rest"
      using Cons 2(3) by (auto elim: parsesE)
    have "scope_id_map (tok_string t) = Some ty"
      using Cons.prems tok_core(1) [OF 1(2)] scope_name_map [of ty] by auto
    then show "\<exists>sv'. ParseScopes sv = Inr (map scope_of (ty # tys), sv') \<and> solids sv' = d # rest"
      using 1 2 3 by (subst ParseScopes.simps) (simp add: scope_of_def)
  qed
qed

lemma as_int_comma: "as_int (VString '','') = Inr 0"
proof -
  have "dbl 0 = Fin 0" using dbl_of_int [of 0] by simp
  then show ?thesis
    by (simp add: tdparse_def td_start_def period_mul_def td_other_def tolower_def is_digit_def
        int_range_def INT_MIN_def INT_MAX_def rat_trunc_def Let_def)
qed

lemma rparen_code: "uint (operator_code RightParens) = 9"
  by (simp add: operator_code_def UOP2_def NUL_def push_bit_eq_mult)

lemma arg_token_type: "arg_token c v \<Longrightarrow> fst c \<in> {T_String, T_Integer} \<and> snd c = v"
  by (auto elim: arg_token.cases)

lemma parses_args: "args_tokens cs vs \<Longrightarrow> parses parse_args cs vs rest"
proof (induction rule: args_tokens.induct)
  case (args_last c v)
  show ?case
  proof (rule parsesI)
    fix sv assume s: "solids sv = [c, c_op RightParens] @ rest"
    obtain t sv1 where 1: "GetToken [T_String, T_Float, T_Integer] sv = (t, sv1)" "core t = c" "tok_valid t"
      "solids sv1 = c_op RightParens # rest"
      using GetToken_solids(1) [of "[T_String, T_Float, T_Integer]" sv c "c_op RightParens # rest"] s
        arg_token_type [OF args_last] by auto
    obtain u sv2 where 2: "GetTokenIf arg_separator [T_Symbol, T_Operator] sv1 = (u, sv2)"
      "core u = c_op RightParens" "tok_valid u" "solids sv2 = rest"
      using GetTokenIf_solids(1) [OF _ 1(4), of "[T_Symbol, T_Operator]" arg_separator True]
      by (auto simp: arg_separator_def tok_core)
    have "tok_data t = v" using 1(2) arg_token_type [OF args_last] by (auto simp: core_def)
    then show "\<exists>sv'. parse_args sv = Inr ([v], sv') \<and> solids sv' = rest"
      using 1 2 tok_core(2) [OF 2(2)] by (subst parse_args.simps) simp
  qed
next
  case (args_more c v cs vs)
  show ?case
  proof (rule parsesI)
    fix sv assume s: "solids sv = (c # c_sym '','' # cs) @ rest"
    obtain t sv1 where 1: "GetToken [T_String, T_Float, T_Integer] sv = (t, sv1)" "core t = c" "tok_valid t"
      "solids sv1 = c_sym '','' # cs @ rest"
      using GetToken_solids(1) [of "[T_String, T_Float, T_Integer]" sv c "c_sym '','' # cs @ rest"] s
        arg_token_type [OF args_more(1)] by auto
    obtain u sv2 where 2: "GetTokenIf arg_separator [T_Symbol, T_Operator] sv1 = (u, sv2)"
      "core u = c_sym '',''" "tok_valid u" "solids sv2 = cs @ rest"
      using GetTokenIf_solids(1) [OF _ 1(4), of "[T_Symbol, T_Operator]" arg_separator True]
      by (auto simp: arg_separator_def tok_core(1,3))
    obtain sv3 where 3: "parse_args sv2 = Inr (vs, sv3)" "solids sv3 = rest"
      using args_more.IH 2(4) by (auto elim: parsesE)
    have "tok_int u = Inr 0" using 2(2) as_int_comma by (simp add: tok_int_def core_def)
    moreover have "tok_data t = v" using 1(2) arg_token_type [OF args_more(1)] by (auto simp: core_def)
    ultimately show "\<exists>sv'. parse_args sv = Inr (v # vs, sv') \<and> solids sv' = rest"
      using 1 2 3 by (subst parse_args.simps) (simp add: rparen_code)
  qed
qed

lemma args_tokens_head: "args_tokens cs vs \<Longrightarrow> \<exists>c ds. cs = c # ds \<and> fst c \<in> {T_String, T_Integer}"
  by (erule args_tokens.cases) (auto dest: arg_token_type)

lemma parses_expr: "expr_tokens False cs e \<Longrightarrow> parses ParseExpression cs e rest"
proof (induction "False" cs e rule: expr_tokens.induct)
  case (expr_goto s)
  show ?case
  proof (rule parsesI)
    fix sv assume s: "solids sv = [c_id ''goto'', c_id s] @ rest"
    obtain t sv1 where 1: "GetToken [T_Identifier] sv = (t, sv1)" "core t = c_id ''goto''" "tok_valid t"
      "solids sv1 = c_id s # rest"
      using GetToken_solids(1) [of "[T_Identifier]" sv "c_id ''goto''" "c_id s # rest"] s by auto
    obtain u sv2 where 2: "GetToken [T_Identifier] sv1 = (u, sv2)" "core u = c_id s" "tok_valid u"
      "solids sv2 = rest"
      using GetToken_solids(1) [OF _ 1(4), of "[T_Identifier]"] by auto
    show "\<exists>sv'. ParseExpression sv = Inr (\<lparr>scopes = [], func = ''setstate'', eargs = [VString s]\<rparr>, sv')
        \<and> solids sv' = rest"
      using 1 2 tok_core(1) [OF 1(2)] tok_core(1) [OF 2(2)]
      by (simp add: ParseExpression_def empty_expression_def)
  qed
next
  case (expr_call0 f tys)
  show ?case
  proof (rule parsesI)
    fix sv assume "solids sv = (c_id f # scope_tokens tys @ [c_op LeftParens, c_op RightParens]) @ rest"
    then have s: "solids sv = c_id f # scope_tokens tys @ c_op LeftParens # c_op RightParens # rest" by simp
    obtain t sv1 where 1: "GetToken [T_Identifier] sv = (t, sv1)" "core t = c_id f" "tok_valid t"
      "solids sv1 = scope_tokens tys @ c_op LeftParens # c_op RightParens # rest"
      using GetToken_solids(1) [OF _ s, of "[T_Identifier]"] by auto
    obtain sv2 where 2: "ParseScopes sv1 = Inr (map scope_of tys, sv2)"
      "solids sv2 = c_op LeftParens # c_op RightParens # rest"
      using parses_scopes [OF expr_call0(2), of "c_op LeftParens"] 1(4) by (auto elim: parsesE)
    obtain p sv3 where 3: "GetTokenIf (is_operator LeftParens) [T_Operator] sv2 = (p, sv3)" "tok_valid p"
      "solids sv3 = c_op RightParens # rest"
      using GetTokenIf_solids(1) [OF _ 2(2), of "[T_Operator]" "is_operator LeftParens" True]
      by (auto simp: tok_core(4))
    obtain q sv4 where 4: "GetTokenIf (is_operator RightParens) [T_Operator] sv3 = (q, sv4)" "tok_valid q"
      "solids sv4 = rest"
      using GetTokenIf_solids(1) [OF _ 3(3), of "[T_Operator]" "is_operator RightParens" True]
      by (auto simp: tok_core(4))
    show "\<exists>sv'. ParseExpression sv = Inr (\<lparr>scopes = map scope_of tys, func = f, eargs = []\<rparr>, sv')
        \<and> solids sv' = rest"
      using 1 2 3 4 tok_core(1) [OF 1(2)] expr_call0(1)
      by (simp add: ParseExpression_def empty_expression_def)
  qed
next
  case (expr_call f tys cs vs)
  obtain c ds where c: "cs = c # ds" "fst c \<in> {T_String, T_Integer}"
    using args_tokens_head [OF expr_call(3)] by blast
  show ?case
  proof (rule parsesI)
    fix sv assume "solids sv = (c_id f # scope_tokens tys @ c_op LeftParens # cs) @ rest"
    then have s: "solids sv = c_id f # scope_tokens tys @ c_op LeftParens # cs @ rest" by simp
    obtain t sv1 where 1: "GetToken [T_Identifier] sv = (t, sv1)" "core t = c_id f" "tok_valid t"
      "solids sv1 = scope_tokens tys @ c_op LeftParens # cs @ rest"
      using GetToken_solids(1) [OF _ s, of "[T_Identifier]"] by auto
    obtain sv2 where 2: "ParseScopes sv1 = Inr (map scope_of tys, sv2)"
      "solids sv2 = c_op LeftParens # cs @ rest"
      using parses_scopes [OF expr_call(2), of "c_op LeftParens"] 1(4) by (auto elim: parsesE)
    obtain p sv3 where 3: "GetTokenIf (is_operator LeftParens) [T_Operator] sv2 = (p, sv3)" "tok_valid p"
      "solids sv3 = cs @ rest"
      using GetTokenIf_solids(1) [OF _ 2(2), of "[T_Operator]" "is_operator LeftParens" True]
      by (auto simp: tok_core(4))
    obtain sv4 where 4: "GetTokenIf (is_operator RightParens) [T_Operator] sv3 = (invalid_token, sv4)"
      "solids sv4 = cs @ rest"
    proof -
      have "\<exists>sv'. GetTokenIf (is_operator RightParens) [T_Operator] sv3 = (invalid_token, sv') \<and>
          solids sv' = c # ds @ rest"
        using GetToken_solids(2) [of "[T_Operator]" sv3 c "ds @ rest"] 3(3) c
        by (auto simp: GetTokenIf_def)
      then show thesis using that c by auto
    qed
    obtain sv5 where 5: "parse_args sv4 = Inr (vs, sv5)" "solids sv5 = rest"
      using parses_args [OF expr_call(3)] 4(2) by (auto elim: parsesE)
    show "\<exists>sv'. ParseExpression sv = Inr (\<lparr>scopes = map scope_of tys, func = f, eargs = vs\<rparr>, sv')
        \<and> solids sv' = rest"
      using 1 2 3 4 5 tok_core(1) [OF 1(2)] expr_call(1)
      by (simp add: ParseExpression_def empty_expression_def)
  qed
qed simp

lemma parses_action: "expr_tokens False cs e \<Longrightarrow> parses ParseAction cs (plain_action e) rest"
proof (rule parsesI)
  fix sv assume e: "expr_tokens False cs e" and s: "solids sv = cs @ rest"
  obtain sv' where "ParseExpression sv = Inr (e, sv')" "solids sv' = rest"
    using parses_expr [OF e] s by (auto elim: parsesE)
  then show "\<exists>sv'. ParseAction sv = Inr (plain_action e, sv') \<and> solids sv' = rest"
    by (simp add: ParseAction_def plain_action_def)
qed

lemma parses_rule: "rule_tokens False cs r \<Longrightarrow> parses ParseRule cs r rest"
proof (induction "False" cs r rule: rule_tokens.induct)
  case (rule_intro cs e ds a)
  show ?case
  proof (rule parsesI)
    fix sv assume s: "solids sv = (cs @ ds) @ rest"
    obtain sv1 where 1: "ParseExpression sv = Inr (e, sv1)" "solids sv1 = ds @ rest"
      using parses_expr [OF rule_intro(1), of "ds @ rest"] s by (auto elim: parsesE)
    obtain sv2 where 2: "ParseAction sv1 = Inr (plain_action a, sv2)" "solids sv2 = rest"
      using parses_action [OF rule_intro(2), of rest] 1(2) by (auto elim: parsesE)
    show "\<exists>sv'. ParseRule sv = Inr (\<lparr>rule_expr = e, rule_action = plain_action a\<rparr>, sv') \<and> solids sv' = rest"
      using 1 2 by (simp add: ParseRule_def)
  qed
qed

text \<open>An entry: the semicolon, or an identifier whose handler uses the rest of the entry.\<close>

lemma parses_bind:
  assumes "parses P cs r rest" "\<And>sv. Q sv = bind_out (P sv) f" "\<And>sv. f (r, sv) = Inr (x, sv)"
  shows "parses Q cs x rest"
  using assms by (fastforce simp: parses_def)

lemma parses_desc: "parses ParseDesc [c_str s] s rest"
proof (rule parsesI)
  fix sv assume "solids sv = [c_str s] @ rest"
  then have "solids sv = c_str s # rest" by simp
  from GetToken_solids(1) [OF _ this, of "[T_String]"]
  show "\<exists>sv'. ParseDesc sv = Inr (s, sv') \<and> solids sv' = rest"
    by (auto simp: ParseDesc_def dest: tok_core(1))
qed

lemma entry_cases:
  assumes "entry_tokens False (st, h) cs (st', h')"
  shows "cs = [c_sym '';''] \<and> st' = st \<and> h' = h \<or>
    (\<exists>e ds. cs = c_id e # ds \<and>
      (\<forall>rest. parses (block_entry e st h) ds (Some (st', h')) rest))"
  using assms
proof (induction "False" "(st, h)" cs "(st', h')" rule: entry_tokens.induct)
  case (entry_rule cs r)
  have "parses (block_entry ''rule'' st h) cs (Some (st', h')) rest" for rest
    by (rule parses_bind [OF parses_rule [OF entry_rule(1)]], simp add: block_entry_def, simp add: entry_rule(2-) [symmetric])
  then show ?case using entry_rule(2-) by blast
next
  case (entry_action cs e)
  have "parses (block_entry ''action'' st h) cs (Some (st', h')) rest" for rest
    by (rule parses_bind [OF parses_action [OF entry_action(1)]], simp add: block_entry_def, simp add: entry_action(2-) [symmetric])
  then show ?case using entry_action(2-) by blast
next
  case (entry_if cs r)
  have "parses (block_entry ''if'' st h) cs (Some (st', h')) rest" for rest
    by (rule parses_bind [OF parses_rule [OF entry_if(1)]], simp add: block_entry_def, simp add: entry_if(2-) [symmetric])
  then show ?case using entry_if(2-) by blast
next
  case (entry_elseif cs r kw)
  have "kw \<noteq> ''rule''" "kw \<noteq> ''action''" "kw \<noteq> ''if''" using entry_elseif(2) by auto
  then have "parses (block_entry kw st h) cs (Some (st', h')) rest" for rest
    by (rule_tac parses_bind [OF parses_rule [OF entry_elseif(1)]], use entry_elseif(2) in \<open>simp add: block_entry_def\<close>, simp add: entry_elseif(3-) [symmetric])
  then show ?case using entry_elseif(2-) by blast
next
  case (entry_else cs e)
  have "parses (block_entry ''else'' st h) cs (Some (st', h')) rest" for rest
    by (rule parses_bind [OF parses_action [OF entry_else(1)]], simp add: block_entry_def, simp add: entry_else(2-) [symmetric])
  then show ?case using entry_else(2-) by blast
next
  case (entry_desc s)
  have "parses (state_entry ''desc'' st False) [c_str s] (True, st', h') rest" for rest
    by (rule parses_bind [OF parses_desc], simp add: state_entry_def, simp add: entry_desc [symmetric])
  then have "parses (block_entry ''desc'' st False) [c_str s] (Some (st', h')) rest" for rest
    by (rule parses_bind) (auto simp: block_entry_def)
  then show ?case using entry_desc by blast
next
  case (entry_goal cs r)
  have "parses (state_entry ''goal'' st h) cs (True, st', h') rest" for rest
    by (rule parses_bind [OF parses_rule [OF entry_goal(1)]], simp add: state_entry_def Let_def, simp add: entry_goal(2-) [symmetric])
  then have "parses (block_entry ''goal'' st h) cs (Some (st', h')) rest" for rest
    by (rule parses_bind) (auto simp: block_entry_def)
  then show ?case using entry_goal by blast
qed simp

lemma parses_block:
  "block_tokens False (st, h) cs st' \<Longrightarrow> parses (ParseRuleActionBlock name st h) cs st' rest"
proof (induction "False" "(st, h)" cs st' arbitrary: st h rule: block_tokens.induct)
  case (block_end st h)
  show ?case
  proof (rule parsesI)
    fix sv assume s: "solids sv = [c_sym ''}''] @ rest"
    obtain t sv1 where "GetToken [T_Identifier, T_Symbol] sv = (t, sv1)" "core t = c_sym ''}''"
      "tok_valid t" "solids sv1 = rest"
      using GetToken_solids(1) [of "[T_Identifier, T_Symbol]" sv "c_sym ''}''" rest] s by auto
    then show "\<exists>sv'. ParseRuleActionBlock name st h sv = Inr (st, sv') \<and> solids sv' = rest"
      using tok_core(1,3) by (subst ParseRuleActionBlock.simps) simp
  qed
next
  case (block_step cs p' ds st')
  obtain st2 h2 where p': "p' = (st2, h2)" by (cases p')
  note rec = block_step.hyps(3) [OF p']
  show ?case
  proof (rule parsesI)
    fix sv assume s: "solids sv = (cs @ ds) @ rest"
    consider (semi) "cs = [c_sym '';'']" "st2 = st" "h2 = h"
      | (ent) e es where "cs = c_id e # es" "\<forall>rest. parses (block_entry e st h) es (Some (st2, h2)) rest"
      using entry_cases [of st h cs st2 h2] block_step.hyps(1) p' by auto
    then show "\<exists>sv'. ParseRuleActionBlock name st h sv = Inr (st', sv') \<and> solids sv' = rest"
    proof cases
      case semi
      then obtain t sv1 where 1: "GetToken [T_Identifier, T_Symbol] sv = (t, sv1)" "core t = c_sym '';''"
        "tok_valid t" "solids sv1 = ds @ rest"
        using GetToken_solids(1) [of "[T_Identifier, T_Symbol]" sv "c_sym '';''" "ds @ rest"] s by auto
      obtain sv2 where "ParseRuleActionBlock name st h sv1 = Inr (st', sv2)" "solids sv2 = rest"
        using rec 1(4) semi by (auto elim: parsesE)
      then show ?thesis using 1 tok_core(1,3) by (subst ParseRuleActionBlock.simps) simp
    next
      case ent
      then obtain t sv1 where 1: "GetToken [T_Identifier, T_Symbol] sv = (t, sv1)" "core t = c_id e"
        "tok_valid t" "solids sv1 = es @ ds @ rest"
        using GetToken_solids(1) [of "[T_Identifier, T_Symbol]" sv "c_id e" "es @ ds @ rest"] s by auto
      obtain sv2 where 2: "block_entry e st h sv1 = Inr (Some (st2, h2), sv2)" "solids sv2 = ds @ rest"
        using ent(2) 1(4) by (meson parsesE)
      obtain sv3 where "ParseRuleActionBlock name st2 h2 sv2 = Inr (st', sv3)" "solids sv3 = rest"
        using rec 2(2) by (auto elim: parsesE)
      then show ?thesis using 1 2 tok_core(1) [OF 1(2)] tok_core(3) [OF 1(2)]
        by (subst ParseRuleActionBlock.simps) simp
    qed
  qed
qed


section \<open>The main block\<close>

lemma parses_name: "parses ParseQuestName [c_str s] s rest"
proof (rule parsesI)
  fix sv assume "solids sv = [c_str s] @ rest"
  then have "solids sv = c_str s # rest" by simp
  from GetToken_solids(1) [OF _ this, of "[T_String]"]
  show "\<exists>sv'. ParseQuestName sv = Inr (s, sv') \<and> solids sv' = rest"
    by (auto simp: ParseQuestName_def dest: tok_core(1))
qed

lemma parses_version:
  assumes "version_tokens vs v" "d = c_sym ''}'' \<or> (\<exists>e. d = c_id e)"
  shows "parses ParseVersion vs v (d # rest)"
  using assms(1)
proof (rule version_tokens.cases)
  fix n assume vs: "vs = [c_int n]" and v: "v = push_bit 16 (word_of_int n)"
  show ?thesis
  proof (rule parsesI)
    fix sv assume s: "solids sv = vs @ d # rest"
    obtain t sv1 where 1: "GetToken [T_Integer] sv = (t, sv1)" "core t = c_int n" "tok_valid t"
      "solids sv1 = d # rest"
      using GetToken_solids(1) [of "[T_Integer]" sv "c_int n" "d # rest"] s vs by auto
    obtain b where b: "\<And>t. core t = d \<Longrightarrow> (tok_string t = ''.'') = b" "fst d = T_Symbol \<Longrightarrow> \<not> b"
      using assms(2)
    proof (elim disjE exE)
      assume "d = c_sym ''}''"
      then show thesis using that [of False] tok_core(1) by auto
    next
      fix e assume "d = c_id e"
      then show thesis using that [of "e = ''.''"] tok_core(1) by auto
    qed
    obtain sv2 where 2: "GetTokenIf (\<lambda>t. tok_string t = ''.'') [T_Symbol] sv1 = (invalid_token, sv2)"
      "solids sv2 = d # rest"
      using GetTokenIf_solids(2) [OF _ 1(4), of "[T_Symbol]" "\<lambda>t. tok_string t = ''.''" b] b assms(2)
      by auto
    show "\<exists>sv'. ParseVersion sv = Inr (v, sv') \<and> solids sv' = d # rest"
      using 1 2 tok_core(2) [OF 1(2)] v by (simp add: ParseVersion_def)
  qed
next
  fix n k assume vs: "vs = [c_int n, c_sym ''.'', c_int k]"
    and v: "v = push_bit 16 (word_of_int n) OR (word_of_int k AND 0xFFFF)"
  show ?thesis
  proof (rule parsesI)
    fix sv assume s: "solids sv = vs @ d # rest"
    obtain t sv1 where 1: "GetToken [T_Integer] sv = (t, sv1)" "core t = c_int n" "tok_valid t"
      "solids sv1 = c_sym ''.'' # c_int k # d # rest"
      using GetToken_solids(1) [of "[T_Integer]" sv "c_int n" "c_sym ''.'' # c_int k # d # rest"] s vs
      by auto
    obtain u sv2 where 2: "GetTokenIf (\<lambda>t. tok_string t = ''.'') [T_Symbol] sv1 = (u, sv2)" "tok_valid u"
      "solids sv2 = c_int k # d # rest"
      using GetTokenIf_solids(1) [OF _ 1(4), of "[T_Symbol]" "\<lambda>t. tok_string t = ''.''" True]
      by (auto dest: tok_core(1))
    obtain w sv3 where 3: "GetToken [T_Integer] sv2 = (w, sv3)" "core w = c_int k" "tok_valid w"
      "solids sv3 = d # rest"
      using GetToken_solids(1) [OF _ 2(3), of "[T_Integer]"] by auto
    show "\<exists>sv'. ParseVersion sv = Inr (v, sv') \<and> solids sv' = d # rest"
      using 1 2 3 tok_core(2) [OF 1(2)] tok_core(2) [OF 3(2)] v by (simp add: ParseVersion_def)
  qed
qed

lemma main_tokens_head:
  "main_tokens m cs i \<Longrightarrow> \<exists>d ds. cs = d # ds \<and> (d = c_sym ''}'' \<or> (\<exists>e. d = c_id e))"
  by (erule main_tokens.cases) auto

text \<open>An attribute of the main block, read by its handler.\<close>

lemma parses_main_step:
  assumes "\<And>rest'. parses (main_entry e m) es (Some m') (cs @ rest)"
    and "parses (parse_main_loop m') cs i rest"
  shows "parses (parse_main_loop m) (c_id e # es @ cs) i rest"
proof (rule parsesI)
  fix sv assume s: "solids sv = (c_id e # es @ cs) @ rest"
  then obtain t sv1 where 1: "GetToken [T_Identifier, T_Symbol] sv = (t, sv1)" "core t = c_id e"
    "tok_valid t" "solids sv1 = es @ cs @ rest"
    using GetToken_solids(1) [of "[T_Identifier, T_Symbol]" sv "c_id e" "es @ cs @ rest"] by auto
  obtain sv2 where 2: "main_entry e m sv1 = Inr (Some m', sv2)" "solids sv2 = cs @ rest"
    using assms(1) 1(4) by (auto elim: parsesE)
  obtain sv3 where "parse_main_loop m' sv2 = Inr (i, sv3)" "solids sv3 = rest"
    using assms(2) 2(2) by (auto elim: parsesE)
  then show "\<exists>sv'. parse_main_loop m sv = Inr (i, sv') \<and> solids sv' = rest"
    using 1 2 tok_core(1) [OF 1(2)] tok_core(3) [OF 1(2)] by (subst parse_main_loop.simps) simp
qed

lemma parses_main_loop: "main_tokens m cs i \<Longrightarrow> parses (parse_main_loop m) cs i rest"
proof (induction rule: main_tokens.induct)
  case (main_end m)
  show ?case
  proof (rule parsesI)
    fix sv assume s: "solids sv = [c_sym ''}''] @ rest"
    then obtain t sv1 where "GetToken [T_Identifier, T_Symbol] sv = (t, sv1)" "core t = c_sym ''}''"
      "tok_valid t" "solids sv1 = rest"
      using GetToken_solids(1) [of "[T_Identifier, T_Symbol]" sv "c_sym ''}''" rest] by auto
    then show "\<exists>sv'. parse_main_loop m sv = Inr (m_info m, sv') \<and> solids sv' = rest"
      using tok_core(1,3) by (subst parse_main_loop.simps) simp
  qed
next
  case (main_name m s cs i)
  have "parses (main_entry ''questname'' m) [c_str s]
      (Some (m\<lparr>has_questname := True, m_info := (m_info m)\<lparr>info_name := s\<rparr>\<rparr>)) (cs @ rest)"
    by (rule parses_bind [OF parses_name], simp add: main_entry_def main_name, simp)
  then show ?case using parses_main_step [OF _ main_name.IH, where es = "[c_str s]"] by simp
next
  case (main_version m vs v cs i)
  have "parses ParseVersion vs v (cs @ rest)"
    using parses_version [OF main_version(2)] main_tokens_head [OF main_version(3)] by auto
  then have "parses (main_entry ''version'' m) vs
      (Some (m\<lparr>has_version := True, m_info := (m_info m)\<lparr>version := v\<rparr>\<rparr>)) (cs @ rest)"
    by (rule parses_bind, simp add: main_entry_def main_version, simp)
  then show ?case using parses_main_step [OF _ main_version.IH] by simp
next
  case (main_hidden m cs i)
  have "parses (main_entry ''hidden'' m) [] (Some (m\<lparr>m_info := (m_info m)\<lparr>hidden := Hidden\<rparr>\<rparr>)) (cs @ rest)"
    using main_hidden by (simp add: parses_def main_entry_def)
  then show ?case using parses_main_step [OF _ main_hidden.IH, where es = "[]"] by simp
next
  case (main_hidden_end m cs i)
  have "parses (main_entry ''hidden_end'' m) []
      (Some (m\<lparr>m_info := (m_info m)\<lparr>hidden := HiddenEnd\<rparr>\<rparr>)) (cs @ rest)"
    using main_hidden_end by (simp add: parses_def main_entry_def)
  then show ?case using parses_main_step [OF _ main_hidden_end.IH, where es = "[]"] by simp
next
  case (main_disabled m cs i)
  have "parses (main_entry ''disabled'' m) []
      (Some (m\<lparr>m_info := (m_info m)\<lparr>disabled := True\<rparr>\<rparr>)) (cs @ rest)"
    using main_disabled by (simp add: parses_def main_entry_def)
  then show ?case using parses_main_step [OF _ main_disabled.IH, where es = "[]"] by simp
qed

section \<open>The blocks of a quest\<close>

lemma parses_main_block:
  assumes "main_tokens new_main cs i"
  shows "parses ParseMainBlock (c_sym ''{'' # cs) i rest"
proof (rule parsesI)
  fix sv assume s: "solids sv = (c_sym ''{'' # cs) @ rest"
  then obtain t sv1 where 1: "GetToken [T_Symbol] sv = (t, sv1)" "core t = c_sym ''{''"
    "tok_valid t" "solids sv1 = cs @ rest"
    using GetToken_solids(1) [of "[T_Symbol]" sv "c_sym ''{''" "cs @ rest"] by auto
  obtain sv2 where "parse_main_loop new_main sv1 = Inr (i, sv2)" "solids sv2 = rest"
    using parses_main_loop [OF assms] 1(4) by (auto elim: parsesE)
  then show "\<exists>sv'. ParseMainBlock sv = Inr (i, sv') \<and> solids sv' = rest"
    using 1 tok_core(1) [OF 1(2)] by (simp add: ParseMainBlock_def ParseMain_def new_main_def)
qed

lemma parses_state_block:
  assumes "block_tokens False (new_state, False) cs st"
  shows "parses ParseStateBlock (c_id n # c_sym ''{'' # cs) (n, st\<lparr>state_name := n\<rparr>) rest"
proof (rule parsesI)
  fix sv assume s: "solids sv = (c_id n # c_sym ''{'' # cs) @ rest"
  then obtain t sv1 where 1: "GetToken [T_Identifier] sv = (t, sv1)" "core t = c_id n"
    "tok_valid t" "solids sv1 = c_sym ''{'' # cs @ rest"
    using GetToken_solids(1) [of "[T_Identifier]" sv "c_id n" "c_sym ''{'' # cs @ rest"] by auto
  obtain u sv2 where 2: "GetToken [T_Symbol] sv1 = (u, sv2)" "core u = c_sym ''{''"
    "tok_valid u" "solids sv2 = cs @ rest"
    using GetToken_solids(1) [OF _ 1(4), of "[T_Symbol]"] by auto
  obtain sv3 where "ParseRuleActionBlock n new_state False sv2 = Inr (st, sv3)" "solids sv3 = rest"
    using parses_block [OF assms, of n rest] 2(4) by (auto elim: parsesE)
  then show "\<exists>sv'. ParseStateBlock sv = Inr ((n, st\<lparr>state_name := n\<rparr>), sv') \<and> solids sv' = rest"
    using 1 2 tok_core(1) [OF 1(2)] tok_core(1) [OF 2(2)] by (simp add: ParseStateBlock_def)
qed


lemma parses_global: "quest_tokens False q cs q' \<Longrightarrow> parses (ParseGlobal q) cs q' rest"
proof (induction "False" q cs q' rule: quest_tokens.induct)
  case (quest_end q)
  show ?case
  proof (rule parsesI)
    fix sv assume "solids sv = [c_eof] @ rest"
    then obtain t sv1 where "GetToken [T_Identifier, T_EndOfFile] sv = (t, sv1)" "core t = c_eof"
      "tok_valid t" "solids sv1 = rest"
      using GetToken_solids(1) [of "[T_Identifier, T_EndOfFile]" sv c_eof rest] by auto
    then show "\<exists>sv'. ParseGlobal q sv = Inr (q, sv') \<and> solids sv' = rest"
      using tok_core(3) [of t T_EndOfFile] quest_end by (subst ParseGlobal.simps) simp
  qed
next
  case (quest_main q cs i ds q')
  show ?case
  proof (rule parsesI)
    fix sv assume "solids sv = (c_id ''main'' # c_sym ''{'' # cs @ ds) @ rest"
    then have "solids sv = c_id ''main'' # (c_sym ''{'' # cs) @ ds @ rest" by simp
    then obtain t sv1 where 1: "GetToken [T_Identifier, T_EndOfFile] sv = (t, sv1)" "core t = c_id ''main''"
      "tok_valid t" "solids sv1 = (c_sym ''{'' # cs) @ ds @ rest"
      using GetToken_solids(1) [of "[T_Identifier, T_EndOfFile]" sv] by fastforce
    obtain sv2 where 2: "ParseMainBlock sv1 = Inr (i, sv2)" "solids sv2 = ds @ rest"
      using parses_main_block [OF quest_main(2)] 1(4) by (rule parsesE)
    obtain sv3 where "ParseGlobal (q\<lparr>quest_info := i, has_info := True\<rparr>) sv2 = Inr (q', sv3)"
      "solids sv3 = rest"
      using quest_main(4) 2(2) by (rule parsesE)
    then show "\<exists>sv'. ParseGlobal q sv = Inr (q', sv') \<and> solids sv' = rest"
      using 1 2 tok_core(1) [OF 1(2)] tok_core(3) [OF 1(2)] quest_main(1)
      by (subst ParseGlobal.simps) simp
  qed
next
  case (quest_state q n cs st ds q')
  show ?case
  proof (rule parsesI)
    fix sv assume "solids sv = (c_id ''state'' # c_id n # c_sym ''{'' # cs @ ds) @ rest"
    then have "solids sv = c_id ''state'' # (c_id n # c_sym ''{'' # cs) @ ds @ rest" by simp
    then obtain t sv1 where 1: "GetToken [T_Identifier, T_EndOfFile] sv = (t, sv1)" "core t = c_id ''state''"
      "tok_valid t" "solids sv1 = (c_id n # c_sym ''{'' # cs) @ ds @ rest"
      using GetToken_solids(1) [of "[T_Identifier, T_EndOfFile]" sv] by fastforce
    obtain sv2 where 2: "ParseStateBlock sv1 = Inr ((n, st\<lparr>state_name := n\<rparr>), sv2)"
      "solids sv2 = ds @ rest"
      using parses_state_block [OF quest_state(2)] 1(4) by (rule parsesE)
    obtain sv3 where "ParseGlobal (q\<lparr>states := (states q)(n \<mapsto> st\<lparr>state_name := n\<rparr>)\<rparr>) sv2 = Inr (q', sv3)"
      "solids sv3 = rest"
      using quest_state(4) 2(2) by (rule parsesE)
    then show "\<exists>sv'. ParseGlobal q sv = Inr (q', sv') \<and> solids sv' = rest"
      using 1 2 tok_core(1) [OF 1(2)] tok_core(3) [OF 1(2)] quest_state(1)
      by (subst ParseGlobal.simps) simp
  qed
qed

lemma parse_text_grammar:
  assumes "list_all2 lexable ts ws"
    and "quest_tokens False new_quest (map core (filter solid ts) @ [c_eof]) q"
  shows "Quest (tokens_text ws) = Inr q"
proof -
  let ?sv = "new_server (ts @ [Token_of T_EndOfFile])"
  have "solids ?sv = (map core (filter solid ts) @ [c_eof]) @ []"
    by (simp add: solids_def pending_def new_server_def solid_def Token_of_def Token_def core_def)
  with parses_global [OF assms(2)] obtain sv where "ParseGlobal new_quest ?sv = Inr (q, sv)"
    by (rule parsesE)
  then show ?thesis
    using lex_text_tokens [OF assms(1)] by (simp add: Quest_def)
qed

text \<open>
  C28: A text that spells a quest of the grammar is parsed to that quest: the words of the tokens,
  newlines wherever they stand, go through the lexer and the parser to the meaning the
  grammar gives them, whatever the number of states, rules, scopes and arguments.
\<close>

theorem quest_parse_complete:
  assumes "list_all2 lexable ts ws"
    and "quest_tokens False new_quest (map core (filter solid ts) @ [c_eof]) q"
  shows "Quest (tokens_text ws) = Inr q"
  using assms by (rule parse_text_grammar)


definition sample_goal :: rule where
  "sample_goal =
     \<lparr>rule_expr = \<lparr>scopes = [scope_of S_NPC], func = ''talked'', eargs = [VInt 3]\<rparr>,
      rule_action = plain_action \<lparr>scopes = [], func = ''setstate'', eargs = [VString ''done'']\<rparr>\<rparr>"

definition sample_quest :: quest where
  "sample_quest =
     new_quest\<lparr>quest_info := new_info\<lparr>version := 65536\<rparr>, has_info := True,
       states := [''begin'' \<mapsto> new_state\<lparr>rules := [sample_goal], goal_rule := 0, state_name := ''begin''\<rparr>]\<rparr>"

lemma ident_simps:
  "ident s \<longleftrightarrow> s \<noteq> [] \<and> ctype_ident_start (hd s) \<and> list_all ctype_ident (tl s) \<and>
     lowercase s = s \<and> s \<noteq> ''true'' \<and> s \<noteq> ''false''"
  by (simp add: ident_def list_all_iff)

lemma sample_goal_tokens:
  "rule_tokens False [c_id ''talked'', c_id ''npc'', c_sym ''.'', c_op LeftParens, c_int 3, c_op RightParens,
     c_id ''goto'', c_id ''done''] sample_goal"
proof -
  have "args_tokens [c_int 3, c_op RightParens] [VInt 3]" by (intro args_last arg_integer)
  then have "expr_tokens False (c_id ''talked'' # scope_tokens [S_NPC] @ c_op LeftParens #
      [c_int 3, c_op RightParens])
    \<lparr>scopes = map scope_of [S_NPC], func = ''talked'', eargs = [VInt 3]\<rparr>"
    by (intro expr_call) auto
  from rule_intro [OF this expr_goto] show ?thesis
    by (simp add: scope_tokens_def sample_goal_def)
qed

lemma sample_quest_tokens:
  "quest_tokens False new_quest
     [c_id ''main'', c_sym ''{'', c_id ''version'', c_int 1, c_sym ''}'',
      c_id ''state'', c_id ''begin'', c_sym ''{'', c_id ''goal'',
        c_id ''talked'', c_id ''npc'', c_sym ''.'', c_op LeftParens, c_int 3, c_op RightParens,
        c_id ''goto'', c_id ''done'', c_sym ''}'', c_eof] sample_quest"
proof -
  let ?q = "new_quest\<lparr>quest_info := new_info\<lparr>version := 65536\<rparr>, has_info := True\<rparr>"
  have e: "quest_tokens False sample_quest [c_eof] sample_quest"
    by (intro quest_end) (simp add: sample_quest_def)
  have "entry_tokens False (new_state, False) (c_id ''goal'' #
     [c_id ''talked'', c_id ''npc'', c_sym ''.'', c_op LeftParens, c_int 3, c_op RightParens,
     c_id ''goto'', c_id ''done''])
     (new_state\<lparr>rules := rules new_state @ [sample_goal], goal_rule := length (rules new_state)\<rparr>, False)"
    by (rule entry_goal [OF sample_goal_tokens])
  from block_step [OF this block_end]
  have b: "block_tokens False (new_state, False) (c_id ''goal'' #
     [c_id ''talked'', c_id ''npc'', c_sym ''.'', c_op LeftParens, c_int 3, c_op RightParens,
     c_id ''goto'', c_id ''done'', c_sym ''}''])
     (new_state\<lparr>rules := [sample_goal], goal_rule := 0\<rparr>)"
    by (simp add: new_state_def)
  have s: "quest_tokens False ?q (c_id ''state'' # c_id ''begin'' # c_sym ''{'' # (c_id ''goal'' #
     [c_id ''talked'', c_id ''npc'', c_sym ''.'', c_op LeftParens, c_int 3, c_op RightParens,
     c_id ''goto'', c_id ''done'', c_sym ''}'']) @ [c_eof]) sample_quest"
    by (rule quest_state [OF _ b], simp add: new_quest_def)
      (use e in \<open>simp add: sample_quest_def new_quest_def\<close>)
  have "main_tokens new_main (c_id ''version'' # [c_int 1] @ [c_sym ''}''])
      (new_info\<lparr>version := push_bit 16 (word_of_int 1)\<rparr>)"
    using main_version [OF _ version_major main_end, of new_main 1] by (simp add: new_main_def)
  then have "main_tokens new_main [c_id ''version'', c_int 1, c_sym ''}'']
      (new_info\<lparr>version := 65536\<rparr>)" by simp
  from quest_main [OF _ this s] show ?thesis by (simp add: new_quest_def)
qed

definition sample_words :: "string list" where
  "sample_words = [''main'', ''{'', ''version'', ''1'', ''}'', [CHR 0x0A], ''state'', ''begin'', ''{'',
      ''goal'', ''talked'', ''npc'', ''.'', ''('', ''3'', '')'', [CHR 0x0A], ''goto'', ''done'', ''}'']"

definition sample_tokens :: "token list" where
  "sample_tokens =
     [Token T_Identifier (VString ''main''), Token T_Symbol (VString ''{''), Token T_Identifier (VString ''version''), Token T_Integer (VInt 1), Token T_Symbol (VString ''}''), Token_of T_NewLine,
      Token T_Identifier (VString ''state''), Token T_Identifier (VString ''begin''), Token T_Symbol (VString ''{''), Token T_Identifier (VString ''goal''), Token T_Identifier (VString ''talked''), Token T_Identifier (VString ''npc''), Token T_Symbol (VString ''.''),
      operator_token (CHR ''('') NUL, Token T_Integer (VInt 3), operator_token (CHR '')'') NUL, Token_of T_NewLine,
      Token T_Identifier (VString ''goto''), Token T_Identifier (VString ''done''), Token T_Symbol (VString ''}'')]"

lemma sample_lexable: "list_all2 lexable sample_tokens sample_words"
proof -
  let ?id = "\<lambda>s. Token T_Identifier (VString s)" and ?sy = "\<lambda>s. Token T_Symbol (VString s)"
  have "lexable (?id s) s" if "ident s" for s using that by (rule lexable_ident)
  moreover have "ident ''main''" "ident ''version''" "ident ''state''" "ident ''begin''" "ident ''goal''"
    "ident ''talked''" "ident ''npc''" "ident ''goto''" "ident ''done''"
    by code_simp+
  moreover have "lexable (Token T_Integer (VInt 1)) ''1''" "lexable (Token T_Integer (VInt 3)) ''3''"
    using lexable_integer [of 1] lexable_integer [of 3]
    by (simp_all add: INT_MAX_def dec_digits.simps digit_chars digit_chars(2) [simplified])
  moreover have "lexable (?sy [c]) [c]" if "ctype_symbol c" for c using that by (rule lexable_symbol)
  moreover have "ctype_symbol (CHR ''{'')" "ctype_symbol (CHR ''}'')" "ctype_symbol (CHR ''.'')"
    by (simp_all add: ctype_symbol_def ctype_def)
  moreover have "lexable (operator_token (CHR ''('') NUL) ''(''" "lexable (operator_token (CHR '')'') NUL) '')''"
    by (rule lexable_operator1; simp add: check_op_def ctype_op_def ctype_def)+
  ultimately show ?thesis by (simp add: lexable_newline sample_tokens_def sample_words_def)
qed

lemma sample_core:
  "quest_tokens False new_quest (map core (filter solid sample_tokens) @ [c_eof]) sample_quest"
  using sample_quest_tokens
  by (simp add: sample_tokens_def core_def solid_def Token_def Token_of_def operator_token_def
      operator_code_def)

theorem quest_parse_complete_witness: "Quest (tokens_text sample_words) = Inr sample_quest"
  by (rule quest_parse_complete [OF sample_lexable sample_core])


section \<open>What the parser accepts\<close>

definition wf_action :: "action \<Rightarrow> bool" where
  "wf_action a \<longleftrightarrow> cond a \<in> {C_If, C_ElseIf} \<or> cond_expr a = empty_expression"

definition wf_state :: "state \<Rightarrow> bool" where
  "wf_state st \<longleftrightarrow> \<not> has_desc st \<and> (goal_rule st = 0 \<or> goal_rule st < length (rules st)) \<and>
     list_all wf_action (actions st) \<and> list_all (\<lambda>r. rule_action r = plain_action (act_expr (rule_action r))) (rules st)"

definition wf_quest :: "quest \<Rightarrow> bool" where
  "wf_quest q \<longleftrightarrow> (\<forall>n st. states q n = Some st \<longrightarrow> state_name st = n \<and> wf_state st)"

lemma ParseAction_plain: "ParseAction sv = Inr (a, sv') \<Longrightarrow> a = plain_action (act_expr a)"
  by (auto simp: ParseAction_def bind_out_Inr_iff plain_action_def)

lemma ParseRule_plain:
  "ParseRule sv = Inr (r, sv') \<Longrightarrow> rule_action r = plain_action (act_expr (rule_action r))"
  by (auto simp: ParseRule_def bind_out_Inr_iff dest: ParseAction_plain)

lemma plain_action_wf:
  "a = plain_action e \<Longrightarrow> wf_action a" "a = plain_action e \<Longrightarrow> wf_action (a\<lparr>cond := C_Else\<rparr>)"
  by (auto simp: wf_action_def plain_action_def)

lemma if_action_wf: "wf_action (if_action C_If r)" "wf_action (if_action C_ElseIf r)"
  by (simp_all add: wf_action_def if_action_def)

lemma wf_state_add:
  "wf_state st \<Longrightarrow> ParseRule sv = Inr (r, sv') \<Longrightarrow> wf_state (st\<lparr>rules := rules st @ [r]\<rparr>)"
  "wf_state st \<Longrightarrow> ParseRule sv = Inr (r, sv') \<Longrightarrow>
     wf_state (st\<lparr>rules := rules st @ [r], goal_rule := length (rules st)\<rparr>)"
  "wf_state st \<Longrightarrow> wf_action a \<Longrightarrow> wf_state (st\<lparr>actions := actions st @ [a]\<rparr>)"
  "wf_state (st\<lparr>desc := d\<rparr>) = wf_state st"
  using ParseRule_plain [of sv r sv'] by (auto simp: wf_state_def)

lemma state_entry_wf:
  "state_entry e st h sv = Inr ((k, st', h'), sv') \<Longrightarrow> wf_state st \<Longrightarrow> wf_state st'"
  by (auto simp: state_entry_def bind_out_Inr_iff PARSER_ERROR_def Let_def wf_state_add
      split: if_split_asm)

lemma block_entry_wf:
  assumes "block_entry e st h sv = Inr (Some (st', h'), sv')" "wf_state st"
  shows "wf_state st'"
proof (cases "e \<in> {''rule'', ''action'', ''if'', ''elseif'', ''elif'', ''else''}")
  case True
  then consider r where "ParseRule sv = Inr (r, sv')" "st' = st\<lparr>rules := rules st @ [r]\<rparr>"
    | a b where "st' = st\<lparr>actions := actions st @ [a]\<rparr>" "ParseAction sv = Inr (b, sv')"
        "a = b \<or> a = b\<lparr>cond := C_Else\<rparr>"
    | r where "st' = st\<lparr>actions := actions st @ [if_action C_If r]\<rparr>"
    | r where "st' = st\<lparr>actions := actions st @ [if_action C_ElseIf r]\<rparr>"
    using assms(1) by (auto simp: block_entry_def bind_out_Inr_iff)
  then show ?thesis
    using assms(2) wf_state_add(1,3) if_action_wf ParseAction_plain plain_action_wf by cases metis+
next
  case False
  then show ?thesis
    using assms by (auto simp: block_entry_def bind_out_Inr_iff split: if_split_asm dest: state_entry_wf)
qed

lemma ParseRuleActionBlock_wf:
  "ParseRuleActionBlock name st h sv = Inr (st', sv') \<Longrightarrow> wf_state st \<Longrightarrow> wf_state st'"
proof (induction name st h sv rule: ParseRuleActionBlock.induct)
  case (1 name st h sv)
  obtain t sv1 where t: "GetToken [T_Identifier, T_Symbol] sv = (t, sv1)" by fastforce
  have v: "tok_valid t"
    using "1.prems" t by (subst (asm) ParseRuleActionBlock.simps)
      (auto simp: block_error_def PARSER_ERROR_GOT_def split: if_split_asm)
  show ?case
  proof (cases "tok_type t = T_Identifier")
    case True
    then obtain st2 h2 sv2 where b: "block_entry (tok_string t) st h sv1 = Inr (Some (st2, h2), sv2)"
      and r: "ParseRuleActionBlock name st2 h2 sv2 = Inr (st', sv')"
      using "1.prems" t v by (subst (asm) ParseRuleActionBlock.simps)
        (auto simp: block_error_def PARSER_ERROR_GOT_def bind_out_Inr_iff split: option.split_asm)
    show ?thesis
      using "1.IH"(1) [OF t [symmetric] _ True b refl refl refl r] v block_entry_wf [OF b "1.prems"(2)] by simp
  next
    case False
    show ?thesis
    proof (cases "tok_string t = '';''")
      case True
      then have r: "ParseRuleActionBlock name st h sv1 = Inr (st', sv')"
        using "1.prems" t v False by (subst (asm) ParseRuleActionBlock.simps) simp
      show ?thesis using "1.IH"(2) [OF t [symmetric] _ False _ True r] v True "1.prems"(2) by simp
    next
      case no: False
      then have "st' = st"
        using "1.prems" t v False by (subst (asm) ParseRuleActionBlock.simps)
          (auto simp: block_error_def PARSER_ERROR_GOT_def split: if_split_asm)
      then show ?thesis using "1.prems"(2) by simp
    qed
  qed
qed

lemma ParseStateBlock_wf:
  assumes "ParseStateBlock sv = Inr ((n, st), sv')"
  shows "state_name st = n \<and> wf_state st"
proof -
  obtain t sv1 where 1: "GetToken [T_Identifier] sv = (t, sv1)" by fastforce
  obtain b sv2 where 2: "GetToken [T_Symbol] sv1 = (b, sv2)" by fastforce
  obtain st2 where "ParseRuleActionBlock (tok_string t) new_state False sv2 = Inr (st2, sv')"
    "n = tok_string t" "st = st2\<lparr>state_name := n\<rparr>"
    using assms 1 2
    by (auto simp: ParseStateBlock_def PARSER_ERROR_GOT_def bind_out_Inr_iff Let_def split: if_split_asm)
  moreover have "wf_state new_state" by (simp add: wf_state_def new_state_def)
  ultimately show ?thesis using ParseRuleActionBlock_wf by (fastforce simp: wf_state_def)
qed

text \<open>The ways \<open>ParseGlobal\<close> can go on from a token.\<close>

lemma ParseGlobal_cases:
  assumes r: "ParseGlobal q sv = Inr (q', sv')" and t: "GetToken [T_Identifier, T_EndOfFile] sv = (t, sv1)"
  obtains (main) i sv2 where "tok_valid t" "tok_type t = T_Identifier" "tok_string t = ''main''"
      "\<not> has_info q" "ParseMainBlock sv1 = Inr (i, sv2)"
      "ParseGlobal (q\<lparr>quest_info := i, has_info := True\<rparr>) sv2 = Inr (q', sv')"
    | (state) n st sv2 where "tok_valid t" "tok_type t = T_Identifier" "tok_string t = ''state''"
      "ParseStateBlock sv1 = Inr ((n, st), sv2)" "states q n = None"
      "ParseGlobal (q\<lparr>states := (states q)(n \<mapsto> st)\<rparr>) sv2 = Inr (q', sv')"
    | (eof) "tok_type t \<noteq> T_Identifier" "has_info q" "q' = q" "sv' = sv1"
proof -
  note simps = global_error_def PARSER_ERROR_GOT_def PARSER_ERROR_def
  note step = r [unfolded ParseGlobal.simps [of q sv] t prod.case]
  have v: "tok_valid t" using step by (simp add: simps split: if_split_asm)
  show thesis
  proof (cases "tok_type t = T_Identifier")
    case False
    then show thesis using step v eof by (simp add: simps split: if_split_asm)
  next
    case id: True
    show thesis
    proof (cases "tok_string t = ''main''")
      case True
      then show thesis
        using step v id main by (simp add: simps bind_out_Inr_iff split: if_split_asm) fastforce
    next
      case False
      then have s: "tok_string t = ''state''" using step v id by (simp add: simps split: if_split_asm)
      then show thesis
        using step v id state False by (simp add: simps bind_out_Inr_iff split: if_split_asm) fastforce
    qed
  qed
qed

lemma ParseGlobal_wf:
  "ParseGlobal q sv = Inr (q', sv') \<Longrightarrow> wf_quest q \<Longrightarrow> has_info q' \<and> wf_quest q'"
proof (induction q sv rule: ParseGlobal.induct)
  case (1 q sv)
  obtain t sv1 where t: "GetToken [T_Identifier, T_EndOfFile] sv = (t, sv1)" by fastforce
  from "1.prems"(1) t show ?case
  proof (cases rule: ParseGlobal_cases)
    case (main i sv2)
    have "wf_quest (q\<lparr>quest_info := i, has_info := True\<rparr>)" using "1.prems"(2) by (simp add: wf_quest_def)
    from "1.IH"(1) [OF t [symmetric] _ main(2-5) refl main(6) this] show ?thesis using main(1) by blast
  next
    case (state n st sv2)
    have "wf_quest (q\<lparr>states := (states q)(n \<mapsto> st)\<rparr>)"
      using "1.prems"(2) ParseStateBlock_wf [OF state(4)] by (auto simp: wf_quest_def)
    with "1.IH"(2) [OF t [symmetric] _ state(2) _ state(3,4) refl] show ?thesis
      using state(1,3,5,6) by simp
  next
    case eof
    then show ?thesis using "1.prems"(2) by simp
  qed
qed

text \<open>
  C29: A quest that is read has its main block, and every state of it is filed under its own name,
  has its goal among its rules (or the default 0), no flag \<open>has_desc\<close> (the parser sets a local
  variable of that name), and conditions only on \<open>if\<close> and \<open>elseif\<close> actions.
\<close>

theorem quest_read_wf: "Quest text = Inr q \<Longrightarrow> has_info q \<and> wf_quest q"
  using ParseGlobal_wf [of new_quest _ q]
  by (auto simp: Quest_def bind_out_Inr_iff wf_quest_def new_quest_def)

theorem quest_read_wf_witness: "has_info sample_quest \<and> wf_quest sample_quest"
  by (rule quest_read_wf [OF parse_text_grammar [OF sample_lexable sample_core]])

text \<open>
  A scope is looked for behind the function name: \<open>npc.foo()\<close> is no expression and
  \<open>foo npc.()\<close> is one.
\<close>

lemma scope_after_name:
  "map_sum id (\<lambda>q. ()) (Quest ''main{}state a{action npc.foo();}'') =
     Inl (Parser_Error (quoted ''Expected'' ''('' @ '' after function-name. Got: '' @ quoted ''symbol'' ''.'') 1)"
  "isl (Quest ''main{}state a{action foo npc.();}'') = False"
  by code_simp+

end
