(* ===== verification/EOP_Context.thy ===== *)
theory EOP_Context
  imports EOP_Grammar
begin

text \<open>
  The interpreter of EOPlus quests (\<open>src/src/eoplus/context.cpp\<close>). The class \<open>Context\<close> has three
  virtual functions; they are the fields of \<open>hooks\<close> here, over a world of any type. An action
  may call \<open>SetState\<close> on its own context before it returns true, which is the constructor
  \<open>Then_Set_State\<close>; every other action returns or throws. \<open>SetState\<close> runs actions and actions
  set states, so the functions take fuel, the depth of nested calls of \<open>SetState\<close>; the result
  \<open>None\<close> means that the calls nest deeper. The counter \<open>recursive_depth\<close>, a static variable, is
  a field of the state.
\<close>

section \<open>State, hooks and results\<close>

record 'w qcontext =
  cur :: "state option"
  ctx_name :: string
  ctx_finished :: bool
  recursive_depth :: int
  world :: 'w

datatype 'w effect = Done bool 'w | Then_Set_State string 'w | Throw failure 'w

record 'w hooks =
  begin_state :: "string \<Rightarrow> state \<Rightarrow> 'w \<Rightarrow> 'w"
  do_action :: "action \<Rightarrow> 'w \<Rightarrow> 'w effect"
  check_rule :: "expression \<Rightarrow> 'w \<Rightarrow> bool outcome \<times> 'w"

text \<open>An exception keeps the changes made before it; \<open>None\<close> is fuel used up.\<close>

type_synonym ('w, 'a) run = "('a outcome \<times> 'w qcontext) option"

fun then_do :: "('w, 'a) run \<Rightarrow> ('a \<Rightarrow> 'w qcontext \<Rightarrow> ('w, 'b) run) \<Rightarrow> ('w, 'b) run" where
  "then_do None f = None"
| "then_do (Some (Inl e, c)) f = Some (Inl e, c)"
| "then_do (Some (Inr x, c)) f = f x c"

lemma then_do_Inr_iff:
  "then_do r f = Some (Inr y, c') \<longleftrightarrow> (\<exists>x c. r = Some (Inr x, c) \<and> f x c = Some (Inr y, c'))"
  by (cases "(r, f)" rule: then_do.cases) auto

lemma then_do_None_iff:
  "then_do r f = None \<longleftrightarrow> r = None \<or> (\<exists>x c. r = Some (Inr x, c) \<and> f x c = None)"
  by (cases "(r, f)" rule: then_do.cases) auto

lemma then_do_Inl_iff:
  "then_do r f = Some (Inl e, c') \<longleftrightarrow>
     r = Some (Inl e, c') \<or> (\<exists>x c. r = Some (Inr x, c) \<and> f x c = Some (Inl e, c'))"
  by (cases "(r, f)" rule: then_do.cases) auto

lemma then_do_assoc: "then_do (then_do r f) g = then_do r (\<lambda>x c. then_do (f x c) g)"
  by (cases "(r, f)" rule: then_do.cases) auto

lemmas then_do_iffs = then_do_Inr_iff then_do_None_iff then_do_Inl_iff

definition max_recursion :: int where
  "max_recursion = 100"

definition new_context :: "int \<Rightarrow> 'w \<Rightarrow> 'w qcontext" where
  "new_context depth w =
     \<lparr>cur = None, ctx_name = '''', ctx_finished = False, recursive_depth = depth, world = w\<rparr>"

section \<open>Actions and rules\<close>

text \<open>The virtual call of \<open>DoAction\<close>; \<open>ss\<close> is \<open>SetState\<close> with actions.\<close>

definition invoke ::
    "(string \<Rightarrow> 'w qcontext \<Rightarrow> ('w, unit) run) \<Rightarrow> 'w hooks \<Rightarrow> action \<Rightarrow> 'w qcontext \<Rightarrow> ('w, bool) run" where
  "invoke ss hk a c =
     (case do_action hk a (world c) of
        Done b w \<Rightarrow> Some (Inr b, c\<lparr>world := w\<rparr>)
      | Throw e w \<Rightarrow> Some (Inl e, c\<lparr>world := w\<rparr>)
      | Then_Set_State s w \<Rightarrow> then_do (ss s (c\<lparr>world := w\<rparr>)) (\<lambda>_ c. Some (Inr True, c)))"

definition deeper :: "int \<Rightarrow> 'w qcontext \<Rightarrow> 'w qcontext" where
  "deeper n c = c\<lparr>recursive_depth := recursive_depth c + n\<rparr>"

text \<open>The local function \<open>do_action\<close> of \<open>DoActions\<close>: its \<open>return\<close> leaves only itself.\<close>

definition run_action ::
    "(string \<Rightarrow> 'w qcontext \<Rightarrow> ('w, unit) run) \<Rightarrow> 'w hooks \<Rightarrow> action \<Rightarrow> 'w qcontext \<Rightarrow> ('w, unit) run" where
  "run_action ss hk a c =
     then_do (invoke ss hk a c) (\<lambda>b c. Some (Inr (), if b then deeper (- 1) c else c))"

definition check_cond :: "'w hooks \<Rightarrow> expression \<Rightarrow> 'w qcontext \<Rightarrow> ('w, bool) run" where
  "check_cond hk e c = (case check_rule hk e (world c) of (r, w) \<Rightarrow> Some (r, c\<lparr>world := w\<rparr>))"

fun act_loop ::
    "(string \<Rightarrow> 'w qcontext \<Rightarrow> ('w, unit) run) \<Rightarrow> 'w hooks \<Rightarrow> bool \<Rightarrow> action list \<Rightarrow> 'w qcontext \<Rightarrow>
     ('w, unit) run" where
  "act_loop ss hk last_cond [] c = Some (Inr (), c)"
| "act_loop ss hk last_cond (a # as) c =
     (if cond a \<in> {C_ElseIf, C_Else} \<and> last_cond then act_loop ss hk last_cond as c
      else if cond a \<in> {C_If, C_ElseIf} then
        then_do (check_cond hk (cond_expr a) c) (\<lambda>b c.
          if b then then_do (run_action ss hk a c) (\<lambda>_ c. act_loop ss hk b as c)
          else act_loop ss hk b as c)
      else then_do (run_action ss hk a c) (\<lambda>_ c. act_loop ss hk last_cond as c))"

fun rules_loop ::
    "(string \<Rightarrow> 'w qcontext \<Rightarrow> ('w, unit) run) \<Rightarrow> 'w hooks \<Rightarrow> rule list \<Rightarrow> 'w qcontext \<Rightarrow> ('w, bool) run" where
  "rules_loop ss hk [] c = Some (Inr False, c)"
| "rules_loop ss hk (r # rs) c =
     then_do (check_cond hk (rule_expr r) c) (\<lambda>b c.
       if b then
         then_do (invoke ss hk (rule_action r) c) (\<lambda>b c.
           if b then Some (Inr True, c) else rules_loop ss hk rs c)
       else rules_loop ss hk rs c)"

text \<open>
  The guard both \<open>DoActions\<close> and \<open>CheckRules\<close> begin with, and the counter after a body that
  ran: a \<open>catch\<close> takes one off and throws on.
\<close>

definition guarded :: "'a \<Rightarrow> (state \<Rightarrow> 'w qcontext \<Rightarrow> ('w, 'a) run) \<Rightarrow> 'w qcontext \<Rightarrow> ('w, 'a) run" where
  "guarded x body c =
     (case cur c of
        None \<Rightarrow>
          Some (if ctx_finished c then Inr x else Inl (Runtime_Error ''No state selected''), c)
      | Some st \<Rightarrow>
          if recursive_depth c + 1 > max_recursion
          then Some (Inl (Runtime_Error ''Quest action recursion too deep''), c)
          else map_option (\<lambda>(r, c). (r, deeper (- 1) c)) (body st (deeper 1 c)))"

definition CheckRules ::
    "(string \<Rightarrow> 'w qcontext \<Rightarrow> ('w, unit) run) \<Rightarrow> 'w hooks \<Rightarrow> 'w qcontext \<Rightarrow> ('w, bool) run" where
  "CheckRules ss hk c = guarded False (\<lambda>st. rules_loop ss hk (rules st)) c"

definition DoActions ::
    "(string \<Rightarrow> 'w qcontext \<Rightarrow> ('w, unit) run) \<Rightarrow> 'w hooks \<Rightarrow> 'w qcontext \<Rightarrow> ('w, unit) run" where
  "DoActions ss hk c =
     (if cur c = None \<and> ctx_finished c then Some (Inr (), c)
      else then_do (guarded () (\<lambda>st. act_loop ss hk False (actions st)) c) (\<lambda>_ c.
             then_do (CheckRules ss hk c) (\<lambda>_ c. Some (Inr (), c))))"

definition end_names :: "string set" where
  "end_names = {''end'', ''done''}"

primrec SetState ::
    "nat \<Rightarrow> quest \<Rightarrow> 'w hooks \<Rightarrow> string \<Rightarrow> bool \<Rightarrow> 'w qcontext \<Rightarrow> ('w, unit) run" where
  "SetState 0 q hk s b c = None"
| "SetState (Suc n) q hk s b c =
     (let state_id = lowercase s;
          c = c\<lparr>ctx_name := state_id\<rparr>;
          c = (if state_id \<in> end_names then c\<lparr>cur := None, ctx_finished := True\<rparr> else c)
      in case states q state_id of
           None \<Rightarrow>
             Some (if state_id \<in> end_names then Inr ()
                   else Inl (Runtime_Error (''Unknown quest state: '' @ state_id)), c)
         | Some st \<Rightarrow>
             (let c = c\<lparr>ctx_finished := state_id = ''end'', cur := Some st,
                        world := begin_state hk s st (world c)\<rparr>
              in if b then DoActions (\<lambda>s c. SetState n q hk s True c) hk c else Some (Inr (), c)))"

section \<open>Queries from outside\<close>

definition GetGoal :: "'w qcontext \<Rightarrow> rule option outcome" where
  "GetGoal c =
     (case cur c of
        None \<Rightarrow> Inr None
      | Some st \<Rightarrow>
          if rules st = [] then Inr None
          else if goal_rule st < length (rules st) then Inr (Some (rules st ! goal_rule st))
          else Inl Read_Out_Of_Bounds)"

text \<open>The arguments test may read an argument that is not there.\<close>

fun find_rule :: "string \<Rightarrow> (vval list \<Rightarrow> bool outcome) \<Rightarrow> rule list \<Rightarrow> rule option outcome" where
  "find_rule name arg_check [] = Inr None"
| "find_rule name arg_check (r # rs) =
     (if func (rule_expr r) = name then
        bind_out (arg_check (eargs (rule_expr r))) (\<lambda>b.
          if b then Inr (Some r) else find_rule name arg_check rs)
      else find_rule name arg_check rs)"

definition QueryRule :: "string \<Rightarrow> (vval list \<Rightarrow> bool outcome) \<Rightarrow> 'w qcontext \<Rightarrow> bool outcome" where
  "QueryRule name arg_check c =
     (case cur c of
        None \<Rightarrow> Inr False
      | Some st \<Rightarrow> bind_out (find_rule name arg_check (rules st)) (\<lambda>r. Inr (r \<noteq> None)))"

definition TriggerRule ::
    "(string \<Rightarrow> 'w qcontext \<Rightarrow> ('w, unit) run) \<Rightarrow> 'w hooks \<Rightarrow> string \<Rightarrow> (vval list \<Rightarrow> bool outcome) \<Rightarrow>
     'w qcontext \<Rightarrow> ('w, bool) run" where
  "TriggerRule ss hk name arg_check c =
     (case cur c of
        None \<Rightarrow> Some (Inr False, c)
      | Some st \<Rightarrow>
          (case find_rule name arg_check (rules st) of
             Inl e \<Rightarrow> Some (Inl e, c)
           | Inr None \<Rightarrow> Some (Inr False, c)
           | Inr (Some r) \<Rightarrow>
               then_do (invoke ss hk (rule_action r) c) (\<lambda>_ c. Some (Inr True, c))))"


section \<open>Reasoning about runs\<close>

text \<open>
  \<open>run_post t E P r\<close>: a run that returns ends in \<open>P\<close>, one that throws throws an error of \<open>E\<close>,
  and, for \<open>t\<close>, the fuel was enough.
\<close>

fun run_post :: "bool \<Rightarrow> (failure \<Rightarrow> bool) \<Rightarrow> ('w qcontext \<Rightarrow> bool) \<Rightarrow> ('w, 'a) run \<Rightarrow> bool" where
  "run_post t E P None = (\<not> t)"
| "run_post t E P (Some (Inl e, c)) = E e"
| "run_post t E P (Some (Inr x, c)) = P c"

lemma run_post_then:
  assumes "run_post t E P r" "\<And>x c. P c \<Longrightarrow> run_post t E Q (f x c)"
  shows "run_post t E Q (then_do r f)"
  using assms by (cases "(r, f)" rule: then_do.cases) auto

lemma run_post_weaken:
  assumes "run_post t E P r" "\<And>c. P c \<Longrightarrow> Q c"
  shows "run_post t E Q r"
  using assms by (cases "(t, E, P, r)" rule: run_post.cases) auto

text \<open>
  What the interpreter relies on: \<open>SetState\<close>, called from an action of the quest, keeps the
  property, the hooks throw errors of \<open>E\<close> only, and the property looks at neither the world
  nor the counter, and knows the state.
\<close>

locale interpreter =
  fixes ss :: "string \<Rightarrow> 'w qcontext \<Rightarrow> ('w, unit) run"
    and hk :: "'w hooks"
    and t :: bool
    and E :: "failure \<Rightarrow> bool"
    and P :: "'w qcontext \<Rightarrow> bool"
    and acts :: "action set"
  assumes ss_post: "a \<in> acts \<Longrightarrow> do_action hk a w = Then_Set_State s w' \<Longrightarrow> P c \<Longrightarrow>
      run_post t E P (ss s (c\<lparr>world := w'\<rparr>))"
    and throws: "a \<in> acts \<Longrightarrow> do_action hk a w = Throw e w' \<Longrightarrow> E e"
    and rule_throws: "check_rule hk x w = (Inl e, w') \<Longrightarrow> E e"
    and too_deep: "E (Runtime_Error ''Quest action recursion too deep'')"
    and world_free: "P c \<Longrightarrow> P (c\<lparr>world := w\<rparr>)"
    and depth_free: "P c \<Longrightarrow> P (deeper n c)"
    and no_state: "P c \<Longrightarrow> cur c = None \<Longrightarrow> ctx_finished c"
    and state_acts: "P c \<Longrightarrow> cur c = Some st \<Longrightarrow> set (actions st) \<union> rule_action ` set (rules st) \<subseteq> acts"
begin

lemma invoke_post: "a \<in> acts \<Longrightarrow> P c \<Longrightarrow> run_post t E P (invoke ss hk a c)"
  using ss_post throws
  by (auto simp: invoke_def world_free split: effect.split intro!: run_post_then)

lemma run_action_post: "a \<in> acts \<Longrightarrow> P c \<Longrightarrow> run_post t E P (run_action ss hk a c)"
  unfolding run_action_def by (rule run_post_then [OF invoke_post]) (auto simp: depth_free)

lemma check_cond_post: "P c \<Longrightarrow> run_post t E P (check_cond hk x c)"
  using rule_throws by (cases "fst (check_rule hk x (world c))")
    (force simp: check_cond_def world_free split: prod.split)+

lemma act_loop_post: "set as \<subseteq> acts \<Longrightarrow> P c \<Longrightarrow> run_post t E P (act_loop ss hk l as c)"
proof (induction as arbitrary: l c)
  case (Cons a as)
  have "run_post t E P (then_do (run_action ss hk a c) (\<lambda>_ c. act_loop ss hk l as c))" if "P c" for c l
    using Cons that by (intro run_post_then [OF run_action_post]) auto
  then show ?case
    using Cons by (auto intro!: run_post_then [OF check_cond_post])
qed simp

lemma rules_loop_post: "rule_action ` set rs \<subseteq> acts \<Longrightarrow> P c \<Longrightarrow> run_post t E P (rules_loop ss hk rs c)"
proof (induction rs arbitrary: c)
  case (Cons r rs)
  then show ?case
    by (auto intro!: run_post_then [OF check_cond_post] run_post_then [OF invoke_post])
qed simp

lemma guarded_post:
  assumes "P c" "\<And>st c. cur c = Some st \<Longrightarrow> P c \<Longrightarrow> run_post t E P (body st c)"
  shows "run_post t E P (guarded x body c)"
proof (cases "cur c")
  case None
  then show ?thesis using assms(1) no_state by (simp add: guarded_def)
next
  case (Some st)
  have "run_post t E P (body st (deeper 1 c))"
    using assms depth_free Some by (simp add: deeper_def)
  then show ?thesis
    using Some too_deep depth_free
    by (cases "(t, E, P, body st (deeper 1 c))" rule: run_post.cases) (auto simp: guarded_def)
qed

lemma CheckRules_post: "P c \<Longrightarrow> run_post t E P (CheckRules ss hk c)"
  unfolding CheckRules_def using state_acts by (intro guarded_post rules_loop_post) auto

lemma DoActions_post: "P c \<Longrightarrow> run_post t E P (DoActions ss hk c)"
proof (cases "cur c = None \<and> ctx_finished c")
  case False
  assume "P c"
  then have "run_post t E P (guarded () (\<lambda>st. act_loop ss hk False (actions st)) c)"
    using state_acts by (intro guarded_post act_loop_post) auto
  then show ?thesis
    using False CheckRules_post by (auto simp: DoActions_def intro!: run_post_then [where P = P])
qed (simp add: DoActions_def)

lemma TriggerRule_post:
  "P c \<Longrightarrow> (\<And>as e. check as = Inl e \<Longrightarrow> E e) \<Longrightarrow> run_post t E P (TriggerRule ss hk name check c)"
proof (cases "cur c")
  case (Some st)
  assume P: "P c" and E: "\<And>as e. check as = Inl e \<Longrightarrow> E e"
  have 1: "find_rule name check rs = Inr (Some r) \<Longrightarrow> r \<in> set rs" for rs r
    by (induction rs) (auto simp: bind_out_Inr_iff split: if_split_asm)
  have 2: "find_rule name check rs = Inl e \<Longrightarrow> E e" for rs e
  proof (induction rs)
    case (Cons r rs)
    then show ?case using E by (cases "check (eargs (rule_expr r))") (auto split: if_split_asm)
  qed simp
  show ?thesis
    using 1 2 P Some state_acts [OF P Some]
    by (auto simp: TriggerRule_def split: sum.split option.split
        intro!: run_post_then [OF invoke_post [of _ c]])
qed (simp add: TriggerRule_def)

end


section \<open>The state of a context\<close>

text \<open>The state and the name go together; without a state the quest has ended.\<close>

definition ctx_ok :: "quest \<Rightarrow> 'w qcontext \<Rightarrow> bool" where
  "ctx_ok q c \<longleftrightarrow>
     (case cur c of
        None \<Rightarrow> ctx_finished c \<and> ctx_name c \<in> end_names \<and> states q (ctx_name c) = None
      | Some st \<Rightarrow> states q (ctx_name c) = Some st \<and> (ctx_finished c \<longleftrightarrow> ctx_name c = ''end''))"

lemma ctx_ok_free [simp]:
  "ctx_ok q (c\<lparr>world := w\<rparr>) = ctx_ok q c" "ctx_ok q (deeper n c) = ctx_ok q c"
  by (simp_all add: ctx_ok_def deeper_def split: option.split)

lemma ctx_ok_enter:
  "states q m = Some st \<Longrightarrow>
     ctx_ok q (c\<lparr>ctx_name := m, ctx_finished := m = ''end'', cur := Some st\<rparr>)"
  "states q m = None \<Longrightarrow> m \<in> end_names \<Longrightarrow>
     ctx_ok q (c\<lparr>ctx_name := m, cur := None, ctx_finished := True\<rparr>)"
  by (simp_all add: ctx_ok_def)

lemma ctx_ok_cur:
  "ctx_ok q c \<Longrightarrow> cur c = None \<Longrightarrow> ctx_finished c"
  "ctx_ok q c \<Longrightarrow> cur c = Some st \<Longrightarrow> states q (ctx_name c) = Some st"
  by (simp_all add: ctx_ok_def)

definition state_actions :: "state \<Rightarrow> action set" where
  "state_actions st = set (actions st) \<union> rule_action ` set (rules st)"

definition quest_actions :: "quest \<Rightarrow> action set" where
  "quest_actions q = (\<Union>st \<in> ran (states q). state_actions st)"

definition known :: "quest \<Rightarrow> string \<Rightarrow> bool" where
  "known q s \<longleftrightarrow> lowercase s \<in> end_names \<or> lowercase s \<in> dom (states q)"

definition unknown_error :: "string \<Rightarrow> failure" where
  "unknown_error s = Runtime_Error (''Unknown quest state: '' @ lowercase s)"

lemma SetState_cases:
  "SetState (Suc n) q hk s b c =
     (case states q (lowercase s) of
        None \<Rightarrow>
          if lowercase s \<in> end_names
          then Some (Inr (), c\<lparr>ctx_name := lowercase s, cur := None, ctx_finished := True\<rparr>)
          else Some (Inl (unknown_error s), c\<lparr>ctx_name := lowercase s\<rparr>)
      | Some st \<Rightarrow>
          (let c = c\<lparr>ctx_name := lowercase s, ctx_finished := lowercase s = ''end'', cur := Some st,
                     world := begin_state hk s st (world c)\<rparr>
           in if b then DoActions (\<lambda>s c. SetState n q hk s True c) hk c else Some (Inr (), c)))"
  by (auto simp: unknown_error_def Let_def split: option.split)

lemma SetState_interpreter:
  assumes target: "\<And>a w s w'. a \<in> quest_actions q \<Longrightarrow> do_action hk a w = Then_Set_State s w' \<Longrightarrow>
      known q s \<or> E (unknown_error s)"
    and throws: "\<And>a w e w'. a \<in> quest_actions q \<Longrightarrow> do_action hk a w = Throw e w' \<Longrightarrow> E e"
    and rule_throws: "\<And>x w e w'. check_rule hk x w = (Inl e, w') \<Longrightarrow> E e"
    and too_deep: "E (Runtime_Error ''Quest action recursion too deep'')"
    and ss: "\<And>s c. known q s \<or> E (unknown_error s) \<Longrightarrow> run_post False E (ctx_ok q) (ss s c)"
  shows "interpreter ss hk False E (ctx_ok q) (quest_actions q)"
proof (unfold_locales, goal_cases)
  case (1 a w s w' c)
  then show ?case using ss target by blast
next
  case (8 c st)
  then have "st \<in> ran (states q)" by (auto dest: ctx_ok_cur(2) simp: ran_def)
  then show ?case by (auto simp: quest_actions_def state_actions_def)
qed (use throws rule_throws too_deep in \<open>auto dest: ctx_ok_cur(1)\<close>)

lemma SetState_post:
  assumes hooks: "\<And>a w s w'. a \<in> quest_actions q \<Longrightarrow> do_action hk a w = Then_Set_State s w' \<Longrightarrow>
      known q s \<or> E (unknown_error s)"
    "\<And>a w e w'. a \<in> quest_actions q \<Longrightarrow> do_action hk a w = Throw e w' \<Longrightarrow> E e"
    "\<And>x w e w'. check_rule hk x w = (Inl e, w') \<Longrightarrow> E e"
    "E (Runtime_Error ''Quest action recursion too deep'')"
  shows "known q s \<or> E (unknown_error s) \<Longrightarrow> run_post False E (ctx_ok q) (SetState n q hk s b c)"
proof (induction n arbitrary: s b c)
  case (Suc n)
  have i: "interpreter (\<lambda>s c. SetState n q hk s True c) hk False E (ctx_ok q) (quest_actions q)"
    by (rule SetState_interpreter [OF hooks Suc.IH])
  show ?case
    using Suc.prems unfolding SetState_cases
    by (auto simp: Let_def ctx_ok_enter known_def dom_def split: option.split
        intro!: interpreter.DoActions_post [OF i])
qed simp

text \<open>
  The rank of a state bounds the nesting: every state an action of a state sets has a smaller
  rank, so fuel above the rank of the first state is enough.
\<close>

definition ranked :: "quest \<Rightarrow> 'w hooks \<Rightarrow> (string \<Rightarrow> nat) \<Rightarrow> bool" where
  "ranked q hk rank \<longleftrightarrow>
     (\<forall>m st a w s w'. states q m = Some st \<longrightarrow> a \<in> state_actions st \<longrightarrow>
        do_action hk a w = Then_Set_State s w' \<longrightarrow> rank (lowercase s) < rank m)"

definition below :: "quest \<Rightarrow> (string \<Rightarrow> nat) \<Rightarrow> nat \<Rightarrow> 'w qcontext \<Rightarrow> bool" where
  "below q rank k c \<longleftrightarrow> ctx_ok q c \<and> (cur c \<noteq> None \<longrightarrow> rank (ctx_name c) \<le> k)"

lemma below_free [simp]:
  "below q rank k (c\<lparr>world := w\<rparr>) = below q rank k c" "below q rank k (deeper n c) = below q rank k c"
  by (simp_all add: below_def) (simp_all add: deeper_def)

lemma below_enter:
  "states q m = Some st \<Longrightarrow>
     below q rank (rank m) (c\<lparr>ctx_name := m, ctx_finished := m = ''end'', cur := Some st\<rparr>)"
  "states q m = None \<Longrightarrow> m \<in> end_names \<Longrightarrow>
     below q rank (rank m) (c\<lparr>ctx_name := m, cur := None, ctx_finished := True\<rparr>)"
  by (simp_all add: below_def ctx_ok_enter)

lemma below_interpreter:
  assumes "ranked q hk rank" "k \<le> n"
    and ss: "\<And>s c. rank (lowercase s) < n \<Longrightarrow> run_post True (\<lambda>_. True) (below q rank (rank (lowercase s))) (ss s c)"
  shows "interpreter ss hk True (\<lambda>_. True) (below q rank k)
    (\<Union>m \<in> {m. rank m \<le> k}. \<Union>st \<in> {st. states q m = Some st}. state_actions st)"
proof (unfold_locales, goal_cases)
  case (1 a w s w' c)
  then have "rank (lowercase s) < k" using assms(1) by (fastforce simp: ranked_def)
  then show ?case
    using ss [of s] assms(2) by (auto intro!: run_post_weaken [OF ss] simp: below_def)
next
  case (8 c st)
  then show ?case by (auto simp: below_def state_actions_def dest!: ctx_ok_cur(2))
next
  case (7 c)
  then show ?case by (auto simp: below_def dest: ctx_ok_cur(1))
qed auto

lemma SetState_below:
  assumes "ranked q hk rank"
  shows "rank (lowercase s) < n \<Longrightarrow>
    run_post True (\<lambda>_. True) (below q rank (rank (lowercase s))) (SetState n q hk s b c)"
proof (induction n arbitrary: s b c)
  case (Suc n)
  have i: "interpreter (\<lambda>s c. SetState n q hk s True c) hk True (\<lambda>_. True) (below q rank (rank (lowercase s)))
    (\<Union>m \<in> {m. rank m \<le> rank (lowercase s)}. \<Union>st \<in> {st. states q m = Some st}. state_actions st)"
    using Suc by (intro below_interpreter [OF assms]) auto
  show ?case
    unfolding SetState_cases
    by (auto simp: Let_def below_enter split: option.split
        intro!: interpreter.DoActions_post [OF i])
qed simp


section \<open>Properties\<close>

text \<open>The contexts the calls from outside lead to, with any change of the world between them.\<close>

inductive reachable :: "quest \<Rightarrow> 'w hooks \<Rightarrow> 'w qcontext \<Rightarrow> bool" for q hk where
  r_start: "SetState n q hk s b (new_context d w) = Some (Inr (), c) \<Longrightarrow> reachable q hk c"
| r_set: "reachable q hk c \<Longrightarrow> SetState n q hk s b c = Some (Inr (), c') \<Longrightarrow> reachable q hk c'"
| r_trigger: "reachable q hk c \<Longrightarrow>
     TriggerRule (\<lambda>s c. SetState n q hk s True c) hk name check c = Some (Inr r, c') \<Longrightarrow> reachable q hk c'"
| r_check: "reachable q hk c \<Longrightarrow>
     CheckRules (\<lambda>s c. SetState n q hk s True c) hk c = Some (Inr r, c') \<Longrightarrow> reachable q hk c'"
| r_world: "reachable q hk c \<Longrightarrow> reachable q hk (c\<lparr>world := w\<rparr>)"
| r_depth: "reachable q hk c \<Longrightarrow> reachable q hk (deeper n c)"

lemma SetState_ok: "SetState n q hk s b c = Some (Inr (), c') \<Longrightarrow> ctx_ok q c'"
  using SetState_post [of q hk "\<lambda>_. True" s n b c] by simp

lemma SetState_free: "interpreter (\<lambda>s c. SetState n q hk s True c) hk False (\<lambda>_. True) (ctx_ok q) (quest_actions q)"
  by (rule SetState_interpreter) (auto intro!: SetState_post)

interpretation quest_run: interpreter
  "\<lambda>s c. SetState n q hk s True c" hk False "\<lambda>_. True" "ctx_ok q" "quest_actions q"
  for n q and hk :: "'w hooks"
  by (rule SetState_free)

lemma reachable_ok: "reachable q hk c \<Longrightarrow> ctx_ok q c"
proof (induction rule: reachable.induct)
  case (r_trigger c n name check r c')
  then show ?case using quest_run.TriggerRule_post [of q c check n hk name] by simp
next
  case (r_check c n r c')
  then show ?case using quest_run.CheckRules_post [of q c n hk] by simp
qed (auto intro: SetState_ok)

text \<open>
  C32: Whatever calls returned before, and whatever the actions did to the world, a context holds
  the state its name names, or has ended without one; it is finished exactly in the state
  \<open>end\<close> or without a state. So the goal of a well-formed quest is always a rule of the state.
\<close>

theorem context_invariant:
  assumes "reachable q hk c"
  shows "ctx_ok q c \<and> (wf_quest q \<longrightarrow> returned (GetGoal c))"
proof (intro conjI impI)
  show ok: "ctx_ok q c" using assms by (rule reachable_ok)
  assume wf: "wf_quest q"
  show "returned (GetGoal c)"
  proof (cases "cur c")
    case (Some st)
    then have "wf_state st" using ok wf by (auto simp: wf_quest_def dest: ctx_ok_cur(2))
    then show ?thesis using Some by (auto simp: GetGoal_def wf_state_def)
  qed (simp add: GetGoal_def)
qed


definition context_error :: "failure \<Rightarrow> bool" where
  "context_error e \<longleftrightarrow> e = Runtime_Error ''No state selected'' \<or> (\<exists>s. e = unknown_error s)"

text \<open>Actions that only name states the quest has, and hooks that throw no error of the context.\<close>

definition sound_hooks :: "quest \<Rightarrow> 'w hooks \<Rightarrow> bool" where
  "sound_hooks q hk \<longleftrightarrow>
     (\<forall>a \<in> quest_actions q. \<forall>w w'. (\<forall>s. do_action hk a w = Then_Set_State s w' \<longrightarrow> known q s) \<and>
        (\<forall>e. do_action hk a w = Throw e w' \<longrightarrow> \<not> context_error e)) \<and>
     (\<forall>x w e w'. check_rule hk x w = (Inl e, w') \<longrightarrow> \<not> context_error e)"

lemma too_deep_context: "\<not> context_error (Runtime_Error ''Quest action recursion too deep'')"
  by (simp add: context_error_def unknown_error_def)

lemma sound_hooksD:
  assumes "sound_hooks q hk"
  shows "a \<in> quest_actions q \<Longrightarrow> do_action hk a w = Then_Set_State s w' \<Longrightarrow> known q s"
    "a \<in> quest_actions q \<Longrightarrow> do_action hk a w = Throw e w' \<Longrightarrow> \<not> context_error e"
    "check_rule hk x w = (Inl e, w') \<Longrightarrow> \<not> context_error e"
  using assms unfolding sound_hooks_def by blast+

lemma SetState_sound:
  assumes "sound_hooks q hk" "known q s"
  shows "run_post False (\<lambda>e. \<not> context_error e) (ctx_ok q) (SetState n q hk s b c)"
  using assms(2) too_deep_context by (intro SetState_post) (auto dest: sound_hooksD [OF assms(1)])

lemma sound_interpreter:
  assumes "sound_hooks q hk"
  shows "interpreter (\<lambda>s c. SetState n q hk s True c) hk False (\<lambda>e. \<not> context_error e) (ctx_ok q) (quest_actions q)"
  by (intro SetState_interpreter SetState_sound assms too_deep_context)
    (use sound_hooksD [OF assms] in \<open>auto simp: context_error_def [of "unknown_error _"]\<close>)

text \<open>
  In a quest whose actions name only states it has, neither setting such a state nor checking
  the rules of a context that was reached ends in ``No state selected'' or ``Unknown quest
  state'', however the calls nest.
\<close>

theorem context_sound:
  assumes "sound_hooks q hk"
  shows "(known q s \<longrightarrow> SetState n q hk s b c = Some (Inl e, c') \<longrightarrow> \<not> context_error e) \<and>
    (reachable q hk c \<longrightarrow>
      CheckRules (\<lambda>s c. SetState n q hk s True c) hk c = Some (Inl e, c') \<longrightarrow> \<not> context_error e)"
  using SetState_sound [OF assms, of s n b c] reachable_ok [of q hk c]
    interpreter.CheckRules_post [OF sound_interpreter [OF assms], of c n] by auto

section \<open>Fuel\<close>

text \<open>A run that returned returns the same with more fuel.\<close>

definition less_fuel :: "('w, 'a) run \<Rightarrow> ('w, 'a) run \<Rightarrow> bool" where
  "less_fuel r r' \<longleftrightarrow> r = None \<or> r = r'"

lemma less_fuel_refl [simp]: "less_fuel r r"
  by (simp add: less_fuel_def)

lemma less_fuel_then:
  "less_fuel r r' \<Longrightarrow> (\<And>x c. less_fuel (f x c) (f' x c)) \<Longrightarrow> less_fuel (then_do r f) (then_do r' f')"
  unfolding less_fuel_def by (cases "(r, f)" rule: then_do.cases) (auto, blast)

locale more_fuel =
  fixes ss ss' :: "string \<Rightarrow> 'w qcontext \<Rightarrow> ('w, unit) run"
  assumes less: "\<And>s c. less_fuel (ss s c) (ss' s c)"
begin

lemma invoke_fuel: "less_fuel (invoke ss hk a c) (invoke ss' hk a c)"
  by (auto simp: invoke_def split: effect.split intro!: less_fuel_then less)

lemma run_action_fuel: "less_fuel (run_action ss hk a c) (run_action ss' hk a c)"
  unfolding run_action_def by (intro less_fuel_then invoke_fuel) auto

lemma act_loop_fuel: "less_fuel (act_loop ss hk l as c) (act_loop ss' hk l as c)"
  by (induction as arbitrary: l c) (auto intro!: less_fuel_then run_action_fuel)

lemma rules_loop_fuel: "less_fuel (rules_loop ss hk rs c) (rules_loop ss' hk rs c)"
  by (induction rs arbitrary: c) (auto intro!: less_fuel_then invoke_fuel)

lemma guarded_fuel:
  "(\<And>st c. less_fuel (body st c) (body' st c)) \<Longrightarrow> less_fuel (guarded x body c) (guarded x body' c)"
  unfolding less_fuel_def by (cases "cur c") (auto simp: guarded_def, metis+)

lemma DoActions_fuel: "less_fuel (DoActions ss hk c) (DoActions ss' hk c)"
  unfolding DoActions_def CheckRules_def
  by (auto intro!: less_fuel_then guarded_fuel act_loop_fuel rules_loop_fuel)

end

lemma SetState_fuel: "less_fuel (SetState n q hk s b c) (SetState (n + k) q hk s b c)"
proof (induction n arbitrary: s b c)
  case (Suc n)
  show ?case
    by (auto simp only: add_Suc SetState_cases Let_def split: option.split if_split
        intro!: more_fuel.DoActions_fuel more_fuel.intro Suc less_fuel_refl)
qed (simp add: less_fuel_def)

interpretation fuel: more_fuel "\<lambda>s c. SetState n q hk s True c" "\<lambda>s c. SetState (n + k) q hk s True c"
  for n k q and hk :: "'w hooks"
  by unfold_locales (rule SetState_fuel)

text \<open>
  C33: Where a rank of the states goes down along every state an action sets, \<open>SetState\<close> returns or
  throws with fuel above the rank of the state, and more fuel changes nothing.
\<close>

theorem context_returns:
  assumes "ranked q hk rank" "rank (lowercase s) < n"
  shows "\<exists>r. \<forall>k. SetState (n + k) q hk s b c = Some r"
proof -
  obtain r where r: "SetState n q hk s b c = Some r"
    using SetState_below [OF assms, of b c] by (cases "SetState n q hk s b c") auto
  then have "SetState (n + k) q hk s b c = Some r" for k
    using SetState_fuel [of n q hk s b c k] by (simp add: less_fuel_def)
  then show ?thesis by blast
qed


section \<open>Quests that go round in circles\<close>

definition goto_action :: "string \<Rightarrow> action" where
  "goto_action s = plain_action \<lparr>scopes = [], func = ''setstate'', eargs = [VString s]\<rparr>"

definition self_quest :: quest where
  "self_quest = new_quest\<lparr>states := [''a'' \<mapsto> new_state\<lparr>actions := [goto_action ''a'']\<rparr>]\<rparr>"

definition cycle_quest :: quest where
  "cycle_quest = new_quest\<lparr>states :=
     [''a'' \<mapsto> new_state\<lparr>actions := [goto_action ''b'', goto_action ''a'']\<rparr>, ''b'' \<mapsto> new_state]\<rparr>"

text \<open>Hooks for which only \<open>setstate\<close> does something, and only \<open>always\<close> holds.\<close>

definition goto_hooks :: "unit hooks" where
  "goto_hooks =
     \<lparr>begin_state = (\<lambda>s st w. w),
      do_action = (\<lambda>a w. if func (act_expr a) = ''setstate''
                         then Then_Set_State (as_string (hd (eargs (act_expr a)))) w else Done False w),
      check_rule = (\<lambda>x w. (Inr (func x = ''always''), w))\<rparr>"

lemma goto_hooks_goto: "do_action goto_hooks (goto_action s) w = Then_Set_State s w"
  by (simp add: goto_hooks_def goto_action_def plain_action_def)

lemma lowercase_names: "lowercase ''a'' = ''a''" "lowercase ''b'' = ''b''" "''a'' \<notin> end_names" "''b'' \<notin> end_names"
  by (simp_all add: lowercase_def tolower_def end_names_def)

text \<open>One round: the action that returns true takes one off the counter its own call added.\<close>

lemma run_goto:
  assumes "\<And>w. do_action hk (goto_action s) w = Then_Set_State s w"
  shows "run_action ss hk (goto_action s) c =
    then_do (ss s c) (\<lambda>_ c. Some (Inr (), deeper (- 1) c))"
  using assms by (simp add: run_action_def invoke_def then_do_assoc)

lemma cond_goto [simp]: "cond (goto_action s) = C_None"
  by (simp add: goto_action_def plain_action_def)

lemma cycle_state_b:
  assumes "recursive_depth c < 100"
  shows "\<exists>c'. SetState (Suc n) cycle_quest hk ''b'' True c = Some (Inr (), c') \<and>
    recursive_depth c' = recursive_depth c"
  using assms
  by (simp add: SetState_cases lowercase_names cycle_quest_def DoActions_def CheckRules_def guarded_def
      new_state_def deeper_def max_recursion_def Let_def del: SetState.simps)

lemma cycle_none:
  assumes "\<And>s w. do_action hk (goto_action s) w = Then_Set_State s w"
  shows "recursive_depth c \<le> 98 \<Longrightarrow> SetState n cycle_quest hk ''a'' True c = None"
proof (induction n arbitrary: c)
  case (Suc n)
  show ?case
  proof (cases n)
    case 0
    then show ?thesis
      using Suc.prems
      by (simp add: SetState_cases lowercase_names cycle_quest_def DoActions_def guarded_def
          new_state_def deeper_def max_recursion_def Let_def run_goto [OF assms] del: SetState.simps(2))
  next
    case (Suc m)
    let ?st = "new_state\<lparr>actions := [goto_action ''b'', goto_action ''a'']\<rparr>"
    let ?c = "deeper 1 (c\<lparr>ctx_name := ''a'', ctx_finished := False, cur := Some ?st,
        world := begin_state hk ''a'' ?st (world c)\<rparr>)"
    obtain c1 where c1: "SetState n cycle_quest hk ''b'' True ?c = Some (Inr (), c1)"
      "recursive_depth c1 = recursive_depth ?c"
      using cycle_state_b [of ?c m hk] Suc Suc.prems \<open>recursive_depth c \<le> 98\<close> by (auto simp: deeper_def)
    have "SetState n cycle_quest hk ''a'' True (deeper (- 1) c1) = None"
      using Suc.IH c1(2) \<open>recursive_depth c \<le> 98\<close> by (simp add: deeper_def)
    then have "act_loop (\<lambda>s c. SetState n cycle_quest hk s True c) hk False (actions ?st) ?c = None"
      using c1(1) by (simp add: run_goto [OF assms])
    moreover have "states cycle_quest ''a'' = Some ?st" by (simp add: cycle_quest_def)
    ultimately show ?thesis
      using \<open>recursive_depth c \<le> 98\<close>
      by (simp add: SetState_cases lowercase_names DoActions_def guarded_def max_recursion_def Let_def
          del: SetState.simps)
  qed
qed simp

lemma self_too_deep:
  assumes "\<And>s w. do_action hk (goto_action s) w = Then_Set_State s w"
  shows "recursive_depth c = 100 - int k \<Longrightarrow>
    \<exists>c'. SetState (Suc k) self_quest hk ''a'' True c =
      Some (Inl (Runtime_Error ''Quest action recursion too deep''), c') \<and> recursive_depth c' = recursive_depth c"
proof (induction k arbitrary: c)
  case 0
  then show ?case
    by (simp add: SetState_cases lowercase_names self_quest_def DoActions_def guarded_def
        deeper_def max_recursion_def Let_def del: SetState.simps)
next
  case (Suc k)
  let ?st = "new_state\<lparr>actions := [goto_action ''a'']\<rparr>"
  let ?c = "deeper 1 (c\<lparr>ctx_name := ''a'', ctx_finished := False, cur := Some ?st,
      world := begin_state hk ''a'' ?st (world c)\<rparr>)"
  obtain c1 where c1: "SetState (Suc k) self_quest hk ''a'' True ?c =
      Some (Inl (Runtime_Error ''Quest action recursion too deep''), c1)" "recursive_depth c1 = recursive_depth ?c"
    using Suc.IH [of ?c] Suc.prems by (auto simp: deeper_def)
  have "act_loop (\<lambda>s c. SetState (Suc k) self_quest hk s True c) hk False (actions ?st) ?c =
      Some (Inl (Runtime_Error ''Quest action recursion too deep''), c1)"
    using c1(1) by (simp add: run_goto [OF assms] del: SetState.simps)
  moreover have "states self_quest ''a'' = Some ?st" by (simp add: self_quest_def)
  ultimately show ?case
    using Suc.prems c1(2)
    by (simp add: SetState_cases [of "Suc k"] lowercase_names DoActions_def guarded_def max_recursion_def Let_def
        del: SetState.simps) (simp add: deeper_def)
qed

text \<open>
  The limit of 100 nested calls stops a state that sets itself, and the counter is back where
  it was. It does not stop a state that sets another state before it sets itself: the action
  that returned has taken one too many off the counter, so the calls nest without end.
\<close>

theorem context_recursion_limit:
  assumes "\<And>s w. do_action hk (goto_action s) w = Then_Set_State s w"
  shows "(recursive_depth c = 100 - int k \<longrightarrow>
      (\<exists>c'. SetState (Suc k) self_quest hk ''a'' True c =
        Some (Inl (Runtime_Error ''Quest action recursion too deep''), c') \<and>
        recursive_depth c' = recursive_depth c)) \<and>
    (recursive_depth c \<le> 98 \<longrightarrow> SetState n cycle_quest hk ''a'' True c = None)"
  using self_too_deep [OF assms] cycle_none [OF assms] by auto


section \<open>Witnesses\<close>

definition sample_context :: "unit qcontext" where
  "sample_context = (new_context 0 ())\<lparr>ctx_name := ''begin'', cur := states sample_quest ''begin''\<rparr>"

lemma lowercase_begin: "lowercase ''begin'' = ''begin''" "''begin'' \<notin> end_names"
  by (simp_all add: lowercase_def tolower_def end_names_def)

lemma sample_start:
  "SetState 1 sample_quest goto_hooks ''begin'' True (new_context 0 ()) = Some (Inr (), sample_context)"
  by (simp add: SetState_cases lowercase_begin sample_quest_def sample_context_def
      DoActions_def CheckRules_def guarded_def new_state_def sample_goal_def plain_action_def goto_hooks_def
      check_cond_def deeper_def max_recursion_def new_context_def Let_def del: SetState.simps)

lemma sample_reachable: "reachable sample_quest goto_hooks sample_context"
  using sample_start by (rule r_start)

theorem context_invariant_witness:
  "ctx_ok sample_quest sample_context \<and> returned (GetGoal sample_context)"
proof
  show "ctx_ok sample_quest sample_context" using context_invariant [OF sample_reachable] ..
  show "returned (GetGoal sample_context)"
    by (rule context_invariant [OF sample_reachable, THEN conjunct2, THEN mp])
      (simp add: wf_quest_def wf_state_def sample_quest_def new_state_def new_quest_def sample_goal_def
        plain_action_def)
qed

lemma self_actions: "quest_actions self_quest = {goto_action ''a''}"
  by (simp add: quest_actions_def self_quest_def new_quest_def new_state_def state_actions_def)

lemma self_sound: "sound_hooks self_quest goto_hooks"
proof -
  have "known self_quest ''a''" using lowercase_names by (simp add: known_def self_quest_def)
  then show ?thesis
    unfolding sound_hooks_def self_actions by (auto simp: goto_hooks_goto) (simp add: goto_hooks_def)
qed

theorem context_sound_witness:
  "(\<exists>e c. SetState 101 self_quest goto_hooks ''a'' True (new_context 0 ()) = Some (Inl e, c) \<and>
      \<not> context_error e) \<and>
   (\<exists>e c. CheckRules (\<lambda>s c. SetState 9 self_quest goto_hooks s True c) goto_hooks
       (deeper 100 ((new_context 0 ())\<lparr>ctx_name := ''a'', cur := states self_quest ''a''\<rparr>)) = Some (Inl e, c) \<and>
      \<not> context_error e)"
proof (intro conjI)
  have "known self_quest ''a''" using lowercase_names by (simp add: known_def self_quest_def)
  moreover obtain c where "SetState 101 self_quest goto_hooks ''a'' True (new_context 0 ()) =
      Some (Inl (Runtime_Error ''Quest action recursion too deep''), c)"
    using self_too_deep [of goto_hooks "new_context 0 ()" 100] goto_hooks_goto by (auto simp: new_context_def)
  ultimately show "\<exists>e c. SetState 101 self_quest goto_hooks ''a'' True (new_context 0 ()) = Some (Inl e, c) \<and>
      \<not> context_error e"
    using context_sound [OF self_sound] by blast
  let ?c = "(new_context 0 ())\<lparr>ctx_name := ''a'', cur := states self_quest ''a''\<rparr>"
  have "SetState 1 self_quest goto_hooks ''a'' False (new_context 0 ()) = Some (Inr (), ?c)"
    by (simp add: SetState_cases lowercase_names self_quest_def new_context_def
        goto_hooks_def Let_def del: SetState.simps)
  then have r: "reachable self_quest goto_hooks (deeper 100 ?c)" by (intro r_depth r_start)
  have "CheckRules (\<lambda>s c. SetState 9 self_quest goto_hooks s True c) goto_hooks (deeper 100 ?c) =
      Some (Inl (Runtime_Error ''Quest action recursion too deep''), deeper 100 ?c)"
    by (simp add: CheckRules_def guarded_def deeper_def self_quest_def new_context_def max_recursion_def
        del: SetState.simps)
  then show "\<exists>e c. CheckRules (\<lambda>s c. SetState 9 self_quest goto_hooks s True c) goto_hooks (deeper 100 ?c) =
      Some (Inl e, c) \<and> \<not> context_error e"
    using context_sound [OF self_sound] r by blast
qed

theorem context_returns_witness:
  "\<exists>r. \<forall>k. SetState (2 + k) sample_quest goto_hooks ''begin'' True (new_context 0 ()) = Some r"
proof (rule context_returns)
  show "ranked sample_quest goto_hooks (\<lambda>m. if m = ''begin'' then 1 else 0)"
    by (auto simp: ranked_def sample_quest_def sample_goal_def plain_action_def goto_hooks_def
        new_quest_def new_state_def state_actions_def lowercase_def tolower_def split: if_splits)
  show "(if lowercase ''begin'' = ''begin'' then 1 else 0) < (2::nat)" by simp
qed

theorem context_recursion_limit_witness:
  "SetState 9 cycle_quest goto_hooks ''a'' True (new_context 98 ()) = None \<and>
   (\<exists>c. SetState 101 self_quest goto_hooks ''a'' True (new_context 0 ()) =
      Some (Inl (Runtime_Error ''Quest action recursion too deep''), c))"
proof
  show "SetState 9 cycle_quest goto_hooks ''a'' True (new_context 98 ()) = None"
    using context_recursion_limit [OF goto_hooks_goto, of "new_context 98 ()"] by (auto simp: new_context_def simp del: SetState.simps)
  show "\<exists>c. SetState 101 self_quest goto_hooks ''a'' True (new_context 0 ()) =
      Some (Inl (Runtime_Error ''Quest action recursion too deep''), c)"
    using context_recursion_limit [OF goto_hooks_goto, of "new_context 0 ()" 100]
    by (auto simp: new_context_def simp del: SetState.simps)
qed

end
