(* ===== verification/Socket_Client.thy ===== *)
theory Socket_Client
  imports Prelude
begin

text \<open>
  The connections of the server (\<open>src/src/socket.cpp\<close>, \<open>socket.hpp\<close>): the two ring buffers of a
  \<open>Client\<close> with the positions they are read and written at, what the network delivers and takes,
  closing, and the list of clients of a \<open>Server\<close>. The system calls \<open>recv\<close>, \<open>send\<close> and \<open>poll\<close> and the
  clock are arguments: what they returned. The four fields a buffer has are one record \<open>ring\<close>.
\<close>

section \<open>Ring buffers\<close>

record ring =
  buf :: bytes
  gpos :: size_t
  ppos :: size_t
  used :: size_t

definition new_ring :: ring where
  "new_ring = \<lparr>buf = [], gpos = 0, ppos = 0, used = 0\<rparr>"

definition buf_length :: "ring \<Rightarrow> size_t" where
  "buf_length r = of_nat (length (buf r))"

definition buf_mask :: "ring \<Rightarrow> size_t" where
  "buf_mask r = buf_length r - 1"

definition remaining :: "ring \<Rightarrow> size_t" where
  "remaining r = buf_length r - used r"

text \<open>The loops that read and write one byte after another.\<close>

fun get_bytes :: "nat \<Rightarrow> ring \<Rightarrow> (bytes \<times> ring) outcome" where
  "get_bytes 0 r = Inr ([], r)"
| "get_bytes (Suc n) r =
     (let r = r\<lparr>gpos := (gpos r + 1) AND buf_mask r\<rparr>
      in bind_out (str_at (buf r) (uint (gpos r))) (\<lambda>b.
         bind_out (get_bytes n r) (\<lambda>(bs, r). Inr (b # bs, r))))"

fun put_bytes :: "bytes \<Rightarrow> ring \<Rightarrow> ring outcome" where
  "put_bytes [] r = Inr r"
| "put_bytes (b # bs) r =
     (let r = r\<lparr>ppos := (ppos r + 1) AND buf_mask r\<rparr>
      in if unat (ppos r) < length (buf r)
         then put_bytes bs (r\<lparr>buf := (buf r)[unat (ppos r) := b]\<rparr>)
         else Inl Write_Out_Of_Bounds)"

definition ring_get :: "nat \<Rightarrow> ring \<Rightarrow> (bytes \<times> ring) outcome" where
  "ring_get n r = bind_out (get_bytes n r) (\<lambda>(d, r). Inr (d, r\<lparr>used := used r - of_nat n\<rparr>))"

definition ring_put :: "bytes \<Rightarrow> ring \<Rightarrow> ring outcome" where
  "ring_put d r = bind_out (put_bytes d r) (\<lambda>r. Inr (r\<lparr>used := used r + of_nat (length d)\<rparr>))"

text \<open>
  \<open>assert_power_of_two\<close>: \<open>None\<close> is a loop that never ends. Then \<open>resize\<close> cuts the buffer or fills it
  with NUL; the positions stay.
\<close>

partial_function (option) assert_power_of_two :: "size_t \<Rightarrow> unit outcome option" where
  "assert_power_of_two sz =
     (if sz AND 1 = 0 then assert_power_of_two (drop_bit 1 sz)
      else Some (if sz > 1 then Inl (Runtime_Error ''Buffer size must be a power of two'') else Inr ()))"

definition resize :: "size_t \<Rightarrow> ring \<Rightarrow> ring" where
  "resize sz r = r\<lparr>buf := take (unat sz) (buf r) @ replicate (unat sz - length (buf r)) 0\<rparr>"

definition set_buffer :: "size_t \<Rightarrow> ring \<Rightarrow> ring outcome option" where
  "set_buffer sz r = map_option (\<lambda>res. bind_out res (\<lambda>_. Inr (resize sz r))) (assert_power_of_two sz)"

section \<open>Clients\<close>

record client =
  recv_buffer :: ring
  send_buffer :: ring
  connected :: bool
  accepted :: bool
  async_op_pending :: bool
  owned :: bool           \<comment> \<open>whether \<open>server\<close> is set\<close>
  socket_open :: bool
  closed_time :: int
  connect_time :: int

text \<open>The constructors: a client that connects out, and one the server made for a socket.\<close>

definition Client :: "bool \<Rightarrow> client" where
  "Client srv = \<lparr>recv_buffer = new_ring, send_buffer = new_ring, connected = False, accepted = False,
     async_op_pending = False, owned = srv, socket_open = True, closed_time = 0, connect_time = 0\<rparr>"

definition Client_socket :: "int \<Rightarrow> client" where
  "Client_socket now = (Client True)\<lparr>connected := True, connect_time := now\<rparr>"

definition Close :: "int \<Rightarrow> bool \<Rightarrow> client \<Rightarrow> client" where
  "Close now force c =
     (if connected c then
        (let c = c\<lparr>connected := False, closed_time := now\<rparr>;
             c = (if force then c\<lparr>closed_time := 0\<rparr> else c)
         in if \<not> owned c then c\<lparr>socket_open := False\<rparr> else c)
      else c)"

definition SetRecvBuffer :: "size_t \<Rightarrow> client \<Rightarrow> client outcome option" where
  "SetRecvBuffer sz c =
     map_option (\<lambda>res. bind_out res (\<lambda>r. Inr (c\<lparr>recv_buffer := r\<rparr>))) (set_buffer sz (recv_buffer c))"

definition SetSendBuffer :: "size_t \<Rightarrow> client \<Rightarrow> client outcome option" where
  "SetSendBuffer sz c =
     map_option (\<lambda>res. bind_out res (\<lambda>r. Inr (c\<lparr>send_buffer := r\<rparr>))) (set_buffer sz (send_buffer c))"

definition RecvBufferRemaining :: "client \<Rightarrow> size_t" where
  "RecvBufferRemaining c = remaining (recv_buffer c)"

definition SendBufferRemaining :: "client \<Rightarrow> size_t" where
  "SendBufferRemaining c = remaining (send_buffer c)"

definition Recv :: "size_t \<Rightarrow> client \<Rightarrow> (bytes \<times> client) outcome" where
  "Recv n c =
     bind_out (ring_get (unat (min n (used (recv_buffer c)))) (recv_buffer c)) (\<lambda>(ret, r).
       Inr (ret, c\<lparr>recv_buffer := r\<rparr>))"

text \<open>A text that does not fit closes the connection.\<close>

definition Send :: "int \<Rightarrow> bytes \<Rightarrow> client \<Rightarrow> client outcome" where
  "Send now d c =
     (if (of_nat (length d) :: size_t) > remaining (send_buffer c) then Inr (Close now True c)
      else bind_out (ring_put d (send_buffer c)) (\<lambda>r. Inr (c\<lparr>send_buffer := r\<rparr>)))"

section \<open>The network\<close>

definition chunk :: nat where "chunk = 8192"

text \<open>What \<open>recv\<close> returned for at most so many bytes: an error, or bytes (none at the end).\<close>

definition to_recv :: "client \<Rightarrow> nat" where
  "to_recv c = min (unat (remaining (recv_buffer c))) chunk"

definition DoRecv :: "(nat \<Rightarrow> bytes option) \<Rightarrow> client \<Rightarrow> (bool \<times> client) outcome" where
  "DoRecv net c =
     (if to_recv c = 0 then Inr (False, c)
      else case net (to_recv c) of
        None \<Rightarrow> Inr (False, c)
      | Some d \<Rightarrow>
          if d = [] then Inr (False, c)
          else bind_out (ring_put d (recv_buffer c)) (\<lambda>r. Inr (True, c\<lparr>recv_buffer := r\<rparr>)))"

text \<open>What \<open>send\<close> returned for the bytes: an error, or how many it took.\<close>

definition DoSend :: "(bytes \<Rightarrow> nat option) \<Rightarrow> client \<Rightarrow> (bool \<times> client) outcome" where
  "DoSend net c =
     (let r = send_buffer c
      in bind_out (get_bytes (min (unat (used r)) chunk) r) (\<lambda>(d, r').
         case net d of
           None \<Rightarrow> Inr (False, c\<lparr>send_buffer := r'\<rparr>)
         | Some written \<Rightarrow>
             Inr (True, c\<lparr>send_buffer := r'\<lparr>gpos := (gpos r + of_nat written) AND buf_mask r,
                                            used := used r - of_nat written\<rparr>\<rparr>)))"

text \<open>The events \<open>poll\<close> reported for one client, and what \<open>Select\<close> does with them.\<close>

record events =
  ev_error :: bool
  ev_in :: bool
  ev_out :: bool

definition serve ::
    "int \<Rightarrow> (nat \<Rightarrow> bytes option) \<Rightarrow> (bytes \<Rightarrow> nat option) \<Rightarrow> events \<Rightarrow> client \<Rightarrow> (bool \<times> client) outcome" where
  "serve now rx tx ev c =
     (if ev_error ev then Inr (False, Close now True c)
      else bind_out (if ev_in ev then DoRecv rx c else Inr (True, c)) (\<lambda>(ok, c).
        if \<not> ok then Inr (False, Close now True c)
        else bind_out (if ev_out ev then DoSend tx c else Inr (True, c)) (\<lambda>(ok, c).
          if \<not> ok then Inr (False, Close now True c) else Inr (True, c))))"

section \<open>The list of clients of a server\<close>

text \<open>The events a server asks for, and the clients it hands back after the calls.\<close>

definition wanted :: "client \<Rightarrow> events" where
  "wanted c = \<lparr>ev_error = True, ev_in = (used (recv_buffer c) \<noteq> buf_length (recv_buffer c)),
     ev_out = (used (send_buffer c) > 0)\<rparr>"

definition selected :: "(client \<Rightarrow> bool) \<Rightarrow> client list \<Rightarrow> client list" where
  "selected NeedTick cs = filter (\<lambda>c. used (recv_buffer c) > 0 \<or> NeedTick c) cs"

text \<open>
  \<open>Poll\<close> makes room by closing clients that have not been accepted; after an erased client the
  loop's \<open>++it\<close> passes over the next one.
\<close>

fun evict :: "nat \<Rightarrow> nat \<Rightarrow> client list \<Rightarrow> client list" where
  "evict maxconn n [] = []"
| "evict maxconn n (c # cs) =
     (if n < maxconn then c # cs
      else if \<not> accepted c then
        (case cs of [] \<Rightarrow> [] | c' # cs' \<Rightarrow> c' # evict maxconn (n - 1) cs')
      else c # evict maxconn n cs)"

definition Poll :: "nat \<Rightarrow> client \<Rightarrow> client list \<Rightarrow> bool \<times> client list" where
  "Poll maxconn new cs =
     (let cs = (if length cs \<ge> maxconn then evict maxconn (length cs) cs else cs)
      in if length cs \<ge> maxconn then (False, cs) else (True, cs @ [new]))"

definition dead :: "int \<Rightarrow> client \<Rightarrow> bool" where
  "dead now c \<longleftrightarrow>
     \<not> connected c \<and> \<not> async_op_pending c \<and>
     ((buf (send_buffer c) = [] \<and> buf (recv_buffer c) = []) \<or> closed_time c + 2 < now)"

fun BuryTheDead :: "int \<Rightarrow> client list \<Rightarrow> client list" where
  "BuryTheDead now [] = []"
| "BuryTheDead now (c # cs) =
     (if dead now c then (case cs of [] \<Rightarrow> [] | c' # cs' \<Rightarrow> c' # BuryTheDead now cs')
      else c # BuryTheDead now cs)"

section \<open>The queue a ring holds\<close>

text \<open>A ring of a size that is a power of two, and the bytes in it from the oldest on.\<close>

definition ring_ok :: "ring \<Rightarrow> bool" where
  "ring_ok r \<longleftrightarrow>
     (\<exists>k < 63. length (buf r) = 2 ^ k) \<and> unat (gpos r) < length (buf r) \<and> unat (used r) \<le> length (buf r) \<and>
     unat (ppos r) = (unat (gpos r) + unat (used r)) mod length (buf r)"

definition slot :: "ring \<Rightarrow> nat \<Rightarrow> nat" where
  "slot r i = (unat (gpos r) + 1 + i) mod length (buf r)"

definition contents :: "ring \<Rightarrow> bytes" where
  "contents r = map (\<lambda>i. buf r ! slot r i) [0..<unat (used r)]"

lemma length_contents [simp]: "length (contents r) = unat (used r)"
  by (simp add: contents_def)

lemma ring_size:
  assumes "ring_ok r"
  obtains k where "k < 63" "length (buf r) = 2 ^ k" "buf_mask r = mask k" "length (buf r) \<le> 2 ^ 62"
proof -
  obtain k where k: "k < 63" "length (buf r) = 2 ^ k" using assms by (auto simp: ring_ok_def)
  moreover have "(2 :: nat) ^ k \<le> 2 ^ 62" using k(1) by (intro power_increasing) auto
  ultimately show thesis
    using that by (simp add: buf_mask_def buf_length_def mask_eq_exp_minus_1)
qed

lemma unat_add_small:
  "unat (a :: size_t) \<le> 2 ^ 62 \<Longrightarrow> n \<le> 2 ^ 62 \<Longrightarrow> unat (a + of_nat n) = unat a + n"
  by (simp add: unat_word_ariths(1) unat_of_nat)

lemma unat_masked:
  assumes "ring_ok r" "unat p \<le> 2 ^ 62" "n \<le> 2 ^ 62"
  shows "unat ((p + of_nat n) AND buf_mask r) = (unat p + n) mod length (buf r)"
proof -
  obtain k where k: "length (buf r) = 2 ^ k" "buf_mask r = mask k" using ring_size [OF assms(1)] by metis
  have "unat (take_bit k (p + of_nat n)) = take_bit k (unat (p + of_nat n))"
    by (simp only: unsigned_take_bit_eq)
  then show ?thesis
    using k unat_add_small [OF assms(2,3)] by (simp add: take_bit_eq_mask [symmetric]) (simp add: take_bit_eq_mod)
qed

lemma gpos_small: "ring_ok r \<Longrightarrow> unat (gpos r) \<le> 2 ^ 62"
  by (rule ring_size, assumption) (auto simp: ring_ok_def)

lemma ppos_small: "ring_ok r \<Longrightarrow> unat (ppos r) \<le> 2 ^ 62"
proof -
  assume r: "ring_ok r"
  obtain k where "length (buf r) \<le> 2 ^ 62" "length (buf r) = 2 ^ k" using ring_size [OF r] by metis
  moreover have "unat (ppos r) < length (buf r)"
    using r calculation(2) by (auto simp: ring_ok_def)
  ultimately show ?thesis by linarith
qed

text \<open>One byte written and one byte read.\<close>

definition push :: "byte \<Rightarrow> ring \<Rightarrow> ring" where
  "push b r =
     (let r = r\<lparr>ppos := (ppos r + 1) AND buf_mask r\<rparr>
      in r\<lparr>buf := (buf r)[unat (ppos r) := b], used := used r + 1\<rparr>)"

definition pop :: "ring \<Rightarrow> ring" where
  "pop r = r\<lparr>gpos := (gpos r + 1) AND buf_mask r, used := used r - 1\<rparr>"

lemma push_contents:
  assumes ok: "ring_ok r" and space: "unat (used r) < length (buf r)"
  shows "ring_ok (push b r)" "contents (push b r) = contents r @ [b]"
    "unat ((ppos r + 1) AND buf_mask r) < length (buf r)"
proof -
  let ?N = "length (buf r)" and ?g = "unat (gpos r)" and ?u = "unat (used r)"
  obtain k where k: "k < 63" "?N = 2 ^ k" "?N \<le> 2 ^ 62" using ring_size [OF ok] by metis
  have N: "?N > 0" using k by simp
  have p: "unat ((ppos r + 1) AND buf_mask r) = (?g + ?u + 1) mod ?N"
    using unat_masked [OF ok ppos_small [OF ok], of 1] ok by (simp add: ring_ok_def mod_simps)
  have u: "unat (used r + 1) = ?u + 1"
    using unat_add_small [of "used r" 1] space k(3) by simp
  show bound: "unat ((ppos r + 1) AND buf_mask r) < ?N" using p N by simp
  show "ring_ok (push b r)"
    using ok k p u space by (auto simp: ring_ok_def push_def Let_def)
  have other: "slot r i \<noteq> (?g + ?u + 1) mod ?N" if "i < ?u" for i
  proof
    assume "slot r i = (?g + ?u + 1) mod ?N"
    then have "(?g + 1 + ?u) mod ?N = (?g + 1 + i) mod ?N" by (simp add: slot_def ac_simps)
    then have "?N dvd ?u - i" using that by (simp add: mod_eq_dvd_iff_nat)
    then show False using that space dvd_imp_le [of ?N "?u - i"] by simp
  qed
  have "contents (push b r) = map (\<lambda>i. (buf r)[(?g + ?u + 1) mod ?N := b] ! slot r i) [0..<?u + 1]"
    using p u by (simp add: contents_def push_def slot_def Let_def)
  also have "\<dots> = map (\<lambda>i. buf r ! slot r i) [0..<?u] @ [b]"
  proof -
    have "slot r ?u = (?g + ?u + 1) mod ?N" by (simp add: slot_def ac_simps)
    moreover have "(buf r)[slot r ?u := b] ! slot r i = buf r ! slot r i" if "i < ?u" for i
      using other [OF that] calculation by (metis nth_list_update_neq)
    ultimately show ?thesis using N by (auto simp: slot_def)
  qed
  finally show "contents (push b r) = contents r @ [b]" by (simp add: contents_def)
qed

lemma pop_contents:
  assumes ok: "ring_ok r" and some: "0 < unat (used r)"
  shows "ring_ok (pop r)" "contents r = buf r ! unat ((gpos r + 1) AND buf_mask r) # contents (pop r)"
    "unat ((gpos r + 1) AND buf_mask r) < length (buf r)"
proof -
  let ?N = "length (buf r)" and ?g = "unat (gpos r)" and ?u = "unat (used r)"
  obtain k where k: "k < 63" "?N = 2 ^ k" using ring_size [OF ok] by metis
  have g: "unat ((gpos r + 1) AND buf_mask r) = (?g + 1) mod ?N"
    using unat_masked [OF ok gpos_small [OF ok], of 1] by simp
  have u: "unat (used r - 1) = ?u - 1"
    using some by (simp add: unat_sub word_le_nat_alt)
  show "unat ((gpos r + 1) AND buf_mask r) < ?N" using g k by simp
  have "((?g + 1) mod ?N + (?u - 1)) mod ?N = (?g + ?u) mod ?N"
    using some by (cases ?u) (simp_all add: mod_simps)
  then show "ring_ok (pop r)"
    using ok k g u by (auto simp: ring_ok_def pop_def)
  have "slot (pop r) i = slot r (Suc i)" for i
    using g mod_add_left_eq [of "?g + 1" ?N "i + 1"] by (simp add: slot_def pop_def)
  then have "contents (pop r) = map (\<lambda>i. buf r ! slot r (Suc i)) [0..<?u - 1]"
    using u by (simp add: contents_def pop_def)
  moreover have "[0..<?u] = 0 # map Suc [0..<?u - 1]"
    using some by (simp add: map_Suc_upt upt_conv_Cons)
  ultimately show "contents r = buf r ! unat ((gpos r + 1) AND buf_mask r) # contents (pop r)"
    using g by (simp add: contents_def slot_def)
qed


text \<open>The loops do as many steps; they leave the count to the caller.\<close>

lemma used_last:
  "r\<lparr>used := u, ppos := p\<rparr> = r\<lparr>ppos := p, used := u\<rparr>"
  "r\<lparr>used := u, gpos := p\<rparr> = r\<lparr>gpos := p, used := u\<rparr>"
  "r\<lparr>used := u, buf := b\<rparr> = r\<lparr>buf := b, used := u\<rparr>"
  by simp_all

lemma put_bytes_used: "put_bytes d (r\<lparr>used := u\<rparr>) = map_sum id (\<lambda>r. r\<lparr>used := u\<rparr>) (put_bytes d r)"
proof (induction d arbitrary: r)
  case (Cons b bs)
  show ?case using Cons [of "r\<lparr>ppos := (ppos r + 1) AND buf_mask r, buf := (buf r)[unat ((ppos r + 1) AND buf_mask r) := b]\<rparr>"]
    by (simp add: Let_def buf_mask_def buf_length_def used_last)
qed simp

lemma put_bytes_contents:
  assumes "ring_ok r" "unat (used r) + length d \<le> length (buf r)"
  shows "\<exists>r'. put_bytes d r = Inr r' \<and> used r' = used r \<and> length (buf r') = length (buf r) \<and>
    ring_ok (r'\<lparr>used := used r + of_nat (length d)\<rparr>) \<and>
    contents (r'\<lparr>used := used r + of_nat (length d)\<rparr>) = contents r @ d"
  using assms
proof (induction d arbitrary: r)
  case (Cons b bs)
  have space: "unat (used r) < length (buf r)" using Cons.prems(2) by simp
  note p = push_contents [OF Cons.prems(1) space]
  obtain k where "length (buf r) \<le> 2 ^ 62" using ring_size [OF Cons.prems(1)] by metis
  then have u: "unat (used r + 1) = unat (used r) + 1"
    using unat_add_small [of "used r" 1] space by simp
  have b: "used (push b r) = used r + 1" "length (buf (push b r)) = length (buf r)"
    by (simp_all add: push_def Let_def)
  have "unat (used (push b r)) + length bs \<le> length (buf (push b r))" using Cons.prems(2) u b by simp
  note IH = Cons.IH [OF p(1) this, unfolded b p(2)]
  obtain r' where r': "put_bytes bs (push b r) = Inr r'" "used r' = used r + 1"
    "length (buf r') = length (buf r)" "ring_ok (r'\<lparr>used := used r + 1 + of_nat (length bs)\<rparr>)"
    "contents (r'\<lparr>used := used r + 1 + of_nat (length bs)\<rparr>) = contents r @ b # bs"
    using IH by auto
  have "put_bytes (b # bs) r = put_bytes bs ((push b r)\<lparr>used := used r\<rparr>)"
    using p(3) by (simp add: push_def Let_def)
  also have "\<dots> = Inr (r'\<lparr>used := used r\<rparr>)" using r'(1) by (simp add: put_bytes_used)
  finally show ?case using r' by (intro exI [of _ "r'\<lparr>used := used r\<rparr>"]) (simp add: ac_simps)
qed simp

lemma get_bytes_used: "get_bytes n (r\<lparr>used := u\<rparr>) = map_sum id (\<lambda>(d, r). (d, r\<lparr>used := u\<rparr>)) (get_bytes n r)"
proof (induction n arbitrary: r)
  case (Suc n)
  let ?r = "r\<lparr>gpos := (gpos r + 1) AND buf_mask r\<rparr>"
  show ?case using Suc [of ?r]
    by (cases "get_bytes n ?r"; cases "str_at (buf r) (uint (gpos ?r))")
      (auto simp: Let_def buf_mask_def buf_length_def used_last)
qed simp

lemma get_bytes_contents:
  assumes "ring_ok r" "n \<le> unat (used r)"
  shows "\<exists>r'. get_bytes n r = Inr (take n (contents r), r') \<and> r' = r\<lparr>gpos := gpos r'\<rparr> \<and>
    unat (gpos r') = (unat (gpos r) + n) mod length (buf r) \<and>
    ring_ok (r'\<lparr>used := used r - of_nat n\<rparr>) \<and>
    contents (r'\<lparr>used := used r - of_nat n\<rparr>) = drop n (contents r)"
  using assms
proof (induction n arbitrary: r)
  case 0
  then show ?case by (auto simp: ring_ok_def)
next
  case (Suc n)
  have some: "0 < unat (used r)" using Suc.prems(2) by simp
  note p = pop_contents [OF Suc.prems(1) some]
  have g: "unat ((gpos r + 1) AND buf_mask r) = (unat (gpos r) + 1) mod length (buf r)"
    using unat_masked [OF Suc.prems(1) gpos_small [OF Suc.prems(1)], of 1] by simp
  have u: "unat (used r - 1) = unat (used r) - 1"
    using some by (simp add: unat_sub word_le_nat_alt)
  have "n \<le> unat (used (pop r))" using Suc.prems(2) u by (simp add: pop_def)
  note IH = Suc.IH [OF p(1) this]
  have b: "buf (pop r) = buf r" "used (pop r) = used r - 1" by (simp_all add: pop_def)
  obtain r' where r': "get_bytes n (pop r) = Inr (take n (contents (pop r)), r')"
    "r' = (pop r)\<lparr>gpos := gpos r'\<rparr>" "unat (gpos r') = (unat (gpos (pop r)) + n) mod length (buf r)"
    "ring_ok (r'\<lparr>used := used r - 1 - of_nat n\<rparr>)"
    "contents (r'\<lparr>used := used r - 1 - of_nat n\<rparr>) = drop n (contents (pop r))"
    using IH unfolding b by blast
  have "get_bytes n (r\<lparr>gpos := (gpos r + 1) AND buf_mask r\<rparr>) = get_bytes n ((pop r)\<lparr>used := used r\<rparr>)"
    by (simp add: pop_def)
  also have "\<dots> = Inr (take n (contents (pop r)), r'\<lparr>used := used r\<rparr>)"
    using r'(1) by (simp add: get_bytes_used)
  finally have "get_bytes (Suc n) r = Inr (take (Suc n) (contents r), r'\<lparr>used := used r\<rparr>)"
    using p(2,3) str_at_nat [OF p(3)] by (simp add: Let_def)
  moreover have eq: "r'\<lparr>used := v\<rparr> = r\<lparr>gpos := gpos r', used := v\<rparr>" for v
    by (subst r'(2)) (simp add: pop_def)
  moreover have "unat (gpos r') = (unat (gpos r) + Suc n) mod length (buf r)"
    using r'(3) g mod_add_left_eq [of "unat (gpos r) + 1" "length (buf r)" n] by (simp add: pop_def)
  ultimately show ?case using r'(4,5) [unfolded eq] p(2)
    by (intro exI [of _ "r\<lparr>gpos := gpos r'\<rparr>"]) (auto simp: algebra_simps)
qed


section \<open>The interface of a queue\<close>

text \<open>What the connection relies on: bytes put in come out in order, and space is accounted for.\<close>

locale fifo =
  fixes ok :: "'q \<Rightarrow> bool" and content :: "'q \<Rightarrow> 'a list" and space :: "'q \<Rightarrow> nat"
    and put :: "'a list \<Rightarrow> 'q \<Rightarrow> 'q outcome" and get :: "nat \<Rightarrow> 'q \<Rightarrow> ('a list \<times> 'q) outcome"
  assumes put_law: "ok q \<Longrightarrow> length d \<le> space q \<Longrightarrow>
      \<exists>q'. put d q = Inr q' \<and> ok q' \<and> content q' = content q @ d \<and> space q' = space q - length d"
    and get_law: "ok q \<Longrightarrow> n \<le> length (content q) \<Longrightarrow>
      \<exists>q'. get n q = Inr (take n (content q), q') \<and> ok q' \<and> content q' = drop n (content q) \<and> space q' = space q + n"
begin

lemma put_obtains:
  assumes "ok q" "length d \<le> space q"
  obtains q' where "put d q = Inr q'" "ok q'" "content q' = content q @ d"
  using put_law [OF assms] by blast

lemma get_obtains:
  assumes "ok q"
  obtains q' where "get (min n (length (content q))) q = Inr (take n (content q), q')" "ok q'"
    "content q = take n (content q) @ content q'"
proof -
  let ?n = "min n (length (content q))"
  have eq: "take ?n (content q) = take n (content q)" by (simp add: min_def)
  have "?n \<le> length (content q)" by simp
  from get_law [OF assms this] obtain q' where "get ?n q = Inr (take ?n (content q), q')" "ok q'"
    "content q' = drop ?n (content q)" by blast
  then show thesis using that eq by (metis append_take_drop_id)
qed

text \<open>What is put into an empty queue with room for it is what comes out, whatever is put behind it.\<close>

lemma put_put_get:
  assumes "ok q" "content q = []" "length d + length e \<le> space q"
  shows "bind_out (put d q) (\<lambda>q. bind_out (put e q) (\<lambda>q. bind_out (get (length d) q) (\<lambda>(x, q). Inr (x, content q)))) =
    Inr (d, e)"
proof -
  obtain q1 where 1: "put d q = Inr q1" "ok q1" "content q1 = d" "space q1 = space q - length d"
    using put_law [of q d] assms by auto
  obtain q2 where 2: "put e q1 = Inr q2" "ok q2" "content q2 = d @ e"
  proof -
    have "length e \<le> space q1" using assms(3) 1(4) by simp
    from put_law [OF 1(2) this] show thesis using that 1(3) by auto
  qed
  obtain q3 where "get (length d) q2 = Inr (d, q3)" "content q3 = e"
  proof -
    have "length d \<le> length (content q2)" using 2 by simp
    from get_law [OF 2(2) this] show thesis using that 2(3) by auto
  qed
  then show ?thesis using 1 2 by simp
qed

end

lemma unat_remaining: "ring_ok r \<Longrightarrow> unat (remaining r) = length (buf r) - unat (used r)"
proof -
  assume ok: "ring_ok r"
  obtain k where "length (buf r) \<le> 2 ^ 62" using ring_size [OF ok] by metis
  then have "unat (buf_length r) = length (buf r)" by (simp add: buf_length_def unat_of_nat)
  moreover have "unat (used r) \<le> length (buf r)" using ok by (simp add: ring_ok_def)
  ultimately show ?thesis by (simp add: remaining_def unat_sub word_le_nat_alt)
qed

interpretation ring: fifo ring_ok contents "\<lambda>r. unat (remaining r)" ring_put ring_get
proof
  fix r :: ring and d :: bytes assume r: "ring_ok r" "length d \<le> unat (remaining r)"
  obtain k where k: "length (buf r) \<le> 2 ^ 62" using ring_size [OF r(1)] by metis
  have fits: "unat (used r) + length d \<le> length (buf r)"
    using r unat_remaining [OF r(1)] by (auto simp: ring_ok_def)
  obtain r' where r': "put_bytes d r = Inr r'" "used r' = used r" "length (buf r') = length (buf r)"
    "ring_ok (r'\<lparr>used := used r + of_nat (length d)\<rparr>)"
    "contents (r'\<lparr>used := used r + of_nat (length d)\<rparr>) = contents r @ d"
    using put_bytes_contents [OF r(1) fits] by blast
  have "unat (used r + of_nat (length d)) = unat (used r) + length d"
    using fits k by (intro unat_add_small) auto
  then show "\<exists>q'. ring_put d r = Inr q' \<and> ring_ok q' \<and> contents q' = contents r @ d \<and>
      unat (remaining q') = unat (remaining r) - length d"
    using r' unat_remaining [OF r'(4)] unat_remaining [OF r(1)] by (simp add: ring_put_def)
next
  fix r :: ring and n assume r: "ring_ok r" "n \<le> length (contents r)"
  then obtain r' where r': "get_bytes n r = Inr (take n (contents r), r')" "r' = r\<lparr>gpos := gpos r'\<rparr>"
    "ring_ok (r'\<lparr>used := used r - of_nat n\<rparr>)"
    "contents (r'\<lparr>used := used r - of_nat n\<rparr>) = drop n (contents r)"
    using get_bytes_contents [of r n] by auto
  have "unat (used r) < 2 ^ LENGTH(64)" by (rule unsigned_less)
  then have n: "n < 2 ^ 64" using r(2) by simp
  have "unat (used r - of_nat n) = unat (used r) - n"
    using r(2) n by (simp add: unat_sub word_le_nat_alt unat_of_nat)
  moreover have "used r' = used r" "buf r' = buf r"
    using arg_cong [OF r'(2), of used] arg_cong [OF r'(2), of buf] by simp_all
  moreover have "unat (used r) \<le> length (buf r)" using r(1) by (simp add: ring_ok_def)
  ultimately show "\<exists>q'. ring_get n r = Inr (take n (contents r), q') \<and> ring_ok q' \<and>
      contents q' = drop n (contents r) \<and> unat (remaining q') = unat (remaining r) + n"
    using r' r(2) unat_remaining [OF r'(3)] unat_remaining [OF r(1)] by (simp add: ring_get_def)
qed


section \<open>Streams of a connection\<close>

definition client_ok :: "client \<Rightarrow> bool" where
  "client_ok c \<longleftrightarrow> ring_ok (recv_buffer c) \<and> ring_ok (send_buffer c)"

text \<open>
  The calls made on a client, and what an observer has seen: bytes that came from the network,
  that the server read, that the server was able to send, and that the network took.
\<close>

datatype client_call =
    Call_Recv size_t
  | Call_Send int bytes
  | Call_DoRecv "nat \<Rightarrow> bytes option"
  | Call_DoSend "bytes \<Rightarrow> nat option"
  | Call_Close int bool

record streams =
  arrived :: bytes
  read :: bytes
  sent :: bytes
  taken :: bytes

fun call :: "client_call \<Rightarrow> client \<times> streams \<Rightarrow> (client \<times> streams) outcome" where
  "call (Call_Recv n) (c, ob) = bind_out (Recv n c) (\<lambda>(d, c). Inr (c, ob\<lparr>read := read ob @ d\<rparr>))"
| "call (Call_Send now d) (c, ob) =
     bind_out (Send now d c) (\<lambda>c'.
       Inr (c', if (of_nat (length d) :: size_t) > remaining (send_buffer c) then ob else ob\<lparr>sent := sent ob @ d\<rparr>))"
| "call (Call_DoRecv net) (c, ob) =
     bind_out (DoRecv net c) (\<lambda>(ok, c').
       Inr (c', if ok then ob\<lparr>arrived := arrived ob @ the (net (to_recv c))\<rparr> else ob))"
| "call (Call_DoSend net) (c, ob) =
     (let d = take chunk (contents (send_buffer c))
      in bind_out (DoSend net c) (\<lambda>(ok, c'). Inr (c', if ok then ob\<lparr>taken := taken ob @ take (the (net d)) d\<rparr> else ob)))"
| "call (Call_Close now force) (c, ob) = Inr (Close now force c, ob)"

fun calls :: "client_call list \<Rightarrow> client \<times> streams \<Rightarrow> (client \<times> streams) outcome" where
  "calls [] s = Inr s"
| "calls (x # xs) s = bind_out (call x s) (calls xs)"

text \<open>
  What the system calls promise: \<open>recv\<close> returns no more bytes than asked for, \<open>send\<close> takes no more
  than it was given. A \<open>send\<close> that fails ends the story: the positions are not put back, and the
  callers of \<open>DoSend\<close> close the connection.
\<close>

definition fair_call :: "client_call \<Rightarrow> bool" where
  "fair_call x = (case x of
     Call_DoRecv net \<Rightarrow> \<forall>n d. net n = Some d \<longrightarrow> length d \<le> n
   | Call_DoSend net \<Rightarrow> \<forall>d. \<exists>w \<le> length d. net d = Some w
   | Call_Send now d \<Rightarrow> length d < 2 ^ 64
   | _ \<Rightarrow> True)"

definition in_order :: "client \<times> streams \<Rightarrow> bool" where
  "in_order s \<longleftrightarrow>
     client_ok (fst s) \<and>
     arrived (snd s) = read (snd s) @ contents (recv_buffer (fst s)) \<and>
     sent (snd s) = taken (snd s) @ contents (send_buffer (fst s))"

lemma Close_buffers [simp]:
  "recv_buffer (Close now force c) = recv_buffer c" "send_buffer (Close now force c) = send_buffer c"
  "client_ok (Close now force c) = client_ok c" "connected (Close now force c) = False"
  by (simp_all add: Close_def client_ok_def Let_def)

lemma Recv_spec:
  assumes "client_ok c"
  obtains r where "Recv n c = Inr (take (unat n) (contents (recv_buffer c)), c\<lparr>recv_buffer := r\<rparr>)"
    "ring_ok r" "contents (recv_buffer c) = take (unat n) (contents (recv_buffer c)) @ contents r"
proof -
  have "ring_ok (recv_buffer c)" using assms by (simp add: client_ok_def)
  from ring.get_obtains [OF this, of "unat n"]
  obtain r where "ring_get (min (unat n) (length (contents (recv_buffer c)))) (recv_buffer c) =
      Inr (take (unat n) (contents (recv_buffer c)), r)" "ring_ok r"
    "contents (recv_buffer c) = take (unat n) (contents (recv_buffer c)) @ contents r" by metis
  moreover have "unat (min n (used (recv_buffer c))) = min (unat n) (length (contents (recv_buffer c)))"
    by (simp add: min_def word_le_nat_alt)
  ultimately show thesis using that by (simp add: Recv_def)
qed

lemma Send_spec:
  assumes "client_ok c" "length d < 2 ^ 64"
  shows "length d > unat (remaining (send_buffer c)) \<Longrightarrow> Send now d c = Inr (Close now True c)"
    and "length d \<le> unat (remaining (send_buffer c)) \<Longrightarrow>
      \<exists>r. Send now d c = Inr (c\<lparr>send_buffer := r\<rparr>) \<and> ring_ok r \<and> contents r = contents (send_buffer c) @ d"
proof -
  have ok: "ring_ok (send_buffer c)" using assms(1) by (simp add: client_ok_def)
  have big: "(of_nat (length d) :: size_t) > remaining (send_buffer c) \<longleftrightarrow> length d > unat (remaining (send_buffer c))"
    using assms(2) by (simp add: word_less_nat_alt unat_of_nat)
  show "length d > unat (remaining (send_buffer c)) \<Longrightarrow> Send now d c = Inr (Close now True c)"
    using big by (simp add: Send_def)
  assume small: "length d \<le> unat (remaining (send_buffer c))"
  show "\<exists>r. Send now d c = Inr (c\<lparr>send_buffer := r\<rparr>) \<and> ring_ok r \<and> contents r = contents (send_buffer c) @ d"
    using ring.put_law [OF ok small] big small by (auto simp: Send_def)
qed

lemma DoRecv_spec:
  assumes "client_ok c" "\<forall>n d. net n = Some d \<longrightarrow> length d \<le> n"
  shows "\<exists>ok r. DoRecv net c = Inr (ok, c\<lparr>recv_buffer := r\<rparr>) \<and> ring_ok r \<and>
    contents r = contents (recv_buffer c) @ (if ok then the (net (to_recv c)) else [])"
proof -
  have ok: "ring_ok (recv_buffer c)" using assms(1) by (simp add: client_ok_def)
  show ?thesis
  proof (cases "to_recv c = 0 \<or> net (to_recv c) \<in> {None, Some []}")
    case True
    then show ?thesis using ok by (intro exI [of _ False] exI [of _ "recv_buffer c"]) (auto simp: DoRecv_def)
  next
    case False
    then obtain d where d: "net (to_recv c) = Some d" "d \<noteq> []" by auto
    then have "length d \<le> unat (remaining (recv_buffer c))" using assms(2) by (force simp: to_recv_def)
    then show ?thesis using ring.put_law [OF ok] False d by (force simp: DoRecv_def)
  qed
qed

lemma DoSend_spec:
  assumes "client_ok c" "\<forall>d w. net d = Some w \<longrightarrow> w \<le> length d"
  shows "\<exists>ok r. DoSend net c = Inr (ok, c\<lparr>send_buffer := r\<rparr>) \<and>
    (let d = take chunk (contents (send_buffer c))
     in ok = (net d \<noteq> None) \<and> (ok \<longrightarrow> ring_ok r \<and> contents (send_buffer c) = take (the (net d)) d @ contents r))"
proof -
  let ?r = "send_buffer c"
  let ?n = "min (unat (used ?r)) chunk"
  let ?d = "take chunk (contents ?r)"
  have ok: "ring_ok ?r" using assms(1) by (simp add: client_ok_def)
  have le: "?n \<le> unat (used ?r)" by simp
  obtain r' where r': "get_bytes ?n ?r = Inr (?d, r')" "r' = ?r\<lparr>gpos := gpos r'\<rparr>"
    using get_bytes_contents [OF ok le] by (auto simp: min_def split: if_splits)
  show ?thesis
  proof (cases "net ?d")
    case None
    then show ?thesis using r' by (auto simp: DoSend_def Let_def)
  next
    case (Some w)
    have "w \<le> length ?d" using assms(2) Some by blast
    then have w: "w \<le> unat (used ?r)" "w \<le> length ?d" by auto
    obtain r2 where r2: "r2 = ?r\<lparr>gpos := gpos r2\<rparr>" "unat (gpos r2) = (unat (gpos ?r) + w) mod length (buf ?r)"
      "ring_ok (r2\<lparr>used := used ?r - of_nat w\<rparr>)"
      "contents (r2\<lparr>used := used ?r - of_nat w\<rparr>) = drop w (contents ?r)"
      using get_bytes_contents [OF ok w(1)] by blast
    have "w \<le> 2 ^ 62" using w(1) ok by (metis ring_ok_def ring_size order_trans)
    then have "gpos r2 = (gpos ?r + of_nat w) AND buf_mask ?r"
      using r2(2) unat_masked [OF ok gpos_small [OF ok], of w] by (simp add: word_unat_eq_iff)
    then have "r'\<lparr>gpos := (gpos ?r + of_nat w) AND buf_mask ?r, used := used ?r - of_nat w\<rparr> =
        r2\<lparr>used := used ?r - of_nat w\<rparr>"
      by (subst r'(2), subst r2(1)) simp
    then have "DoSend net c = Inr (True, c\<lparr>send_buffer := r2\<lparr>used := used ?r - of_nat w\<rparr>\<rparr>)"
      using r'(1) Some by (simp add: DoSend_def Let_def)
    moreover have "w \<le> chunk" using w(2) by simp
    then have "take w ?d = take w (contents ?r)" by (simp add: min_def)
    ultimately show ?thesis
      using r2(3,4) Some unfolding Let_def
      by (intro exI [of _ True] exI [of _ "r2\<lparr>used := used ?r - of_nat w\<rparr>"]) simp
  qed
qed

lemma call_in_order:
  assumes "in_order s" "fair_call x"
  shows "\<exists>s'. call x s = Inr s' \<and> in_order s'"
proof -
  obtain c ob where s: "s = (c, ob)" by (cases s)
  have ok: "client_ok c" using assms(1) s by (simp add: in_order_def)
  show ?thesis
  proof (cases x)
    case (Call_Recv n)
    obtain r where "Recv n c = Inr (take (unat n) (contents (recv_buffer c)), c\<lparr>recv_buffer := r\<rparr>)"
      "ring_ok r" "contents (recv_buffer c) = take (unat n) (contents (recv_buffer c)) @ contents r"
      using Recv_spec [OF ok] .
    then show ?thesis using assms(1) s Call_Recv by (simp add: in_order_def client_ok_def)
  next
    case (Call_Send now d)
    have d: "length d < 2 ^ 64" using assms(2) Call_Send by (simp add: fair_call_def)
    then have "(of_nat (length d) :: size_t) > remaining (send_buffer c) \<longleftrightarrow> length d > unat (remaining (send_buffer c))"
      by (simp add: word_less_nat_alt unat_of_nat)
    then show ?thesis
      using assms(1) s Call_Send Send_spec [OF ok d, of now]
      by (cases "length d > unat (remaining (send_buffer c))") (auto simp: in_order_def client_ok_def)
  next
    case (Call_DoRecv net)
    then have "\<forall>n d. net n = Some d \<longrightarrow> length d \<le> n" using assms(2) by (simp add: fair_call_def)
    then obtain b r where "DoRecv net c = Inr (b, c\<lparr>recv_buffer := r\<rparr>)" "ring_ok r"
      "contents r = contents (recv_buffer c) @ (if b then the (net (to_recv c)) else [])"
      using DoRecv_spec [OF ok] by blast
    then show ?thesis using assms(1) s Call_DoRecv by (simp add: in_order_def client_ok_def)
  next
    case (Call_DoSend net)
    then have fair: "\<forall>d. \<exists>w \<le> length d. net d = Some w" using assms(2) by (simp add: fair_call_def)
    then have "\<forall>d w. net d = Some w \<longrightarrow> w \<le> length d" by (metis option.inject)
    note spec = DoSend_spec [OF ok this]
    define d where "d = take chunk (contents (send_buffer c))"
    obtain b r where b: "DoSend net c = Inr (b, c\<lparr>send_buffer := r\<rparr>)" "b = (net d \<noteq> None)"
      "b \<longrightarrow> ring_ok r \<and> contents (send_buffer c) = take (the (net d)) d @ contents r"
      using spec unfolding Let_def d_def by blast
    have some: "net d \<noteq> None" using fair by (metis option.distinct(1))
    have "call x s = Inr (c\<lparr>send_buffer := r\<rparr>, ob\<lparr>taken := taken ob @ take (the (net d)) d\<rparr>)"
      using b(1,2) some by (simp add: Call_DoSend s Let_def d_def)
    moreover have "in_order (c\<lparr>send_buffer := r\<rparr>, ob\<lparr>taken := taken ob @ take (the (net d)) d\<rparr>)"
      using assms(1) b(2,3) some by (simp add: s in_order_def client_ok_def)
    ultimately show ?thesis by blast
  next
    case (Call_Close now force)
    then show ?thesis using assms(1) s by (simp add: in_order_def)
  qed
qed


definition no_streams :: streams where
  "no_streams = \<lparr>arrived = [], read = [], sent = [], taken = []\<rparr>"

lemma calls_in_order:
  "in_order s \<Longrightarrow> list_all fair_call xs \<Longrightarrow> \<exists>s'. calls xs s = Inr s' \<and> in_order s'"
proof (induction xs arbitrary: s)
  case (Cons x xs)
  then obtain s1 where "call x s = Inr s1" "in_order s1" using call_in_order [of s x] by auto
  then show ?case using Cons by auto
qed simp

section \<open>Buffers of a power of two\<close>

lemma assert_power_of_two_odd:
  "n AND 1 \<noteq> 0 \<Longrightarrow> assert_power_of_two n =
     Some (if n > 1 then Inl (Runtime_Error ''Buffer size must be a power of two'') else Inr ())"
  by (simp add: assert_power_of_two.simps)

lemma even_unat: "even (unat (n :: size_t)) \<longleftrightarrow> n AND 1 = 0"
  by (simp add: and_one_eq unat_mod even_iff_mod_2_eq_zero flip: unat_eq_0)

lemma unat_half: "unat (drop_bit 1 (n :: size_t)) = unat n div 2"
  by (simp add: drop_bit_eq_div unat_div)

lemma power_of_two_even: "even n \<Longrightarrow> (\<exists>k. n = 2 ^ k) \<longleftrightarrow> (\<exists>k. n div 2 = (2 :: nat) ^ k)"
proof
  assume e: "even n"
  { assume "\<exists>k. n = 2 ^ k"
    then obtain k where k: "n = 2 ^ k" by blast
    then have "k \<noteq> 0" using e by (cases k) auto
    then obtain j where "k = Suc j" by (cases k) auto
    then show "\<exists>k. n div 2 = 2 ^ k" using k by auto }
  assume "\<exists>k. n div 2 = (2 :: nat) ^ k"
  then obtain k where "n div 2 = 2 ^ k" by blast
  then show "\<exists>k. n = 2 ^ k" using e by (intro exI [of _ "Suc k"]) auto
qed

lemma assert_power_of_two_result:
  "sz \<noteq> 0 \<Longrightarrow> assert_power_of_two sz =
     Some (if \<exists>k. unat sz = 2 ^ k then Inr () else Inl (Runtime_Error ''Buffer size must be a power of two''))"
proof (induction "unat sz" arbitrary: sz rule: less_induct)
  case less
  show ?case
  proof (cases "even (unat sz)")
    case True
    then have "sz AND 1 = 0" by (simp add: even_unat)
    then have "assert_power_of_two sz = assert_power_of_two (drop_bit 1 sz)"
      by (subst assert_power_of_two.simps) simp
    moreover have "unat (drop_bit 1 sz) \<noteq> 0" "unat (drop_bit 1 sz) < unat sz"
      using True less.prems unat_half [of sz] by (auto simp flip: unat_eq_0 elim!: evenE)
    ultimately show ?thesis
      using less.hyps [of "drop_bit 1 sz"] power_of_two_even [OF True] unat_half [of sz] by (simp add: unat_eq_0)
  next
    case False
    have "(\<exists>k. unat sz = 2 ^ k) \<longleftrightarrow> unat sz = 1"
      using False by (metis dvd_power even_numeral neq0_conv power_0)
    then show ?thesis
      using assert_power_of_two_odd [of sz] False less.prems even_unat [of sz]
      by (auto simp: word_less_nat_alt simp flip: unat_eq_0)
  qed
qed

lemma assert_power_of_two_zero: "assert_power_of_two 0 = None"
proof -
  have "sz \<noteq> 0" if "assert_power_of_two sz = Some y" for sz y
    by (rule assert_power_of_two.raw_induct [OF _ that]) (auto split: if_splits, blast)
  then show ?thesis by (cases "assert_power_of_two 0") auto
qed


section \<open>The list of clients is kept\<close>

lemma evict_below: "n < m \<Longrightarrow> evict m n cs = cs"
  by (cases cs) auto

lemma evict_full: "0 < m \<Longrightarrow> evict m m cs = takeWhile accepted cs @ tl (dropWhile accepted cs)"
  by (induction cs) (auto simp: evict_below split: list.split)

lemma BuryTheDead_half:
  "2 * length (filter (dead now) (BuryTheDead now cs)) \<le> length (filter (dead now) cs)"
  "filter (\<lambda>c. \<not> dead now c) (BuryTheDead now cs) = filter (\<lambda>c. \<not> dead now c) cs"
  by (induction now cs rule: BuryTheDead.induct) (auto split: list.split)

text \<open>
  C4: However the calls on a connection are mixed, as long as the network takes what it is sent:
  no call reads or writes outside a buffer, the bytes the server reads are the ones that arrived,
  in their order, with the rest waiting in the receive buffer, and the network is given the bytes
  that were accepted for sending in their order, with the rest waiting in the send buffer.
\<close>

theorem client_streams:
  assumes "client_ok c" "contents (recv_buffer c) = []" "contents (send_buffer c) = []"
    and "list_all fair_call xs"
  shows "\<exists>c' ob. calls xs (c, no_streams) = Inr (c', ob) \<and> client_ok c' \<and>
    arrived ob = read ob @ contents (recv_buffer c') \<and> sent ob = taken ob @ contents (send_buffer c')"
proof -
  have "in_order (c, no_streams)" using assms(1-3) by (simp add: in_order_def no_streams_def)
  then show ?thesis using calls_in_order [OF _ assms(4)] by (force simp: in_order_def)
qed

text \<open>
  A buffer is given a size that is a power of two and no other: setting any other size throws,
  and with the size zero the test of the size never ends.
\<close>

theorem buffer_sizes:
  "SetRecvBuffer sz c =
     (if sz = 0 then None
      else if \<exists>k. unat sz = 2 ^ k then Some (Inr (c\<lparr>recv_buffer := resize sz (recv_buffer c)\<rparr>))
      else Some (Inl (Runtime_Error ''Buffer size must be a power of two'')))"
  using assert_power_of_two_result [of sz] assert_power_of_two_zero
  by (auto simp: SetRecvBuffer_def set_buffer_def)

text \<open>
  A server that is full refuses a connection when all its clients have been accepted, and
  otherwise puts the new client in the place of the oldest one that has not: no accepted client
  is lost. Burying the dead loses no other client, and at least halves the number of dead ones
  each time, as the loop passes over the client behind each that it removes.
\<close>

theorem client_list:
  assumes "0 < maxconn" "length cs \<le> maxconn"
  shows "Poll maxconn new cs =
      (if length cs < maxconn then (True, cs @ [new])
       else if list_all accepted cs then (False, cs)
       else (True, takeWhile accepted cs @ tl (dropWhile accepted cs) @ [new])) \<and>
    filter (\<lambda>c. \<not> dead now c) (BuryTheDead now cs) = filter (\<lambda>c. \<not> dead now c) cs \<and>
    2 * length (filter (dead now) (BuryTheDead now cs)) \<le> length (filter (dead now) cs)"
proof -
  have "length (takeWhile accepted cs @ tl (dropWhile accepted cs)) < length cs" if "\<not> list_all accepted cs"
    using that by (induction cs) auto
  moreover have "takeWhile accepted cs @ tl (dropWhile accepted cs) = cs" if "list_all accepted cs"
    using that by (induction cs) auto
  ultimately show ?thesis
    using assms evict_full [of maxconn cs] BuryTheDead_half [of now cs]
    by (cases "list_all accepted cs"; cases "length cs = maxconn") (simp_all add: Poll_def Let_def not_le)
qed

section \<open>Witnesses\<close>

definition sample_ring :: "bytes \<Rightarrow> ring" where
  "sample_ring b = \<lparr>buf = b, gpos = 0, ppos = 0, used = 0\<rparr>"

lemma sample_ring_ok: "length b = 4 \<Longrightarrow> ring_ok (sample_ring b)" "contents (sample_ring b) = []"
  by (auto simp: ring_ok_def sample_ring_def contents_def intro: exI [of _ 2])

definition sample_client :: client where
  "sample_client = (Client_socket 7)\<lparr>recv_buffer := sample_ring [0, 0, 0, 0], send_buffer := sample_ring [0, 0, 0, 0]\<rparr>"

theorem client_streams_witness:
  "\<exists>c' ob. calls [Call_DoRecv (\<lambda>n. Some (take n [1, 2, 3])), Call_Recv 2, Call_DoRecv (\<lambda>n. Some (take n [4, 5, 6, 7])),
      Call_Send 7 [8, 9, 10], Call_DoSend (\<lambda>d. Some (min 1 (length d)))] (sample_client, no_streams) = Inr (c', ob) \<and>
    client_ok c' \<and> arrived ob = read ob @ contents (recv_buffer c') \<and> sent ob = taken ob @ contents (send_buffer c')"
  by (rule client_streams)
    (simp_all add: sample_client_def Client_socket_def Client_def client_ok_def sample_ring_ok fair_call_def)

theorem client_list_witness:
  "Poll 1 (sample_client\<lparr>connect_time := 9\<rparr>) [sample_client] = (True, [sample_client\<lparr>connect_time := 9\<rparr>]) \<and>
   BuryTheDead 9 [sample_client] = [sample_client]"
  using client_list [of 1 "[sample_client]" "sample_client\<lparr>connect_time := 9\<rparr>" 9]
  by (simp add: sample_client_def Client_socket_def Client_def dead_def)

end
