(* ===== verification/EOClient.thy ===== *)
theory EOClient
  imports Packet_IO Socket_Client Double "HOL-Library.Signed_Division"
begin

text \<open>
  A client of the game (\<open>src/src/eoclient.cpp\<close>, \<open>eoclient.hpp\<close>): packets cut out of the stream of
  bytes, sequence numbers, the test of a packet before it is queued, the queue of actions
  (\<open>src/src/eoserver.cpp\<close>, \<open>src/src/handlers/handlers.cpp\<close>) and the upload of files through the
  send buffer. Random numbers, the clock, the files and the handlers are arguments.
\<close>

section \<open>State\<close>

datatype packet_state = ReadLen1 | ReadLen2 | ReadData

datatype client_state = Uninitialized | Initialized | LoggedIn | Playing

datatype file_type = FILE_MAP | FILE_ITEM | FILE_NPC | FILE_SPELL | FILE_CLASS

record queued =
  q_reader :: PacketReader
  q_time :: double
  q_auto :: bool

record eoclient =
  conn :: client
  upload_fh :: "bytes option"   \<comment> \<open>the part of the open file that has not been read\<close>
  upload_type :: file_type
  upload_pos :: size_t
  upload_size :: size_t
  send_buffer2 :: ring
  seq_start :: int
  upcoming_seq_start :: int
  seq :: int
  has_player :: bool
  has_character :: bool
  needpong :: bool
  state_of :: client_state
  action_queue :: "queued list"
  queue_next :: double
  packet_state :: packet_state
  raw_length :: "byte \<times> byte"
  pk_length :: u32
  pk_data :: bytes
  processor :: PacketProcessor

definition Initialize :: "client \<Rightarrow> eoclient" where
  "Initialize b =
     \<lparr>conn = b, upload_fh = None, upload_type = FILE_MAP, upload_pos = 0, upload_size = 0,
      send_buffer2 = new_ring, seq_start = 0, upcoming_seq_start = - 1, seq = 0,
      has_player = False, has_character = False, needpong = False, state_of = Uninitialized,
      action_queue = [], queue_next = Fin 0, packet_state = ReadLen1, raw_length = (0, 0),
      pk_length = 0, pk_data = [], processor = PacketProcessor_init\<rparr>"

definition close_client :: "int \<Rightarrow> bool \<Rightarrow> eoclient \<Rightarrow> eoclient" where
  "close_client now force c = c\<lparr>conn := Close now force (conn c)\<rparr>"

definition AsyncOpPending :: "bool \<Rightarrow> eoclient \<Rightarrow> eoclient" where
  "AsyncOpPending b c = c\<lparr>conn := (conn c)\<lparr>async_op_pending := b\<rparr>\<rparr>"

definition AddAction :: "PacketReader \<Rightarrow> double \<Rightarrow> bool \<Rightarrow> eoclient \<Rightarrow> eoclient" where
  "AddAction r t auto c = c\<lparr>action_queue := action_queue c @ [\<lparr>q_reader = r, q_time = t, q_auto = auto\<rparr>]\<rparr>"

definition NeedTick :: "eoclient \<Rightarrow> bool" where
  "NeedTick c \<longleftrightarrow> upload_fh c \<noteq> None"

section \<open>Sequence numbers\<close>

text \<open>\<open>rnd lo hi\<close> is the number \<open>util::rand\<close> draws.\<close>

type_synonym random = "int \<Rightarrow> int \<Rightarrow> int"

definition as_int32 :: "int \<Rightarrow> int" where
  "as_int32 n = (n + 2 ^ 31) mod 2 ^ 32 - 2 ^ 31"

definition InitNewSequence :: "random \<Rightarrow> eoclient \<Rightarrow> eoclient" where
  "InitNewSequence rnd c = c\<lparr>seq_start := rnd 0 1757\<rparr>"

definition PingNewSequence :: "random \<Rightarrow> eoclient \<Rightarrow> eoclient" where
  "PingNewSequence rnd c = c\<lparr>upcoming_seq_start := rnd 0 1757\<rparr>"

definition PongNewSequence :: "eoclient \<Rightarrow> eoclient" where
  "PongNewSequence c = c\<lparr>seq_start := upcoming_seq_start c\<rparr>"

definition AccountReplyNewSequence :: "random \<Rightarrow> eoclient \<Rightarrow> eoclient" where
  "AccountReplyNewSequence rnd c = c\<lparr>seq_start := rnd 0 240\<rparr>"

definition GetSeqInitBytes :: "random \<Rightarrow> eoclient \<Rightarrow> int \<times> int" where
  "GetSeqInitBytes rnd c =
     (let s1_max = (seq_start c + 13) sdiv 7;
          s1_min = max 0 ((seq_start c - 252 + 13 + 6) sdiv 7);
          s1 = rnd s1_min s1_max mod 256;
          s2 = (seq_start c - s1 * 7 + 13) mod 256
      in (s1, s2))"

definition GetSeqUpdateBytes :: "random \<Rightarrow> eoclient \<Rightarrow> int \<times> int" where
  "GetSeqUpdateBytes rnd c =
     (let s1_max = upcoming_seq_start c + 252;
          s1_min = upcoming_seq_start c;
          s1 = rnd s1_min s1_max mod 65536;
          s2 = (s1 - upcoming_seq_start c) mod 256
      in (s1, s2))"

definition GenSequence :: "eoclient \<Rightarrow> int \<times> eoclient" where
  "GenSequence c = (as_int32 (seq_start c + seq c), c\<lparr>seq := (seq c + 1) smod 10\<rparr>)"

definition GenUpcomingSequence :: "eoclient \<Rightarrow> int \<times> eoclient" where
  "GenUpcomingSequence c = (as_int32 (upcoming_seq_start c + seq c), c\<lparr>seq := (seq c + 1) smod 10\<rparr>)"

section \<open>Packets\<close>

text \<open>The number a client sends with a packet: one byte, or two from 253 on.\<close>

definition client_sequence :: "int \<Rightarrow> PacketReader \<Rightarrow> (int \<times> PacketReader) outcome" where
  "client_sequence server_seq r =
     (if server_seq \<ge> 253 then bind_out (GetShort r) (\<lambda>(n, r). Inr (uint n, r))
      else bind_out (GetChar r) (\<lambda>(n, r). Inr (uint n, r)))"

definition Execute :: "bool \<Rightarrow> int \<Rightarrow> bytes \<Rightarrow> eoclient \<Rightarrow> eoclient outcome" where
  "Execute EnforceSequence now d c =
     (if length d < 2 then Inr c
      else if \<not> connected (conn c) then Inr c
      else bind_out (Decode (processor c) d) (\<lambda>d.
        let reader = PacketReader_new d in
        if Family reader = family_value PACKET_INTERNAL then
          Inr (close_client now False (AsyncOpPending False c))
        else if Family reader \<noteq> family_value PACKET_F_INIT then
          (let ping_reply = (Family reader = family_value PACKET_CONNECTION \<and> Action reader = action_value PACKET_PING);
               c = (if ping_reply then PongNewSequence c else c);
               (server_seq, c) = GenSequence c
           in bind_out (client_sequence server_seq reader) (\<lambda>(client_seq, reader).
                if EnforceSequence \<and> client_seq \<noteq> server_seq
                then Inr (close_client now False (AsyncOpPending False c))
                else Inr (AddAction reader (dbl (2 / 100)) True c)))
        else Inr (AddAction reader (dbl (2 / 100)) True (snd (GenSequence c)))))"

text \<open>
  The loop of \<open>Tick\<close> over the bytes it read. Each \<open>case\<close> of the switch falls through to the
  next one when bytes are left, which is to look at the new state again.
\<close>

function feed :: "(bytes \<Rightarrow> eoclient \<Rightarrow> eoclient outcome) \<Rightarrow> bytes \<Rightarrow> eoclient \<Rightarrow> eoclient outcome" where
  "feed exec d c =
     (if d = [] then Inr c
      else case packet_state c of
        ReadLen1 \<Rightarrow> feed exec (tl d) (c\<lparr>raw_length := (hd d, snd (raw_length c)), packet_state := ReadLen2\<rparr>)
      | ReadLen2 \<Rightarrow>
          feed exec (tl d) (c\<lparr>raw_length := (fst (raw_length c), hd d),
            pk_length := Number (fst (raw_length c)) (hd d) 254 254, packet_state := ReadData\<rparr>)
      | ReadData \<Rightarrow>
          (let n = unat (pk_length c);
               c = c\<lparr>pk_data := pk_data c @ take n d, pk_length := pk_length c - of_nat (length (take n d))\<rparr>
           in if pk_length c = 0 then
                bind_out (exec (pk_data c) c) (\<lambda>c. Inr (c\<lparr>pk_data := [], packet_state := ReadLen1\<rparr>))
              else feed exec (drop n d) c))"
  by pat_completeness auto
termination
proof (relation "measure (\<lambda>(exec, d, c). length d)", goal_cases)
  case (4 exec d c x)
  then show ?case by (cases d; cases "unat (pk_length c)") (auto simp: unat_eq_0)
qed auto

declare feed.simps [simp del, loop_simps]

definition read_packets :: "(bytes \<Rightarrow> eoclient \<Rightarrow> eoclient outcome) \<Rightarrow> eoclient \<Rightarrow> eoclient outcome" where
  "read_packets exec c =
     bind_out (Recv (if packet_state c = ReadData then ucast (pk_length c) else 1) (conn c)) (\<lambda>(d, b).
       feed exec d (c\<lparr>conn := b\<rparr>))"


section \<open>Sending and uploads\<close>

text \<open>\<open>Send\<close>: while a file is uploaded, packets wait in the second buffer.\<close>

definition send_packet :: "int \<Rightarrow> PacketBuilder \<Rightarrow> eoclient \<Rightarrow> eoclient outcome" where
  "send_packet now builder c =
     bind_out (Encode (processor c) (builder_Get builder)) (\<lambda>d.
       if upload_fh c \<noteq> None then
         if (of_nat (length d) :: size_t) > remaining (send_buffer2 c) then Inr (close_client now True c)
         else bind_out (ring_put d (send_buffer2 c)) (\<lambda>r. Inr (c\<lparr>send_buffer2 := r\<rparr>))
       else bind_out (Send now d (conn c)) (\<lambda>b. Inr (c\<lparr>conn := b\<rparr>)))"

definition swap_buffers :: "eoclient \<Rightarrow> eoclient" where
  "swap_buffers c = c\<lparr>conn := (conn c)\<lparr>send_buffer := send_buffer2 c\<rparr>, send_buffer2 := send_buffer (conn c)\<rparr>"

text \<open>The size of the buffer for a file: doubled until the file and its header fit.\<close>

function upload_buffer_size :: "nat \<Rightarrow> nat \<Rightarrow> nat" where
  "upload_buffer_size n sz = (if n = 0 \<or> n \<ge> sz + 6 then n else upload_buffer_size (2 * n) sz)"
  by pat_completeness auto
termination
  by (relation "measure (\<lambda>(n, sz). sz + 6 - n)") auto

declare upload_buffer_size.simps [simp del, loop_simps]

text \<open>What is sent before the file: the reply, for other files than maps a 1, and the size of it all.\<close>

definition upload_header :: "file_type \<Rightarrow> byte \<Rightarrow> size_t \<Rightarrow> PacketBuilder" where
  "upload_header type init_reply sz =
     (let builder = AddChar init_reply (PacketBuilder_new PACKET_F_INIT PACKET_A_INIT);
          builder = (if type \<noteq> FILE_MAP then AddChar 1 builder else builder)
      in AddSize sz builder)"

text \<open>The file that was opened, or \<open>None\<close> when \<open>fopen\<close> failed.\<close>

definition Upload :: "int \<Rightarrow> file_type \<Rightarrow> bytes option \<Rightarrow> byte \<Rightarrow> eoclient \<Rightarrow> (bool \<times> eoclient) outcome" where
  "Upload now type file init_reply c =
     (if upload_fh c \<noteq> None then Inl (Runtime_Error ''Already uploading file'')
      else case file of
        None \<Rightarrow> Inr (False, c)
      | Some f \<Rightarrow>
         let c = c\<lparr>upload_fh := Some f, upload_type := type, upload_pos := 0, upload_size := of_nat (length f)\<rparr>;
             sz = upload_buffer_size (length (buf (send_buffer (conn c)))) (length f);
             c = c\<lparr>send_buffer2 := (resize (of_nat sz) (send_buffer2 c))\<lparr>gpos := 0, ppos := 0, used := 0\<rparr>\<rparr>;
             c = swap_buffers c
         in bind_out (Send now (builder_Get (upload_header type init_reply (upload_size c))) (conn c)) (\<lambda>b.
              Inr (True, c\<lparr>conn := b\<rparr>)))"

text \<open>Bytes written to the send buffer without turning at its end, as \<open>fread\<close> does.\<close>

definition write_at :: "nat \<Rightarrow> bytes \<Rightarrow> ring \<Rightarrow> ring outcome" where
  "write_at i d r =
     (if i + length d \<le> length (buf r) then Inr (r\<lparr>buf := take i (buf r) @ d @ drop (i + length d) (buf r)\<rparr>)
      else Inl Write_Out_Of_Bounds)"

text \<open>The bytes of a map that are rewritten so that players can fight on it.\<close>

definition rewrite_at :: "nat \<Rightarrow> bool \<Rightarrow> nat \<Rightarrow> byte \<Rightarrow> bytes \<Rightarrow> bytes" where
  "rewrite_at off here p b d = (if here \<and> p + length d > off then d[off - p := b] else d)"

definition enable_pk :: "nat \<Rightarrow> bytes \<Rightarrow> bytes" where
  "enable_pk p d =
     rewrite_at 0x1F (p \<le> 0x1F) p 0x04 (rewrite_at 0x04 (p \<le> 0x03) p 0x01 (rewrite_at 0x03 (p \<le> 0x03) p 0xFF d))"

definition upload_tick :: "bool \<Rightarrow> bytes \<Rightarrow> eoclient \<Rightarrow> eoclient outcome" where
  "upload_tick pk f c =
     (let r = send_buffer (conn c);
          available = min (upload_size c - upload_pos c) (remaining r)
      in if available \<noteq> 0 then
           let d = take (unat available) f;
               d' = (if upload_type c = FILE_MAP \<and> pk then enable_pk (unat (upload_pos c)) d else d)
           in bind_out (write_at (unat (ppos r + 1)) d' r) (\<lambda>r.
                Inr (c\<lparr>upload_fh := Some (drop (unat available) f),
                       upload_pos := upload_pos c + of_nat (length d),
                       conn := (conn c)\<lparr>send_buffer := r\<lparr>ppos := ppos r + of_nat (length d),
                                                        used := used r + of_nat (length d)\<rparr>\<rparr>\<rparr>))
         else if upload_pos c = upload_size c \<and> remaining r = buf_length r then
           let c = swap_buffers (c\<lparr>upload_fh := None, upload_pos := 0, upload_size := 0\<rparr>)
           in Inr (c\<lparr>send_buffer2 := (send_buffer2 c)\<lparr>buf := []\<rparr>\<rparr>)
         else Inr c)"

definition Tick :: "bool \<Rightarrow> bool \<Rightarrow> int \<Rightarrow> eoclient \<Rightarrow> eoclient outcome" where
  "Tick EnforceSequence pk now c =
     (case upload_fh c of
        Some f \<Rightarrow> upload_tick pk f c
      | None \<Rightarrow> read_packets (Execute EnforceSequence now) c)"

section \<open>Handlers\<close>

datatype function_type = Invalid | ClientFn | PlayerFn | CharacterFn

record packet_handler =
  fn_type :: function_type
  allow_states :: u16
  delay :: double

definition AllowUninitialized :: u16 where "AllowUninitialized = 1"
definition AllowMenu :: u16 where "AllowMenu = 2"
definition AllowCharacter_Menu :: u16 where "AllowCharacter_Menu = 4"
definition AllowLogging_In :: u16 where "AllowLogging_In = 8"
definition AllowPlaying :: u16 where "AllowPlaying = 16"
definition AllowOutOfBand :: u16 where "AllowOutOfBand = 32"

type_synonym handlers = "byte \<Rightarrow> byte \<Rightarrow> packet_handler"

definition no_handler :: packet_handler where
  "no_handler = \<lparr>fn_type = Invalid, allow_states = 0, delay = Fin 0\<rparr>"

definition Register :: "byte \<Rightarrow> byte \<Rightarrow> packet_handler \<Rightarrow> handlers \<Rightarrow> handlers" where
  "Register family action h hs = hs(family := (hs family)(action := h))"

definition SetDelay :: "byte \<Rightarrow> byte \<Rightarrow> double \<Rightarrow> handlers \<Rightarrow> handlers" where
  "SetDelay family action d hs =
     (if fn_type (hs family action) \<noteq> Invalid
      then hs(family := (hs family)(action := (hs family action)\<lparr>delay := d\<rparr>)) else hs)"

definition StateCheck :: "eoclient \<Rightarrow> u16 \<Rightarrow> bool outcome" where
  "StateCheck c allow =
     (case state_of c of
        Uninitialized \<Rightarrow> Inr (allow AND AllowUninitialized \<noteq> 0)
      | Initialized \<Rightarrow> Inr (allow AND AllowMenu \<noteq> 0)
      | LoggedIn \<Rightarrow>
          if \<not> has_player c then Inl Null_Dereference
          else if has_character c then Inr (allow AND AllowLogging_In \<noteq> 0)
          else Inr (allow AND AllowCharacter_Menu \<noteq> 0)
      | Playing \<Rightarrow> Inr (allow AND AllowPlaying \<noteq> 0))"

text \<open>
  A handler changes the client and returns or throws. \<open>run\<close> stands for the registered function of a
  family and action.
\<close>

type_synonym run = "byte \<Rightarrow> byte \<Rightarrow> PacketReader \<Rightarrow> eoclient \<Rightarrow> failure option \<times> eoclient"

definition Handle :: "handlers \<Rightarrow> run \<Rightarrow> byte \<Rightarrow> byte \<Rightarrow> PacketReader \<Rightarrow> bool \<Rightarrow> eoclient \<Rightarrow> failure option \<times> eoclient" where
  "Handle hs run family action reader from_queue c =
     (let handler = hs family action
      in if fn_type handler = Invalid then (None, c)
         else case StateCheck c (allow_states handler) of
           Inl e \<Rightarrow> (Some e, c)
         | Inr False \<Rightarrow> (None, c)
         | Inr True \<Rightarrow>
            if \<not> from_queue \<and> allow_states handler AND AllowPlaying \<noteq> 0 \<and> \<not> (allow_states handler AND AllowOutOfBand \<noteq> 0)
            then (None, AddAction reader (delay handler) False c)
            else if fn_type handler \<noteq> ClientFn \<and> \<not> has_player c then
              (Some (Runtime_Error (if fn_type handler = PlayerFn then ''Player-handled packet before login''
                                    else ''Character-handled packet before login'')), c)
            else if fn_type handler = CharacterFn \<and> \<not> has_character c then
              (Some (Runtime_Error ''Character-handled packet before character selection''), c)
            else run family action reader c)"

definition exception :: "failure \<Rightarrow> bool" where
  "exception e = (case e of Runtime_Error _ \<Rightarrow> True | Invalid_Argument _ \<Rightarrow> True | Std_Out_Of_Range \<Rightarrow> True | _ \<Rightarrow> False)"

text \<open>The queue of one client, and of all; an exception closes the client.\<close>

definition pump_client :: "handlers \<Rightarrow> run \<Rightarrow> nat \<Rightarrow> double \<Rightarrow> int \<Rightarrow> eoclient \<Rightarrow> eoclient outcome" where
  "pump_client hs run PacketQueueMax now clock c =
     (if \<not> connected (conn c) then Inr c
      else if length (action_queue c) > PacketQueueMax then Inr (close_client clock False (AsyncOpPending False c))
      else if action_queue c \<noteq> [] \<and> d_le (queue_next c) now then
        let act = hd (action_queue c);
            r = q_reader act;
            (failed, c) = Handle hs run (Family r) (Action r) r (\<not> q_auto act) (c\<lparr>action_queue := tl (action_queue c)\<rparr>)
        in case failed of
             None \<Rightarrow> Inr (c\<lparr>queue_next := d_add now (q_time act)\<rparr>)
           | Some e \<Rightarrow>
               if exception e then
                 Inr ((close_client clock False (AsyncOpPending False c))\<lparr>queue_next := d_add now (q_time act)\<rparr>)
               else Inl e
      else Inr c)"

fun pump_queue :: "handlers \<Rightarrow> run \<Rightarrow> nat \<Rightarrow> double \<Rightarrow> int \<Rightarrow> eoclient list \<Rightarrow> eoclient list outcome" where
  "pump_queue hs run qmax now clock [] = Inr []"
| "pump_queue hs run qmax now clock (c # cs) =
     bind_out (pump_client hs run qmax now clock c) (\<lambda>c.
     bind_out (pump_queue hs run qmax now clock cs) (\<lambda>cs. Inr (c # cs)))"

text \<open>The pings: a client that has not answered the last one is closed.\<close>

definition ping_packet :: "random \<Rightarrow> eoclient \<Rightarrow> PacketBuilder" where
  "ping_packet rnd c =
     (let (s1, s2) = GetSeqUpdateBytes rnd c
      in AddChar (of_int s2) (AddShort (of_int s1) (PacketBuilder_new PACKET_CONNECTION PACKET_PLAYER)))"

definition ping_client :: "random \<Rightarrow> int \<Rightarrow> eoclient \<Rightarrow> eoclient outcome" where
  "ping_client rnd now c =
     (if needpong c then Inr (close_client now False (AsyncOpPending False c))
      else let c = PingNewSequence rnd c
           in send_packet now (ping_packet rnd c) (c\<lparr>needpong := True\<rparr>))"


section \<open>Packets out of the stream\<close>

text \<open>
  The bytes of a packet that have been read, and all that is still to be dealt with. While the data
  are read the length counts what is missing.
\<close>

definition partial :: "eoclient \<Rightarrow> bytes" where
  "partial c = (case packet_state c of
     ReadLen1 \<Rightarrow> []
   | ReadLen2 \<Rightarrow> [fst (raw_length c)]
   | ReadData \<Rightarrow> [fst (raw_length c), snd (raw_length c)] @ pk_data c)"

definition waiting :: "eoclient \<Rightarrow> bytes" where
  "waiting c = contents (recv_buffer (conn c))"

definition packet_length :: "byte \<times> byte \<Rightarrow> nat" where
  "packet_length raw = unat (Number (fst raw) (snd raw) 254 254)"

definition framing_ok :: "eoclient \<Rightarrow> bool" where
  "framing_ok c \<longleftrightarrow>
     client_ok (conn c) \<and>
     (if packet_state c = ReadData
      then packet_length (raw_length c) = unat (pk_length c) + length (pk_data c)
      else pk_data c = [])"

definition stuck :: "eoclient \<Rightarrow> bool" where
  "stuck c \<longleftrightarrow> packet_state c = ReadData \<and> pk_length c = 0"

definition packet_done :: "eoclient \<Rightarrow> eoclient" where
  "packet_done c = c\<lparr>pk_data := [], packet_state := ReadLen1\<rparr>"

lemma feed_Nil [simp]: "feed exec [] c = Inr c"
  by (simp add: feed.simps)

lemma feed_one:
  "packet_state c = ReadLen1 \<Longrightarrow>
     feed exec [b] c = Inr (c\<lparr>raw_length := (b, snd (raw_length c)), packet_state := ReadLen2\<rparr>)"
  "packet_state c = ReadLen2 \<Longrightarrow>
     feed exec [b] c = Inr (c\<lparr>raw_length := (fst (raw_length c), b),
       pk_length := Number (fst (raw_length c)) b 254 254, packet_state := ReadData\<rparr>)"
  by (simp_all add: feed.simps [of exec "[b]"])

lemma feed_data:
  assumes "packet_state c = ReadData" "d \<noteq> []" "length d \<le> unat (pk_length c)"
  shows "feed exec d c =
    (let c' = c\<lparr>pk_data := pk_data c @ d, pk_length := pk_length c - of_nat (length d)\<rparr>
     in if length d = unat (pk_length c) then bind_out (exec (pk_data c') c') (\<lambda>c. Inr (packet_done c)) else Inr c')"
proof -
  have "length d < 2 ^ 32" using assms(3) unsigned_less [of "pk_length c", where 'a = nat] by simp
  then have "unat (pk_length c - of_nat (length d)) = unat (pk_length c) - length d"
    using assms(3) by (simp add: unat_sub word_le_nat_alt unat_of_nat)
  then have "pk_length c - of_nat (length d) = 0 \<longleftrightarrow> length d = unat (pk_length c)"
    using assms(3) by (simp only: unat_eq_0 [symmetric]) linarith
  then show ?thesis
    using assms by (simp add: feed.simps [of exec d] packet_done_def Let_def)
qed

lemma Recv_eoclient:
  assumes "client_ok (conn c)"
  obtains r where "Recv n (conn c) = Inr (take (unat n) (waiting c), (conn c)\<lparr>recv_buffer := r\<rparr>)"
    "ring_ok r" "contents r = drop (unat n) (waiting c)" "client_ok ((conn c)\<lparr>recv_buffer := r\<rparr>)"
proof -
  obtain r where r: "Recv n (conn c) = Inr (take (unat n) (waiting c), (conn c)\<lparr>recv_buffer := r\<rparr>)"
    "ring_ok r" "waiting c = take (unat n) (waiting c) @ contents r"
    using Recv_spec [OF assms, of n] by (auto simp: waiting_def)
  show thesis
  proof (intro that)
    show "contents r = drop (unat n) (waiting c)"
      using r(3) by (metis append_take_drop_id same_append_eq)
    show "client_ok ((conn c)\<lparr>recv_buffer := r\<rparr>)" using assms r(2) by (simp add: client_ok_def)
  qed (use r in auto)
qed


lemma read_byte:
  assumes ok: "framing_ok c" and st: "packet_state c \<noteq> ReadData"
  shows "\<exists>c'. read_packets exec c = Inr c' \<and> framing_ok c' \<and> partial c' @ waiting c' = partial c @ waiting c \<and>
    waiting c' = tl (waiting c) \<and> raw_length c' =
      (if waiting c = [] then raw_length c
       else if packet_state c = ReadLen1 then (hd (waiting c), snd (raw_length c))
       else (fst (raw_length c), hd (waiting c))) \<and>
    packet_state c' = (if waiting c = [] then packet_state c else if packet_state c = ReadLen1 then ReadLen2 else ReadData) \<and>
    (packet_state c' = ReadData \<longrightarrow> pk_data c' = [])"
proof -
  have client: "client_ok (conn c)" using ok by (simp add: framing_ok_def)
  obtain r where r: "Recv 1 (conn c) = Inr (take 1 (waiting c), (conn c)\<lparr>recv_buffer := r\<rparr>)"
    "contents r = drop 1 (waiting c)" "client_ok ((conn c)\<lparr>recv_buffer := r\<rparr>)"
    using Recv_eoclient [OF client, of 1] by auto
  have read: "read_packets exec c = feed exec (take 1 (waiting c)) (c\<lparr>conn := (conn c)\<lparr>recv_buffer := r\<rparr>\<rparr>)"
    using st r(1) by (simp add: read_packets_def)
  show ?thesis
  proof (cases "waiting c")
    case Nil
    then show ?thesis using read r ok st by (simp add: framing_ok_def waiting_def partial_def split: packet_state.split)
  next
    case (Cons b bs)
    then show ?thesis
      using read r ok st
      by (cases "packet_state c") (simp_all add: feed_one framing_ok_def waiting_def partial_def packet_length_def)
  qed
qed

lemma read_data:
  assumes ok: "framing_ok c" and st: "packet_state c = ReadData" and some: "waiting c \<noteq> []" "pk_length c \<noteq> 0"
  shows "\<exists>c'. framing_ok c' \<and> raw_length c' = raw_length c \<and> packet_state c' = ReadData \<and>
    pk_data c' = pk_data c @ take (unat (pk_length c)) (waiting c) \<and> waiting c' = drop (unat (pk_length c)) (waiting c) \<and>
    read_packets exec c =
      (if length (waiting c) \<ge> unat (pk_length c) then bind_out (exec (pk_data c') c') (\<lambda>c. Inr (packet_done c)) else Inr c')"
proof -
  let ?n = "unat (pk_length c)"
  have client: "client_ok (conn c)" using ok by (simp add: framing_ok_def)
  have n: "unat (ucast (pk_length c) :: size_t) = ?n" by (rule unat_ucast_up) simp
  obtain r where r: "Recv (ucast (pk_length c)) (conn c) = Inr (take ?n (waiting c), (conn c)\<lparr>recv_buffer := r\<rparr>)"
    "contents r = drop ?n (waiting c)" "client_ok ((conn c)\<lparr>recv_buffer := r\<rparr>)"
    using Recv_eoclient [OF client, of "ucast (pk_length c)"] n by auto
  let ?d = "take ?n (waiting c)"
  let ?c = "c\<lparr>conn := (conn c)\<lparr>recv_buffer := r\<rparr>\<rparr>"
  let ?c' = "?c\<lparr>pk_data := pk_data c @ ?d, pk_length := pk_length c - of_nat (length ?d)\<rparr>"
  have pos: "0 < ?n" using some(2) by (simp add: unat_gt_0)
  have read: "read_packets exec c = feed exec ?d ?c"
    using st r(1) by (simp add: read_packets_def)
  have "?d \<noteq> []" using some(1) pos by simp
  then have fed: "feed exec ?d ?c =
      (if length ?d = ?n then bind_out (exec (pk_data ?c') ?c') (\<lambda>c. Inr (packet_done c)) else Inr ?c')"
    using st by (subst feed_data) (simp_all add: Let_def)
  have "length ?d < 2 ^ 32" using unsigned_less [of "pk_length c", where 'a = nat] by simp
  then have "unat (pk_length c - of_nat (length ?d)) = ?n - length ?d"
    by (simp add: unat_sub word_le_nat_alt unat_of_nat)
  then have "framing_ok ?c'"
    using ok st r(3) by (simp add: framing_ok_def)
  moreover have "length ?d = ?n \<longleftrightarrow> length (waiting c) \<ge> ?n" by auto
  ultimately show ?thesis
    using read fed r(2) st by (intro exI [of _ ?c']) (simp add: waiting_def)
qed


lemma read_packets_step:
  assumes "framing_ok c" "\<not> stuck c"
  shows "\<exists>c'. framing_ok c' \<and> partial c' @ waiting c' = partial c @ waiting c \<and>
    (waiting c \<noteq> [] \<longrightarrow> length (waiting c') < length (waiting c)) \<and>
    read_packets exec c =
      (if packet_state c = ReadData \<and> length (pk_data c') = packet_length (raw_length c')
       then bind_out (exec (pk_data c') c') (\<lambda>c. Inr (packet_done c)) else Inr c')"
proof (cases "packet_state c = ReadData")
  case False
  then show ?thesis using read_byte [OF assms(1) False, of exec] by (cases "waiting c") auto
next
  case data: True
  then have pos: "pk_length c \<noteq> 0" using assms(2) by (simp add: stuck_def)
  show ?thesis
  proof (cases "waiting c = []")
    case True
    have "client_ok (conn c)" using assms(1) by (simp add: framing_ok_def)
    then obtain r where r: "Recv (ucast (pk_length c)) (conn c) = Inr ([], (conn c)\<lparr>recv_buffer := r\<rparr>)"
      "contents r = []" "client_ok ((conn c)\<lparr>recv_buffer := r\<rparr>)"
      using Recv_eoclient [of c "ucast (pk_length c)"] True by auto
    then show ?thesis
      using data True assms(1) pos
      by (intro exI [of _ "c\<lparr>conn := (conn c)\<lparr>recv_buffer := r\<rparr>\<rparr>"])
        (simp add: read_packets_def waiting_def partial_def framing_ok_def unat_eq_0)
  next
    case False
    obtain c' where c': "framing_ok c'" "raw_length c' = raw_length c" "packet_state c' = ReadData"
      "pk_data c' = pk_data c @ take (unat (pk_length c)) (waiting c)"
      "waiting c' = drop (unat (pk_length c)) (waiting c)"
      "read_packets exec c =
        (if length (waiting c) \<ge> unat (pk_length c) then bind_out (exec (pk_data c') c') (\<lambda>c. Inr (packet_done c)) else Inr c')"
      using read_data [OF assms(1) data False pos] by blast
    have "0 < unat (pk_length c)" using pos by (simp add: unat_gt_0)
    moreover have "packet_length (raw_length c) = unat (pk_length c) + length (pk_data c)"
      using assms(1) data by (simp add: framing_ok_def)
    then have "length (pk_data c') = packet_length (raw_length c') \<longleftrightarrow> length (waiting c) \<ge> unat (pk_length c)"
      using c'(2,4) by auto
    ultimately show ?thesis
      using c' data False by (intro exI [of _ c']) (simp add: partial_def)
  qed
qed

lemma read_packet_whole:
  assumes "framing_ok c" "packet_state c = ReadLen1" "waiting c = b0 # b1 # payload @ rest"
    and "length payload = packet_length (b0, b1)" "payload \<noteq> []"
  shows "\<exists>c'. waiting c' = rest \<and> pk_data c' = payload \<and> framing_ok c' \<and>
    bind_out (bind_out (read_packets exec c) (read_packets exec)) (read_packets exec) =
      bind_out (exec payload c') (\<lambda>c. Inr (packet_done c))"
proof -
  obtain c1 where c1: "read_packets exec c = Inr c1" "framing_ok c1" "waiting c1 = b1 # payload @ rest"
    "fst (raw_length c1) = b0" "packet_state c1 = ReadLen2"
    using read_byte [OF assms(1), of exec] assms(2,3) by auto
  obtain c2 where c2: "read_packets exec c1 = Inr c2" "framing_ok c2" "waiting c2 = payload @ rest"
    "raw_length c2 = (b0, b1)" "packet_state c2 = ReadData" "pk_data c2 = []"
    using read_byte [OF c1(2), of exec] c1(3-5) by auto
  have len: "unat (pk_length c2) = length payload"
    using c2(2,4-6) assms(4) by (simp add: framing_ok_def)
  then have "pk_length c2 \<noteq> 0" using assms(5) by auto
  then obtain c3 where "framing_ok c3" "pk_data c3 = payload" "waiting c3 = rest"
    "read_packets exec c2 = bind_out (exec payload c3) (\<lambda>c. Inr (packet_done c))"
    using read_data [OF c2(2,5), of exec] c2(3,6) assms(5) len by auto
  then show ?thesis using c1(1) c2(1) by auto
qed

text \<open>A packet of length zero is waited for without end: no bytes are asked for, so none come.\<close>

lemma read_nothing:
  assumes "framing_ok c" "stuck c"
  shows "read_packets exec c = Inr c"
proof -
  have "(conn c)\<lparr>recv_buffer := (recv_buffer (conn c))\<lparr>used := used (recv_buffer (conn c))\<rparr>\<rparr> = conn c" by simp
  then show ?thesis
    using assms(2) by (simp add: stuck_def read_packets_def Recv_def ring_get_def)
qed

fun read_times :: "nat \<Rightarrow> (bytes \<Rightarrow> eoclient \<Rightarrow> eoclient outcome) \<Rightarrow> eoclient \<Rightarrow> eoclient outcome" where
  "read_times 0 exec c = Inr c"
| "read_times (Suc n) exec c = bind_out (read_packets exec c) (read_times n exec)"

lemma empty_packet_stuck:
  assumes "framing_ok c" "packet_state c = ReadLen1" "waiting c = b0 # b1 # rest" "packet_length (b0, b1) = 0"
  shows "\<exists>c'. stuck c' \<and> waiting c' = rest \<and> (\<forall>n. read_times (n + 2) exec c = Inr c')"
proof -
  obtain c1 where c1: "read_packets exec c = Inr c1" "framing_ok c1" "waiting c1 = b1 # rest"
    "fst (raw_length c1) = b0" "packet_state c1 = ReadLen2"
    using read_byte [OF assms(1), of exec] assms(2,3) by auto
  obtain c2 where c2: "read_packets exec c1 = Inr c2" "framing_ok c2" "waiting c2 = rest"
    "raw_length c2 = (b0, b1)" "packet_state c2 = ReadData" "pk_data c2 = []"
    using read_byte [OF c1(2), of exec] c1(3-5) by auto
  have st: "stuck c2" using c2(2,4-6) assms(4) by (simp add: framing_ok_def stuck_def unat_eq_0)
  have "read_times n exec c2 = Inr c2" for n
    by (induction n) (simp_all add: read_nothing [OF c2(2) st])
  then show ?thesis using c1(1) c2(1,3) st by (intro exI [of _ c2]) simp
qed



section \<open>Sequence numbers of both sides\<close>

text \<open>What \<open>util::rand\<close> promises.\<close>

definition fair_random :: "random \<Rightarrow> bool" where
  "fair_random rnd \<longleftrightarrow> (\<forall>lo hi. lo \<le> hi \<longrightarrow> lo \<le> rnd lo hi \<and> rnd lo hi \<le> hi)"

lemma div7: "7 * (x div 7) \<le> x" "x < 7 * (x div 7) + 7" for x :: int
  by presburger+

lemma seq_split:
  fixes s m a b :: int
  assumes "b \<le> m" "m \<le> a" "7 * a \<le> s + 13" "s - 233 < 7 * b + 7" "s \<le> 1757"
  shows "m < 253" "0 \<le> s - m * 7 + 13" "s - m * 7 + 13 < 253"
  using assms by linarith+

lemma seq_init_bytes:
  assumes "fair_random rnd" "0 \<le> seq_start c" "seq_start c \<le> 1757" "GetSeqInitBytes rnd c = (s1, s2)"
  shows "s1 * 7 + s2 - 13 = seq_start c \<and> 0 \<le> s1 \<and> s1 < 253 \<and> 0 \<le> s2 \<and> s2 < 253"
proof -
  let ?max = "(seq_start c + 13) div 7" and ?min = "max 0 ((seq_start c - 233) div 7)"
  have sdiv_pos: "x sdiv 7 = x div 7" if "0 \<le> x" for x :: int
    using that by (cases "x = 0") (simp_all add: signed_divide_int_def)
  have neg: "max 0 (x sdiv 7) = max 0 (x div 7)" for x :: int
    using sdiv_pos [of x] by (cases "0 \<le> x") (auto simp: signed_divide_int_def sgn_if max_def)
  have le: "?min \<le> ?max" using assms(2) by (auto simp: max_def intro: zdiv_mono1)
  then have "?min \<le> rnd ?min ?max \<and> rnd ?min ?max \<le> ?max"
    using assms(1) unfolding fair_random_def by blast
  moreover have "0 \<le> ?min" "(seq_start c - 233) div 7 \<le> ?min" by simp_all
  ultimately have s: "0 \<le> rnd ?min ?max" "(seq_start c - 233) div 7 \<le> rnd ?min ?max" "rnd ?min ?max \<le> ?max"
    by linarith+
  note d = seq_split [OF s(2,3) div7 assms(3)]
  define m where "m = rnd ?min ?max"
  have "seq_start c - 252 + 13 + 6 = seq_start c - 233" by simp
  then have "max 0 ((seq_start c - 252 + 13 + 6) sdiv 7) = ?min" by (simp only: neg)
  moreover have "(seq_start c + 13) sdiv 7 = ?max" using assms(2) by (intro sdiv_pos) simp
  ultimately have "GetSeqInitBytes rnd c = (m mod 256, (seq_start c - m mod 256 * 7 + 13) mod 256)"
    by (simp only: GetSeqInitBytes_def Let_def m_def)
  moreover have "m mod 256 = m" "(seq_start c - m * 7 + 13) mod 256 = seq_start c - m * 7 + 13"
    using s(1) d unfolding m_def [symmetric] by simp_all
  ultimately show ?thesis
    using assms(4) s(1) d unfolding m_def [symmetric] by auto
qed

lemma seq_update_bytes:
  assumes "fair_random rnd" "0 \<le> upcoming_seq_start c" "upcoming_seq_start c \<le> 1757"
    "GetSeqUpdateBytes rnd c = (s1, s2)"
  shows "s1 - s2 = upcoming_seq_start c \<and> 0 \<le> s1 \<and> s1 < 2010 \<and> 0 \<le> s2 \<and> s2 < 253"
proof -
  let ?u = "upcoming_seq_start c"
  let ?r = "rnd ?u (?u + 252)"
  have "?u \<le> ?r" "?r \<le> ?u + 252" using assms(1) by (simp_all add: fair_random_def)
  then show ?thesis using assms(2-4) by (auto simp: GetSeqUpdateBytes_def Let_def)
qed

lemma as_int32_small: "- (2 ^ 31) \<le> n \<Longrightarrow> n < 2 ^ 31 \<Longrightarrow> as_int32 n = n"
  by (simp add: as_int32_def)

lemma seq_next: "0 \<le> seq c \<Longrightarrow> seq c < 10 \<Longrightarrow> seq (snd (GenSequence c)) = (seq c + 1) mod 10"
  by (simp add: GenSequence_def signed_modulo_int_def)

text \<open>
  C15: The two bytes a client is told at the start, and the two numbers of a ping, give the client
  the start of the sequence whatever was drawn, each in the range a number of its size is sent in;
  the server counts from that start in turns of ten.
\<close>

theorem sequence_agreed:
  assumes "fair_random rnd" "0 \<le> seq c" "seq c < 10"
  shows "(let c = InitNewSequence rnd c; (s1, s2) = GetSeqInitBytes rnd c
      in s1 * 7 + s2 - 13 = seq_start c \<and> 0 \<le> s1 \<and> s1 < 253 \<and> 0 \<le> s2 \<and> s2 < 253 \<and>
         fst (GenSequence c) = seq_start c + seq c \<and> seq (snd (GenSequence c)) = (seq c + 1) mod 10) \<and>
    (let c = PingNewSequence rnd c; (s1, s2) = GetSeqUpdateBytes rnd c
      in s1 - s2 = seq_start (PongNewSequence c) \<and> 0 \<le> s1 \<and> s1 < 64009 \<and> 0 \<le> s2 \<and> s2 < 253)"
proof
  let ?i = "InitNewSequence rnd c" and ?p = "PingNewSequence rnd c"
  have r: "0 \<le> rnd 0 1757" "rnd 0 1757 \<le> 1757" using assms(1) by (simp_all add: fair_random_def)
  obtain s1 s2 where i: "GetSeqInitBytes rnd ?i = (s1, s2)" by fastforce
  have "as_int32 (seq_start ?i + seq c) = seq_start ?i + seq c"
    using r assms(2,3) by (intro as_int32_small) (simp_all add: InitNewSequence_def)
  then show "let c = InitNewSequence rnd c; (s1, s2) = GetSeqInitBytes rnd c
      in s1 * 7 + s2 - 13 = seq_start c \<and> 0 \<le> s1 \<and> s1 < 253 \<and> 0 \<le> s2 \<and> s2 < 253 \<and>
         fst (GenSequence c) = seq_start c + seq c \<and> seq (snd (GenSequence c)) = (seq c + 1) mod 10"
    using seq_init_bytes [OF assms(1) _ _ i] i r seq_next [of ?i] assms(2,3)
    by (simp add: InitNewSequence_def GenSequence_def)
  obtain u1 u2 where "GetSeqUpdateBytes rnd ?p = (u1, u2)" by fastforce
  then show "let c = PingNewSequence rnd c; (s1, s2) = GetSeqUpdateBytes rnd c
      in s1 - s2 = seq_start (PongNewSequence c) \<and> 0 \<le> s1 \<and> s1 < 64009 \<and> 0 \<le> s2 \<and> s2 < 253"
    using seq_update_bytes [OF assms(1), of ?p u1 u2] r
    by (simp add: PingNewSequence_def PongNewSequence_def)
qed


section \<open>The order packets are handled in\<close>

text \<open>
  Packets come in as actions of their own and, for a player in the game, are queued a second time
  before they are handled; the packets in the order they will be handled in.
\<close>

definition packets :: "eoclient \<Rightarrow> PacketReader list" where
  "packets c = map q_reader (filter (\<lambda>a. \<not> q_auto a) (action_queue c) @ filter q_auto (action_queue c))"

definition queues :: "packet_handler \<Rightarrow> bool" where
  "queues h \<longleftrightarrow> fn_type h \<noteq> Invalid \<and> allow_states h AND AllowPlaying \<noteq> 0 \<and> \<not> (allow_states h AND AllowOutOfBand \<noteq> 0)"

definition in_game :: "eoclient \<Rightarrow> bool" where
  "in_game c \<longleftrightarrow> connected (conn c) \<and> state_of c = Playing \<and> has_player c \<and> has_character c"

lemma Handle_again:
  "queues (hs f a) \<Longrightarrow> in_game c \<Longrightarrow> Handle hs run f a r False c = (None, AddAction r (delay (hs f a)) False c)"
  by (simp add: Handle_def queues_def in_game_def StateCheck_def)

lemma Handle_now:
  "queues (hs f a) \<Longrightarrow> in_game c \<Longrightarrow> Handle hs run f a r True c = run f a r c"
  by (simp add: Handle_def queues_def in_game_def StateCheck_def)

lemma in_game_queue [simp]: "in_game (c\<lparr>action_queue := q\<rparr>) = in_game c"
  by (simp add: in_game_def)


section \<open>What an upload sends\<close>

lemma put_contiguous:
  assumes "\<exists>k < 63. length (buf r) = 2 ^ k" "unat (ppos r) + length d < length (buf r)"
  shows "put_bytes d r = Inr (r\<lparr>ppos := ppos r + of_nat (length d),
    buf := take (unat (ppos r) + 1) (buf r) @ d @ drop (unat (ppos r) + 1 + length d) (buf r)\<rparr>)"
  using assms
proof (induction d arbitrary: r)
  case (Cons b bs)
  obtain k where k: "k < 63" "length (buf r) = 2 ^ k" using Cons.prems(1) by blast
  have big: "(2 :: nat) ^ k \<le> 2 ^ 62" using k(1) by (intro power_increasing) auto
  have nxt: "unat ((ppos r + 1) AND buf_mask r) = unat (ppos r) + 1"
  proof -
    have "buf_mask r = mask k" using k by (simp add: buf_mask_def buf_length_def mask_eq_exp_minus_1)
    then have "unat ((ppos r + 1) AND buf_mask r) = take_bit k (unat (ppos r + 1))"
      by (simp only: take_bit_eq_mask [symmetric] unsigned_take_bit_eq)
    moreover have "unat (ppos r + 1) = unat (ppos r) + 1"
      using unat_add_small [of "ppos r" 1] Cons.prems(2) k(2) big by simp
    ultimately show ?thesis using Cons.prems(2) k(2) by (simp add: take_bit_nat_eq_self)
  qed
  then have eq: "(ppos r + 1) AND buf_mask r = ppos r + 1"
    using unat_add_small [of "ppos r" 1] Cons.prems(2) k(2) big by (simp add: word_unat_eq_iff)
  let ?r = "r\<lparr>ppos := ppos r + 1, buf := (buf r)[unat (ppos r) + 1 := b]\<rparr>"
  have "put_bytes (b # bs) r = put_bytes bs ?r"
    using nxt eq Cons.prems(2) by (simp add: Let_def)
  also have "\<dots> = Inr (?r\<lparr>ppos := ppos ?r + of_nat (length bs),
      buf := take (unat (ppos ?r) + 1) (buf ?r) @ bs @ drop (unat (ppos ?r) + 1 + length bs) (buf ?r)\<rparr>)"
    using nxt eq Cons.prems k by (intro Cons.IH) auto
  also have "take (unat (ppos ?r) + 1) (buf ?r) = take (unat (ppos r) + 1) (buf r) @ [b]"
    using nxt eq Cons.prems(2) by (simp add: take_Suc_conv_app_nth)
  finally show ?case using nxt eq by (simp add: ac_simps)
qed simp

lemma write_at_is_put:
  assumes ok: "ring_ok r" and "unat (ppos r) + length d < length (buf r)" "unat (used r) + length d \<le> length (buf r)"
  shows "\<exists>r'. write_at (unat (ppos r + 1)) d r = Inr r' \<and>
    contents (r'\<lparr>ppos := ppos r + of_nat (length d), used := used r + of_nat (length d)\<rparr>) = contents r @ d"
proof -
  let ?b = "take (unat (ppos r) + 1) (buf r) @ d @ drop (unat (ppos r) + 1 + length d) (buf r)"
  obtain k where "length (buf r) \<le> 2 ^ 62" using ring_size [OF ok] by metis
  then have nxt: "unat (ppos r + 1) = unat (ppos r) + 1"
    using unat_add_small [of "ppos r" 1] assms(2) by simp
  have "put_bytes d r = Inr (r\<lparr>ppos := ppos r + of_nat (length d), buf := ?b\<rparr>)"
    using ok assms(2) by (intro put_contiguous) (auto simp: ring_ok_def)
  moreover have "length d \<le> unat (remaining r)" using assms(3) unat_remaining [OF ok] by simp
  then obtain r' where "ring_put d r = Inr r'" "contents r' = contents r @ d" using ring.put_law [OF ok] by blast
  ultimately have "contents (r\<lparr>ppos := ppos r + of_nat (length d), buf := ?b, used := used r + of_nat (length d)\<rparr>) = contents r @ d"
    by (auto simp: ring_put_def)
  moreover have "r\<lparr>ppos := ppos r + of_nat (length d), buf := ?b, used := used r + of_nat (length d)\<rparr> =
      r\<lparr>buf := ?b, ppos := ppos r + of_nat (length d), used := used r + of_nat (length d)\<rparr>" by simp
  ultimately have "contents (r\<lparr>buf := ?b, ppos := ppos r + of_nat (length d), used := used r + of_nat (length d)\<rparr>) =
      contents r @ d" by (simp only:)
  then show ?thesis
    using nxt assms(2) by (intro exI [of _ "r\<lparr>buf := ?b\<rparr>"]) (simp add: write_at_def)
qed


text \<open>The buffer for a file and the header in front of it.\<close>

lemma upload_buffer_power:
  "\<exists>j. upload_buffer_size (2 ^ k) sz = 2 ^ (k + j) \<and> upload_buffer_size (2 ^ k) sz \<ge> sz + 6 \<and>
     (j = 0 \<or> upload_buffer_size (2 ^ k) sz < 2 * (sz + 6))"
proof (induction "sz + 6 - 2 ^ k" arbitrary: k rule: less_induct)
  case less
  show ?case
  proof (cases "2 ^ k \<ge> sz + 6")
    case True
    then show ?thesis by (intro exI [of _ 0]) (simp add: upload_buffer_size.simps)
  next
    case False
    moreover have "0 < (2 :: nat) ^ k" by simp
    ultimately have "sz + 6 - 2 ^ Suc k < sz + 6 - 2 ^ k" unfolding power_Suc by linarith
    then obtain j where j: "upload_buffer_size (2 ^ Suc k) sz = 2 ^ (Suc k + j)"
      "upload_buffer_size (2 ^ Suc k) sz \<ge> sz + 6"
      "j = 0 \<or> upload_buffer_size (2 ^ Suc k) sz < 2 * (sz + 6)" using less by blast
    have "upload_buffer_size (2 ^ k) sz = upload_buffer_size (2 ^ Suc k) sz"
      using False by (simp add: upload_buffer_size.simps [of "2 ^ k"])
    moreover have "upload_buffer_size (2 ^ Suc k) sz < 2 * (sz + 6)" using j False by auto
    ultimately show ?thesis using j by (intro exI [of _ "Suc j"]) auto
  qed
qed

lemma upload_header_length:
  "length (builder_Get (upload_header type rep sz)) = (if type = FILE_MAP then 5 else 6)"
  by (simp add: upload_header_def builder_Get_def AddSize_def AddChar_def builder_append_def
      PacketBuilder_new_def SetID_def SetID_raw_def number_prefix_def bytes_list_def Let_def split: prod.split)

lemma power_not_six: "2 ^ m \<noteq> (6 :: nat)"
proof
  assume m: "2 ^ m = (6 :: nat)"
  then obtain n where n: "m = Suc n" by (cases m) auto
  then have "2 ^ n = (3 :: nat)" using m by simp
  then show False by (cases n) (auto dest: arg_cong [of _ _ even])
qed

lemma fresh_ring:
  "length b = 2 ^ k \<Longrightarrow> k < 63 \<Longrightarrow> ring_ok \<lparr>buf = b, gpos = 0, ppos = 0, used = 0\<rparr>"
  "contents \<lparr>buf = b, gpos = 0, ppos = 0, used = 0\<rparr> = []"
  by (auto simp: ring_ok_def contents_def)

lemma length_enable_pk [simp]: "length (enable_pk p d) = length d"
  by (simp add: enable_pk_def rewrite_at_def)


text \<open>The ring an upload starts with, and what a header and a file written behind it make of it.\<close>

lemma upload_writes:
  assumes "length b = 2 ^ k" "k < 63" "h \<noteq> []" "length h \<le> 2 ^ k"
  shows "\<exists>r. ring_put h \<lparr>buf = b, gpos = 0, ppos = 0, used = 0\<rparr> = Inr r \<and> contents r = h \<and> ring_ok r \<and>
    unat (remaining r) = 2 ^ k - length h \<and> (length h < 2 ^ k \<longrightarrow> unat (ppos r) = length h) \<and>
    length (buf r) = 2 ^ k \<and> unat (used r) = length h"
proof -
  let ?r = "\<lparr>buf = b, gpos = 0, ppos = 0, used = 0\<rparr>"
  note fresh = fresh_ring(1) [OF assms(1,2)] fresh_ring(2) [of b]
  have big: "(2 :: nat) ^ k \<le> 2 ^ 62" using assms(2) by (intro power_increasing) auto
  have "unat (remaining ?r) = 2 ^ k" using unat_remaining [OF fresh(1)] assms(1) by simp
  then obtain r where r: "ring_put h ?r = Inr r" "ring_ok r" "contents r = h" "unat (remaining r) = 2 ^ k - length h"
    using ring.put_law [OF fresh(1), of h] assms(4) fresh(2) by auto
  obtain r' where r': "put_bytes h ?r = Inr r'" "length (buf r') = 2 ^ k" "used r' = 0"
    using put_bytes_contents [OF fresh(1), of h] assms(1,4) by auto
  have req: "r = r'\<lparr>used := of_nat (length h)\<rparr>" using r(1) r'(1,3) by (simp add: ring_put_def)
  have u: "unat (used r) = length h" using r(3) by (metis length_contents)
  have "gpos r = 0"
  proof -
    have "gpos r'' = gpos q" if "put_bytes d q = Inr r''" for d q r''
      using that by (induction d arbitrary: q) (auto simp: Let_def split: if_splits)
    from this [OF r'(1)] show ?thesis by (simp add: req)
  qed
  then have "unat (ppos r) = length h mod 2 ^ k"
    using r(2) u r'(2) by (simp add: ring_ok_def req)
  then show ?thesis using r r'(2) u by (intro exI [of _ r]) (simp add: req)
qed

text \<open>
  After an upload is started the send buffer holds the header of the reply and, from the first
  call on, the whole file behind it, for a map with the bytes that allow fighting. A file other
  than a map whose length and six bytes are exactly the size of the buffer is written one byte past
  its end.
\<close>

theorem upload_sends_file:
  assumes "upload_fh c = None" "length (buf (send_buffer (conn c))) = 2 ^ k" "k \<le> 40" "length f < 2 ^ 40"
    and "buf (send_buffer2 c) = []"
  shows "\<exists>c1. Upload now type (Some f) rep c = Inr (True, c1) \<and>
    contents (send_buffer (conn c1)) = builder_Get (upload_header type rep (of_nat (length f))) \<and>
    (if type = FILE_MAP \<or> length f + 6 < upload_buffer_size (2 ^ k) (length f)
     then \<exists>c2. upload_tick pk f c1 = Inr c2 \<and>
       contents (send_buffer (conn c2)) = builder_Get (upload_header type rep (of_nat (length f))) @
         (if type = FILE_MAP \<and> pk then enable_pk 0 f else f)
     else upload_tick pk f c1 = Inl Write_Out_Of_Bounds)"
proof -
  let ?N = "upload_buffer_size (2 ^ k) (length f)"
  let ?h = "builder_Get (upload_header type rep (of_nat (length f)))"
  obtain j where j: "?N = 2 ^ (k + j)" "length f + 6 \<le> ?N" "j = 0 \<or> ?N < 2 * (length f + 6)"
    using upload_buffer_power [of k "length f"] by blast
  have N: "?N < 2 ^ 42"
  proof (cases "j = 0")
    case True
    then have "?N \<le> 2 ^ 40" using j(1) power_increasing [OF assms(3), of "2 :: nat"] by simp
    then show ?thesis by simp
  qed (use j(3) assms(4) in simp)
  then have kj: "k + j < 63" using j(1) power_strict_increasing_iff [of "2 :: nat" "k + j" 42] by simp
  let ?b = "replicate ?N 0 :: bytes"
  have h: "length ?h = (if type = FILE_MAP then 5 else 6)" by (rule upload_header_length)
  have fits: "length ?h + length f \<le> ?N" using j(2) h by simp
  obtain r where r: "ring_put ?h \<lparr>buf = ?b, gpos = 0, ppos = 0, used = 0\<rparr> = Inr r" "contents r = ?h" "ring_ok r"
    "unat (remaining r) = ?N - length ?h" "length ?h < ?N \<longrightarrow> unat (ppos r) = length ?h"
    "length (buf r) = ?N" "unat (used r) = length ?h"
  proof -
    have "length ?h \<noteq> 0" using h by (simp split: if_splits)
    then have "length ?b = 2 ^ (k + j)" "?h \<noteq> []" "length ?h \<le> 2 ^ (k + j)" using j(1) fits by auto
    from upload_writes [OF this(1) kj this(2,3)] show thesis using that unfolding j(1) by blast
  qed
  have "?N \<noteq> 6" using power_not_six j(1) by simp
  then have lt: "length ?h < ?N" "0 < length ?h" using j(2) h by (simp_all split: if_splits)
  have p: "unat (ppos r) = length ?h" "unat (ppos r + 1) = length ?h + 1"
    using r(5) lt(1) N unat_add_small [of "ppos r" 1] by simp_all
  define c0 where "c0 = c\<lparr>upload_fh := Some f, upload_type := type, upload_pos := 0, upload_size := of_nat (length f),
      send_buffer2 := send_buffer (conn c), conn := (conn c)\<lparr>send_buffer := r\<rparr>\<rparr>"
  have "unat (remaining \<lparr>buf = ?b, gpos = 0, ppos = 0, used = 0\<rparr>) = ?N"
    using unat_remaining [OF fresh_ring(1) [of ?b "k + j"]] kj j(1) by simp
  then have room: "\<not> (of_nat (length ?h) :: size_t) > remaining \<lparr>buf = ?b, gpos = 0, ppos = 0, used = 0\<rparr>"
    using lt(1) h by (simp add: word_less_nat_alt unat_of_nat)
  have ring: "(resize (of_nat ?N) (send_buffer2 c))\<lparr>gpos := 0, ppos := 0, used := 0\<rparr> =
      \<lparr>buf = ?b, gpos = 0, ppos = 0, used = 0\<rparr>"
    using N assms(5) by (simp add: resize_def unat_of_nat)
  have started: "Upload now type (Some f) rep c = Inr (True, c0)"
    using assms(1,2) r(1) room by (simp add: Upload_def swap_buffers_def Let_def ring Send_def c0_def)
  have size: "unat (of_nat (length f) :: size_t) = length f" using assms(4) by (simp add: unat_of_nat)
  moreover have "length f \<le> unat (remaining r)" using fits r(4) by linarith
  ultimately have avail: "min (upload_size c0 - upload_pos c0) (remaining (send_buffer (conn c0))) = of_nat (length f)"
    by (simp add: c0_def min_def word_le_nat_alt)
  let ?f = "if type = FILE_MAP \<and> pk then enable_pk 0 f else f"
  show ?thesis
  proof (intro exI [of _ c0] conjI, rule started)
    show "contents (send_buffer (conn c0)) = ?h" using r(2) by (simp add: c0_def)
    have whole: "f \<noteq> [] \<Longrightarrow> upload_tick pk f c0 =
        bind_out (write_at (unat (ppos r + 1)) ?f r) (\<lambda>r.
          Inr (c0\<lparr>upload_fh := Some [], upload_pos := of_nat (length f),
            conn := (conn c0)\<lparr>send_buffer := r\<lparr>ppos := ppos r + of_nat (length f), used := used r + of_nat (length f)\<rparr>\<rparr>\<rparr>))"
      using size avail unfolding upload_tick_def Let_def avail by (simp add: c0_def unat_eq_0 [symmetric])
    show "if type = FILE_MAP \<or> length f + 6 < ?N
     then \<exists>c2. upload_tick pk f c0 = Inr c2 \<and> contents (send_buffer (conn c2)) = ?h @ ?f
     else upload_tick pk f c0 = Inl Write_Out_Of_Bounds"
    proof (cases "f = []")
      case True
      have "unat (remaining r) < ?N" using r(4) lt by linarith
      moreover have "unat (buf_length r) = ?N" using r(6) N by (simp add: buf_length_def unat_of_nat)
      ultimately have "remaining r \<noteq> buf_length r" by auto
      then have "upload_tick pk f c0 = Inr c0"
        using True avail by (simp add: upload_tick_def Let_def) (simp add: c0_def)
      moreover have "type = FILE_MAP \<or> length f + 6 < ?N"
        using j(1,2) power_not_six [of "k + j"] True by (cases "?N = 6") auto
      ultimately show ?thesis
        using True r(2) by (simp add: c0_def enable_pk_def rewrite_at_def)
    next
      case False
      have len: "length ?f = length f" by simp
      show ?thesis
      proof (cases "length ?h + length f < ?N")
        case True
        obtain r' where "write_at (unat (ppos r + 1)) ?f r = Inr r'"
          "contents (r'\<lparr>ppos := ppos r + of_nat (length f), used := used r + of_nat (length f)\<rparr>) = ?h @ ?f"
          using write_at_is_put [OF r(3), of ?f] True p r(2,6,7) len by auto
        moreover have "ppos r' = ppos r" "used r' = used r"
          using calculation(1) by (auto simp: write_at_def split: if_splits)
        moreover have "type = FILE_MAP \<or> length f + 6 < ?N" using True h by (cases "type = FILE_MAP") auto
        ultimately show ?thesis
          using whole False by simp
      next
        case False
        then have "write_at (unat (ppos r + 1)) ?f r = Inl Write_Out_Of_Bounds" "type \<noteq> FILE_MAP" "\<not> length f + 6 < ?N"
          using p r(6) h j(2) len by (auto simp: write_at_def split: if_splits)
        then show ?thesis using whole \<open>f \<noteq> []\<close> by simp
      qed
    qed
  qed
qed


section \<open>Witnesses\<close>

definition sample_eoclient :: eoclient where
  "sample_eoclient = Initialize sample_client"

lemma sample_eoclient_ok: "framing_ok sample_eoclient" "\<not> stuck sample_eoclient"
  by (simp_all add: sample_eoclient_def Initialize_def framing_ok_def stuck_def client_ok_def sample_client_def
      Client_socket_def Client_def sample_ring_ok)


theorem sequence_agreed_witness:
  "GetSeqInitBytes (\<lambda>lo hi. hi) (InitNewSequence (\<lambda>lo hi. hi) sample_eoclient) = (252, 6) \<and> 252 * 7 + 6 - 13 = (1757 :: int) \<and>
   (let c = PingNewSequence (\<lambda>lo hi. hi) sample_eoclient; (s1, s2) = GetSeqUpdateBytes (\<lambda>lo hi. hi) c
      in s1 - s2 = seq_start (PongNewSequence c))"
proof -
  have "fair_random (\<lambda>lo hi. hi)" by (simp add: fair_random_def)
  moreover have "seq sample_eoclient = 0" by (simp add: sample_eoclient_def Initialize_def)
  moreover have "GetSeqInitBytes (\<lambda>lo hi. hi) (InitNewSequence (\<lambda>lo hi. hi) sample_eoclient) = (252, 6)"
    by (simp add: GetSeqInitBytes_def InitNewSequence_def signed_divide_int_def)
  ultimately show ?thesis using sequence_agreed [of "\<lambda>lo hi. hi" sample_eoclient] by (simp add: Let_def split_beta)
qed

definition sample_handlers :: handlers where
  "sample_handlers = (\<lambda>_ _. \<lparr>fn_type = CharacterFn, allow_states = AllowPlaying, delay = Fin 0\<rparr>)"

definition playing_client :: eoclient where
  "playing_client = AddAction (PacketReader_new [1, 8]) (Fin 0) True (sample_eoclient\<lparr>state_of := Playing, has_player := True, has_character := True\<rparr>)"


theorem upload_sends_file_witness:
  "\<exists>c1. Upload 7 FILE_ITEM (Some [1, 2, 3]) 5 sample_eoclient = Inr (True, c1) \<and>
    (\<exists>c2. upload_tick False [1, 2, 3] c1 = Inr c2 \<and>
       contents (send_buffer (conn c2)) = builder_Get (upload_header FILE_ITEM 5 3) @ [1, 2, 3])"
proof -
  have "upload_fh sample_eoclient = None" "length (buf (send_buffer (conn sample_eoclient))) = 2 ^ 2"
    "buf (send_buffer2 sample_eoclient) = []"
    by (simp_all add: sample_eoclient_def Initialize_def sample_client_def sample_ring_def new_ring_def)
  moreover have "upload_buffer_size (2 ^ 2) 3 = 16" by (simp add: upload_buffer_size.simps)
  moreover have "length [1, 2, 3 :: byte] = 3" by simp
  ultimately show ?thesis
    using upload_sends_file [of sample_eoclient 2 "[1, 2, 3]" 7 FILE_ITEM 5 False, unfolded \<open>length [1, 2, 3 :: byte] = 3\<close>]
    by auto
qed

end
