(* ===== verification/Character_Data.thy ===== *)
theory Character_Data
  imports Codec Util_Numbers "HOL-Library.Signed_Division"
begin

text \<open>
  The data of a character that is saved as text (\<open>src/src/character.cpp\<close>): items, paperdoll and
  spells with their serialisation, the name rule, and the time stamps of the client
  (\<open>src/src/character.hpp\<close>). A \<open>short\<close> and an \<open>unsigned char\<close> field hold an integer that is
  taken into their range when it is stored.
\<close>

section \<open>Narrow integers\<close>

definition to_short :: "int \<Rightarrow> int" where
  "to_short n = (n + 32768) mod 65536 - 32768"

definition to_uchar :: "int \<Rightarrow> int" where
  "to_uchar n = n mod 256"

definition short_range :: "int \<Rightarrow> bool" where
  "short_range n \<longleftrightarrow> - 32768 \<le> n \<and> n \<le> 32767"

lemma to_short_range [simp]: "short_range (to_short n)"
  by (simp add: short_range_def to_short_def)

lemma to_short_id: "short_range n \<Longrightarrow> to_short n = n"
  by (simp add: short_range_def to_short_def)

lemma to_short_word: "to_short n = sint (word_of_int n :: 16 word)"
  by (simp add: to_short_def sint_sbintrunc' signed_take_bit_eq_take_bit_shift take_bit_eq_mod)

lemma to_uchar_range [simp]: "0 \<le> to_uchar n" "to_uchar n < 256"
  by (simp_all add: to_uchar_def)

section \<open>Items\<close>

record item =
  item_id :: int
  item_amount :: int

record spell =
  spell_id :: int
  spell_level :: int

definition valid_item :: "int \<Rightarrow> int \<Rightarrow> bool" where
  "valid_item n amount \<longleftrightarrow> \<not> (n < 1 \<or> n > 65535 \<or> amount < 1)"

definition ItemSerialize :: "item list \<Rightarrow> string" where
  "ItemSerialize list =
     concat (map (\<lambda>item. to_string_int (item_id item) @ '','' @ to_string_int (item_amount item) @ '';'') list)"

text \<open>
  One part of the text; \<open>find_first_of\<close> found the comma, so \<open>substr\<close> does not throw. The
  arguments of the two conversions are evaluated in order.
\<close>

definition read_pair :: "string \<Rightarrow> (int \<times> int) option outcome" where
  "read_pair part =
     (case find_from (\<lambda>c. c = CHR '','') 0 part of
        None \<Rightarrow> Inr None
      | Some pp \<Rightarrow>
          bind_out (to_int (take pp part)) (\<lambda>a.
          bind_out (to_int (drop (pp + 1) part)) (\<lambda>b. Inr (Some (a, b)))))"

fun read_pairs :: "(int \<times> int \<Rightarrow> 'a option) \<Rightarrow> string list \<Rightarrow> 'a list outcome" where
  "read_pairs f [] = Inr []"
| "read_pairs f (part # parts) =
     bind_out (read_pair part) (\<lambda>r.
     bind_out (read_pairs f parts) (\<lambda>xs.
       Inr ((case Option.bind r f of None \<Rightarrow> [] | Some x \<Rightarrow> [x]) @ xs)))"

definition new_item :: "int \<times> int \<Rightarrow> item option" where
  "new_item p =
     (if valid_item (fst p) (snd p) then Some \<lparr>item_id = to_short (fst p), item_amount = snd p\<rparr> else None)"

definition ItemUnserialize :: "string \<Rightarrow> item list outcome" where
  "ItemUnserialize serialized =
     bind_out (explode_char (CHR '';'') serialized) (\<lambda>parts. read_pairs new_item parts)"

section \<open>Spells\<close>

definition SpellSerialize :: "spell list \<Rightarrow> string" where
  "SpellSerialize list =
     concat (map (\<lambda>spell. to_string_int (spell_id spell) @ '','' @ to_string_int (spell_level spell) @ '';'') list)"

definition new_spell :: "int \<times> int \<Rightarrow> spell option" where
  "new_spell p =
     (if fst p < 1 \<or> fst p > 65535 \<or> snd p < 0 then None
      else Some \<lparr>spell_id = to_short (fst p), spell_level = to_uchar (snd p)\<rparr>)"

definition SpellUnserialize :: "string \<Rightarrow> spell list outcome" where
  "SpellUnserialize serialized =
     bind_out (explode_char (CHR '';'') serialized) (\<lambda>parts. read_pairs new_spell parts)"

section \<open>The paperdoll\<close>

definition DollSerialize :: "int list \<Rightarrow> string" where
  "DollSerialize list = concat (map (\<lambda>item. to_string_int item @ '','') list)"

definition doll_size :: nat where
  "doll_size = 15"

fun doll_loop :: "nat \<Rightarrow> int list \<Rightarrow> string list \<Rightarrow> int list outcome" where
  "doll_loop i list [] = Inr list"
| "doll_loop i list (part # parts) =
     bind_out (to_int part) (\<lambda>n.
       if n < 0 \<or> n > 65535 then doll_loop (i + 1) list parts
       else if i \<ge> doll_size then Inl Write_Out_Of_Bounds
       else if i + 1 = doll_size then Inr (list[i := n])
       else doll_loop (i + 1) (list[i := n]) parts)"

definition DollUnserialize :: "string \<Rightarrow> int list outcome" where
  "DollUnserialize serialized =
     bind_out (explode_char (CHR '','') serialized) (\<lambda>parts.
       doll_loop 0 (replicate doll_size 0) parts)"

section \<open>Names and time stamps\<close>

definition ValidName :: "string \<Rightarrow> bool" where
  "ValidName name \<longleftrightarrow>
     4 \<le> length name \<and> length name \<le> 12 \<and>
     list_all (\<lambda>c. of_char c \<ge> (of_char (CHR ''a'') :: nat) \<and> of_char c \<le> (of_char (CHR ''z'') :: nat)) name \<and>
     name \<noteq> ''server''"

definition max_ts :: int where
  "max_ts = 8640000"

definition Timestamp :: "int \<Rightarrow> int" where
  "Timestamp ts = ts smod max_ts"

definition ts_minus :: "int \<Rightarrow> int \<Rightarrow> int" where
  "ts_minus ts b =
     (if ts = - 1 then b else if b = - 1 then ts
      else if b > ts then ts - b + max_ts else ts - b)"

definition GetHour :: "int \<Rightarrow> int" where
  "GetHour ts = ts sdiv 360000"

definition GetMinute :: "int \<Rightarrow> int" where
  "GetMinute ts = ts sdiv 6000 - GetHour ts * 60"

definition GetSecond :: "int \<Rightarrow> int" where
  "GetSecond ts = ts sdiv 100 - GetHour ts * 3600 - GetMinute ts * 60"

definition GetMillisecond :: "int \<Rightarrow> int" where
  "GetMillisecond ts = ts * 10 - GetHour ts * 3600000 - GetMinute ts * 60000 - GetSecond ts * 1000"

section \<open>Reading back what was written\<close>

lemma pieces_terminated:
  "\<forall>t \<in> set ts. d \<notin> set t \<Longrightarrow> pieces d (concat (map (\<lambda>t. t @ [d]) ts)) = ts @ [[]]"
  by (induction ts) (auto simp: pieces_append_delimiter)

lemma format_i_chars: "c \<in> set (format_i n) \<Longrightarrow> is_digit c \<or> c = CHR ''-''"
  using dec_digits_digits by (auto simp: format_i_def split: if_splits)

lemma format_i_no_separator: "CHR '';'' \<notin> set (format_i n)" "CHR '','' \<notin> set (format_i n)"
  using format_i_chars [of "CHR '';''" n] format_i_chars [of "CHR '',''" n] by (auto simp: is_digit_def)

lemma to_int_empty: "to_int '''' = Inr 0"
  using dbl_of_int [of 0]
  by (simp add: to_int_as_int tdparse_def td_start_def int_range_def INT_MIN_def INT_MAX_def
      rat_trunc_def Let_def)

lemma find_first: "c \<notin> set w \<Longrightarrow> find_from (\<lambda>x. x = c) 0 (w @ c # r) = Some (length w)"
proof -
  assume "c \<notin> set w"
  then have "takeWhile (\<lambda>x. x \<noteq> c) (w @ c # r) = w" by (induction w) auto
  then show ?thesis by (simp add: find_from_def)
qed

lemma read_pair_text:
  "int_range a \<Longrightarrow> int_range b \<Longrightarrow> read_pair (format_i a @ '','' @ format_i b) = Inr (Some (a, b))"
  using find_first [OF format_i_no_separator(2) [of a]] by (simp add: read_pair_def to_int_format_i)

lemma read_pair_empty: "read_pair [] = Inr None"
  by (simp add: read_pair_def find_from_def)

text \<open>A list of pairs of numbers, written and read by one scheme.\<close>

lemma read_pairs_text:
  assumes "\<forall>(a, b) \<in> set ps. int_range a \<and> int_range b"
  shows "read_pairs f (map (\<lambda>(a, b). format_i a @ '','' @ format_i b) ps @ [[]]) =
    Inr (List.map_filter f ps)"
  using assms
  by (induction ps) (auto simp: read_pair_text [simplified] read_pair_empty map_filter_simps split: option.split)

lemma pairs_text:
  assumes "\<forall>x \<in> set xs. int_range (fst (g x)) \<and> int_range (snd (g x))"
  shows "bind_out (explode_char (CHR '';'')
      (concat (map (\<lambda>x. to_string_int (fst (g x)) @ '','' @ to_string_int (snd (g x)) @ '';'') xs)))
      (\<lambda>parts. read_pairs f parts) = Inr (List.map_filter f (map g xs))"
proof -
  let ?t = "\<lambda>(a, b). format_i a @ '','' @ format_i b"
  have "concat (map (\<lambda>x. to_string_int (fst (g x)) @ '','' @ to_string_int (snd (g x)) @ '';'') xs) =
      concat (map (\<lambda>t. t @ [CHR '';'']) (map ?t (map g xs)))"
    by (simp add: to_string_int comp_def split_beta)
  moreover have "\<forall>t \<in> set (map ?t (map g xs)). CHR '';'' \<notin> set t"
    using format_i_no_separator(1) by (auto simp: split_beta)
  ultimately have "explode_char (CHR '';'')
      (concat (map (\<lambda>x. to_string_int (fst (g x)) @ '','' @ to_string_int (snd (g x)) @ '';'') xs)) =
      Inr (map ?t (map g xs) @ [[]])"
    by (simp only: explode_char_pieces pieces_terminated)
  then show ?thesis using read_pairs_text [of "map g xs" f] assms by (simp add: case_prod_beta)
qed

definition item_kept :: "item \<Rightarrow> bool" where
  "item_kept it \<longleftrightarrow> 1 \<le> item_id it \<and> 1 \<le> item_amount it"

definition spell_kept :: "spell \<Rightarrow> bool" where
  "spell_kept sp \<longleftrightarrow> 1 \<le> spell_id sp"

lemma map_filter_self:
  "(\<And>x. x \<in> set xs \<Longrightarrow> f (g x) = (if P x then Some x else None)) \<Longrightarrow>
   List.map_filter f (map g xs) = filter P xs"
  by (induction xs) (auto simp: map_filter_simps)

lemma ItemUnserialize_text:
  assumes "\<forall>it \<in> set items. short_range (item_id it) \<and> int_range (item_amount it)"
  shows "ItemUnserialize (ItemSerialize items) = Inr (filter item_kept items)"
proof -
  have "\<forall>it \<in> set items. int_range (item_id it) \<and> int_range (item_amount it)"
    using assms by (auto simp: short_range_def int_range_def INT_MIN_def INT_MAX_def)
  then have "ItemUnserialize (ItemSerialize items) =
      Inr (List.map_filter new_item (map (\<lambda>it. (item_id it, item_amount it)) items))"
    using pairs_text [of items "\<lambda>it. (item_id it, item_amount it)" new_item]
    by (simp add: ItemUnserialize_def ItemSerialize_def)
  moreover have "new_item (item_id it, item_amount it) = (if item_kept it then Some it else None)"
    if "it \<in> set items" for it
    using assms that by (auto simp: new_item_def valid_item_def item_kept_def to_short_id short_range_def)
  ultimately show ?thesis by (simp add: map_filter_self)
qed

lemma SpellUnserialize_text:
  assumes "\<forall>sp \<in> set spells. short_range (spell_id sp) \<and> 0 \<le> spell_level sp \<and> spell_level sp < 256"
  shows "SpellUnserialize (SpellSerialize spells) = Inr (filter spell_kept spells)"
proof -
  have "\<forall>sp \<in> set spells. int_range (spell_id sp) \<and> int_range (spell_level sp)"
    using assms by (auto simp: short_range_def int_range_def INT_MIN_def INT_MAX_def)
  then have "SpellUnserialize (SpellSerialize spells) =
      Inr (List.map_filter new_spell (map (\<lambda>sp. (spell_id sp, spell_level sp)) spells))"
    using pairs_text [of spells "\<lambda>sp. (spell_id sp, spell_level sp)" new_spell]
    by (simp add: SpellUnserialize_def SpellSerialize_def)
  moreover have "new_spell (spell_id sp, spell_level sp) = (if spell_kept sp then Some sp else None)"
    if "sp \<in> set spells" for sp
    using assms that by (auto simp: new_spell_def spell_kept_def to_short_id to_uchar_def short_range_def)
  ultimately show ?thesis by (simp add: map_filter_self)
qed

text \<open>On entries that are kept, the text forms are codecs, so different inventories are saved differently.\<close>

definition read_ok :: "'a outcome \<Rightarrow> 'a option" where
  "read_ok r = (case r of Inl _ \<Rightarrow> None | Inr x \<Rightarrow> Some x)"

definition inventory_ok :: "item list \<Rightarrow> bool" where
  "inventory_ok items \<longleftrightarrow>
     (\<forall>it \<in> set items. short_range (item_id it) \<and> int_range (item_amount it) \<and> item_kept it)"

definition spells_ok :: "spell list \<Rightarrow> bool" where
  "spells_ok spells \<longleftrightarrow>
     (\<forall>sp \<in> set spells. short_range (spell_id sp) \<and> 0 \<le> spell_level sp \<and> spell_level sp < 256 \<and> spell_kept sp)"

interpretation inventory_text: codec ItemSerialize "\<lambda>s. read_ok (ItemUnserialize s)" inventory_ok
  by unfold_locales (simp add: ItemUnserialize_text inventory_ok_def read_ok_def)

interpretation spells_text: codec SpellSerialize "\<lambda>s. read_ok (SpellUnserialize s)" spells_ok
  by unfold_locales (simp add: SpellUnserialize_text spells_ok_def read_ok_def)

text \<open>
  Saved items and spells are read back in order, whatever was saved: all of them with a
  positive id (and, for items, a positive amount), and nothing else. So an inventory without
  entries of no items is read back as it was.
\<close>

theorem items_spells_roundtrip:
  assumes "\<forall>it \<in> set items. short_range (item_id it) \<and> int_range (item_amount it)"
    and "\<forall>sp \<in> set spells. short_range (spell_id sp) \<and> 0 \<le> spell_level sp \<and> spell_level sp < 256"
  shows "ItemUnserialize (ItemSerialize items) = Inr (filter item_kept items) \<and>
    SpellUnserialize (SpellSerialize spells) = Inr (filter spell_kept spells)"
  using ItemUnserialize_text [OF assms(1)] SpellUnserialize_text [OF assms(2)] ..

theorem items_spells_roundtrip_witness:
  "ItemUnserialize (ItemSerialize [\<lparr>item_id = 1, item_amount = 500\<rparr>, \<lparr>item_id = 7, item_amount = 0\<rparr>]) =
     Inr [\<lparr>item_id = 1, item_amount = 500\<rparr>] \<and>
   SpellUnserialize (SpellSerialize [\<lparr>spell_id = 3, spell_level = 255\<rparr>]) =
     Inr [\<lparr>spell_id = 3, spell_level = 255\<rparr>]"
  using items_spells_roundtrip [of "[\<lparr>item_id = 1, item_amount = 500\<rparr>, \<lparr>item_id = 7, item_amount = 0\<rparr>]"
      "[\<lparr>spell_id = 3, spell_level = 255\<rparr>]"]
  by (simp add: short_range_def int_range_def INT_MIN_def INT_MAX_def item_kept_def spell_kept_def)

lemma large_item_id_negative:
  "32768 \<le> a \<Longrightarrow> a \<le> 65535 \<Longrightarrow> 1 \<le> b \<Longrightarrow> new_item (a, b) = Some \<lparr>item_id = a - 65536, item_amount = b\<rparr>"
  using minus_mod_self2 [of "a + 32768" 65536]
  by (simp add: new_item_def valid_item_def to_short_def)

section \<open>The paperdoll\<close>

definition doll_ok :: "int \<Rightarrow> bool" where
  "doll_ok n \<longleftrightarrow> 0 \<le> n \<and> n \<le> 65535"

definition doll_clean :: "int \<Rightarrow> int" where
  "doll_clean n = (if doll_ok n then n else 0)"

lemma doll_loop_text:
  "\<forall>n \<in> set ns. int_range n \<Longrightarrow> length zs = length ns \<Longrightarrow> set zs \<subseteq> {0} \<Longrightarrow>
   length ds + length ns = doll_size \<Longrightarrow> ns \<noteq> [] \<Longrightarrow>
   doll_loop (length ds) (ds @ zs) (map format_i ns @ [[]]) =
     (if doll_ok (last ns) then Inr (ds @ map doll_clean ns) else Inl Write_Out_Of_Bounds)"
proof (induction ns arbitrary: ds zs)
  case (Cons n ns)
  obtain z zs' where zs: "zs = 0 # zs'" "z = 0" using Cons.prems by (cases zs) auto
  have to: "to_int (format_i n) = Inr n" using Cons.prems by (simp add: to_int_format_i)
  show ?case
  proof (cases "ns = []")
    case True
    then show ?thesis
      using Cons.prems zs to by (auto simp: doll_ok_def doll_clean_def doll_size_def to_int_empty list_update_append)
  next
    case False
    have rec: "doll_loop (length (ds @ [doll_clean n])) ((ds @ [doll_clean n]) @ zs') (map format_i ns @ [[]]) =
        (if doll_ok (last ns) then Inr ((ds @ [doll_clean n]) @ map doll_clean ns) else Inl Write_Out_Of_Bounds)"
      using Cons.prems zs False by (intro Cons.IH) auto
    have "length ds + 1 \<noteq> doll_size" "length ds < doll_size"
      using Cons.prems False by (auto simp: neq_Nil_conv)
    then show ?thesis
      using rec False zs to by (auto simp: doll_clean_def doll_ok_def list_update_append)
  qed
qed simp

text \<open>
  A paperdoll of 15 entries is read back with the entries outside 0 to 65535 cleared, as long as
  the last entry is inside; with the last entry outside, the empty part behind the last comma
  is written past the end of the array.
\<close>

theorem doll_roundtrip:
  assumes "length doll = doll_size" "\<forall>n \<in> set doll. int_range n"
  shows "DollUnserialize (DollSerialize doll) =
    (if doll_ok (last doll) then Inr (map doll_clean doll) else Inl Write_Out_Of_Bounds)"
proof -
  have "DollSerialize doll = concat (map (\<lambda>t. t @ [CHR '','']) (map format_i doll))"
    by (simp add: DollSerialize_def to_string_int comp_def)
  moreover have "\<forall>t \<in> set (map format_i doll). CHR '','' \<notin> set t" using format_i_no_separator(2) by auto
  ultimately have "explode_char (CHR '','') (DollSerialize doll) = Inr (map format_i doll @ [[]])"
    by (simp only: explode_char_pieces pieces_terminated)
  then show ?thesis
    using doll_loop_text [of doll "replicate doll_size 0" "[]"] assms
    by (cases "doll = []") (auto simp: DollUnserialize_def doll_size_def)
qed

theorem doll_roundtrip_witness:
  "DollUnserialize (DollSerialize ([1, 2, - 1] @ replicate 12 65535)) = Inr ([1, 2, 0] @ replicate 12 65535) \<and>
   DollUnserialize (DollSerialize (replicate 14 7 @ [70000])) = Inl Write_Out_Of_Bounds"
  using doll_roundtrip [of "[1, 2, - 1] @ replicate 12 65535"] doll_roundtrip [of "replicate 14 7 @ [70000]"]
  by (simp add: doll_size_def int_range_def INT_MIN_def INT_MAX_def doll_ok_def doll_clean_def)

lemma Timestamp_elapsed:
  assumes "0 \<le> ts" "0 \<le> e" "e < max_ts"
  shows "ts_minus (Timestamp (ts + e)) (Timestamp ts) = e"
proof -
  have "(ts + e) mod max_ts = (if ts mod max_ts + e < max_ts then ts mod max_ts + e else ts mod max_ts + e - max_ts)"
    using assms mod_add_left_eq [of ts max_ts e, symmetric]
      mod_pos_pos_trivial [of "ts mod max_ts + e - max_ts" max_ts]
      mod_pos_pos_trivial [of "ts mod max_ts + e" max_ts]
      minus_mod_self2 [of "ts mod max_ts + e" max_ts]
    by (auto simp: max_ts_def)
  moreover have "0 \<le> ts mod max_ts" "0 \<le> (ts + e) mod max_ts" by (simp_all add: max_ts_def)
  moreover have sm: "n smod max_ts = n mod max_ts" if "0 \<le> n" for n
    using that by (cases "n = 0") (simp_all add: signed_modulo_int_def max_ts_def sgn_if)
  ultimately show ?thesis
    using assms sm by (auto simp: Timestamp_def ts_minus_def max_ts_def split: if_splits)
qed

end
