(* ===== verification/EOData.thy ===== *)
theory EOData
  imports Packet_Codec Character_Data
begin

text \<open>
  The pub files (\<open>src/src/eodata.cpp\<close>, \<open>src/src/eodata.hpp\<close>): items, NPCs, spells and classes.
  A file is read from its bytes; \<open>None\<close> is the exit of the server on a read that fails. The four
  \<open>Read\<close> functions have one loop, parameterised here with the size of a record and the function
  that makes a record of its name and data. Enumerations are kept as the numbers the code casts
  to them, a union as one field.
\<close>

section \<open>Records\<close>

definition EIF_Key :: int where "EIF_Key = 9"
definition EIF_Weapon :: int where "EIF_Weapon = 10"
definition EIF_Shield :: int where "EIF_Shield = 11"
definition EIF_Armor :: int where "EIF_Armor = 12"
definition EIF_Hat :: int where "EIF_Hat = 13"
definition EIF_Boots :: int where "EIF_Boots = 14"
definition EIF_Gloves :: int where "EIF_Gloves = 15"
definition EIF_Accessory :: int where "EIF_Accessory = 16"
definition EIF_Belt :: int where "EIF_Belt = 17"
definition EIF_Necklace :: int where "EIF_Necklace = 18"
definition EIF_Ring :: int where "EIF_Ring = 19"
definition EIF_Armlet :: int where "EIF_Armlet = 20"
definition EIF_Bracer :: int where "EIF_Bracer = 21"

definition EIF_Ranged :: int where "EIF_Ranged = 1"
definition EIF_Arrows :: int where "EIF_Arrows = 2"
definition EIF_Wings :: int where "EIF_Wings = 3"
definition EIF_TwoHanded :: int where "EIF_TwoHanded = 4"

definition EIF_Lore :: int where "EIF_Lore = 4"
definition EIF_Cursed :: int where "EIF_Cursed = 5"

fun SizeTiles :: "int \<Rightarrow> int" where
  "SizeTiles s = (case map_of (zip [0, 1, 2, 3, 4, 5, 6, 7] [1, 2, 3, 4, 2, 4, 6, 8]) s of
     Some n \<Rightarrow> n | None \<Rightarrow> 0)"

text \<open>
  \<open>i_param\<close> is the union of \<open>scrollmap\<close>, \<open>dollgraphic\<close>, \<open>expreward\<close>, \<open>haircolor\<close>, \<open>effect\<close> and
  \<open>key\<close>; \<open>i_gender\<close> that of \<open>gender\<close> and \<open>scrollx\<close>; \<open>i_dual\<close> that of \<open>scrolly\<close> and
  \<open>dual_wield_dollgraphic\<close>.
\<close>

record eif_data =
  i_id :: int
  i_name :: bytes
  i_graphic :: int
  i_type :: int
  i_subtype :: int
  i_special :: int
  i_hp :: int
  i_tp :: int
  i_mindam :: int
  i_maxdam :: int
  i_accuracy :: int
  i_evade :: int
  i_armor :: int
  i_stats :: "int list"      \<comment> \<open>\<open>str\<close>, \<open>intl\<close>, \<open>wis\<close>, \<open>agi\<close>, \<open>con\<close>, \<open>cha\<close>\<close>
  i_elements :: "int list"   \<comment> \<open>\<open>light\<close>, \<open>dark\<close>, \<open>earth\<close>, \<open>air\<close>, \<open>water\<close>, \<open>fire\<close>\<close>
  i_param :: int
  i_gender :: int
  i_dual :: int
  i_levelreq :: int
  i_classreq :: int
  i_statreqs :: "int list"   \<comment> \<open>\<open>strreq\<close> to \<open>chareq\<close>\<close>
  i_weight :: int
  i_size :: int

definition EIF_Data :: eif_data where
  "EIF_Data = \<lparr>i_id = 0, i_name = [], i_graphic = 0, i_type = 0, i_subtype = 0, i_special = EIF_Lore,
     i_hp = 0, i_tp = 0, i_mindam = 0, i_maxdam = 0, i_accuracy = 0, i_evade = 0, i_armor = 0,
     i_stats = [0, 0, 0, 0, 0, 0], i_elements = [0, 0, 0, 0, 0, 0], i_param = 0, i_gender = 0, i_dual = 0,
     i_levelreq = 0, i_classreq = 0, i_statreqs = [0, 0, 0, 0, 0, 0], i_weight = 0, i_size = 0\<rparr>"

record enf_data =
  n_id :: int
  n_name :: bytes
  n_graphic :: int
  n_boss :: int
  n_child :: int
  n_type :: int
  n_vendor_id :: int
  n_hp :: int
  n_exp :: int
  n_mindam :: int
  n_maxdam :: int
  n_accuracy :: int
  n_evade :: int
  n_armor :: int

definition ENF_Data :: enf_data where
  "ENF_Data = \<lparr>n_id = 0, n_name = [], n_graphic = 0, n_boss = 0, n_child = 0, n_type = 0, n_vendor_id = 0,
     n_hp = 0, n_exp = 0, n_mindam = 0, n_maxdam = 0, n_accuracy = 0, n_evade = 0, n_armor = 0\<rparr>"

record esf_data =
  s_id :: int
  s_name :: bytes
  s_shout :: bytes
  s_icon :: int
  s_graphic :: int
  s_tp :: int
  s_sp :: int
  s_cast_time :: int
  s_kind :: int
  s_target_restrict :: int
  s_target :: int
  s_mindam :: int
  s_maxdam :: int
  s_accuracy :: int
  s_hp :: int

definition ESF_Data :: esf_data where
  "ESF_Data = \<lparr>s_id = 0, s_name = [], s_shout = [], s_icon = 0, s_graphic = 0, s_tp = 0, s_sp = 0,
     s_cast_time = 0, s_kind = 1, s_target_restrict = 0, s_target = 0, s_mindam = 0, s_maxdam = 0,
     s_accuracy = 0, s_hp = 0\<rparr>"

record ecf_data =
  cl_id :: int
  cl_name :: bytes
  cl_base :: int
  cl_type :: int
  cl_stats :: "int list"

definition ECF_Data :: ecf_data where
  "ECF_Data = \<lparr>cl_id = 0, cl_name = [], cl_base = 4, cl_type = 4, cl_stats = [0, 0, 0, 0, 0, 0]\<rparr>"

section \<open>Numbers of a record\<close>

text \<open>\<open>PacketProcessor::Number\<close> of one, two or three bytes; the others are 254.\<close>

definition num1 :: "bytes \<Rightarrow> nat \<Rightarrow> int" where
  "num1 buf i = uint (Number (buf ! i) 254 254 254)"

definition num2 :: "bytes \<Rightarrow> nat \<Rightarrow> int" where
  "num2 buf i = uint (Number (buf ! i) (buf ! (i + 1)) 254 254)"

definition num3 :: "bytes \<Rightarrow> nat \<Rightarrow> int" where
  "num3 buf i = uint (Number (buf ! i) (buf ! (i + 1)) (buf ! (i + 2)) 254)"

text \<open>As they are stored: in an \<open>unsigned char\<close> and in a \<open>short\<close>.\<close>

definition uchar1 :: "bytes \<Rightarrow> nat \<Rightarrow> int" where
  "uchar1 buf i = to_uchar (num1 buf i)"

definition short2 :: "bytes \<Rightarrow> nat \<Rightarrow> int" where
  "short2 buf i = to_short (num2 buf i)"

definition eif_make :: "nat \<Rightarrow> bytes \<Rightarrow> bytes \<Rightarrow> eif_data" where
  "eif_make i name buf =
     \<lparr>i_id = int i, i_name = name, i_graphic = short2 buf 0, i_type = num1 buf 2,
      i_subtype = (if int i = 365 \<and> name = bytes_of ''Gun'' then EIF_Ranged else num1 buf 3),
      i_special = num1 buf 4, i_hp = short2 buf 5, i_tp = short2 buf 7, i_mindam = short2 buf 9,
      i_maxdam = short2 buf 11, i_accuracy = short2 buf 13, i_evade = short2 buf 15, i_armor = short2 buf 17,
      i_stats = map (uchar1 buf) [20, 21, 22, 23, 24, 25],
      i_elements = map (uchar1 buf) [26, 27, 28, 29, 30, 31],
      i_param = num3 buf 32, i_gender = uchar1 buf 35, i_dual = uchar1 buf 36,
      i_levelreq = short2 buf 37, i_classreq = short2 buf 39,
      i_statreqs = map (short2 buf) [41, 43, 45, 47, 49, 51],
      i_weight = uchar1 buf 55, i_size = num1 buf 57\<rparr>"

definition enf_make :: "nat \<Rightarrow> bytes \<Rightarrow> bytes \<Rightarrow> enf_data" where
  "enf_make i name buf =
     \<lparr>n_id = int i, n_name = name, n_graphic = num2 buf 0, n_boss = short2 buf 3, n_child = short2 buf 5,
      n_type = num2 buf 7, n_vendor_id = short2 buf 9, n_hp = num3 buf 11, n_exp = num3 buf 36,
      n_mindam = short2 buf 16, n_maxdam = short2 buf 18, n_accuracy = short2 buf 20,
      n_evade = short2 buf 22, n_armor = short2 buf 24\<rparr>"

definition esf_make :: "nat \<Rightarrow> bytes \<times> bytes \<Rightarrow> bytes \<Rightarrow> esf_data" where
  "esf_make i names buf =
     \<lparr>s_id = int i, s_name = fst names, s_shout = snd names, s_icon = short2 buf 0, s_graphic = short2 buf 2,
      s_tp = short2 buf 4, s_sp = short2 buf 6, s_cast_time = uchar1 buf 8, s_kind = num1 buf 11,
      s_target_restrict = num1 buf 17, s_target = num1 buf 18, s_mindam = short2 buf 23,
      s_maxdam = short2 buf 25, s_accuracy = short2 buf 27, s_hp = short2 buf 34\<rparr>"

definition ecf_make :: "nat \<Rightarrow> bytes \<Rightarrow> bytes \<Rightarrow> ecf_data" where
  "ecf_make i name buf =
     \<lparr>cl_id = int i, cl_name = name, cl_base = uchar1 buf 0, cl_type = uchar1 buf 1,
      cl_stats = map (short2 buf) [2, 4, 6, 8, 10, 12]\<rparr>"

section \<open>Files\<close>

text \<open>\<open>SAFE_READ\<close> and a plain \<open>fread\<close>: \<open>None\<close> when fewer bytes are left.\<close>

definition safe_read :: "nat \<Rightarrow> bytes \<Rightarrow> (bytes \<times> bytes) option" where
  "safe_read n fh = (if n \<le> length fh then Some (take n fh, drop n fh) else None)"

text \<open>The size of a name, read as one byte and passed through \<open>Number\<close>.\<close>

definition name_size :: "byte \<Rightarrow> nat" where
  "name_size b = nat (to_uchar (uint (Number b 254 254 254)))"

text \<open>
  The parts of a record before its data: for items, NPCs and classes one name, whose size byte
  is read ahead; for spells a name and a shout.
\<close>

fun read_names :: "byte list \<Rightarrow> bytes \<Rightarrow> (bytes list \<times> bytes) option" where
  "read_names [] fh = Some ([], fh)"
| "read_names (b # bs) fh =
     Option.bind (safe_read (name_size b) fh) (\<lambda>(name, fh).
     Option.bind (read_names bs fh) (\<lambda>(names, fh). Some (name # names, fh)))"

text \<open>The loop over the records; it ends early when the next size cannot be read.\<close>

function read_records ::
    "(nat \<Rightarrow> bytes list \<Rightarrow> bytes \<Rightarrow> 'a) \<Rightarrow> nat \<Rightarrow> nat \<Rightarrow> byte list \<Rightarrow> bytes \<Rightarrow> 'a list \<Rightarrow> 'a list option" where
  "read_records mk dsize i szs fh data =
     (if i \<ge> length data then Some data
      else
        Option.bind (read_names szs fh) (\<lambda>(names, fh).
        Option.bind (safe_read dsize fh) (\<lambda>(buf, fh).
          (let data = data[i := mk i names buf]
           in case safe_read (length szs) fh of
                None \<Rightarrow> Some data
              | Some (next, fh) \<Rightarrow> read_records mk dsize (i + 1) next fh data))))"
  by pat_completeness auto
termination
  by (relation "measure (\<lambda>(mk, dsize, i, szs, fh, data). length data - i)") auto

declare read_records.simps [simp del, loop_simps]

definition eof_name :: bytes where
  "eof_name = bytes_of ''eof''"

record 'a pub =
  pub_rid :: bytes
  pub_len :: bytes
  pub_data :: "'a list"

text \<open>
  \<open>Read\<close>: three bytes skipped, the revision id, the number of records, one byte skipped, then
  the records; a last record named \<open>eof\<close> is dropped. A seek behind the end does not fail.
\<close>

definition pub_read ::
    "'a \<Rightarrow> ('a \<Rightarrow> bytes) \<Rightarrow> (nat \<Rightarrow> bytes list \<Rightarrow> bytes \<Rightarrow> 'a) \<Rightarrow> nat \<Rightarrow> nat \<Rightarrow> bytes \<Rightarrow> 'a pub option" where
  "pub_read dflt nm mk dsize k fh =
     (let fh = drop 3 fh
      in Option.bind (safe_read 4 fh) (\<lambda>(rid, fh).
         Option.bind (safe_read 2 fh) (\<lambda>(len, fh).
         (let numobj = nat (num2 len 0); fh = drop 1 fh
          in Option.bind (safe_read k fh) (\<lambda>(szs, fh).
             Option.bind (read_records mk dsize 1 szs fh (replicate (numobj + 1) dflt)) (\<lambda>data.
               Some \<lparr>pub_rid = rid, pub_len = len,
                     pub_data = (if nm (last data) = eof_name then butlast data else data)\<rparr>))))))"

definition EIF_DATA_SIZE :: nat where "EIF_DATA_SIZE = 58"
definition ENF_DATA_SIZE :: nat where "ENF_DATA_SIZE = 39"
definition ESF_DATA_SIZE :: nat where "ESF_DATA_SIZE = 51"
definition ECF_DATA_SIZE :: nat where "ECF_DATA_SIZE = 14"

definition EIF_Read :: "bytes \<Rightarrow> eif_data pub option" where
  "EIF_Read = pub_read EIF_Data i_name (\<lambda>i names. eif_make i (names ! 0)) EIF_DATA_SIZE 1"

definition ENF_Read :: "bytes \<Rightarrow> enf_data pub option" where
  "ENF_Read = pub_read ENF_Data n_name (\<lambda>i names. enf_make i (names ! 0)) ENF_DATA_SIZE 1"

definition ESF_Read :: "bytes \<Rightarrow> esf_data pub option" where
  "ESF_Read = pub_read ESF_Data s_name (\<lambda>i names. esf_make i (names ! 0, names ! 1)) ESF_DATA_SIZE 2"

definition ECF_Read :: "bytes \<Rightarrow> ecf_data pub option" where
  "ECF_Read = pub_read ECF_Data cl_name (\<lambda>i names. ecf_make i (names ! 0)) ECF_DATA_SIZE 1"

section \<open>Lookup\<close>

text \<open>The id is an \<open>unsigned int\<close>; a negative \<open>short\<close> passed to it is a large one.\<close>

definition pub_get :: "'a pub \<Rightarrow> u32 \<Rightarrow> 'a outcome" where
  "pub_get p n =
     (if unat n < length (pub_data p) then Inr (pub_data p ! unat n)
      else if pub_data p \<noteq> [] then Inr (pub_data p ! 0)
      else Inl Read_Out_Of_Bounds)"

definition EIF_Get :: "eif_data pub \<Rightarrow> u32 \<Rightarrow> eif_data outcome" where "EIF_Get = pub_get"
definition ENF_Get :: "enf_data pub \<Rightarrow> u32 \<Rightarrow> enf_data outcome" where "ENF_Get = pub_get"
definition ESF_Get :: "esf_data pub \<Rightarrow> u32 \<Rightarrow> esf_data outcome" where "ESF_Get = pub_get"
definition ECF_Get :: "ecf_data pub \<Rightarrow> u32 \<Rightarrow> ecf_data outcome" where "ECF_Get = pub_get"

fun get_key_loop :: "int \<Rightarrow> nat \<Rightarrow> eif_data list \<Rightarrow> nat" where
  "get_key_loop keynum i [] = 0"
| "get_key_loop keynum i (d # ds) =
     (if i_type d = EIF_Key \<and> i_param d = keynum then i else get_key_loop keynum (i + 1) ds)"

definition GetKey :: "eif_data pub \<Rightarrow> int \<Rightarrow> nat" where
  "GetKey p keynum = get_key_loop keynum 0 (pub_data p)"

section \<open>Files written record by record\<close>

definition size_byte :: "nat \<Rightarrow> byte" where
  "size_byte n = of_nat (n + 1)"

definition rec_text :: "bytes list \<times> bytes \<Rightarrow> bytes" where
  "rec_text r = map (\<lambda>name. size_byte (length name)) (fst r) @ concat (fst r) @ snd r"

definition pub_text :: "bytes \<Rightarrow> bytes \<Rightarrow> bytes \<Rightarrow> byte \<Rightarrow> (bytes list \<times> bytes) list \<Rightarrow> bytes" where
  "pub_text magic rid len x recs = magic @ rid @ len @ [x] @ concat (map rec_text recs)"

definition rec_ok :: "nat \<Rightarrow> nat \<Rightarrow> bytes list \<times> bytes \<Rightarrow> bool" where
  "rec_ok k dsize r \<longleftrightarrow> length (fst r) = k \<and> (\<forall>name \<in> set (fst r). length name < 253) \<and> length (snd r) = dsize"

definition header_ok :: "bytes \<Rightarrow> bytes \<Rightarrow> bytes \<Rightarrow> nat \<Rightarrow> bool" where
  "header_ok magic rid len n \<longleftrightarrow>
     length magic = 3 \<and> length rid = 4 \<and> length len = 2 \<and> num2 len 0 = int n"

definition pub_value ::
    "'a \<Rightarrow> ('a \<Rightarrow> bytes) \<Rightarrow> (nat \<Rightarrow> bytes list \<Rightarrow> bytes \<Rightarrow> 'a) \<Rightarrow> bytes \<Rightarrow> bytes \<Rightarrow>
     (bytes list \<times> bytes) list \<Rightarrow> 'a pub" where
  "pub_value dflt nm mk rid len recs =
     (let data = dflt # map2 (\<lambda>i r. mk i (fst r) (snd r)) [1..<length recs + 1] recs
      in \<lparr>pub_rid = rid, pub_len = len,
          pub_data = (if nm (last data) = eof_name then butlast data else data)\<rparr>)"

lemma name_size_byte:
  assumes "n < 253"
  shows "name_size (size_byte n) = n"
proof -
  have u: "unat (size_byte n) = n + 1"
    unfolding size_byte_def using assms by (subst unat_of_nat_small) auto
  have "size_byte n \<noteq> 254" "size_byte n \<noteq> 0"
    using u assms by (auto dest: arg_cong [where f = unat])
  then have "digit_in (size_byte n) = size_byte n - 1" by (simp add: digit_in_def)
  then have "digit_in (size_byte n) = of_nat n" by (simp add: size_byte_def)
  moreover have "unat (of_nat n :: byte) = n" using assms by (simp add: unat_of_nat)
  ultimately have "unat (Number (size_byte n) 254 254 254) = n"
    by (simp add: Number_def unat_ucast_up)
  then have "uint (Number (size_byte n) 254 254 254) = int n" by (metis uint_nat)
  then show ?thesis using assms by (simp add: name_size_def to_uchar_def)
qed

lemma safe_read_append [simp]: "safe_read (length a) (a @ b) = Some (a, b)"
  by (simp add: safe_read_def)

lemma safe_read_size: "n = length a \<Longrightarrow> safe_read n (a @ b) = Some (a, b)"
  by simp

lemma read_names_text:
  "\<forall>name \<in> set names. length name < 253 \<Longrightarrow>
   read_names (map (\<lambda>name. size_byte (length name)) names) (concat names @ fh) = Some (names, fh)"
  by (induction names arbitrary: fh) (auto simp: name_size_byte)

section \<open>The file format\<close>

text \<open>What the four \<open>Read\<close> functions share: the reading of a format with a size byte per name.\<close>

locale pub_format =
  fixes dflt :: 'a
    and nm :: "'a \<Rightarrow> bytes"
    and mk :: "nat \<Rightarrow> bytes list \<Rightarrow> bytes \<Rightarrow> 'a"
    and ident :: "'a \<Rightarrow> int"
    and dsize k :: nat
  assumes some_size: "0 < k"
    and dflt_name: "nm dflt \<noteq> eof_name"
    and dflt_ident: "ident dflt = 0"
    and mk_ident: "ident (mk i names buf) = int i"
begin

lemma read_records_text:
  assumes "\<forall>r \<in> set (r # rs). rec_ok k dsize r" "length data = i + length (r # rs)"
  shows "read_records mk dsize i (map (\<lambda>name. size_byte (length name)) (fst r))
      (concat (fst r) @ snd r @ concat (map rec_text rs)) data =
    Some (take i data @ map2 (\<lambda>i r. mk i (fst r) (snd r)) [i..<i + length (r # rs)] (r # rs))"
  using assms
proof (induction rs arbitrary: r i data)
  case Nil
  then have "data[i := mk i (fst r) (snd r)] = take i data @ [mk i (fst r) (snd r)]"
    by (simp add: upd_conv_take_nth_drop)
  then show ?case
    using Nil some_size
    by (cases r, subst read_records.simps) (auto simp: read_names_text rec_ok_def safe_read_def)
next
  case (Cons r' rs)
  let ?data = "data[i := mk i (fst r) (snd r)]"
  have r: "rec_ok k dsize r" "rec_ok k dsize r'" using Cons.prems by auto
  have i: "i < length data" "take (i + 1) ?data = take i data @ [mk i (fst r) (snd r)]"
    using Cons.prems by (auto simp: take_Suc_conv_app_nth)
  have "concat (map rec_text (r' # rs)) =
      map (\<lambda>name. size_byte (length name)) (fst r') @ concat (fst r') @ snd r' @ concat (map rec_text rs)"
    by (simp add: rec_text_def)
  then have "safe_read (length (map (\<lambda>name. size_byte (length name)) (fst r))) (concat (map rec_text (r' # rs))) =
      Some (map (\<lambda>name. size_byte (length name)) (fst r'), concat (fst r') @ snd r' @ concat (map rec_text rs))"
    using r by (simp only: rec_ok_def length_map) (intro safe_read_size, simp)
  moreover have "read_records mk dsize (i + 1) (map (\<lambda>name. size_byte (length name)) (fst r'))
      (concat (fst r') @ snd r' @ concat (map rec_text rs)) ?data =
    Some (take (i + 1) ?data @ map2 (\<lambda>i r. mk i (fst r) (snd r)) [i + 1..<i + 1 + length (r' # rs)] (r' # rs))"
    using Cons.prems by (intro Cons.IH) auto
  moreover have "[i..<i + length (r # r' # rs)] = i # [i + 1..<i + 1 + length (r' # rs)]"
    by (subst upt_conv_Cons) (simp_all del: upt_Suc)
  ultimately show ?case
    using r i by (subst read_records.simps)
      (simp add: read_names_text rec_ok_def safe_read_size del: upt_Suc)
qed

theorem pub_read_text:
  assumes "header_ok magic rid len (length recs)" "recs \<noteq> []" "\<forall>r \<in> set recs. rec_ok k dsize r"
  shows "pub_read dflt nm mk dsize k (pub_text magic rid len x recs) = Some (pub_value dflt nm mk rid len recs)"
proof -
  obtain r rs where recs: "recs = r # rs" using assms(2) by (cases recs) auto
  have k: "safe_read k (concat (map rec_text recs)) =
      Some (map (\<lambda>name. size_byte (length name)) (fst r), concat (fst r) @ snd r @ concat (map rec_text rs))"
    using assms(3) recs by (auto simp: rec_text_def rec_ok_def intro!: safe_read_size)
  have "length magic = 3" "length rid = 4" "length len = 2" "nat (num2 len 0) = length recs"
    using assms(1) by (simp_all add: header_ok_def)
  then show ?thesis
    using k read_records_text [of r rs "replicate (length recs + 1) dflt" 1] assms(3) recs
    by (simp add: pub_read_def pub_text_def safe_read_size pub_value_def Let_def del: upt_Suc)
qed

text \<open>A table is never empty, and an entry has its place as its id, or none.\<close>

definition table_ok :: "'a list \<Rightarrow> bool" where
  "table_ok data \<longleftrightarrow> data \<noteq> [] \<and> nm (data ! 0) \<noteq> eof_name \<and>
     (\<forall>i < length data. ident (data ! i) \<in> {0, int i})"

lemma read_records_ok:
  "read_records mk' ds i szs fh data = Some data' \<Longrightarrow> mk' = mk \<Longrightarrow> 0 < i \<Longrightarrow> table_ok data \<Longrightarrow> table_ok data'"
proof (induction mk' ds i szs fh data arbitrary: data' rule: read_records.induct)
  case (1 mk' ds i szs fh data)
  show ?case
  proof (cases "i \<ge> length data")
    case True
    then show ?thesis using "1.prems" by (subst (asm) read_records.simps) simp
  next
    case False
    then obtain names fh1 buf fh2 where r: "read_names szs fh = Some (names, fh1)"
        "safe_read ds fh1 = Some (buf, fh2)"
      using "1.prems"(1) by (subst (asm) read_records.simps) (auto simp: bind_eq_Some_conv)
    have ok: "table_ok (data[i := mk i names buf])"
      using "1.prems"(3,4) False by (auto simp: table_ok_def nth_list_update mk_ident)
    show ?thesis
    proof (cases "safe_read (length szs) fh2")
      case None
      then show ?thesis
        using "1.prems" r False ok by (subst (asm) read_records.simps) (auto simp: Let_def)
    next
      case (Some p)
      obtain szs' fh3 where p: "p = (szs', fh3)" by (cases p)
      then have "read_records mk ds (i + 1) szs' fh3 (data[i := mk i names buf]) = Some data'"
        using "1.prems" r False Some by (subst (asm) read_records.simps) (simp add: Let_def)
      then show ?thesis
        using "1.IH" [OF False r(1) refl r(2) refl refl _ refl] Some p ok "1.prems"(2) by auto
    qed
  qed
qed

lemma table_ok_replicate: "table_ok (replicate (n + 1) dflt)"
  unfolding table_ok_def by (auto simp: dflt_name dflt_ident nth_replicate simp del: replicate_Suc)

lemma pub_read_ok:
  assumes "pub_read dflt nm mk ds k' fh = Some p"
  shows "table_ok (pub_data p)"
proof -
  obtain rid len fh1 szs fh2 data where
    data: "read_records mk ds 1 szs fh2 (replicate (nat (num2 len 0) + 1) dflt) = Some data"
    and p: "pub_data p = (if nm (last data) = eof_name then butlast data else data)"
    using assms by (auto simp: pub_read_def Let_def bind_eq_Some_conv split: prod.splits)
  have ok: "table_ok data" using read_records_ok [OF data] table_ok_replicate by simp
  show ?thesis
  proof (cases "nm (last data) = eof_name")
    case True
    have "butlast data \<noteq> []"
    proof
      assume "butlast data = []"
      then obtain d where "data = [d]" using ok by (cases data) (auto simp: table_ok_def split: if_splits)
      then show False using True ok by (simp add: table_ok_def)
    qed
    moreover have "0 < length (butlast data)"
      using calculation by (cases data rule: rev_cases) auto
    then have "butlast data ! 0 = data ! 0" by (rule nth_butlast)
    ultimately show ?thesis using ok True p by (auto simp: table_ok_def nth_butlast)
  qed (use ok p in simp)
qed

lemma lookup:
  assumes "pub_read dflt nm mk ds k' fh = Some p"
  shows "\<exists>d. pub_get p n = Inr d \<and> ident d \<in> {0, int (unat n)}"
  using pub_read_ok [OF assms] by (auto simp: table_ok_def pub_get_def)

end

interpretation eif: pub_format EIF_Data i_name "\<lambda>i names. eif_make i (names ! 0)" i_id EIF_DATA_SIZE 1
  by unfold_locales (simp_all add: EIF_Data_def eif_make_def eof_name_def bytes_of_def)

interpretation enf: pub_format ENF_Data n_name "\<lambda>i names. enf_make i (names ! 0)" n_id ENF_DATA_SIZE 1
  by unfold_locales (simp_all add: ENF_Data_def enf_make_def eof_name_def bytes_of_def)

interpretation esf: pub_format ESF_Data s_name "\<lambda>i names. esf_make i (names ! 0, names ! 1)" s_id ESF_DATA_SIZE 2
  by unfold_locales (simp_all add: ESF_Data_def esf_make_def eof_name_def bytes_of_def)

interpretation ecf: pub_format ECF_Data cl_name "\<lambda>i names. ecf_make i (names ! 0)" cl_id ECF_DATA_SIZE 1
  by unfold_locales (simp_all add: ECF_Data_def ecf_make_def eof_name_def bytes_of_def)

text \<open>
  C38: A pub file written record by record, with a header that counts the records, is read as the
  table of its records under their numbers, behind an empty entry 0 and without a last record
  named \<open>eof\<close>; names up to 252 bytes and record data of the size of the format, for items,
  NPCs, spells and classes.
\<close>

theorem pub_files_read:
  assumes "header_ok magic rid len (length recs)" "recs \<noteq> []"
  shows "((\<forall>r \<in> set recs. rec_ok 1 58 r) \<longrightarrow> EIF_Read (pub_text magic rid len x recs) =
      Some (pub_value EIF_Data i_name (\<lambda>i names. eif_make i (names ! 0)) rid len recs)) \<and>
    ((\<forall>r \<in> set recs. rec_ok 1 39 r) \<longrightarrow> ENF_Read (pub_text magic rid len x recs) =
      Some (pub_value ENF_Data n_name (\<lambda>i names. enf_make i (names ! 0)) rid len recs)) \<and>
    ((\<forall>r \<in> set recs. rec_ok 2 51 r) \<longrightarrow> ESF_Read (pub_text magic rid len x recs) =
      Some (pub_value ESF_Data s_name (\<lambda>i names. esf_make i (names ! 0, names ! 1)) rid len recs)) \<and>
    ((\<forall>r \<in> set recs. rec_ok 1 14 r) \<longrightarrow> ECF_Read (pub_text magic rid len x recs) =
      Some (pub_value ECF_Data cl_name (\<lambda>i names. ecf_make i (names ! 0)) rid len recs))"
  using assms eif.pub_read_text enf.pub_read_text esf.pub_read_text ecf.pub_read_text
  by (simp_all add: EIF_Read_def ENF_Read_def ESF_Read_def ECF_Read_def
      EIF_DATA_SIZE_def ENF_DATA_SIZE_def ESF_DATA_SIZE_def ECF_DATA_SIZE_def)

text \<open>
  Whatever bytes a file holds, a table that was read has an entry 0, so a lookup with any id
  returns an entry, and the entry it returns has the id it was looked up with or the id 0.
\<close>

theorem pub_lookup:
  "(EIF_Read fh = Some p1 \<longrightarrow> (\<exists>d. EIF_Get p1 n = Inr d \<and> i_id d \<in> {0, int (unat n)})) \<and>
   (ENF_Read fh = Some p2 \<longrightarrow> (\<exists>d. ENF_Get p2 n = Inr d \<and> n_id d \<in> {0, int (unat n)})) \<and>
   (ESF_Read fh = Some p3 \<longrightarrow> (\<exists>d. ESF_Get p3 n = Inr d \<and> s_id d \<in> {0, int (unat n)})) \<and>
   (ECF_Read fh = Some p4 \<longrightarrow> (\<exists>d. ECF_Get p4 n = Inr d \<and> cl_id d \<in> {0, int (unat n)}))"
  unfolding EIF_Get_def ENF_Get_def ESF_Get_def ECF_Get_def EIF_Read_def ENF_Read_def ESF_Read_def ECF_Read_def
  by (intro conjI impI) (erule eif.lookup enf.lookup esf.lookup ecf.lookup)+

section \<open>Witnesses\<close>

lemma sample_header: "header_ok [69, 73, 70] [1, 2, 3, 4] [2, 254] (Suc 0)"
  by (simp add: header_ok_def num2_def Number_def digit_in_def)

definition sample_file :: "nat \<Rightarrow> nat \<Rightarrow> bytes" where
  "sample_file k dsize =
     pub_text [69, 73, 70] [1, 2, 3, 4] [2, 254] 254 [(replicate k (bytes_of ''Gold''), replicate dsize 1)]"

lemma sample_records:
  "recs = [(replicate k (bytes_of ''Gold''), replicate dsize 1)] \<Longrightarrow>
     header_ok [69, 73, 70] [1, 2, 3, 4] [2, 254] (length recs) \<and> recs \<noteq> [] \<and>
     (\<forall>r \<in> set recs. rec_ok k dsize r)"
  using sample_header by (simp add: rec_ok_def bytes_of_def)

theorem pub_files_read_witness:
  "EIF_Read (sample_file 1 58) = Some (pub_value EIF_Data i_name (\<lambda>i names. eif_make i (names ! 0))
     [1, 2, 3, 4] [2, 254] [(replicate 1 (bytes_of ''Gold''), replicate 58 1)]) \<and>
   ENF_Read (sample_file 1 39) = Some (pub_value ENF_Data n_name (\<lambda>i names. enf_make i (names ! 0))
     [1, 2, 3, 4] [2, 254] [(replicate 1 (bytes_of ''Gold''), replicate 39 1)]) \<and>
   ESF_Read (sample_file 2 51) = Some (pub_value ESF_Data s_name (\<lambda>i names. esf_make i (names ! 0, names ! 1))
     [1, 2, 3, 4] [2, 254] [(replicate 2 (bytes_of ''Gold''), replicate 51 1)]) \<and>
   ECF_Read (sample_file 1 14) = Some (pub_value ECF_Data cl_name (\<lambda>i names. ecf_make i (names ! 0))
     [1, 2, 3, 4] [2, 254] [(replicate 1 (bytes_of ''Gold''), replicate 14 1)])"
  unfolding sample_file_def
  by (intro conjI pub_files_read [THEN conjunct1, THEN mp] pub_files_read [THEN conjunct2, THEN conjunct1, THEN mp]
      pub_files_read [THEN conjunct2, THEN conjunct2, THEN conjunct1, THEN mp]
      pub_files_read [THEN conjunct2, THEN conjunct2, THEN conjunct2, THEN mp];
      use sample_records in blast)

theorem pub_lookup_witness:
  "(\<exists>p d. EIF_Read (sample_file 1 58) = Some p \<and> EIF_Get p 7 = Inr d \<and> i_id d \<in> {0, 7}) \<and>
   (\<exists>p d. ENF_Read (sample_file 1 39) = Some p \<and> ENF_Get p 7 = Inr d \<and> n_id d \<in> {0, 7}) \<and>
   (\<exists>p d. ESF_Read (sample_file 2 51) = Some p \<and> ESF_Get p 7 = Inr d \<and> s_id d \<in> {0, 7}) \<and>
   (\<exists>p d. ECF_Read (sample_file 1 14) = Some p \<and> ECF_Get p 7 = Inr d \<and> cl_id d \<in> {0, 7})"
proof -
  note recs = sample_records [OF refl]
  note defs = sample_file_def EIF_Read_def ENF_Read_def ESF_Read_def ECF_Read_def
      EIF_DATA_SIZE_def ENF_DATA_SIZE_def ESF_DATA_SIZE_def ECF_DATA_SIZE_def
  note texts = eif.pub_read_text [unfolded EIF_DATA_SIZE_def] enf.pub_read_text [unfolded ENF_DATA_SIZE_def]
      esf.pub_read_text [unfolded ESF_DATA_SIZE_def] ecf.pub_read_text [unfolded ECF_DATA_SIZE_def]
  have "EIF_Read (sample_file 1 58) \<noteq> None" "ENF_Read (sample_file 1 39) \<noteq> None"
    "ESF_Read (sample_file 2 51) \<noteq> None" "ECF_Read (sample_file 1 14) \<noteq> None"
    unfolding defs by (subst texts; use recs in \<open>blast | simp only: option.distinct not_False_eq_True\<close>)+
  then show ?thesis
    using pub_lookup [where n = 7]
    by (intro conjI) (fastforce simp del: insert_iff)+
qed

end
