(* ===== verification/Character.thy ===== *)
theory Character
  imports EOData Packet_IO Rpn
begin

text \<open>
  A character (\<open>src/src/character.cpp\<close>, \<open>character.hpp\<close>): its inventory, spells, paperdoll and trade
  list with the operations on them, and \<open>CalculateStats\<close>. The world it lives in is a record: the data
  files, the configuration read as numbers, the formulas, and what the rules of its quests do to it.
  The packets a character is sent are kept in a list; one for its party is marked as such.
  The six statistics (strength, intelligence, wisdom, agility, constitution, charisma), each a
  \<open>short\<close> of its own in the code, are lists of six in that order.
\<close>

section \<open>State\<close>

datatype packet = To_Self PacketBuilder | To_Party PacketBuilder

text \<open>The fields \<open>CalculateStats\<close> computes.\<close>

record derived =
  d_adj :: "int list"
  d_weight :: int
  d_maxweight :: int
  d_maxhp :: int
  d_maxtp :: int
  d_maxsp :: int
  d_mindam :: int
  d_maxdam :: int
  d_accuracy :: int
  d_evade :: int
  d_armor :: int

record character =
  ch_pid :: nat
  ch_name :: string
  ch_admin :: int
  ch_bot :: int
  ch_usage :: int
  ch_clas :: int
  ch_gender :: int
  ch_race :: int
  ch_hairstyle :: int
  ch_haircolor :: int
  ch_level :: int
  ch_exp :: int
  ch_hp :: int
  ch_tp :: int
  ch_base :: "int list"
  ch_statpoints :: int
  ch_skillpoints :: int
  ch_karma :: int
  ch_mapid :: int
  ch_x :: int
  ch_y :: int
  ch_direction :: int
  ch_sitting :: int
  ch_hidden :: int
  ch_nointeract :: int
  ch_whispers :: int
  ch_bankmax :: int
  ch_goldbank :: int
  ch_npc_type :: int
  stats :: derived
  inventory :: "item list"
  bank :: "item list"
  paperdoll :: "int list"
  spells :: "spell list"
  trading :: bool
  trade_partner :: "nat option"
  trade_agree :: bool
  trade_inventory :: "item list"
  ch_party :: "nat option"
  ch_nowhere :: bool
  ch_npc :: "nat option"           \<comment> \<open>the NPC talked to, by its position on the map\<close>
  ch_last_walk :: double
  ch_attacks :: int
  ch_spell_target :: int
  ch_spell_ready :: bool
  ch_spell_event :: bool           \<comment> \<open>whether an event is pending\<close>
  ch_warp_anim :: int
  ch_guild :: "string option"      \<comment> \<open>the tag of the guild\<close>
  ch_guild_join :: string
  ch_guild_invite :: string
  ch_board :: "nat option"
  ch_jukebox_open :: bool
  cosmetic_paperdoll :: "int list"
  outbox :: "packet list"

record world_env =
  w_eif :: "eif_data pub"
  w_ecf :: "ecf_data pub"
  w_esf :: "esf_data pub"
  w_config :: "string \<Rightarrow> int"
  w_admin_config :: "string \<Rightarrow> int"
  w_formulas :: "string \<Rightarrow> string"
  w_libm :: libm
  w_rand :: "nat \<Rightarrow> u32 \<times> u32"
  w_rules :: "character \<Rightarrow> character outcome"

definition send :: "PacketBuilder \<Rightarrow> character \<Rightarrow> character" where
  "send b c = c\<lparr>outbox := outbox c @ [To_Self b]\<rparr>"

definition enabled :: "world_env \<Rightarrow> string \<Rightarrow> bool" where
  "enabled env key \<longleftrightarrow> w_config env key \<noteq> 0"

definition CanInteractItems :: "character \<Rightarrow> bool" where
  "CanInteractItems c \<longleftrightarrow> ch_nointeract c AND 2 = 0"

definition CanInteractCombat :: "character \<Rightarrow> bool" where
  "CanInteractCombat c \<longleftrightarrow> ch_nointeract c AND 4 = 0"

definition CheckQuestRules :: "world_env \<Rightarrow> character \<Rightarrow> character outcome" where
  "CheckQuestRules env c = w_rules env c"

text \<open>The places of the paperdoll.\<close>

definition Boots :: nat where "Boots = 0"
definition Accessory :: nat where "Accessory = 1"
definition Gloves :: nat where "Gloves = 2"
definition Belt :: nat where "Belt = 3"
definition Armor :: nat where "Armor = 4"
definition Necklace :: nat where "Necklace = 5"
definition Hat :: nat where "Hat = 6"
definition Shield :: nat where "Shield = 7"
definition Weapon :: nat where "Weapon = 8"
definition Ring1 :: nat where "Ring1 = 9"
definition Ring2 :: nat where "Ring2 = 10"
definition Armlet1 :: nat where "Armlet1 = 11"
definition Armlet2 :: nat where "Armlet2 = 12"
definition Bracer1 :: nat where "Bracer1 = 13"
definition Bracer2 :: nat where "Bracer2 = 14"

lemmas places = Boots_def Accessory_def Gloves_def Belt_def Armor_def Necklace_def Hat_def Shield_def
  Weapon_def Ring1_def Ring2_def Armlet1_def Armlet2_def Bracer1_def Bracer2_def

section \<open>Statistics\<close>

text \<open>A lookup in a data file with an id that is a \<open>short\<close> or an \<open>int\<close>.\<close>

definition item_data :: "world_env \<Rightarrow> int \<Rightarrow> eif_data outcome" where
  "item_data env i = EIF_Get (w_eif env) (of_int i)"

definition class_data :: "world_env \<Rightarrow> int \<Rightarrow> ecf_data outcome" where
  "class_data env i = ECF_Get (w_ecf env) (of_int i)"

definition add_shorts :: "int list \<Rightarrow> int list \<Rightarrow> int list" where
  "add_shorts xs ys = map2 (\<lambda>x y. to_short (x + y)) xs ys"

text \<open>The statistics that are shown and that requirements are tested against.\<close>

definition display :: "world_env \<Rightarrow> character \<Rightarrow> int list" where
  "display env c = (if enabled env ''UseAdjustedStats'' then d_adj (stats c) else ch_base c)"

definition FormulaVars :: "world_env \<Rightarrow> character \<Rightarrow> string \<Rightarrow> (string \<times> int) list" where
  "FormulaVars env c prefix =
     (let s = stats c; adj = d_adj s; base = ch_base c; dis = display env c in
      map (\<lambda>(n, x). (prefix @ n, x))
       [(''level'', ch_level c), (''experience'', ch_exp c), (''hp'', ch_hp c), (''maxhp'', d_maxhp s),
        (''tp'', ch_tp c), (''maxtp'', d_maxtp s), (''maxsp'', d_maxsp s),
        (''weight'', d_weight s), (''maxweight'', d_maxweight s), (''karma'', ch_karma c),
        (''mindam'', d_mindam s), (''maxdam'', d_maxdam s),
        (''str'', adj ! 0), (''int'', adj ! 1), (''wis'', adj ! 2), (''agi'', adj ! 3), (''con'', adj ! 4), (''cha'', adj ! 5),
        (''base_str'', base ! 0), (''base_int'', base ! 1), (''base_wis'', base ! 2), (''base_agi'', base ! 3),
        (''base_con'', base ! 4), (''base_cha'', base ! 5),
        (''display_str'', dis ! 0), (''display_int'', dis ! 1), (''display_wis'', dis ! 2), (''display_agi'', dis ! 3),
        (''display_con'', dis ! 4), (''display_cha'', dis ! 5),
        (''accuracy'', d_accuracy s), (''evade'', d_evade s), (''armor'', d_armor s), (''admin'', ch_admin c),
        (''bot'', ch_bot c), (''usage'', ch_usage c), (''class'', ch_clas c), (''gender'', ch_gender c),
        (''race'', ch_race c), (''hairstyle'', ch_hairstyle c), (''haircolor'', ch_haircolor c),
        (''mapid'', ch_mapid c), (''x'', ch_x c), (''y'', ch_y c), (''direction'', ch_direction c),
        (''sitting'', ch_sitting c), (''hidden'', ch_hidden c), (''whispers'', ch_whispers c), (''goldbank'', ch_goldbank c),
        (''statpoints'', ch_statpoints c), (''skillpoints'', ch_skillpoints c)])"

definition d_to_short :: "double \<Rightarrow> int outcome" where
  "d_to_short d = bind_out (d_to_int d) (\<lambda>n. if short_range n then Inr n else Inl Float_To_Int_Range)"

text \<open>The value of a configured formula as a \<open>short\<close>.\<close>

definition formula :: "world_env \<Rightarrow> string \<Rightarrow> (string \<times> int) list \<Rightarrow> int outcome" where
  "formula env name vars =
     bind_out (rpn_parse (w_formulas env name)) (\<lambda>stack.
     bind_out (rpn_eval (w_libm env) (w_rand env) stack (\<lambda>n. map_option d_of_int (map_of vars n)) 0) (\<lambda>(d, _).
       d_to_short d))"

text \<open>The weight of the inventory; the loop stops at 250.\<close>

fun weigh :: "world_env \<Rightarrow> item list \<Rightarrow> int \<Rightarrow> int outcome" where
  "weigh env [] w = Inr w"
| "weigh env (it # its) w =
     bind_out (item_data env (item_id it)) (\<lambda>d.
       let p = i_weight d * item_amount it in
       if \<not> int_range p \<or> \<not> int_range (w + p) then Inl Signed_Overflow
       else if to_short (w + p) \<ge> 250 then Inr (to_short (w + p))
       else weigh env its (to_short (w + p)))"

definition wear :: "eif_data \<Rightarrow> derived \<Rightarrow> derived" where
  "wear d s = s\<lparr>
     d_weight := to_short (d_weight s + i_weight d),
     d_maxhp := to_short (d_maxhp s + i_hp d),
     d_maxtp := to_short (d_maxtp s + i_tp d),
     d_mindam := to_short (d_mindam s + i_mindam d),
     d_maxdam := to_short (d_maxdam s + i_maxdam d),
     d_accuracy := to_short (d_accuracy s + i_accuracy d),
     d_evade := to_short (d_evade s + i_evade d),
     d_armor := to_short (d_armor s + i_armor d),
     d_adj := add_shorts (d_adj s) (i_stats d)\<rparr>"

fun wear_all :: "world_env \<Rightarrow> int list \<Rightarrow> derived \<Rightarrow> derived outcome" where
  "wear_all env [] s = Inr s"
| "wear_all env (i # is) s =
     (if i \<noteq> 0 then bind_out (item_data env i) (\<lambda>d. wear_all env is (wear d s)) else wear_all env is s)"

definition recover_packet :: "character \<Rightarrow> PacketBuilder" where
  "recover_packet c =
     AddShort 0 (AddShort (of_int (ch_tp c)) (AddShort (of_int (ch_hp c)) (PacketBuilder_new PACKET_RECOVER PACKET_PLAYER)))"

text \<open>\<open>Party::UpdateHP\<close>: the health in percent; without maximum health the quotient is no number.\<close>

definition hp_percent :: "character \<Rightarrow> int outcome" where
  "hp_percent c =
     bind_out (d_to_int (d_mul (d_div (d_of_int (ch_hp c)) (d_of_int (d_maxhp (stats c)))) (d_of_int 100))) (\<lambda>n.
       Inr (max 0 (min n 100)))"

definition UpdateHP :: "character \<Rightarrow> character outcome" where
  "UpdateHP c =
     bind_out (hp_percent c) (\<lambda>n.
       let b = AddChar (of_int n) (AddShort (of_nat (ch_pid c)) (PacketBuilder_new PACKET_PARTY PACKET_AGREE))
       in Inr (c\<lparr>outbox := outbox c @ [To_Party b]\<rparr>))"


text \<open>\<open>CalculateStats\<close>, in the order of the code: what is worn and carried, the formulas, the class.\<close>

definition worn_stats :: "world_env \<Rightarrow> ecf_data \<Rightarrow> character \<Rightarrow> derived outcome" where
  "worn_stats env ecf c =
     (let s = \<lparr>d_adj = add_shorts (ch_base c) (cl_stats ecf), d_weight = 0, d_maxweight = 70, d_maxhp = 0,
               d_maxtp = 0, d_maxsp = 0, d_mindam = 0, d_maxdam = 0, d_accuracy = 0, d_evade = 0, d_armor = 0\<rparr>
      in bind_out (weigh env (inventory c) 0) (\<lambda>w.
         bind_out (wear_all env (paperdoll c) (s\<lparr>d_weight := w\<rparr>)) (\<lambda>s.
           Inr (if d_weight s < 0 \<or> d_weight s > 250 then s\<lparr>d_weight := 250\<rparr> else s))))"

definition formula_stats :: "world_env \<Rightarrow> (string \<times> int) list \<Rightarrow> derived \<Rightarrow> derived outcome" where
  "formula_stats env vars s =
     bind_out (formula env ''hp'' vars) (\<lambda>hp.
     bind_out (formula env ''tp'' vars) (\<lambda>tp.
     bind_out (formula env ''sp'' vars) (\<lambda>sp.
     bind_out (formula env ''weight'' vars) (\<lambda>wt.
       Inr (s\<lparr>d_maxhp := to_short (d_maxhp s + hp), d_maxtp := to_short (d_maxtp s + tp),
              d_maxsp := to_short (d_maxsp s + sp), d_maxweight := wt\<rparr>)))))"

definition limit_weight :: "world_env \<Rightarrow> character \<Rightarrow> derived \<Rightarrow> derived" where
  "limit_weight env c s =
     (if ch_admin c \<ge> w_admin_config env ''unlimitedweight'' then s\<lparr>d_weight := 0, d_maxweight := 251\<rparr>
      else if d_maxweight s < 70 \<or> d_maxweight s > 250 then s\<lparr>d_maxweight := 250\<rparr> else s)"

definition class_formula :: "ecf_data \<Rightarrow> string \<Rightarrow> string" where
  "class_formula ecf n = ''class.'' @ to_string_int (cl_type ecf) @ n"

definition class_stats :: "world_env \<Rightarrow> ecf_data \<Rightarrow> (string \<times> int) list \<Rightarrow> derived \<Rightarrow> derived outcome" where
  "class_stats env ecf vars s =
     (if enabled env ''UseClassFormulas'' then
        bind_out (formula env (class_formula ecf ''.damage'') vars) (\<lambda>dam.
        bind_out (formula env (class_formula ecf ''.defence'') vars) (\<lambda>def.
        bind_out (formula env (class_formula ecf ''.accuracy'') vars) (\<lambda>acc.
        bind_out (formula env (class_formula ecf ''.evade'') vars) (\<lambda>eva.
          Inr (s\<lparr>d_mindam := to_short (d_mindam s + dam), d_maxdam := to_short (d_maxdam s + dam),
                 d_armor := to_short (d_armor s + def), d_accuracy := to_short (d_accuracy s + acc),
                 d_evade := to_short (d_evade s + eva)\<rparr>)))))
      else
        (let half = (\<lambda>i. (d_adj s ! i) sdiv 2) in
         Inr (s\<lparr>d_mindam := to_short (d_mindam s + half 0), d_maxdam := to_short (d_maxdam s + half 0),
                d_accuracy := to_short (d_accuracy s + half 3), d_evade := to_short (d_evade s + half 3),
                d_armor := to_short (d_armor s + half 4)\<rparr>)))"

definition base_damage :: "world_env \<Rightarrow> derived \<Rightarrow> derived" where
  "base_damage env s =
     (let s = (if d_mindam s = 0 \<or> \<not> enabled env ''BaseDamageAtZero''
               then s\<lparr>d_mindam := to_short (d_mindam s + w_config env ''BaseMinDamage'')\<rparr> else s)
      in if d_maxdam s = 0 \<or> \<not> enabled env ''BaseDamageAtZero''
         then s\<lparr>d_maxdam := to_short (d_maxdam s + w_config env ''BaseMaxDamage'')\<rparr> else s)"

definition cap_health :: "character \<Rightarrow> character" where
  "cap_health c =
     (if ch_hp c > d_maxhp (stats c) \<or> ch_tp c > d_maxtp (stats c) then
        (let c = c\<lparr>ch_hp := min (ch_hp c) (d_maxhp (stats c)), ch_tp := min (ch_tp c) (d_maxtp (stats c))\<rparr>
         in send (recover_packet c) c)
      else c)"

definition update_stats :: "world_env \<Rightarrow> character \<Rightarrow> character outcome" where
  "update_stats env c =
     bind_out (class_data env (ch_clas c)) (\<lambda>ecf.
     bind_out (worn_stats env ecf c) (\<lambda>s.
       let c = c\<lparr>stats := s\<rparr>; vars = FormulaVars env c '''' in
       bind_out (formula_stats env vars s) (\<lambda>s.
         let c = cap_health (c\<lparr>stats := s\<rparr>); s = limit_weight env c s in
         bind_out (class_stats env ecf vars s) (\<lambda>s. Inr (c\<lparr>stats := base_damage env s\<rparr>)))))"

definition CalculateStats_with :: "bool \<Rightarrow> world_env \<Rightarrow> character \<Rightarrow> character outcome" where
  "CalculateStats_with trigger_quests env c =
     bind_out (update_stats env c) (\<lambda>c.
     bind_out (if trigger_quests then CheckQuestRules env c else Inr c) (\<lambda>c.
       if ch_party c \<noteq> None then UpdateHP c else Inr c))"

definition CalculateStats :: "world_env \<Rightarrow> character \<Rightarrow> character outcome" where
  "CalculateStats = CalculateStats_with True"

section \<open>Lists of items\<close>

text \<open>The loops over a list of items stop at the first entry with the id.\<close>

fun find_item :: "int \<Rightarrow> item list \<Rightarrow> item option" where
  "find_item i [] = None"
| "find_item i (it # its) = (if item_id it = i then Some it else find_item i its)"

fun update_item :: "int \<Rightarrow> int \<Rightarrow> item list \<Rightarrow> item list" where
  "update_item i n [] = []"
| "update_item i n (it # its) = (if item_id it = i then it\<lparr>item_amount := n\<rparr> # its else it # update_item i n its)"

fun erase_item :: "int \<Rightarrow> item list \<Rightarrow> item list" where
  "erase_item i [] = []"
| "erase_item i (it # its) = (if item_id it = i then its else it # erase_item i its)"

definition new_entry :: "int \<Rightarrow> int \<Rightarrow> item" where
  "new_entry i n = \<lparr>item_id = i, item_amount = n\<rparr>"

section \<open>Inventory, spells and the trade list\<close>

definition HasItem :: "int \<Rightarrow> bool \<Rightarrow> character \<Rightarrow> int" where
  "HasItem item include_trade c =
     (case find_item item (inventory c) of
        None \<Rightarrow> 0
      | Some it \<Rightarrow>
          if trading c \<and> \<not> include_trade then
            (case find_item item (trade_inventory c) of
               None \<Rightarrow> item_amount it
             | Some t \<Rightarrow> max (item_amount it - item_amount t) 0)
          else item_amount it)"

definition HasSpell :: "int \<Rightarrow> character \<Rightarrow> bool" where
  "HasSpell sp c \<longleftrightarrow> (\<exists>s \<in> set (spells c). spell_id s = sp)"

definition SpellLevel :: "int \<Rightarrow> character \<Rightarrow> int" where
  "SpellLevel sp c = (case find (\<lambda>s. spell_id s = sp) (spells c) of None \<Rightarrow> 0 | Some s \<Rightarrow> spell_level s)"

definition known_item :: "world_env \<Rightarrow> int \<Rightarrow> bool" where
  "known_item env item \<longleftrightarrow> \<not> (item \<le> 0 \<or> item \<ge> int (length (pub_data (w_eif env))))"

definition AddItem :: "world_env \<Rightarrow> int \<Rightarrow> int \<Rightarrow> character \<Rightarrow> (bool \<times> character) outcome" where
  "AddItem env item amount c =
     (if amount \<le> 0 then Inr (False, c)
      else if \<not> known_item env item then Inr (False, c)
      else case find_item item (inventory c) of
        Some it \<Rightarrow>
          if \<not> int_range (item_amount it + amount) then Inl Signed_Overflow
          else if item_amount it + amount < 0 then Inr (False, c)
          else
            (let n = min (item_amount it + amount) (w_config env ''MaxItem'')
             in bind_out (CalculateStats env (c\<lparr>inventory := update_item item n (inventory c)\<rparr>)) (\<lambda>c. Inr (True, c)))
      | None \<Rightarrow>
          bind_out (CalculateStats env (c\<lparr>inventory := inventory c @ [new_entry item amount]\<rparr>)) (\<lambda>c. Inr (True, c)))"

definition DelItem :: "world_env \<Rightarrow> int \<Rightarrow> int \<Rightarrow> character \<Rightarrow> (bool \<times> character) outcome" where
  "DelItem env item amount c =
     (if amount \<le> 0 then Inr (False, c)
      else case find_item item (inventory c) of
        None \<Rightarrow> Inr (False, c)
      | Some it \<Rightarrow>
          (let inv = (if item_amount it < 0 \<or> item_amount it - amount \<le> 0 then erase_item item (inventory c)
                      else update_item item (item_amount it - amount) (inventory c))
           in bind_out (CalculateStats env (c\<lparr>inventory := inv\<rparr>)) (\<lambda>c. Inr (True, c))))"

definition CanHoldItem :: "world_env \<Rightarrow> int \<Rightarrow> int \<Rightarrow> character \<Rightarrow> int outcome" where
  "CanHoldItem env itemid max_amount c =
     bind_out
       (if w_config env ''EnforceWeight'' \<ge> 2 \<and> ch_admin c < w_admin_config env ''unlimitedweight'' then
          bind_out (item_data env itemid) (\<lambda>item.
            if d_weight (stats c) > d_maxweight (stats c) then Inr 0
            else if i_id item = 0 \<or> i_weight item = 0 then Inr max_amount
            else Inr (min ((d_maxweight (stats c) - d_weight (stats c)) sdiv i_weight item) max_amount))
        else Inr max_amount)
       (\<lambda>amount. Inr (min amount (w_config env ''MaxItem'')))"

definition AddTradeItem :: "world_env \<Rightarrow> int \<Rightarrow> int \<Rightarrow> character \<Rightarrow> (bool \<times> character) outcome" where
  "AddTradeItem env item amount c =
     (let add_quantity = enabled env ''TradeAddQuantity'' in
      if \<not> known_item env item then Inr (False, c)
      else let amount = min amount (HasItem item (\<not> add_quantity) c) in
      if amount \<le> 0 \<or> amount > w_config env ''MaxTrade'' then Inr (False, c)
      else let tradeitem = foldl (\<lambda>n t. if item_id t = item then item_amount t else n) 0 (trade_inventory c) in
      if add_quantity \<and> \<not> int_range (tradeitem + amount) then Inl Signed_Overflow
      else if add_quantity \<and> (tradeitem + amount < 0 \<or> tradeitem + amount > w_config env ''MaxTrade'') then Inr (False, c)
      else case find_item item (trade_inventory c) of
        Some t \<Rightarrow>
          Inr (True, c\<lparr>trade_inventory :=
            update_item item (if add_quantity then item_amount t + amount else amount) (trade_inventory c)\<rparr>)
      | None \<Rightarrow>
          bind_out (CheckQuestRules env (c\<lparr>trade_inventory := trade_inventory c @ [new_entry item amount]\<rparr>)) (\<lambda>c.
            Inr (True, c)))"

definition DelTradeItem :: "world_env \<Rightarrow> int \<Rightarrow> character \<Rightarrow> (bool \<times> character) outcome" where
  "DelTradeItem env item c =
     (case find_item item (trade_inventory c) of
        None \<Rightarrow> Inr (False, c)
      | Some _ \<Rightarrow>
          bind_out (CheckQuestRules env (c\<lparr>trade_inventory := erase_item item (trade_inventory c)\<rparr>)) (\<lambda>c. Inr (True, c)))"

definition AddSpell :: "world_env \<Rightarrow> int \<Rightarrow> character \<Rightarrow> (bool \<times> character) outcome" where
  "AddSpell env sp c =
     (if sp \<le> 0 \<or> sp \<ge> int (length (pub_data (w_esf env))) then Inr (False, c)
      else if HasSpell sp c then Inr (False, c)
      else bind_out (CheckQuestRules env (c\<lparr>spells := spells c @ [\<lparr>spell_id = sp, spell_level = 0\<rparr>]\<rparr>)) (\<lambda>c. Inr (True, c)))"

definition CancelSpell :: "character \<Rightarrow> character" where
  "CancelSpell c = c\<lparr>ch_spell_target := 0, ch_spell_event := False, ch_spell_ready := False\<rparr>"

definition DelSpell :: "world_env \<Rightarrow> int \<Rightarrow> character \<Rightarrow> (bool \<times> character) outcome" where
  "DelSpell env sp c =
     bind_out (CheckQuestRules env (c\<lparr>spells := filter (\<lambda>s. spell_id s \<noteq> sp) (spells c)\<rparr>)) (\<lambda>c'.
       Inr (HasSpell sp c, c'))"

section \<open>The paperdoll\<close>

fun doll_place :: "int \<Rightarrow> int \<Rightarrow> nat \<Rightarrow> int list \<Rightarrow> nat option" where
  "doll_place item subloc i [] = None"
| "doll_place item subloc i (d # ds) =
     (if d = item \<and> (if i = Ring2 \<or> i = Armlet2 \<or> i = Bracer2 then 1 else 0) = subloc then Some i
      else doll_place item subloc (i + 1) ds)"

definition Unequip :: "world_env \<Rightarrow> int \<Rightarrow> int \<Rightarrow> character \<Rightarrow> (bool \<times> character) outcome" where
  "Unequip env item subloc c =
     (if item = 0 then Inr (False, c)
      else case doll_place item subloc 0 (paperdoll c) of
        None \<Rightarrow> Inr (False, c)
      | Some i \<Rightarrow>
          bind_out (AddItem env item 1 (c\<lparr>paperdoll := (paperdoll c)[i := 0]\<rparr>)) (\<lambda>(_, c).
          bind_out (CalculateStats env c) (\<lambda>c. Inr (True, c))))"

definition equip_oneslot :: "world_env \<Rightarrow> int \<Rightarrow> nat \<Rightarrow> character \<Rightarrow> (bool \<times> character) outcome" where
  "equip_oneslot env item slot c =
     (if paperdoll c ! slot \<noteq> 0 then Inr (False, c)
      else
        bind_out (DelItem env item 1 (c\<lparr>paperdoll := (paperdoll c)[slot := item]\<rparr>)) (\<lambda>(_, c).
        bind_out (CalculateStats env c) (\<lambda>c. Inr (True, c))))"

definition equip_slot :: "int \<Rightarrow> int \<Rightarrow> nat option" where
  "equip_slot type subloc =
     (if type = EIF_Weapon then Some Weapon
      else if type = EIF_Shield then Some Shield
      else if type = EIF_Hat then Some Hat
      else if type = EIF_Boots then Some Boots
      else if type = EIF_Gloves then Some Gloves
      else if type = EIF_Accessory then Some Accessory
      else if type = EIF_Belt then Some Belt
      else if type = EIF_Armor then Some Armor
      else if type = EIF_Necklace then Some Necklace
      else if type = EIF_Ring then Some (if subloc = 0 then Ring1 else Ring2)
      else if type = EIF_Armlet then Some (if subloc = 0 then Armlet1 else Armlet2)
      else if type = EIF_Bracer then Some (if subloc = 0 then Bracer1 else Bracer2)
      else None)"

text \<open>A two-handed weapon and a shield that is neither arrows nor wings exclude each other.\<close>

definition two_handed_clash :: "world_env \<Rightarrow> eif_data \<Rightarrow> character \<Rightarrow> string option outcome" where
  "two_handed_clash env d c =
     (if i_type d = EIF_Weapon \<and> i_subtype d = EIF_TwoHanded \<and> paperdoll c ! Shield \<noteq> 0 then
        bind_out (item_data env (paperdoll c ! Shield)) (\<lambda>sh.
          Inr (if i_dual d \<noteq> 0 \<or> (i_subtype sh \<noteq> EIF_Arrows \<and> i_subtype sh \<noteq> EIF_Wings)
               then Some ''two_handed_fail_1'' else None))
      else if i_type d = EIF_Shield \<and> paperdoll c ! Weapon \<noteq> 0 then
        bind_out (item_data env (paperdoll c ! Weapon)) (\<lambda>wp.
          Inr (if i_subtype wp = EIF_TwoHanded \<and>
                  (i_dual wp \<noteq> 0 \<or> (i_subtype d \<noteq> EIF_Arrows \<and> i_subtype d \<noteq> EIF_Wings))
               then Some ''two_handed_fail_2'' else None))
      else Inr None)"

definition meets_requirements :: "world_env \<Rightarrow> eif_data \<Rightarrow> ecf_data \<Rightarrow> character \<Rightarrow> bool" where
  "meets_requirements env d ecf c \<longleftrightarrow>
     \<not> (ch_level c < i_levelreq d \<or> (ch_clas c \<noteq> i_classreq d \<and> cl_base ecf \<noteq> i_classreq d) \<or>
        list_ex (\<lambda>i. display env c ! i < i_statreqs d ! i) [0, 1, 2, 3, 4, 5])"

text \<open>
  \<open>Equip\<close>; \<open>status\<close> makes the status message of the world's text with a name, as \<open>i18n.Format\<close> and
  \<open>StatusMsg\<close> do.
\<close>

definition Equip :: "world_env \<Rightarrow> (string \<Rightarrow> PacketBuilder) \<Rightarrow> int \<Rightarrow> int \<Rightarrow> character \<Rightarrow> (bool \<times> character) outcome" where
  "Equip env status item subloc c =
     (if HasItem item False c = 0 then Inr (False, c)
      else
        bind_out (item_data env item) (\<lambda>d.
        bind_out (class_data env (ch_clas c)) (\<lambda>ecf.
          if i_type d = EIF_Armor \<and> i_gender d \<noteq> ch_gender c then Inr (False, c)
          else bind_out (two_handed_clash env d c) (\<lambda>clash.
            case clash of
              Some msg \<Rightarrow> Inr (False, send (status msg) c)
            | None \<Rightarrow>
                if \<not> meets_requirements env d ecf c then Inr (False, c)
                else case equip_slot (i_type d) subloc of
                  None \<Rightarrow> Inr (False, c)
                | Some slot \<Rightarrow> equip_oneslot env item slot c))))"


section \<open>Lists of items as finite maps\<close>

definition amount_in :: "item list \<Rightarrow> int \<Rightarrow> int" where
  "amount_in its i = (case find_item i its of None \<Rightarrow> 0 | Some it \<Rightarrow> item_amount it)"

definition items_ok :: "item list \<Rightarrow> bool" where
  "items_ok its \<longleftrightarrow>
     distinct (map item_id its) \<and> (\<forall>it \<in> set its. 1 \<le> item_amount it \<and> item_amount it \<le> INT_MAX)"

lemma amount_in_Nil [simp]: "amount_in [] i = 0"
  by (simp add: amount_in_def)

lemma find_item_set: "find_item i its = Some it \<Longrightarrow> it \<in> set its \<and> item_id it = i"
  by (induction its) (auto split: if_splits)

lemma find_item_None: "find_item i its = None \<longleftrightarrow> i \<notin> item_id ` set its"
  by (induction its) auto

lemma find_item_append: "find_item i (xs @ ys) = (case find_item i xs of None \<Rightarrow> find_item i ys | Some it \<Rightarrow> Some it)"
  by (induction xs) auto

lemma find_update: "find_item j (update_item i n its) =
    (if j = i then map_option (\<lambda>it. it\<lparr>item_amount := n\<rparr>) (find_item i its) else find_item j its)"
  by (induction its) auto

lemma ids_update [simp]: "map item_id (update_item i n its) = map item_id its"
  by (induction its) auto

lemma ids_erase: "distinct (map item_id its) \<Longrightarrow> item_id ` set (erase_item i its) = item_id ` set its - {i}"
  by (induction its) (auto, metis image_eqI)

lemma find_erase: "distinct (map item_id its) \<Longrightarrow> find_item j (erase_item i its) = (if j = i then None else find_item j its)"
  by (induction its) (auto simp: find_item_None)

lemma set_update: "it \<in> set (update_item i n its) \<Longrightarrow> item_amount it = n \<or> it \<in> set its"
  by (induction its) (auto split: if_splits)

lemma set_update_id: "it \<in> set (update_item i n its) \<Longrightarrow> item_id it = i \<and> item_amount it = n \<or> it \<in> set its"
  by (induction its) (auto split: if_splits)

lemma set_erase: "set (erase_item i its) \<subseteq> set its"
  by (induction its) auto

lemma distinct_erase: "distinct (map item_id its) \<Longrightarrow> distinct (map item_id (erase_item i its))"
  by (induction its) (use ids_erase in fastforce)+

lemma amount_update: "amount_in (update_item i n its) j = (if j = i \<and> find_item i its \<noteq> None then n else amount_in its j)"
  by (auto simp: amount_in_def find_update split: option.split)

lemma amount_erase: "items_ok its \<Longrightarrow> amount_in (erase_item i its) j = (if j = i then 0 else amount_in its j)"
  by (simp add: amount_in_def items_ok_def find_erase)

lemma amount_append_new:
  "find_item i its = None \<Longrightarrow> amount_in (its @ [new_entry i n]) j = (if j = i then n else amount_in its j)"
  by (auto simp: amount_in_def find_item_append new_entry_def split: option.split)

lemma items_ok_update: "items_ok its \<Longrightarrow> 1 \<le> n \<Longrightarrow> n \<le> INT_MAX \<Longrightarrow> items_ok (update_item i n its)"
  by (auto simp: items_ok_def dest!: set_update)

lemma items_ok_erase: "items_ok its \<Longrightarrow> items_ok (erase_item i its)"
  using set_erase [of i its] distinct_erase by (auto simp: items_ok_def)

lemma items_ok_append:
  "items_ok its \<Longrightarrow> find_item i its = None \<Longrightarrow> 1 \<le> n \<Longrightarrow> n \<le> INT_MAX \<Longrightarrow> items_ok (its @ [new_entry i n])"
  by (auto simp: items_ok_def find_item_None new_entry_def)

lemma amount_ok:
  assumes "items_ok its"
  shows "0 \<le> amount_in its i" "amount_in its i \<le> INT_MAX" "amount_in its i = 0 \<longleftrightarrow> find_item i its = None"
proof -
  have "1 \<le> item_amount it \<and> item_amount it \<le> INT_MAX" if "find_item i its = Some it" for it
    using find_item_set [OF that] assms by (auto simp: items_ok_def)
  then show "0 \<le> amount_in its i" "amount_in its i \<le> INT_MAX" "amount_in its i = 0 \<longleftrightarrow> find_item i its = None"
    by (auto simp: amount_in_def INT_MAX_def split: option.split)
qed

section \<open>The interface of a store of items\<close>

locale item_store =
  fixes ok :: "'s \<Rightarrow> bool" and amount :: "'s \<Rightarrow> int \<Rightarrow> int" and fits :: "int \<Rightarrow> int \<Rightarrow> bool" and cap :: int
    and add :: "int \<Rightarrow> int \<Rightarrow> 's \<Rightarrow> (bool \<times> 's) outcome" and del :: "int \<Rightarrow> int \<Rightarrow> 's \<Rightarrow> (bool \<times> 's) outcome"
  assumes cap: "1 \<le> cap"
    and add_law: "ok s \<Longrightarrow> fits i (amount s i + n) \<Longrightarrow> 0 < n \<Longrightarrow> n \<le> INT_MAX \<Longrightarrow> amount s i + n \<le> INT_MAX \<Longrightarrow>
      \<exists>s'. add i n s = Inr (True, s') \<and> ok s' \<and>
        amount s' = (amount s)(i := if amount s i = 0 then n else min (amount s i + n) cap)"
    and del_law: "ok s \<Longrightarrow> 0 < n \<Longrightarrow> n \<le> amount s i \<Longrightarrow>
      \<exists>s'. del i n s = Inr (True, s') \<and> ok s' \<and> amount s' = (amount s)(i := amount s i - n)"
begin

lemma add_room:
  assumes "ok s" "fits i (amount s i + n)" "0 < n" "0 \<le> amount s i" "amount s i + n \<le> cap" "cap \<le> INT_MAX"
  shows "\<exists>s'. add i n s = Inr (True, s') \<and> ok s' \<and> amount s' = (amount s)(i := amount s i + n)"
  using add_law [of s i n] assms by auto

text \<open>The entries of an offer handed from one store to another, one after the other.\<close>

fun hand_over :: "(int \<times> int) list \<Rightarrow> 's \<times> 's \<Rightarrow> ('s \<times> 's) outcome" where
  "hand_over [] st = Inr st"
| "hand_over ((i, n) # xs) st =
     bind_out (del i n (fst st)) (\<lambda>(_, s). bind_out (add i n (snd st)) (\<lambda>(_, t). hand_over xs (s, t)))"

lemma hand_over_moves:
  assumes "ok s" "ok t" "cap \<le> INT_MAX" "distinct (map fst xs)"
    and "\<forall>(i, n) \<in> set xs. fits i (amount t i + n) \<and> 0 < n \<and> n \<le> amount s i \<and> 0 \<le> amount t i \<and> amount t i + n \<le> cap"
  shows "\<exists>s' t'. hand_over xs (s, t) = Inr (s', t') \<and> ok s' \<and> ok t' \<and>
    (\<forall>i. amount s' i = amount s i - (case map_of xs i of None \<Rightarrow> 0 | Some n \<Rightarrow> n)) \<and>
    (\<forall>i. amount t' i = amount t i + (case map_of xs i of None \<Rightarrow> 0 | Some n \<Rightarrow> n))"
  using assms
proof (induction xs arbitrary: s t)
  case (Cons x xs)
  obtain i n where x: "x = (i, n)" by (cases x)
  obtain s1 where s1: "del i n s = Inr (True, s1)" "ok s1" "amount s1 = (amount s)(i := amount s i - n)"
    using del_law [of s n i] Cons.prems x by auto
  obtain t1 where t1: "add i n t = Inr (True, t1)" "ok t1" "amount t1 = (amount t)(i := amount t i + n)"
    using add_room [of t i n] Cons.prems x by auto
  have fresh: "i \<notin> fst ` set xs" "map_of xs i = None" using Cons.prems(4) x by (auto simp: map_of_eq_None_iff)
  have "\<forall>(j, m) \<in> set xs. fits j (amount t1 j + m) \<and> 0 < m \<and> m \<le> amount s1 j \<and> 0 \<le> amount t1 j \<and> amount t1 j + m \<le> cap"
    using Cons.prems(5) fresh(1) by (force simp: s1(3) t1(3))
  then obtain s' t' where "hand_over xs (s1, t1) = Inr (s', t')" "ok s'" "ok t'"
    "\<forall>i. amount s' i = amount s1 i - (case map_of xs i of None \<Rightarrow> 0 | Some n \<Rightarrow> n)"
    "\<forall>i. amount t' i = amount t1 i + (case map_of xs i of None \<Rightarrow> 0 | Some n \<Rightarrow> n)"
    using Cons.IH [OF s1(2) t1(2) Cons.prems(3)] Cons.prems(4) x by auto
  then show ?case using s1 t1 fresh(2) by (auto simp: x)
qed simp

end


section \<open>The inventory is a store\<close>

text \<open>
  What quests and statistics leave alone, and a world in which the statistics can always be
  computed and the rules of quests leave the holdings alone.
\<close>

definition holdings :: "character \<Rightarrow> item list \<times> item list \<times> int list \<times> spell list \<times> int \<times> int" where
  "holdings c = (inventory c, bank c, paperdoll c, spells c, ch_goldbank c, ch_bankmax c)"

definition trade_part :: "character \<Rightarrow> bool \<times> nat option \<times> bool \<times> item list" where
  "trade_part c = (trading c, trade_partner c, trade_agree c, trade_inventory c)"

definition place_part :: "character \<Rightarrow> nat \<times> int \<times> int \<times> int \<times> int \<times> int" where
  "place_part c = (ch_pid c, ch_mapid c, ch_x c, ch_y c, ch_npc_type c, ch_nointeract c)"

definition same_but_stats :: "character \<Rightarrow> character \<Rightarrow> bool" where
  "same_but_stats c c' \<longleftrightarrow> holdings c' = holdings c \<and> trade_part c' = trade_part c \<and> place_part c' = place_part c"

lemmas same_but_stats_defs = same_but_stats_def holdings_def trade_part_def place_part_def

text \<open>
  The weight of an amount of an item can be computed; a character whose items can be weighed and
  whose health is a \<open>short\<close>.
\<close>

definition carries :: "world_env \<Rightarrow> int \<Rightarrow> int \<Rightarrow> bool" where
  "carries env i n \<longleftrightarrow> (\<forall>d. item_data env i = Inr d \<longrightarrow> 0 \<le> i_weight d \<and> i_weight d * n \<le> INT_MAX - 250)"

definition sane :: "world_env \<Rightarrow> character \<Rightarrow> bool" where
  "sane env c \<longleftrightarrow>
     items_ok (inventory c) \<and> (\<forall>it \<in> set (inventory c). carries env (item_id it) (item_amount it)) \<and>
     short_range (ch_hp c)"

definition calm :: "world_env \<Rightarrow> bool" where
  "calm env \<longleftrightarrow>
     (\<forall>c. \<exists>c'. w_rules env c = Inr c' \<and> same_but_stats c c' \<and> (short_range (ch_hp c) \<longrightarrow> short_range (ch_hp c'))) \<and>
     (\<forall>c. sane env c \<longrightarrow> returned (CalculateStats env c)) \<and>
     1 \<le> w_config env ''MaxItem'' \<and> w_config env ''MaxItem'' \<le> INT_MAX"

definition holdable :: "world_env \<Rightarrow> int \<Rightarrow> int \<Rightarrow> bool" where
  "holdable env i n \<longleftrightarrow> known_item env i \<and> carries env i n"

lemma same_but_stats_refl [simp]: "same_but_stats c c"
  by (simp add: same_but_stats_def)

lemma same_but_stats_trans: "same_but_stats a b \<Longrightarrow> same_but_stats b c \<Longrightarrow> same_but_stats a c"
  by (simp add: same_but_stats_def)

lemma same_but_statsD:
  assumes "same_but_stats c c'"
  shows "inventory c' = inventory c" "bank c' = bank c" "paperdoll c' = paperdoll c" "spells c' = spells c"
    "ch_goldbank c' = ch_goldbank c" "ch_bankmax c' = ch_bankmax c" "trading c' = trading c"
    "trade_partner c' = trade_partner c" "trade_agree c' = trade_agree c" "trade_inventory c' = trade_inventory c"
    "ch_pid c' = ch_pid c" "ch_mapid c' = ch_mapid c" "ch_x c' = ch_x c" "ch_y c' = ch_y c"
    "ch_npc_type c' = ch_npc_type c" "ch_nointeract c' = ch_nointeract c"
  using assms by (simp_all add: same_but_stats_defs)

lemma stats_same: "same_but_stats c (c\<lparr>stats := s\<rparr>)"
  by (simp add: same_but_stats_defs)

lemma cap_health_same: "same_but_stats c (cap_health c)"
  by (simp add: cap_health_def send_def same_but_stats_defs Let_def)

lemma update_stats_same:
  assumes "update_stats env c = Inr c'"
  shows "same_but_stats c c' \<and> (short_range (ch_hp c) \<longrightarrow> short_range (ch_hp c'))"
proof -
  obtain a x b d where c': "c' = (cap_health (c\<lparr>stats := a, stats := b\<rparr>))\<lparr>stats := d\<rparr>" "formula_stats env x a = Inr b"
    using assms unfolding update_stats_def Let_def bind_out_Inr_iff by blast
  have "same_but_stats c (c\<lparr>stats := a, stats := b\<rparr>)" by (simp add: same_but_stats_defs)
  then have "same_but_stats c c'"
    unfolding c'(1) by (rule same_but_stats_trans [OF same_but_stats_trans [OF _ cap_health_same] stats_same])
  moreover have "short_range (d_maxhp b)"
    using c'(2) by (auto simp: formula_stats_def bind_out_Inr_iff)
  then have "short_range (ch_hp c) \<longrightarrow> short_range (ch_hp c')"
    by (auto simp: c'(1) cap_health_def send_def Let_def min_def)
  ultimately show ?thesis by blast
qed

lemma UpdateHP_same: "UpdateHP c = Inr c' \<Longrightarrow> same_but_stats c c' \<and> ch_hp c' = ch_hp c"
  by (auto simp: UpdateHP_def bind_out_Inr_iff same_but_stats_defs Let_def)

lemma calm_rules:
  assumes "calm env"
  obtains c' where "w_rules env c = Inr c'" "same_but_stats c c'" "short_range (ch_hp c) \<longrightarrow> short_range (ch_hp c')"
  using assms unfolding calm_def by blast

lemma sane_same: "same_but_stats c c' \<Longrightarrow> short_range (ch_hp c') \<Longrightarrow> sane env c \<Longrightarrow> sane env c'"
  by (simp add: sane_def same_but_statsD(1))

lemma calm_stats:
  assumes "calm env" "sane env c"
  obtains c' where "CalculateStats env c = Inr c'" "same_but_stats c c'" "sane env c'"
proof -
  obtain c' where c': "CalculateStats env c = Inr c'" using assms by (auto simp: calm_def returned_def)
  then obtain c1 c2 where c12: "update_stats env c = Inr c1" "w_rules env c1 = Inr c2"
    "(if ch_party c2 \<noteq> None then UpdateHP c2 else Inr c2) = Inr c'"
    by (auto simp: CalculateStats_def CalculateStats_with_def CheckQuestRules_def bind_out_Inr_iff)
  have 1: "same_but_stats c c1" "short_range (ch_hp c1)"
    using update_stats_same [OF c12(1)] assms(2) by (auto simp: sane_def)
  moreover have 2: "same_but_stats c1 c2" "short_range (ch_hp c2)"
    using calm_rules [OF assms(1), of c1] c12(2) 1(2) by auto
  moreover have "same_but_stats c2 c'" "ch_hp c' = ch_hp c2"
    using c12(3) UpdateHP_same [of c2 c'] by (auto split: if_splits)
  ultimately show thesis
    using that c' same_but_stats_trans sane_same [of c c'] assms(2) by metis
qed

lemma calm_MaxItem: "calm env \<Longrightarrow> 1 \<le> w_config env ''MaxItem'' \<and> w_config env ''MaxItem'' \<le> INT_MAX"
  by (simp add: calm_def)

lemma carries_less: "carries env i n \<Longrightarrow> m \<le> n \<Longrightarrow> carries env i m"
  unfolding carries_def by (meson mult_left_mono order_trans)

lemma sane_inventory:
  "sane env c \<Longrightarrow> items_ok its \<Longrightarrow> \<forall>it \<in> set its. carries env (item_id it) (item_amount it) \<Longrightarrow> sane env (c\<lparr>inventory := its\<rparr>)"
  by (simp add: sane_def)

lemma update_item_carries:
  "\<forall>it \<in> set its. carries env (item_id it) (item_amount it) \<Longrightarrow> carries env i n \<Longrightarrow>
   \<forall>it \<in> set (update_item i n its). carries env (item_id it) (item_amount it)"
  by (induction its) auto

lemma AddItem_calm:
  assumes calm: "calm env" and ok: "sane env c" and known: "holdable env i (amount_in (inventory c) i + n)"
    and n: "0 < n" "n \<le> INT_MAX" "amount_in (inventory c) i + n \<le> INT_MAX"
  shows "\<exists>c'. AddItem env i n c = Inr (True, c') \<and> sane env c' \<and>
    amount_in (inventory c') = (amount_in (inventory c))
      (i := if amount_in (inventory c) i = 0 then n else min (amount_in (inventory c) i + n) (w_config env ''MaxItem'')) \<and>
    same_but_stats (c\<lparr>inventory := inventory c'\<rparr>) c'"
proof (cases "find_item i (inventory c)")
  case None
  let ?c = "c\<lparr>inventory := inventory c @ [new_entry i n]\<rparr>"
  have inv_ok: "items_ok (inventory c)" using ok by (simp add: sane_def)
  have zero: "amount_in (inventory c) i = 0" using None by (simp add: amount_in_def)
  have "sane env ?c"
    using ok known zero items_ok_append [OF inv_ok None, of n] n
    by (auto simp: sane_def holdable_def new_entry_def)
  then obtain c' where c': "CalculateStats env ?c = Inr c'" "same_but_stats ?c c'" "sane env c'"
    using calm_stats [OF calm] by blast
  have inv: "inventory c' = inventory c @ [new_entry i n]" using same_but_statsD(1) [OF c'(2)] by simp
  then show ?thesis
    using c' None n known zero amount_append_new [OF None, of n]
    by (auto simp: AddItem_def holdable_def)
next
  case (Some it)
  let ?m = "min (item_amount it + n) (w_config env ''MaxItem'')"
  let ?c = "c\<lparr>inventory := update_item i ?m (inventory c)\<rparr>"
  have inv_ok: "items_ok (inventory c)" using ok by (simp add: sane_def)
  have amt: "amount_in (inventory c) i = item_amount it" "1 \<le> item_amount it"
    using Some find_item_set [OF Some] inv_ok by (auto simp: amount_in_def items_ok_def)
  have m: "1 \<le> ?m" "?m \<le> INT_MAX" using amt n calm_MaxItem [OF calm] by auto
  have "carries env i ?m" using known amt carries_less by (auto simp: holdable_def)
  then have "sane env ?c"
    using ok items_ok_update [OF inv_ok m] update_item_carries by (intro sane_inventory) (auto simp: sane_def)
  then obtain c' where c': "CalculateStats env ?c = Inr c'" "same_but_stats ?c c'" "sane env c'"
    using calm_stats [OF calm] by blast
  have inv: "inventory c' = update_item i ?m (inventory c)" using same_but_statsD(1) [OF c'(2)] by simp
  have "int_range (item_amount it + n)" using amt n by (simp add: int_range_def INT_MIN_def)
  then show ?thesis
    using c' inv Some n known amt amount_update [of i ?m "inventory c"]
    by (auto simp: AddItem_def holdable_def Let_def)
qed

lemma DelItem_calm:
  assumes calm: "calm env" and ok: "sane env c" and n: "0 < n" "n \<le> amount_in (inventory c) i"
  shows "\<exists>c'. DelItem env i n c = Inr (True, c') \<and> sane env c' \<and>
    amount_in (inventory c') = (amount_in (inventory c))(i := amount_in (inventory c) i - n) \<and>
    same_but_stats (c\<lparr>inventory := inventory c'\<rparr>) c'"
proof -
  have inv_ok: "items_ok (inventory c)" using ok by (simp add: sane_def)
  obtain it where it: "find_item i (inventory c) = Some it" "item_amount it = amount_in (inventory c) i"
    using n by (auto simp: amount_in_def split: option.splits)
  define inv where "inv = (if item_amount it < 0 \<or> item_amount it - n \<le> 0 then erase_item i (inventory c)
      else update_item i (item_amount it - n) (inventory c))"
  have le: "item_amount it \<le> INT_MAX" using amount_ok(2) [OF inv_ok, of i] it by simp
  have inv: "amount_in inv = (amount_in (inventory c))(i := amount_in (inventory c) i - n) \<and> items_ok inv"
    using inv_ok n it le items_ok_erase [OF inv_ok] items_ok_update [OF inv_ok, of "item_amount it - n" i]
    by (auto simp: inv_def amount_erase amount_update)
  have "carries env i (item_amount it - n)"
    using ok find_item_set [OF it(1)] n(1) carries_less [of env i "item_amount it"] by (auto simp: sane_def)
  moreover have "\<forall>it \<in> set (inventory c). carries env (item_id it) (item_amount it)"
    using ok by (simp add: sane_def)
  ultimately have "\<forall>it \<in> set (update_item i (item_amount it - n) (inventory c)). carries env (item_id it) (item_amount it)"
    "\<forall>it \<in> set (erase_item i (inventory c)). carries env (item_id it) (item_amount it)"
    using set_erase [of i "inventory c"] by (auto dest: update_item_carries)
  then have "\<forall>it \<in> set inv. carries env (item_id it) (item_amount it)" by (simp add: inv_def)
  then have "sane env (c\<lparr>inventory := inv\<rparr>)" using ok inv by (intro sane_inventory) auto
  then obtain c' where c': "CalculateStats env (c\<lparr>inventory := inv\<rparr>) = Inr c'" "same_but_stats (c\<lparr>inventory := inv\<rparr>) c'"
    "sane env c'" using calm_stats [OF calm] by blast
  moreover have "inventory c' = inv" using same_but_statsD(1) [OF c'(2)] by simp
  ultimately show ?thesis
    using inv it(1) n(1) unfolding DelItem_def inv_def [symmetric] by (simp add: inv_def)
qed

locale inventory_env =
  fixes env :: world_env
  assumes calm: "calm env"
begin

lemma store:
  "item_store (sane env) (\<lambda>c. amount_in (inventory c)) (holdable env) (w_config env ''MaxItem'')
     (AddItem env) (DelItem env)"
  using AddItem_calm [OF calm] DelItem_calm [OF calm] calm_MaxItem [OF calm]
  by unfold_locales metis+

end

sublocale inventory_env \<subseteq> item_store "sane env" "\<lambda>c. amount_in (inventory c)" "holdable env"
  "w_config env ''MaxItem''" "AddItem env" "DelItem env"
  by (rule store)


section \<open>A world in which the inventory is a store\<close>

definition sample_items :: "eif_data list" where
  "sample_items =
     [EIF_Data, EIF_Data\<lparr>i_id := 1\<rparr>,
      EIF_Data\<lparr>i_id := 2, i_type := EIF_Weapon, i_weight := 20\<rparr>,
      EIF_Data\<lparr>i_id := 3, i_type := EIF_Ring, i_weight := 1\<rparr>]"

definition sample_config :: "string \<Rightarrow> int" where
  "sample_config k =
     (if k = ''MaxItem'' then 1000 else if k = ''MaxTrade'' then 100 else if k = ''EnforceWeight'' then 2
      else if k = ''MaxBank'' then 200 else if k = ''MaxBankGold'' then 5000 else if k = ''BaseBankSize'' then 20
      else if k = ''SeeDistance'' then 11 else if k = ''MaxChest'' then 500 else if k = ''ChestSlots'' then 20
      else if k = ''MaxTile'' then 4 else if k = ''MaxMap'' then 400
      else if k = ''MaxShopBuy'' then 4 else if k = ''StatPerLevel'' then 3 else if k = ''SkillPerLevel'' then 4
      else if k = ''MaxSkillLevel'' then 100 else if k = ''MaxLevel'' then 250 else if k = ''MaxExp'' then 1000000 else 0)"

definition sample_env :: world_env where
  "sample_env =
     \<lparr>w_eif = \<lparr>pub_rid = [], pub_len = [], pub_data = sample_items\<rparr>,
      w_ecf = \<lparr>pub_rid = [], pub_len = [], pub_data = [ECF_Data]\<rparr>,
      w_esf = \<lparr>pub_rid = [], pub_len = [], pub_data = [ESF_Data]\<rparr>,
      w_config = sample_config, w_admin_config = (\<lambda>_. 4), w_formulas = (\<lambda>_. ''1''),
      w_libm = undefined, w_rand = undefined, w_rules = Inr\<rparr>"

lemma formula_one:
  assumes "w_formulas env name = ''1''" "map_of vars ''1'' = None"
  shows "formula env name vars = Inr 1"
proof -
  have "rpn_parse ''1'' = Inr (map variant_of_string [''1''])"
    by (simp add: rpn_parse_words words_no_space)
  moreover have "find_entry ''1'' = None"
    by (simp add: find_entry_def rpn_eval_funcs_def entry_matches_def entry_def)
  moreover have "format_i 1 = ''1''" by code_simp
  then have "tdparse ''1'' = Fin 1" using tdparse_format_i [of 1] by simp
  ultimately show ?thesis
    using assms by (simp add: formula_def rpn_eval_def Let_def d_to_short_def short_range_def int_range_def
        INT_MIN_def INT_MAX_def rat_trunc_def)
qed

lemma vars_not_one: "map_of (FormulaVars env c '''') ''1'' = None"
  by (simp add: FormulaVars_def Let_def)

lemma sample_item_data: "\<exists>d \<in> set sample_items. item_data sample_env i = Inr d"
proof -
  have "sample_items \<noteq> []" "sample_items ! 0 \<in> set sample_items" by (simp_all add: sample_items_def)
  then show ?thesis using nth_mem [of "unat (of_int i :: u32)" sample_items]
    by (auto simp: item_data_def EIF_Get_def pub_get_def sample_env_def)
qed

lemma sample_class_data: "class_data sample_env i = Inr ECF_Data"
  by (simp add: class_data_def ECF_Get_def pub_get_def sample_env_def unat_eq_0 nth_Cons')

lemma weigh_returns:
  "\<forall>i. returned (item_data env i) \<Longrightarrow> \<forall>it \<in> set its. carries env (item_id it) (item_amount it) \<and> 0 \<le> item_amount it \<Longrightarrow>
   short_range w \<Longrightarrow> w < 250 \<Longrightarrow> returned (weigh env its w)"
proof (induction its arbitrary: w)
  case (Cons it its)
  obtain d where d: "item_data env (item_id it) = Inr d" using Cons.prems(1) by (auto simp: returned_def)
  have c: "carries env (item_id it) (item_amount it)" "0 \<le> item_amount it" using Cons.prems(2) by auto
  then have p: "0 \<le> i_weight d * item_amount it" "i_weight d * item_amount it \<le> INT_MAX - 250"
    using d by (auto simp: carries_def)
  then have "int_range (i_weight d * item_amount it)" "int_range (w + i_weight d * item_amount it)"
    using Cons.prems(3,4) by (auto simp: int_range_def INT_MAX_def INT_MIN_def short_range_def)
  then show ?case using Cons d by (auto simp: Let_def)
qed simp

lemma wear_all_returns:
  "\<forall>i. returned (item_data env i) \<Longrightarrow> returned (wear_all env ds s)"
proof (induction ds arbitrary: s)
  case (Cons i ds)
  obtain d where "item_data env i = Inr d" using Cons.prems by (auto simp: returned_def)
  then show ?case using Cons by simp
qed simp

lemma wear_all_maxhp:
  assumes "\<forall>i d. item_data env i = Inr d \<longrightarrow> i_hp d = 0"
  shows "wear_all env ds s = Inr s' \<Longrightarrow> d_maxhp s = 0 \<Longrightarrow> d_maxhp s' = 0"
proof (induction ds arbitrary: s)
  case (Cons i ds)
  then show ?case using assms
    by (auto simp: bind_out_Inr_iff wear_def to_short_def split: if_splits)
qed simp

lemma sample_stats:
  assumes "sane sample_env c" "worn_stats sample_env ecf c = Inr a"
  shows "d_maxhp a = 0"
proof -
  have "\<forall>d \<in> set sample_items. i_hp d = 0" by (simp add: sample_items_def EIF_Data_def)
  then have "\<forall>i d. item_data sample_env i = Inr d \<longrightarrow> i_hp d = 0"
    using sample_item_data by (metis sum.inject(2))
  from wear_all_maxhp [OF this] show ?thesis using assms(2)
    by (fastforce simp: worn_stats_def Let_def bind_out_Inr_iff split: if_splits)
qed

lemma sample_formula: "formula sample_env name (FormulaVars env c '''') = Inr 1"
  by (rule formula_one [OF _ vars_not_one]) (simp add: sample_env_def)

lemma sample_class_stats: "class_stats sample_env ecf vars s = Inr t \<Longrightarrow> d_maxhp t = d_maxhp s"
  by (auto simp: class_stats_def enabled_def Let_def bind_out_Inr_iff split: if_splits)

lemma base_damage_maxhp [simp]: "d_maxhp (base_damage env s) = d_maxhp s"
  by (simp add: base_damage_def Let_def)

lemma limit_weight_maxhp [simp]: "d_maxhp (limit_weight env c s) = d_maxhp s"
  by (simp add: limit_weight_def)

lemma returned_bind: "returned m \<Longrightarrow> (\<And>x. returned (f x)) \<Longrightarrow> returned (bind_out m f)"
  by (cases m) auto

lemma sample_worn_returns: "sane sample_env c \<Longrightarrow> returned (worn_stats sample_env ecf c)"
proof -
  assume ok: "sane sample_env c"
  have d: "\<forall>i. returned (item_data sample_env i)"
    using sample_item_data by (metis returned_def)
  have "returned (weigh sample_env (inventory c) 0)"
    by (rule weigh_returns [OF d]) (use ok in \<open>auto simp: sane_def items_ok_def short_range_def\<close>)
  moreover have "returned (wear_all sample_env (paperdoll c) s)" for s by (rule wear_all_returns [OF d])
  ultimately show ?thesis
    unfolding worn_stats_def Let_def by (intro returned_bind) (simp_all split: if_split)
qed

lemma sample_update_stats:
  assumes "sane sample_env c"
  shows "\<exists>c'. update_stats sample_env c = Inr c' \<and> d_maxhp (stats c') = 1 \<and> ch_hp c' \<le> 1 \<and> short_range (ch_hp c')"
proof -
  obtain a where a: "worn_stats sample_env ECF_Data c = Inr a" "d_maxhp a = 0"
    using sample_worn_returns [OF assms, of ECF_Data] sample_stats [OF assms] by (auto simp: returned_def)
  let ?vars = "FormulaVars sample_env (c\<lparr>stats := a\<rparr>) ''''"
  obtain b where b: "formula_stats sample_env ?vars a = Inr b" "d_maxhp b = 1"
    by (simp add: formula_stats_def sample_formula a(2) to_short_def)
  let ?c = "cap_health (c\<lparr>stats := b\<rparr>)"
  have hp: "ch_hp ?c \<le> 1" "short_range (ch_hp ?c)"
    using assms b(2) by (auto simp: cap_health_def send_def Let_def sane_def min_def short_range_def)
  obtain t where t: "class_stats sample_env ECF_Data ?vars (limit_weight sample_env ?c b) = Inr t"
    by (simp add: class_stats_def enabled_def sample_env_def sample_config_def Let_def)
  then have "d_maxhp t = 1" using sample_class_stats [OF t] b(2) by simp
  then show ?thesis using hp
    by (simp add: update_stats_def sample_class_data a(1) b(1) t Let_def)
qed

lemma hp_percent_one:
  assumes "d_maxhp (stats c) = 1" "ch_hp c \<le> 1" "short_range (ch_hp c)"
  shows "returned (UpdateHP c)"
proof -
  have b: "\<bar>ch_hp c\<bar> < 2 ^ 53" "\<bar>ch_hp c * 100\<bar> < 2 ^ 53" "int_range (ch_hp c * 100)"
    using assms(2,3) by (auto simp: short_range_def int_range_def INT_MAX_def INT_MIN_def)
  have "d_div (d_of_int (ch_hp c)) (d_of_int 1) = Fin (of_int (ch_hp c))"
    using b(1) dbl_of_int [of "ch_hp c"] d_of_int_exact [of 1] by simp
  moreover have "d_of_int 100 = Fin (of_int 100)" by (rule d_of_int_exact) simp
  ultimately show ?thesis
    using d_mul_int [OF b(2)] d_to_int_of_int [OF b(3)]
    by (simp add: UpdateHP_def hp_percent_def assms(1) Let_def del: d_mul.simps d_to_int.simps)
qed

lemma calm_sample: "calm sample_env"
proof -
  have "returned (CalculateStats sample_env c)" if sane: "sane sample_env c" for c
  proof -
    obtain c' where c': "update_stats sample_env c = Inr c'" "d_maxhp (stats c') = 1" "ch_hp c' \<le> 1" "short_range (ch_hp c')"
      using sample_update_stats [OF sane] by blast
    have "w_rules sample_env c' = Inr c'" by (simp add: sample_env_def)
    then show ?thesis
      using hp_percent_one [OF c'(2-4)] by (simp add: CalculateStats_def CalculateStats_with_def CheckQuestRules_def c'(1))
  qed
  moreover have "w_rules sample_env c = Inr c" for c by (simp add: sample_env_def)
  moreover have "w_config sample_env ''MaxItem'' = 1000" by (simp add: sample_env_def sample_config_def)
  ultimately show ?thesis by (simp add: calm_def INT_MAX_def)
qed

interpretation sample: inventory_env sample_env
  by (rule inventory_env.intro [OF calm_sample])

section \<open>Correctness of the character\<close>

lemma weight_clamped: "worn_stats env ecf c = Inr s \<Longrightarrow> 0 \<le> d_weight s \<and> d_weight s \<le> 250"
proof -
  assume "worn_stats env ecf c = Inr s"
  then obtain t where "s = (if d_weight t < 0 \<or> d_weight t > 250 then t\<lparr>d_weight := 250\<rparr> else t)"
    unfolding worn_stats_def Let_def bind_out_Inr_iff sum.inject by blast
  then show ?thesis by simp
qed

lemma formula_stats_weight: "formula_stats env vars s = Inr t \<Longrightarrow> d_weight t = d_weight s"
  by (auto simp: formula_stats_def bind_out_Inr_iff)

lemma limit_weight_bounds:
  "0 \<le> d_weight s \<Longrightarrow> d_weight s \<le> 250 \<Longrightarrow>
   0 \<le> d_weight (limit_weight env c s) \<and> d_weight (limit_weight env c s) \<le> 250 \<and>
   (if ch_admin c \<ge> w_admin_config env ''unlimitedweight''
    then d_weight (limit_weight env c s) = 0 \<and> d_maxweight (limit_weight env c s) = 251
    else 70 \<le> d_maxweight (limit_weight env c s) \<and> d_maxweight (limit_weight env c s) \<le> 250)"
  by (auto simp: limit_weight_def)

lemma class_stats_keep:
  "class_stats env ecf vars s = Inr t \<Longrightarrow>
   d_weight t = d_weight s \<and> d_maxweight t = d_maxweight s \<and> d_maxhp t = d_maxhp s \<and> d_maxtp t = d_maxtp s"
  by (auto simp: class_stats_def Let_def bind_out_Inr_iff split: if_splits)

lemma base_damage_keep:
  "d_weight (base_damage env s) = d_weight s \<and> d_maxweight (base_damage env s) = d_maxweight s \<and>
   d_maxhp (base_damage env s) = d_maxhp s \<and> d_maxtp (base_damage env s) = d_maxtp s"
  by (simp add: base_damage_def Let_def)

lemma cap_health_caps:
  "ch_hp (cap_health c) \<le> d_maxhp (stats c) \<and> ch_tp (cap_health c) \<le> d_maxtp (stats c) \<and>
   ch_admin (cap_health c) = ch_admin c \<and> stats (cap_health c) = stats c"
  by (simp add: cap_health_def send_def Let_def)

definition stats_ok :: "world_env \<Rightarrow> character \<Rightarrow> bool" where
  "stats_ok env c \<longleftrightarrow>
     ch_hp c \<le> d_maxhp (stats c) \<and> ch_tp c \<le> d_maxtp (stats c) \<and>
     0 \<le> d_weight (stats c) \<and> d_weight (stats c) \<le> 250 \<and>
     (if ch_admin c \<ge> w_admin_config env ''unlimitedweight''
      then d_weight (stats c) = 0 \<and> d_maxweight (stats c) = 251
      else 70 \<le> d_maxweight (stats c) \<and> d_maxweight (stats c) \<le> 250)"

lemma update_stats_ok:
  assumes "update_stats env c = Inr c'"
  shows "stats_ok env c'"
proof -
  obtain ecf a b t where t: "worn_stats env ecf c = Inr a"
    "formula_stats env (FormulaVars env (c\<lparr>stats := a\<rparr>) '''') a = Inr b"
    "class_stats env ecf (FormulaVars env (c\<lparr>stats := a\<rparr>) '''')
       (limit_weight env (cap_health (c\<lparr>stats := a, stats := b\<rparr>)) b) = Inr t"
    "c' = (cap_health (c\<lparr>stats := a, stats := b\<rparr>))\<lparr>stats := base_damage env t\<rparr>"
    using assms unfolding update_stats_def Let_def bind_out_Inr_iff sum.inject by blast
  define d where "d = cap_health (c\<lparr>stats := b\<rparr>)"
  have b: "0 \<le> d_weight b \<and> d_weight b \<le> 250"
    using weight_clamped [OF t(1)] formula_stats_weight [OF t(2)] by simp
  have d: "ch_hp d \<le> d_maxhp b" "ch_tp d \<le> d_maxtp b" "ch_admin d = ch_admin c"
    using cap_health_caps [of "c\<lparr>stats := b\<rparr>"] by (simp_all add: d_def)
  have "d_maxhp (limit_weight env d b) = d_maxhp b \<and> d_maxtp (limit_weight env d b) = d_maxtp b"
    by (simp add: limit_weight_def)
  then show ?thesis
    using t(3,4) class_stats_keep [of env ecf _ "limit_weight env d b" t] base_damage_keep [of env t]
      limit_weight_bounds [of b env d] b d
    by (simp add: stats_ok_def d_def [symmetric] split: if_splits)
qed

lemma UpdateHP_fields: "UpdateHP c = Inr c' \<Longrightarrow>
    stats c' = stats c \<and> ch_hp c' = ch_hp c \<and> ch_tp c' = ch_tp c \<and> ch_admin c' = ch_admin c"
  by (auto simp: UpdateHP_def bind_out_Inr_iff Let_def)

text \<open>
  C24: After \<open>CalculateStats\<close> (with the rules of quests not triggered) health and energy are within
  their maxima, the weight is between 0 and 250, and the maximum weight is between 70 and 250, or
  251 with no weight counted for an administrator above the configured level.
\<close>

theorem stats_bounded:
  assumes "CalculateStats_with False env c = Inr c'"
  shows "ch_hp c' \<le> d_maxhp (stats c') \<and> ch_tp c' \<le> d_maxtp (stats c') \<and>
    0 \<le> d_weight (stats c') \<and> d_weight (stats c') \<le> 250 \<and>
    (if ch_admin c' \<ge> w_admin_config env ''unlimitedweight''
     then d_weight (stats c') = 0 \<and> d_maxweight (stats c') = 251
     else 70 \<le> d_maxweight (stats c') \<and> d_maxweight (stats c') \<le> 250)"
proof -
  obtain c1 where c1: "update_stats env c = Inr c1" "(if ch_party c1 \<noteq> None then UpdateHP c1 else Inr c1) = Inr c'"
    using assms by (auto simp: CalculateStats_with_def bind_out_Inr_iff)
  have "stats_ok env c1" by (rule update_stats_ok [OF c1(1)])
  then show ?thesis using c1(2) UpdateHP_fields [of c1 c'] by (auto simp: stats_ok_def split: if_splits)
qed

definition sample_character :: character where
  "sample_character =
     \<lparr>ch_pid = 1, ch_name = ''alice'', ch_admin = 0, ch_bot = 0, ch_usage = 0, ch_clas = 0, ch_gender = 0, ch_race = 0,
      ch_hairstyle = 0, ch_haircolor = 0, ch_level = 1, ch_exp = 0, ch_hp = 10, ch_tp = 10, ch_base = [1, 2, 3, 4, 5, 6],
      ch_statpoints = 0, ch_skillpoints = 0, ch_karma = 1000, ch_mapid = 5, ch_x = 1, ch_y = 1, ch_direction = 0,
      ch_sitting = 0, ch_hidden = 0, ch_nointeract = 0, ch_whispers = 1, ch_bankmax = 0, ch_goldbank = 0, ch_npc_type = 0,
      stats = \<lparr>d_adj = [1, 2, 3, 4, 5, 6], d_weight = 21, d_maxweight = 70, d_maxhp = 10, d_maxtp = 10, d_maxsp = 10,
               d_mindam = 1, d_maxdam = 1, d_accuracy = 1, d_evade = 1, d_armor = 1\<rparr>,
      inventory = [new_entry 1 50, new_entry 2 1, new_entry 3 2], bank = [], paperdoll = replicate 15 0,
      spells = [], trading = False, trade_partner = None, trade_agree = False, trade_inventory = [],
      ch_party = None, ch_nowhere = False, ch_npc = None, ch_last_walk = Fin 0, ch_attacks = 0, ch_spell_target = 0,
      ch_spell_ready = False, ch_spell_event = False, ch_warp_anim = 0, ch_guild = None, ch_guild_join = [],
      ch_guild_invite = [], ch_board = None, ch_jukebox_open = False, cosmetic_paperdoll = replicate 15 0, outbox = []\<rparr>"

lemma sample_item_cases: "item_data sample_env i = Inr d \<Longrightarrow> 0 \<le> i_weight d \<and> i_weight d \<le> 20"
proof -
  assume "item_data sample_env i = Inr d"
  then have "d \<in> set sample_items" using sample_item_data [of i] by auto
  then show ?thesis by (auto simp: sample_items_def EIF_Data_def)
qed

lemma carries_sample: "n \<le> 100000 \<Longrightarrow> 0 \<le> n \<Longrightarrow> carries sample_env i n"
proof -
  assume n: "n \<le> 100000" "0 \<le> n"
  have "i_weight d * n \<le> 20 * 100000" if "0 \<le> i_weight d \<and> i_weight d \<le> 20" for d :: eif_data
    using that n by (intro mult_mono) auto
  then show ?thesis using sample_item_cases by (fastforce simp: carries_def INT_MAX_def)
qed

lemma sane_sample: "sane sample_env sample_character"
  by (simp add: sane_def sample_character_def items_ok_def new_entry_def carries_sample short_range_def INT_MAX_def)

theorem stats_bounded_witness:
  "\<exists>c'. CalculateStats_with False sample_env sample_character = Inr c' \<and> d_weight (stats c') \<le> 250"
proof -
  obtain c' where c': "update_stats sample_env sample_character = Inr c'" "d_maxhp (stats c') = 1" "ch_hp c' \<le> 1"
      "short_range (ch_hp c')"
    using sample_update_stats [OF sane_sample] by blast
  obtain c2 where "CalculateStats_with False sample_env sample_character = Inr c2"
    using hp_percent_one [OF c'(2-4)] c'(1) by (cases "ch_party c' = None") (auto simp: CalculateStats_with_def returned_def)
  then show ?thesis using stats_bounded [of sample_env sample_character c2] by blast
qed



text \<open>How many of an item a character has on and in the bag.\<close>

definition owned :: "character \<Rightarrow> int \<Rightarrow> int" where
  "owned c i = amount_in (inventory c) i + int (count_list (paperdoll c) i)"

lemma count_list_update: "k < length xs \<Longrightarrow>
    int (count_list (xs[k := y]) x) =
    int (count_list xs x) - (if xs ! k = x then 1 else 0) + (if y = x then 1 else 0)"
proof (induction xs arbitrary: k)
  case (Cons a xs)
  show ?case
  proof (cases k)
    case (Suc j)
    then have "int (count_list (xs[j := y]) x) =
      int (count_list xs x) - (if xs ! j = x then 1 else 0) + (if y = x then 1 else 0)"
      using Cons by simp
    then show ?thesis by (auto simp: Suc split: if_splits)
  qed simp
qed simp

lemma doll_place_Some: "doll_place item subloc i ds = Some k \<Longrightarrow> i \<le> k \<and> k < i + length ds \<and> ds ! (k - i) = item"
proof (induction ds arbitrary: i)
  case (Cons d ds)
  show ?case
  proof (cases "d = item \<and> (if i = Ring2 \<or> i = Armlet2 \<or> i = Bracer2 then 1 else 0) = subloc")
    case False
    then have "Suc i \<le> k \<and> k < Suc i + length ds \<and> ds ! (k - Suc i) = item"
      using Cons.IH [of "Suc i"] Cons.prems by (auto split: if_splits)
    then show ?thesis by (auto simp: nth_Cons')
  qed (use Cons.prems in auto)
qed simp

lemma sane_paperdoll: "sane env (c\<lparr>paperdoll := ds\<rparr>) = sane env c"
  by (simp add: sane_def)

lemma equip_slot_bound: "equip_slot type subloc = Some slot \<Longrightarrow> slot < 15"
  by (auto simp: equip_slot_def places split: if_splits)

lemma HasItem_pos: "items_ok (inventory c) \<Longrightarrow> HasItem i b c \<noteq> 0 \<Longrightarrow> 1 \<le> amount_in (inventory c) i"
  using amount_ok(1,3) [of "inventory c" i] by (force simp: HasItem_def split: option.splits)

lemma equip_oneslot_calm:
  assumes "calm env" "sane env c" "1 \<le> amount_in (inventory c) item" "slot < length (paperdoll c)"
    "equip_oneslot env item slot c = Inr (True, c')"
  shows "sane env c' \<and> (\<forall>j. j \<noteq> 0 \<longrightarrow> owned c' j = owned c j) \<and> paperdoll c' = (paperdoll c)[slot := item]"
proof -
  let ?c = "c\<lparr>paperdoll := (paperdoll c)[slot := item]\<rparr>"
  have free: "paperdoll c ! slot = 0" using assms(5) by (auto simp: equip_oneslot_def split: if_splits)
  have "sane env ?c" using assms(2) by (simp add: sane_paperdoll)
  then obtain c1 where c1: "DelItem env item 1 ?c = Inr (True, c1)" "sane env c1"
      "amount_in (inventory c1) = (amount_in (inventory c))(item := amount_in (inventory c) item - 1)"
      "same_but_stats (?c\<lparr>inventory := inventory c1\<rparr>) c1"
    using DelItem_calm [OF assms(1), of ?c 1 item] assms(3) by auto
  moreover obtain c2 where c2: "CalculateStats env c1 = Inr c2" "same_but_stats c1 c2" "sane env c2"
    using calm_stats [OF assms(1) c1(2)] .
  ultimately have "c' = c2" using assms(5) free by (simp add: equip_oneslot_def)
  moreover have "paperdoll c2 = (paperdoll c)[slot := item]"
    using same_but_statsD(3) [OF c2(2)] same_but_statsD(3) [OF c1(4)] by simp
  ultimately show ?thesis
    using c2(3) same_but_statsD(1) [OF c2(2)] c1(3) count_list_update [OF assms(4)] free
    by (auto simp: owned_def)
qed

lemma Equip_True:
  assumes "Equip env status item subloc c = Inr (True, c')"
  obtains type slot where "HasItem item False c \<noteq> 0" "equip_slot type subloc = Some slot"
    "equip_oneslot env item slot c = Inr (True, c')"
proof -
  have h: "HasItem item False c \<noteq> 0" using assms by (auto simp: Equip_def)
  obtain d where d: "item_data env item = Inr d" using assms h by (cases "item_data env item") (auto simp: Equip_def)
  obtain ecf where ecf: "class_data env (ch_clas c) = Inr ecf"
    using assms h d by (cases "class_data env (ch_clas c)") (auto simp: Equip_def)
  have "\<not> (i_type d = EIF_Armor \<and> i_gender d \<noteq> ch_gender c)"
    using assms h d ecf by (auto simp: Equip_def split: if_splits)
  moreover from this have "two_handed_clash env d c = Inr None"
    using assms h d ecf by (cases "two_handed_clash env d c") (auto simp: Equip_def split: option.splits if_splits)
  ultimately show thesis using assms h d ecf that by (auto simp: Equip_def split: option.splits if_splits)
qed


definition dressed_character :: character where
  "dressed_character = sample_character\<lparr>paperdoll := (replicate 15 0)[Weapon := 2]\<rparr>"


text \<open>
  The amount \<open>CanHoldItem\<close> grants is at most \<open>MaxItem\<close> and the amount asked for; where weight is
  enforced and the item is one with a weight, that many of them do not take the character over the
  maximum weight; one already over it is granted nothing.
\<close>

theorem granted_amount_fits:
  assumes "CanHoldItem env i n c = Inr k"
  shows "k \<le> w_config env ''MaxItem'' \<and> (0 \<le> n \<longrightarrow> k \<le> n) \<and>
    (w_config env ''EnforceWeight'' \<ge> 2 \<and> ch_admin c < w_admin_config env ''unlimitedweight'' \<longrightarrow>
     (\<forall>d. item_data env i = Inr d \<longrightarrow> i_id d \<noteq> 0 \<longrightarrow> 0 < i_weight d \<longrightarrow>
       (d_weight (stats c) \<le> d_maxweight (stats c) \<longrightarrow> d_weight (stats c) + k * i_weight d \<le> d_maxweight (stats c)) \<and>
       (d_weight (stats c) > d_maxweight (stats c) \<longrightarrow> k \<le> 0)))"
proof -
  let ?room = "d_maxweight (stats c) - d_weight (stats c)"
  have fit: "m * w \<le> ?room" if "m \<le> ?room sdiv w" "0 < w" "0 \<le> ?room" for m w
  proof -
    have "?room sdiv w = ?room div w" using that by (cases "?room = 0") (simp_all add: signed_divide_int_def)
    then have "m * w \<le> (?room div w) * w" using that by (intro mult_right_mono) auto
    also have "(?room div w) * w \<le> ?room"
      using minus_mod_eq_div_mult [of ?room w] pos_mod_sign [of w ?room] that by linarith
    finally show ?thesis .
  qed
  define q where "q d = ?room sdiv i_weight d" for d :: eif_data
  have fit: "k * i_weight d \<le> ?room" if "k \<le> q d" "0 < i_weight d" "0 \<le> ?room" for d k
    using fit that by (simp add: q_def)
  obtain a where a: "k = min a (w_config env ''MaxItem'')"
    "(if w_config env ''EnforceWeight'' \<ge> 2 \<and> ch_admin c < w_admin_config env ''unlimitedweight'' then
        bind_out (item_data env i) (\<lambda>d.
            if d_weight (stats c) > d_maxweight (stats c) then Inr 0
            else if i_id d = 0 \<or> i_weight d = 0 then Inr n else Inr (min (q d) n))
      else Inr n) = Inr a"
    using assms unfolding CanHoldItem_def bind_out_Inr_iff q_def by auto
  show ?thesis
  proof (cases "w_config env ''EnforceWeight'' \<ge> 2 \<and> ch_admin c < w_admin_config env ''unlimitedweight''")
    case True
    then obtain d where d: "item_data env i = Inr d"
      "(if d_weight (stats c) > d_maxweight (stats c) then Inr 0
        else if i_id d = 0 \<or> i_weight d = 0 then Inr n else Inr (min (q d) n)) = (Inr a :: failure + int)"
      using a(2) by (auto simp: bind_out_Inr_iff)
    have le: "k \<le> a" "k \<le> w_config env ''MaxItem''" using a(1) by simp_all
    have "k \<le> q d" if "i_id d \<noteq> 0" "0 < i_weight d" "d_weight (stats c) \<le> d_maxweight (stats c)"
      using d(2) that le by auto
    moreover have "a \<le> 0" if "d_weight (stats c) > d_maxweight (stats c)" using d(2) that by simp
    moreover have "0 \<le> n \<longrightarrow> a \<le> n" using d(2) by (auto split: if_splits)
    ultimately show ?thesis using fit [of k d] d(1) le by auto
  next
    case False
    then show ?thesis using a by auto
  qed
qed

theorem granted_amount_fits_witness: "CanHoldItem sample_env 2 5 sample_character = Inr 2"
proof -
  have d: "item_data sample_env 2 = Inr (EIF_Data\<lparr>i_id := 2, i_type := EIF_Weapon, i_weight := 20\<rparr>)"
    by (simp add: item_data_def EIF_Get_def pub_get_def sample_env_def sample_items_def)
  have "CanHoldItem sample_env 2 5 sample_character = Inr 2"
    unfolding CanHoldItem_def d
    by (simp add: sample_env_def sample_config_def sample_character_def signed_divide_int_def)
  from granted_amount_fits [OF this] this show ?thesis by simp
qed

text \<open>
  What is offered in a trade: no item twice, and of each between one and \<open>MaxTrade\<close>, no more than
  the character has.
\<close>

definition offer_ok :: "world_env \<Rightarrow> character \<Rightarrow> bool" where
  "offer_ok env c \<longleftrightarrow>
     items_ok (trade_inventory c) \<and>
     (\<forall>t \<in> set (trade_inventory c). known_item env (item_id t) \<and> item_amount t \<le> w_config env ''MaxTrade'' \<and>
        item_amount t \<le> amount_in (inventory c) (item_id t))"

lemma foldl_amount: "distinct (map item_id ts) \<Longrightarrow>
   foldl (\<lambda>n t. if item_id t = i then item_amount t else n) a ts =
   (case find_item i ts of None \<Rightarrow> a | Some t \<Rightarrow> item_amount t)"
proof (induction ts arbitrary: a)
  case (Cons t ts)
  show ?case
  proof (cases "item_id t = i")
    case True
    then have "find_item i ts = None" using Cons.prems by (auto simp: find_item_None)
    then show ?thesis using Cons True by simp
  qed (use Cons in simp)
qed simp

lemma offer_update:
  assumes "offer_ok env c" "find_item i (trade_inventory c) = Some t" "1 \<le> n" "n \<le> INT_MAX"
    "n \<le> w_config env ''MaxTrade''" "n \<le> amount_in (inventory c) i"
  shows "offer_ok env (c\<lparr>trade_inventory := update_item i n (trade_inventory c)\<rparr>)"
proof -
  have "item_id u = i \<and> item_amount u = n \<or> u \<in> set (trade_inventory c)"
    if "u \<in> set (update_item i n (trade_inventory c))" for u
    using that by (rule set_update_id)
  moreover have "known_item env i" using assms(1) find_item_set [OF assms(2)] by (auto simp: offer_ok_def)
  ultimately show ?thesis
    using assms items_ok_update [of "trade_inventory c" n i] by (fastforce simp: offer_ok_def)
qed

lemma offer_erase: "offer_ok env c \<Longrightarrow> offer_ok env (c\<lparr>trade_inventory := erase_item i (trade_inventory c)\<rparr>)"
  using set_erase [of i "trade_inventory c"] by (auto simp: offer_ok_def items_ok_erase)

lemma offer_append:
  assumes "offer_ok env c" "find_item i (trade_inventory c) = None" "1 \<le> n" "n \<le> INT_MAX" "known_item env i"
    "n \<le> w_config env ''MaxTrade''" "n \<le> amount_in (inventory c) i"
  shows "offer_ok env (c\<lparr>trade_inventory := trade_inventory c @ [new_entry i n]\<rparr>)"
  using assms items_ok_append [of "trade_inventory c" i n] by (auto simp: offer_ok_def new_entry_def)

lemma offer_same: "same_but_stats c c' \<Longrightarrow> offer_ok env c' = offer_ok env c"
  by (simp add: offer_ok_def same_but_statsD)

lemma HasItem_offered:
  assumes "items_ok (inventory c)" "items_ok (trade_inventory c)" "1 \<le> HasItem i b c"
  shows "HasItem i b c \<le> amount_in (inventory c) i - (if trading c \<and> \<not> b then amount_in (trade_inventory c) i else 0)"
  using assms(3) by (auto simp: HasItem_def amount_in_def split: option.splits if_splits)



end
