(* ===== verification/Players.thy ===== *)
theory Players
  imports Character Util_Numbers
begin

text \<open>
  The characters that are playing, by player id, and what a handler does to several of them: reading
  a pointer to another character, running an operation on one, sending to those of a map
  (\<open>src/src/map.cpp\<close>, \<open>character.cpp\<close>). A pointer to a character is its player id; following one to a
  character that is not there is undefined behaviour.
\<close>

section \<open>The characters of the world\<close>

type_synonym players = "nat \<Rightarrow> character option"

definition player :: "players \<Rightarrow> nat \<Rightarrow> character outcome" where
  "player w p = (case w p of None \<Rightarrow> Inl Null_Dereference | Some c \<Rightarrow> Inr c)"

definition alter :: "nat \<Rightarrow> (character \<Rightarrow> character) \<Rightarrow> players \<Rightarrow> players" where
  "alter p f w = w(p := map_option f (w p))"

definition run_on :: "nat \<Rightarrow> (character \<Rightarrow> ('r \<times> character) outcome) \<Rightarrow> players \<Rightarrow> ('r \<times> players) outcome" where
  "run_on p op w = bind_out (player w p) (\<lambda>c. bind_out (op c) (\<lambda>(r, c'). Inr (r, w(p \<mapsto> c'))))"

definition rules_on :: "world_env \<Rightarrow> nat \<Rightarrow> players \<Rightarrow> players outcome" where
  "rules_on env p w = bind_out (player w p) (\<lambda>c. bind_out (CheckQuestRules env c) (\<lambda>c'. Inr (w(p \<mapsto> c'))))"

definition send_to :: "nat \<Rightarrow> PacketBuilder \<Rightarrow> players \<Rightarrow> players" where
  "send_to p b = alter p (send b)"

text \<open>
  \<open>Map::GetCharacterPID\<close>: the character of a map with a player id. The characters of a map are those
  whose \<open>mapid\<close> is its id.
\<close>

definition GetCharacterPID :: "players \<Rightarrow> int \<Rightarrow> nat \<Rightarrow> nat option" where
  "GetCharacterPID w mapid pid =
     (case w pid of None \<Rightarrow> None | Some d \<Rightarrow> if ch_mapid d = mapid then Some pid else None)"

definition InRange :: "world_env \<Rightarrow> character \<Rightarrow> character \<Rightarrow> bool" where
  "InRange env c d \<longleftrightarrow>
     \<not> ch_nowhere c \<and> \<not> ch_nowhere d \<and>
     \<bar>ch_x c - ch_x d\<bar> + \<bar>ch_y c - ch_y d\<bar> \<le> w_config env ''SeeDistance''"

text \<open>A packet to every character of a map that satisfies a condition.\<close>

definition send_map :: "int \<Rightarrow> (nat \<Rightarrow> character \<Rightarrow> bool) \<Rightarrow> PacketBuilder \<Rightarrow> players \<Rightarrow> players" where
  "send_map mapid to b w =
     (\<lambda>q. case w q of None \<Rightarrow> None | Some d \<Rightarrow> Some (if ch_mapid d = mapid \<and> to q d then send b d else d))"

definition Emote :: "world_env \<Rightarrow> byte \<Rightarrow> bool \<Rightarrow> nat \<Rightarrow> players \<Rightarrow> players outcome" where
  "Emote env emote echo p w =
     bind_out (player w p) (\<lambda>c.
       let b = AddChar emote (AddShort (of_nat p) (PacketBuilder_new PACKET_EMOTE PACKET_PLAYER))
       in Inr (send_map (ch_mapid c) (\<lambda>q d. echo \<or> q \<noteq> p \<and> InRange env c d) b w))"

lemma player_Inr [simp]: "player w p = Inr c \<longleftrightarrow> w p = Some c"
  by (simp add: player_def split: option.split)

lemma player_at: "w p = Some c \<Longrightarrow> player w p = Inr c"
  by simp

lemma run_on_Inr: "run_on p op w = Inr (r, w') \<longleftrightarrow> (\<exists>c c'. w p = Some c \<and> op c = Inr (r, c') \<and> w' = w(p \<mapsto> c'))"
  by (auto simp: run_on_def bind_out_Inr_iff)

lemma rules_on_Inr: "rules_on env p w = Inr w' \<longleftrightarrow> (\<exists>c c'. w p = Some c \<and> CheckQuestRules env c = Inr c' \<and> w' = w(p \<mapsto> c'))"
  by (auto simp: rules_on_def bind_out_Inr_iff)

lemma alter_same [simp]: "alter p f w p = map_option f (w p)"
  by (simp add: alter_def)

lemma alter_other [simp]: "q \<noteq> p \<Longrightarrow> alter p f w q = w q"
  by (simp add: alter_def)

lemma GetCharacterPID_Some: "GetCharacterPID w m p = Some q \<longleftrightarrow> q = p \<and> (\<exists>d. w p = Some d \<and> ch_mapid d = m)"
  by (auto simp: GetCharacterPID_def split: option.split)

end
