(* ===== verification/Trade.thy ===== *)
theory Trade
  imports Players
begin

text \<open>
  Trading between two characters (\<open>src/src/handlers/Trade.cpp\<close>, and the end of a trade when a character
  walks, warps or logs out). The handlers work on the characters of the world; a trade is the two
  pointers at each other, the flags \<open>trading\<close> and \<open>trade_agree\<close> and the two lists of offered items.
  Proved: the pointers and flags of two traders always agree, and an exchange moves exactly what is offered.
\<close>

section \<open>The handlers\<close>

definition pid_short :: "nat \<Rightarrow> u16" where
  "pid_short p = of_nat p"

definition source_name :: "character \<Rightarrow> bytes" where
  "source_name c = bytes_of (ch_name c)"

definition may_trade :: "world_env \<Rightarrow> character \<Rightarrow> bool" where
  "may_trade env c \<longleftrightarrow> \<not> trading c \<and> CanInteractItems c \<and> ch_mapid c \<noteq> w_config env ''JailMap''"

definition Trade_Request :: "world_env \<Rightarrow> nat \<Rightarrow> PacketReader \<Rightarrow> players \<Rightarrow> players outcome" where
  "Trade_Request env p reader w =
     bind_out (player w p) (\<lambda>c.
       if \<not> may_trade env c then Inr w
       else
         bind_out (GetChar reader) (\<lambda>(something, reader).
         bind_out (GetShort reader) (\<lambda>(victimid, _).
           case GetCharacterPID w (ch_mapid c) (unat victimid) of
             None \<Rightarrow> Inr w
           | Some q \<Rightarrow>
               if q = p then Inr w
               else bind_out (player w q) (\<lambda>d.
                 if trading d \<or> \<not> CanInteractItems d then Inr w
                 else
                   (let b = AddString (source_name c) (AddShort (pid_short p) (AddChar something
                              (PacketBuilder_new PACKET_TRADE PACKET_REQUEST)))
                    in Inr (alter p (\<lambda>c. c\<lparr>trade_partner := Some q\<rparr>) (send_to q b w)))))))"

definition open_packet :: "nat \<Rightarrow> character \<Rightarrow> nat \<Rightarrow> character \<Rightarrow> PacketBuilder" where
  "open_packet p c q d =
     AddBreakString (source_name d) 255 (AddShort (pid_short q)
       (AddBreakString (source_name c) 255 (AddShort (pid_short p) (PacketBuilder_new PACKET_TRADE PACKET_OPEN))))"

definition Trade_Accept :: "world_env \<Rightarrow> nat \<Rightarrow> PacketReader \<Rightarrow> players \<Rightarrow> players outcome" where
  "Trade_Accept env p reader w =
     bind_out (player w p) (\<lambda>c.
       if \<not> may_trade env c then Inr w
       else
         bind_out (GetChar reader) (\<lambda>(_, reader).
         bind_out (GetShort reader) (\<lambda>(victimid, _).
           case GetCharacterPID w (ch_mapid c) (unat victimid) of
             None \<Rightarrow> Inr w
           | Some q \<Rightarrow>
               bind_out (player w q) (\<lambda>d.
                 if ch_mapid d = ch_mapid c \<and> trade_partner d = Some p \<and> \<not> trading d \<and> CanInteractItems d then
                   (let w = send_to q (open_packet p c q d) (send_to p (open_packet q d p c) w);
                        w = alter p (\<lambda>c. c\<lparr>trade_partner := Some q, trading := True, trade_agree := False\<rparr>) w
                    in Inr (alter q (\<lambda>d. d\<lparr>trading := True, trade_agree := False\<rparr>) w))
                 else Inr w))))"

text \<open>The character a trader trades with.\<close>

definition the_partner :: "players \<Rightarrow> nat \<Rightarrow> nat outcome" where
  "the_partner w p =
     bind_out (player w p) (\<lambda>c.
       case trade_partner c of
         None \<Rightarrow> Inl Null_Dereference
       | Some q \<Rightarrow> bind_out (player w q) (\<lambda>_. Inr q))"

definition add_item_list :: "item list \<Rightarrow> PacketBuilder \<Rightarrow> PacketBuilder" where
  "add_item_list its b = foldl (\<lambda>b t. AddInt (of_int (item_amount t)) (AddShort (of_int (item_id t)) b)) b its"

definition offers_packet :: "nat \<Rightarrow> item list \<Rightarrow> nat \<Rightarrow> item list \<Rightarrow> PacketBuilder" where
  "offers_packet p its q jts =
     AddByte 255 (add_item_list jts (AddShort (pid_short q)
       (AddByte 255 (add_item_list its (AddShort (pid_short p) (PacketBuilder_new PACKET_TRADE PACKET_REPLY))))))"

definition agree_id :: "character \<Rightarrow> PacketAction" where
  "agree_id c = (if trade_agree c then PACKET_ADMIN else PACKET_REPLY)"

text \<open>Both traders are shown the offers and have to agree again.\<close>

definition show_offers :: "nat \<Rightarrow> players \<Rightarrow> players outcome" where
  "show_offers p w =
     bind_out (the_partner w p) (\<lambda>q. bind_out (player w p) (\<lambda>c. bind_out (player w q) (\<lambda>d.
       let b = offers_packet p (trade_inventory c) q (trade_inventory d);
           w = send_to p (SetID PACKET_TRADE (agree_id c) b) w;
           w = send_to q (SetID PACKET_TRADE (agree_id d) b) w
       in Inr (alter q (\<lambda>d. d\<lparr>trade_agree := False\<rparr>) (alter p (\<lambda>c. c\<lparr>trade_agree := False\<rparr>) w)))))"

definition Trade_Remove :: "world_env \<Rightarrow> nat \<Rightarrow> PacketReader \<Rightarrow> players \<Rightarrow> players outcome" where
  "Trade_Remove env p reader w =
     bind_out (player w p) (\<lambda>c.
       if \<not> trading c then Inr w
       else bind_out (GetShort reader) (\<lambda>(itemid, _).
         if length (trade_inventory c) > 5 then Inr w
         else bind_out (run_on p (DelTradeItem env (to_short (uint itemid))) w) (\<lambda>(removed, w).
           if removed then show_offers p w else Inr w)))"

definition Trade_Add :: "world_env \<Rightarrow> nat \<Rightarrow> PacketReader \<Rightarrow> players \<Rightarrow> players outcome" where
  "Trade_Add env p reader w =
     bind_out (player w p) (\<lambda>c.
       if \<not> trading c then Inr w
       else
         bind_out (GetShort reader) (\<lambda>(itemid, reader).
         bind_out (GetInt reader) (\<lambda>(amount, _).
         bind_out (item_data env (uint itemid)) (\<lambda>d.
           if i_special d = EIF_Lore then Inr w
           else if \<not> list_ex (\<lambda>t. item_id t = uint itemid) (trade_inventory c) \<and> length (trade_inventory c) \<ge> 10 then Inr w
           else bind_out (run_on p (AddTradeItem env (to_short (uint itemid)) (sint amount)) w) (\<lambda>(added, w).
             if added then show_offers p w else Inr w)))))"

text \<open>The items of an offer go from one trader to the other, one after the other.\<close>

fun hand_items :: "world_env \<Rightarrow> nat \<Rightarrow> nat \<Rightarrow> item list \<Rightarrow> players \<Rightarrow> players outcome" where
  "hand_items env giver taker [] w = Inr w"
| "hand_items env giver taker (t # ts) w =
     bind_out (run_on giver (DelItem env (item_id t) (item_amount t)) w) (\<lambda>(_, w).
     bind_out (run_on taker (AddItem env (item_id t) (item_amount t)) w) (\<lambda>(_, w).
       hand_items env giver taker ts w))"

definition EMOTE_TRADE :: byte where "EMOTE_TRADE = 12"

definition stop_trading :: "character \<Rightarrow> character" where
  "stop_trading c = c\<lparr>trading := False, trade_inventory := []\<rparr>"

definition exchange :: "world_env \<Rightarrow> nat \<Rightarrow> nat \<Rightarrow> players \<Rightarrow> players outcome" where
  "exchange env p q w =
     bind_out (player w q) (\<lambda>d. let theirs = trade_inventory d in
     bind_out (hand_items env q p theirs w) (\<lambda>w.
     bind_out (player w p) (\<lambda>c. let ours = trade_inventory c in
     bind_out (hand_items env p q ours w) (\<lambda>w.
       let b = AddByte 255 (add_item_list ours (AddShort (pid_short p)
                 (AddByte 255 (add_item_list theirs (AddShort (pid_short q) (PacketBuilder_new PACKET_TRADE PACKET_USE))))));
           w = send_to q b (send_to p b w) in
     bind_out (Emote env EMOTE_TRADE True p w) (\<lambda>w.
     bind_out (Emote env EMOTE_TRADE True q w) (\<lambda>w.
       let w = alter p (\<lambda>c. (stop_trading c)\<lparr>trade_agree := False\<rparr>) w in
     bind_out (rules_on env p w) (\<lambda>w.
     bind_out (rules_on env q w) (\<lambda>w.
       let w = alter p (\<lambda>c. c\<lparr>trade_agree := False\<rparr>) (alter q stop_trading w)
       in Inr (alter p (\<lambda>c. c\<lparr>trade_partner := None\<rparr>) (alter q (\<lambda>d. d\<lparr>trade_partner := None\<rparr>) w))))))))))"

text \<open>The answer to a sign of agreement or disagreement that does not complete the trade.\<close>

definition agree_reply :: "nat \<Rightarrow> nat \<Rightarrow> byte \<Rightarrow> players \<Rightarrow> players" where
  "agree_reply p q agree w =
     send_to q (AddChar agree (AddShort (pid_short q) (PacketBuilder_new PACKET_TRADE PACKET_AGREE)))
       (send_to p (AddChar agree (PacketBuilder_new PACKET_TRADE PACKET_SPEC)) w)"

definition Trade_Agree :: "world_env \<Rightarrow> nat \<Rightarrow> PacketReader \<Rightarrow> players \<Rightarrow> players outcome" where
  "Trade_Agree env p reader w =
     bind_out (player w p) (\<lambda>c.
       if \<not> trading c then Inr w
       else bind_out (GetChar reader) (\<lambda>(agree, _).
         let w = alter p (\<lambda>c. c\<lparr>trade_agree := (agree \<noteq> 0)\<rparr>) w in
         if agree \<noteq> 0 \<and> trade_inventory c = [] then Inr w
         else
           bind_out (the_partner w p) (\<lambda>q. bind_out (player w q) (\<lambda>d.
             if agree \<noteq> 0 \<and> trade_agree d then exchange env p q w
             else Inr (agree_reply p q agree w)))))"

text \<open>The end of a trade without exchange, the same in \<open>Trade_Close\<close>, \<open>Character::Warp\<close> and \<open>Walk\<close>.\<close>

definition close_trade :: "world_env \<Rightarrow> nat \<Rightarrow> players \<Rightarrow> players outcome" where
  "close_trade env p w =
     bind_out (the_partner w p) (\<lambda>q.
       let w = send_to q (AddShort (pid_short p) (PacketBuilder_new PACKET_TRADE PACKET_CLOSE)) w;
           w = alter p (\<lambda>c. (stop_trading c)\<lparr>trade_agree := False\<rparr>) w;
           w = alter p (\<lambda>c. c\<lparr>trade_agree := False\<rparr>) (alter q stop_trading w) in
       bind_out (rules_on env p w) (\<lambda>w.
       bind_out (rules_on env q w) (\<lambda>w.
         Inr (alter p (\<lambda>c. c\<lparr>trade_partner := None\<rparr>) (alter q (\<lambda>d. d\<lparr>trade_partner := None\<rparr>) w)))))"

definition Trade_Close :: "world_env \<Rightarrow> nat \<Rightarrow> PacketReader \<Rightarrow> players \<Rightarrow> players outcome" where
  "Trade_Close env p reader w =
     bind_out (player w p) (\<lambda>c.
       if \<not> trading c then Inr w
       else bind_out (GetChar reader) (\<lambda>_. close_trade env p w))"

definition warp_trade :: "world_env \<Rightarrow> nat \<Rightarrow> players \<Rightarrow> players outcome" where
  "warp_trade env p w = bind_out (player w p) (\<lambda>c. if trading c then close_trade env p w else Inr w)"

datatype trade_action = Request | Accept | Remove | Agree | Add | Close_Trade

fun trade_handler :: "trade_action \<Rightarrow> world_env \<Rightarrow> nat \<Rightarrow> PacketReader \<Rightarrow> players \<Rightarrow> players outcome" where
  "trade_handler Request = Trade_Request"
| "trade_handler Accept = Trade_Accept"
| "trade_handler Remove = Trade_Remove"
| "trade_handler Agree = Trade_Agree"
| "trade_handler Add = Trade_Add"
| "trade_handler Close_Trade = Trade_Close"

section \<open>What the handlers do to the trades\<close>

text \<open>
  The trading state of the world: who trades with whom, who agreed, what is offered. Everything a
  handler does besides is invisible in it.
\<close>

type_synonym trades = "nat \<Rightarrow> (bool \<times> nat option \<times> bool \<times> item list) option"

definition trades_of :: "players \<Rightarrow> trades" where
  "trades_of w = (\<lambda>p. map_option trade_part (w p))"

text \<open>A world whose quest rules leave the holdings, the trade and the place of a character alone.\<close>

definition quiet :: "world_env \<Rightarrow> bool" where
  "quiet env \<longleftrightarrow> (\<forall>c c'. w_rules env c = Inr c' \<longrightarrow> same_but_stats c c')"

lemma quiet_rules: "quiet env \<Longrightarrow> CheckQuestRules env c = Inr c' \<Longrightarrow> same_but_stats c c'"
  by (simp add: quiet_def CheckQuestRules_def)

lemma quiet_stats:
  assumes "quiet env" "CalculateStats env c = Inr c'"
  shows "same_but_stats c c'"
proof -
  obtain c1 c2 where c: "update_stats env c = Inr c1" "CheckQuestRules env c1 = Inr c2"
    "(if ch_party c2 \<noteq> None then UpdateHP c2 else Inr c2) = Inr c'"
    using assms(2) by (auto simp: CalculateStats_def CalculateStats_with_def bind_out_Inr_iff)
  have "same_but_stats c2 c'" using c(3) UpdateHP_same [of c2 c'] by (auto split: if_splits)
  then show ?thesis
    using update_stats_same [OF c(1)] quiet_rules [OF assms(1) c(2)] same_but_stats_trans by blast
qed

lemma trade_part_same: "same_but_stats c c' \<Longrightarrow> trade_part c' = trade_part c"
  by (simp add: same_but_stats_def)

lemma trade_part_inventory [simp]: "trade_part (c\<lparr>inventory := i\<rparr>) = trade_part c"
  by (simp add: trade_part_def)

lemma trade_part_AddItem:
  "quiet env \<Longrightarrow> AddItem env i n c = Inr (b, c') \<Longrightarrow> trade_part c' = trade_part c"
  by (auto simp: AddItem_def Let_def bind_out_Inr_iff dest!: quiet_stats trade_part_same split: if_splits option.splits)

lemma trade_part_DelItem:
  "quiet env \<Longrightarrow> DelItem env i n c = Inr (b, c') \<Longrightarrow> trade_part c' = trade_part c"
  by (auto simp: DelItem_def Let_def bind_out_Inr_iff dest!: quiet_stats trade_part_same split: if_splits option.splits)

lemma trades_update: "trades_of (w(p \<mapsto> c)) = (trades_of w)(p \<mapsto> trade_part c)"
  by (auto simp: trades_of_def)

lemma trades_send [simp]: "trades_of (send_to p b w) = trades_of w"
  by (rule ext, cases "w p") (auto simp: trades_of_def send_to_def alter_def send_def trade_part_def)

lemma trades_send_map [simp]: "trades_of (send_map m to b w) = trades_of w"
  by (auto simp: trades_of_def send_map_def send_def trade_part_def fun_eq_iff split: option.split)

lemma trades_Emote: "Emote env e echo p w = Inr w' \<Longrightarrow> trades_of w' = trades_of w"
  by (auto simp: Emote_def bind_out_Inr_iff Let_def)

lemmas trade_views = trades_of_def send_to_def alter_def send_def trade_part_def stop_trading_def

lemma trades_keep: "w p = Some c \<Longrightarrow> trade_part c' = trade_part c \<Longrightarrow> trades_of (w(p \<mapsto> c')) = trades_of w"
  by (auto simp: trades_of_def fun_eq_iff)

lemma trades_rules: "quiet env \<Longrightarrow> rules_on env p w = Inr w' \<Longrightarrow> trades_of w' = trades_of w"
  by (auto simp: rules_on_Inr dest!: quiet_rules trade_part_same intro!: trades_keep)

lemma trades_hand_items: "quiet env \<Longrightarrow> hand_items env g t ts w = Inr w' \<Longrightarrow> trades_of w' = trades_of w"
proof (induction ts arbitrary: w)
  case (Cons x ts)
  obtain b w1 b' w2 where s: "run_on g (DelItem env (item_id x) (item_amount x)) w = Inr (b, w1)"
    "run_on t (AddItem env (item_id x) (item_amount x)) w1 = Inr (b', w2)" "hand_items env g t ts w2 = Inr w'"
    using Cons.prems(2) by (auto simp: bind_out_Inr_iff)
  have "trades_of w1 = trades_of w"
    using s(1) Cons.prems(1) by (auto simp: run_on_Inr dest!: trade_part_DelItem intro!: trades_keep)
  moreover have "trades_of w2 = trades_of w1"
    using s(2) Cons.prems(1) by (auto simp: run_on_Inr dest!: trade_part_AddItem intro!: trades_keep)
  ultimately show ?case using Cons.IH [OF Cons.prems(1) s(3)] by simp
qed simp

section \<open>Trading pairs\<close>

text \<open>
  Two traders point at each other and both trade; one who does not trade offers nothing, and nobody's
  partner is himself.
\<close>

definition trader_ok :: "trades \<Rightarrow> nat \<Rightarrow> bool" where
  "trader_ok t p \<longleftrightarrow>
     (\<forall>trad partner agree offer. t p = Some (trad, partner, agree, offer) \<longrightarrow>
        partner \<noteq> Some p \<and> (\<not> trad \<longrightarrow> offer = []) \<and>
        (trad \<longrightarrow> (\<exists>q agree' offer'. partner = Some q \<and> t q = Some (True, Some p, agree', offer'))))"

definition trades_ok :: "trades \<Rightarrow> bool" where
  "trades_ok t \<longleftrightarrow> (\<forall>p. trader_ok t p)"

lemma trader_okI:
  "t p = None \<Longrightarrow> trader_ok t p"
  "t p = Some (False, partner, agree, []) \<Longrightarrow> partner \<noteq> Some p \<Longrightarrow> trader_ok t p"
  "t p = Some (True, Some q, agree, offer) \<Longrightarrow> q \<noteq> p \<Longrightarrow> t q = Some (True, Some p, agree', offer') \<Longrightarrow> trader_ok t p"
  by (simp_all add: trader_ok_def)

lemma trades_okD:
  assumes "trades_ok t" "t p = Some (True, partner, agree, offer)"
  obtains q agree' offer' where "partner = Some q" "q \<noteq> p" "t q = Some (True, Some p, agree', offer')"
proof -
  have "trader_ok t p" using assms(1) by (simp add: trades_ok_def)
  with assms(2) obtain q agree' offer' where "partner = Some q" "partner \<noteq> Some p" "t q = Some (True, Some p, agree', offer')"
    unfolding trader_ok_def by blast
  then show thesis using that by blast
qed

lemma trades_ok_offer: "trades_ok t \<Longrightarrow> t p = Some (False, partner, agree, offer) \<Longrightarrow> offer = [] \<and> partner \<noteq> Some p"
  unfolding trades_ok_def trader_ok_def by blast

lemma ok_change:
  assumes ok: "trades_ok t" and same: "\<And>r. r \<notin> S \<Longrightarrow> t' r = t r"
    and out: "\<And>r q b os. r \<notin> S \<Longrightarrow> t r = Some (True, Some q, b, os) \<Longrightarrow> q \<notin> S"
    and new: "\<And>r. r \<in> S \<Longrightarrow> trader_ok t' r"
  shows "trades_ok t'"
  unfolding trades_ok_def
proof
  fix r
  show "trader_ok t' r"
  proof (cases "r \<in> S")
    case False
    then have r: "t' r = t r" by (rule same)
    show ?thesis
    proof (cases "t r")
      case None
      then show ?thesis using r trader_okI(1) by simp
    next
      case (Some x)
      then obtain trad partner agree offer where x: "t r = Some (trad, partner, agree, offer)" by (cases x) auto
      show ?thesis
      proof (cases trad)
        case True
        then have xT: "t r = Some (True, partner, agree, offer)" using x by simp
        obtain q b os where q: "partner = Some q" "q \<noteq> r" "t q = Some (True, Some r, b, os)"
          using trades_okD [OF ok xT] by blast
        then have "q \<notin> S" using out [OF False, of q] xT by simp
        then have "t' q = t q" by (rule same)
        then show ?thesis using trader_okI(3) [of t' r q] r x q True by simp
      next
        case False
        then show ?thesis using trader_okI(2) [of t' r] trades_ok_offer [OF ok, of r] x r by simp
      qed
    qed
  qed (rule new)
qed

text \<open>The steps the trading state can take.\<close>

lemma not_partner:
  assumes "trades_ok t" "t p = Some (False, a, b, os)"
  shows "t r \<noteq> Some (True, Some p, b', os')"
proof
  assume "t r = Some (True, Some p, b', os')"
  from trades_okD [OF assms(1) this] obtain c os'' where "t p = Some (True, Some r, c, os'')" by blast
  then show False using assms(2) by simp
qed

lemma only_partner:
  assumes "trades_ok t" "t p = Some (True, Some q, b, os)" "t r = Some (True, Some p, b', os')"
  shows "r = q"
proof -
  from trades_okD [OF assms(1,3)] obtain c os'' where "t p = Some (True, Some r, c, os'')" by blast
  then show ?thesis using assms(2) by simp
qed

lemma ok_join:
  assumes ok: "trades_ok t" and p: "t p = Some (False, a, b, os)" and q: "t q = Some (False, Some p, b', os')"
  shows "trades_ok (t(p \<mapsto> (True, Some q, False, os), q \<mapsto> (True, Some p, False, os')))" (is "trades_ok ?t")
proof (rule ok_change [OF ok, of "{p, q}"])
  have pq: "p \<noteq> q" using trades_ok_offer [OF ok q] by auto
  have "trader_ok ?t p" by (rule trader_okI(3) [of ?t p q False os False os']) (use pq in auto)
  moreover have "trader_ok ?t q" by (rule trader_okI(3) [of ?t q p False os' False os]) (use pq in auto)
  ultimately show "trader_ok ?t r" if "r \<in> {p, q}" for r using that by blast
  show "z \<notin> {p, q}" if "t r = Some (True, Some z, c, os)" for r z c os
    using that not_partner [OF ok p] not_partner [OF ok q] by blast
qed simp

lemma ok_part:
  assumes ok: "trades_ok t" and p: "t p = Some (True, Some q, b, os)"
  shows "trades_ok (t(p \<mapsto> (False, None, b1, []), q \<mapsto> (False, None, b2, [])))" (is "trades_ok ?t")
proof -
  obtain b' os' where q: "t q = Some (True, Some p, b', os')" "q \<noteq> p" using trades_okD [OF ok p] by blast
  show ?thesis
  proof (rule ok_change [OF ok, of "{p, q}"])
    have "trader_ok ?t p" by (rule trader_okI(2) [of ?t p None b1]) (use q(2) in auto)
    moreover have "trader_ok ?t q" by (rule trader_okI(2) [of ?t q None b2]) (use q(2) in auto)
    ultimately show "trader_ok ?t r" if "r \<in> {p, q}" for r using that by blast
    show "z \<notin> {p, q}" if "r \<notin> {p, q}" "t r = Some (True, Some z, c, os)" for r z c os
      using that only_partner [OF ok p] only_partner [OF ok q(1)] by blast
  qed simp
qed

lemma ok_request:
  assumes ok: "trades_ok t" and p: "t p = Some (False, a, b, os)" and q: "q \<noteq> p"
  shows "trades_ok (t(p \<mapsto> (False, Some q, b, os)))" (is "trades_ok ?t")
proof (rule ok_change [OF ok, of "{p}"])
  show "trader_ok ?t r" if "r \<in> {p}" for r
    using that trader_okI(2) [of ?t p "Some q" b] q trades_ok_offer [OF ok p] by simp
  show "z \<notin> {p}" if "t r = Some (True, Some z, c, os)" for r z c os using that not_partner [OF ok p] by blast
qed simp

lemma ok_leave:
  assumes ok: "trades_ok t" and p: "t p = Some (False, a, b, os)"
  shows "trades_ok (t(p := None))"
proof (rule ok_change [OF ok, of "{p}"])
  show "trader_ok (t(p := None)) r" if "r \<in> {p}" for r using that trader_okI(1) [of "t(p := None)" p] by simp
  show "z \<notin> {p}" if "t r = Some (True, Some z, c, os)" for r z c os using that not_partner [OF ok p] by blast
qed simp

lemma ok_arrive:
  assumes ok: "trades_ok t" and p: "t p = None"
  shows "trades_ok (t(p \<mapsto> (False, None, b, [])))" (is "trades_ok ?t")
proof (rule ok_change [OF ok, of "{p}"])
  show "trader_ok ?t r" if "r \<in> {p}" for r using that trader_okI(2) [of ?t p None b] by simp
  show "z \<notin> {p}" if z: "t r = Some (True, Some z, c, os)" for r z c os
  proof -
    obtain c' os' where "t z = Some (True, Some r, c', os')" using trades_okD [OF ok z] by blast
    then show ?thesis using p by auto
  qed
qed simp

lemma ok_offer:
  assumes ok: "trades_ok t" and p: "t p = Some (True, a, b, os)"
  shows "trades_ok (t(p \<mapsto> (True, a, b1, os1)))" (is "trades_ok ?t")
proof -
  obtain q b' os' where q: "a = Some q" "q \<noteq> p" "t q = Some (True, Some p, b', os')" using trades_okD [OF ok p] by blast
  have p': "t p = Some (True, Some q, b, os)" using p q(1) by simp
  show ?thesis
  proof (rule ok_change [OF ok, of "{p, q}"])
    have "trader_ok ?t p" by (rule trader_okI(3) [of ?t p q b1 os1 b' os']) (use q in auto)
    moreover have "trader_ok ?t q" by (rule trader_okI(3) [of ?t q p b' os' b1 os1]) (use q in auto)
    ultimately show "trader_ok ?t r" if "r \<in> {p, q}" for r using that by blast
    show "z \<notin> {p, q}" if "r \<notin> {p, q}" "t r = Some (True, Some z, c, os)" for r z c os
      using that only_partner [OF ok p'] only_partner [OF ok q(3)] by blast
  qed simp
qed

section \<open>Every handler keeps the pairs\<close>

lemma trades_view: "w p = Some c \<Longrightarrow> trades_of w p = Some (trading c, trade_partner c, trade_agree c, trade_inventory c)"
  by (simp add: trades_of_def trade_part_def)

lemma request_keeps:
  assumes ok: "trades_ok (trades_of w)" and step: "Trade_Request env p r w = Inr w'"
  shows "trades_ok (trades_of w')"
proof -
  obtain c where c: "w p = Some c" using step by (auto simp: Trade_Request_def bind_out_Inr_iff)
  have "w' = w \<or> (\<exists>q b. \<not> trading c \<and> q \<noteq> p \<and> w' = alter p (\<lambda>c. c\<lparr>trade_partner := Some q\<rparr>) (send_to q b w))"
    using step by (auto simp: Trade_Request_def c bind_out_Inr_iff Let_def may_trade_def split: if_splits option.splits)
  then show ?thesis
  proof (elim disjE exE conjE)
    fix q b assume q: "\<not> trading c" "q \<noteq> p" "w' = alter p (\<lambda>c. c\<lparr>trade_partner := Some q\<rparr>) (send_to q b w)"
    have "trades_of w' = (trades_of w)(p \<mapsto> (False, Some q, trade_agree c, trade_inventory c))"
      using q(1,2) c by (cases "w q") (auto simp: fun_eq_iff q(3) trade_views)
    then show ?thesis
      using ok_request [OF ok, of p _ _ _ q] trades_view [of w p c] c q by simp
  qed (use ok in simp)
qed

lemma accept_keeps:
  assumes ok: "trades_ok (trades_of w)" and step: "Trade_Accept env p r w = Inr w'"
  shows "trades_ok (trades_of w')"
proof -
  obtain c where c: "w p = Some c" using step by (auto simp: Trade_Accept_def bind_out_Inr_iff)
  have "w' = w \<or> (\<exists>q d. \<not> trading c \<and> w q = Some d \<and> trade_partner d = Some p \<and> \<not> trading d \<and>
      w' = alter q (\<lambda>d. d\<lparr>trading := True, trade_agree := False\<rparr>)
             (alter p (\<lambda>c. c\<lparr>trade_partner := Some q, trading := True, trade_agree := False\<rparr>)
               (send_to q (open_packet p c q d) (send_to p (open_packet q d p c) w))))"
    using step by (fastforce simp: Trade_Accept_def c bind_out_Inr_iff Let_def may_trade_def split: if_splits option.splits)
  then show ?thesis
  proof (elim disjE exE conjE)
    fix q d assume q: "\<not> trading c" "w q = Some d" "trade_partner d = Some p" "\<not> trading d"
      "w' = alter q (\<lambda>d. d\<lparr>trading := True, trade_agree := False\<rparr>)
             (alter p (\<lambda>c. c\<lparr>trade_partner := Some q, trading := True, trade_agree := False\<rparr>)
               (send_to q (open_packet p c q d) (send_to p (open_packet q d p c) w)))"
    have p: "trades_of w p = Some (False, trade_partner c, trade_agree c, trade_inventory c)"
      and v: "trades_of w q = Some (False, Some p, trade_agree d, trade_inventory d)"
      using trades_view [of w p c] trades_view [of w q d] c q(1-4) by simp_all
    have "q \<noteq> p" using trades_ok_offer [OF ok v] by auto
    then have "trades_of w' = (trades_of w)(p \<mapsto> (True, Some q, False, trade_inventory c), q \<mapsto> (True, Some p, False, trade_inventory d))"
      using q(2,3) c by (auto simp: fun_eq_iff q(5) trade_views)
    then show ?thesis using ok_join [OF ok p v] by simp
  qed (use ok in simp)
qed

lemma the_partner_ok:
  assumes "trades_ok (trades_of w)" "w p = Some c" "trading c"
  obtains q d where "the_partner w p = Inr q" "q \<noteq> p" "trade_partner c = Some q" "w q = Some d" "trading d"
    "trade_partner d = Some p"
proof -
  have "trades_of w p = Some (True, trade_partner c, trade_agree c, trade_inventory c)"
    using trades_view [of w p c] assms(2) assms(3) by simp
  then obtain q b os where q: "trade_partner c = Some q" "q \<noteq> p" "trades_of w q = Some (True, Some p, b, os)"
    using trades_okD [OF assms(1)] by blast
  then obtain d where "w q = Some d" "trading d" "trade_partner d = Some p"
    by (auto simp: trades_of_def trade_part_def)
  then show thesis using that q assms(2) by (auto simp: the_partner_def player_at)
qed

lemma show_offers_keeps:
  assumes ok: "trades_ok (trades_of w)" and p: "w p = Some c" "trading c" and step: "show_offers p w = Inr w'"
  shows "trades_ok (trades_of w')"
proof -
  obtain q d where q: "the_partner w p = Inr q" "q \<noteq> p" "trade_partner c = Some q" "w q = Some d" "trading d"
    "trade_partner d = Some p"
    using the_partner_ok [OF ok p] .
  obtain b b' where w': "w' = alter q (\<lambda>d. d\<lparr>trade_agree := False\<rparr>) (alter p (\<lambda>c. c\<lparr>trade_agree := False\<rparr>)
      (send_to q b (send_to p b' w)))"
    using step q p by (auto simp: show_offers_def Let_def player_at)
  have v: "trades_of w p = Some (True, Some q, trade_agree c, trade_inventory c)"
    "trades_of w q = Some (True, Some p, trade_agree d, trade_inventory d)"
    using trades_view [of w p c] trades_view [of w q d] p q by simp_all
  have "trades_of w' = (trades_of w)(p \<mapsto> (True, Some q, False, trade_inventory c), q \<mapsto> (True, Some p, False, trade_inventory d))"
    using q p by (auto simp: fun_eq_iff w' trade_views)
  then show ?thesis using ok_offer [OF ok_offer [OF ok v(1)], where p = q] v(2) q(2) by simp
qed

lemma run_on_offer_keeps:
  assumes ok: "trades_ok (trades_of w)" and p: "w p = Some c" "trading c" and step: "run_on p op w = Inr (b, w')"
    and op: "\<And>b c'. op c = Inr (b, c') \<Longrightarrow> trading c' \<and> trade_partner c' = trade_partner c"
  shows "trades_ok (trades_of w') \<and> (\<exists>c'. w' p = Some c' \<and> trading c')"
proof -
  obtain c' where c': "op c = Inr (b, c')" "w' = w(p \<mapsto> c')" using step p by (auto simp: run_on_Inr)
  have "trades_of w' = (trades_of w)(p \<mapsto> (True, trade_partner c, trade_agree c', trade_inventory c'))"
    using op [OF c'(1)] by (simp add: c'(2) trades_update trade_part_def)
  then show ?thesis using ok_offer [OF ok, of p] trades_view [of w p c] p op [OF c'(1)] c'(2) by simp
qed

lemma AddTradeItem_trading:
  "quiet env \<Longrightarrow> AddTradeItem env i n c = Inr (b, c') \<Longrightarrow> trading c' = trading c \<and> trade_partner c' = trade_partner c"
  by (auto simp: AddTradeItem_def Let_def bind_out_Inr_iff dest!: quiet_rules
      simp: same_but_statsD split: if_splits option.splits)

lemma DelTradeItem_trading:
  "quiet env \<Longrightarrow> DelTradeItem env i c = Inr (b, c') \<Longrightarrow> trading c' = trading c \<and> trade_partner c' = trade_partner c"
  by (auto simp: DelTradeItem_def bind_out_Inr_iff dest!: quiet_rules simp: same_but_statsD split: option.splits)

lemma remove_keeps:
  assumes quiet: "quiet env" and ok: "trades_ok (trades_of w)" and step: "Trade_Remove env p r w = Inr w'"
  shows "trades_ok (trades_of w')"
proof -
  obtain c where c: "w p = Some c" using step by (auto simp: Trade_Remove_def bind_out_Inr_iff)
  consider "w' = w" | i b w1 where "trading c" "run_on p (DelTradeItem env i) w = Inr (b, w1)" "w' = w1 \<or> show_offers p w1 = Inr w'"
    using step by (auto simp: Trade_Remove_def c bind_out_Inr_iff split: if_splits)
  then show ?thesis
  proof cases
    case (2 i b w1)
    have k: "trades_ok (trades_of w1) \<and> (\<exists>c'. w1 p = Some c' \<and> trading c')"
      by (rule run_on_offer_keeps [OF ok c 2(1,2)]) (use DelTradeItem_trading [OF quiet] 2(1) in blast)
    then show ?thesis using 2(3) show_offers_keeps by blast
  qed (use ok in simp)
qed

lemma add_keeps:
  assumes quiet: "quiet env" and ok: "trades_ok (trades_of w)" and step: "Trade_Add env p r w = Inr w'"
  shows "trades_ok (trades_of w')"
proof -
  obtain c where c: "w p = Some c" using step by (auto simp: Trade_Add_def bind_out_Inr_iff)
  consider "w' = w" | i n b w1 where "trading c" "run_on p (AddTradeItem env i n) w = Inr (b, w1)" "w' = w1 \<or> show_offers p w1 = Inr w'"
    using step by (auto simp: Trade_Add_def c bind_out_Inr_iff split: if_splits)
  then show ?thesis
  proof cases
    case (2 i n b w1)
    have k: "trades_ok (trades_of w1) \<and> (\<exists>c'. w1 p = Some c' \<and> trading c')"
      by (rule run_on_offer_keeps [OF ok c 2(1,2)]) (use AddTradeItem_trading [OF quiet] 2(1) in blast)
    then show ?thesis using 2(3) show_offers_keeps by blast
  qed (use ok in simp)
qed

lemma trades_alter: "(\<And>c. trade_part (f c) = g (trade_part c)) \<Longrightarrow>
    trades_of (alter p f w) = (trades_of w)(p := map_option g (trades_of w p))"
  by (rule ext, cases "w p") (auto simp: trades_of_def alter_def)

lemma trades_stop: "trades_of (alter p stop_trading w) =
    (trades_of w)(p := map_option (\<lambda>(_, b, c, _). (False, b, c, [])) (trades_of w p))"
  by (rule trades_alter) (simp add: trade_part_def stop_trading_def)

lemma trades_stop_disagree: "trades_of (alter p (\<lambda>c. (stop_trading c)\<lparr>trade_agree := False\<rparr>) w) =
    (trades_of w)(p := map_option (\<lambda>(_, b, _, _). (False, b, False, [])) (trades_of w p))"
  by (rule trades_alter) (simp add: trade_part_def stop_trading_def)

lemma trades_agree: "trades_of (alter p (\<lambda>c. c\<lparr>trade_agree := x\<rparr>) w) =
    (trades_of w)(p := map_option (\<lambda>(a, b, _, d). (a, b, x, d)) (trades_of w p))"
  by (rule trades_alter) (simp add: trade_part_def)

lemma trades_no_partner: "trades_of (alter p (\<lambda>c. c\<lparr>trade_partner := None\<rparr>) w) =
    (trades_of w)(p := map_option (\<lambda>(a, _, c, d). (a, None, c, d)) (trades_of w p))"
  by (rule trades_alter) (simp add: trade_part_def)

lemmas trades_simps = trades_stop trades_stop_disagree trades_agree trades_no_partner

lemma exchange_trades:
  assumes quiet: "quiet env" and pq: "p \<noteq> q" and step: "exchange env p q w = Inr w'"
    and p: "trades_of w p = Some (a, b, c, d)" and q: "trades_of w q = Some (a', b', c', d')"
  shows "trades_of w' = (trades_of w)(p \<mapsto> (False, None, False, []), q \<mapsto> (False, None, c', []))"
proof -
  define b where "b ours theirs = AddByte 255 (add_item_list ours (AddShort (pid_short p)
     (AddByte 255 (add_item_list theirs (AddShort (pid_short q) (PacketBuilder_new PACKET_TRADE PACKET_USE))))))"
    for ours theirs
  obtain ours theirs w1 w2 w3 w4 w5 w6 where s: "hand_items env q p theirs w = Inr w1" "hand_items env p q ours w1 = Inr w2"
    "Emote env EMOTE_TRADE True p (send_to q (b ours theirs) (send_to p (b ours theirs) w2)) = Inr w3"
    "Emote env EMOTE_TRADE True q w3 = Inr w4"
    "rules_on env p (alter p (\<lambda>c. (stop_trading c)\<lparr>trade_agree := False\<rparr>) w4) = Inr w5" "rules_on env q w5 = Inr w6"
    "w' = alter p (\<lambda>c. c\<lparr>trade_partner := None\<rparr>) (alter q (\<lambda>d. d\<lparr>trade_partner := None\<rparr>)
       (alter p (\<lambda>c. c\<lparr>trade_agree := False\<rparr>) (alter q stop_trading w6)))"
    using step unfolding exchange_def Let_def bind_out_Inr_iff b_def [symmetric] sum.inject by blast
  have t4: "trades_of w4 = trades_of w"
    using trades_hand_items [OF quiet s(1)] trades_hand_items [OF quiet s(2)] trades_Emote [OF s(3)] trades_Emote [OF s(4)]
    by simp
  have t6: "trades_of w6 = trades_of (alter p (\<lambda>c. (stop_trading c)\<lparr>trade_agree := False\<rparr>) w4)"
    using trades_rules [OF quiet s(5)] trades_rules [OF quiet s(6)] by simp
  show ?thesis
    using p q pq by (auto simp: s(7) trades_simps t6 t4 fun_eq_iff)
qed

lemma close_trades:
  assumes quiet: "quiet env" and ok: "trades_ok (trades_of w)" and c: "w p = Some c" "trading c"
    and step: "close_trade env p w = Inr w'"
  shows "\<exists>q x. trade_partner c = Some q \<and>
    trades_of w' = (trades_of w)(p \<mapsto> (False, None, False, []), q \<mapsto> (False, None, x, []))"
proof -
  obtain q d where q: "the_partner w p = Inr q" "q \<noteq> p" "trade_partner c = Some q" "w q = Some d" "trading d"
    "trade_partner d = Some p"
    using the_partner_ok [OF ok c] .
  define b where "b = AddShort (pid_short p) (PacketBuilder_new PACKET_TRADE PACKET_CLOSE)"
  obtain w5 w6 where s:
    "rules_on env p (alter p (\<lambda>c. c\<lparr>trade_agree := False\<rparr>) (alter q stop_trading
       (alter p (\<lambda>c. (stop_trading c)\<lparr>trade_agree := False\<rparr>) (send_to q b w)))) = Inr w5" "rules_on env q w5 = Inr w6"
    "w' = alter p (\<lambda>c. c\<lparr>trade_partner := None\<rparr>) (alter q (\<lambda>d. d\<lparr>trade_partner := None\<rparr>) w6)"
    using step unfolding close_trade_def q(1) Let_def bind_out.simps bind_out_Inr_iff b_def [symmetric] sum.inject by blast
  have v: "trades_of w p = Some (True, Some q, trade_agree c, trade_inventory c)"
    "trades_of w q = Some (True, Some p, trade_agree d, trade_inventory d)"
    using trades_view [of w p c] trades_view [of w q d] c q by simp_all
  have "trades_of w' = (trades_of w)(p \<mapsto> (False, None, False, []), q \<mapsto> (False, None, trade_agree d, []))"
    using trades_rules [OF quiet s(1)] trades_rules [OF quiet s(2)] v q(2) by (auto simp: s(3) trades_simps fun_eq_iff)
  then show ?thesis using q(3) by blast
qed

lemma close_keeps:
  assumes "quiet env" "trades_ok (trades_of w)" "w p = Some c" "trading c" "close_trade env p w = Inr w'"
  shows "trades_ok (trades_of w')"
proof -
  obtain q x where q: "trade_partner c = Some q"
      "trades_of w' = (trades_of w)(p \<mapsto> (False, None, False, []), q \<mapsto> (False, None, x, []))"
    using close_trades [OF assms] by blast
  have "trades_of w p = Some (True, Some q, trade_agree c, trade_inventory c)"
    using trades_view [of w p c] assms(3,4) q(1) by simp
  from ok_part [OF assms(2) this] show ?thesis by (simp add: q(2))
qed

lemma agree_keeps:
  assumes quiet: "quiet env" and ok: "trades_ok (trades_of w)" and step: "Trade_Agree env p r w = Inr w'"
  shows "trades_ok (trades_of w')"
proof -
  obtain c where c: "w p = Some c" using step by (auto simp: Trade_Agree_def bind_out_Inr_iff)
  show ?thesis
  proof (cases "trading c")
    case True
    obtain agree r' where r: "GetChar r = Inr (agree, r')"
      using step True by (auto simp: Trade_Agree_def c player_at bind_out_Inr_iff)
    define w1 where "w1 = alter p (\<lambda>c. c\<lparr>trade_agree := (agree \<noteq> 0)\<rparr>) w"
    have v: "trades_of w p = Some (True, trade_partner c, trade_agree c, trade_inventory c)"
      using trades_view [of w p c] c True by simp
    have ok1: "trades_ok (trades_of w1)" and v1: "trades_of w1 p = Some (True, trade_partner c, agree \<noteq> 0, trade_inventory c)"
      using ok_offer [OF ok v] by (simp_all add: w1_def trades_agree v)
    consider "w' = w1" | q b where "w' = agree_reply p q b w1"
      | q where "the_partner w1 p = Inr q" "exchange env p q w1 = Inr w'"
    proof -
      have "(if agree \<noteq> 0 \<and> trade_inventory c = [] then Inr w1
         else bind_out (the_partner w1 p) (\<lambda>q. bind_out (player w1 q) (\<lambda>d.
             if agree \<noteq> 0 \<and> trade_agree d then exchange env p q w1 else Inr (agree_reply p q agree w1)))) = Inr w'"
        using step True unfolding w1_def
        by (simp add: Trade_Agree_def c player_at r Let_def cong: if_weak_cong split del: if_split)
      then show thesis using that
        by (cases "agree \<noteq> 0 \<and> trade_inventory c = []") (auto simp: bind_out_Inr_iff split: if_splits)
    qed
    then show ?thesis
    proof cases
      case (3 q)
      have "w1 p = Some (c\<lparr>trade_agree := (agree \<noteq> 0)\<rparr>)" by (simp add: w1_def c)
      then have q: "trade_partner c = Some q"
        using 3(1) by (simp add: the_partner_def player_at bind_out_Inr_iff split: option.splits)
      obtain b os where vq: "trades_of w1 q = Some (True, Some p, b, os)" "q \<noteq> p"
        by (rule trades_okD [OF ok1 v1]) (use q in auto)
      have "trades_of w' = (trades_of w1)(p \<mapsto> (False, None, False, []), q \<mapsto> (False, None, b, []))"
        by (rule exchange_trades [OF quiet _ 3(2) v1 vq(1)]) (use vq(2) in simp)
      then show ?thesis using ok_part [OF ok1, of p q] v1 q by simp
    qed (use ok1 in \<open>simp_all add: agree_reply_def\<close>)
  qed (use step ok in \<open>simp add: Trade_Agree_def c player_at\<close>)
qed

section \<open>Reachable worlds\<close>

text \<open>
  The worlds that logins, logouts, warps, the handlers of trades and every other change that leaves the
  trades alone can lead to.
\<close>

definition log_out :: "world_env \<Rightarrow> nat \<Rightarrow> players \<Rightarrow> players outcome" where
  "log_out env p w = bind_out (warp_trade env p w) (\<lambda>w. Inr (w(p := None)))"

inductive trade_reachable :: "world_env \<Rightarrow> players \<Rightarrow> bool" for env where
  start: "trade_reachable env (\<lambda>_. None)"
| log_in: "trade_reachable env w \<Longrightarrow> w p = None \<Longrightarrow> trade_part c = (False, None, False, []) \<Longrightarrow> trade_reachable env (w(p \<mapsto> c))"
| other: "trade_reachable env w \<Longrightarrow> w p = Some c \<Longrightarrow> trade_part c' = trade_part c \<Longrightarrow> trade_reachable env (w(p \<mapsto> c'))"
| trade: "trade_reachable env w \<Longrightarrow> trade_handler a env p r w = Inr w' \<Longrightarrow> trade_reachable env w'"
| warp: "trade_reachable env w \<Longrightarrow> warp_trade env p w = Inr w' \<Longrightarrow> trade_reachable env w'"
| logout: "trade_reachable env w \<Longrightarrow> log_out env p w = Inr w' \<Longrightarrow> trade_reachable env w'"

lemma warp_keeps:
  assumes "quiet env" "trades_ok (trades_of w)" "warp_trade env p w = Inr w'"
  shows "trades_ok (trades_of w') \<and> (\<exists>c. w' p = Some c \<and> \<not> trading c)"
proof -
  obtain c where c: "w p = Some c" using assms(3) by (auto simp: warp_trade_def bind_out_Inr_iff)
  show ?thesis
  proof (cases "trading c")
    case True
    then have step: "close_trade env p w = Inr w'" using assms(3) c by (simp add: warp_trade_def player_at)
    obtain q x where q: "trade_partner c = Some q"
        "trades_of w' = (trades_of w)(p \<mapsto> (False, None, False, []), q \<mapsto> (False, None, x, []))"
      using close_trades [OF assms(1,2) c True step] by blast
    obtain y where "trades_of w' p = Some (False, None, y, [])" by (cases "p = q") (simp_all add: q(2))
    then have "\<exists>c. w' p = Some c \<and> \<not> trading c" by (auto simp: trades_of_def trade_part_def)
    then show ?thesis using close_keeps [OF assms(1,2) c True step] by blast
  qed (use assms c in \<open>simp add: warp_trade_def player_at\<close>)
qed

lemma reachable_trades_ok:
  assumes quiet: "quiet env"
  shows "trade_reachable env w \<Longrightarrow> trades_ok (trades_of w)"
proof (induction rule: trade_reachable.induct)
  case start
  then show ?case by (simp add: trades_ok_def trader_ok_def trades_of_def)
next
  case (log_in w p c)
  have "trades_of w p = None" using log_in.hyps(2) by (simp add: trades_of_def)
  from ok_arrive [OF log_in.IH this, of False] show ?case unfolding trades_update log_in.hyps(3) .
next
  case (other w p c c')
  then have "trades_of (w(p \<mapsto> c')) = trades_of w" by (intro trades_keep)
  then show ?case using other.IH by (simp only:)
next
  case (trade w a p r w')
  then show ?case
  proof (cases a)
    case Close_Trade
    obtain c where c: "w p = Some c" using trade.hyps(2) by (auto simp: Close_Trade Trade_Close_def bind_out_Inr_iff)
    then have "w' = w \<or> trading c \<and> close_trade env p w = Inr w'"
      using trade.hyps(2) by (auto simp: Close_Trade Trade_Close_def bind_out_Inr_iff split: if_splits)
    then show ?thesis using close_keeps [OF quiet trade.IH c] trade.IH by blast
  next
    case Request
    then show ?thesis using request_keeps [OF trade.IH] trade.hyps(2) by simp
  next
    case Accept
    then show ?thesis using accept_keeps [OF trade.IH] trade.hyps(2) by simp
  next
    case Remove
    then show ?thesis using remove_keeps [OF quiet trade.IH] trade.hyps(2) by simp
  next
    case Agree
    then show ?thesis using agree_keeps [OF quiet trade.IH] trade.hyps(2) by simp
  next
    case Add
    then show ?thesis using add_keeps [OF quiet trade.IH] trade.hyps(2) by simp
  qed
next
  case (warp w p w')
  then show ?case using warp_keeps [OF quiet] by blast
next
  case (logout w p w')
  then obtain w1 where w1: "warp_trade env p w = Inr w1" "w' = w1(p := None)" by (auto simp: log_out_def bind_out_Inr_iff)
  obtain c where c: "trades_ok (trades_of w1)" "w1 p = Some c" "\<not> trading c"
    using warp_keeps [OF quiet logout.IH w1(1)] by blast
  have "trades_of w' = (trades_of w1)(p := None)" by (auto simp: w1(2) trades_of_def)
  moreover have "trades_ok ((trades_of w1)(p := None))"
    using ok_leave [OF c(1), of p] trades_view [of w1 p c] c by simp
  ultimately show ?case by (simp only:)
qed

section \<open>The exchange\<close>

definition entries :: "item list \<Rightarrow> (int \<times> int) list" where
  "entries ts = map (\<lambda>t. (item_id t, item_amount t)) ts"

lemma map_of_entries: "(case map_of (entries ts) i of None \<Rightarrow> 0 | Some n \<Rightarrow> n) = amount_in ts i"
  by (induction ts) (auto simp: entries_def amount_in_def)

lemma calm_quiet: "calm env \<Longrightarrow> quiet env"
  unfolding calm_def quiet_def by (metis sum.inject(2))

text \<open>Between two different characters the loop of the exchange is the hand-over of the store interface.\<close>

lemma hand_items_hand_over:
  assumes calm: "calm env" and gt: "g \<noteq> t"
  shows "w g = Some a \<Longrightarrow> w t = Some b \<Longrightarrow>
   hand_items env g t ts w =
   bind_out (item_store.hand_over (AddItem env) (DelItem env) (entries ts) (a, b)) (\<lambda>(a', b'). Inr (w(g \<mapsto> a', t \<mapsto> b')))"
proof (induction ts arbitrary: w a b)
  case Nil
  then have "w(g \<mapsto> a, t \<mapsto> b) = w" by (auto simp: fun_eq_iff)
  then show ?case
    by (simp add: entries_def item_store.hand_over.simps [OF inventory_env.store [OF inventory_env.intro [OF calm]]]
        del: fun_upd_apply)
next
  case (Cons x ts)
  note step = item_store.hand_over.simps(2) [OF inventory_env.store [OF inventory_env.intro [OF calm]]]
  show ?case
  proof (cases "DelItem env (item_id x) (item_amount x) a")
    case (Inl e)
    then show ?thesis using Cons.prems by (simp add: entries_def step run_on_def player_at)
  next
    case (Inr r)
    then obtain z a1 where d: "DelItem env (item_id x) (item_amount x) a = Inr (z, a1)" by (cases r) auto
    have wt: "(w(g \<mapsto> a1)) t = Some b" using Cons.prems gt by simp
    show ?thesis
    proof (cases "AddItem env (item_id x) (item_amount x) b")
      case (Inl e)
      then show ?thesis using Cons.prems wt d by (simp add: entries_def step run_on_def player_at)
    next
      case (Inr r)
      then obtain y b1 where i: "AddItem env (item_id x) (item_amount x) b = Inr (y, b1)" by (cases r) auto
      let ?w = "w(g \<mapsto> a1, t \<mapsto> b1)"
      have w: "?w g = Some a1" "?w t = Some b1" using gt by simp_all
      have upd: "?w(g \<mapsto> a', t \<mapsto> b') = w(g \<mapsto> a', t \<mapsto> b')" for a' b' using gt by (auto simp: fun_eq_iff)
      have "hand_items env g t (x # ts) w = hand_items env g t ts ?w"
        using Cons.prems(1) wt d i by (simp add: run_on_def player_at)
      also have "\<dots> = bind_out (item_store.hand_over (AddItem env) (DelItem env) (entries ts) (a1, b1))
          (\<lambda>(a', b'). Inr (w(g \<mapsto> a', t \<mapsto> b')))"
        unfolding Cons.IH [OF w] upd ..
      finally show ?thesis using d i by (simp add: entries_def step del: hand_items.simps fun_upd_apply)
    qed
  qed
qed

lemma hand_items_moves:
  assumes calm: "calm env" and gt: "g \<noteq> t" and w: "w g = Some a" "w t = Some b" and sane: "sane env a" "sane env b"
    and ids: "distinct (map item_id ts)"
    and fits: "\<forall>x \<in> set ts. holdable env (item_id x) (amount_in (inventory b) (item_id x) + item_amount x) \<and>
      0 < item_amount x \<and> item_amount x \<le> amount_in (inventory a) (item_id x) \<and>
      amount_in (inventory b) (item_id x) + item_amount x \<le> w_config env ''MaxItem''"
  shows "\<exists>a' b'. hand_items env g t ts w = Inr (w(g \<mapsto> a', t \<mapsto> b')) \<and> sane env a' \<and> sane env b' \<and>
    (\<forall>i. amount_in (inventory a') i = amount_in (inventory a) i - amount_in ts i) \<and>
    (\<forall>i. amount_in (inventory b') i = amount_in (inventory b) i + amount_in ts i)"
proof -
  have pos: "0 \<le> amount_in (inventory b) i" for i using amount_ok(1) sane(2) by (simp add: sane_def)
  obtain a' b' where "item_store.hand_over (AddItem env) (DelItem env) (entries ts) (a, b) = Inr (a', b')"
    "sane env a'" "sane env b'"
    "\<forall>i. amount_in (inventory a') i = amount_in (inventory a) i - (case map_of (entries ts) i of None \<Rightarrow> 0 | Some n \<Rightarrow> n)"
    "\<forall>i. amount_in (inventory b') i = amount_in (inventory b) i + (case map_of (entries ts) i of None \<Rightarrow> 0 | Some n \<Rightarrow> n)"
    using item_store.hand_over_moves [OF inventory_env.store [OF inventory_env.intro [OF calm]] sane, of "entries ts"]
      calm_MaxItem [OF calm] ids fits pos by (auto simp: entries_def o_def)
  moreover from this(1) have "hand_items env g t ts w = Inr (w(g \<mapsto> a', t \<mapsto> b'))"
    using hand_items_hand_over [OF calm gt w, of ts] by simp
  ultimately show ?thesis unfolding map_of_entries by blast
qed

text \<open>The steps of an exchange besides the hand-over keep every inventory.\<close>

definition bags_kept :: "world_env \<Rightarrow> players \<Rightarrow> players \<Rightarrow> bool" where
  "bags_kept env w w' \<longleftrightarrow>
     (\<forall>p c. w p = Some c \<longrightarrow> (\<exists>c'. w' p = Some c' \<and> inventory c' = inventory c \<and> (sane env c \<longrightarrow> sane env c')))"

lemma bags_kept_trans: "bags_kept env a b \<Longrightarrow> bags_kept env b c \<Longrightarrow> bags_kept env a c"
  unfolding bags_kept_def by metis

lemma bags_alter:
  "(\<And>c. inventory (f c) = inventory c \<and> ch_hp (f c) = ch_hp c) \<Longrightarrow> bags_kept env w (alter p f w)"
  by (auto simp: bags_kept_def alter_def sane_def)

lemma bags_send: "bags_kept env w (send_to p b w)"
  unfolding send_to_def by (rule bags_alter) (simp add: send_def)

lemma bags_Emote: "Emote env e echo p w = Inr w' \<Longrightarrow> bags_kept env w w'"
  by (auto simp: Emote_def bind_out_Inr_iff Let_def bags_kept_def send_map_def send_def sane_def)

lemma calm_rules_on:
  assumes calm: "calm env" and c: "w p = Some c"
  shows "\<exists>w'. rules_on env p w = Inr w' \<and> bags_kept env w w'"
proof -
  obtain c' where c': "w_rules env c = Inr c'" "same_but_stats c c'" "short_range (ch_hp c) \<longrightarrow> short_range (ch_hp c')"
    using calm_rules [OF calm] .
  have "sane env c \<longrightarrow> sane env c'" using sane_same [OF c'(2)] c'(3) by (auto simp: sane_def)
  then have "bags_kept env w (w(p \<mapsto> c'))"
    using c same_but_statsD(1) [OF c'(2)] by (auto simp: bags_kept_def)
  then show ?thesis using c c'(1) by (auto simp: rules_on_def player_at CheckQuestRules_def)
qed

lemma bags_Some: "bags_kept env w w' \<Longrightarrow> w p = Some c \<Longrightarrow> \<exists>c'. w' p = Some c'"
  unfolding bags_kept_def by blast

lemma Emote_returns: "w p = Some c \<Longrightarrow> \<exists>w'. Emote env e echo p w = Inr w' \<and> bags_kept env w w'"
  using bags_Emote [of env e echo p w] by (auto simp: Emote_def player_at Let_def)

lemma exchange_end:
  assumes calm: "calm env" and w: "w p = Some c" "w q = Some d"
  shows "\<exists>w3 w4 w5 w6. Emote env e True p w = Inr w3 \<and> Emote env e True q w3 = Inr w4 \<and>
    rules_on env p (alter p (\<lambda>c. (stop_trading c)\<lparr>trade_agree := False\<rparr>) w4) = Inr w5 \<and> rules_on env q w5 = Inr w6 \<and>
    bags_kept env w (alter p (\<lambda>c. c\<lparr>trade_partner := None\<rparr>) (alter q (\<lambda>d. d\<lparr>trade_partner := None\<rparr>)
       (alter p (\<lambda>c. c\<lparr>trade_agree := False\<rparr>) (alter q stop_trading w6))))"
proof -
  obtain w3 where w3: "Emote env e True p w = Inr w3" "bags_kept env w w3" using Emote_returns [of w p c] w(1) by blast
  then obtain c3 d3 where c3: "w3 p = Some c3" "w3 q = Some d3" using bags_Some [OF w3(2)] w by blast
  obtain w4 where w4: "Emote env e True q w3 = Inr w4" "bags_kept env w3 w4" using Emote_returns [of w3 q d3] c3 by blast
  let ?w = "alter p (\<lambda>c. (stop_trading c)\<lparr>trade_agree := False\<rparr>) w4"
  have k: "bags_kept env w4 ?w" by (rule bags_alter) (simp add: stop_trading_def)
  obtain c4 d4 where c4: "?w p = Some c4" "?w q = Some d4"
    using bags_Some [OF bags_kept_trans [OF w4(2) k]] c3 by blast
  obtain w5 where w5: "rules_on env p ?w = Inr w5" "bags_kept env ?w w5" using calm_rules_on [OF calm, of ?w p c4] c4(1) by blast
  obtain d5 where d5: "w5 q = Some d5" using bags_Some [OF w5(2)] c4 by blast
  obtain w6 where w6: "rules_on env q w5 = Inr w6" "bags_kept env w5 w6" using calm_rules_on [OF calm, of w5 q d5] d5 by blast
  have "bags_kept env w6 (alter p (\<lambda>c. c\<lparr>trade_partner := None\<rparr>) (alter q (\<lambda>d. d\<lparr>trade_partner := None\<rparr>)
       (alter p (\<lambda>c. c\<lparr>trade_agree := False\<rparr>) (alter q stop_trading w6))))"
    using bags_kept_trans [OF bags_kept_trans [OF bags_kept_trans [OF
      bags_alter [of stop_trading env w6 q] bags_alter [of "\<lambda>c. c\<lparr>trade_agree := False\<rparr>" env _ p]]
      bags_alter [of "\<lambda>d. d\<lparr>trade_partner := None\<rparr>" env _ q]] bags_alter [of "\<lambda>c. c\<lparr>trade_partner := None\<rparr>" env _ p]]
    by (simp add: stop_trading_def)
  from bags_kept_trans [OF w3(2) bags_kept_trans [OF w4(2) bags_kept_trans [OF k
      bags_kept_trans [OF w5(2) bags_kept_trans [OF w6(2) this]]]]]
  show ?thesis using w3(1) w4(1) w5(1) w6(1) by blast
qed

section \<open>Correctness of trading\<close>


text \<open>Both offers handed over, one after the other.\<close>

lemma both_handed_over:
  assumes calm: "calm env" and pq: "p \<noteq> q" and w0: "w0 p = Some c" "w0 q = Some d"
    and c: "sane env c" "offer_ok env c" and d: "sane env d" "offer_ok env d"
    and room_c: "\<forall>x \<in> set (trade_inventory d).
      amount_in (inventory c) (item_id x) + item_amount x \<le> w_config env ''MaxItem'' \<and>
      holdable env (item_id x) (amount_in (inventory c) (item_id x) + item_amount x)"
    and room_d: "\<forall>x \<in> set (trade_inventory c).
      amount_in (inventory d) (item_id x) + item_amount x \<le> w_config env ''MaxItem'' \<and>
      holdable env (item_id x) (amount_in (inventory d) (item_id x) + item_amount x)"
  shows "\<exists>w1 w2 c1 c2 d2. hand_items env q p (trade_inventory d) w0 = Inr w1 \<and>
    w1 p = Some c1 \<and> trade_inventory c1 = trade_inventory c \<and> hand_items env p q (trade_inventory c) w1 = Inr w2 \<and>
    w2 p = Some c2 \<and> w2 q = Some d2 \<and> sane env c2 \<and> sane env d2 \<and>
    (\<forall>i. amount_in (inventory c2) i =
       amount_in (inventory c) i - amount_in (trade_inventory c) i + amount_in (trade_inventory d) i) \<and>
    (\<forall>i. amount_in (inventory d2) i =
       amount_in (inventory d) i - amount_in (trade_inventory d) i + amount_in (trade_inventory c) i)"
proof -
  have ids: "distinct (map item_id (trade_inventory c))" "distinct (map item_id (trade_inventory d))"
    and pos: "\<forall>x \<in> set (trade_inventory c). 0 < item_amount x" "\<forall>x \<in> set (trade_inventory d). 0 < item_amount x"
    using c(2) d(2) by (auto simp: offer_ok_def items_ok_def)
  obtain d1 c1 where s1: "hand_items env q p (trade_inventory d) w0 = Inr (w0(q \<mapsto> d1, p \<mapsto> c1))" "sane env d1" "sane env c1"
    "\<forall>i. amount_in (inventory d1) i = amount_in (inventory d) i - amount_in (trade_inventory d) i"
    "\<forall>i. amount_in (inventory c1) i = amount_in (inventory c) i + amount_in (trade_inventory d) i"
    using hand_items_moves [OF calm, of q p w0 d c "trade_inventory d"] pq w0 d(1) c(1) ids room_c pos d(2)
    by (auto simp: offer_ok_def)
  define w1 where "w1 = w0(q \<mapsto> d1, p \<mapsto> c1)"
  have w1: "w1 p = Some c1" "w1 q = Some d1" using pq by (simp_all add: w1_def)
  have t1: "trades_of w1 = trades_of w0" using trades_hand_items [OF calm_quiet [OF calm] s1(1)] by (simp add: w1_def)
  have offer: "trade_inventory c1 = trade_inventory c"
    using trades_view [of w1 p c1] trades_view [of w0 p c] w1 w0 t1 by simp
  have posd: "0 \<le> amount_in (trade_inventory d) i" "0 \<le> amount_in (trade_inventory c) i" for i
    using amount_ok(1) c(2) d(2) by (simp_all add: offer_ok_def)
  have le: "holdable env i n" if "holdable env i m" "n \<le> m" for i n m
    using that carries_less by (auto simp: holdable_def)
  obtain c2 d2 where s2: "hand_items env p q (trade_inventory c) w1 = Inr (w1(p \<mapsto> c2, q \<mapsto> d2))" "sane env c2" "sane env d2"
    "\<forall>i. amount_in (inventory c2) i = amount_in (inventory c1) i - amount_in (trade_inventory c) i"
    "\<forall>i. amount_in (inventory d2) i = amount_in (inventory d1) i + amount_in (trade_inventory c) i"
  proof -
    have "\<forall>x \<in> set (trade_inventory c). holdable env (item_id x) (amount_in (inventory d1) (item_id x) + item_amount x) \<and>
      0 < item_amount x \<and> item_amount x \<le> amount_in (inventory c1) (item_id x) \<and>
      amount_in (inventory d1) (item_id x) + item_amount x \<le> w_config env ''MaxItem''"
    proof
      fix x assume x: "x \<in> set (trade_inventory c)"
      have "item_amount x \<le> amount_in (inventory c) (item_id x)" using c(2) x by (auto simp: offer_ok_def)
      then show "holdable env (item_id x) (amount_in (inventory d1) (item_id x) + item_amount x) \<and>
        0 < item_amount x \<and> item_amount x \<le> amount_in (inventory c1) (item_id x) \<and>
        amount_in (inventory d1) (item_id x) + item_amount x \<le> w_config env ''MaxItem''"
        using room_d x s1(4,5) posd(1) [of "item_id x"] pos(1) le by auto
    qed
    then show thesis
      using that hand_items_moves [OF calm pq w1 s1(3,2) ids(1)] by blast
  qed
  have "(w1(p \<mapsto> c2, q \<mapsto> d2)) p = Some c2" "(w1(p \<mapsto> c2, q \<mapsto> d2)) q = Some d2" using pq by simp_all
  moreover have "\<forall>i. amount_in (inventory c2) i =
       amount_in (inventory c) i - amount_in (trade_inventory c) i + amount_in (trade_inventory d) i"
    "\<forall>i. amount_in (inventory d2) i =
       amount_in (inventory d) i - amount_in (trade_inventory d) i + amount_in (trade_inventory c) i"
    using s1(4,5) s2(4,5) by simp_all
  ultimately show ?thesis using s1(1) [folded w1_def] w1(1) offer s2(1-3) by blast
qed


section \<open>A trade\<close>

definition alice :: character where
  "alice = sample_character\<lparr>trading := True, trade_partner := Some 2, trade_inventory := [new_entry 1 20]\<rparr>"

definition bob :: character where
  "bob = sample_character\<lparr>ch_pid := 2, trading := True, trade_partner := Some 1, trade_agree := True,
     trade_inventory := [new_entry 3 2]\<rparr>"

definition market :: players where
  "market = (\<lambda>_. None)(1 \<mapsto> alice, 2 \<mapsto> bob)"

lemma traders_ok: "sane sample_env alice" "sane sample_env bob" "offer_ok sample_env alice" "offer_ok sample_env bob"
proof -
  show "sane sample_env alice" "sane sample_env bob" using sane_sample by (simp_all add: sane_def alice_def bob_def)
  show "offer_ok sample_env alice" "offer_ok sample_env bob"
    by (simp_all add: offer_ok_def alice_def bob_def items_ok_def known_item_def sample_env_def sample_items_def
        sample_config_def sample_character_def new_entry_def amount_in_def INT_MAX_def)
qed


definition idle_character :: "nat \<Rightarrow> character" where
  "idle_character p = sample_character\<lparr>ch_pid := p\<rparr>"

lemma quiet_sample: "quiet sample_env"
  by (rule calm_quiet [OF calm_sample])


end
