(* ===== verification/Game_Map.thy ===== *)
theory Game_Map
  imports Trade
begin

text \<open>
  A map (\<open>src/src/map.hpp\<close>, \<open>map.cpp\<close>): its tiles, warps and doors, the items on its floor, its chests,
  and the file it is loaded from. The value of a configuration key is a number; positions are the
  numbers of an \<open>unsigned char\<close>. A random \<open>double\<close> and the time are arguments.
\<close>

section \<open>Tiles\<close>

definition Tile_None :: int where "Tile_None = - 1"
definition Tile_Wall :: int where "Tile_Wall = 0"
definition Tile_ChairDown :: int where "Tile_ChairDown = 1"
definition Tile_ChairLeft :: int where "Tile_ChairLeft = 2"
definition Tile_ChairRight :: int where "Tile_ChairRight = 3"
definition Tile_ChairUp :: int where "Tile_ChairUp = 4"
definition Tile_ChairDownRight :: int where "Tile_ChairDownRight = 5"
definition Tile_ChairUpLeft :: int where "Tile_ChairUpLeft = 6"
definition Tile_ChairAll :: int where "Tile_ChairAll = 7"
definition Tile_Chest :: int where "Tile_Chest = 9"
definition Tile_BankVault :: int where "Tile_BankVault = 16"
definition Tile_NPCBoundary :: int where "Tile_NPCBoundary = 17"
definition Tile_MapEdge :: int where "Tile_MapEdge = 18"
definition Tile_Board1 :: int where "Tile_Board1 = 20"
definition Tile_Board8 :: int where "Tile_Board8 = 27"
definition Tile_Jukebox :: int where "Tile_Jukebox = 28"
definition Tile_Arena :: int where "Tile_Arena = 32"
definition Tile_Spikes1 :: int where "Tile_Spikes1 = 34"
definition Tile_Spikes2 :: int where "Tile_Spikes2 = 35"
definition Tile_Spikes3 :: int where "Tile_Spikes3 = 36"

lemmas tile_defs = Tile_None_def Tile_Wall_def Tile_ChairDown_def Tile_ChairLeft_def Tile_ChairRight_def Tile_ChairUp_def
  Tile_ChairDownRight_def Tile_ChairUpLeft_def Tile_ChairAll_def Tile_Chest_def Tile_BankVault_def Tile_NPCBoundary_def
  Tile_MapEdge_def Tile_Board1_def Tile_Board8_def Tile_Jukebox_def Tile_Arena_def Tile_Spikes1_def Tile_Spikes2_def
  Tile_Spikes3_def

definition Warp_NoDoor :: int where "Warp_NoDoor = 0"
definition Warp_Door :: int where "Warp_Door = 1"

record map_warp =
  wp_map :: int
  wp_x :: int
  wp_y :: int
  wp_levelreq :: int
  wp_spec :: int
  wp_open :: bool

definition no_warp :: map_warp where
  "no_warp = \<lparr>wp_map = 0, wp_x = 0, wp_y = 0, wp_levelreq = 0, wp_spec = Warp_NoDoor, wp_open = False\<rparr>"

definition is_warp :: "map_warp \<Rightarrow> bool" where
  "is_warp w \<longleftrightarrow> wp_map w \<noteq> 0"

record map_tile =
  tilespec :: int
  tile_warp :: map_warp

definition new_tile :: map_tile where
  "new_tile = \<lparr>tilespec = Tile_None, tile_warp = no_warp\<rparr>"

definition tile_Walkable :: "bool \<Rightarrow> map_tile \<Rightarrow> bool" where
  "tile_Walkable npc t =
     (if is_warp (tile_warp t) \<and> npc then False
      else if tilespec t \<in> {Tile_Wall, Tile_ChairDown, Tile_ChairLeft, Tile_ChairRight, Tile_ChairUp, Tile_ChairDownRight,
                 Tile_ChairUpLeft, Tile_ChairAll, Tile_Chest, Tile_BankVault, Tile_MapEdge, Tile_Jukebox} \<or>
              Tile_Board1 \<le> tilespec t \<and> tilespec t \<le> Tile_Board8
      then False
      else if tilespec t = Tile_NPCBoundary then \<not> npc
      else True)"

section \<open>Chests, items and spawns\<close>

record chest_item =
  ct_id :: int
  ct_amount :: int
  ct_slot :: int

record chest_spawn =
  cs_item :: int
  cs_amount :: int
  cs_slot :: int
  cs_time :: double
  cs_last_taken :: double
  cs_random :: double

record map_chest =
  chest_x :: int
  chest_y :: int
  chest_items :: "chest_item list"
  chest_spawns :: "chest_spawn list"
  chest_slots :: int
  maxchest :: int
  chestslots :: int
  chest_key :: int

record map_item =
  mi_uid :: int
  mi_id :: int
  mi_amount :: int
  mi_x :: int
  mi_y :: int
  mi_owner :: int
  mi_unprotecttime :: double

record npc_spawn =
  ns_id :: int
  ns_x :: int
  ns_y :: int
  ns_spawntype :: int
  ns_spawntime :: int
  ns_index :: int

record map_data =
  m_id :: int
  m_rid :: bytes
  m_pk :: bool
  m_effect :: int
  m_filesize :: int
  m_width :: int
  m_height :: int
  m_scroll :: bool
  m_relog_x :: int
  m_relog_y :: int
  m_tiles :: "map_tile list"
  m_chests :: "map_chest list"
  m_npcs :: "npc_spawn list"
  m_items :: "map_item list"
  m_exists :: bool
  m_timed_spikes :: bool

text \<open>\<open>InBounds\<close> and the tiles; a position outside throws.\<close>

definition InBounds :: "map_data \<Rightarrow> int \<Rightarrow> int \<Rightarrow> bool" where
  "InBounds m x y \<longleftrightarrow> \<not> (x \<ge> m_width m \<or> y \<ge> m_height m)"

definition tile_index :: "map_data \<Rightarrow> int \<Rightarrow> int \<Rightarrow> nat" where
  "tile_index m x y = nat (y * m_width m + x)"

definition GetTile :: "map_data \<Rightarrow> int \<Rightarrow> int \<Rightarrow> map_tile outcome" where
  "GetTile m x y =
     (if \<not> InBounds m x y then Inl Std_Out_Of_Range
      else if tile_index m x y < length (m_tiles m) then Inr (m_tiles m ! tile_index m x y)
      else Inl Read_Out_Of_Bounds)"

definition GetSpec :: "map_data \<Rightarrow> int \<Rightarrow> int \<Rightarrow> int outcome" where
  "GetSpec m x y =
     (if \<not> InBounds m x y then Inr Tile_None else bind_out (GetTile m x y) (\<lambda>t. Inr (tilespec t)))"

definition GetWarp :: "map_data \<Rightarrow> int \<Rightarrow> int \<Rightarrow> map_warp outcome" where
  "GetWarp m x y = bind_out (GetTile m x y) (\<lambda>t. Inr (tile_warp t))"

definition set_tile :: "(map_tile \<Rightarrow> map_tile) \<Rightarrow> int \<Rightarrow> int \<Rightarrow> map_data \<Rightarrow> map_data" where
  "set_tile f x y m = m\<lparr>m_tiles := (m_tiles m)[tile_index m x y := f (m_tiles m ! tile_index m x y)]\<rparr>"

section \<open>Chests\<close>

definition chest_HasItem :: "int \<Rightarrow> map_chest \<Rightarrow> int" where
  "chest_HasItem i c = (case find (\<lambda>it. ct_id it = i) (chest_items c) of None \<Rightarrow> 0 | Some it \<Rightarrow> ct_amount it)"

text \<open>The first entry with an id is replaced or removed.\<close>

fun chest_update :: "int \<Rightarrow> (chest_item \<Rightarrow> chest_item) \<Rightarrow> chest_item list \<Rightarrow> chest_item list" where
  "chest_update i f [] = []"
| "chest_update i f (it # its) = (if ct_id it = i then f it # its else it # chest_update i f its)"

fun chest_erase :: "int \<Rightarrow> chest_item list \<Rightarrow> chest_item list" where
  "chest_erase i [] = []"
| "chest_erase i (it # its) = (if ct_id it = i then its else it # chest_erase i its)"

text \<open>
  \<open>AddItem\<close> answers the amount added. The slot 0 is one of a player, whose items go to the back of the
  chest and leave room for the spawns.
\<close>

definition chest_push :: "int \<Rightarrow> int \<Rightarrow> int \<Rightarrow> map_chest \<Rightarrow> int \<times> map_chest" where
  "chest_push i amount slot c =
     (if 0 \<le> chestslots c \<and> int (length (chest_items c)) \<ge> chestslots c \<or> amount > maxchest c then (0, c)
      else if slot = 0 \<and> int (length (filter (\<lambda>it. ct_slot it = 0) (chest_items c))) + chest_slots c \<ge> chestslots c
      then (0, c)
      else
        (let it = \<lparr>ct_id = i, ct_amount = amount, ct_slot = slot\<rparr>
         in (amount, c\<lparr>chest_items := (if slot = 0 then chest_items c @ [it] else it # chest_items c)\<rparr>)))"

definition chest_AddItem :: "int \<Rightarrow> int \<Rightarrow> int \<Rightarrow> map_chest \<Rightarrow> (int \<times> map_chest) outcome" where
  "chest_AddItem i amount slot c =
     (if amount \<le> 0 then Inr (0, c)
      else if slot \<noteq> 0 then Inr (chest_push i amount slot c)
      else case find (\<lambda>it. ct_id it = i) (chest_items c) of
        None \<Rightarrow> Inr (chest_push i amount slot c)
      | Some it \<Rightarrow>
          if \<not> int_range (ct_amount it + amount) then Inl Signed_Overflow
          else if ct_amount it + amount < 0 \<or> ct_amount it + amount > maxchest c then Inr (0, c)
          else Inr (amount, c\<lparr>chest_items :=
                 chest_update i (\<lambda>it. it\<lparr>ct_amount := ct_amount it + amount\<rparr>) (chest_items c)\<rparr>))"

definition taken_now :: "double \<Rightarrow> int \<Rightarrow> map_chest \<Rightarrow> map_chest" where
  "taken_now now slot c =
     (if slot \<noteq> 0
      then c\<lparr>chest_spawns := map (\<lambda>s. if cs_slot s = slot then s\<lparr>cs_last_taken := now\<rparr> else s) (chest_spawns c)\<rparr>
      else c)"

definition chest_DelItem :: "double \<Rightarrow> int \<Rightarrow> map_chest \<Rightarrow> int \<times> map_chest" where
  "chest_DelItem now i c =
     (case find (\<lambda>it. ct_id it = i) (chest_items c) of
        None \<Rightarrow> (0, c)
      | Some it \<Rightarrow> (ct_amount it, (taken_now now (ct_slot it) c)\<lparr>chest_items := chest_erase i (chest_items c)\<rparr>))"

definition chest_DelSomeItem :: "double \<Rightarrow> int \<Rightarrow> int \<Rightarrow> map_chest \<Rightarrow> int \<times> map_chest" where
  "chest_DelSomeItem now i amount c =
     (case find (\<lambda>it. ct_id it = i) (chest_items c) of
        None \<Rightarrow> (0, c)
      | Some it \<Rightarrow>
          if amount < ct_amount it then
            (ct_amount it - amount,
             (taken_now now (ct_slot it) c)\<lparr>chest_items :=
                chest_update i (\<lambda>it. it\<lparr>ct_amount := ct_amount it - amount, ct_slot := 0\<rparr>) (chest_items c)\<rparr>)
          else chest_DelItem now i c)"

section \<open>Items on the floor\<close>

text \<open>\<open>InRange\<close> of a character and a position, and of an item.\<close>

definition InRange_at :: "world_env \<Rightarrow> character \<Rightarrow> int \<Rightarrow> int \<Rightarrow> bool" where
  "InRange_at env c x y \<longleftrightarrow> \<bar>ch_x c - x\<bar> + \<bar>ch_y c - y\<bar> \<le> w_config env ''SeeDistance''"

definition sees_item :: "world_env \<Rightarrow> map_item \<Rightarrow> character \<Rightarrow> bool" where
  "sees_item env it c \<longleftrightarrow> \<not> ch_nowhere c \<and> InRange_at env c (mi_x it) (mi_y it)"

text \<open>\<open>GenerateItemID\<close>: the search starts again with the next number whenever one is in use.\<close>

function free_uid :: "map_item list \<Rightarrow> int \<Rightarrow> int" where
  "free_uid its k = (if \<exists>it \<in> set its. mi_uid it = k then free_uid its (k + 1) else k)"
  by pat_completeness auto
termination
proof (relation "measure (\<lambda>(its, k). card {u \<in> mi_uid ` set its. k \<le> u})", goal_cases)
  case (2 its k)
  have "{u \<in> mi_uid ` set its. k + 1 \<le> u} \<subset> {u \<in> mi_uid ` set its. k \<le> u}" using 2 by force
  then show ?case by (simp add: psubset_card_mono)
qed simp

declare free_uid.simps [simp del, loop_simps]

definition GenerateItemID :: "map_data \<Rightarrow> int" where
  "GenerateItemID m = free_uid (m_items m) 1"

definition added_packet :: "map_item \<Rightarrow> PacketBuilder" where
  "added_packet it =
     AddChar (of_int (mi_y it)) (AddChar (of_int (mi_x it)) (AddThree (of_int (mi_amount it))
       (AddShort (of_int (mi_uid it)) (AddShort (of_int (mi_id it)) (PacketBuilder_new PACKET_ITEM PACKET_ADD)))))"

definition removed_packet :: "map_item \<Rightarrow> PacketBuilder" where
  "removed_packet it = AddShort (of_int (mi_uid it)) (PacketBuilder_new PACKET_ITEM PACKET_REMOVE)"

text \<open>\<open>Map::AddItem\<close>; an item that is dropped where there are too many is returned with uid 0 and not added.\<close>

definition map_AddItem :: "world_env \<Rightarrow> int \<Rightarrow> int \<Rightarrow> int \<Rightarrow> int \<Rightarrow> nat option \<Rightarrow> map_data \<times> players \<Rightarrow> map_item \<times> map_data \<times> players" where
  "map_AddItem env item amount x y from s =
     (let m = fst s; w = snd s;
          it = \<lparr>mi_uid = 0, mi_id = item, mi_amount = amount, mi_x = x, mi_y = y, mi_owner = 0, mi_unprotecttime = Fin 0\<rparr>;
          ontile = int (length (filter (\<lambda>it. mi_x it = x \<and> mi_y it = y) (m_items m)));
          onmap = int (length (m_items m))
      in if from \<noteq> None \<and> (ontile \<ge> w_config env ''MaxTile'' \<or> onmap \<ge> w_config env ''MaxMap'') then (it, m, w)
         else
           (let it = it\<lparr>mi_uid := to_short (GenerateItemID m)\<rparr>
            in (it, m\<lparr>m_items := m_items m @ [it]\<rparr>,
                send_map (m_id m) (\<lambda>q d. from \<noteq> Some q \<and> sees_item env it d) (added_packet it) w)))"

definition map_GetItem :: "int \<Rightarrow> map_data \<Rightarrow> map_item option" where
  "map_GetItem uid m = find (\<lambda>it. mi_uid it = uid) (m_items m)"

fun uid_erase :: "int \<Rightarrow> map_item list \<Rightarrow> map_item list" where
  "uid_erase u [] = []"
| "uid_erase u (it # its) = (if mi_uid it = u then its else it # uid_erase u its)"

fun uid_update :: "int \<Rightarrow> int \<Rightarrow> map_item list \<Rightarrow> map_item list" where
  "uid_update u n [] = []"
| "uid_update u n (it # its) = (if mi_uid it = u then it\<lparr>mi_amount := n\<rparr> # its else it # uid_update u n its)"

definition map_DelItem :: "world_env \<Rightarrow> int \<Rightarrow> nat option \<Rightarrow> map_data \<times> players \<Rightarrow> map_data \<times> players" where
  "map_DelItem env uid from s =
     (case map_GetItem uid (fst s) of
        None \<Rightarrow> s
      | Some it \<Rightarrow>
          ((fst s)\<lparr>m_items := uid_erase uid (m_items (fst s))\<rparr>,
           send_map (m_id (fst s)) (\<lambda>q d. from \<noteq> Some q \<and> sees_item env it d) (removed_packet it) (snd s)))"

definition map_DelSomeItem :: "world_env \<Rightarrow> int \<Rightarrow> int \<Rightarrow> nat option \<Rightarrow> map_data \<times> players \<Rightarrow> map_data \<times> players" where
  "map_DelSomeItem env uid amount from s =
     (if amount < 0 then s
      else case map_GetItem uid (fst s) of
        None \<Rightarrow> s
      | Some it \<Rightarrow>
          if amount < mi_amount it then
            (let m = fst s; it = it\<lparr>mi_amount := mi_amount it - amount\<rparr>;
                 w = send_map (m_id m) (\<lambda>q d. from \<noteq> Some q \<and> sees_item env it d) (removed_packet it) (snd s);
                 w = send_map (m_id m) (\<lambda>q d. sees_item env it d) (added_packet it) w
             in (m\<lparr>m_items := uid_update uid (mi_amount it) (m_items m)\<rparr>, w))
          else map_DelItem env uid from s)"

section \<open>Where one can stand\<close>

datatype occupied_target = PlayerOnly | NPCOnly | PlayerAndNPC

definition IsHideNpc :: "character \<Rightarrow> bool" where
  "IsHideNpc c \<longleftrightarrow> ch_hidden c AND 4 \<noteq> 0"

text \<open>The characters of the map are given by their ids, the living NPCs by their positions.\<close>

definition Occupied :: "players \<Rightarrow> nat list \<Rightarrow> (int \<times> int) list \<Rightarrow> map_data \<Rightarrow> int \<Rightarrow> int \<Rightarrow> occupied_target \<Rightarrow> bool \<Rightarrow> bool" where
  "Occupied w ps npcs m x y target adminghost \<longleftrightarrow>
     InBounds m x y \<and>
     (target \<noteq> NPCOnly \<and>
        list_ex (\<lambda>p. case w p of None \<Rightarrow> False
          | Some c \<Rightarrow> ch_x c = x \<and> ch_y c = y \<and> \<not> (adminghost \<and> (\<not> CanInteractCombat c \<or> IsHideNpc c))) ps \<or>
      target \<noteq> PlayerOnly \<and> (x, y) \<in> set npcs)"

definition map_Walkable :: "world_env \<Rightarrow> players \<Rightarrow> nat list \<Rightarrow> (int \<times> int) list \<Rightarrow> map_data \<Rightarrow> int \<Rightarrow> int \<Rightarrow> bool \<Rightarrow> bool outcome" where
  "map_Walkable env w ps npcs m x y npc =
     (if \<not> InBounds m x y then Inr False
      else bind_out (GetTile m x y) (\<lambda>t.
        if \<not> tile_Walkable npc t then Inr False
        else if enabled env ''GhostArena'' \<and> tilespec t = Tile_Arena \<and> Occupied w ps npcs m x y PlayerAndNPC False
        then Inr False
        else Inr True))"

section \<open>Doors\<close>

definition CanInteractDoors :: "character \<Rightarrow> bool" where
  "CanInteractDoors c \<longleftrightarrow> ch_nointeract c AND 8 = 0"

definition door_opened_packet :: "int \<Rightarrow> int \<Rightarrow> PacketBuilder" where
  "door_opened_packet x y = AddShort (of_int y) (AddChar (of_int x) (PacketBuilder_new PACKET_DOOR PACKET_OPEN))"

text \<open>
  \<open>OpenDoor\<close> answers whether the door was opened; then an event that calls \<open>CloseDoor\<close> once after
  \<open>DoorTimer\<close> has been registered. A door is opened by a character, or by none.
\<close>

definition OpenDoor :: "world_env \<Rightarrow> nat option \<Rightarrow> int \<Rightarrow> int \<Rightarrow> map_data \<times> players \<Rightarrow> (bool \<times> map_data \<times> players) outcome" where
  "OpenDoor env from x y s =
     (let m = fst s; w = snd s in
      bind_out (case from of None \<Rightarrow> Inr None | Some p \<Rightarrow> bind_out (player w p) (\<lambda>c. Inr (Some (p, c)))) (\<lambda>opener.
      if \<not> InBounds m x y \<or> (case opener of None \<Rightarrow> False | Some (p, c) \<Rightarrow> \<not> InRange_at env c x y) then Inr (False, s)
      else bind_out (GetWarp m x y) (\<lambda>warp.
        if \<not> is_warp warp then Inr (False, s)
        else if wp_spec warp = Warp_NoDoor \<or> wp_open warp then Inr (False, s)
        else
          let keynum = wp_spec warp - Warp_Door + 1;
              refused = (case opener of None \<Rightarrow> None
                | Some (p, c) \<Rightarrow>
                    if wp_spec warp > Warp_Door \<and>
                       (\<not> CanInteractDoors c \<or> HasItem (to_short (int (GetKey (w_eif env) keynum))) False c = 0)
                    then Some p else None)
          in case refused of
               Some p \<Rightarrow> Inr (False, m, send_to p (AddChar (of_int keynum) (PacketBuilder_new PACKET_DOOR PACKET_CLOSE)) w)
             | None \<Rightarrow>
                 Inr (True, set_tile (\<lambda>t. t\<lparr>tile_warp := (tile_warp t)\<lparr>wp_open := True\<rparr>\<rparr>) x y m,
                      send_map (m_id m) (\<lambda>q d. InRange_at env d x y) (door_opened_packet x y) w))))"

definition CloseDoor :: "int \<Rightarrow> int \<Rightarrow> map_data \<Rightarrow> map_data outcome" where
  "CloseDoor x y m =
     (if \<not> InBounds m x y then Inr m
      else bind_out (GetWarp m x y) (\<lambda>warp.
        if \<not> is_warp warp \<or> wp_spec warp = Warp_NoDoor \<or> \<not> wp_open warp then Inr m
        else Inr (set_tile (\<lambda>t. t\<lparr>tile_warp := (tile_warp t)\<lparr>wp_open := False\<rparr>\<rparr>) x y m)))"

section \<open>Loading\<close>

text \<open>
  The file is read front to back, with two jumps back. A failing read ends \<open>Load\<close>; the map stays as far
  as it was filled, the left value. The warnings about the contents are left out.
\<close>

definition fread :: "bytes \<Rightarrow> nat \<Rightarrow> nat \<Rightarrow> 'm \<Rightarrow> 'm + bytes \<times> nat" where
  "fread f n pos m = (if pos + n \<le> length f then Inr (take n (drop pos f), pos + n) else Inl m)"

fun times_do :: "nat \<Rightarrow> ('s \<Rightarrow> 'e + 's) \<Rightarrow> 's \<Rightarrow> 'e + 's" where
  "times_do 0 f s = Inr s"
| "times_do (Suc n) f s = bind_out (f s) (times_do n f)"

text \<open>A table that is skipped: its number of entries, each of \<open>k\<close> bytes.\<close>

definition skip_table :: "bytes \<Rightarrow> nat \<Rightarrow> nat \<times> map_data \<Rightarrow> map_data + nat \<times> map_data" where
  "skip_table f k s =
     bind_out (fread f 1 (fst s) (snd s)) (\<lambda>(buf, pos). Inr (pos + k * nat (uchar1 buf 0), snd s))"

definition new_chest :: "world_env \<Rightarrow> int \<Rightarrow> int \<Rightarrow> map_chest" where
  "new_chest env x y =
     \<lparr>chest_x = x, chest_y = y, chest_items = [], chest_spawns = [], chest_slots = 0,
      maxchest = w_config env ''MaxChest'', chestslots = w_config env ''ChestSlots'', chest_key = 0\<rparr>"

definition load_spec :: "world_env \<Rightarrow> bytes \<Rightarrow> int \<Rightarrow> nat \<times> map_data \<Rightarrow> map_data + nat \<times> map_data" where
  "load_spec env f yloc s =
     bind_out (fread f 2 (fst s) (snd s)) (\<lambda>(buf, pos).
       let m = snd s; xloc = uchar1 buf 0; spec = uchar1 buf 1 in
       if \<not> InBounds m xloc yloc then Inr (pos, m)
       else
         let m = set_tile (\<lambda>t. t\<lparr>tilespec := spec\<rparr>) xloc yloc m;
             m = (if spec = Tile_Chest then m\<lparr>m_chests := m_chests m @ [new_chest env xloc yloc]\<rparr> else m);
             m = (if spec = Tile_Spikes1 then m\<lparr>m_timed_spikes := True\<rparr> else m)
         in Inr (pos, m))"

text \<open>A row of a table: its y and how many entries it has.\<close>

definition load_row :: "bytes \<Rightarrow> (int \<Rightarrow> nat \<times> map_data \<Rightarrow> map_data + nat \<times> map_data) \<Rightarrow> nat \<times> map_data \<Rightarrow> map_data + nat \<times> map_data" where
  "load_row f row s =
     bind_out (fread f 2 (fst s) (snd s)) (\<lambda>(buf, pos).
       times_do (nat (uchar1 buf 1)) (row (uchar1 buf 0)) (pos, snd s))"

definition load_rows :: "bytes \<Rightarrow> (int \<Rightarrow> nat \<times> map_data \<Rightarrow> map_data + nat \<times> map_data) \<Rightarrow> nat \<times> map_data \<Rightarrow> map_data + nat \<times> map_data" where
  "load_rows f row s =
     bind_out (fread f 1 (fst s) (snd s)) (\<lambda>(buf, pos). times_do (nat (uchar1 buf 0)) (load_row f row) (pos, snd s))"

definition load_warp :: "bytes \<Rightarrow> int \<Rightarrow> nat \<times> map_data \<Rightarrow> map_data + nat \<times> map_data" where
  "load_warp f yloc s =
     bind_out (fread f 8 (fst s) (snd s)) (\<lambda>(buf, pos).
       let m = snd s; xloc = uchar1 buf 0;
           warp = \<lparr>wp_map = short2 buf 1, wp_x = uchar1 buf 3, wp_y = uchar1 buf 4, wp_levelreq = uchar1 buf 5,
                   wp_spec = num2 buf 6, wp_open = False\<rparr> in
       if \<not> InBounds m xloc yloc then Inr (pos, m)
       else Inr (pos, set_tile (\<lambda>t. t\<lparr>tile_warp := warp\<rparr>) xloc yloc m))"

text \<open>The NPCs of the map get their indexes in the order of the file; outside the map there are none.\<close>

definition add_npc :: "(int \<Rightarrow> npc_spawn) \<Rightarrow> int \<times> map_data \<Rightarrow> map_data + int \<times> map_data" where
  "add_npc npc s =
     (let index = fst s; m = snd s; n = npc (to_uchar index) in
      if \<not> InBounds m (ns_x n) (ns_y n) then Inr s else Inr (index + 1, m\<lparr>m_npcs := m_npcs m @ [n]\<rparr>))"

definition load_npc :: "bytes \<Rightarrow> nat \<times> int \<times> map_data \<Rightarrow> map_data + nat \<times> int \<times> map_data" where
  "load_npc f s =
     bind_out (fread f 8 (fst s) (snd (snd s))) (\<lambda>(buf, pos).
       let npc = (\<lambda>index. \<lparr>ns_id = short2 buf 2, ns_x = uchar1 buf 0, ns_y = uchar1 buf 1, ns_spawntype = uchar1 buf 4,
                    ns_spawntime = short2 buf 5, ns_index = index\<rparr>)
       in bind_out (times_do (nat (uchar1 buf 7)) (add_npc npc) (snd s)) (\<lambda>s. Inr (pos, s)))"

fun first_chest_at :: "int \<Rightarrow> int \<Rightarrow> (map_chest \<Rightarrow> map_chest) \<Rightarrow> map_chest list \<Rightarrow> map_chest list" where
  "first_chest_at x y f [] = []"
| "first_chest_at x y f (c # cs) = (if chest_x c = x \<and> chest_y c = y then f c # cs else c # first_chest_at x y f cs)"

definition has_chest_at :: "int \<Rightarrow> int \<Rightarrow> map_chest list \<Rightarrow> bool" where
  "has_chest_at x y cs \<longleftrightarrow> list_ex (\<lambda>c. chest_x c = x \<and> chest_y c = y) cs"

definition add_spawn :: "chest_spawn \<Rightarrow> int \<Rightarrow> int \<Rightarrow> map_chest \<Rightarrow> map_chest" where
  "add_spawn sp key slot c =
     c\<lparr>chest_key := (if key > 0 then key else chest_key c), chest_spawns := chest_spawns c @ [sp],
       chest_slots := max (chest_slots c) (slot + 1)\<rparr>"

definition new_spawn :: "double \<Rightarrow> double \<Rightarrow> bool \<Rightarrow> u32 \<times> u32 \<Rightarrow> bytes \<Rightarrow> chest_spawn" where
  "new_spawn now spawn_random is_pct r buf =
     (let modifier = rand_double r (Fin 0) spawn_random; t = d_mul (d_of_int (short2 buf 7)) (d_of_int 60)
      in \<lparr>cs_item = short2 buf 5, cs_amount = num3 buf 9, cs_slot = num1 buf 4 + 1, cs_time = t, cs_last_taken = now,
          cs_random = (if is_pct then d_mul modifier t else modifier)\<rparr>)"

text \<open>\<open>rnd k\<close> are the two numbers \<open>std::rand\<close> gives for the \<open>k\<close>-th spawn.\<close>

definition load_chest_spawn ::
    "double \<Rightarrow> double \<Rightarrow> bool \<Rightarrow> (nat \<Rightarrow> u32 \<times> u32) \<Rightarrow> bytes \<Rightarrow> nat \<times> nat \<times> map_data \<Rightarrow> map_data + nat \<times> nat \<times> map_data" where
  "load_chest_spawn now spawn_random is_pct rnd f s =
     bind_out (fread f 12 (fst s) (snd (snd s))) (\<lambda>(buf, pos).
       let k = fst (snd s); m = snd (snd s); x = uchar1 buf 0; y = uchar1 buf 1 in
       if num3 buf 9 = 0 \<or> \<not> has_chest_at x y (m_chests m) then Inr (pos, k, m)
       else Inr (pos, k + 1, m\<lparr>m_chests :=
              first_chest_at x y (add_spawn (new_spawn now spawn_random is_pct (rnd k) buf) (short2 buf 2) (num1 buf 4))
                (m_chests m)\<rparr>))"

definition resize_tiles :: "nat \<Rightarrow> map_tile list \<Rightarrow> map_tile list" where
  "resize_tiles n ts = take n ts @ replicate (n - length ts) new_tile"

text \<open>The head of the file: revision, kind, size, and where one is put on login.\<close>

definition load_header :: "bytes \<Rightarrow> map_data \<Rightarrow> map_data + map_data" where
  "load_header f m =
     bind_out (fread f 4 3 m) (\<lambda>(buf, _). let m = m\<lparr>m_rid := buf\<rparr> in
     bind_out (fread f 2 31 m) (\<lambda>(buf, _). let m = m\<lparr>m_pk := (num1 buf 0 = 3), m_effect := num1 buf 1\<rparr> in
     bind_out (fread f 2 37 m) (\<lambda>(buf, _).
       let m = m\<lparr>m_width := to_uchar (num1 buf 0 + 1), m_height := to_uchar (num1 buf 1 + 1)\<rparr>;
           m = m\<lparr>m_tiles := resize_tiles (nat (m_height m * m_width m)) (m_tiles m)\<rparr> in
     bind_out (fread f 3 42 m) (\<lambda>(buf, _).
       Inr (m\<lparr>m_scroll := (num1 buf 0 \<noteq> 0), m_relog_x := uchar1 buf 1, m_relog_y := uchar1 buf 2\<rparr>)))))"

definition load_body ::
    "world_env \<Rightarrow> double \<Rightarrow> double \<Rightarrow> bool \<Rightarrow> (nat \<Rightarrow> u32 \<times> u32) \<Rightarrow> bytes \<Rightarrow> map_data \<Rightarrow> map_data + map_data" where
  "load_body env now spawn_random is_pct rnd f m =
     bind_out (skip_table f 8 (46, m)) (\<lambda>s.
     bind_out (skip_table f 4 s) (\<lambda>s.
     bind_out (skip_table f 12 s) (\<lambda>s.
     bind_out (load_rows f (load_spec env f) s) (\<lambda>s.
     bind_out (load_rows f (load_warp f) s) (\<lambda>s. let m = snd s in
     bind_out (fread f 1 46 m) (\<lambda>(buf, pos).
     bind_out (times_do (nat (uchar1 buf 0)) (load_npc f) (pos, 0, m)) (\<lambda>(pos, _, m).
     bind_out (skip_table f 4 (pos, m)) (\<lambda>s.
     bind_out (fread f 1 (fst s) (snd s)) (\<lambda>(buf, pos).
     bind_out (times_do (nat (uchar1 buf 0)) (load_chest_spawn now spawn_random is_pct rnd f) (pos, 0, snd s)) (\<lambda>(_, _, m).
       Inr (m\<lparr>m_filesize := int (length f), m_exists := True\<rparr>)))))))))))"

definition Load ::
    "world_env \<Rightarrow> double \<Rightarrow> double \<Rightarrow> bool \<Rightarrow> (nat \<Rightarrow> u32 \<times> u32) \<Rightarrow> bytes option \<Rightarrow> map_data \<Rightarrow> bool \<times> map_data" where
  "Load env now spawn_random is_pct rnd file m =
     (if m_id m < 0 then (False, m)
      else case file of
        None \<Rightarrow> (False, m)
      | Some f \<Rightarrow>
          case bind_out (load_header f (m\<lparr>m_timed_spikes := False\<rparr>)) (load_body env now spawn_random is_pct rnd f) of
            Inl m \<Rightarrow> (False, m)
          | Inr m \<Rightarrow> (True, m))"

text \<open>What \<open>Unload\<close> leaves of the map.\<close>

definition Unload :: "map_data \<Rightarrow> map_data" where
  "Unload m = m\<lparr>m_exists := False, m_npcs := [], m_chests := [], m_tiles := []\<rparr>"

text \<open>\<open>Reload\<close>: a file with the same revision is not read again.\<close>

definition Reload ::
    "world_env \<Rightarrow> double \<Rightarrow> double \<Rightarrow> bool \<Rightarrow> (nat \<Rightarrow> u32 \<times> u32) \<Rightarrow> bytes option \<Rightarrow> map_data \<Rightarrow> bool \<times> map_data" where
  "Reload env now spawn_random is_pct rnd file m =
     (case file of
        None \<Rightarrow> (False, m)
      | Some f \<Rightarrow>
          if length f < 7 then (False, m)
          else if m_rid m = take 4 (drop 3 f) then (True, m)
          else
            (let (loaded, m) = Load env now spawn_random is_pct rnd file (Unload m)
             in if loaded then (True, m\<lparr>m_exists := True\<rparr>) else (False, m)))"

section \<open>A loaded map is well-formed\<close>

text \<open>
  There is a tile for every position. A chest lies on the map and holds no items yet; its spawns have
  amounts and slots of their own. The NPCs stand on the map and are numbered in order.
\<close>

definition chest_wf :: "map_data \<Rightarrow> map_chest \<Rightarrow> bool" where
  "chest_wf m c \<longleftrightarrow>
     0 \<le> chest_x c \<and> 0 \<le> chest_y c \<and> InBounds m (chest_x c) (chest_y c) \<and> chest_items c = [] \<and>
     (\<forall>s \<in> set (chest_spawns c). 0 < cs_amount s \<and> 1 \<le> cs_slot s \<and> cs_slot s \<le> chest_slots c)"

definition map_wf :: "map_data \<Rightarrow> bool" where
  "map_wf m \<longleftrightarrow>
     0 \<le> m_width m \<and> m_width m \<le> 255 \<and> 0 \<le> m_height m \<and> m_height m \<le> 255 \<and>
     length (m_tiles m) = nat (m_height m * m_width m) \<and>
     (\<forall>c \<in> set (m_chests m). chest_wf m c) \<and>
     (\<forall>i < length (m_npcs m). ns_index (m_npcs m ! i) = to_uchar (int i) \<and>
        0 \<le> ns_x (m_npcs m ! i) \<and> 0 \<le> ns_y (m_npcs m ! i) \<and> InBounds m (ns_x (m_npcs m ! i)) (ns_y (m_npcs m ! i)))"

lemma times_do_inv:
  "(\<And>s s'. P s \<Longrightarrow> f s = Inr s' \<Longrightarrow> P s') \<Longrightarrow> times_do n f s = Inr s' \<Longrightarrow> P s \<Longrightarrow> P s'"
proof (induction n arbitrary: s)
  case (Suc n)
  obtain s1 where s1: "f s = Inr s1" "times_do n f s1 = Inr s'" using Suc.prems(2) by (auto simp: bind_out_Inr_iff)
  have p: "P s1" by (rule Suc.prems(1) [OF Suc.prems(3) s1(1)])
  show ?case by (rule Suc.IH [OF Suc.prems(1) s1(2) p])
qed simp

lemma fread_Inr: "fread f n pos m = Inr (buf, pos') \<Longrightarrow> length buf = n \<and> pos' = pos + n"
  by (auto simp: fread_def split: if_splits)

lemma uchar1_range [simp]: "0 \<le> uchar1 buf i" "uchar1 buf i \<le> 255"
  by (auto simp: uchar1_def to_uchar_def)

lemma InBounds_cong: "m_width m' = m_width m \<Longrightarrow> m_height m' = m_height m \<Longrightarrow> InBounds m' = InBounds m"
  by (auto simp: InBounds_def fun_eq_iff)

lemma set_tile_simps [simp]:
  "m_width (set_tile f x y m) = m_width m" "m_height (set_tile f x y m) = m_height m"
  "m_chests (set_tile f x y m) = m_chests m" "m_npcs (set_tile f x y m) = m_npcs m"
  "length (m_tiles (set_tile f x y m)) = length (m_tiles m)" "m_items (set_tile f x y m) = m_items m"
  by (simp_all add: set_tile_def)

lemma map_wf_same:
  "m_width m' = m_width m \<Longrightarrow> m_height m' = m_height m \<Longrightarrow> length (m_tiles m') = length (m_tiles m) \<Longrightarrow>
   m_chests m' = m_chests m \<Longrightarrow> m_npcs m' = m_npcs m \<Longrightarrow> map_wf m' = map_wf m"
  by (simp add: map_wf_def chest_wf_def InBounds_cong [of m' m])

lemma skip_table_keeps: "skip_table f k s = Inr s' \<Longrightarrow> snd s' = snd s"
  by (auto simp: skip_table_def bind_out_Inr_iff)

lemma load_row_keeps:
  assumes step: "\<And>y s s'. 0 \<le> y \<Longrightarrow> P (snd s) \<Longrightarrow> row y s = Inr s' \<Longrightarrow> P (snd s')"
    and row: "load_row f row s = Inr s'" and wf: "P (snd s)"
  shows "P (snd s')"
proof -
  obtain buf pos where b: "times_do (nat (uchar1 buf 1)) (row (uchar1 buf 0)) (pos, snd s) = Inr s'"
    using row by (auto simp: load_row_def bind_out_Inr_iff)
  show ?thesis
    by (rule times_do_inv [where P = "\<lambda>s. P (snd s)", OF step [OF uchar1_range(1)] b]) (use wf in simp_all)
qed

lemma load_rows_keep:
  assumes step: "\<And>y s s'. 0 \<le> y \<Longrightarrow> P (snd s) \<Longrightarrow> row y s = Inr s' \<Longrightarrow> P (snd s')"
    and rows: "load_rows f row s = Inr s'" and wf: "P (snd s)"
  shows "P (snd s')"
proof -
  obtain buf pos where b: "times_do (nat (uchar1 buf 0)) (load_row f row) (pos, snd s) = Inr s'"
    using rows by (auto simp: load_rows_def bind_out_Inr_iff)
  show ?thesis
    by (rule times_do_inv [where P = "\<lambda>s. P (snd s)", OF load_row_keeps [where P = P and row = row, OF step] b]) (use wf in simp_all)
qed

lemma wf_set_tile [simp]: "map_wf (set_tile f x y m) = map_wf m"
  by (rule map_wf_same) simp_all

lemma wf_spikes [simp]: "map_wf (m\<lparr>m_timed_spikes := b\<rparr>) = map_wf m"
  by (rule map_wf_same) simp_all

lemma wf_add_chest:
  "map_wf m \<Longrightarrow> InBounds m x y \<Longrightarrow> 0 \<le> x \<Longrightarrow> 0 \<le> y \<Longrightarrow> cs = m_chests m @ [new_chest env x y] \<Longrightarrow>
   map_wf (m\<lparr>m_chests := cs\<rparr>)"
  by (auto simp: map_wf_def chest_wf_def new_chest_def InBounds_def)

lemma InBounds_set_tile [simp]: "InBounds (set_tile f x y m) = InBounds m"
  by (rule InBounds_cong) simp_all

lemma load_spec_keeps:
  assumes "0 \<le> y" "map_wf (snd s)" "load_spec env f y s = Inr s'"
  shows "map_wf (snd s')"
  using assms by (auto simp: load_spec_def bind_out_Inr_iff Let_def intro!: wf_add_chest split: if_splits)

lemma load_warp_keeps:
  assumes "map_wf (snd s)" "load_warp f y s = Inr s'"
  shows "map_wf (snd s')"
  using assms by (auto simp: load_warp_def bind_out_Inr_iff Let_def split: if_splits)

lemma add_npc_keeps:
  assumes "map_wf (snd s) \<and> fst s = int (length (m_npcs (snd s)))" "add_npc npc s = Inr s'"
    and "\<And>i. ns_index (npc i) = i" "\<And>i. 0 \<le> ns_x (npc i) \<and> 0 \<le> ns_y (npc i)"
  shows "map_wf (snd s') \<and> fst s' = int (length (m_npcs (snd s')))"
proof (cases "InBounds (snd s) (ns_x (npc (to_uchar (fst s)))) (ns_y (npc (to_uchar (fst s))))")
  case True
  then show ?thesis
    using assms by (auto simp: add_npc_def Let_def map_wf_def chest_wf_def InBounds_def nth_append less_Suc_eq)
qed (use assms in \<open>auto simp: add_npc_def Let_def\<close>)

lemma load_npc_keeps:
  assumes wf: "map_wf (snd (snd s)) \<and> fst (snd s) = int (length (m_npcs (snd (snd s))))" and step: "load_npc f s = Inr s'"
  shows "map_wf (snd (snd s')) \<and> fst (snd s') = int (length (m_npcs (snd (snd s'))))"
proof -
  obtain buf pos where t: "times_do (nat (uchar1 buf 7)) (add_npc (\<lambda>index. \<lparr>ns_id = short2 buf 2, ns_x = uchar1 buf 0,
      ns_y = uchar1 buf 1, ns_spawntype = uchar1 buf 4, ns_spawntime = short2 buf 5, ns_index = index\<rparr>)) (snd s) = Inr (snd s')"
    using step by (auto simp: load_npc_def bind_out_Inr_iff Let_def)
  define npc where "npc index = \<lparr>ns_id = short2 buf 2, ns_x = uchar1 buf 0,
      ns_y = uchar1 buf 1, ns_spawntype = uchar1 buf 4, ns_spawntime = short2 buf 5, ns_index = index\<rparr>" for index
  have npc: "ns_index (npc i) = i" "0 \<le> ns_x (npc i) \<and> 0 \<le> ns_y (npc i)" for i by (simp_all add: npc_def)
  show ?thesis
    by (rule times_do_inv [where P = "\<lambda>s. map_wf (snd s) \<and> fst s = int (length (m_npcs (snd s)))",
        OF add_npc_keeps [where npc = npc, OF _ _ npc] t [folded npc_def] wf])
qed

lemma first_chest_cases:
  "c \<in> set (first_chest_at x y f cs) \<Longrightarrow> c \<in> set cs \<or> (\<exists>d \<in> set cs. c = f d)"
  by (induction cs) (auto split: if_splits)

lemma chest_wf_add_spawn:
  "chest_wf m c \<Longrightarrow> 0 < cs_amount sp \<Longrightarrow> 1 \<le> cs_slot sp \<Longrightarrow> cs_slot sp \<le> slot + 1 \<Longrightarrow> chest_wf m (add_spawn sp key slot c)"
  by (auto simp: chest_wf_def add_spawn_def)

lemma num_nonneg [simp]: "0 \<le> num1 buf i" "0 \<le> num3 buf i"
  by (simp_all add: num1_def num3_def)

lemma load_chest_spawn_keeps:
  assumes wf: "map_wf (snd (snd s))" and step: "load_chest_spawn now sr pct rnd f s = Inr s'"
  shows "map_wf (snd (snd s'))"
proof -
  obtain buf pos where b: "fread f 12 (fst s) (snd (snd s)) = Inr (buf, pos)"
    using step by (auto simp: load_chest_spawn_def bind_out_Inr_iff)
  let ?m = "snd (snd s)"
  consider "snd (snd s') = ?m" | sp key x y where "0 < cs_amount sp" "cs_slot sp = num1 buf 4 + 1"
      "snd (snd s') = ?m\<lparr>m_chests := first_chest_at x y (add_spawn sp key (num1 buf 4)) (m_chests ?m)\<rparr>"
  proof (cases "num3 buf 9 = 0 \<or> \<not> has_chest_at (uchar1 buf 0) (uchar1 buf 1) (m_chests ?m)")
    case True
    then show thesis using that(1) step b by (auto simp: load_chest_spawn_def Let_def)
  next
    case False
    define sp where "sp = new_spawn now sr pct (rnd (fst (snd s))) buf"
    have "cs_amount sp = num3 buf 9" "cs_slot sp = num1 buf 4 + 1" by (simp_all add: sp_def new_spawn_def Let_def)
    moreover have "snd (snd s') = ?m\<lparr>m_chests := first_chest_at
        (uchar1 buf 0) (uchar1 buf 1) (add_spawn sp (short2 buf 2) (num1 buf 4)) (m_chests ?m)\<rparr>"
      using step b False by (auto simp: load_chest_spawn_def Let_def sp_def)
    ultimately show thesis using that(2) [of sp] False num_nonneg(2) [of buf 9] by (metis order_le_less)
  qed
  then show ?thesis
  proof cases
    case (2 sp key x y)
    have "chest_wf ?m c" if "c \<in> set (first_chest_at x y (add_spawn sp key (num1 buf 4)) (m_chests ?m))" for c
      using first_chest_cases [OF that] wf chest_wf_add_spawn [of ?m _ sp "num1 buf 4" key] 2(1,2) num_nonneg(1) [of buf 4]
      by (auto simp: map_wf_def)
    then show ?thesis
      using wf 2(3) by (auto simp: map_wf_def chest_wf_def InBounds_def)
  qed (use wf in simp)
qed

lemma load_header_wf:
  assumes "load_header f m = Inr m'" "m_tiles m = []" "m_chests m = []" "m_npcs m = []"
  shows "map_wf m' \<and> m_npcs m' = []"
proof -
  obtain buf a b c d e g h i where m': "m' = m\<lparr>m_rid := a, m_pk := b, m_effect := c, m_width := to_uchar (num1 buf 0 + 1),
      m_height := to_uchar (num1 buf 1 + 1),
      m_tiles := resize_tiles (nat (to_uchar (num1 buf 1 + 1) * to_uchar (num1 buf 0 + 1))) [],
      m_scroll := g, m_relog_x := h, m_relog_y := i\<rparr>"
    using assms by (auto simp: load_header_def bind_out_Inr_iff Let_def)
  have "0 \<le> to_uchar n \<and> to_uchar n \<le> 255" for n by (auto simp: to_uchar_def)
  then show ?thesis using assms(3,4) by (auto simp: m' map_wf_def resize_tiles_def)
qed

lemma load_spec_npcs: "load_spec env f y s = Inr s' \<Longrightarrow> m_npcs (snd s') = m_npcs (snd s)"
  by (auto simp: load_spec_def bind_out_Inr_iff Let_def split: if_splits)

lemma load_warp_npcs: "load_warp f y s = Inr s' \<Longrightarrow> m_npcs (snd s') = m_npcs (snd s)"
  by (auto simp: load_warp_def bind_out_Inr_iff Let_def split: if_splits)

lemma load_body_wf:
  assumes step: "load_body env now sr pct rnd f m = Inr m'" and wf: "map_wf m" "m_npcs m = []"
  shows "map_wf m'"
proof -
  let ?P = "\<lambda>m. map_wf m \<and> m_npcs m = []"
  obtain s1 s2 s3 s4 s5 buf1 p1 p2 i6 m6 s7 buf2 p3 p4 i8 m8 where s: "skip_table f 8 (46, m) = Inr s1"
    "skip_table f 4 s1 = Inr s2" "skip_table f 12 s2 = Inr s3" "load_rows f (load_spec env f) s3 = Inr s4"
    "load_rows f (load_warp f) s4 = Inr s5"
    "times_do (nat (uchar1 buf1 0)) (load_npc f) (p1, 0, snd s5) = Inr (p2, i6, m6)"
    "skip_table f 4 (p2, m6) = Inr s7"
    "times_do (nat (uchar1 buf2 0)) (load_chest_spawn now sr pct rnd f) (p3, 0, snd s7) = Inr (p4, i8, m8)"
    "m' = m8\<lparr>m_filesize := int (length f), m_exists := True\<rparr>"
    using step by (auto simp: load_body_def bind_out_Inr_iff Let_def)
  have "?P (snd s3)"
    using skip_table_keeps [OF s(1)] skip_table_keeps [OF s(2)] skip_table_keeps [OF s(3)] wf by simp
  have 4: "?P (snd s4)"
    by (rule load_rows_keep [where P = ?P, OF _ s(4) \<open>?P (snd s3)\<close>]) (use load_spec_keeps load_spec_npcs in auto)
  have 5: "?P (snd s5)"
    by (rule load_rows_keep [where P = ?P, OF _ s(5) 4]) (use load_warp_keeps load_warp_npcs in auto)
  have "map_wf (snd (snd (p2, i6, m6))) \<and> fst (snd (p2, i6, m6)) = int (length (m_npcs (snd (snd (p2, i6, m6)))))"
    by (rule times_do_inv [OF load_npc_keeps s(6)]) (use 5 in simp_all)
  then have "map_wf (snd s7)" using skip_table_keeps [OF s(7)] by simp
  then have "map_wf (snd (snd (p4, i8, m8)))"
    by (intro times_do_inv [where P = "\<lambda>s. map_wf (snd (snd s))", OF load_chest_spawn_keeps s(8)]) simp_all
  moreover have "map_wf m' = map_wf m8" by (rule map_wf_same) (simp_all add: s(9))
  ultimately show ?thesis by simp
qed

lemma wf_tile:
  assumes "map_wf m" "InBounds m x y" "0 \<le> x" "0 \<le> y"
  shows "GetTile m x y = Inr (m_tiles m ! tile_index m x y) \<and> tile_index m x y < length (m_tiles m)"
proof -
  have b: "x < m_width m" "y < m_height m" using assms(2) by (auto simp: InBounds_def)
  then have "y * m_width m + x < y * m_width m + m_width m" by simp
  also have "\<dots> = (y + 1) * m_width m" by (simp add: ring_distribs)
  also have "\<dots> \<le> m_height m * m_width m" using assms(1) b by (intro mult_right_mono) (auto simp: map_wf_def)
  finally have "y * m_width m + x < m_height m * m_width m" .
  moreover have "0 \<le> y * m_width m + x" using assms by (simp add: map_wf_def)
  ultimately have "tile_index m x y < length (m_tiles m)"
    using assms(1) unfolding tile_index_def map_wf_def by (simp add: nat_less_iff)
  then show ?thesis using assms(2) by (simp add: GetTile_def)
qed

text \<open>
  C25: A map that \<open>Load\<close> read is well-formed: every position on it has a tile, so looking at one neither
  throws nor reads outside the list; every chest lies on the map, is empty and has only spawns with an
  amount and a slot of the chest; every NPC stands on the map, numbered in the order of the file. No file makes \<open>Load\<close> run for ever.
\<close>

theorem loaded_map_wf:
  assumes "Load env now sr pct rnd file (Unload m) = (True, m')"
  shows "map_wf m' \<and> m_exists m' \<and>
    (\<forall>x y. 0 \<le> x \<longrightarrow> 0 \<le> y \<longrightarrow> InBounds m' x y \<longrightarrow> (\<exists>t. GetTile m' x y = Inr t \<and> GetSpec m' x y = Inr (tilespec t)))"
proof -
  obtain f m1 where f: "load_header f ((Unload m)\<lparr>m_timed_spikes := False\<rparr>) = Inr m1" "load_body env now sr pct rnd f m1 = Inr m'"
    using assms by (auto simp: Load_def bind_out_Inr_iff split: if_splits option.splits sum.splits)
  have "map_wf m1 \<and> m_npcs m1 = []" by (rule load_header_wf [OF f(1)]) (simp_all add: Unload_def)
  then have wf: "map_wf m'" using load_body_wf [OF f(2)] by blast
  moreover have "m_exists m'" using f(2) by (auto simp: load_body_def bind_out_Inr_iff Let_def)
  ultimately show ?thesis using wf_tile [OF wf] by (simp add: GetSpec_def)
qed

text \<open>A map of two tiles in a row: a chest on the left, a warp on the right, and one NPC.\<close>

definition small_map_file :: bytes where
  "small_map_file =
     [69, 77, 70, 1, 2, 3, 4] @ replicate 24 254 @ [4, 1] @ replicate 4 254 @ [2, 1] @ replicate 3 254 @ [1, 1, 1] @ [254] @
     [2, 1, 1, 5, 254, 1, 11, 254, 2] @ [254, 254] @
     [2, 1, 2, 1, 10] @ [2, 1, 2, 2, 6, 254, 2, 3, 1, 1, 254]"

definition blank_map :: map_data where
  "blank_map = \<lparr>m_id = 5, m_rid = [], m_pk = False, m_effect = 0, m_filesize = 0, m_width = 0, m_height = 0, m_scroll = False,
     m_relog_x = 0, m_relog_y = 0, m_tiles = [], m_chests = [], m_npcs = [], m_items = [], m_exists = False,
     m_timed_spikes = False\<rparr>"

lemma small_map:
  "map_prod id (\<lambda>m. (m_width m, m_height m, map tilespec (m_tiles m), map (wp_map \<circ> tile_warp) (m_tiles m),
      map (\<lambda>c. (chest_x c, chest_y c)) (m_chests m), map ns_id (m_npcs m), m_filesize m))
     (Load sample_env (Fin 0) (Fin 0) False (\<lambda>_. (0, 0)) (Some small_map_file) (Unload blank_map)) =
   (True, 2, 1, [Tile_Chest, Tile_None], [0, 5], [(0, 0)], [4], 73)"
  by code_simp

theorem loaded_map_wf_witness:
  "\<exists>m. Load sample_env (Fin 0) (Fin 0) False (\<lambda>_. (0, 0)) (Some small_map_file) (Unload blank_map) = (True, m) \<and>
    map_wf m \<and> m_width m = 2"
proof -
  obtain m where m: "Load sample_env (Fin 0) (Fin 0) False (\<lambda>_. (0, 0)) (Some small_map_file) (Unload blank_map) = (True, m)"
      "m_width m = 2"
    using small_map by (cases "Load sample_env (Fin 0) (Fin 0) False (\<lambda>_. (0, 0)) (Some small_map_file) (Unload blank_map)") auto
  then show ?thesis using loaded_map_wf [OF m(1)] by blast
qed

end
