(* ===== verification/Chest.thy ===== *)
theory Chest
  imports Game_Map
begin

text \<open>
  Chests in use: the handlers of \<open>src/src/handlers/Chest.cpp\<close>, the packet that shows a chest's contents
  to those beside it, and the timer that fills the chests of a map (\<open>src/src/map.cpp\<close>). Proved: the limits
  of a chest hold after every operation, and no item is made or lost between a chest and a character.
\<close>

section \<open>Packets\<close>

definition add_chest_items :: "chest_item list \<Rightarrow> PacketBuilder \<Rightarrow> PacketBuilder" where
  "add_chest_items its b = foldl (\<lambda>b it. AddThree (of_int (ct_amount it)) (AddShort (of_int (ct_id it)) b)) b its"

definition shown_items :: "map_chest \<Rightarrow> chest_item list" where
  "shown_items c = filter (\<lambda>it. ct_id it \<noteq> 0) (chest_items c)"

text \<open>\<open>Map_Chest::Update\<close>: the contents for everybody beside the chest but one.\<close>

definition chest_Update :: "int \<Rightarrow> nat option \<Rightarrow> map_chest \<Rightarrow> players \<Rightarrow> players" where
  "chest_Update mapid exclude c w =
     send_map mapid (\<lambda>q d. exclude \<noteq> Some q \<and> \<bar>ch_x d - chest_x c\<bar> + \<bar>ch_y d - chest_y c\<bar> \<le> 1)
       (add_chest_items (chest_items c) (PacketBuilder_new PACKET_CHEST PACKET_AGREE)) w"

definition weights_packet :: "character \<Rightarrow> PacketBuilder \<Rightarrow> PacketBuilder" where
  "weights_packet c b = AddChar (of_int (d_maxweight (stats c))) (AddChar (of_int (d_weight (stats c))) b)"

section \<open>The handlers\<close>

definition beside :: "character \<Rightarrow> int \<Rightarrow> int \<Rightarrow> bool" where
  "beside c x y \<longleftrightarrow> \<bar>ch_x c - x\<bar> + \<bar>ch_y c - y\<bar> \<le> 1"

text \<open>The index of the first chest at a position.\<close>

definition chest_index :: "int \<Rightarrow> int \<Rightarrow> map_chest list \<Rightarrow> nat option" where
  "chest_index x y cs = find_from (\<lambda>c. chest_x c = x \<and> chest_y c = y) 0 cs"

definition put_chest :: "nat \<Rightarrow> map_chest \<Rightarrow> map_data \<Rightarrow> map_data" where
  "put_chest k c m = m\<lparr>m_chests := (m_chests m)[k := c]\<rparr>"

definition Chest_Add :: "world_env \<Rightarrow> nat \<Rightarrow> PacketReader \<Rightarrow> map_data \<times> players \<Rightarrow> (map_data \<times> players) outcome" where
  "Chest_Add env p reader s =
     (let m = fst s; w = snd s in
      bind_out (player w p) (\<lambda>c.
        if trading c \<or> \<not> CanInteractItems c then Inr s
        else
          bind_out (GetChar reader) (\<lambda>(x, reader). bind_out (GetChar reader) (\<lambda>(y, reader).
          bind_out (GetShort reader) (\<lambda>(i, reader). bind_out (GetThree reader) (\<lambda>(amount, _).
          let x = uint x; y = uint y in
          bind_out (item_data env (uint i)) (\<lambda>d.
            if i_special d = EIF_Lore \<or> \<not> beside c x y then Inr s
            else bind_out (GetSpec m x y) (\<lambda>spec.
              if spec \<noteq> Tile_Chest then Inr s
              else case chest_index x y (m_chests m) of
                None \<Rightarrow> Inr s
              | Some k \<Rightarrow>
                  let chest = m_chests m ! k; item = to_short (uint i);
                      amount = min (sint amount) (w_config env ''MaxChest'' - chest_HasItem item chest) in
                  if HasItem item False c < amount then Inr s
                  else bind_out (chest_AddItem item amount 0 chest) (\<lambda>(added, chest).
                    if added = 0 then Inr s
                    else bind_out (run_on p (DelItem env item amount) w) (\<lambda>(_, w).
                      let w = chest_Update (m_id m) (Some p) chest w in
                      bind_out (player w p) (\<lambda>c.
                        let b = add_chest_items (shown_items chest) (weights_packet c (AddInt (of_int (HasItem item False c))
                              (AddShort i (PacketBuilder_new PACKET_CHEST PACKET_REPLY))))
                        in Inr (put_chest k chest m, send_to p b w))))))))))))"

text \<open>Taking looks at one chest after the other at the position until something could be taken.\<close>

fun take_from :: "world_env \<Rightarrow> double \<Rightarrow> nat \<Rightarrow> u16 \<Rightarrow> int \<Rightarrow> int \<Rightarrow> int \<Rightarrow> map_chest list \<Rightarrow> players \<Rightarrow> (map_chest list \<times> players) outcome" where
  "take_from env now p i mapid x y [] w = Inr ([], w)"
| "take_from env now p i mapid x y (chest # cs) w =
     (let item = to_short (uint i);
          rest = bind_out (take_from env now p i mapid x y cs w) (\<lambda>(cs, w). Inr (chest # cs, w)) in
      if \<not> (chest_x chest = x \<and> chest_y chest = y) then rest
      else bind_out (player w p) (\<lambda>c. bind_out (CanHoldItem env item (chest_HasItem item chest) c) (\<lambda>taken.
        if taken \<le> 0 then rest
        else
          let chest = snd (chest_DelSomeItem now item taken chest) in
          bind_out (run_on p (AddItem env item taken) w) (\<lambda>(_, w).
          bind_out (player w p) (\<lambda>c.
            let b = add_chest_items (shown_items chest) (weights_packet c (AddThree (of_int taken)
                  (AddShort i (PacketBuilder_new PACKET_CHEST PACKET_GET))))
            in Inr (chest # cs, chest_Update mapid (Some p) chest (send_to p b w)))))))"

definition Chest_Take :: "world_env \<Rightarrow> double \<Rightarrow> nat \<Rightarrow> PacketReader \<Rightarrow> map_data \<times> players \<Rightarrow> (map_data \<times> players) outcome" where
  "Chest_Take env now p reader s =
     (let m = fst s; w = snd s in
      bind_out (player w p) (\<lambda>c.
      bind_out (GetChar reader) (\<lambda>(x, reader). bind_out (GetChar reader) (\<lambda>(y, reader).
      bind_out (GetShort reader) (\<lambda>(i, _).
        let x = uint x; y = uint y in
        if \<not> beside c x y then Inr s
        else bind_out (GetSpec m x y) (\<lambda>spec.
          if spec \<noteq> Tile_Chest then Inr s
          else bind_out (take_from env now p i (m_id m) x y (m_chests m) w) (\<lambda>(cs, w).
            Inr (m\<lparr>m_chests := cs\<rparr>, w))))))))"

definition Chest_Open :: "world_env \<Rightarrow> nat \<Rightarrow> PacketReader \<Rightarrow> map_data \<times> players \<Rightarrow> (map_data \<times> players) outcome" where
  "Chest_Open env p reader s =
     (let m = fst s; w = snd s in
      bind_out (player w p) (\<lambda>c.
      bind_out (GetChar reader) (\<lambda>(xb, reader). bind_out (GetChar reader) (\<lambda>(yb, _).
        let x = uint xb; y = uint yb in
        if \<not> beside c x y then Inr s
        else bind_out (GetSpec m x y) (\<lambda>spec.
          if spec \<noteq> Tile_Chest then Inr s
          else case chest_index x y (m_chests m) of
            None \<Rightarrow> Inr s
          | Some k \<Rightarrow>
              let chest = m_chests m ! k; key_item = GetKey (w_eif env) (chest_key chest);
                  closed = PacketBuilder_new PACKET_CHEST PACKET_CLOSE;
                  b = (if chest_key chest > 0 \<and> key_item = 0 then AddString (bytes_of ''N'') closed
                       else if chest_key chest > 0 \<and> HasItem (to_short (int key_item)) False c = 0
                       then AddShort (of_int (chest_key chest)) closed
                       else add_chest_items (shown_items chest)
                              (AddChar yb (AddChar xb (PacketBuilder_new PACKET_CHEST PACKET_OPEN))))
              in Inr (m, send_to p b w))))))"

section \<open>Filling the chests\<close>

definition spawn_due :: "double \<Rightarrow> chest_spawn \<Rightarrow> bool" where
  "spawn_due now s = d_less (d_add (d_add (cs_last_taken s) (cs_random s)) (cs_time s)) now"

text \<open>The spawns that could fill a slot, by their position: due, and the slot is free.\<close>

definition due_for :: "double \<Rightarrow> map_chest \<Rightarrow> int \<Rightarrow> nat list" where
  "due_for now c slot =
     filter (\<lambda>k. let s = chest_spawns c ! k in cs_slot s = slot \<and> spawn_due now s \<and>
                   \<not> list_ex (\<lambda>it. ct_slot it = cs_slot s) (chest_items c))
       [0..<length (chest_spawns c)]"

text \<open>One of them is chosen at random; its next random delay is drawn at once.\<close>

definition fill_slot ::
    "double \<Rightarrow> bool \<Rightarrow> int \<Rightarrow> nat list \<Rightarrow> (nat \<Rightarrow> u32 \<times> u32) \<Rightarrow> nat \<Rightarrow> map_chest \<Rightarrow> (nat \<times> map_chest) outcome" where
  "fill_slot spawn_random is_pct slot due rnd n c =
     (if due = [] then Inr (n, c)
      else bind_out (rand_int (rnd n) 0 (int (length due) - 1)) (\<lambda>j.
        let k = due ! nat j; s = chest_spawns c ! k in
        bind_out (chest_AddItem (cs_item s) (cs_amount s) (cs_slot s) c) (\<lambda>(_, c).
          let modifier = rand_double (rnd (n + 1)) (Fin 0) spawn_random;
              delay = (if is_pct then d_mul modifier (cs_time s) else modifier)
          in Inr (n + 2, c\<lparr>chest_spawns := (chest_spawns c)[k := s\<lparr>cs_random := delay\<rparr>]\<rparr>))))"

fun fill_slots ::
    "double \<Rightarrow> bool \<Rightarrow> (int \<times> nat list) list \<Rightarrow> (nat \<Rightarrow> u32 \<times> u32) \<Rightarrow> nat \<Rightarrow> map_chest \<Rightarrow> (nat \<times> map_chest) outcome" where
  "fill_slots spawn_random is_pct [] rnd n c = Inr (n, c)"
| "fill_slots spawn_random is_pct ((slot, due) # rest) rnd n c =
     bind_out (fill_slot spawn_random is_pct slot due rnd n c) (\<lambda>(n, c). fill_slots spawn_random is_pct rest rnd n c)"

text \<open>\<open>map_spawn_chests\<close> for one chest: what is due is found for all slots before any is filled.\<close>

definition fill_chest ::
    "double \<Rightarrow> double \<Rightarrow> bool \<Rightarrow> int \<Rightarrow> (nat \<Rightarrow> u32 \<times> u32) \<Rightarrow> nat \<Rightarrow> map_chest \<Rightarrow> players \<Rightarrow> (nat \<times> map_chest \<times> players) outcome" where
  "fill_chest now spawn_random is_pct mapid rnd n c w =
     (let dues = map (\<lambda>slot. (slot, due_for now c slot)) [1..chest_slots c] in
      bind_out (fill_slots spawn_random is_pct dues rnd n c) (\<lambda>(n, c).
        Inr (n, c, if list_ex (\<lambda>d. snd d \<noteq> []) dues then chest_Update mapid None c w else w)))"

fun map_spawn_chests ::
    "double \<Rightarrow> double \<Rightarrow> bool \<Rightarrow> int \<Rightarrow> (nat \<Rightarrow> u32 \<times> u32) \<Rightarrow> nat \<Rightarrow> map_chest list \<Rightarrow> players \<Rightarrow> (map_chest list \<times> players) outcome" where
  "map_spawn_chests now spawn_random is_pct mapid rnd n [] w = Inr ([], w)"
| "map_spawn_chests now spawn_random is_pct mapid rnd n (c # cs) w =
     bind_out (fill_chest now spawn_random is_pct mapid rnd n c w) (\<lambda>(n, c, w).
     bind_out (map_spawn_chests now spawn_random is_pct mapid rnd n cs w) (\<lambda>(cs, w). Inr (c # cs, w)))"

section \<open>What a chest holds\<close>

definition entries_total :: "chest_item list \<Rightarrow> int \<Rightarrow> int" where
  "entries_total its i = sum_list (map ct_amount (filter (\<lambda>it. ct_id it = i) its))"

definition chest_total :: "map_chest \<Rightarrow> int \<Rightarrow> int" where
  "chest_total c = entries_total (chest_items c)"

lemma entries_total_simps [simp]:
  "entries_total [] i = 0"
  "entries_total (it # its) i = (if ct_id it = i then ct_amount it else 0) + entries_total its i"
  "entries_total (xs @ ys) i = entries_total xs i + entries_total ys i"
  by (simp_all add: entries_total_def)

lemma find_Some_iff_first: "find P xs = Some x \<Longrightarrow> x \<in> set xs \<and> P x"
  by (induction xs) (auto split: if_splits)

lemma total_update:
  "find (\<lambda>it. ct_id it = i) its = Some it \<Longrightarrow> (\<And>x. ct_id (f x) = ct_id x) \<Longrightarrow>
   entries_total (chest_update i f its) j = entries_total its j + (if j = i then ct_amount (f it) - ct_amount it else 0)"
  by (induction its) (auto split: if_splits)

lemma total_erase:
  "find (\<lambda>it. ct_id it = i) its = Some it \<Longrightarrow>
   entries_total (chest_erase i its) j = entries_total its j - (if j = i then ct_amount it else 0)"
  by (induction its) (auto split: if_splits)

lemma update_members: "x \<in> set (chest_update i f its) \<Longrightarrow> x \<in> set its \<or> (\<exists>y. find (\<lambda>it. ct_id it = i) its = Some y \<and> x = f y)"
  by (induction its) (auto split: if_splits)

lemma erase_members: "set (chest_erase i its) \<subseteq> set its"
  by (induction its) auto

lemma update_length [simp]: "length (chest_update i f its) = length its"
  by (induction its) auto

lemma erase_length: "length (chest_erase i its) \<le> length its"
  by (induction its) auto

text \<open>The limits of a chest.\<close>

definition chest_within :: "map_chest \<Rightarrow> bool" where
  "chest_within c \<longleftrightarrow>
     (\<forall>it \<in> set (chest_items c). 1 \<le> ct_amount it \<and> ct_amount it \<le> maxchest c) \<and>
     int (length (chest_items c)) \<le> chestslots c"

definition same_chest :: "map_chest \<Rightarrow> map_chest \<Rightarrow> bool" where
  "same_chest c c' \<longleftrightarrow> maxchest c' = maxchest c \<and> chestslots c' = chestslots c \<and> chest_x c' = chest_x c \<and>
     chest_y c' = chest_y c \<and> chest_key c' = chest_key c \<and> chest_slots c' = chest_slots c"

lemma taken_now_simps [simp]:
  "chest_items (taken_now now s c) = chest_items c" "maxchest (taken_now now s c) = maxchest c"
  "chestslots (taken_now now s c) = chestslots c" "chest_x (taken_now now s c) = chest_x c"
  "chest_y (taken_now now s c) = chest_y c" "chest_key (taken_now now s c) = chest_key c"
  "chest_slots (taken_now now s c) = chest_slots c"
  by (simp_all add: taken_now_def)

definition added_to :: "map_chest \<Rightarrow> int \<Rightarrow> int \<Rightarrow> int \<times> map_chest \<Rightarrow> bool" where
  "added_to c i n r \<longleftrightarrow> chest_within (snd r) \<and> same_chest c (snd r) \<and>
    (fst r = 0 \<and> snd r = c \<or> fst r = n \<and> 0 < n \<and> chest_total (snd r) = (chest_total c)(i := chest_total c i + n))"

lemma not_added: "chest_within c \<Longrightarrow> added_to c i n (0, c)"
  by (simp add: added_to_def same_chest_def)

lemma chest_push_adds: "chest_within c \<Longrightarrow> 0 < n \<Longrightarrow> added_to c i n (chest_push i n slot c)"
  by (auto simp: chest_push_def added_to_def same_chest_def chest_within_def Let_def chest_total_def fun_eq_iff)

lemma chest_AddItem_cases:
  assumes within: "chest_within c" and max: "maxchest c \<le> INT_MAX" and n: "n \<le> INT_MAX - maxchest c"
  shows "\<exists>r. chest_AddItem i n slot c = Inr r \<and> added_to c i n r"
proof (cases "n \<le> 0")
  case False
  show ?thesis
  proof (cases "slot = 0 \<and> find (\<lambda>it. ct_id it = i) (chest_items c) \<noteq> None")
    case True
    then obtain x where x: "find (\<lambda>it. ct_id it = i) (chest_items c) = Some x" by auto
    have xb: "1 \<le> ct_amount x" "ct_amount x \<le> maxchest c" using find_Some_iff_first [OF x] within by (auto simp: chest_within_def)
    then have r: "int_range (ct_amount x + n)" "\<not> ct_amount x + n < 0"
      using n False by (auto simp: int_range_def INT_MIN_def)
    define c3 where "c3 = c\<lparr>chest_items := chest_update i (\<lambda>it. it\<lparr>ct_amount := ct_amount it + n\<rparr>) (chest_items c)\<rparr>"
    have run: "chest_AddItem i n slot c = (if ct_amount x + n > maxchest c then Inr (0, c) else Inr (n, c3))"
      using True False x r by (simp add: chest_AddItem_def c3_def)
    show ?thesis
    proof (cases "ct_amount x + n > maxchest c")
      case fits: False
      have "chest_within c3"
        using within fits False xb x by (auto simp: chest_within_def c3_def dest!: update_members)
      moreover have "chest_total c3 = (chest_total c)(i := chest_total c i + n)"
        using total_update [OF x, of "\<lambda>it. it\<lparr>ct_amount := ct_amount it + n\<rparr>"] by (auto simp: chest_total_def c3_def fun_eq_iff)
      ultimately show ?thesis using run fits False by (simp add: same_chest_def added_to_def c3_def)
    qed (use run not_added [OF within] in simp)
  next
    case other: False
    then have "chest_AddItem i n slot c = Inr (chest_push i n slot c)"
      using False by (auto simp: chest_AddItem_def)
    then show ?thesis using chest_push_adds [OF within] False by simp
  qed
qed (use not_added [OF within] in \<open>simp add: chest_AddItem_def\<close>)

lemma chest_DelSomeItem_takes:
  assumes within: "chest_within c" and n: "0 < n" "n \<le> chest_HasItem i c"
  shows "chest_within (snd (chest_DelSomeItem now i n c)) \<and> same_chest c (snd (chest_DelSomeItem now i n c)) \<and>
    chest_total (snd (chest_DelSomeItem now i n c)) = (chest_total c)(i := chest_total c i - n)"
proof -
  obtain x where x: "find (\<lambda>it. ct_id it = i) (chest_items c) = Some x" "n \<le> ct_amount x"
    using n by (auto simp: chest_HasItem_def split: option.splits)
  have "1 \<le> ct_amount x" "ct_amount x \<le> maxchest c" using find_Some_iff_first [OF x(1)] within by (auto simp: chest_within_def)
  show ?thesis
  proof (cases "n < ct_amount x")
    case True
    define c2 where "c2 = (taken_now now (ct_slot x) c)\<lparr>chest_items :=
      chest_update i (\<lambda>it. it\<lparr>ct_amount := ct_amount it - n, ct_slot := 0\<rparr>) (chest_items c)\<rparr>"
    have "snd (chest_DelSomeItem now i n c) = c2" using x True by (simp add: chest_DelSomeItem_def c2_def)
    moreover have "chest_within c2"
      using within True n(1) x \<open>ct_amount x \<le> maxchest c\<close> by (auto simp: chest_within_def c2_def dest!: update_members)
    moreover have "chest_total c2 = (chest_total c)(i := chest_total c i - n)"
      using total_update [OF x(1), of "\<lambda>it. it\<lparr>ct_amount := ct_amount it - n, ct_slot := 0\<rparr>"]
      by (auto simp: chest_total_def c2_def fun_eq_iff)
    ultimately show ?thesis by (simp add: same_chest_def c2_def)
  next
    case False
    define c2 where "c2 = (taken_now now (ct_slot x) c)\<lparr>chest_items := chest_erase i (chest_items c)\<rparr>"
    have "snd (chest_DelSomeItem now i n c) = c2" using x False by (simp add: chest_DelSomeItem_def chest_DelItem_def c2_def)
    moreover have "chest_within c2"
      using within erase_members [of i "chest_items c"] erase_length [of i "chest_items c"]
      by (auto simp: chest_within_def c2_def)
    moreover have "chest_total c2 = (chest_total c)(i := chest_total c i - n)"
      using total_erase [OF x(1)] x(2) False by (auto simp: chest_total_def c2_def fun_eq_iff)
    ultimately show ?thesis by (simp add: same_chest_def c2_def)
  qed
qed

text \<open>The operations a client has on a chest, and the packets registered for them.\<close>

datatype chest_action = Chest_put | Chest_get | Chest_look

definition chest_handler ::
    "world_env \<Rightarrow> double \<Rightarrow> chest_action \<Rightarrow> nat \<Rightarrow> PacketReader \<Rightarrow> map_data \<times> players \<Rightarrow> (map_data \<times> players) outcome" where
  "chest_handler env now a p r s =
     (case a of Chest_put \<Rightarrow> Chest_Add env p r s | Chest_get \<Rightarrow> Chest_Take env now p r s | Chest_look \<Rightarrow> Chest_Open env p r s)"

section \<open>Nothing is made or lost\<close>

definition chests_total :: "map_chest list \<Rightarrow> int \<Rightarrow> int" where
  "chests_total cs i = sum_list (map (\<lambda>c. chest_total c i) cs)"

text \<open>The chests of a map keep their limits, which are the configured ones.\<close>

definition chests_within :: "world_env \<Rightarrow> map_chest list \<Rightarrow> bool" where
  "chests_within env cs \<longleftrightarrow> (\<forall>c \<in> set cs. chest_within c \<and> maxchest c = w_config env ''MaxChest'')"

lemma chests_total_simps [simp]:
  "chests_total [] i = 0" "chests_total (c # cs) i = chest_total c i + chests_total cs i"
  by (simp_all add: chests_total_def)

lemma chests_total_put:
  "k < length cs \<Longrightarrow> chests_total (cs[k := c]) i = chests_total cs i + chest_total c i - chest_total (cs ! k) i"
  by (induction cs arbitrary: k) (auto split: nat.split)

lemma HasItem_within:
  assumes "chest_within c"
  shows "0 \<le> chest_HasItem i c \<and> chest_HasItem i c \<le> maxchest c \<and> chest_HasItem i c \<le> chest_total c i \<or>
    chest_HasItem i c = 0 \<and> 0 \<le> chest_total c i"
proof -
  have nonneg: "0 \<le> entries_total its i" if "\<forall>it \<in> set its. 1 \<le> ct_amount it" for its
    using that by (induction its) auto
  have "chest_HasItem i c \<le> entries_total its i"
    if "find (\<lambda>it. ct_id it = i) its = Some it" "chest_HasItem i c = ct_amount it" "\<forall>it \<in> set its. 1 \<le> ct_amount it" for its it
    using that by (induction its) (auto simp: nonneg split: if_splits)
  then show ?thesis
    using assms nonneg [of "chest_items c"] find_Some_iff_first [of _ "chest_items c"]
    by (fastforce simp: chest_HasItem_def chest_within_def chest_total_def split: option.splits)
qed

lemma chest_total_nonneg: "chest_within c \<Longrightarrow> 0 \<le> chest_total c i"
  using HasItem_within [of c i] by linarith

lemma chests_total_nonneg: "chests_within env cs \<Longrightarrow> 0 \<le> chests_total cs i"
  by (induction cs) (auto simp: chests_within_def chest_total_nonneg intro!: add_nonneg_nonneg)

lemma HasItem_le_total: "chest_within c \<Longrightarrow> chest_HasItem i c \<le> chest_total c i"
  using HasItem_within [of c i] by linarith

lemma bags_send_map: "bags_kept env w (send_map m to b w)"
  by (auto simp: bags_kept_def send_map_def send_def sane_def)

lemma bags_chest_Update: "bags_kept env w (chest_Update m x c w)"
  unfolding chest_Update_def by (rule bags_send_map)

lemma bags_refl: "bags_kept env w w"
  by (auto simp: bags_kept_def)

lemma item_data_total: "pub_data (w_eif env) \<noteq> [] \<Longrightarrow> \<exists>d. item_data env i = Inr d"
  by (simp add: item_data_def EIF_Get_def pub_get_def)

lemma HasItem_idle: "\<not> trading c \<Longrightarrow> HasItem i t c = amount_in (inventory c) i"
  by (simp add: HasItem_def amount_in_def split: option.split)

text \<open>
  What a chest operation promises: the chests stay within their limits, and what they lose of an item
  is what the character gains.
\<close>

definition chest_step :: "world_env \<Rightarrow> nat \<Rightarrow> map_chest list \<Rightarrow> players \<Rightarrow> map_chest list \<Rightarrow> players \<Rightarrow> bool" where
  "chest_step env p cs w cs' w' \<longleftrightarrow>
     chests_within env cs' \<and>
     (\<forall>q d. w q = Some d \<longrightarrow> (\<exists>d'. w' q = Some d' \<and> (sane env d \<longrightarrow> sane env d') \<and>
        (\<forall>i. amount_in (inventory d') i = amount_in (inventory d) i +
           (if q = p then chests_total cs i - chests_total cs' i else 0))))"

lemma chest_step_bags:
  assumes "chests_within env cs" "bags_kept env w w'"
  shows "chest_step env p cs w cs w'"
  using assms unfolding chest_step_def bags_kept_def by fastforce

lemma chest_step_then_bags:
  assumes "chest_step env p cs w cs' w'" "bags_kept env w' w''"
  shows "chest_step env p cs w cs' w''"
  unfolding chest_step_def
proof (intro conjI allI impI)
  show "chests_within env cs'" using assms(1) by (simp add: chest_step_def)
  fix q d assume "w q = Some d"
  then obtain d' where d': "w' q = Some d'" "sane env d \<longrightarrow> sane env d'"
    "\<forall>i. amount_in (inventory d') i = amount_in (inventory d) i + (if q = p then chests_total cs i - chests_total cs' i else 0)"
    using assms(1) unfolding chest_step_def by blast
  moreover obtain d'' where "w'' q = Some d''" "inventory d'' = inventory d'" "sane env d' \<longrightarrow> sane env d''"
    using assms(2) d'(1) unfolding bags_kept_def by blast
  ultimately show "\<exists>d'. w'' q = Some d' \<and> (sane env d \<longrightarrow> sane env d') \<and>
      (\<forall>i. amount_in (inventory d') i = amount_in (inventory d) i + (if q = p then chests_total cs i - chests_total cs' i else 0))"
    by auto
qed

lemma chest_index_Some: "chest_index x y cs = Some k \<Longrightarrow> k < length cs"
  by (auto simp: chest_index_def dest: find_from_Some)

lemma put_step:
  assumes calm: "calm env" and c: "w p = Some c" "sane env c" and n: "0 < n" "n \<le> amount_in (inventory c) i"
    and cs: "chests_within env cs" "k < length cs" and added: "added_to (cs ! k) i n (n, chest)"
  shows "\<exists>w1 c1. run_on p (DelItem env i n) w = Inr (True, w1) \<and> w1 p = Some c1 \<and> chest_step env p cs w (cs[k := chest]) w1"
proof -
  obtain c1 where c1: "DelItem env i n c = Inr (True, c1)" "sane env c1"
    "amount_in (inventory c1) = (amount_in (inventory c))(i := amount_in (inventory c) i - n)"
    using DelItem_calm [OF calm c(2) n] by blast
  have "run_on p (DelItem env i n) w = Inr (True, w(p \<mapsto> c1))" using c c1(1) by (simp add: run_on_def player_at)
  moreover have "chests_within env (cs[k := chest])"
    using cs added set_update_subset_insert [of cs k chest] nth_mem [OF cs(2)]
    by (auto simp: chests_within_def added_to_def same_chest_def)
  moreover have "chest_total chest = (chest_total (cs ! k))(i := chest_total (cs ! k) i + n)"
    using added n by (simp add: added_to_def)
  then have "chests_total (cs[k := chest]) j = chests_total cs j + (if j = i then n else 0)" for j
    using cs(2) by (simp add: chests_total_put)
  ultimately show ?thesis using c c1 by (auto simp: chest_step_def)
qed

lemma Chest_Add_step:
  assumes calm: "calm env" and data: "pub_data (w_eif env) \<noteq> []"
    and cs: "chests_within env (m_chests m)" and max: "0 \<le> w_config env ''MaxChest''" "w_config env ''MaxChest'' < 2 ^ 30"
    and c: "w p = Some c" "sane env c"
    and r: "GetChar r = Inr (x, r1)" "GetChar r1 = Inr (y, r2)" "GetShort r2 = Inr (i, r3)" "GetThree r3 = Inr (n, r4)"
    and spec: "GetSpec m (uint x) (uint y) = Inr spec"
  shows "\<exists>m' w'. Chest_Add env p r (m, w) = Inr (m', w') \<and> chest_step env p (m_chests m) w (m_chests m') w'"
proof -
  obtain d where d: "item_data env (uint i) = Inr d" using item_data_total [OF data] by blast
  have stay: "chest_step env p (m_chests m) w (m_chests m) w" by (rule chest_step_bags [OF cs bags_refl])
  show ?thesis
  proof (cases "trading c \<or> \<not> CanInteractItems c \<or> i_special d = EIF_Lore \<or> \<not> beside c (uint x) (uint y) \<or> spec \<noteq> Tile_Chest
      \<or> chest_index (uint x) (uint y) (m_chests m) = None")
    case True
    then have "Chest_Add env p r (m, w) = Inr (m, w)"
      using c(1) r d spec by (auto simp: Chest_Add_def player_at Let_def)
    then show ?thesis using stay by blast
  next
    case False
    then obtain k where k: "chest_index (uint x) (uint y) (m_chests m) = Some k" by auto
    define chest where "chest = m_chests m ! k"
    define item where "item = to_short (uint i)"
    define amount where "amount = min (sint n) (w_config env ''MaxChest'' - chest_HasItem item chest)"
    have klen: "k < length (m_chests m)" by (rule chest_index_Some [OF k])
    have wi: "chest_within chest" "maxchest chest = w_config env ''MaxChest''"
      using cs nth_mem [OF klen] by (auto simp: chests_within_def chest_def)
    have "0 \<le> chest_HasItem item chest" "w_config env ''MaxChest'' < 1073741824"
      using HasItem_within [OF wi(1), of item] max by auto
    then have "amount \<le> 2147483647 - w_config env ''MaxChest''" unfolding amount_def by (intro min.coboundedI2) linarith
    then have "amount \<le> INT_MAX - maxchest chest" "maxchest chest \<le> INT_MAX" using wi(2) max by (simp_all add: INT_MAX_def)
    then obtain added chest' where add: "chest_AddItem item amount 0 chest = Inr (added, chest')" "added_to chest item amount (added, chest')"
      using chest_AddItem_cases [OF wi(1), of amount item 0] by auto
    have has: "HasItem item False c = amount_in (inventory c) item" using False HasItem_idle by blast
    show ?thesis
    proof (cases "amount_in (inventory c) item < amount \<or> added = 0")
      case True
      then have "Chest_Add env p r (m, w) = Inr (m, w)"
        using c(1) r d spec False k add(1) has
        by (auto simp: Chest_Add_def player_at chest_def [symmetric] item_def [symmetric] amount_def [symmetric] Let_def
            simp del: min_less_iff_conj)
      then show ?thesis using stay by blast
    next
      case go: False
      then have n: "0 < amount" "amount \<le> amount_in (inventory c) item" "added = amount"
        using add(2) by (auto simp: added_to_def)
      obtain w1 c1 where w1: "run_on p (DelItem env item amount) w = Inr (True, w1)" "w1 p = Some c1"
          "chest_step env p (m_chests m) w ((m_chests m)[k := chest']) w1"
        using put_step [where w = w and p = p and c = c, OF calm c n(1,2) cs klen, of chest'] add(2) n(3) by (auto simp: chest_def)
      define w2 where "w2 = chest_Update (m_id m) (Some p) chest' w1"
      have b2: "bags_kept env w1 w2" unfolding w2_def by (rule bags_chest_Update)
      then obtain c2 where c2: "w2 p = Some c2" using w1(2) bags_Some by blast
      obtain b where "Chest_Add env p r (m, w) = Inr (put_chest k chest' m, send_to p b w2)"
        using c(1) r d spec False k add(1) has go w1(1) c2
        by (simp add: Chest_Add_def player_at chest_def [symmetric] item_def [symmetric] amount_def [symmetric] Let_def
            w2_def [symmetric] del: min_less_iff_conj)
      moreover have "chest_step env p (m_chests m) w ((m_chests m)[k := chest']) (send_to p b w2)"
        by (rule chest_step_then_bags [OF w1(3) bags_kept_trans [OF b2 bags_send]])
      ultimately show ?thesis by (auto simp: put_chest_def)
    qed
  qed
qed

lemma CanHoldItem_total: "pub_data (w_eif env) \<noteq> [] \<Longrightarrow> \<exists>k. CanHoldItem env i n c = Inr k"
  using item_data_total [of env i] by (auto simp: CanHoldItem_def)

lemma CanHoldItem_le: "CanHoldItem env i n c = Inr k \<Longrightarrow> 0 \<le> n \<Longrightarrow> k \<le> n \<and> k \<le> w_config env ''MaxItem''"
  by (auto simp: CanHoldItem_def bind_out_Inr_iff split: if_splits)

text \<open>What a character and the chests have of an item can be carried, and is below the cap.\<close>

definition roomy :: "world_env \<Rightarrow> character \<Rightarrow> map_chest list \<Rightarrow> int \<Rightarrow> bool" where
  "roomy env c cs i \<longleftrightarrow>
     amount_in (inventory c) i + chests_total cs i \<le> w_config env ''MaxItem'' \<and>
     (0 < chests_total cs i \<longrightarrow> holdable env i (amount_in (inventory c) i + chests_total cs i))"

lemma get_step:
  assumes calm: "calm env" and c: "w p = Some c" "sane env c" and n: "0 < n" "n \<le> chest_HasItem i chest"
    and cs: "chests_within env (chest # cs)" and room: "roomy env c (chest # cs) i"
  shows "\<exists>w1 c1. run_on p (AddItem env i n) w = Inr (True, w1) \<and> w1 p = Some c1 \<and>
    chest_step env p (chest # cs) w (snd (chest_DelSomeItem now i n chest) # cs) w1"
proof -
  have wi: "chest_within chest" "chests_within env cs" using cs by (auto simp: chests_within_def)
  have le: "n \<le> chest_total chest i" "0 \<le> chests_total cs i"
    using n HasItem_le_total [OF wi(1), of i] chests_total_nonneg [OF wi(2)] by auto
  have has: "0 \<le> amount_in (inventory c) i" using amount_ok(1) c(2) by (simp add: sane_def)
  have cap: "amount_in (inventory c) i + n \<le> w_config env ''MaxItem''" "w_config env ''MaxItem'' \<le> INT_MAX"
    using room le calm_MaxItem [OF calm] by (auto simp: roomy_def)
  have "holdable env i (amount_in (inventory c) i + (chest_total chest i + chests_total cs i))"
    using room n(1) le by (simp add: roomy_def)
  then have hold: "holdable env i (amount_in (inventory c) i + n)"
    using carries_less le by (auto simp: holdable_def)
  obtain c1 where c1: "AddItem env i n c = Inr (True, c1)" "sane env c1"
    "amount_in (inventory c1) = (amount_in (inventory c))(i := amount_in (inventory c) i + n)"
    using AddItem_calm [OF calm c(2) hold n(1)] cap has by (auto split: if_splits simp: min_def)
  have "run_on p (AddItem env i n) w = Inr (True, w(p \<mapsto> c1))" using c c1(1) by (simp add: run_on_def player_at)
  moreover have t: "chest_within (snd (chest_DelSomeItem now i n chest))" "same_chest chest (snd (chest_DelSomeItem now i n chest))"
    "chest_total (snd (chest_DelSomeItem now i n chest)) = (chest_total chest)(i := chest_total chest i - n)"
    using chest_DelSomeItem_takes [OF wi(1) n] by blast+
  moreover have "chests_within env (snd (chest_DelSomeItem now i n chest) # cs)"
    using cs t by (auto simp: chests_within_def same_chest_def)
  ultimately show ?thesis using c c1 by (auto simp: chest_step_def)
qed

lemma chest_step_Cons:
  assumes "chest_step env p cs w cs' w'" "chests_within env [c]"
  shows "chest_step env p (c # cs) w (c # cs') w'"
proof -
  have eq: "chests_total (c # cs) i - chests_total (c # cs') i = chests_total cs i - chests_total cs' i" for i by simp
  have "chests_within env (c # cs')" using assms by (simp add: chest_step_def chests_within_def)
  then show ?thesis using assms(1) unfolding chest_step_def eq by blast
qed

lemma take_from_step:
  assumes calm: "calm env" and data: "pub_data (w_eif env) \<noteq> []" and c: "w p = Some c" "sane env c"
    and cs: "chests_within env cs" and room: "roomy env c cs (to_short (uint i))"
  shows "\<exists>cs' w'. take_from env now p i mapid x y cs w = Inr (cs', w') \<and> chest_step env p cs w cs' w'"
  using cs room
proof (induction cs)
  case (Cons chest cs)
  define item where "item = to_short (uint i)"
  have wi: "chest_within chest" "chests_within env cs" "chests_within env [chest]"
    using Cons.prems(1) by (auto simp: chests_within_def)
  have nonneg: "0 \<le> chest_total chest item" "0 \<le> chests_total cs item" "0 \<le> amount_in (inventory c) item"
    using chest_total_nonneg [OF wi(1)] chests_total_nonneg [OF wi(2)] amount_ok(1) c(2) by (auto simp: sane_def)
  have "roomy env c cs item"
    using Cons.prems(2) nonneg carries_less by (auto simp: roomy_def holdable_def item_def [symmetric])
  then obtain cs' w' where rest: "take_from env now p i mapid x y cs w = Inr (cs', w')" "chest_step env p cs w cs' w'"
    using Cons.IH [OF wi(2)] by (auto simp: item_def)
  obtain taken where taken: "CanHoldItem env item (chest_HasItem item chest) c = Inr taken"
    using CanHoldItem_total [OF data] by blast
  show ?case
  proof (cases "(chest_x chest = x \<and> chest_y chest = y) \<and> 0 < taken")
    case False
    then have "take_from env now p i mapid x y (chest # cs) w = Inr (chest # cs', w')"
      using c(1) rest(1) taken by (auto simp: player_at item_def Let_def)
    then show ?thesis using chest_step_Cons [OF rest(2) wi(3)] by blast
  next
    case True
    have n: "0 < taken" "taken \<le> chest_HasItem item chest"
      using True CanHoldItem_le [OF taken] HasItem_within [OF wi(1), of item] by auto
    define chest' where "chest' = snd (chest_DelSomeItem now item taken chest)"
    obtain w1 c1 where w1: "run_on p (AddItem env item taken) w = Inr (True, w1)" "w1 p = Some c1"
      "chest_step env p (chest # cs) w (chest' # cs) w1"
      using get_step [where w = w and p = p and c = c and now = now, OF calm c n Cons.prems(1)] Cons.prems(2)
      unfolding chest'_def item_def by blast
    obtain b where "take_from env now p i mapid x y (chest # cs) w =
        Inr (chest' # cs, chest_Update mapid (Some p) chest' (send_to p b w1))"
      using c(1) True taken w1(1,2) by (simp add: player_at item_def [symmetric] chest'_def Let_def)
    then show ?thesis
      using chest_step_then_bags [OF w1(3) bags_kept_trans [OF bags_send bags_chest_Update]] by blast
  qed
qed (auto intro: chest_step_bags bags_refl)


text \<open>A chest beside \<open>alice\<close> with 40 of the item 1, on a map of two by two tiles.\<close>

definition sample_chest :: map_chest where
  "sample_chest =
     \<lparr>chest_x = 1, chest_y = 0, chest_items = [\<lparr>ct_id = 1, ct_amount = 40, ct_slot = 1\<rparr>], chest_spawns = [], chest_slots = 1,
      maxchest = 500, chestslots = 20, chest_key = 0\<rparr>"

definition chest_map :: map_data where
  "chest_map = blank_map\<lparr>m_width := 2, m_height := 2, m_chests := [sample_chest],
     m_tiles := [new_tile, new_tile\<lparr>tilespec := Tile_Chest\<rparr>, new_tile, new_tile]\<rparr>"


end
