(* ===== verification/Floor.thy ===== *)
theory Floor
  imports Chest
begin

text \<open>
  Items on the floor of a map: dropping, taking and junking them (\<open>src/src/handlers/Item.cpp\<close>) on the
  operations of \<open>Map\<close>. Proved: the floor is a finite map from the identifiers that \<open>GenerateItemID\<close>
  gives out to items, and what a character drops or takes is neither doubled nor lost, but for a drop
  on a full tile, which destroys the item.
\<close>

section \<open>The handlers\<close>

text \<open>\<open>ps\<close> and \<open>npcs\<close> are who stands on the map, as for \<open>Occupied\<close>.\<close>

definition own_dropped :: "nat \<Rightarrow> double \<Rightarrow> nat \<Rightarrow> map_item list \<Rightarrow> map_item list" where
  "own_dropped p until n its =
     (if length its = n then its
      else its[n := (its ! n)\<lparr>mi_owner := int p, mi_unprotecttime := until\<rparr>])"

definition drop_reply :: "character \<Rightarrow> u16 \<Rightarrow> int \<Rightarrow> map_item \<Rightarrow> int \<Rightarrow> int \<Rightarrow> PacketBuilder" where
  "drop_reply c i amount it x y =
     AddChar (of_int (d_maxweight (stats c))) (AddChar (of_int (d_weight (stats c))) (AddChar (of_int y) (AddChar (of_int x)
       (AddShort (of_int (mi_uid it)) (AddInt (of_int (HasItem (to_short (uint i)) False c)) (AddThree (of_int amount)
         (AddShort i (PacketBuilder_new PACKET_ITEM PACKET_DROP))))))))"

definition drop_at ::
    "world_env \<Rightarrow> double \<Rightarrow> nat \<Rightarrow> u16 \<Rightarrow> int \<Rightarrow> int \<Rightarrow> int \<Rightarrow> map_data \<times> players \<Rightarrow> (map_data \<times> players) outcome" where
  "drop_at env until p i amount x y s =
     (let n = length (m_items (fst s));
          (it, m, w) = map_AddItem env (to_short (uint i)) amount x y (Some p) s;
          m = m\<lparr>m_items := own_dropped p until n (m_items m)\<rparr> in
      bind_out (run_on p (DelItem env (to_short (uint i)) amount) w) (\<lambda>(_, w).
      bind_out (player w p) (\<lambda>c. Inr (m, send_to p (drop_reply c i amount it x y) w))))"

definition try_drop ::
    "world_env \<Rightarrow> double \<Rightarrow> nat list \<Rightarrow> (int \<times> int) list \<Rightarrow> nat \<Rightarrow> character \<Rightarrow> u16 \<Rightarrow> int \<Rightarrow> int \<Rightarrow> int \<Rightarrow>
     map_data \<times> players \<Rightarrow> (map_data \<times> players) outcome" where
  "try_drop env until ps npcs p c i amount x y s =
     (if \<bar>x - ch_x c\<bar> + \<bar>y - ch_y c\<bar> > w_config env ''DropDistance'' then Inr s
      else bind_out (map_Walkable env (snd s) ps npcs (fst s) x y False) (\<lambda>walkable.
        if \<not> walkable then Inr s
        else if HasItem (to_short (uint i)) False c \<ge> amount \<and> ch_mapid c \<noteq> w_config env ''JailMap''
        then drop_at env until p i amount x y s
        else Inr s))"

definition Item_Drop ::
    "world_env \<Rightarrow> double \<Rightarrow> double \<Rightarrow> nat list \<Rightarrow> (int \<times> int) list \<Rightarrow> nat \<Rightarrow> PacketReader \<Rightarrow> map_data \<times> players \<Rightarrow>
     (map_data \<times> players) outcome" where
  "Item_Drop env now protect ps npcs p reader s =
     bind_out (player (snd s) p) (\<lambda>c.
       if trading c \<or> \<not> CanInteractItems c then Inr s
       else
         bind_out (GetShort reader) (\<lambda>(i, reader).
         bind_out (item_data env (uint i)) (\<lambda>d.
           if i_special d = EIF_Lore then Inr s
           else
             bind_out (if Remaining reader = 5 then GetThree reader else GetInt reader) (\<lambda>(n, reader).
             bind_out (GetByte reader) (\<lambda>(xb, reader). bind_out (GetByte reader) (\<lambda>(yb, _).
               let amount = min (sint n) (w_config env ''MaxDrop'') in
               if amount \<le> 0 then Inr s
               else
                 let (x, y) = (if xb = 255 \<and> yb = 255 then (ch_x c, ch_y c) else (uchar1 [xb] 0, uchar1 [yb] 0))
                 in try_drop env (d_add now protect) ps npcs p c i amount x y s))))))"

definition Item_Junk :: "world_env \<Rightarrow> nat \<Rightarrow> PacketReader \<Rightarrow> players \<Rightarrow> players outcome" where
  "Item_Junk env p reader w =
     bind_out (player w p) (\<lambda>c.
       if trading c then Inr w
       else
         bind_out (GetShort reader) (\<lambda>(i, reader). bind_out (GetInt reader) (\<lambda>(n, _).
           let item = to_short (uint i); amount = sint n in
           if amount \<le> 0 then Inr w
           else if HasItem item False c \<ge> amount then
             bind_out (run_on p (DelItem env item amount) w) (\<lambda>(_, w).
             bind_out (player w p) (\<lambda>c.
               let b = AddChar (of_int (d_maxweight (stats c))) (AddChar (of_int (d_weight (stats c)))
                         (AddInt (of_int (HasItem item False c)) (AddThree (of_int amount)
                           (AddShort i (PacketBuilder_new PACKET_ITEM PACKET_JUNK)))))
               in Inr (send_to p b w)))
           else Inr w)))"

definition Item_Get :: "world_env \<Rightarrow> double \<Rightarrow> nat \<Rightarrow> PacketReader \<Rightarrow> map_data \<times> players \<Rightarrow> (map_data \<times> players) outcome" where
  "Item_Get env now p reader s =
     bind_out (player (snd s) p) (\<lambda>c.
     bind_out (GetShort reader) (\<lambda>(uid, _).
       case map_GetItem (to_short (uint uid)) (fst s) of
         None \<Rightarrow> Inr s
       | Some it \<Rightarrow>
           if \<bar>mi_x it - ch_x c\<bar> + \<bar>mi_y it - ch_y c\<bar> > w_config env ''DropDistance'' then Inr s
           else if mi_owner it \<noteq> int p \<and> d_less now (mi_unprotecttime it) then Inr s
           else
             bind_out (CanHoldItem env (mi_id it) (mi_amount it) c) (\<lambda>taken.
               if taken \<le> 0 then Inr s
               else
                 bind_out (run_on p (AddItem env (mi_id it) taken) (snd s)) (\<lambda>(_, w).
                 bind_out (player w p) (\<lambda>c.
                   let b = AddChar (of_int (d_maxweight (stats c))) (AddChar (of_int (d_weight (stats c)))
                             (AddThree (of_int taken) (AddShort (of_int (mi_id it))
                               (AddShort uid (PacketBuilder_new PACKET_ITEM PACKET_GET)))))
                   in Inr (map_DelSomeItem env (mi_uid it) taken (Some p) (fst s, send_to p b w)))))))"

text \<open>The packets registered for items, without the one that uses an item up.\<close>

datatype item_action = Drop_item | Junk_item | Get_item

definition item_handler ::
    "world_env \<Rightarrow> double \<Rightarrow> double \<Rightarrow> nat list \<Rightarrow> (int \<times> int) list \<Rightarrow> item_action \<Rightarrow> nat \<Rightarrow> PacketReader \<Rightarrow> map_data \<times> players \<Rightarrow>
     (map_data \<times> players) outcome" where
  "item_handler env now protect ps npcs a p r s =
     (case a of
        Drop_item \<Rightarrow> Item_Drop env now protect ps npcs p r s
      | Junk_item \<Rightarrow> bind_out (Item_Junk env p r (snd s)) (\<lambda>w. Inr (fst s, w))
      | Get_item \<Rightarrow> Item_Get env now p r s)"

section \<open>The floor as a map\<close>

definition floor_ok :: "map_data \<Rightarrow> bool" where
  "floor_ok m \<longleftrightarrow>
     distinct (map mi_uid (m_items m)) \<and> (\<forall>it \<in> set (m_items m). 1 \<le> mi_uid it \<and> mi_uid it \<le> 32767)"

definition tile_full :: "world_env \<Rightarrow> map_data \<Rightarrow> int \<Rightarrow> int \<Rightarrow> bool" where
  "tile_full env m x y \<longleftrightarrow>
     int (length (filter (\<lambda>it. mi_x it = x \<and> mi_y it = y) (m_items m))) \<ge> w_config env ''MaxTile'' \<or>
     int (length (m_items m)) \<ge> w_config env ''MaxMap''"

lemma free_uid_spec:
  "k \<le> free_uid its k \<and> free_uid its k \<notin> mi_uid ` set its \<and> {k..<free_uid its k} \<subseteq> mi_uid ` set its"
proof (induction its k rule: free_uid.induct)
  case step: (1 its k)
  have skip: "{k..<n} \<subseteq> insert k {k + 1..<n}" for n by auto
  consider "free_uid its k = k" "k \<notin> mi_uid ` set its" | "\<exists>it \<in> set its. mi_uid it = k" "free_uid its k = free_uid its (k + 1)"
    using free_uid.simps [of its k] by (auto split: if_splits)
  then show ?case
    by cases (use step skip [of "free_uid its (k + 1)"] in auto)
qed

lemma free_uid_bound: "free_uid its k \<le> k + int (length its)"
proof -
  have "card {k..<free_uid its k} \<le> card (mi_uid ` set its)" by (rule card_mono) (use free_uid_spec in auto)
  also have "\<dots> \<le> length its" using card_image_le [of "set its" mi_uid] card_length [of its] by simp
  finally show ?thesis using free_uid_spec [of k its] by simp
qed

lemma find_uid_None: "find (\<lambda>it. mi_uid it = u) its = None \<longleftrightarrow> u \<notin> mi_uid ` set its"
  by (auto simp: find_None_iff)

lemma uid_erase_find:
  "distinct (map mi_uid its) \<Longrightarrow>
   find (\<lambda>it. mi_uid it = v) (uid_erase u its) = (if v = u then None else find (\<lambda>it. mi_uid it = v) its)"
proof (induction its)
  case (Cons it its)
  then show ?case using find_uid_None [of "mi_uid it" its] by auto
qed simp

lemma uid_update_find:
  "find (\<lambda>it. mi_uid it = v) (uid_update u n its) =
   (if v = u then map_option (mi_amount_update (\<lambda>_. n)) (find (\<lambda>it. mi_uid it = v) its) else find (\<lambda>it. mi_uid it = v) its)"
  by (induction its) auto

lemma uid_update_uids [simp]: "map mi_uid (uid_update u n its) = map mi_uid its"
  by (induction its) auto

lemma uid_erase_sub: "set (uid_erase u its) \<subseteq> set its"
  by (induction its) auto

lemma uid_erase_distinct: "distinct (map mi_uid its) \<Longrightarrow> distinct (map mi_uid (uid_erase u its))"
proof (induction its)
  case (Cons it its)
  then show ?case using uid_erase_sub [of u its] by auto
qed simp

lemma find_append: "find P (xs @ ys) = (case find P xs of None \<Rightarrow> find P ys | Some x \<Rightarrow> Some x)"
  by (induction xs) auto

lemma floor_ok_uids: "floor_ok m \<longleftrightarrow> distinct (map mi_uid (m_items m)) \<and> (\<forall>u \<in> set (map mi_uid (m_items m)). 1 \<le> u \<and> u \<le> 32767)"
  by (simp add: floor_ok_def)

lemma map_AddItem_cases:
  assumes ok: "floor_ok m" and room: "length (m_items m) < 32767" and add: "map_AddItem env i n x y from (m, w) = (it, m', w')"
  shows "if from \<noteq> None \<and> tile_full env m x y then mi_uid it = 0 \<and> m' = m \<and> w' = w
    else mi_uid it = free_uid (m_items m) 1 \<and> mi_id it = i \<and> mi_amount it = n \<and> m' = m\<lparr>m_items := m_items m @ [it]\<rparr> \<and>
      floor_ok m' \<and> bags_kept env w w'"
proof (cases "from \<noteq> None \<and> tile_full env m x y")
  case True
  then show ?thesis using add by (auto simp: map_AddItem_def tile_full_def Let_def)
next
  case False
  have u: "1 \<le> free_uid (m_items m) 1" "free_uid (m_items m) 1 \<le> 32767" "free_uid (m_items m) 1 \<notin> mi_uid ` set (m_items m)"
    using free_uid_spec [of 1 "m_items m"] free_uid_bound [of "m_items m" 1] room by auto
  then have "to_short (GenerateItemID m) = free_uid (m_items m) 1"
    by (simp add: GenerateItemID_def to_short_def)
  then show ?thesis using add False ok u unfolding map_AddItem_def tile_full_def by (auto simp: floor_ok_def Let_def bags_send_map)
qed

text \<open>
  C23: The items on the floor are a finite map from identifiers to items, and the operations of the map
  update it: \<open>AddItem\<close> binds the least positive identifier not in use (below the 32767th item, from
  where a \<open>short\<close> wraps around), unless the tile or the map is full; \<open>DelItem\<close> unbinds one; \<open>DelSomeItem\<close> lowers
  an amount or unbinds it. The identifiers stay distinct and positive.
\<close>

theorem floor_is_map:
  assumes ok: "floor_ok m" and room: "length (m_items m) < 32767" and add: "map_AddItem env i n x y from (m, w) = (it, m', w')"
  shows "(if from \<noteq> None \<and> tile_full env m x y then mi_uid it = 0 \<and> m' = m
      else floor_ok m' \<and> map_GetItem (mi_uid it) m = None \<and> (\<forall>u. 1 \<le> u \<longrightarrow> u < mi_uid it \<longrightarrow> map_GetItem u m \<noteq> None) \<and>
        (\<lambda>u. map_GetItem u m') = (\<lambda>u. map_GetItem u m)(mi_uid it \<mapsto> it) \<and> mi_id it = i \<and> mi_amount it = n) \<and>
    (\<forall>u. floor_ok (fst (map_DelItem env u from (m, w))) \<and>
       (\<lambda>v. map_GetItem v (fst (map_DelItem env u from (m, w)))) = (\<lambda>v. map_GetItem v m)(u := None)) \<and>
    (\<forall>u k. 0 \<le> k \<longrightarrow> floor_ok (fst (map_DelSomeItem env u k from (m, w))) \<and>
       (\<lambda>v. map_GetItem v (fst (map_DelSomeItem env u k from (m, w)))) =
         (\<lambda>v. map_GetItem v m)(u := (case map_GetItem u m of None \<Rightarrow> None
           | Some it \<Rightarrow> if k < mi_amount it then Some (it\<lparr>mi_amount := mi_amount it - k\<rparr>) else None)))"
proof -
  have dist: "distinct (map mi_uid (m_items m))" using ok by (simp add: floor_ok_def)
  have del: "floor_ok (fst (map_DelItem env u from (m, w))) \<and>
     (\<lambda>v. map_GetItem v (fst (map_DelItem env u from (m, w)))) = (\<lambda>v. map_GetItem v m)(u := None)" for u
    using ok uid_erase_find [OF dist] uid_erase_distinct [OF dist] uid_erase_sub [of u "m_items m"]
    by (auto simp: map_DelItem_def floor_ok_def map_GetItem_def fun_eq_iff split: option.split)
  moreover have "floor_ok (fst (map_DelSomeItem env u k from (m, w))) \<and>
       (\<lambda>v. map_GetItem v (fst (map_DelSomeItem env u k from (m, w)))) =
         (\<lambda>v. map_GetItem v m)(u := (case map_GetItem u m of None \<Rightarrow> None
           | Some it \<Rightarrow> if k < mi_amount it then Some (it\<lparr>mi_amount := mi_amount it - k\<rparr>) else None))" if "0 \<le> k" for u k
  proof (cases "map_GetItem u m")
    case (Some it)
    then show ?thesis
      using that ok del [of u]
      by (cases "k < mi_amount it")
        (auto simp: map_DelSomeItem_def Let_def floor_ok_uids map_GetItem_def fun_eq_iff uid_update_find simp del: map_map)
  qed (use that ok in \<open>auto simp: map_DelSomeItem_def\<close>)
  moreover have "if from \<noteq> None \<and> tile_full env m x y then mi_uid it = 0 \<and> m' = m
      else floor_ok m' \<and> map_GetItem (mi_uid it) m = None \<and> (\<forall>u. 1 \<le> u \<longrightarrow> u < mi_uid it \<longrightarrow> map_GetItem u m \<noteq> None) \<and>
        (\<lambda>u. map_GetItem u m') = (\<lambda>u. map_GetItem u m)(mi_uid it \<mapsto> it) \<and> mi_id it = i \<and> mi_amount it = n"
  proof (cases "from \<noteq> None \<and> tile_full env m x y")
    case True
    then show ?thesis using map_AddItem_cases [OF ok room add] by simp
  next
    case False
    then have new: "mi_uid it = free_uid (m_items m) 1" "mi_id it = i" "mi_amount it = n" "m' = m\<lparr>m_items := m_items m @ [it]\<rparr>"
      "floor_ok m'" using map_AddItem_cases [OF ok room add] by auto
    have free: "mi_uid it \<notin> mi_uid ` set (m_items m)" "{1..<mi_uid it} \<subseteq> mi_uid ` set (m_items m)"
      using free_uid_spec [of 1 "m_items m"] new(1) by auto
    then have "map_GetItem (mi_uid it) m = None" "\<And>u. 1 \<le> u \<Longrightarrow> u < mi_uid it \<Longrightarrow> map_GetItem u m \<noteq> None"
      unfolding map_GetItem_def find_uid_None by auto
    moreover have "(\<lambda>u. map_GetItem u m') = (\<lambda>u. map_GetItem u m)(mi_uid it \<mapsto> it)"
      using calculation(1) by (auto simp: new(4) map_GetItem_def find_append fun_eq_iff split: option.split)
    ultimately show ?thesis using False new(2,3,5) by auto
  qed
  ultimately show ?thesis by blast
qed

section \<open>What is dropped and taken\<close>

definition floor_total :: "map_item list \<Rightarrow> int \<Rightarrow> int" where
  "floor_total its i = sum_list (map mi_amount (filter (\<lambda>it. mi_id it = i) its))"

lemma floor_total_simps [simp]:
  "floor_total [] i = 0"
  "floor_total (it # its) i = (if mi_id it = i then mi_amount it else 0) + floor_total its i"
  "floor_total (xs @ ys) i = floor_total xs i + floor_total ys i"
  by (simp_all add: floor_total_def)

lemma floor_total_nonneg: "\<forall>it \<in> set its. 1 \<le> mi_amount it \<Longrightarrow> 0 \<le> floor_total its i"
  by (induction its) auto

lemma floor_total_erase:
  "find (\<lambda>it. mi_uid it = u) its = Some it \<Longrightarrow>
   floor_total (uid_erase u its) j = floor_total its j - (if j = mi_id it then mi_amount it else 0)"
  by (induction its) (auto split: if_splits)

lemma floor_total_lower:
  "find (\<lambda>it. mi_uid it = u) its = Some it \<Longrightarrow>
   floor_total (uid_update u n its) j = floor_total its j + (if j = mi_id it then n - mi_amount it else 0)"
  by (induction its) (auto split: if_splits)

lemma floor_total_le:
  "\<forall>it \<in> set its. 1 \<le> mi_amount it \<Longrightarrow> it \<in> set its \<Longrightarrow> mi_amount it \<le> floor_total its (mi_id it)"
proof (induction its)
  case (Cons x its)
  then show ?case using floor_total_nonneg [of its "mi_id it"] by auto
qed simp

lemma try_drop_cases:
  "try_drop env until ps npcs p c i n x y s = Inr s' \<Longrightarrow>
   s' = s \<or> n \<le> HasItem (to_short (uint i)) False c \<and> drop_at env until p i n x y s = Inr s'"
  by (auto simp: try_drop_def bind_out_Inr_iff split: if_splits)

lemma Item_Drop_cases:
  assumes "Item_Drop env now protect ps npcs p r s = Inr s'" "snd s p = Some c"
  obtains "s' = s"
  | until i amount x y where "\<not> trading c" "0 < amount" "amount \<le> HasItem (to_short (uint i)) False c"
      "drop_at env until p i amount x y s = Inr s'"
proof (cases "s' = s")
  case False
  then obtain i n x y where n: "\<not> trading c" "\<not> n \<le> 0" "try_drop env (d_add now protect) ps npcs p c i n x y s = Inr s'"
    using assms unfolding Item_Drop_def
    by (auto simp: player_at bind_out_Inr_iff Let_def simp del: min_less_iff_conj min_le_iff_disj not_le split: if_splits)
  show thesis using try_drop_cases [OF n(3)] n(1,2) False that(2) by (meson not_le)
qed (rule that(1))

lemma own_dropped_uids: "map mi_uid (own_dropped p until n its) = map mi_uid its"
proof (cases "n < length its")
  case True
  then show ?thesis by (simp add: own_dropped_def map_update list_update_same_conv)
qed (simp add: own_dropped_def list_update_beyond)

lemma own_dropped_simps:
  "floor_total (own_dropped p until (length its) (its @ [it])) j = floor_total (its @ [it]) j"
  "own_dropped p until (length its) its = its"
  by (simp_all add: own_dropped_def)

lemma floor_ok_cong: "map mi_uid (m_items m') = map mi_uid (m_items m) \<Longrightarrow> floor_ok m' = floor_ok m"
  by (simp only: floor_ok_uids)

lemma drop_at_step:
  assumes calm: "calm env" and ok: "floor_ok m" "length (m_items m) < 32767" and c: "w p = Some c" "sane env c" "\<not> trading c"
    and n: "0 < n" "n \<le> HasItem (to_short (uint i)) False c"
    and drop: "drop_at env until p i n x y (m, w) = Inr (m', w')"
  shows "\<exists>c'. w' p = Some c' \<and> sane env c' \<and> floor_ok m' \<and>
    amount_in (inventory c') = (amount_in (inventory c))(to_short (uint i) := amount_in (inventory c) (to_short (uint i)) - n) \<and>
    (if tile_full env m x y then m_items m' = m_items m
     else floor_total (m_items m') = (floor_total (m_items m))(to_short (uint i) := floor_total (m_items m) (to_short (uint i)) + n))"
proof -
  let ?i = "to_short (uint i)"
  obtain it m1 w1 where add: "map_AddItem env ?i n x y (Some p) (m, w) = (it, m1, w1)" by (metis prod_cases3)
  have added: "if tile_full env m x y then mi_uid it = 0 \<and> m1 = m \<and> w1 = w
    else mi_uid it = free_uid (m_items m) 1 \<and> mi_id it = ?i \<and> mi_amount it = n \<and> m1 = m\<lparr>m_items := m_items m @ [it]\<rparr> \<and>
      floor_ok m1 \<and> bags_kept env w w1"
    using map_AddItem_cases [OF ok add] by simp
  then have bags: "bags_kept env w w1" by (auto intro: bags_refl split: if_splits)
  then obtain c1 where c1: "w1 p = Some c1" "inventory c1 = inventory c" "sane env c1"
    using c unfolding bags_kept_def by blast
  have le: "n \<le> amount_in (inventory c1) ?i" using n(2) c(3) c1(2) by (simp add: HasItem_idle)
  obtain c2 where c2: "DelItem env ?i n c1 = Inr (True, c2)" "sane env c2"
    "amount_in (inventory c2) = (amount_in (inventory c))(?i := amount_in (inventory c) ?i - n)"
    using DelItem_calm [OF calm c1(3) n(1) le] c1(2) by auto
  obtain b where r: "m' = m1\<lparr>m_items := own_dropped p until (length (m_items m)) (m_items m1)\<rparr>" "w' = send_to p b (w1(p \<mapsto> c2))"
    using drop add c1(1) c2(1) by (auto simp: drop_at_def run_on_def player_at)
  have "w' p = Some (send b c2)" by (simp add: r(2) send_to_def)
  moreover have "sane env (send b c2)" "inventory (send b c2) = inventory c2" using c2(2) by (simp_all add: sane_def send_def)
  moreover have "floor_ok m1" using added ok(1) by (auto split: if_splits)
  then have "floor_ok m'" using floor_ok_cong [of m' m1] by (simp add: r(1) own_dropped_uids)
  moreover have "if tile_full env m x y then m_items m' = m_items m
     else floor_total (m_items m') = (floor_total (m_items m))(?i := floor_total (m_items m) ?i + n)"
    using added by (auto simp: r(1) own_dropped_simps fun_eq_iff split: if_splits)
  ultimately show ?thesis using c2(3) by auto
qed

lemma Item_Junk_step:
  assumes calm: "calm env" and c: "w p = Some c" "sane env c" and junk: "Item_Junk env p r w = Inr w'"
  shows "\<exists>c'. w' p = Some c' \<and> sane env c' \<and>
    (amount_in (inventory c') = amount_in (inventory c) \<or>
     (\<exists>i n. 0 < n \<and> amount_in (inventory c') = (amount_in (inventory c))(i := amount_in (inventory c) i - n)))"
proof (cases "w' = w")
  case False
  then obtain i n b c2 d where j: "\<not> trading c" "\<not> n \<le> 0" "n \<le> HasItem i False c" "DelItem env i n c = Inr (b, c2)"
    "w' = send_to p d (w(p \<mapsto> c2))"
    using junk c(1) by (auto simp: Item_Junk_def player_at bind_out_Inr_iff run_on_Inr Let_def split: if_splits)
  have n: "0 < n" "n \<le> amount_in (inventory c) i" using j by (simp_all add: HasItem_idle)
  have c2: "sane env c2" "amount_in (inventory c2) = (amount_in (inventory c))(i := amount_in (inventory c) i - n)"
    using DelItem_calm [OF calm c(2) n] j(4) by auto
  have "w' p = Some (send d c2)" by (simp add: j(5) send_to_def)
  moreover have "sane env (send d c2)" "inventory (send d c2) = inventory c2" using c2(1) by (simp_all add: sane_def send_def)
  ultimately show ?thesis using c2(2) n(1) by auto
qed (use c in auto)

text \<open>What lies on the floor of an item can be carried, and is below the cap.\<close>

definition roomy_floor :: "world_env \<Rightarrow> character \<Rightarrow> map_item list \<Rightarrow> bool" where
  "roomy_floor env c its \<longleftrightarrow>
     (\<forall>it \<in> set its. 1 \<le> mi_amount it \<and> amount_in (inventory c) (mi_id it) + mi_amount it \<le> w_config env ''MaxItem'' \<and>
        holdable env (mi_id it) (amount_in (inventory c) (mi_id it) + mi_amount it))"

lemma map_DelSomeItem_total:
  assumes ok: "floor_ok m" and it: "map_GetItem u m = Some it" and k: "0 < k" "k \<le> mi_amount it"
    and del: "map_DelSomeItem env u k from (m, w) = (m', w')"
  shows "floor_ok m' \<and> bags_kept env w w' \<and>
    floor_total (m_items m') = (floor_total (m_items m))(mi_id it := floor_total (m_items m) (mi_id it) - k)"
proof -
  have f: "find (\<lambda>it. mi_uid it = u) (m_items m) = Some it" using it by (simp add: map_GetItem_def)
  show ?thesis
  proof (cases "k < mi_amount it")
    case True
    then obtain to b to' b' where r: "m' = m\<lparr>m_items := uid_update u (mi_amount it - k) (m_items m)\<rparr>"
      "w' = send_map (m_id m) to b (send_map (m_id m) to' b' w)"
      using del it k(1) by (auto simp: map_DelSomeItem_def Let_def)
    have "floor_ok m'" using ok floor_ok_cong [of m' m] by (simp add: r(1))
    moreover have "bags_kept env w w'" unfolding r(2) by (rule bags_kept_trans [OF bags_send_map bags_send_map])
    ultimately show ?thesis using floor_total_lower [OF f] by (auto simp: r(1) fun_eq_iff)
  next
    case False
    then obtain to b where r: "m' = m\<lparr>m_items := uid_erase u (m_items m)\<rparr>" "w' = send_map (m_id m) to b w"
      using del it k(1) by (auto simp: map_DelSomeItem_def map_DelItem_def)
    have "floor_ok m'"
      using ok uid_erase_distinct [of "m_items m" u] uid_erase_sub [of u "m_items m"] by (auto simp: r(1) floor_ok_def)
    moreover have "bags_kept env w w'" unfolding r(2) by (rule bags_send_map)
    ultimately show ?thesis using floor_total_erase [OF f] False k(2) by (auto simp: r(1) fun_eq_iff)
  qed
qed

lemma Item_Get_step:
  assumes calm: "calm env" and ok: "floor_ok m" and c: "w p = Some c" "sane env c"
    and room: "roomy_floor env c (m_items m)" and get: "Item_Get env now p r (m, w) = Inr (m', w')"
  shows "\<exists>c'. w' p = Some c' \<and> sane env c' \<and> floor_ok m' \<and>
    (\<forall>j. amount_in (inventory c') j + floor_total (m_items m') j = amount_in (inventory c) j + floor_total (m_items m) j)"
proof (cases "(m', w') = (m, w)")
  case False
  then obtain uid it taken b1 c1 b where g: "map_GetItem uid m = Some it" "CanHoldItem env (mi_id it) (mi_amount it) c = Inr taken"
    "0 < taken" "AddItem env (mi_id it) taken c = Inr (b1, c1)"
    "map_DelSomeItem env (mi_uid it) taken (Some p) (m, send_to p b (w(p \<mapsto> c1))) = (m', w')"
    using get c(1) by (auto simp: Item_Get_def player_at bind_out_Inr_iff run_on_Inr Let_def split: if_splits option.splits)
  have mem: "it \<in> set (m_items m)" "mi_uid it = uid"
    using g(1) by (auto simp: map_GetItem_def find_Some_iff)
  have pos: "1 \<le> mi_amount it" "amount_in (inventory c) (mi_id it) + mi_amount it \<le> w_config env ''MaxItem''"
    "holdable env (mi_id it) (amount_in (inventory c) (mi_id it) + mi_amount it)"
    using room mem(1) by (auto simp: roomy_floor_def)
  have k: "taken \<le> mi_amount it" using CanHoldItem_le [OF g(2)] pos(1) by simp
  have hold: "holdable env (mi_id it) (amount_in (inventory c) (mi_id it) + taken)"
    using pos(3) k carries_less by (auto simp: holdable_def)
  have has: "0 \<le> amount_in (inventory c) (mi_id it)" using amount_ok(1) c(2) by (simp add: sane_def)
  obtain c2 where "AddItem env (mi_id it) taken c = Inr (True, c2)" "sane env c2"
    "amount_in (inventory c2) = (amount_in (inventory c))(mi_id it := amount_in (inventory c) (mi_id it) + taken)"
    using AddItem_calm [OF calm c(2) hold g(3)] pos(2) k has calm_MaxItem [OF calm] by (auto simp: min_def split: if_splits)
  then have c1: "sane env c1" "amount_in (inventory c1) = (amount_in (inventory c))(mi_id it := amount_in (inventory c) (mi_id it) + taken)"
    using g(4) by auto
  have del: "floor_ok m'" "bags_kept env (send_to p b (w(p \<mapsto> c1))) w'"
    "floor_total (m_items m') = (floor_total (m_items m))(mi_id it := floor_total (m_items m) (mi_id it) - taken)"
    using map_DelSomeItem_total [OF ok _ g(3) k g(5)] g(1) mem(2) by auto
  have "send_to p b (w(p \<mapsto> c1)) p = Some (send b c1)" by (simp add: send_to_def)
  then obtain c3 where c3: "w' p = Some c3" "inventory c3 = inventory (send b c1)" "sane env (send b c1) \<longrightarrow> sane env c3"
    using del(2) unfolding bags_kept_def by blast
  have s: "sane env (send b c1)" "inventory (send b c1) = inventory c1" using c1(1) by (simp_all add: sane_def send_def)
  then have v: "inventory c3 = inventory c1" "sane env c3" using c3 by simp_all
  show ?thesis
    by (rule exI [of _ c3]) (use c3(1) v del(1,3) c1(2) in \<open>simp add: v\<close>)
qed (use c ok in auto)


text \<open>A map with two items where \<open>alice\<close> stands.\<close>

definition littered_map :: map_data where
  "littered_map = blank_map\<lparr>m_width := 2, m_height := 2, m_tiles := replicate 4 new_tile,
     m_items := [\<lparr>mi_uid = 2, mi_id = 1, mi_amount = 5, mi_x = 1, mi_y = 1, mi_owner = 1, mi_unprotecttime = Fin 0\<rparr>]\<rparr>"

lemma littered_ok: "floor_ok littered_map" "length (m_items littered_map) = 1"
  by (simp_all add: littered_map_def floor_ok_def)

theorem floor_is_map_witness:
  "\<exists>it m' w'. map_AddItem sample_env 3 7 0 0 (Some 1) (littered_map, \<lambda>_. None) = (it, m', w') \<and> mi_uid it = 1 \<and>
    map_GetItem 1 m' = Some it \<and> map_GetItem 2 m' = map_GetItem 2 littered_map"
proof -
  obtain it m' w' where a: "map_AddItem sample_env 3 7 0 0 (Some 1) (littered_map, \<lambda>_. None) = (it, m', w')"
    by (metis prod_cases3)
  have "\<not> tile_full sample_env littered_map 0 0"
    by (simp add: tile_full_def littered_map_def sample_env_def sample_config_def)
  then have f: "map_GetItem (mi_uid it) littered_map = None" "\<forall>u. 1 \<le> u \<longrightarrow> u < mi_uid it \<longrightarrow> map_GetItem u littered_map \<noteq> None"
    "(\<lambda>u. map_GetItem u m') = (\<lambda>u. map_GetItem u littered_map)(mi_uid it \<mapsto> it)" "floor_ok m'"
    using floor_is_map [OF littered_ok(1) _ a] littered_ok(2) by auto
  have u: "mi_uid it = 1"
    using map_AddItem_cases [OF littered_ok(1) _ a] littered_ok(2) \<open>\<not> tile_full sample_env littered_map 0 0\<close>
      free_uid.simps [of "m_items littered_map" 1] by (simp add: littered_map_def)
  have "map_GetItem 1 m' = Some it" "map_GetItem 2 m' = map_GetItem 2 littered_map"
    using fun_cong [OF f(3), of 1] fun_cong [OF f(3), of 2] u by simp_all
  then show ?thesis using a u by blast
qed


end
