(* ===== verification/Database.thy ===== *)
theory Database
  imports Config Character_Data
begin

text \<open>
  Access to the SQL database (\<open>src/src/database.cpp\<close>): putting arguments into a query, escaping, the
  commands of a file, and transactions. The drivers are not part of the program: the escape function of
  the driver and the server, which runs a query on a session, are parameters. Proved: the text of an
  argument never becomes SQL, whichever engine is used, a bulk of queries takes effect as a whole or
  not at all, and the log kept for a lost connection holds the transaction so far.
\<close>

section \<open>Queries\<close>

datatype engine = MySQL | SQLite | SqlServer

text \<open>What \<open>va_arg\<close> is asked for must be there: otherwise its behaviour is undefined.\<close>

datatype query_arg = Int_arg int | Str_arg string

definition quote_char :: char where "quote_char = CHR 0x27"

definition backtick :: char where "backtick = CHR 0x60"

fun parse_query ::
    "engine \<Rightarrow> (string \<Rightarrow> string) \<Rightarrow> string \<Rightarrow> query_arg list \<Rightarrow> bool \<Rightarrow> string \<Rightarrow> string list \<Rightarrow> (string \<times> string list) outcome" where
  "parse_query eng esc [] args remove_quote final params = Inr (final, params)"
| "parse_query eng esc (p # ps) args remove_quote final params =
     (if p = CHR ''#'' then
        (case args of
           Int_arg n # args \<Rightarrow> parse_query eng esc ps args remove_quote (final @ to_string_int n) params
         | _ \<Rightarrow> Inl Read_Out_Of_Bounds)
      else if p = CHR ''@'' then
        (case args of
           Str_arg s # args \<Rightarrow>
             parse_query eng esc ps args remove_quote
               (final @ (if eng = SqlServer then filter (\<lambda>c. c \<noteq> backtick) s else s)) params
         | _ \<Rightarrow> Inl Read_Out_Of_Bounds)
      else if p = CHR ''$'' then
        (case args of
           Str_arg s # args \<Rightarrow>
             if eng = SqlServer then
               (if final = [] then Inl Empty_Container
                else if last final = quote_char
                then parse_query eng esc ps args True (butlast final @ ''?'') (params @ [s])
                else parse_query eng esc ps args remove_quote (final @ ''?'') (params @ [s]))
             else parse_query eng esc ps args remove_quote (final @ esc s) params
         | _ \<Rightarrow> Inl Read_Out_Of_Bounds)
      else if p = backtick \<and> eng = SqlServer \<or> p = quote_char \<and> remove_quote then
        parse_query eng esc ps args False final params
      else parse_query eng esc ps args remove_quote (final @ [p]) params)"

definition ParseQueryArgs :: "engine \<Rightarrow> (string \<Rightarrow> string) \<Rightarrow> string \<Rightarrow> query_arg list \<Rightarrow> (string \<times> string list) outcome" where
  "ParseQueryArgs eng esc fmt args = parse_query eng esc fmt args False [] []"

text \<open>\<open>Escape\<close> also takes out the characters that stand for arguments of a query.\<close>

definition Escape :: "engine \<Rightarrow> (string \<Rightarrow> string) \<Rightarrow> string \<Rightarrow> string" where
  "Escape eng esc raw =
     map (\<lambda>c. if c = CHR ''@'' \<or> c = CHR ''#'' \<or> c = CHR ''$'' then CHR ''?'' else c)
       (if eng = SqlServer then raw else esc raw)"

text \<open>
  The commands of a file. \<open>fgets\<close> reads lines of at most 4095 characters; the last one is dropped when the
  end of the file comes before a newline. A text ends at a zero character.
\<close>

function file_text :: "string \<Rightarrow> string" where
  "file_text [] = []"
| "file_text (c # cs) =
     (let (l, r) = fgets_line (MaxLineLength - 1) (c # cs)
      in if last l = CHR 0x0A \<or> length l = MaxLineLength - 1 then takeWhile (\<lambda>x. x \<noteq> CHR 0x00) l @ file_text r else [])"
  by pat_completeness auto
termination
proof (relation "measure length", goal_cases)
  case (2 c cs x l r)
  have "MaxLineLength - 1 = Suc 4094" by (simp add: MaxLineLength_def)
  then have "length (snd (fgets_line (MaxLineLength - 1) (c # cs))) < length (c # cs)"
    by (simp only: fgets_line_shorter)
  then show ?case using 2 by (metis in_measure snd_conv)
qed simp

fun split_commands :: "string \<Rightarrow> string \<Rightarrow> string list \<times> string" where
  "split_commands query [] = ([], query)"
| "split_commands query (c # cs) =
     (if c = CHR '';'' then (let (qs, rest) = split_commands [] cs in (query # qs, rest))
      else split_commands (query @ [c]) cs)"

definition file_commands :: "string \<Rightarrow> string list" where
  "file_commands text =
     (let (qs, rest) = split_commands [] (file_text text) in filter (\<lambda>q. trim q \<noteq> Inr []) (qs @ [rest]))"

section \<open>Transactions\<close>

text \<open>
  A connection: the session of the server, whether there is a transaction, and the log of what it has
  done so far, kept by MySQL only. \<open>srv s q\<close> is the session after the query \<open>q\<close>, \<open>None\<close> when it fails. An
  operation returns the connection and whether an exception is thrown.
\<close>

record 's connection =
  db_connected :: bool
  db_engine :: engine
  in_transaction :: bool
  transaction_log :: "string list"
  db_owner :: "nat option"
  db_session :: 's

datatype db_failure = Query_Failed string | Db_Exception string | Thread_Violation

type_synonym 's db_op = "'s connection \<Rightarrow> db_failure option \<times> 's connection"

definition then_db :: "'s db_op \<Rightarrow> 's db_op \<Rightarrow> 's db_op" where
  "then_db f g c = (case f c of (Some e, c) \<Rightarrow> (Some e, c) | (None, c) \<Rightarrow> g c)"

definition CheckThreadAffinity :: "nat \<Rightarrow> 's db_op" where
  "CheckThreadAffinity tid c =
     (case db_owner c of None \<Rightarrow> (None, c) | Some t \<Rightarrow> (if tid \<noteq> t then (Some Thread_Violation, c) else (None, c)))"

definition logged :: "string \<Rightarrow> bool" where
  "logged q \<longleftrightarrow> take 6 q \<noteq> ''SELECT''"

definition RawQuery :: "('s \<Rightarrow> string \<Rightarrow> 's option) \<Rightarrow> nat \<Rightarrow> string \<Rightarrow> bool \<Rightarrow> 's db_op" where
  "RawQuery srv tid q tx_control c =
     (if \<not> db_connected c then (Some (Query_Failed ''Not connected to database.''), c)
      else then_db (CheckThreadAffinity tid) (\<lambda>c.
        case srv (db_session c) q of
          None \<Rightarrow> (Some (Query_Failed []), c)
        | Some s \<Rightarrow>
            (None, c\<lparr>db_session := s,
               transaction_log := (if db_engine c = MySQL \<and> in_transaction c \<and> \<not> tx_control \<and> logged q
                                   then transaction_log c @ [q] else transaction_log c)\<rparr>)) c)"

definition begin_text :: "engine \<Rightarrow> string" where
  "begin_text eng = (case eng of MySQL \<Rightarrow> ''START TRANSACTION'' | SQLite \<Rightarrow> ''BEGIN'' | SqlServer \<Rightarrow> ''BEGIN TRANSACTION'')"

definition commit_text :: "engine \<Rightarrow> string" where
  "commit_text eng = (if eng \<noteq> SqlServer then ''COMMIT'' else ''COMMIT TRANSACTION'')"

definition rollback_text :: "engine \<Rightarrow> string" where
  "rollback_text eng = (if eng \<noteq> SqlServer then ''ROLLBACK'' else ''ROLLBACK TRANSACTION'')"

text \<open>
  Ten attempts are made to begin; \<open>None\<close> is the end of the server by \<open>std::terminate\<close>. The other value is
  the answer: there was no transaction yet.
\<close>

fun begin_attempts :: "('s \<Rightarrow> string \<Rightarrow> 's option) \<Rightarrow> nat \<Rightarrow> nat \<Rightarrow> 's connection \<Rightarrow> 's connection option" where
  "begin_attempts srv tid 0 c = None"
| "begin_attempts srv tid (Suc n) c =
     (case RawQuery srv tid (begin_text (db_engine c)) True c of
        (None, c) \<Rightarrow> Some (c\<lparr>in_transaction := True\<rparr>)
      | (Some e, c) \<Rightarrow> begin_attempts srv tid n c)"

definition BeginTransaction :: "('s \<Rightarrow> string \<Rightarrow> 's option) \<Rightarrow> nat \<Rightarrow> 's connection \<Rightarrow> (bool \<times> 's connection) option" where
  "BeginTransaction srv tid c =
     (if in_transaction c then Some (False, c) else map_option (Pair True) (begin_attempts srv tid 10 c))"

definition db_Commit :: "('s \<Rightarrow> string \<Rightarrow> 's option) \<Rightarrow> nat \<Rightarrow> 's db_op" where
  "db_Commit srv tid c =
     (if \<not> in_transaction c then (Some (Db_Exception ''No transaction to commit''), c)
      else then_db (RawQuery srv tid (commit_text (db_engine c)) True)
             (\<lambda>c. (None, c\<lparr>in_transaction := False, transaction_log := []\<rparr>)) c)"

definition db_Rollback :: "('s \<Rightarrow> string \<Rightarrow> 's option) \<Rightarrow> nat \<Rightarrow> 's db_op" where
  "db_Rollback srv tid c =
     (if \<not> in_transaction c then (Some (Db_Exception ''No transaction to rollback''), c)
      else then_db (RawQuery srv tid (rollback_text (db_engine c)) True)
             (\<lambda>c. (None, c\<lparr>in_transaction := False, transaction_log := []\<rparr>)) c)"

fun raw_queries :: "('s \<Rightarrow> string \<Rightarrow> 's option) \<Rightarrow> nat \<Rightarrow> string list \<Rightarrow> 's db_op" where
  "raw_queries srv tid [] c = (None, c)"
| "raw_queries srv tid (q # qs) c = then_db (RawQuery srv tid q False) (raw_queries srv tid qs) c"

text \<open>
  \<open>ExecuteQueries\<close>: the destructor of \<open>Bulk_Query_Context\<close> rolls back what is still pending, also when a
  query or the commit has thrown; a destructor that throws ends the server.
\<close>

definition ExecuteQueries ::
    "('s \<Rightarrow> string \<Rightarrow> 's option) \<Rightarrow> nat \<Rightarrow> string list \<Rightarrow> 's connection \<Rightarrow> (db_failure option \<times> 's connection) option" where
  "ExecuteQueries srv tid qs c =
     (case BeginTransaction srv tid c of
        None \<Rightarrow> None
      | Some (False, c) \<Rightarrow> Some (Some (Db_Exception ''Cannot execute bulk query with transaction in progress''), c)
      | Some (True, c) \<Rightarrow>
          (case then_db (raw_queries srv tid qs) (db_Commit srv tid) c of
             (None, c) \<Rightarrow> Some (None, c)
           | (Some e, c) \<Rightarrow>
               (case db_Rollback srv tid c of (None, c) \<Rightarrow> Some (Some e, c) | (Some _, c) \<Rightarrow> None)))"

text \<open>\<open>ExecuteFile\<close>, and what is sent again to a server that has lost the connection.\<close>

definition ExecuteFile ::
    "('s \<Rightarrow> string \<Rightarrow> 's option) \<Rightarrow> nat \<Rightarrow> string \<Rightarrow> 's connection \<Rightarrow> (db_failure option \<times> 's connection) option" where
  "ExecuteFile srv tid text c = ExecuteQueries srv tid (file_commands text) c"

fun replay :: "('s \<Rightarrow> string \<Rightarrow> 's option) \<Rightarrow> string list \<Rightarrow> 's \<Rightarrow> 's option" where
  "replay srv [] s = Some s"
| "replay srv (q # qs) s = (case srv s q of None \<Rightarrow> None | Some s' \<Rightarrow> replay srv qs s')"

section \<open>Arguments never become SQL\<close>

text \<open>
  The formats of the program are made of SQL text, of \<open>#\<close> for a number, and of \<open>$\<close> between quotes for a text.
\<close>

datatype piece = Code string | Number int | Quoted string

definition fmt_of :: "piece list \<Rightarrow> string" where
  "fmt_of ps = concat (map (\<lambda>p. case p of Code c \<Rightarrow> c | Number n \<Rightarrow> ''#'' | Quoted s \<Rightarrow> [quote_char, CHR ''$'', quote_char]) ps)"

definition args_of :: "piece list \<Rightarrow> query_arg list" where
  "args_of ps = concat (map (\<lambda>p. case p of Code c \<Rightarrow> [] | Number n \<Rightarrow> [Int_arg n] | Quoted s \<Rightarrow> [Str_arg s]) ps)"

text \<open>The query with a \<open>?\<close> for every text, and the texts.\<close>

definition prepared :: "piece list \<Rightarrow> string" where
  "prepared ps = concat (map (\<lambda>p. case p of Code c \<Rightarrow> c | Number n \<Rightarrow> format_i n | Quoted s \<Rightarrow> ''?'') ps)"

definition strings_of :: "piece list \<Rightarrow> string list" where
  "strings_of ps = concat (map (\<lambda>p. case p of Quoted s \<Rightarrow> [s] | _ \<Rightarrow> []) ps)"

fun apart :: "piece list \<Rightarrow> bool" where
  "apart (Quoted s # Quoted t # ps) \<longleftrightarrow> False"
| "apart (p # ps) \<longleftrightarrow> apart ps"
| "apart [] \<longleftrightarrow> True"

definition plain_pieces :: "piece list \<Rightarrow> bool" where
  "plain_pieces ps \<longleftrightarrow>
     (\<forall>c. Code c \<in> set ps \<longrightarrow> c \<noteq> [] \<and> (\<forall>x \<in> set c. x \<notin> {CHR ''#'', CHR ''@'', CHR ''$'', quote_char})) \<and> apart ps"

text \<open>
  How SQL reads a query: outside of literals, and inside of one, where two quotes stand for one. The
  value is the query with its literals taken out, a \<open>?\<close> for each, and the literals.
\<close>

fun scan_out :: "string \<Rightarrow> (string \<times> string list) option"
  and scan_in :: "string \<Rightarrow> string \<Rightarrow> (string \<times> string list) option" where
  "scan_out [] = Some ([], [])"
| "scan_out (c # cs) =
     (if c = quote_char then scan_in [] cs else map_option (\<lambda>(k, ls). (c # k, ls)) (scan_out cs))"
| "scan_in acc [] = None"
| "scan_in acc (c # cs) =
     (if c \<noteq> quote_char then scan_in (acc @ [c]) cs
      else case cs of
        [] \<Rightarrow> Some (''?'', [acc])
      | d # ds \<Rightarrow>
          if d = quote_char then scan_in (acc @ [quote_char]) ds
          else map_option (\<lambda>(k, ls). (CHR ''?'' # k, acc # ls)) (scan_out cs))"

text \<open>The documented conversion \<open>%q\<close> of SQLite: every quote of the text is doubled.\<close>

definition doubles_quotes :: "(string \<Rightarrow> string) \<Rightarrow> bool" where
  "doubles_quotes esc \<longleftrightarrow> (\<forall>s. esc s = concat (map (\<lambda>c. if c = quote_char then [c, c] else [c]) s))"

lemma piece_simps [simp]:
  "fmt_of [] = []" "args_of [] = []" "prepared [] = []" "strings_of [] = []"
  "fmt_of (Code c # ps) = c @ fmt_of ps" "fmt_of (Number n # ps) = CHR ''#'' # fmt_of ps"
  "fmt_of (Quoted s # ps) = quote_char # CHR ''$'' # quote_char # fmt_of ps"
  "args_of (Code c # ps) = args_of ps" "args_of (Number n # ps) = Int_arg n # args_of ps"
  "args_of (Quoted s # ps) = Str_arg s # args_of ps"
  "prepared (Code c # ps) = c @ prepared ps" "prepared (Number n # ps) = format_i n @ prepared ps"
  "prepared (Quoted s # ps) = CHR ''?'' # prepared ps"
  "strings_of (Code c # ps) = strings_of ps" "strings_of (Number n # ps) = strings_of ps"
  "strings_of (Quoted s # ps) = s # strings_of ps"
  by (simp_all add: fmt_of_def args_of_def prepared_def strings_of_def)

lemma quote_not_special [simp]:
  "quote_char \<noteq> CHR ''#''" "quote_char \<noteq> CHR ''@''" "quote_char \<noteq> CHR ''$''" "quote_char \<noteq> backtick" "backtick \<noteq> quote_char"
  "CHR ''#'' \<noteq> quote_char" "CHR ''$'' \<noteq> quote_char" "CHR ''?'' \<noteq> backtick" "CHR ''?'' \<noteq> quote_char"
  by (simp_all add: quote_char_def backtick_def)

lemma parse_code:
  "\<forall>x \<in> set c. x \<notin> {CHR ''#'', CHR ''@'', CHR ''$'', quote_char} \<Longrightarrow>
   parse_query eng esc (c @ ps) args False final params =
   parse_query eng esc ps args False (final @ (if eng = SqlServer then filter (\<lambda>x. x \<noteq> backtick) c else c)) params"
proof (induction c arbitrary: final)
  case (Cons x c)
  then have x: "x \<noteq> CHR ''#''" "x \<noteq> CHR ''@''" "x \<noteq> CHR ''$''" "x \<noteq> quote_char" by auto
  show ?case using Cons by (cases "eng = SqlServer \<and> x = backtick") (auto simp: x)
qed simp

text \<open>The query of SQLite, with the texts between quotes.\<close>

fun inlined :: "(string \<Rightarrow> string) \<Rightarrow> piece list \<Rightarrow> string" where
  "inlined esc [] = []"
| "inlined esc (Code c # ps) = c @ inlined esc ps"
| "inlined esc (Number n # ps) = format_i n @ inlined esc ps"
| "inlined esc (Quoted s # ps) = quote_char # esc s @ quote_char # inlined esc ps"

lemma plain_pieces_Cons:
  "plain_pieces (p # ps) \<Longrightarrow> plain_pieces ps"
  by (cases "p # ps" rule: apart.cases) (auto simp: plain_pieces_def)

lemma parse_inlined:
  "plain_pieces ps \<Longrightarrow> eng \<noteq> SqlServer \<Longrightarrow>
   parse_query eng esc (fmt_of ps) (args_of ps) False final params = Inr (final @ inlined esc ps, params)"
proof (induction ps arbitrary: final)
  case (Cons p ps)
  have rest: "plain_pieces ps" by (rule plain_pieces_Cons [OF Cons.prems(1)])
  show ?case
    using Cons rest parse_code [where ps = "fmt_of ps" and eng = eng and esc = esc]
    by (cases p) (auto simp: plain_pieces_def to_string_int_eq)
qed simp

lemma format_i_plain: "filter (\<lambda>x. x \<noteq> backtick) (format_i n) = format_i n" "quote_char \<notin> set (format_i n)" "format_i n \<noteq> []"
proof -
  have "c \<noteq> backtick \<and> c \<noteq> quote_char" if "c \<in> set (format_i n)" for c
    using format_i_chars [OF that] by (auto simp: backtick_def quote_char_def is_digit_def)
  then show "filter (\<lambda>x. x \<noteq> backtick) (format_i n) = format_i n" "quote_char \<notin> set (format_i n)"
    by (auto intro: filter_True)
  show "format_i n \<noteq> []" by (simp add: format_i_def)
qed

lemma parse_prepared:
  "plain_pieces ps \<Longrightarrow>
   parse_query SqlServer esc (fmt_of ps) (args_of ps) False final params =
   Inr (final @ filter (\<lambda>x. x \<noteq> backtick) (prepared ps), params @ strings_of ps)"
proof (induction ps arbitrary: final params)
  case (Cons p ps)
  have rest: "plain_pieces ps" by (rule plain_pieces_Cons [OF Cons.prems(1)])
  show ?case
    using Cons rest parse_code [where ps = "fmt_of ps" and eng = SqlServer and esc = esc]
    by (cases p) (auto simp: plain_pieces_def to_string_int_eq format_i_plain)
qed simp

lemma scan_out_code: "quote_char \<notin> set c \<Longrightarrow> scan_out (c @ r) = map_option (\<lambda>(k, ls). (c @ k, ls)) (scan_out r)"
  by (induction c) (auto simp: option.map_comp comp_def split_def option.map_ident)

lemma scan_in_quoted:
  assumes "doubles_quotes esc" "r = [] \<or> hd r \<noteq> quote_char"
  shows "scan_in acc (esc s @ quote_char # r) = map_option (\<lambda>(k, ls). (CHR ''?'' # k, (acc @ s) # ls)) (scan_out r)"
proof -
  have "scan_in acc (concat (map (\<lambda>c. if c = quote_char then [c, c] else [c]) s) @ quote_char # r) =
      map_option (\<lambda>(k, ls). (CHR ''?'' # k, (acc @ s) # ls)) (scan_out r)"
    using assms(2) by (induction s arbitrary: acc) (auto split: list.split)
  then show ?thesis using assms(1) by (simp add: doubles_quotes_def)
qed

lemma inlined_head: "plain_pieces (Quoted s # ps) \<Longrightarrow> inlined esc ps = [] \<or> hd (inlined esc ps) \<noteq> quote_char"
proof (cases ps)
  case (Cons p ps')
  assume plain: "plain_pieces (Quoted s # ps)"
  have "hd (format_i n) \<noteq> quote_char" for n using format_i_plain(2,3) [of n] by (metis hd_in_set)
  moreover have "hd c \<noteq> quote_char" if "p = Code c" for c
    using plain that Cons by (cases c) (auto simp: plain_pieces_def)
  ultimately show ?thesis using plain Cons format_i_plain(3) by (cases p) (auto simp: plain_pieces_def hd_append)
qed simp

lemma scan_inlined:
  assumes esc: "doubles_quotes esc"
  shows "plain_pieces ps \<Longrightarrow> scan_out (inlined esc ps) = Some (prepared ps, strings_of ps)"
proof (induction ps)
  case (Cons p ps)
  have IH: "scan_out (inlined esc ps) = Some (prepared ps, strings_of ps)"
    by (rule Cons.IH [OF plain_pieces_Cons [OF Cons.prems]])
  show ?case
  proof (cases p)
    case (Code c)
    then have "quote_char \<notin> set c" using Cons.prems by (auto simp: plain_pieces_def)
    then show ?thesis using Code IH by (simp add: scan_out_code)
  next
    case (Number n)
    then show ?thesis using IH format_i_plain(2) by (simp add: scan_out_code)
  next
    case (Quoted s)
    then show ?thesis using IH scan_in_quoted [OF esc inlined_head, of s ps "[]" s] Cons.prems by simp
  qed
qed simp


text \<open>A login with a name that tries to end the literal.\<close>

definition login_query :: "piece list" where
  "login_query = [Code ''SELECT * FROM `a` WHERE u='', Quoted (quote_char # '' OR 1=1''), Code '' AND v='', Number 3]"


section \<open>Transactions take effect as a whole\<close>

text \<open>A connection that is open and used by the thread it belongs to, outside of a transaction.\<close>

definition ready :: "nat \<Rightarrow> 's connection \<Rightarrow> bool" where
  "ready tid c \<longleftrightarrow> db_connected c \<and> db_owner c \<in> {None, Some tid}"

lemma RawQuery_ready:
  "ready tid c \<Longrightarrow> RawQuery srv tid q t c =
    (case srv (db_session c) q of
       None \<Rightarrow> (Some (Query_Failed []), c)
     | Some s \<Rightarrow> (None, c\<lparr>db_session := s,
         transaction_log := (if db_engine c = MySQL \<and> in_transaction c \<and> \<not> t \<and> logged q
                             then transaction_log c @ [q] else transaction_log c)\<rparr>))"
  by (auto simp: ready_def RawQuery_def then_db_def CheckThreadAffinity_def split: option.splits)

lemma ready_update [simp]:
  "ready tid (c\<lparr>db_session := s, transaction_log := l\<rparr>) = ready tid c"
  "ready tid (c\<lparr>in_transaction := b\<rparr>) = ready tid c" "ready tid (c\<lparr>in_transaction := b, transaction_log := l\<rparr>) = ready tid c"
  by (simp_all add: ready_def)

text \<open>What a run of queries leaves: the session after the longest prefix that succeeded, and its log.\<close>

lemma raw_queries_run:
  assumes "ready tid c"
  shows "\<exists>done s. (\<exists>rest. qs = done @ rest \<and> (fst (raw_queries srv tid qs c) = None \<longleftrightarrow> rest = [])) \<and>
    replay srv done (db_session c) = Some s \<and>
    snd (raw_queries srv tid qs c) = c\<lparr>db_session := s,
      transaction_log := transaction_log c @ (if db_engine c = MySQL \<and> in_transaction c then filter logged done else [])\<rparr>"
  using assms
proof (induction qs arbitrary: c)
  case (Cons q qs)
  show ?case
  proof (cases "srv (db_session c) q")
    case None
    then show ?thesis
      using Cons.prems by (intro exI [of _ "[]"] exI [of _ "db_session c"]) (simp add: RawQuery_ready then_db_def)
  next
    case (Some s1)
    define c1 where "c1 = snd (RawQuery srv tid q False c)"
    have c1: "RawQuery srv tid q False c = (None, c1)" "ready tid c1" "db_session c1 = s1" "db_engine c1 = db_engine c"
      "in_transaction c1 = in_transaction c"
      "transaction_log c1 = transaction_log c @ (if db_engine c = MySQL \<and> in_transaction c then filter logged [q] else [])"
      "c1\<lparr>db_session := db_session x, transaction_log := transaction_log x\<rparr> = c\<lparr>db_session := db_session x, transaction_log := transaction_log x\<rparr>" for x
      using Cons.prems Some by (auto simp: c1_def RawQuery_ready)
    obtain run rest s where IH: "qs = run @ rest" "fst (raw_queries srv tid qs c1) = None \<longleftrightarrow> rest = []"
      "replay srv run s1 = Some s" "snd (raw_queries srv tid qs c1) = c1\<lparr>db_session := s,
        transaction_log := transaction_log c1 @ (if db_engine c = MySQL \<and> in_transaction c then filter logged run else [])\<rparr>"
      using Cons.IH [OF c1(2)] c1(3-5) by auto
    have "c1\<lparr>db_session := s, transaction_log := l\<rparr> = c\<lparr>db_session := s, transaction_log := l\<rparr>" for l
      using c1(7) [of "c\<lparr>db_session := s, transaction_log := l\<rparr>"] by simp
    then show ?thesis
      using IH c1(1) Some
      by (intro exI [of _ "q # run"] exI [of _ s]) (auto simp: then_db_def c1(6))
  qed
qed simp

lemma begin_attempts_run:
  assumes "ready tid c"
  shows "begin_attempts srv tid n c = None \<or>
    (\<exists>s. srv (db_session c) (begin_text (db_engine c)) = Some s \<and>
       begin_attempts srv tid n c = Some (c\<lparr>db_session := s, in_transaction := True\<rparr>))"
  using assms
proof (induction n)
  case (Suc n)
  then show ?case by (auto simp: RawQuery_ready split: option.split)
qed simp

text \<open>
  The documented behaviour of transactions: what a session has stored changes neither with the
  beginning of one, nor when one is rolled back after queries that do not control transactions themselves.
\<close>

definition transactional :: "('s \<Rightarrow> string \<Rightarrow> 's option) \<Rightarrow> engine \<Rightarrow> string set \<Rightarrow> ('s \<Rightarrow> 'd) \<Rightarrow> bool" where
  "transactional srv eng plain stored \<longleftrightarrow>
     (\<forall>s s1 qs s2 s3. set qs \<subseteq> plain \<longrightarrow> srv s (begin_text eng) = Some s1 \<longrightarrow> replay srv qs s1 = Some s2 \<longrightarrow>
        srv s2 (rollback_text eng) = Some s3 \<longrightarrow> stored s3 = stored s)"

text \<open>
  C11: \<open>ExecuteQueries\<close> is atomic. When it returns without an exception, the server has begun a transaction,
  run all the queries in order and committed; when it throws, because one of the queries or the commit
  failed, what the server has stored is what it was. Afterwards there is no transaction and no log.
  When it does not return, beginning has failed ten times or the rollback failed, and the server has ended.
\<close>

theorem ExecuteQueries_atomic:
  assumes ready: "ready tid c" "\<not> in_transaction c" "transaction_log c = []"
    and srv: "transactional srv (db_engine c) plain stored" and qs: "set qs \<subseteq> plain"
    and run: "ExecuteQueries srv tid qs c = Some (r, c')"
  shows "\<not> in_transaction c' \<and> transaction_log c' = [] \<and>
    (case r of
       None \<Rightarrow> (\<exists>s1 s2. srv (db_session c) (begin_text (db_engine c)) = Some s1 \<and> replay srv qs s1 = Some s2 \<and>
                  srv s2 (commit_text (db_engine c)) = Some (db_session c'))
     | Some e \<Rightarrow> stored (db_session c') = stored (db_session c))"
proof -
  let ?eng = "db_engine c"
  obtain s1 where s1: "srv (db_session c) (begin_text ?eng) = Some s1"
    "BeginTransaction srv tid c = Some (True, c\<lparr>db_session := s1, in_transaction := True\<rparr>)"
    using run ready(2) begin_attempts_run [OF ready(1), of srv 10]
    by (auto simp: ExecuteQueries_def BeginTransaction_def split: option.splits)
  define c1 where "c1 = c\<lparr>db_session := s1, in_transaction := True\<rparr>"
  have c1: "ready tid c1" "db_engine c1 = ?eng" "db_session c1 = s1" "in_transaction c1"
    using ready(1) by (simp_all add: c1_def ready_def)
  obtain ran rest s2 l where q: "qs = ran @ rest" "fst (raw_queries srv tid qs c1) = None \<longleftrightarrow> rest = []"
    "replay srv ran s1 = Some s2" "snd (raw_queries srv tid qs c1) = c1\<lparr>db_session := s2, transaction_log := l\<rparr>"
    using raw_queries_run [OF c1(1), of qs srv] c1(3) by auto
  define c2 where "c2 = c1\<lparr>db_session := s2, transaction_log := l\<rparr>"
  have c2: "ready tid c2" "db_engine c2 = ?eng" "db_session c2 = s2" "in_transaction c2"
    using c1 by (simp_all add: c2_def)
  have rolled: "stored s3 = stored (db_session c)" if "srv s2 (rollback_text ?eng) = Some s3" for s3
    using srv s1(1) q(1,3) qs that unfolding transactional_def by (metis Un_subset_iff set_append)
  define w where "w = then_db (raw_queries srv tid qs) (db_Commit srv tid) c1"
  have w: "w = (if rest = [] then (case srv s2 (commit_text ?eng) of
        None \<Rightarrow> (Some (Query_Failed []), c2) | Some s3 \<Rightarrow> (None, c2\<lparr>db_session := s3, in_transaction := False, transaction_log := []\<rparr>))
      else (fst (raw_queries srv tid qs c1), c2))"
    using q(2,4) c2 by (cases "raw_queries srv tid qs c1")
      (auto simp: w_def then_db_def db_Commit_def RawQuery_ready c2_def [symmetric] split: option.split)
  have res: "(case w of (None, d) \<Rightarrow> Some (None, d)
      | (Some e, d) \<Rightarrow> (case db_Rollback srv tid d of (None, d) \<Rightarrow> Some (Some e, d) | (Some _, d) \<Rightarrow> None)) = Some (r, c')"
    using run s1(2) by (simp add: ExecuteQueries_def c1_def [symmetric] w_def)
  have roll: "db_Rollback srv tid c2 = (case srv s2 (rollback_text ?eng) of
      None \<Rightarrow> (Some (Query_Failed []), c2) | Some s3 \<Rightarrow> (None, c2\<lparr>db_session := s3, in_transaction := False, transaction_log := []\<rparr>))"
    using c2 by (simp add: db_Rollback_def then_db_def RawQuery_ready split: option.split)
  show ?thesis
  proof (cases "rest = [] \<and> srv s2 (commit_text ?eng) \<noteq> None")
    case True
    then show ?thesis using res w s1(1) q(1,3) by auto
  next
    case False
    then obtain e where "w = (Some e, c2)"
      using w q(2) by (cases "rest = []") (auto split: option.splits)
    then obtain s3 where s3: "srv s2 (rollback_text ?eng) = Some s3" "r = Some e"
      "c' = c2\<lparr>db_session := s3, in_transaction := False, transaction_log := []\<rparr>"
      using res roll by (auto split: option.splits)
    then show ?thesis using rolled by simp
  qed
qed

text \<open>
  With MySQL the log of a connection is what has to be sent again when the connection is lost within
  a transaction: it holds the queries since the beginning, in order, without those that only select, and
  running it on the session right after the beginning gives the session as it is.
\<close>

theorem log_restores_transaction:
  assumes "ready tid c" "in_transaction c" "transaction_log c = []" "db_engine c = MySQL"
    and selects: "\<And>s q s'. \<not> logged q \<Longrightarrow> srv s q = Some s' \<Longrightarrow> s' = s"
    and run: "raw_queries srv tid qs c = (None, c')"
  shows "transaction_log c' = filter logged qs \<and> replay srv (transaction_log c') (db_session c) = Some (db_session c')"
proof -
  have "replay srv (filter logged xs) s = replay srv xs s" if "replay srv xs s \<noteq> None" for xs s
    using that
  proof (induction xs arbitrary: s)
    case (Cons q xs)
    then obtain s1 where s1: "srv s q = Some s1" "replay srv xs s1 \<noteq> None" by (auto split: option.splits)
    then show ?case using Cons.IH [OF s1(2)] selects [of q s s1] by auto
  qed simp
  then show ?thesis
    using raw_queries_run [OF assms(1), of qs srv] run assms(2-4) by auto
qed

text \<open>A server that stores a list of numbers: the length of a query is appended; a query with a \<open>!\<close> fails.\<close>

definition list_server :: "nat list \<times> nat list option \<Rightarrow> string \<Rightarrow> (nat list \<times> nat list option) option" where
  "list_server s q =
     (if q = ''BEGIN'' \<or> q = ''START TRANSACTION'' then Some (fst s, Some (fst s))
      else if q = ''COMMIT'' then Some (case snd s of None \<Rightarrow> fst s | Some w \<Rightarrow> w, None)
      else if q = ''ROLLBACK'' then Some (fst s, None)
      else if CHR ''!'' \<in> set q then None
      else if take 6 q = ''SELECT'' then Some s
      else Some (case snd s of None \<Rightarrow> (fst s @ [length q], None) | Some w \<Rightarrow> (fst s, Some (w @ [length q]))))"

definition list_plain :: "string set" where
  "list_plain = - {''BEGIN'', ''START TRANSACTION'', ''COMMIT'', ''ROLLBACK''}"

definition list_connection :: "engine \<Rightarrow> (nat list \<times> nat list option) connection" where
  "list_connection eng = \<lparr>db_connected = True, db_engine = eng, in_transaction = False, transaction_log = [],
     db_owner = Some 1, db_session = ([7], None)\<rparr>"

lemma list_server_transactional: "transactional list_server SQLite list_plain fst"
proof -
  have "fst s2 = fst s1" if "replay list_server qs s1 = Some s2" "set qs \<subseteq> list_plain" "snd s1 \<noteq> None" for qs s1 s2
    using that
  proof (induction qs arbitrary: s1)
    case (Cons q qs)
    then obtain s where s: "list_server s1 q = Some s" "replay list_server qs s = Some s2" by (auto split: option.splits)
    then have "fst s = fst s1 \<and> snd s \<noteq> None"
      using Cons.prems(2,3) by (auto simp: list_server_def list_plain_def split: if_splits option.splits)
    then show ?case using Cons.IH [OF s(2)] Cons.prems(2) by simp
  qed simp
  then show ?thesis
    by (fastforce simp: transactional_def begin_text_def rollback_text_def list_server_def)
qed

theorem ExecuteQueries_atomic_witness:
  "\<exists>c'. ExecuteQueries list_server 1 [''INSERT'', ''bad!''] (list_connection SQLite) = Some (Some (Query_Failed []), c') \<and>
    fst (db_session c') = [7]"
proof -
  obtain c' where c': "ExecuteQueries list_server 1 [''INSERT'', ''bad!''] (list_connection SQLite) = Some (Some (Query_Failed []), c')"
  proof -
    have "map_option fst (ExecuteQueries list_server 1 [''INSERT'', ''bad!''] (list_connection SQLite)) = Some (Some (Query_Failed []))"
      by code_simp
    then show thesis using that by auto
  qed
  have "fst (db_session c') = fst (db_session (list_connection SQLite))"
    using ExecuteQueries_atomic [OF _ _ _ _ _ c', of list_plain fst] list_server_transactional
    by (simp add: ready_def list_connection_def list_plain_def)
  then show ?thesis using c' by (simp add: list_connection_def)
qed

theorem log_restores_transaction_witness:
  "\<exists>c'. raw_queries list_server 1 [''INSERT'', ''SELECT 1'', ''UPDATE''] (list_connection MySQL\<lparr>in_transaction := True\<rparr>) = (None, c') \<and>
    transaction_log c' = [''INSERT'', ''UPDATE'']"
proof -
  let ?c = "list_connection MySQL\<lparr>in_transaction := True\<rparr>"
  obtain c' where c': "raw_queries list_server 1 [''INSERT'', ''SELECT 1'', ''UPDATE''] ?c = (None, c')"
  proof -
    have "fst (raw_queries list_server 1 [''INSERT'', ''SELECT 1'', ''UPDATE''] ?c) = None" by code_simp
    then show thesis using that by (metis prod.collapse)
  qed
  have sel: "s' = s" if "\<not> logged q" "list_server s q = Some s'" for s q s'
  proof -
    have t: "take 6 q = ''SELECT''" using that(1) by (auto simp: logged_def)
    then have "q \<noteq> ''BEGIN''" "q \<noteq> ''START TRANSACTION''" "q \<noteq> ''COMMIT''" "q \<noteq> ''ROLLBACK''" by auto
    then show ?thesis using that(2) t by (simp add: list_server_def split: if_splits)
  qed
  have "transaction_log c' = filter logged [''INSERT'', ''SELECT 1'', ''UPDATE'']"
    using log_restores_transaction [OF _ _ _ _ sel c'] by (simp add: ready_def list_connection_def)
  then show ?thesis using c' by (simp add: logged_def)
qed

end
