(* ===== verification/Npc_Data.thy ===== *)
theory Npc_Data
  imports Config EOData Character_Data
begin

text \<open>
  What the server knows about a kind of NPC (\<open>npc_data.cpp\<close>): its drops, the trades and crafts of
  a shop, the skills a master teaches, the questions of an innkeeper and what it says, all read from the
  configuration. The environment and the configuration files are arguments. The property: lists written
  with commas are read back, and a list of the wrong length ends the reading.
\<close>

section \<open>The data\<close>

record npc_drop =
  dr_id :: int
  dr_min :: int
  dr_max :: int
  dr_chance :: double
  dr_offset :: double

record shop_trade_item =
  tr_id :: int
  tr_buy :: int
  tr_sell :: int

record shop_craft_item =
  cr_id :: int
  cr_ingredients :: "(int \<times> int) list"

record learn_skill =
  ls_id :: int
  ls_cost :: int
  ls_levelreq :: int
  ls_classreq :: int
  ls_skillreq :: "int list"
  ls_strreq :: int
  ls_intreq :: int
  ls_wisreq :: int
  ls_agireq :: int
  ls_conreq :: int
  ls_chareq :: int

record citizenship =
  ct_home :: string
  ct_questions :: "string list"
  ct_answers :: "string list"

record npc_data =
  nd_id :: int
  nd_drops :: "npc_drop list"
  nd_chance_total :: double
  nd_shop_name :: string
  nd_skill_name :: string
  nd_trade :: "shop_trade_item list"
  nd_craft :: "shop_craft_item list"
  nd_learn :: "learn_skill list"
  nd_citizenship :: "citizenship option"
  nd_talk_speed :: double
  nd_talk_chance :: double
  nd_talk_phrases :: "string list"

text \<open>
  The configurations of the world; the entries of \<open>home_config\<close> come in the order of its hash table, an
  argument. \<open>operator []\<close> makes a default entry for a missing key, which no other lookup here asks for.
\<close>

record npc_configs =
  k_env :: environment
  k_drops :: config
  k_shops :: config
  k_skills :: config
  k_homes :: config
  k_home_order :: "(string \<times> string) list"
  k_speech :: config
  k_enf :: "enf_data pub"

definition conf_find :: "config \<Rightarrow> string \<Rightarrow> string option" where
  "conf_find cfg key = map_option (\<lambda>v. fst (variant_GetString v)) (entries cfg key)"

definition conf_string :: "environment \<Rightarrow> config \<Rightarrow> string \<Rightarrow> string" where
  "conf_string env cfg key = fst (variant_GetString (fst (config_index env key cfg)))"

definition conf_int :: "environment \<Rightarrow> config \<Rightarrow> string \<Rightarrow> int outcome" where
  "conf_int env cfg key = bind_out (variant_GetInt (fst (config_index env key cfg))) (\<lambda>(i, _). Inr i)"

definition conf_float :: "environment \<Rightarrow> config \<Rightarrow> string \<Rightarrow> double" where
  "conf_float env cfg key = fst (variant_GetFloat (fst (config_index env key cfg)))"

definition npc_ENF :: "npc_configs \<Rightarrow> npc_data \<Rightarrow> enf_data outcome" where
  "npc_ENF k d = ENF_Get (k_enf k) (of_int (nd_id d))"

definition npc_Unload :: "npc_data \<Rightarrow> npc_data" where
  "npc_Unload d = d\<lparr>nd_drops := [], nd_trade := [], nd_craft := [], nd_learn := [], nd_chance_total := Fin 0,
     nd_citizenship := None, nd_talk_speed := Fin 0, nd_talk_chance := Fin 0, nd_talk_phrases := []\<rparr>"

section \<open>Reading the lists\<close>

text \<open>The loops \<open>for (i = 0; i < parts.size(); i += n)\<close>, which read \<open>n\<close> texts for each entry.\<close>

fun map_out :: "('a \<Rightarrow> 'b outcome) \<Rightarrow> 'a list \<Rightarrow> 'b list outcome" where
  "map_out f [] = Inr []"
| "map_out f (x # xs) = bind_out (f x) (\<lambda>y. bind_out (map_out f xs) (\<lambda>ys. Inr (y # ys)))"

definition group_at :: "nat \<Rightarrow> 'a list \<Rightarrow> nat \<Rightarrow> 'a list" where
  "group_at n parts i = take n (drop (i * n) parts)"

definition read_groups :: "nat \<Rightarrow> (string list \<Rightarrow> 'a outcome) \<Rightarrow> string list \<Rightarrow> 'a list outcome" where
  "read_groups n f parts = map_out (\<lambda>i. f (group_at n parts i)) [0..<length parts div n]"

definition to_ushort :: "int \<Rightarrow> int" where
  "to_ushort n = n mod 65536"

definition read_drop :: "string list \<Rightarrow> npc_drop outcome" where
  "read_drop p =
     bind_out (to_int (p ! 0)) (\<lambda>i. bind_out (to_int (p ! 1)) (\<lambda>lo. bind_out (to_int (p ! 2)) (\<lambda>hi.
       Inr \<lparr>dr_id = to_ushort i, dr_min = lo, dr_max = hi, dr_chance = to_float (p ! 3), dr_offset = Fin 0\<rparr>)))"

fun set_offsets :: "double \<Rightarrow> npc_drop list \<Rightarrow> npc_drop list \<times> double" where
  "set_offsets off [] = ([], off)"
| "set_offsets off (d # ds) =
     (let (ds, total) = set_offsets (d_add off (dr_chance d)) ds in (d\<lparr>dr_offset := off\<rparr> # ds, total))"

definition read_trade :: "string list \<Rightarrow> shop_trade_item outcome" where
  "read_trade p =
     bind_out (to_int (p ! 0)) (\<lambda>i. bind_out (to_int (p ! 1)) (\<lambda>buy. bind_out (to_int (p ! 2)) (\<lambda>sell.
       Inr \<lparr>tr_id = to_ushort i, tr_buy = buy, tr_sell = sell\<rparr>)))"

definition read_ingredient :: "string list \<Rightarrow> nat \<Rightarrow> (int \<times> int) outcome" where
  "read_ingredient p ii =
     bind_out (to_int (p ! (1 + ii * 2))) (\<lambda>i. bind_out (to_int (p ! (2 + ii * 2))) (\<lambda>n. Inr (to_ushort i, to_uchar n)))"

definition read_craft :: "string list \<Rightarrow> shop_craft_item outcome" where
  "read_craft p =
     bind_out (to_int (p ! 0)) (\<lambda>i. bind_out (map_out (read_ingredient p) [0..<4]) (\<lambda>is.
       Inr \<lparr>cr_id = to_ushort i, cr_ingredients = is\<rparr>))"

definition skill_of :: "int list \<Rightarrow> learn_skill" where
  "skill_of n =
     \<lparr>ls_id = to_ushort (n ! 0), ls_cost = n ! 1, ls_levelreq = to_uchar (n ! 2), ls_classreq = to_uchar (n ! 3),
      ls_skillreq = map to_short [n ! 4, n ! 5, n ! 6, n ! 7], ls_strreq = to_short (n ! 8), ls_intreq = to_short (n ! 9),
      ls_wisreq = to_short (n ! 10), ls_agireq = to_short (n ! 11), ls_conreq = to_short (n ! 12), ls_chareq = to_short (n ! 13)\<rparr>"

definition read_skill :: "string list \<Rightarrow> learn_skill outcome" where
  "read_skill p = bind_out (map_out to_int p) (\<lambda>n. Inr (skill_of n))"

section \<open>\<open>Load\<close>\<close>

text \<open>
  A list of the configuration: \<open>None\<close> when its length is wrong, which ends \<open>Load\<close>; a list of at most one text
  is passed over.
\<close>

definition read_list :: "nat \<Rightarrow> (string list \<Rightarrow> 'a outcome) \<Rightarrow> string option \<Rightarrow> 'a list option outcome" where
  "read_list n f text =
     (case text of
        None \<Rightarrow> Inr (Some [])
      | Some text \<Rightarrow> bind_out (explode_char (CHR '','') text) (\<lambda>parts.
          if \<not> length parts > 1 then Inr (Some [])
          else if length parts mod n \<noteq> 0 then Inr None
          else bind_out (read_groups n f parts) (\<lambda>xs. Inr (Some xs))))"

definition load_drops :: "npc_configs \<Rightarrow> npc_data \<Rightarrow> (bool \<times> npc_data) outcome" where
  "load_drops k d =
     bind_out (read_list 4 read_drop (conf_find (k_drops k) (to_string_int (nd_id d)))) (\<lambda>r.
       case r of
         None \<Rightarrow> Inr (False, d)
       | Some [] \<Rightarrow> Inr (True, d)
       | Some ds \<Rightarrow>
           (let (ds, total) = set_offsets (Fin 0) ds
            in Inr (True, d\<lparr>nd_drops := ds,
                 nd_chance_total := (if d_less (dbl (100001 / 1000)) total then total else d_of_int 100)\<rparr>)))"

definition vend_id :: "npc_configs \<Rightarrow> config \<Rightarrow> npc_data \<Rightarrow> int outcome" where
  "vend_id k cfg d =
     bind_out (conf_int (k_env k) cfg ''Version'') (\<lambda>v.
       if v < 2 then Inr (nd_id d) else bind_out (npc_ENF k d) (\<lambda>enf. Inr (to_short (n_vendor_id enf))))"

definition ENF_Shop :: int where "ENF_Shop = 6"
definition ENF_Inn :: int where "ENF_Inn = 7"
definition ENF_Skills :: int where "ENF_Skills = 14"

definition load_shop :: "npc_configs \<Rightarrow> npc_data \<Rightarrow> (bool \<times> npc_data) outcome" where
  "load_shop k d =
     bind_out (vend_id k (k_shops k) d) (\<lambda>vend.
     bind_out (npc_ENF k d) (\<lambda>enf.
       if \<not> (n_type enf = ENF_Shop \<and> vend > 0) then Inr (True, d)
       else
         let d = d\<lparr>nd_shop_name := conf_string (k_env k) (k_shops k) (to_string_int vend @ ''.name'')\<rparr> in
         bind_out (read_list 3 read_trade (conf_find (k_shops k) (to_string_int vend @ ''.trade''))) (\<lambda>ts.
           case ts of
             None \<Rightarrow> Inr (False, d)
           | Some ts \<Rightarrow>
               let d = d\<lparr>nd_trade := ts\<rparr> in
               bind_out (read_list 9 read_craft (conf_find (k_shops k) (to_string_int vend @ ''.craft''))) (\<lambda>cs.
                 case cs of None \<Rightarrow> Inr (False, d) | Some cs \<Rightarrow> Inr (True, d\<lparr>nd_craft := cs\<rparr>)))))"

definition load_skills :: "npc_configs \<Rightarrow> npc_data \<Rightarrow> (bool \<times> npc_data) outcome" where
  "load_skills k d =
     bind_out (vend_id k (k_skills k) d) (\<lambda>vend.
     bind_out (npc_ENF k d) (\<lambda>enf.
       if \<not> (n_type enf = ENF_Skills \<and> vend > 0) then Inr (True, d)
       else
         let d = d\<lparr>nd_skill_name := conf_string (k_env k) (k_skills k) (to_string_int vend @ ''.name'')\<rparr> in
         bind_out (read_list 14 read_skill (conf_find (k_skills k) (to_string_int vend @ ''.learn''))) (\<lambda>ss.
           case ss of None \<Rightarrow> Inr (False, d) | Some ss \<Rightarrow> Inr (True, d\<lparr>nd_learn := ss\<rparr>))))"

text \<open>
  The loop over the homes: it looks for the home this vendor keeps the inn of, and starts again from
  the beginning to read the questions and answers of that home. Their number is not checked before they
  are stored.
\<close>

fun find_home :: "int \<Rightarrow> (string \<times> string) list \<Rightarrow> string option outcome" where
  "find_home vend [] = Inr None"
| "find_home vend ((key, v) # hs) =
     bind_out (explode_char (CHR ''.'') key) (\<lambda>parts.
       if length parts < 2 then find_home vend hs
       else if parts ! 1 = ''innkeeper'' then
         bind_out (to_int v) (\<lambda>n. if n = vend then Inr (Some (parts ! 0)) else find_home vend hs)
       else find_home vend hs)"

definition store_text :: "string \<Rightarrow> string \<Rightarrow> string list \<Rightarrow> string list outcome" where
  "store_text part v texts =
     (let index = char_code (last part) - 49
      in if index < 0 \<or> index \<ge> 3 then Inl Write_Out_Of_Bounds else Inr (texts[nat index := v]))"

fun read_homes :: "(string \<times> string) list \<Rightarrow> citizenship \<Rightarrow> citizenship outcome" where
  "read_homes [] c = Inr c"
| "read_homes ((key, v) # hs) c =
     bind_out (explode_char (CHR ''.'') key) (\<lambda>parts.
       if length parts < 2 then read_homes hs c
       else if ct_home c = parts ! 0 \<and> butlast (parts ! 1) = ''question'' then
         bind_out (store_text (parts ! 1) v (ct_questions c)) (\<lambda>q. read_homes hs (c\<lparr>ct_questions := q\<rparr>))
       else if ct_home c = parts ! 0 \<and> butlast (parts ! 1) = ''answer'' then
         bind_out (store_text (parts ! 1) v (ct_answers c)) (\<lambda>a. read_homes hs (c\<lparr>ct_answers := a\<rparr>))
       else read_homes hs c)"

text \<open>With the data comes the home, if any, whose \<open>innkeeper_vend\<close> is set, and the vendor it is set to.\<close>

definition load_home :: "npc_configs \<Rightarrow> npc_data \<Rightarrow> (npc_data \<times> (string \<times> int) option) outcome" where
  "load_home k d =
     bind_out (vend_id k (k_homes k) d) (\<lambda>vend.
     bind_out (npc_ENF k d) (\<lambda>enf.
       if \<not> (n_type enf = ENF_Inn \<and> vend > 0) then Inr (d, None)
       else bind_out (find_home vend (k_home_order k)) (\<lambda>home.
         case home of
           None \<Rightarrow> Inr (d, None)
         | Some home \<Rightarrow>
             bind_out (read_homes (k_home_order k) \<lparr>ct_home = home, ct_questions = replicate 3 [], ct_answers = replicate 3 []\<rparr>) (\<lambda>c.
               Inr (d\<lparr>nd_citizenship := Some c\<rparr>, Some (home, to_short (n_vendor_id enf)))))))"

text \<open>
  The phrases are numbered from one, and the loop ends at the first number without one; the first
  argument bounds it (\<open>None\<close>: it has not ended).
\<close>

fun load_phrases :: "nat \<Rightarrow> config \<Rightarrow> string \<Rightarrow> int \<Rightarrow> string list option" where
  "load_phrases 0 cfg name i = None"
| "load_phrases (Suc n) cfg name i =
     (case conf_find cfg (name @ ''.speech.'' @ format_i i) of
        None \<Rightarrow> Some []
      | Some s \<Rightarrow> map_option ((#) s) (load_phrases n cfg name (i + 1)))"

definition load_speech :: "nat \<Rightarrow> npc_configs \<Rightarrow> npc_data \<Rightarrow> npc_data option" where
  "load_speech n k d =
     (let name = format_i (nd_id d) in
      map_option (\<lambda>ps. d\<lparr>nd_talk_speed := conf_float (k_env k) (k_speech k) (name @ ''.frequency''),
                        nd_talk_chance := conf_float (k_env k) (k_speech k) (name @ ''.chance''), nd_talk_phrases := ps\<rparr>)
        (load_phrases n (k_speech k) name 1))"

definition npc_Load :: "nat \<Rightarrow> npc_configs \<Rightarrow> npc_data \<Rightarrow> (npc_data \<times> (string \<times> int) option) outcome option" where
  "npc_Load n k d =
     (case load_drops k (npc_Unload d) of
        Inl e \<Rightarrow> Some (Inl e)
      | Inr (False, d) \<Rightarrow> Some (Inr (d, None))
      | Inr (True, d) \<Rightarrow>
          (case load_shop k d of
             Inl e \<Rightarrow> Some (Inl e)
           | Inr (False, d) \<Rightarrow> Some (Inr (d, None))
           | Inr (True, d) \<Rightarrow>
               (case load_skills k d of
                  Inl e \<Rightarrow> Some (Inl e)
                | Inr (False, d) \<Rightarrow> Some (Inr (d, None))
                | Inr (True, d) \<Rightarrow>
                    (case load_home k d of
                       Inl e \<Rightarrow> Some (Inl e)
                     | Inr (d, home) \<Rightarrow> map_option (\<lambda>d. Inr (d, home)) (load_speech n k d)))))"

section \<open>What is written is read\<close>

lemma map_out_Inr: "map_out f xs = Inr ys \<longleftrightarrow> length ys = length xs \<and> (\<forall>i < length xs. f (xs ! i) = Inr (ys ! i))"
proof (induction xs arbitrary: ys)
  case (Cons x xs)
  show ?case
  proof (cases ys)
    case (Cons y ys')
    then show ?thesis using Cons.IH [of ys'] by (auto simp: bind_out_Inr_iff nth_Cons split: nat.splits)
  qed (auto simp: bind_out_Inr_iff)
qed auto

lemma group_at_concat:
  assumes "\<forall>r \<in> set rows. length r = n" "i < length rows"
  shows "group_at n (concat rows) i = rows ! i"
  using assms
proof (induction rows arbitrary: i)
  case (Cons r rows)
  then show ?case by (cases i) (auto simp: group_at_def)
qed simp

lemma read_groups_concat:
  assumes "0 < n" "\<forall>x \<in> set xs. length (show x) = n \<and> f (show x) = Inr x"
  shows "read_groups n f (concat (map show xs)) = Inr xs"
proof -
  have len: "length (concat (map show xs)) = length xs * n"
    using assms(2) by (induction xs) auto
  have "group_at n (concat (map show xs)) i = show (xs ! i)" if "i < length xs" for i
    using that assms(2) by (subst group_at_concat) auto
  then show ?thesis using assms len by (auto simp: read_groups_def map_out_Inr)
qed

text \<open>A list of the configuration and the text it is written as.\<close>

definition conf_text :: "('a \<Rightarrow> string list) \<Rightarrow> 'a list \<Rightarrow> string" where
  "conf_text show xs = join '','' (concat (map show xs))"

lemma read_list_text:
  assumes "1 < n" "\<forall>x \<in> set xs. length (show x) = n \<and> f (show x) = Inr x \<and> (\<forall>w \<in> set (show x). CHR '','' \<notin> set w)"
  shows "read_list n f (Some (conf_text show xs)) = Inr (Some xs)"
proof (cases "xs = []")
  case False
  let ?parts = "concat (map show xs)"
  have len: "length ?parts = length xs * n" using assms(2) by (induction xs) auto
  have "length xs * n \<ge> n" using False by (cases xs) auto
  then have long: "1 < length ?parts" using len assms(1) by linarith
  have "?parts \<noteq> []" using long by (cases ?parts) simp_all
  moreover have "\<forall>w \<in> set ?parts. CHR '','' \<notin> set w" using assms(2) by auto
  ultimately have "pieces (CHR '','') (conf_text show xs) = ?parts"
    unfolding conf_text_def using pieces_join [of ?parts "CHR '',''"] by blast
  then have "explode_char (CHR '','') (conf_text show xs) = Inr ?parts" by (simp add: explode_char_pieces)
  moreover have "read_groups n f ?parts = Inr xs" using assms by (intro read_groups_concat) auto
  ultimately show ?thesis using long len by (simp add: read_list_def)
qed (simp add: read_list_def conf_text_def explode_char_pieces)

definition trade_text :: "shop_trade_item \<Rightarrow> string list" where
  "trade_text t = map format_i [tr_id t, tr_buy t, tr_sell t]"

definition craft_text :: "shop_craft_item \<Rightarrow> string list" where
  "craft_text c = map format_i (cr_id c # concat (map (\<lambda>(i, n). [i, n]) (cr_ingredients c)))"

definition skill_text :: "learn_skill \<Rightarrow> string list" where
  "skill_text s =
     map format_i ([ls_id s, ls_cost s, ls_levelreq s, ls_classreq s] @ ls_skillreq s @
       [ls_strreq s, ls_intreq s, ls_wisreq s, ls_agireq s, ls_conreq s, ls_chareq s])"

definition ushort_range :: "int \<Rightarrow> bool" where "ushort_range n \<longleftrightarrow> 0 \<le> n \<and> n < 65536"

definition uchar_range :: "int \<Rightarrow> bool" where "uchar_range n \<longleftrightarrow> 0 \<le> n \<and> n < 256"

definition trade_ok :: "shop_trade_item \<Rightarrow> bool" where
  "trade_ok t \<longleftrightarrow> ushort_range (tr_id t) \<and> int_range (tr_buy t) \<and> int_range (tr_sell t)"

definition craft_ok :: "shop_craft_item \<Rightarrow> bool" where
  "craft_ok c \<longleftrightarrow>
     ushort_range (cr_id c) \<and> length (cr_ingredients c) = 4 \<and> (\<forall>(i, n) \<in> set (cr_ingredients c). ushort_range i \<and> uchar_range n)"

definition skill_ok :: "learn_skill \<Rightarrow> bool" where
  "skill_ok s \<longleftrightarrow>
     ushort_range (ls_id s) \<and> int_range (ls_cost s) \<and> uchar_range (ls_levelreq s) \<and> uchar_range (ls_classreq s) \<and>
     length (ls_skillreq s) = 4 \<and>
     list_all short_range (ls_skillreq s @ [ls_strreq s, ls_intreq s, ls_wisreq s, ls_agireq s, ls_conreq s, ls_chareq s])"

lemma narrow_ranges:
  "ushort_range n \<Longrightarrow> int_range n \<and> to_ushort n = n" "uchar_range n \<Longrightarrow> int_range n \<and> to_uchar n = n"
  "short_range n \<Longrightarrow> int_range n \<and> to_short n = n"
  by (auto simp: ushort_range_def uchar_range_def int_range_def INT_MAX_def INT_MIN_def to_ushort_def to_uchar_def
      to_short_id short_range_def)

lemma read_trade_text: "trade_ok t \<Longrightarrow> read_trade (trade_text t) = Inr t"
  by (cases t) (auto simp: trade_ok_def read_trade_def trade_text_def to_int_format_i narrow_ranges)

lemma list_of_4: "length xs = 4 \<Longrightarrow> \<exists>a b c d. xs = [a, b, c, d]"
  by (auto simp: numeral_eq_Suc length_Suc_conv)

lemma read_craft_text: "craft_ok c \<Longrightarrow> read_craft (craft_text c) = Inr c \<and> length (craft_text c) = 9"
proof (cases c)
  case (fields i igs)
  assume ok: "craft_ok c"
  then obtain a b d e where "igs = [a, b, d, e]" using list_of_4 [of igs] fields by (auto simp: craft_ok_def)
  then show ?thesis
    using ok fields
    by (cases a; cases b; cases d; cases e)
      (auto simp: craft_ok_def read_craft_def craft_text_def read_ingredient_def upt_rec to_int_format_i narrow_ranges)
qed

lemma map_out_to_int: "list_all int_range ns \<Longrightarrow> map_out to_int (map format_i ns) = Inr ns"
  by (auto simp: map_out_Inr to_int_format_i list_all_length)

lemma read_skill_text: "skill_ok s \<Longrightarrow> read_skill (skill_text s) = Inr s \<and> length (skill_text s) = 14"
proof (cases s)
  case (fields i cost lv cl req)
  assume ok: "skill_ok s"
  then obtain a b d e where req: "ls_skillreq s = [a, b, d, e]" using list_of_4 [of "ls_skillreq s"] by (auto simp: skill_ok_def)
  have "list_all int_range ([ls_id s, ls_cost s, ls_levelreq s, ls_classreq s] @ ls_skillreq s @
       [ls_strreq s, ls_intreq s, ls_wisreq s, ls_agireq s, ls_conreq s, ls_chareq s])"
    using ok req by (auto simp: skill_ok_def narrow_ranges)
  then have "read_skill (skill_text s) = Inr (skill_of ([ls_id s, ls_cost s, ls_levelreq s, ls_classreq s] @ ls_skillreq s @
       [ls_strreq s, ls_intreq s, ls_wisreq s, ls_agireq s, ls_conreq s, ls_chareq s]))"
    unfolding read_skill_def skill_text_def by (simp only: map_out_to_int bind_out.simps)
  then show ?thesis using ok req fields by (auto simp: skill_ok_def skill_of_def narrow_ranges skill_text_def)
qed

lemma no_comma: "w \<in> set (map format_i ns) \<Longrightarrow> CHR '','' \<notin> set w"
  using format_i_no_separator by auto

lemma lists_read_back:
  "list_all trade_ok ts \<Longrightarrow> read_list 3 read_trade (Some (conf_text trade_text ts)) = Inr (Some ts)"
  "list_all craft_ok cs \<Longrightarrow> read_list 9 read_craft (Some (conf_text craft_text cs)) = Inr (Some cs)"
  "list_all skill_ok ss \<Longrightarrow> read_list 14 read_skill (Some (conf_text skill_text ss)) = Inr (Some ss)"
proof -
  have clean: "\<forall>w \<in> set (trade_text t). CHR '','' \<notin> set w" "\<forall>w \<in> set (craft_text c). CHR '','' \<notin> set w"
    "\<forall>w \<in> set (skill_text s). CHR '','' \<notin> set w" for t c s
    unfolding trade_text_def craft_text_def skill_text_def by (blast dest: no_comma)+
  have "length (trade_text t) = 3" for t by (simp add: trade_text_def)
  then show "list_all trade_ok ts \<Longrightarrow> read_list 3 read_trade (Some (conf_text trade_text ts)) = Inr (Some ts)"
    using read_trade_text clean(1) by (intro read_list_text) (auto simp: list_all_iff)
  show "list_all craft_ok cs \<Longrightarrow> read_list 9 read_craft (Some (conf_text craft_text cs)) = Inr (Some cs)"
    using read_craft_text clean(2) by (intro read_list_text) (auto simp: list_all_iff)
  show "list_all skill_ok ss \<Longrightarrow> read_list 14 read_skill (Some (conf_text skill_text ss)) = Inr (Some ss)"
    using read_skill_text clean(3) by (intro read_list_text) (auto simp: list_all_iff)
qed


lemma dec_digits_inj: "dec_digits m = dec_digits n \<Longrightarrow> m = n"
proof (induction m arbitrary: n rule: dec_digits.induct)
  case (1 m)
  have digit: "a = b" if "digit_char a = digit_char b" "a < 10" "b < 10" for a b
  proof -
    have "of_char (digit_char x) = 48 + x" if "x < 10" for x using that by (simp add: digit_char_def of_char_of)
    then show ?thesis using that by (metis add_left_cancel)
  qed
  have ne: "dec_digits k \<noteq> []" for k by (subst dec_digits.simps) simp
  show ?case
  proof (cases "m < 10")
    case True
    then show ?thesis
      using 1(2) ne [of "n div 10"] digit by (cases "n < 10") (auto simp: dec_digits.simps [of m] dec_digits.simps [of n])
  next
    case False
    then have "\<not> n < 10" using 1(2) ne [of "m div 10"] by (auto simp: dec_digits.simps [of m] dec_digits.simps [of n])
    then have "dec_digits (m div 10) = dec_digits (n div 10)" "digit_char (m mod 10) = digit_char (n mod 10)"
      using 1(2) False by (simp_all add: dec_digits.simps [of m] dec_digits.simps [of n])
    then have "m div 10 = n div 10" "m mod 10 = n mod 10" using 1(1) [OF False] digit by auto
    then show ?thesis by (metis div_mult_mod_eq)
  qed
qed

text \<open>The loop over the phrases ends, since there are finitely many.\<close>

lemma phrases_return:
  "finite (dom (entries cfg)) \<Longrightarrow> 0 \<le> i \<Longrightarrow> \<exists>n ps. load_phrases n cfg name i = Some ps"
proof (rule ccontr)
  assume fin: "finite (dom (entries cfg))" and i: "0 \<le> i" and no: "\<nexists>n ps. load_phrases n cfg name i = Some ps"
  let ?key = "\<lambda>j. name @ ''.speech.'' @ format_i (i + int j)"
  have stop: "\<exists>j < n. conf_find cfg (name @ ''.speech.'' @ format_i (k + int j)) = None \<Longrightarrow> \<exists>ps. load_phrases n cfg name k = Some ps" for n k
  proof (induction n arbitrary: k)
    case (Suc n)
    then obtain j where j: "j < Suc n" "conf_find cfg (name @ ''.speech.'' @ format_i (k + int j)) = None" by blast
    show ?case
    proof (cases "conf_find cfg (name @ ''.speech.'' @ format_i k)")
      case (Some s)
      with j obtain i where "j = Suc i" by (cases j) auto
      then have "\<exists>ps. load_phrases n cfg name (k + 1) = Some ps"
        using Suc.IH [of "k + 1"] j by (auto simp: add.assoc intro!: exI [of _ i])
      then show ?thesis using Some by auto
    qed simp
  qed simp
  have "conf_find cfg (?key j) \<noteq> None" for j
  proof
    assume "conf_find cfg (?key j) = None"
    then have "\<exists>ps. load_phrases (Suc j) cfg name i = Some ps" by (intro stop exI [of _ j] conjI lessI)
    then show False using no by blast
  qed
  then have "range ?key \<subseteq> dom (entries cfg)" by (auto simp: conf_find_def)
  moreover have "inj ?key"
    using i by (intro injI) (auto simp: format_i_def dest!: dec_digits_inj)
  ultimately show False using fin finite_subset infinite_UNIV_nat finite_imageD by blast
qed

text \<open>
  C26: The configuration of a shop is what it trades. When the lists of trades and crafts of its vendor are
  written with commas, \<open>Load\<close> reads exactly these entries, for ids, amounts and prices in the range of
  their types, and the phrases up to the first missing number; but when the list of drops of the NPC has a
  wrong length, nothing at all is read and the shop is left empty.
\<close>

theorem shop_loaded:
  assumes shop: "npc_ENF k d = Inr enf" "n_type enf = ENF_Shop" "vend_id k (k_shops k) d = Inr v" "0 < v"
    and trade: "conf_find (k_shops k) (to_string_int v @ ''.trade'') = Some (conf_text trade_text ts)" "list_all trade_ok ts"
    and craft: "conf_find (k_shops k) (to_string_int v @ ''.craft'') = Some (conf_text craft_text cs)" "list_all craft_ok cs"
    and drops: "read_list 4 read_drop (conf_find (k_drops k) (to_string_int (nd_id d))) = Inr r"
    and others: "vend_id k (k_skills k) d = Inr u" "vend_id k (k_homes k) d = Inr h"
    and speech: "load_phrases n (k_speech k) (format_i (nd_id d)) 1 = Some ps"
  shows "case r of
      None \<Rightarrow> npc_Load n k d = Some (Inr (npc_Unload d, None))
    | Some _ \<Rightarrow> \<exists>d'. npc_Load n k d = Some (Inr (d', None)) \<and> nd_trade d' = ts \<and> nd_craft d' = cs \<and> nd_learn d' = [] \<and>
        nd_talk_phrases d' = ps"
proof (cases r)
  case None
  then show ?thesis using drops by (simp add: npc_Load_def load_drops_def npc_Unload_def)
next
  case (Some ds)
  obtain d1 where d1: "load_drops k (npc_Unload d) = Inr (True, d1)" "nd_id d1 = nd_id d" "nd_learn d1 = []"
    using drops Some by (cases ds) (auto simp: load_drops_def npc_Unload_def Let_def split_def)
  have same: "npc_ENF k x = Inr enf" "vend_id k cfg x = vend_id k cfg d" if "nd_id x = nd_id d" for x cfg
  proof -
    show enf: "npc_ENF k x = Inr enf" using that shop(1) by (simp add: npc_ENF_def)
    show "vend_id k cfg x = vend_id k cfg d" unfolding vend_id_def enf shop(1) that by (rule refl)
  qed
  have l: "read_list 3 read_trade (conf_find (k_shops k) (to_string_int v @ ''.trade'')) = Inr (Some ts)"
    "read_list 9 read_craft (conf_find (k_shops k) (to_string_int v @ ''.craft'')) = Inr (Some cs)"
    by (simp_all only: trade(1) craft(1) lists_read_back(1) [OF trade(2)] lists_read_back(2) [OF craft(2)])
  define d2 where "d2 = d1\<lparr>nd_shop_name := conf_string (k_env k) (k_shops k) (to_string_int v @ ''.name''), nd_trade := ts, nd_craft := cs\<rparr>"
  have d2: "load_shop k d1 = Inr (True, d2)" "nd_id d2 = nd_id d" "nd_learn d2 = []" "nd_trade d2 = ts" "nd_craft d2 = cs"
    unfolding load_shop_def same [OF d1(2)] shop(3) by (simp_all add: shop(2,4) l Let_def d2_def d1)
  have d3: "load_skills k d2 = Inr (True, d2)" "load_home k d2 = Inr (d2, None)"
    unfolding load_skills_def load_home_def same [OF d2(2)] others
    by (simp_all add: shop(2) ENF_Shop_def ENF_Skills_def ENF_Inn_def)
  obtain d4 where "load_speech n k d2 = Some d4" "nd_trade d4 = ts" "nd_craft d4 = cs" "nd_learn d4 = []" "nd_talk_phrases d4 = ps"
    using speech d2 by (simp add: load_speech_def Let_def)
  then show ?thesis using Some d1(1) d2(1) d3 by (simp add: npc_Load_def)
qed

text \<open>A shop that buys potions at 3 and sells them at 10, makes a ring of four things, and says hello.\<close>

definition shop_config :: config where
  "shop_config = empty_config\<lparr>entries :=
     [''5.trade'' \<mapsto> variant_of_string ''2,10,3'', ''5.craft'' \<mapsto> variant_of_string ''3,1,2,2,1,0,0,0,0'']\<rparr>"

definition small_configs :: npc_configs where
  "small_configs =
     \<lparr>k_env = (\<lambda>_. None), k_drops = empty_config, k_shops = shop_config, k_skills = empty_config, k_homes = empty_config,
      k_home_order = [], k_speech = empty_config\<lparr>entries := [''5.speech.1'' \<mapsto> variant_of_string ''Hello'']\<rparr>,
      k_enf = \<lparr>pub_rid = [], pub_len = [], pub_data = replicate 5 ENF_Data @ [ENF_Data\<lparr>n_id := 5, n_type := ENF_Shop\<rparr>]\<rparr>\<rparr>"

definition blank_npc_data :: npc_data where
  "blank_npc_data =
     \<lparr>nd_id = 5, nd_drops = [], nd_chance_total = Fin 0, nd_shop_name = [], nd_skill_name = [], nd_trade = [], nd_craft = [],
      nd_learn = [], nd_citizenship = None, nd_talk_speed = Fin 0, nd_talk_chance = Fin 0, nd_talk_phrases = []\<rparr>"

theorem shop_loaded_witness:
  "\<exists>d. npc_Load 2 small_configs blank_npc_data = Some (Inr (d, None)) \<and> nd_trade d = [\<lparr>tr_id = 2, tr_buy = 10, tr_sell = 3\<rparr>] \<and>
    nd_craft d = [\<lparr>cr_id = 3, cr_ingredients = [(1, 2), (2, 1), (0, 0), (0, 0)]\<rparr>] \<and> nd_learn d = [] \<and> nd_talk_phrases d = [''Hello'']"
proof -
  have e: "npc_ENF small_configs blank_npc_data = Inr (ENF_Data\<lparr>n_id := 5, n_type := ENF_Shop\<rparr>)" by code_simp
  have v: "vend_id small_configs (k_shops small_configs) blank_npc_data = Inr 5"
    "vend_id small_configs (k_skills small_configs) blank_npc_data = Inr 5"
    "vend_id small_configs (k_homes small_configs) blank_npc_data = Inr 5" by code_simp+
  have t: "conf_find (k_shops small_configs) (to_string_int 5 @ ''.trade'') = Some (conf_text trade_text [\<lparr>tr_id = 2, tr_buy = 10, tr_sell = 3\<rparr>])"
    "conf_find (k_shops small_configs) (to_string_int 5 @ ''.craft'') =
      Some (conf_text craft_text [\<lparr>cr_id = 3, cr_ingredients = [(1, 2), (2, 1), (0, 0), (0, 0)]\<rparr>])" by code_simp+
  have d: "read_list 4 read_drop (conf_find (k_drops small_configs) (to_string_int (nd_id blank_npc_data))) = Inr (Some [])" by code_simp
  have p: "load_phrases 2 (k_speech small_configs) (format_i (nd_id blank_npc_data)) 1 = Some [''Hello'']" by code_simp
  show ?thesis
    using shop_loaded [OF e _ v(1) _ t(1) _ t(2) _ d v(2,3) p]
    by (simp add: trade_ok_def craft_ok_def ushort_range_def uchar_range_def int_range_def INT_MAX_def INT_MIN_def)
qed

end
