(* ===== verification/Bank.thy ===== *)
theory Bank
  imports Chest
begin

text \<open>
  The bank (\<open>src/src/handlers/Bank.cpp\<close>, \<open>Locker.cpp\<close>): gold in an account, items in a locker. The
  handlers read the map and change one character. Proved: nothing is made or lost between the bag, the
  locker and the account, and the account and the locker stay within their limits.
\<close>

section \<open>Gold\<close>

definition ENF_Bank :: int where "ENF_Bank = 9"

text \<open>\<open>npcs\<close> are the index, the id and the type of the NPCs of the map; a pointer to one is its position.\<close>

definition Bank_Open :: "(int \<times> int \<times> int) list \<Rightarrow> PacketReader \<Rightarrow> character \<Rightarrow> character outcome" where
  "Bank_Open npcs reader c =
     bind_out (GetShort reader) (\<lambda>(i, _).
       case find_from (\<lambda>(index, _, type). index = to_short (uint i) \<and> type = ENF_Bank) 0 npcs of
         None \<Rightarrow> Inr c
       | Some k \<Rightarrow>
           Inr (send (AddChar (of_int (ch_bankmax c)) (AddThree 0 (AddInt (of_int (ch_goldbank c))
                  (PacketBuilder_new PACKET_BANK PACKET_OPEN)))) (c\<lparr>ch_npc := Some k, ch_npc_type := ENF_Bank\<rparr>)))"

definition gold_reply :: "character \<Rightarrow> PacketBuilder" where
  "gold_reply c =
     AddInt (of_int (ch_goldbank c)) (AddInt (of_int (HasItem 1 False c)) (PacketBuilder_new PACKET_BANK PACKET_REPLY))"

definition deposit :: "world_env \<Rightarrow> int \<Rightarrow> character \<Rightarrow> character outcome" where
  "deposit env amount c =
     (if ch_npc_type c \<noteq> ENF_Bank then Inr c
      else if \<not> int_range (ch_goldbank c + amount) then Inl Signed_Overflow
      else let newgold = ch_goldbank c + amount in
      if newgold < ch_goldbank c \<or> newgold > w_config env ''MaxBankGold'' then Inr c
      else bind_out (DelItem env 1 amount c) (\<lambda>(_, c).
        let c = c\<lparr>ch_goldbank := newgold\<rparr> in Inr (send (gold_reply c) c)))"

definition Bank_Add :: "world_env \<Rightarrow> PacketReader \<Rightarrow> character \<Rightarrow> character outcome" where
  "Bank_Add env reader c =
     (if trading c then Inr c
      else bind_out (GetInt reader) (\<lambda>(n, _).
        if sint n \<le> 0 then Inr c else deposit env (min (sint n) (HasItem 1 False c)) c))"

definition Bank_Take :: "world_env \<Rightarrow> PacketReader \<Rightarrow> character \<Rightarrow> character outcome" where
  "Bank_Take env reader c =
     bind_out (GetInt reader) (\<lambda>(n, _).
       let amount = sint n in
       if amount \<le> 0 \<or> ch_npc_type c \<noteq> ENF_Bank then Inr c
       else if \<not> int_range (ch_goldbank c - amount) then Inl Signed_Overflow
       else let newgold = ch_goldbank c - amount in
       if newgold > ch_goldbank c \<or> newgold < 0 then Inr c
       else bind_out (AddItem env 1 amount (c\<lparr>ch_goldbank := newgold\<rparr>)) (\<lambda>(_, c). Inr (send (gold_reply c) c)))"

section \<open>The locker\<close>

definition add_bank_items :: "item list \<Rightarrow> PacketBuilder \<Rightarrow> PacketBuilder" where
  "add_bank_items its b = foldl (\<lambda>b it. AddThree (of_int (item_amount it)) (AddShort (of_int (item_id it)) b)) b its"

definition add_common :: "world_env \<Rightarrow> int \<Rightarrow> int \<Rightarrow> character \<Rightarrow> character outcome" where
  "add_common env item amount c =
     bind_out (DelItem env item amount c) (\<lambda>(_, c).
     bind_out (CalculateStats env c) (\<lambda>c.
       Inr (send (add_bank_items (bank c) (weights_packet c (AddInt (of_int (HasItem item False c))
              (AddShort (of_int item) (PacketBuilder_new PACKET_LOCKER PACKET_REPLY))))) c)))"

text \<open>\<open>lockermax\<close> is a \<open>size_t\<close>: a negative number is a huge limit.\<close>

definition lockermax :: "world_env \<Rightarrow> character \<Rightarrow> int outcome" where
  "lockermax env c =
     (if int_range (ch_bankmax c * w_config env ''BankSizeStep'') \<and>
         int_range (w_config env ''BaseBankSize'' + ch_bankmax c * w_config env ''BankSizeStep'')
      then Inr (w_config env ''BaseBankSize'' + ch_bankmax c * w_config env ''BankSizeStep'')
      else Inl Signed_Overflow)"

definition vault_at :: "map_data \<Rightarrow> character \<Rightarrow> int \<Rightarrow> int \<Rightarrow> bool outcome" where
  "vault_at m c x y =
     (if \<not> beside c x y then Inr False else bind_out (GetSpec m x y) (\<lambda>spec. Inr (spec = Tile_BankVault)))"

definition put_in_locker :: "world_env \<Rightarrow> int \<Rightarrow> int \<Rightarrow> int \<Rightarrow> character \<Rightarrow> character outcome" where
  "put_in_locker env item amount room c =
     (case find_item item (bank c) of
        Some it \<Rightarrow>
          if \<not> int_range (item_amount it + amount) then Inl Signed_Overflow
          else if item_amount it + amount < 0 then Inr c
          else
            (let amount = min amount (w_config env ''MaxBank'' - item_amount it)
             in add_common env item amount (c\<lparr>bank := update_item item (item_amount it + amount) (bank c)\<rparr>))
      | None \<Rightarrow>
          if 0 \<le> room \<and> int (length (bank c)) \<ge> room
          then Inr (send (AddChar (of_int room) (PacketBuilder_new PACKET_LOCKER PACKET_SPEC)) c)
          else
            (let amount = min amount (w_config env ''MaxBank'')
             in add_common env item amount (c\<lparr>bank := bank c @ [new_entry item amount]\<rparr>)))"

definition Locker_Add :: "world_env \<Rightarrow> map_data \<Rightarrow> PacketReader \<Rightarrow> character \<Rightarrow> character outcome" where
  "Locker_Add env m reader c =
     (if trading c then Inr c
      else
        bind_out (GetChar reader) (\<lambda>(x, reader). bind_out (GetChar reader) (\<lambda>(y, reader).
        bind_out (GetShort reader) (\<lambda>(i, reader). bind_out (GetThree reader) (\<lambda>(n, _).
          let item = to_short (uint i) in
          if item = 1 \<or> sint n \<le> 0 \<or> HasItem item False c < sint n then Inr c
          else
            bind_out (lockermax env c) (\<lambda>room.
            bind_out (vault_at m c (uint x) (uint y)) (\<lambda>vault.
              if vault then put_in_locker env item (sint n) room c else Inr c)))))))"

definition take_from_locker :: "world_env \<Rightarrow> int \<Rightarrow> character \<Rightarrow> character outcome" where
  "take_from_locker env item c =
     (case find_item item (bank c) of
        None \<Rightarrow> Inr c
      | Some it \<Rightarrow>
          bind_out (CanHoldItem env item (item_amount it) c) (\<lambda>taken.
          bind_out (AddItem env item taken c) (\<lambda>(_, c).
          bind_out (CalculateStats env c) (\<lambda>c.
            let b = weights_packet c (AddThree (of_int taken) (AddShort (of_int item) (PacketBuilder_new PACKET_LOCKER PACKET_GET)));
                left = item_amount it - taken;
                its = (if left \<le> 0 then erase_item item (bank c) else update_item item left (bank c))
            in Inr (send (add_bank_items its b) (c\<lparr>bank := its\<rparr>))))))"

definition Locker_Take :: "world_env \<Rightarrow> map_data \<Rightarrow> PacketReader \<Rightarrow> character \<Rightarrow> character outcome" where
  "Locker_Take env m reader c =
     (if trading c then Inr c
      else
        bind_out (GetChar reader) (\<lambda>(x, reader). bind_out (GetChar reader) (\<lambda>(y, reader).
        bind_out (GetShort reader) (\<lambda>(i, _).
        bind_out (vault_at m c (uint x) (uint y)) (\<lambda>vault.
          if vault then take_from_locker env (to_short (uint i)) c else Inr c)))))"

definition Locker_Open :: "map_data \<Rightarrow> PacketReader \<Rightarrow> character \<Rightarrow> character outcome" where
  "Locker_Open m reader c =
     bind_out (GetChar reader) (\<lambda>(x, reader). bind_out (GetChar reader) (\<lambda>(y, _).
     bind_out (vault_at m c (uint x) (uint y)) (\<lambda>vault.
       if vault
       then Inr (send (add_bank_items (bank c) (AddChar y (AddChar x (PacketBuilder_new PACKET_LOCKER PACKET_OPEN)))) c)
       else Inr c)))"

definition upgrade_cost :: "world_env \<Rightarrow> character \<Rightarrow> int" where
  "upgrade_cost env c = w_config env ''BankUpgradeBase'' + ch_bankmax c * w_config env ''BankUpgradeStep''"

definition Locker_Buy :: "world_env \<Rightarrow> character \<Rightarrow> character outcome" where
  "Locker_Buy env c =
     (if trading c \<or> ch_npc_type c \<noteq> ENF_Bank then Inr c
      else if \<not> int_range (ch_bankmax c * w_config env ''BankUpgradeStep'') \<or> \<not> int_range (upgrade_cost env c)
      then Inl Signed_Overflow
      else if ch_bankmax c \<ge> w_config env ''MaxBankUpgrades'' \<or> HasItem 1 False c < upgrade_cost env c then Inr c
      else
        bind_out (DelItem env 1 (upgrade_cost env c) (c\<lparr>ch_bankmax := ch_bankmax c + 1\<rparr>)) (\<lambda>(_, c).
          Inr (send (AddChar (of_int (ch_bankmax c)) (AddInt (of_int (HasItem 1 False c))
                 (PacketBuilder_new PACKET_LOCKER PACKET_BUY))) c)))"

text \<open>The packets registered for the bank.\<close>

datatype bank_action =
  Gold_open | Gold_add | Gold_take | Vault_add | Vault_take | Vault_open | Vault_buy

definition bank_handler ::
    "world_env \<Rightarrow> map_data \<Rightarrow> (int \<times> int \<times> int) list \<Rightarrow> bank_action \<Rightarrow> PacketReader \<Rightarrow> character \<Rightarrow> character outcome" where
  "bank_handler env m npcs a r c =
     (case a of
        Gold_open \<Rightarrow> Bank_Open npcs r c | Gold_add \<Rightarrow> Bank_Add env r c | Gold_take \<Rightarrow> Bank_Take env r c
      | Vault_add \<Rightarrow> Locker_Add env m r c | Vault_take \<Rightarrow> Locker_Take env m r c | Vault_open \<Rightarrow> Locker_Open m r c
      | Vault_buy \<Rightarrow> Locker_Buy env c)"

section \<open>What a character has in the bag and in the bank\<close>

definition wealth :: "character \<Rightarrow> int \<Rightarrow> int" where
  "wealth c i = amount_in (inventory c) i + amount_in (bank c) i + (if i = 1 then ch_goldbank c else 0)"

definition bank_ok :: "world_env \<Rightarrow> character \<Rightarrow> bool" where
  "bank_ok env c \<longleftrightarrow>
     items_ok (bank c) \<and> (\<forall>it \<in> set (bank c). item_amount it \<le> w_config env ''MaxBank'') \<and>
     0 \<le> ch_goldbank c \<and> ch_goldbank c \<le> w_config env ''MaxBankGold''"

definition bank_limits :: "world_env \<Rightarrow> bool" where
  "bank_limits env \<longleftrightarrow>
     1 \<le> w_config env ''MaxBank'' \<and> w_config env ''MaxBank'' \<le> INT_MAX \<and> w_config env ''MaxBankGold'' \<le> INT_MAX"

text \<open>What is in the bank could be carried, and is below the cap.\<close>

definition roomy_bank :: "world_env \<Rightarrow> character \<Rightarrow> bool" where
  "roomy_bank env c \<longleftrightarrow>
     (\<forall>i. amount_in (inventory c) i < wealth c i \<longrightarrow> wealth c i \<le> w_config env ''MaxItem'' \<and> holdable env i (wealth c i))"

definition bank_part :: "character \<Rightarrow> item list \<times> int \<times> int" where
  "bank_part c = (bank c, ch_goldbank c, ch_bankmax c)"

lemma bank_part_same: "same_but_stats (c\<lparr>inventory := its\<rparr>) c' \<Longrightarrow> bank_part c' = bank_part c"
  by (simp add: same_but_stats_defs bank_part_def)

lemma bank_part_stats: "same_but_stats c c' \<Longrightarrow> bank_part c' = bank_part c \<and> inventory c' = inventory c"
  by (simp add: same_but_stats_defs bank_part_def)

lemma send_bank [simp]:
  "bank_part (send b c) = bank_part c" "inventory (send b c) = inventory c" "sane env (send b c) = sane env c"
  "wealth (send b c) = wealth c" "bank_ok env (send b c) = bank_ok env c"
  by (simp_all add: send_def bank_part_def sane_def wealth_def bank_ok_def fun_eq_iff)

lemma wealth_parts:
  "bank_part c' = bank_part d \<Longrightarrow> bank_ok env c' = bank_ok env d \<and> ch_bankmax c' = ch_bankmax d \<and>
   wealth c' i = amount_in (inventory c') i + amount_in (bank d) i + (if i = 1 then ch_goldbank d else 0)"
  by (simp add: bank_part_def bank_ok_def wealth_def)

lemma DelItem_bank:
  assumes calm: "calm env" and ok: "sane env c" and n: "0 \<le> n" "n \<le> amount_in (inventory c) i"
    and del: "DelItem env i n c = Inr (b, c')"
  shows "sane env c' \<and> bank_part c' = bank_part c \<and>
    amount_in (inventory c') = (amount_in (inventory c))(i := amount_in (inventory c) i - n)"
proof (cases "n = 0")
  case True
  then show ?thesis using del ok by (auto simp: DelItem_def)
next
  case False
  then show ?thesis using DelItem_calm [OF calm ok, of n i] n del bank_part_same by fastforce
qed

lemma AddItem_bank:
  assumes calm: "calm env" and ok: "sane env c" and n: "0 \<le> n" "amount_in (inventory c) i + n \<le> w_config env ''MaxItem''"
    and hold: "0 < n \<Longrightarrow> holdable env i (amount_in (inventory c) i + n)" and add: "AddItem env i n c = Inr (b, c')"
  shows "sane env c' \<and> bank_part c' = bank_part c \<and>
    amount_in (inventory c') = (amount_in (inventory c))(i := amount_in (inventory c) i + n)"
proof (cases "n = 0")
  case True
  then show ?thesis using add ok by (auto simp: AddItem_def)
next
  case False
  have has: "0 \<le> amount_in (inventory c) i" using amount_ok(1) ok by (simp add: sane_def)
  have "n \<le> INT_MAX" "amount_in (inventory c) i + n \<le> INT_MAX" using n(2) has calm_MaxItem [OF calm] by auto
  then obtain c2 where "AddItem env i n c = Inr (True, c2)" "sane env c2"
    "amount_in (inventory c2) = (amount_in (inventory c))(i := amount_in (inventory c) i + n)"
    "same_but_stats (c\<lparr>inventory := inventory c2\<rparr>) c2"
    using AddItem_calm [OF calm ok hold] n False by (auto simp: min_def split: if_splits)
  then show ?thesis using add bank_part_same by auto
qed

lemma add_common_step:
  assumes calm: "calm env" and ok: "sane env c" and n: "0 \<le> n" "n \<le> amount_in (inventory c) i"
    and run: "add_common env i n c = Inr c'"
  shows "sane env c' \<and> bank_part c' = bank_part c \<and>
    amount_in (inventory c') = (amount_in (inventory c))(i := amount_in (inventory c) i - n)"
proof -
  obtain b c1 c2 d where s: "DelItem env i n c = Inr (b, c1)" "CalculateStats env c1 = Inr c2" "c' = send d c2"
    using run by (auto simp: add_common_def bind_out_Inr_iff)
  have 1: "sane env c1" "bank_part c1 = bank_part c"
    "amount_in (inventory c1) = (amount_in (inventory c))(i := amount_in (inventory c) i - n)"
    using DelItem_bank [OF calm ok n s(1)] by auto
  obtain c2' where "CalculateStats env c1 = Inr c2'" "same_but_stats c1 c2'" "sane env c2'" using calm_stats [OF calm 1(1)] .
  then show ?thesis using s(2,3) 1 bank_part_stats by auto
qed

lemma items_ok_amount: "items_ok its \<Longrightarrow> find_item i its = Some it \<Longrightarrow> amount_in its i = item_amount it \<and> 1 \<le> item_amount it"
  using find_item_set [of i its it] by (auto simp: items_ok_def amount_in_def)

definition bank_step :: "world_env \<Rightarrow> character \<Rightarrow> character \<Rightarrow> bool" where
  "bank_step env c c' \<longleftrightarrow> sane env c' \<and> bank_ok env c' \<and> wealth c' = wealth c \<and> ch_bankmax c' = ch_bankmax c"

lemma bank_step_send: "sane env c \<Longrightarrow> bank_ok env c \<Longrightarrow> bank_step env c (send b c)"
  by (simp add: bank_step_def send_def bank_ok_def wealth_def sane_def fun_eq_iff)

lemma bank_step_sendI: "bank_step env c d \<Longrightarrow> bank_step env c (send b d)"
  unfolding bank_step_def send_bank by (simp add: send_def)

lemma bank_step_refl: "sane env c \<Longrightarrow> bank_ok env c \<Longrightarrow> bank_step env c c"
  by (simp add: bank_step_def)

lemma sane_bank [simp]: "sane env (c\<lparr>bank := its\<rparr>) = sane env c" "sane env (c\<lparr>ch_goldbank := g\<rparr>) = sane env c"
  "sane env (c\<lparr>ch_bankmax := g\<rparr>) = sane env c"
  by (simp_all add: sane_def)

lemma put_in_locker_step:
  assumes calm: "calm env" and lim: "bank_limits env" and ok: "sane env c" "bank_ok env c"
    and n: "0 < n" "n \<le> amount_in (inventory c) i" and i: "i \<noteq> 1"
    and run: "put_in_locker env i n room c = Inr c'"
  shows "bank_step env c c'"
proof (cases "find_item i (bank c)")
  case (Some it)
  define k where "k = min n (w_config env ''MaxBank'' - item_amount it)"
  have it: "amount_in (bank c) i = item_amount it" "1 \<le> item_amount it" "item_amount it \<le> w_config env ''MaxBank''"
    using items_ok_amount [OF _ Some] find_item_set [OF Some] ok(2) by (auto simp: bank_ok_def)
  then have k: "0 \<le> k" "k \<le> amount_in (inventory c) i" "item_amount it + k \<le> w_config env ''MaxBank''"
    using n by (auto simp: k_def)
  consider "c' = c" | "add_common env i k (c\<lparr>bank := update_item i (item_amount it + k) (bank c)\<rparr>) = Inr c'"
    using run Some unfolding put_in_locker_def k_def [symmetric] Let_def
    by (cases "int_range (item_amount it + n)"; cases "item_amount it + n < 0") (simp_all add: k_def)
  then show ?thesis
  proof cases
    case 2
    let ?d = "c\<lparr>bank := update_item i (item_amount it + k) (bank c)\<rparr>"
    have d: "sane env c'" "bank_part c' = bank_part ?d"
      "amount_in (inventory c') = (amount_in (inventory c))(i := amount_in (inventory c) i - k)"
      using add_common_step [OF calm _ k(1) _ 2] ok(1) k(2) by simp_all
    have "items_ok (bank ?d)"
      using items_ok_update [of "bank c" "item_amount it + k" i] ok(2) it(2) k(1,3) lim by (simp add: bank_ok_def bank_limits_def)
    then have "bank_ok env ?d" using ok(2) k(3) by (auto simp: bank_ok_def dest!: set_update)
    then have "bank_ok env c'" using wealth_parts [OF d(2)] by blast
    moreover have "wealth c' j = wealth c j" for j
      using d(2) it(1) Some by (auto simp: d(3) amount_update wealth_def bank_part_def)
    ultimately show ?thesis using d(1) wealth_parts [OF d(2)] by (simp add: bank_step_def fun_eq_iff)
  qed (use bank_step_refl ok in simp)
next
  case None
  define k where "k = min n (w_config env ''MaxBank'')"
  have k: "1 \<le> k" "k \<le> amount_in (inventory c) i" "k \<le> w_config env ''MaxBank''" using n lim by (auto simp: k_def bank_limits_def)
  consider b where "c' = send b c" | "add_common env i k (c\<lparr>bank := bank c @ [new_entry i k]\<rparr>) = Inr c'"
    using run None unfolding put_in_locker_def k_def [symmetric] Let_def
    by (cases "0 \<le> room \<and> room \<le> int (length (bank c))") auto
  then show ?thesis
  proof cases
    case 2
    let ?d = "c\<lparr>bank := bank c @ [new_entry i k]\<rparr>"
    have d: "sane env c'" "bank_part c' = bank_part ?d"
      "amount_in (inventory c') = (amount_in (inventory c))(i := amount_in (inventory c) i - k)"
      using add_common_step [OF calm _ _ _ 2] ok(1) k by simp_all
    have "items_ok (bank ?d)"
      using items_ok_append [of "bank c" i k] ok(2) None k lim by (simp add: bank_ok_def bank_limits_def)
    then have "bank_ok env ?d" using ok(2) k(3) by (auto simp: bank_ok_def new_entry_def)
    then have "bank_ok env c'" using wealth_parts [OF d(2)] by blast
    moreover have "amount_in (bank c) i = 0" using None by (simp add: amount_in_def)
    then have "wealth c' j = wealth c j" for j
      using d(2) by (auto simp: d(3) amount_append_new [OF None] wealth_def bank_part_def)
    ultimately show ?thesis using d(1) wealth_parts [OF d(2)] by (simp add: bank_step_def fun_eq_iff)
  qed (use bank_step_send ok in simp)
qed

lemma vault_cases: "(if vault then f else Inr c) = Inr c' \<Longrightarrow> c' = c \<or> f = Inr c'"
  by (auto split: if_splits)

lemma CanHoldItem_nonneg:
  assumes "CanHoldItem env i n c = Inr k" "0 \<le> n" "carries env i m" "1 \<le> w_config env ''MaxItem''"
  shows "0 \<le> k"
proof -
  have "0 \<le> a sdiv b" if "0 \<le> a" "0 \<le> b" for a b :: int using that by (auto simp: signed_divide_int_def sgn_if pos_imp_zdiv_nonneg_iff)
  then show ?thesis
    using assms by (auto simp: CanHoldItem_def bind_out_Inr_iff carries_def split: if_splits)
qed

lemma take_from_locker_step:
  assumes calm: "calm env" and ok: "sane env c" "bank_ok env c" and room: "roomy_bank env c"
    and run: "take_from_locker env i c = Inr c'"
  shows "bank_step env c c'"
proof (cases "find_item i (bank c)")
  case (Some it)
  have it: "amount_in (bank c) i = item_amount it" "1 \<le> item_amount it" "items_ok (bank c)" "item_amount it \<le> w_config env ''MaxBank''"
    using items_ok_amount [OF _ Some] find_item_set [OF Some] ok(2) by (auto simp: bank_ok_def)
  obtain k b c1 c2 d where s: "CanHoldItem env i (item_amount it) c = Inr k" "AddItem env i k c = Inr (b, c1)"
    "CalculateStats env c1 = Inr c2"
    "c' = send d (c2\<lparr>bank := if item_amount it - k \<le> 0 then erase_item i (bank c2) else update_item i (item_amount it - k) (bank c2)\<rparr>)"
    using run Some by (auto simp: take_from_locker_def bind_out_Inr_iff Let_def)
  have le: "k \<le> item_amount it" using CanHoldItem_le [OF s(1)] it(2) by simp
  have nonneg: "0 \<le> (if i = 1 then ch_goldbank c else 0)" using ok(2) by (simp add: bank_ok_def)
  then have "amount_in (inventory c) i < wealth c i" using it by (simp add: wealth_def)
  then have w: "wealth c i \<le> w_config env ''MaxItem''" "holdable env i (wealth c i)" using room by (auto simp: roomy_bank_def)
  have k: "0 \<le> k" using CanHoldItem_nonneg [OF s(1)] it(2) w(2) calm_MaxItem [OF calm] by (auto simp: holdable_def)
  have below: "amount_in (inventory c) i + k \<le> wealth c i" using le it(1) nonneg by (simp add: wealth_def)
  have c1: "sane env c1" "bank_part c1 = bank_part c"
    "amount_in (inventory c1) = (amount_in (inventory c))(i := amount_in (inventory c) i + k)"
    using AddItem_bank [OF calm ok(1) k _ _ s(2)] w below carries_less by (auto simp: holdable_def)
  obtain c2' where "CalculateStats env c1 = Inr c2'" "same_but_stats c1 c2'" "sane env c2'" using calm_stats [OF calm c1(1)] .
  then have c2: "sane env c2" "bank_part c2 = bank_part c" "inventory c2 = inventory c1" using s(3) bank_part_stats c1(2) by auto
  define its where "its = (if item_amount it - k \<le> 0 then erase_item i (bank c) else update_item i (item_amount it - k) (bank c))"
  have eq: "c' = send d (c2\<lparr>bank := its\<rparr>)" using s(4) c2(2) by (simp add: its_def bank_part_def)
  have amounts: "amount_in its = (amount_in (bank c))(i := amount_in (bank c) i - k)"
    using it le Some by (auto simp: its_def amount_erase amount_update fun_eq_iff)
  have le_max: "item_amount it \<le> INT_MAX" using it(3) find_item_set [OF Some] by (auto simp: items_ok_def)
  have "items_ok its"
    using it items_ok_erase items_ok_update [of "bank c" "item_amount it - k" i] k le_max by (auto simp: its_def)
  moreover have "\<forall>it \<in> set its. item_amount it \<le> w_config env ''MaxBank''"
    using ok(2) set_erase [of i "bank c"] it(4) k by (auto simp: its_def bank_ok_def dest!: set_update)
  ultimately have "bank_ok env (c2\<lparr>bank := its\<rparr>)" using ok(2) c2(2) by (simp add: bank_ok_def bank_part_def)
  moreover have "wealth (c2\<lparr>bank := its\<rparr>) j = wealth c j" for j
    using c2 c1(3) amounts by (simp add: wealth_def bank_part_def)
  ultimately have "bank_step env c (c2\<lparr>bank := its\<rparr>)" using c2(1,2) by (simp add: bank_step_def fun_eq_iff bank_part_def)
  then show ?thesis unfolding eq by (rule bank_step_sendI)
qed (use run bank_step_refl ok in \<open>simp add: take_from_locker_def\<close>)

lemma Bank_Add_step:
  assumes calm: "calm env" and ok: "sane env c" "bank_ok env c" and run: "Bank_Add env r c = Inr c'"
  shows "bank_step env c c'"
proof (cases "c' = c")
  case False
  then obtain n :: u32 where n: "\<not> trading c" "deposit env (min (sint n) (HasItem 1 False c)) c = Inr c'"
    using run by (auto simp: Bank_Add_def bind_out_Inr_iff split: if_splits)
  define k where "k = min (sint n) (HasItem 1 False c)"
  obtain b d where s: "DelItem env 1 k c = Inr (b, d)" "\<not> (ch_goldbank c + k < ch_goldbank c \<or> ch_goldbank c + k > w_config env ''MaxBankGold'')"
    "c' = send (gold_reply (d\<lparr>ch_goldbank := ch_goldbank c + k\<rparr>)) (d\<lparr>ch_goldbank := ch_goldbank c + k\<rparr>)"
    using n(2) False unfolding k_def [symmetric] deposit_def Let_def by (auto simp: bind_out_Inr_iff split: if_splits)
  have "k \<le> amount_in (inventory c) 1" using HasItem_idle [OF n(1), of 1 False] by (simp add: k_def)
  then have "sane env d \<and> bank_part d = bank_part c \<and> amount_in (inventory d) = (amount_in (inventory c))(1 := amount_in (inventory c) 1 - k)"
    using DelItem_bank [OF calm ok(1) _ _ s(1)] s(2) by simp
  then show ?thesis
    using s(2) ok(2) by (auto simp: s(3) bank_step_def bank_ok_def wealth_def bank_part_def fun_eq_iff send_def sane_def)
qed (use bank_step_refl ok in simp)

lemma Bank_Take_step:
  assumes calm: "calm env" and ok: "sane env c" "bank_ok env c" and room: "roomy_bank env c" and run: "Bank_Take env r c = Inr c'"
  shows "bank_step env c c'"
proof (cases "c' = c")
  case False
  then obtain k b d where s: "\<not> k \<le> 0" "AddItem env 1 k (c\<lparr>ch_goldbank := ch_goldbank c - k\<rparr>) = Inr (b, d)" "\<not> ch_goldbank c - k < 0"
    "c' = send (gold_reply d) d"
    using run by (auto simp: Bank_Take_def bind_out_Inr_iff Let_def split: if_splits)
  let ?c = "c\<lparr>ch_goldbank := ch_goldbank c - k\<rparr>"
  have bank: "0 \<le> amount_in (bank c) 1" using amount_ok(1) ok(2) by (simp add: bank_ok_def)
  then have below: "amount_in (inventory c) 1 + k \<le> wealth c 1" "amount_in (inventory c) 1 < wealth c 1"
    using s(1,3) by (simp_all add: wealth_def)
  then have w: "wealth c 1 \<le> w_config env ''MaxItem''" "holdable env 1 (wealth c 1)" using room by (auto simp: roomy_bank_def)
  have "holdable env 1 (amount_in (inventory ?c) 1 + k)" using w(2) below(1) carries_less by (auto simp: holdable_def)
  then have "sane env d \<and> bank_part d = bank_part ?c \<and> amount_in (inventory d) = (amount_in (inventory c))(1 := amount_in (inventory c) 1 + k)"
    using AddItem_bank [OF calm _ _ _ _ s(2)] ok(1) s(1) w(1) below by simp
  then show ?thesis
    using s(1,3) ok(2) by (auto simp: s(4) bank_step_def bank_ok_def wealth_def bank_part_def fun_eq_iff send_def sane_def)
qed (use bank_step_refl ok in simp)

lemma Locker_Add_step:
  assumes calm: "calm env" and lim: "bank_limits env" and ok: "sane env c" "bank_ok env c" and run: "Locker_Add env m r c = Inr c'"
  shows "bank_step env c c'"
proof (cases "c' = c")
  case False
  then obtain i n room where "\<not> trading c" "i \<noteq> 1" "\<not> n \<le> 0" "\<not> HasItem i False c < n" "put_in_locker env i n room c = Inr c'"
    using run by (auto simp: Locker_Add_def bind_out_Inr_iff Let_def split: if_splits)
  then show ?thesis using put_in_locker_step [OF calm lim ok, of n i room c'] by (simp add: HasItem_idle)
qed (use bank_step_refl ok in simp)

lemma Locker_Take_step:
  assumes calm: "calm env" and ok: "sane env c" "bank_ok env c" and room: "roomy_bank env c" and run: "Locker_Take env m r c = Inr c'"
  shows "bank_step env c c'"
proof (cases "c' = c")
  case False
  then obtain i where "take_from_locker env i c = Inr c'"
    using run by (auto simp: Locker_Take_def bind_out_Inr_iff split: if_splits)
  then show ?thesis by (rule take_from_locker_step [OF calm ok room])
qed (use bank_step_refl ok in simp)

lemma opening_steps:
  assumes ok: "sane env c" "bank_ok env c"
  shows "Bank_Open npcs r c = Inr c' \<Longrightarrow> bank_step env c c'" "Locker_Open m r c = Inr c' \<Longrightarrow> bank_step env c c'"
proof -
  have "bank_step env c (c\<lparr>ch_npc := k, ch_npc_type := t\<rparr>)" for k t
    using ok by (simp add: bank_step_def sane_def bank_ok_def wealth_def fun_eq_iff)
  then show "Bank_Open npcs r c = Inr c' \<Longrightarrow> bank_step env c c'"
    using bank_step_refl [OF ok] by (auto simp: Bank_Open_def bind_out_Inr_iff intro!: bank_step_sendI split: option.splits)
  show "Locker_Open m r c = Inr c' \<Longrightarrow> bank_step env c c'"
    using bank_step_refl [OF ok] by (auto simp: Locker_Open_def bind_out_Inr_iff intro: bank_step_sendI split: if_splits)
qed

lemma Locker_Buy_step:
  assumes calm: "calm env" and ok: "sane env c" "bank_ok env c" and cost: "0 \<le> upgrade_cost env c" and run: "Locker_Buy env c = Inr c'"
  shows "c' = c \<or> sane env c' \<and> bank_ok env c' \<and> ch_bankmax c' = ch_bankmax c + 1 \<and> ch_bankmax c' \<le> w_config env ''MaxBankUpgrades'' \<and>
    wealth c' = (wealth c)(1 := wealth c 1 - upgrade_cost env c)"
proof (cases "c' = c")
  case False
  then have t: "\<not> trading c" using run by (auto simp: Locker_Buy_def)
  from False obtain b d x where s: "\<not> ch_bankmax c \<ge> w_config env ''MaxBankUpgrades''" "\<not> HasItem 1 False c < upgrade_cost env c"
    "DelItem env 1 (upgrade_cost env c) (c\<lparr>ch_bankmax := ch_bankmax c + 1\<rparr>) = Inr (b, d)" "c' = send x d"
    using run by (auto simp: Locker_Buy_def bind_out_Inr_iff split: if_splits)
  have "sane env d \<and> bank_part d = bank_part (c\<lparr>ch_bankmax := ch_bankmax c + 1\<rparr>) \<and>
      amount_in (inventory d) = (amount_in (inventory c))(1 := amount_in (inventory c) 1 - upgrade_cost env c)"
    using DelItem_bank [OF calm _ cost _ s(3)] ok(1) s(2) t by (simp add: HasItem_idle)
  then show ?thesis
    using ok(2) s(1) by (auto simp: s(4) bank_part_def bank_ok_def wealth_def fun_eq_iff send_def sane_def)
qed simp


text \<open>\<open>alice\<close> with 30 pieces of gold in the account and two rings in the locker draws 25 pieces.\<close>

definition banking_character :: character where
  "banking_character = sample_character\<lparr>ch_npc_type := ENF_Bank, ch_goldbank := 30, bank := [new_entry 3 2]\<rparr>"


end
