(* ===== verification/Masters.thy ===== *)
theory Masters
  imports Npc_Data Bank
begin

text \<open>
  Shops and skill masters (\<open>handlers/Shop.cpp\<close>, \<open>handlers/StatSkill.cpp\<close>). A character talks to an NPC of
  the map, given by its position in the list of NPCs; the lists of what it trades, crafts or teaches are in its
  data. The properties: every handler of a shop makes a sequence of deals the shop offers, at its prices, and
  no handler of a skill master makes stat or skill points.
\<close>

section \<open>Definitions\<close>

text \<open>The NPCs of the map: index, id and data.\<close>

type_synonym npcs_here = "(int \<times> int \<times> npc_data) list"

definition npc_talked :: "npcs_here \<Rightarrow> character \<Rightarrow> npc_data outcome" where
  "npc_talked npcs c =
     (case ch_npc c of
        None \<Rightarrow> Inl Null_Dereference
      | Some k \<Rightarrow> if k < length npcs then Inr (snd (snd (npcs ! k))) else Inl Null_Dereference)"

definition add_weight :: "character \<Rightarrow> PacketBuilder \<Rightarrow> PacketBuilder" where
  "add_weight c b = AddChar (of_int (d_maxweight (stats c))) (AddChar (of_int (d_weight (stats c))) b)"

text \<open>
  Crafting: every entry that makes the item is tried, one after the other. Whether the ingredients are there is
  tested for each of them on its own.
\<close>

fun use_ingredients :: "world_env \<Rightarrow> (int \<times> int) list \<Rightarrow> PacketBuilder \<Rightarrow> character \<Rightarrow> (PacketBuilder \<times> character) outcome" where
  "use_ingredients env [] b c = Inr (b, c)"
| "use_ingredients env ((i, n) # is) b c =
     bind_out (DelItem env (to_short i) n c) (\<lambda>(_, c).
       use_ingredients env is (AddInt (of_int (HasItem (to_short i) False c)) (AddShort (of_int i) b)) c)"

definition has_ingredients :: "(int \<times> int) list \<Rightarrow> character \<Rightarrow> bool" where
  "has_ingredients is c \<longleftrightarrow> (\<forall>(i, n) \<in> set is. \<not> HasItem (to_short i) False c < n)"

definition craft_one :: "world_env \<Rightarrow> shop_craft_item \<Rightarrow> character \<Rightarrow> character outcome" where
  "craft_one env t c =
     (if has_ingredients (cr_ingredients t) c then
        bind_out (use_ingredients env (cr_ingredients t)
            (add_weight c (AddShort (of_int (cr_id t)) (PacketBuilder_new PACKET_SHOP PACKET_CREATE))) c) (\<lambda>(b, c).
        bind_out (AddItem env (to_short (cr_id t)) 1 c) (\<lambda>(_, c). Inr (send b c)))
      else Inr c)"

fun craft_all :: "world_env \<Rightarrow> int \<Rightarrow> shop_craft_item list \<Rightarrow> character \<Rightarrow> character outcome" where
  "craft_all env item [] c = Inr c"
| "craft_all env item (t # ts) c =
     (if cr_id t = item then bind_out (craft_one env t c) (craft_all env item ts) else craft_all env item ts c)"

definition Shop_Create :: "world_env \<Rightarrow> npcs_here \<Rightarrow> PacketReader \<Rightarrow> character \<Rightarrow> character outcome" where
  "Shop_Create env npcs reader c =
     (if trading c then Inr c
      else bind_out (GetShort reader) (\<lambda>(i, _).
        if ch_npc_type c = ENF_Shop then
          bind_out (npc_talked npcs c) (\<lambda>d. craft_all env (to_short (uint i)) (nd_craft d) c)
        else Inr c))"

text \<open>The cost is computed with 64 bits, which two numbers of 32 bits cannot exceed.\<close>

definition buy_from :: "world_env \<Rightarrow> shop_trade_item \<Rightarrow> int \<Rightarrow> int \<Rightarrow> character \<Rightarrow> character outcome" where
  "buy_from env t item amount c =
     (let cost = amount * tr_buy t in
      if cost < 0 \<or> cost > w_config env ''MaxItem'' then Inr c
      else if HasItem 1 False c < cost then Inr c
      else bind_out (DelItem env 1 cost c) (\<lambda>(_, c).
           bind_out (AddItem env item amount c) (\<lambda>(_, c).
             Inr (send (add_weight c (AddInt (of_int amount) (AddShort (of_int item) (AddInt (of_int (HasItem 1 False c))
                    (PacketBuilder_new PACKET_SHOP PACKET_BUY))))) c))))"

definition Shop_Buy :: "world_env \<Rightarrow> npcs_here \<Rightarrow> PacketReader \<Rightarrow> character \<Rightarrow> character outcome" where
  "Shop_Buy env npcs reader c =
     (if trading c then Inr c
      else bind_out (GetShort reader) (\<lambda>(i, reader). bind_out (GetInt reader) (\<lambda>(n, _).
        let item = to_short (uint i); amount = sint n in
        if amount \<le> 0 \<or> amount > w_config env ''MaxShopBuy'' then Inr c
        else if d_weight (stats c) \<ge> d_maxweight (stats c) then Inr c
        else if ch_npc_type c = ENF_Shop then
          bind_out (npc_talked npcs c) (\<lambda>d.
            case find (\<lambda>t. tr_id t = item \<and> tr_buy t \<noteq> 0) (nd_trade d) of
              None \<Rightarrow> Inr c | Some t \<Rightarrow> buy_from env t item amount c)
        else Inr c)))"

definition sell_to :: "world_env \<Rightarrow> shop_trade_item \<Rightarrow> int \<Rightarrow> int \<Rightarrow> character \<Rightarrow> character outcome" where
  "sell_to env t item amount c =
     (let owed = amount * tr_sell t in
      if \<not> int_range (w_config env ''MaxItem'' - HasItem 1 False c) then Inl Signed_Overflow
      else if owed < 0 \<or> owed > w_config env ''MaxItem'' - HasItem 1 False c then Inr c
      else if HasItem item False c < amount then Inr c
      else bind_out (DelItem env item amount c) (\<lambda>(_, c).
           bind_out (AddItem env 1 owed c) (\<lambda>(_, c).
             Inr (send (add_weight c (AddInt (of_int (HasItem 1 False c)) (AddShort (of_int item)
                    (AddInt (of_int (HasItem item False c)) (PacketBuilder_new PACKET_SHOP PACKET_SELL))))) c))))"

definition Shop_Sell :: "world_env \<Rightarrow> npcs_here \<Rightarrow> PacketReader \<Rightarrow> character \<Rightarrow> character outcome" where
  "Shop_Sell env npcs reader c =
     (if trading c then Inr c
      else bind_out (GetShort reader) (\<lambda>(i, reader). bind_out (GetInt reader) (\<lambda>(n, _).
        let item = to_short (uint i); amount = sint n in
        if amount \<le> 0 \<or> amount > w_config env ''MaxItem'' then Inr c
        else if ch_npc_type c = ENF_Shop then
          bind_out (npc_talked npcs c) (\<lambda>d.
            case find (\<lambda>t. tr_id t = item \<and> tr_sell t \<noteq> 0) (nd_trade d) of
              None \<Rightarrow> Inr c | Some t \<Rightarrow> sell_to env t item amount c)
        else Inr c)))"

definition add_trade :: "world_env \<Rightarrow> PacketBuilder \<Rightarrow> shop_trade_item \<Rightarrow> PacketBuilder" where
  "add_trade env b t =
     AddChar (of_int (w_config env ''MaxShopBuy'')) (AddThree (of_int (tr_sell t)) (AddThree (of_int (tr_buy t)) (AddShort (of_int (tr_id t)) b)))"

definition add_ingredient :: "PacketBuilder \<Rightarrow> int \<times> int \<Rightarrow> PacketBuilder" where
  "add_ingredient b = (\<lambda>(i, n). AddChar (of_int n) (AddShort (of_int i) b))"

text \<open>An entry is filled up to four ingredients.\<close>

definition add_craft :: "PacketBuilder \<Rightarrow> shop_craft_item \<Rightarrow> PacketBuilder" where
  "add_craft b t =
     foldl add_ingredient (AddShort (of_int (cr_id t)) b)
       (cr_ingredients t @ replicate (4 - length (cr_ingredients t)) (0, 0))"

definition Shop_Open :: "world_env \<Rightarrow> npcs_here \<Rightarrow> PacketReader \<Rightarrow> character \<Rightarrow> character outcome" where
  "Shop_Open env npcs reader c =
     bind_out (GetShort reader) (\<lambda>(i, _).
       case find_from (\<lambda>(index, _, d). index = to_short (uint i) \<and> (nd_trade d \<noteq> [] \<or> nd_craft d \<noteq> [])) 0 npcs of
         None \<Rightarrow> Inr c
       | Some k \<Rightarrow>
           (let (_, npc_id, d) = npcs ! k;
                b = AddBreakString (bytes_of (nd_shop_name d)) 0xFF (AddShort (of_int npc_id) (PacketBuilder_new PACKET_SHOP PACKET_OPEN));
                b = AddByte 255 (foldl (add_trade env) b (nd_trade d));
                b = AddByte 255 (foldl add_craft b (nd_craft d))
            in Inr (send b (c\<lparr>ch_npc := Some k, ch_npc_type := ENF_Shop\<rparr>))))"

datatype shop_action = Shop_create | Shop_buy | Shop_sell | Shop_open

definition shop_handler :: "world_env \<Rightarrow> npcs_here \<Rightarrow> shop_action \<Rightarrow> PacketReader \<Rightarrow> character \<Rightarrow> character outcome" where
  "shop_handler env npcs a =
     (case a of Shop_create \<Rightarrow> Shop_Create env npcs | Shop_buy \<Rightarrow> Shop_Buy env npcs
      | Shop_sell \<Rightarrow> Shop_Sell env npcs | Shop_open \<Rightarrow> Shop_Open env npcs)"

section \<open>Skill masters\<close>

definition add_shorts_of :: "int list \<Rightarrow> PacketBuilder \<Rightarrow> PacketBuilder" where
  "add_shorts_of ns b = foldl (\<lambda>b n. AddShort (of_int n) b) b ns"

definition add_learn :: "PacketBuilder \<Rightarrow> learn_skill \<Rightarrow> PacketBuilder" where
  "add_learn b s =
     add_shorts_of (ls_skillreq s @ [ls_strreq s, ls_wisreq s, ls_intreq s, ls_agireq s, ls_conreq s, ls_chareq s])
       (AddInt (of_int (ls_cost s)) (AddChar (of_int (ls_classreq s)) (AddChar (of_int (ls_levelreq s)) (AddShort (of_int (ls_id s)) b))))"

definition StatSkill_Open :: "npcs_here \<Rightarrow> PacketReader \<Rightarrow> character \<Rightarrow> character outcome" where
  "StatSkill_Open npcs reader c =
     bind_out (GetShort reader) (\<lambda>(i, _).
       case find_from (\<lambda>(index, _, d). index = to_short (uint i) \<and> nd_learn d \<noteq> []) 0 npcs of
         None \<Rightarrow> Inr c
       | Some k \<Rightarrow>
           (let (_, npc_id, d) = npcs ! k;
                b = AddBreakString (bytes_of (nd_skill_name d)) 0xFF (AddShort (of_int npc_id) (PacketBuilder_new PACKET_STATSKILL PACKET_OPEN))
            in Inr (send (foldl add_learn b (nd_learn d)) (c\<lparr>ch_npc := Some k, ch_npc_type := ENF_Skills\<rparr>))))"

definition SKILLMASTER_WRONG_CLASS :: int where "SKILLMASTER_WRONG_CLASS = 2"

definition wrong_class :: "character \<Rightarrow> PacketBuilder" where
  "wrong_class c = add_shorts_of [SKILLMASTER_WRONG_CLASS, ch_clas c] (PacketBuilder_new PACKET_STATSKILL PACKET_REPLY)"

definition may_learn :: "world_env \<Rightarrow> learn_skill \<Rightarrow> character \<Rightarrow> bool" where
  "may_learn env s c \<longleftrightarrow>
     \<not> (ch_level c < ls_levelreq s \<or> HasItem 1 False c < ls_cost s
        \<or> display env c ! 0 < ls_strreq s \<or> display env c ! 1 < ls_intreq s
        \<or> display env c ! 2 < ls_wisreq s \<or> display env c ! 3 < ls_agireq s
        \<or> display env c ! 4 < ls_conreq s \<or> display env c ! 5 < ls_chareq s) \<and>
     \<not> (ls_classreq s \<noteq> 0 \<and> ch_clas c \<noteq> ls_classreq s) \<and>
     (\<forall>req \<in> set (ls_skillreq s). \<not> (req \<noteq> 0 \<and> \<not> HasSpell req c))"

definition StatSkill_Take :: "world_env \<Rightarrow> npcs_here \<Rightarrow> PacketReader \<Rightarrow> character \<Rightarrow> character outcome" where
  "StatSkill_Take env npcs reader c =
     bind_out (GetInt reader) (\<lambda>(_, reader). bind_out (GetShort reader) (\<lambda>(i, _).
       let sp = to_short (uint i) in
       if HasSpell sp c then Inr c
       else if ch_npc_type c = ENF_Skills then
         bind_out (npc_talked npcs c) (\<lambda>d.
           case find (\<lambda>s. ls_id s = sp) (nd_learn d) of
             None \<Rightarrow> Inr c
           | Some s \<Rightarrow>
               if \<not> may_learn env s c then Inr (send (wrong_class c) c)
               else bind_out (DelItem env 1 (ls_cost s) c) (\<lambda>(_, c).
                    bind_out (AddSpell env sp c) (\<lambda>(_, c).
                      Inr (send (AddInt (of_int (HasItem 1 False c)) (AddShort (of_int sp) (PacketBuilder_new PACKET_STATSKILL PACKET_TAKE))) c))))
       else Inr c))"

definition StatSkill_Remove :: "world_env \<Rightarrow> PacketReader \<Rightarrow> character \<Rightarrow> character outcome" where
  "StatSkill_Remove env reader c =
     bind_out (GetInt reader) (\<lambda>(_, reader). bind_out (GetShort reader) (\<lambda>(i, _).
       let sp = to_short (uint i) in
       if ch_npc_type c = ENF_Skills then
         bind_out (DelSpell env sp c) (\<lambda>(found, c).
           Inr (if found then send (AddShort (of_int sp) (PacketBuilder_new PACKET_STATSKILL PACKET_REMOVE)) c else c))
       else Inr c))"

definition stats_reply :: "world_env \<Rightarrow> character \<Rightarrow> PacketBuilder" where
  "stats_reply env c =
     (let s = stats c in
      add_shorts_of ([ch_statpoints c] @ display env c @
          [d_maxhp s, d_maxtp s, d_maxsp s, d_maxweight s, d_mindam s, d_maxdam s, d_accuracy s, d_evade s, d_armor s])
        (PacketBuilder_new PACKET_STATSKILL PACKET_PLAYER))"

definition train_stat :: "world_env \<Rightarrow> int \<Rightarrow> character \<Rightarrow> character outcome" where
  "train_stat env stat_id c =
     (if ch_statpoints c \<le> 0 then Inr c
      else if \<not> (1 \<le> stat_id \<and> stat_id \<le> 6) then Inr c
      else
        (let k = nat (stat_id - 1);
             c = c\<lparr>ch_base := (ch_base c)[k := to_short (ch_base c ! k + 1)], ch_statpoints := to_short (ch_statpoints c - 1)\<rparr>
         in bind_out (CalculateStats env c) (\<lambda>c. Inr (send (stats_reply env c) c))))"

text \<open>The loop over the spells; it has no \<open>break\<close>.\<close>

fun train_spells :: "int \<Rightarrow> spell list \<Rightarrow> spell list \<Rightarrow> character \<Rightarrow> character" where
  "train_spells sp seen [] c = c"
| "train_spells sp seen (s # ss) c =
     (if spell_id s = sp then
        (let s = s\<lparr>spell_level := to_uchar (spell_level s + 1)\<rparr>;
             c = c\<lparr>spells := seen @ s # ss, ch_skillpoints := to_short (ch_skillpoints c - 1)\<rparr>
         in train_spells sp (seen @ [s]) ss
              (send (add_shorts_of [ch_skillpoints c, sp, spell_level s] (PacketBuilder_new PACKET_STATSKILL PACKET_ACCEPT)) c))
      else train_spells sp (seen @ [s]) ss c)"

definition train_skill :: "world_env \<Rightarrow> int \<Rightarrow> character \<Rightarrow> character" where
  "train_skill env stat_id c =
     (if ch_skillpoints c \<le> 0 \<or> \<not> HasSpell (to_short stat_id) c
         \<or> SpellLevel (to_short stat_id) c \<ge> w_config env ''MaxSkillLevel'' then c
      else train_spells stat_id [] (spells c) c)"

definition TRAIN_STAT :: int where "TRAIN_STAT = 1"
definition TRAIN_SKILL :: int where "TRAIN_SKILL = 2"

definition StatSkill_Add :: "world_env \<Rightarrow> PacketReader \<Rightarrow> character \<Rightarrow> character outcome" where
  "StatSkill_Add env reader c =
     bind_out (GetChar reader) (\<lambda>(a, reader). bind_out (GetShort reader) (\<lambda>(i, _).
       if uint a = TRAIN_STAT then train_stat env (uint i) c
       else if uint a = TRAIN_SKILL then Inr (train_skill env (uint i) c)
       else Inr c))"

definition character_Reset :: "world_env \<Rightarrow> character \<Rightarrow> character outcome" where
  "character_Reset env c =
     (let c = CancelSpell (c\<lparr>ch_base := replicate 6 0, spells := []\<rparr>);
          sp = ch_level c * w_config env ''StatPerLevel''; kp = ch_level c * w_config env ''SkillPerLevel''
      in if \<not> int_range sp \<or> \<not> int_range kp then Inl Signed_Overflow
         else CalculateStats env (c\<lparr>ch_statpoints := to_short sp, ch_skillpoints := to_short kp\<rparr>))"

definition StatSkill_Junk :: "world_env \<Rightarrow> character \<Rightarrow> character outcome" where
  "StatSkill_Junk env c =
     (if ch_npc_type c = ENF_Skills then
        bind_out (character_Reset env c) (\<lambda>c.
          let s = stats c in
          Inr (send (add_shorts_of ([ch_statpoints c, ch_skillpoints c, ch_hp c, d_maxhp s, ch_tp c, d_maxtp s, d_maxsp s] @
                  display env c @ [d_mindam s, d_maxdam s, d_accuracy s, d_evade s, d_armor s])
                (PacketBuilder_new PACKET_STATSKILL PACKET_JUNK)) c))
      else Inr c)"

datatype skill_action = Skill_open | Skill_take | Skill_remove | Skill_add | Skill_junk

definition skill_handler :: "world_env \<Rightarrow> npcs_here \<Rightarrow> skill_action \<Rightarrow> PacketReader \<Rightarrow> character \<Rightarrow> character outcome" where
  "skill_handler env npcs a r c =
     (case a of Skill_open \<Rightarrow> StatSkill_Open npcs r c | Skill_take \<Rightarrow> StatSkill_Take env npcs r c
      | Skill_remove \<Rightarrow> StatSkill_Remove env r c | Skill_add \<Rightarrow> StatSkill_Add env r c | Skill_junk \<Rightarrow> StatSkill_Junk env c)"

section \<open>What a shop offers\<close>

text \<open>
  The deals of a shop, and what each does to the amounts a character carries: a deal takes its price, which
  must be there, and gives what it sells, up to the cap of an entry of the inventory.
\<close>

type_synonym amounts = "int \<Rightarrow> int"

datatype deal = Buying shop_trade_item int | Selling shop_trade_item int | Crafting shop_craft_item

definition spend :: "int \<Rightarrow> int \<Rightarrow> amounts \<Rightarrow> amounts option" where
  "spend i n bag = (if 0 \<le> n \<and> n \<le> bag i then Some (bag(i := bag i - n)) else None)"

definition gain :: "int \<Rightarrow> int \<Rightarrow> int \<Rightarrow> amounts \<Rightarrow> amounts" where
  "gain cap i n bag = bag(i := min (bag i + n) cap)"

fun spend_all :: "(int \<times> int) list \<Rightarrow> amounts \<Rightarrow> amounts option" where
  "spend_all [] bag = Some bag"
| "spend_all ((i, n) # is) bag = Option.bind (spend (to_short i) n bag) (spend_all is)"

fun deal_amounts :: "int \<Rightarrow> deal \<Rightarrow> amounts \<Rightarrow> amounts option" where
  "deal_amounts cap (Buying t n) bag = map_option (gain cap (tr_id t) n) (spend 1 (n * tr_buy t) bag)"
| "deal_amounts cap (Selling t n) bag = map_option (gain cap 1 (n * tr_sell t)) (spend (tr_id t) n bag)"
| "deal_amounts cap (Crafting t) bag = map_option (gain cap (to_short (cr_id t)) 1) (spend_all (cr_ingredients t) bag)"

fun deals_amounts :: "int \<Rightarrow> deal list \<Rightarrow> amounts \<Rightarrow> amounts option" where
  "deals_amounts cap [] bag = Some bag"
| "deals_amounts cap (d # ds) bag = Option.bind (deal_amounts cap d bag) (deals_amounts cap ds)"

fun offered :: "npc_data \<Rightarrow> deal \<Rightarrow> bool" where
  "offered d (Buying t n) \<longleftrightarrow> t \<in> set (nd_trade d) \<and> tr_buy t \<noteq> 0 \<and> 0 < n"
| "offered d (Selling t n) \<longleftrightarrow> t \<in> set (nd_trade d) \<and> tr_sell t \<noteq> 0 \<and> 0 < n"
| "offered d (Crafting t) \<longleftrightarrow> t \<in> set (nd_craft d)"

text \<open>A shop that knows its items, and names each ingredient of a recipe once.\<close>

definition fair_recipe :: "(int \<times> int) list \<Rightarrow> bool" where
  "fair_recipe is \<longleftrightarrow> (\<forall>(i, n) \<in> set is. 0 \<le> n) \<and> distinct (map (\<lambda>(i, n). to_short i) (filter (\<lambda>(i, n). n \<noteq> 0) is))"

definition stocked :: "world_env \<Rightarrow> npc_data \<Rightarrow> bool" where
  "stocked env d \<longleftrightarrow>
     (\<forall>t \<in> set (nd_trade d). known_item env (tr_id t)) \<and>
     (\<forall>t \<in> set (nd_craft d). known_item env (to_short (cr_id t)) \<and> fair_recipe (cr_ingredients t))"

definition light :: "world_env \<Rightarrow> bool" where
  "light env \<longleftrightarrow>
     1 \<le> w_config env ''MaxShopBuy'' \<and> w_config env ''MaxShopBuy'' \<le> w_config env ''MaxItem'' \<and>
     w_config env ''MaxItem'' + w_config env ''MaxShopBuy'' \<le> INT_MAX \<and> known_item env 1 \<and>
     (\<forall>i n. known_item env i \<longrightarrow> n \<le> w_config env ''MaxItem'' + w_config env ''MaxShopBuy'' \<longrightarrow> carries env i n)"

definition carried :: "character \<Rightarrow> amounts" where
  "carried c = amount_in (inventory c)"

definition shopper :: "world_env \<Rightarrow> character \<Rightarrow> bool" where
  "shopper env c \<longleftrightarrow> sane env c \<and> \<not> trading c \<and> (\<forall>i. carried c i \<le> w_config env ''MaxItem'')"

lemma carried_nonneg: "shopper env c \<Longrightarrow> 0 \<le> carried c i"
  using amount_ok(1) by (simp add: shopper_def sane_def carried_def)

lemma shopper_HasItem: "shopper env c \<Longrightarrow> HasItem i False c = carried c i"
  by (simp add: shopper_def carried_def HasItem_idle)

lemma send_shopper [simp]: "carried (send b c) = carried c" "shopper env (send b c) = shopper env c"
  by (simp_all add: carried_def shopper_def send_def sane_def)

lemma DelItem_spends:
  assumes calm: "calm env" and ok: "shopper env c" and n: "0 \<le> n" "n \<le> carried c i" and del: "DelItem env i n c = Inr (b, c')"
  shows "shopper env c' \<and> spend i n (carried c) = Some (carried c')"
proof (cases "n = 0")
  case True
  then show ?thesis using del ok carried_nonneg [OF ok] by (auto simp: DelItem_def spend_def)
next
  case False
  have s: "sane env c" "0 < n" "n \<le> amount_in (inventory c) i" using ok n False by (auto simp: shopper_def carried_def)
  obtain d where d: "c' = d" "sane env d" "amount_in (inventory d) = (amount_in (inventory c))(i := amount_in (inventory c) i - n)"
    "same_but_stats (c\<lparr>inventory := inventory d\<rparr>) d"
    using DelItem_calm [OF calm s] del by auto
  have "trading d = trading c" using same_but_statsD(7) [OF d(4)] by simp
  moreover have "carried d j \<le> w_config env ''MaxItem''" for j
  proof -
    have "carried d j \<le> carried c j" using d(3) s(2) by (simp add: carried_def)
    then show ?thesis using ok by (meson shopper_def order_trans)
  qed
  ultimately show ?thesis using ok n d(1-3) by (simp add: shopper_def spend_def carried_def)
qed

lemma AddItem_gains:
  assumes calm: "calm env" and light: "light env" and ok: "shopper env c" and known: "known_item env i"
    and n: "0 \<le> n" "n \<le> w_config env ''MaxItem''" "carried c i + n \<le> w_config env ''MaxItem'' + w_config env ''MaxShopBuy''"
    and add: "AddItem env i n c = Inr (b, c')"
  shows "shopper env c' \<and> carried c' = gain (w_config env ''MaxItem'') i n (carried c)"
proof (cases "n = 0")
  case True
  moreover have "carried c i \<le> w_config env ''MaxItem''" using ok by (simp add: shopper_def)
  ultimately show ?thesis using add ok by (auto simp: AddItem_def gain_def)
next
  case False
  let ?m = "w_config env ''MaxItem''"
  have ge: "0 \<le> carried c i" by (rule carried_nonneg [OF ok])
  have s: "sane env c" "holdable env i (amount_in (inventory c) i + n)" "0 < n" "n \<le> INT_MAX" "amount_in (inventory c) i + n \<le> INT_MAX"
    using ok known light n False ge by (auto simp: shopper_def holdable_def light_def carried_def)
  obtain d where d: "c' = d" "sane env d" "amount_in (inventory d) = (amount_in (inventory c))
      (i := if amount_in (inventory c) i = 0 then n else min (amount_in (inventory c) i + n) ?m)"
    "same_but_stats (c\<lparr>inventory := inventory d\<rparr>) d"
    using AddItem_calm [OF calm s] add by auto
  have t: "trading d = trading c" using same_but_statsD(7) [OF d(4)] by simp
  have "carried d = gain ?m i n (carried c)" using d(3) n by (auto simp: carried_def gain_def)
  moreover from this have "carried d j \<le> ?m" for j using ok by (auto simp: gain_def shopper_def)
  ultimately show ?thesis using t ok d(1,2) by (simp add: shopper_def)
qed

lemma spend_le: "spend i n bag = Some bag' \<Longrightarrow> bag' j \<le> bag j"
  by (auto simp: spend_def split: if_splits)

lemma spend_all_le: "spend_all is bag = Some bag' \<Longrightarrow> bag' j \<le> bag j"
proof (induction "is" bag arbitrary: bag' rule: spend_all.induct)
  case (2 i n "is" bag)
  then obtain b where b: "spend (to_short i) n bag = Some b" "spend_all is b = Some bag'"
    by (auto simp: bind_eq_Some_conv)
  show ?case using 2(1) [OF b] spend_le [OF b(1), of j] by linarith
qed simp

text \<open>Ingredients that are tested one by one can be spent together when none is named twice.\<close>

lemma ingredients_spent:
  assumes calm: "calm env"
  shows "shopper env c \<Longrightarrow> fair_recipe is \<Longrightarrow> \<forall>(i, n) \<in> set is. n \<le> carried c (to_short i) \<Longrightarrow>
    use_ingredients env is b c = Inr (b', c') \<Longrightarrow> shopper env c' \<and> spend_all is (carried c) = Some (carried c')"
proof (induction "is" arbitrary: b c)
  case (Cons p "is")
  obtain i n where p: "p = (i, n)" by fastforce
  obtain d x b1 where d: "DelItem env (to_short i) n c = Inr (x, d)" "use_ingredients env is b1 d = Inr (b', c')"
    using Cons.prems(4) by (auto simp: p bind_out_Inr_iff)
  have n: "0 \<le> n" "n \<le> carried c (to_short i)" using Cons.prems(2,3) by (auto simp: p fair_recipe_def)
  have 1: "shopper env d" "spend (to_short i) n (carried c) = Some (carried d)"
    using DelItem_spends [OF calm Cons.prems(1) n d(1)] by auto
  then have eq: "carried d = (carried c)(to_short i := carried c (to_short i) - n)" by (auto simp: spend_def split: if_splits)
  have fair: "fair_recipe is" using Cons.prems(2) by (auto simp: p fair_recipe_def split: if_splits)
  have "m \<le> carried d (to_short j)" if "(j, m) \<in> set is" for j m
  proof (cases "m = 0 \<or> n = 0 \<or> to_short j \<noteq> to_short i")
    case True
    have "0 \<le> carried d (to_short j)" by (rule carried_nonneg [OF 1(1)])
    moreover have "m \<le> carried c (to_short j)" using that Cons.prems(3) by auto
    ultimately show ?thesis using True eq by (auto split: if_splits)
  next
    case False
    then have "to_short i \<in> (\<lambda>(i, n). to_short i) ` set (filter (\<lambda>(i, n). n \<noteq> 0) is)"
      using that by (auto intro!: rev_image_eqI [of "(j, m)"])
    then show ?thesis using Cons.prems(2) False by (simp add: p fair_recipe_def)
  qed
  then have "shopper env c' \<and> spend_all is (carried d) = Some (carried c')"
    using Cons.IH [OF 1(1) fair _ d(2)] by auto
  then show ?case using 1(2) by (simp add: p)
qed simp


lemma craft_one_deals:
  assumes calm: "calm env" and light: "light env" and stock: "known_item env (to_short (cr_id t))" "fair_recipe (cr_ingredients t)"
    and ok: "shopper env c" and run: "craft_one env t c = Inr c'"
  shows "shopper env c' \<and>
    (c' = c \<or> deal_amounts (w_config env ''MaxItem'') (Crafting t) (carried c) = Some (carried c'))"
proof (cases "has_ingredients (cr_ingredients t) c")
  case True
  obtain b b0 d x e where s: "use_ingredients env (cr_ingredients t) b0 c = Inr (b, d)" "AddItem env (to_short (cr_id t)) 1 d = Inr (x, e)"
    "c' = send b e"
    using run True by (auto simp: craft_one_def bind_out_Inr_iff)
  have "\<forall>(i, n) \<in> set (cr_ingredients t). n \<le> carried c (to_short i)"
    using True by (auto simp: has_ingredients_def shopper_HasItem [OF ok] not_less)
  then have 1: "shopper env d" "spend_all (cr_ingredients t) (carried c) = Some (carried d)"
    using ingredients_spent [OF calm ok stock(2) _ s(1)] by auto
  have "carried d (to_short (cr_id t)) + 1 \<le> w_config env ''MaxItem'' + w_config env ''MaxShopBuy''"
    using 1(1) light by (simp add: shopper_def light_def add_mono)
  then have "shopper env e \<and> carried e = gain (w_config env ''MaxItem'') (to_short (cr_id t)) 1 (carried d)"
    using light by (intro AddItem_gains [OF calm light 1(1) stock(1) _ _ _ s(2)]) (auto simp: light_def)
  then show ?thesis using 1(2) s(3) by simp
qed (use run ok in \<open>simp add: craft_one_def\<close>)

lemma craft_all_deals:
  assumes calm: "calm env" and light: "light env"
  shows "\<forall>t \<in> set ts. known_item env (to_short (cr_id t)) \<and> fair_recipe (cr_ingredients t) \<Longrightarrow> shopper env c \<Longrightarrow>
    craft_all env item ts c = Inr c' \<Longrightarrow>
    shopper env c' \<and> (\<exists>us. set us \<subseteq> set ts \<and>
      deals_amounts (w_config env ''MaxItem'') (map Crafting us) (carried c) = Some (carried c'))"
proof (induction ts arbitrary: c)
  case (Cons t ts)
  show ?case
  proof (cases "cr_id t = item")
    case True
    then obtain d where d: "craft_one env t c = Inr d" "craft_all env item ts d = Inr c'"
      using Cons.prems(3) by (auto simp: bind_out_Inr_iff)
    have 1: "shopper env d" "d = c \<or> deal_amounts (w_config env ''MaxItem'') (Crafting t) (carried c) = Some (carried d)"
      using craft_one_deals [OF calm light _ _ Cons.prems(2) d(1)] Cons.prems(1) by auto
    obtain us where us: "set us \<subseteq> set ts" "shopper env c'"
      "deals_amounts (w_config env ''MaxItem'') (map Crafting us) (carried d) = Some (carried c')"
      using Cons.IH [OF _ 1(1) d(2)] Cons.prems(1) by auto
    show ?thesis
    proof (cases "d = c")
      case True
      then show ?thesis using us by (intro conjI exI [of _ us]) auto
    next
      case False
      then show ?thesis using us 1(2) by (intro conjI exI [of _ "t # us"]) auto
    qed
  next
    case False
    then show ?thesis using Cons.IH [OF _ Cons.prems(2)] Cons.prems(1,3) by auto
  qed
qed (auto intro: exI [of _ "[]"])

lemma buy_from_deals:
  assumes calm: "calm env" and light: "light env" and known: "known_item env (tr_id t)" and ok: "shopper env c"
    and n: "0 < n" "n \<le> w_config env ''MaxShopBuy''" and run: "buy_from env t (tr_id t) n c = Inr c'"
  shows "shopper env c' \<and> (c' = c \<or> deal_amounts (w_config env ''MaxItem'') (Buying t n) (carried c) = Some (carried c'))"
proof (cases "c' = c")
  case False
  then obtain x d y e b where s: "\<not> n * tr_buy t < 0" "\<not> HasItem 1 False c < n * tr_buy t" "DelItem env 1 (n * tr_buy t) c = Inr (x, d)"
    "AddItem env (tr_id t) n d = Inr (y, e)" "c' = send b e"
    using run by (auto simp: buy_from_def bind_out_Inr_iff Let_def split: if_splits)
  have 1: "shopper env d" "spend 1 (n * tr_buy t) (carried c) = Some (carried d)"
    using DelItem_spends [OF calm ok _ _ s(3)] s(1,2) by (auto simp: shopper_HasItem [OF ok])
  have "carried d (tr_id t) + n \<le> w_config env ''MaxItem'' + w_config env ''MaxShopBuy''"
    using 1(1) n(2) by (simp add: shopper_def add_mono)
  then have "shopper env e \<and> carried e = gain (w_config env ''MaxItem'') (tr_id t) n (carried d)"
    using light n by (intro AddItem_gains [OF calm light 1(1) known _ _ _ s(4)]) (auto simp: light_def)
  then show ?thesis using 1(2) s(5) by simp
qed (use ok in simp)

lemma sell_to_deals:
  assumes calm: "calm env" and light: "light env" and ok: "shopper env c"
    and n: "0 < n" and run: "sell_to env t (tr_id t) n c = Inr c'"
  shows "shopper env c' \<and> (c' = c \<or> deal_amounts (w_config env ''MaxItem'') (Selling t n) (carried c) = Some (carried c'))"
proof (cases "c' = c")
  case False
  then obtain x d y e b where s: "\<not> n * tr_sell t < 0" "\<not> n * tr_sell t > w_config env ''MaxItem'' - HasItem 1 False c"
    "\<not> HasItem (tr_id t) False c < n" "DelItem env (tr_id t) n c = Inr (x, d)" "AddItem env 1 (n * tr_sell t) d = Inr (y, e)" "c' = send b e"
    using run by (auto simp: sell_to_def bind_out_Inr_iff Let_def split: if_splits)
  have 1: "shopper env d" "spend (tr_id t) n (carried c) = Some (carried d)"
    using DelItem_spends [OF calm ok _ _ s(4)] s(3) n by (auto simp: shopper_HasItem [OF ok])
  have le: "carried d 1 \<le> carried c 1" by (rule spend_le [OF 1(2)])
  have b: "n * tr_sell t \<le> w_config env ''MaxItem'' - carried c 1" "0 \<le> carried c 1"
    using s(2) carried_nonneg [OF ok] by (auto simp: shopper_HasItem [OF ok])
  have "shopper env e \<and> carried e = gain (w_config env ''MaxItem'') 1 (n * tr_sell t) (carried d)"
  proof (rule AddItem_gains [OF calm light 1(1) _ _ _ _ s(5)])
    show "known_item env 1" using light by (simp add: light_def)
    show "0 \<le> n * tr_sell t" using s(1) by simp
    show "n * tr_sell t \<le> w_config env ''MaxItem''" using b by linarith
    have "0 \<le> w_config env ''MaxShopBuy''" using light by (simp add: light_def)
    then show "carried d 1 + n * tr_sell t \<le> w_config env ''MaxItem'' + w_config env ''MaxShopBuy''" using b le by linarith
  qed
  then show ?thesis using 1(2) s(6) by simp
qed (use ok in simp)

lemma shop_runs:
  assumes stock: "\<forall>(_, _, d) \<in> set npcs. stocked env d" and run: "shop_handler env npcs a r c = Inr c'" and "a \<noteq> Shop_open" "c' \<noteq> c"
  shows "ch_npc_type c = ENF_Shop \<and> (\<exists>d. npc_talked npcs c = Inr d \<and> stocked env d \<and>
      ((\<exists>i. craft_all env i (nd_craft d) c = Inr c') \<or>
       (\<exists>t n. t \<in> set (nd_trade d) \<and> 0 < n \<and> tr_buy t \<noteq> 0 \<and> n \<le> w_config env ''MaxShopBuy'' \<and> buy_from env t (tr_id t) n c = Inr c') \<or>
       (\<exists>t n. t \<in> set (nd_trade d) \<and> 0 < n \<and> tr_sell t \<noteq> 0 \<and> sell_to env t (tr_id t) n c = Inr c')))"
proof -
  have known: "stocked env d" if d: "npc_talked npcs c = Inr d" for d
  proof -
    obtain k where "k < length npcs" "d = snd (snd (npcs ! k))"
      using d by (auto simp: npc_talked_def split: option.splits if_splits)
    then show ?thesis using stock nth_mem [of k npcs] by (cases "npcs ! k") auto
  qed
  have found: "t \<in> set ts \<and> tr_id t = i \<and> x t \<noteq> 0" if "find (\<lambda>t. tr_id t = i \<and> x t \<noteq> 0) ts = Some t" for x :: "shop_trade_item \<Rightarrow> int" and ts t i
    using that by (auto simp: find_Some_iff)
  show ?thesis
  proof (cases a)
    case Shop_create
    then show ?thesis
      using run assms(3,4) known by (auto simp: shop_handler_def Shop_Create_def bind_out_Inr_iff split: if_splits)
  next
    case Shop_buy
    then obtain i n d t where "ch_npc_type c = ENF_Shop" "npc_talked npcs c = Inr d" "\<not> n \<le> 0" "n \<le> w_config env ''MaxShopBuy''"
      "find (\<lambda>t. tr_id t = i \<and> tr_buy t \<noteq> 0) (nd_trade d) = Some t" "buy_from env t i n c = Inr c'"
      using run assms(3,4) by (auto simp: shop_handler_def Shop_Buy_def bind_out_Inr_iff Let_def not_less split: if_splits option.splits)
    moreover from this have "t \<in> set (nd_trade d) \<and> tr_id t = i \<and> tr_buy t \<noteq> 0" by (intro found)
    ultimately show ?thesis using known by (auto simp: not_le)
  next
    case Shop_sell
    then obtain i n d t where "ch_npc_type c = ENF_Shop" "npc_talked npcs c = Inr d" "\<not> n \<le> 0"
      "find (\<lambda>t. tr_id t = i \<and> tr_sell t \<noteq> 0) (nd_trade d) = Some t" "sell_to env t i n c = Inr c'"
      using run assms(3,4) by (auto simp: shop_handler_def Shop_Sell_def bind_out_Inr_iff Let_def split: if_splits option.splits)
    moreover from this have "t \<in> set (nd_trade d) \<and> tr_id t = i \<and> tr_sell t \<noteq> 0" by (intro found)
    ultimately show ?thesis using known by (auto simp: not_le)
  qed (use assms(3) in simp)
qed



text \<open>\<open>alice\<close> with 50 pieces of gold buys two swords at 10 each; one entry of the list is for potions.\<close>

definition small_shop :: npcs_here where
  "small_shop = [(0, 5, blank_npc_data\<lparr>nd_trade := [\<lparr>tr_id = 3, tr_buy = 1, tr_sell = 1\<rparr>, \<lparr>tr_id = 2, tr_buy = 10, tr_sell = 3\<rparr>]\<rparr>)]"

definition shopping_character :: character where
  "shopping_character = sample_character\<lparr>ch_npc := Some 0, ch_npc_type := ENF_Shop\<rparr>"

lemma light_sample: "light sample_env"
  using carries_sample carries_less [of sample_env _ 100000]
  by (force simp: light_def sample_env_def sample_config_def known_item_def sample_items_def INT_MAX_def)


section \<open>Points\<close>

text \<open>What a character has of stats, skills and points; the rules of quests leave it alone.\<close>

definition training_part :: "character \<Rightarrow> int list \<times> int \<times> int \<times> spell list \<times> int" where
  "training_part c = (ch_base c, ch_statpoints c, ch_skillpoints c, spells c, ch_level c)"

definition steady :: "world_env \<Rightarrow> bool" where
  "steady env \<longleftrightarrow> (\<forall>c c'. w_rules env c = Inr c' \<longrightarrow> training_part c' = training_part c)"

definition stat_total :: "character \<Rightarrow> int" where
  "stat_total c = sum_list (ch_base c) + ch_statpoints c"

definition skill_total :: "character \<Rightarrow> int" where
  "skill_total c = sum_list (map spell_level (spells c)) + ch_skillpoints c"

definition points_ok :: "world_env \<Rightarrow> character \<Rightarrow> bool" where
  "points_ok env c \<longleftrightarrow>
     length (ch_base c) = 6 \<and> (\<forall>b \<in> set (ch_base c). 0 \<le> b) \<and> 0 \<le> ch_statpoints c \<and>
     stat_total c \<le> ch_level c * w_config env ''StatPerLevel'' \<and>
     0 \<le> ch_skillpoints c \<and> skill_total c \<le> ch_level c * w_config env ''SkillPerLevel'' \<and>
     distinct (map spell_id (spells c)) \<and>
     (\<forall>s \<in> set (spells c). short_range (spell_id s) \<and> 0 \<le> spell_level s \<and> spell_level s \<le> w_config env ''MaxSkillLevel'')"

definition training_limits :: "world_env \<Rightarrow> character \<Rightarrow> bool" where
  "training_limits env c \<longleftrightarrow>
     0 \<le> w_config env ''MaxSkillLevel'' \<and> w_config env ''MaxSkillLevel'' \<le> 255 \<and>
     0 \<le> ch_level c * w_config env ''StatPerLevel'' \<and> ch_level c * w_config env ''StatPerLevel'' \<le> 32767 \<and>
     0 \<le> ch_level c * w_config env ''SkillPerLevel'' \<and> ch_level c * w_config env ''SkillPerLevel'' \<le> 32767"

lemma training_partD:
  assumes "training_part c' = training_part c"
  shows "points_ok env c' = points_ok env c" "stat_total c' = stat_total c" "skill_total c' = skill_total c" "ch_level c' = ch_level c"
  using assms by (simp_all add: training_part_def points_ok_def stat_total_def skill_total_def)

lemma training_simps [simp]:
  "training_part (c\<lparr>inventory := its\<rparr>) = training_part c" "training_part (send b c) = training_part c"
  "training_part (c\<lparr>stats := s\<rparr>) = training_part c" "training_part (c\<lparr>ch_npc := k, ch_npc_type := t\<rparr>) = training_part c"
  "training_part (CancelSpell c) = training_part c" "training_part (cap_health c) = training_part c"
  by (simp_all add: training_part_def send_def CancelSpell_def cap_health_def Let_def)

lemma CalculateStats_training:
  assumes "steady env" "CalculateStats env c = Inr c'"
  shows "training_part c' = training_part c"
proof -
  obtain c1 c2 where s: "update_stats env c = Inr c1" "w_rules env c1 = Inr c2" "(if ch_party c2 \<noteq> None then UpdateHP c2 else Inr c2) = Inr c'"
    using assms(2) by (auto simp: CalculateStats_def CalculateStats_with_def CheckQuestRules_def bind_out_Inr_iff)
  obtain a b d where "c1 = (cap_health (c\<lparr>stats := a, stats := b\<rparr>))\<lparr>stats := d\<rparr>"
    using s(1) unfolding update_stats_def Let_def bind_out_Inr_iff by blast
  then have "training_part c1 = training_part c" by simp
  moreover have "training_part c2 = training_part c1" using assms(1) s(2) by (simp add: steady_def)
  moreover have "training_part c' = training_part c2"
    using s(3) by (auto simp: UpdateHP_def bind_out_Inr_iff training_part_def Let_def split: if_splits)
  ultimately show ?thesis by simp
qed

lemma DelItem_training:
  assumes "steady env" "DelItem env i n c = Inr (b, c')"
  shows "training_part c' = training_part c"
  using assms CalculateStats_training [OF assms(1)]
  by (fastforce simp: DelItem_def bind_out_Inr_iff Let_def split: if_splits option.splits)

definition raise_spell :: "int \<Rightarrow> spell \<Rightarrow> spell" where
  "raise_spell sp s = (if spell_id s = sp then s\<lparr>spell_level := to_uchar (spell_level s + 1)\<rparr> else s)"

lemma raise_spell_simps [simp]:
  "spell_id s = sp \<Longrightarrow> raise_spell sp s = s\<lparr>spell_level := to_uchar (spell_level s + 1)\<rparr>"
  "spell_id s \<noteq> sp \<Longrightarrow> raise_spell sp s = s" "spell_id (raise_spell sp s) = spell_id s"
  by (simp_all add: raise_spell_def)

lemma raise_spell_others: "sp \<notin> spell_id ` set ss \<Longrightarrow> map (raise_spell sp) ss = ss"
  by (induction ss) auto

lemma train_spells_none: "sp \<notin> spell_id ` set ss \<Longrightarrow> train_spells sp seen ss c = c"
  by (induction sp seen ss c rule: train_spells.induct) auto

lemma train_spells_once:
  "distinct (map spell_id ss) \<Longrightarrow> sp \<in> spell_id ` set ss \<Longrightarrow>
   \<exists>b. train_spells sp seen ss c = send b (c\<lparr>spells := seen @ map (raise_spell sp) ss, ch_skillpoints := to_short (ch_skillpoints c - 1)\<rparr>)"
proof (induction ss arbitrary: seen)
  case (Cons s ss)
  show ?case
  proof (cases "spell_id s = sp")
    case True
    then have "sp \<notin> spell_id ` set ss" using Cons.prems(1) by auto
    then show ?thesis using True raise_spell_others [of sp ss] by (auto simp: Let_def train_spells_none)
  next
    case False
    then show ?thesis using Cons.IH [of "seen @ [s]"] Cons.prems by auto
  qed
qed simp

lemma sum_raise:
  "distinct (map spell_id ss) \<Longrightarrow> s \<in> set ss \<Longrightarrow> spell_id s = sp \<Longrightarrow> 0 \<le> spell_level s \<Longrightarrow> spell_level s < 255 \<Longrightarrow>
   sum_list (map spell_level (map (raise_spell sp) ss)) = sum_list (map spell_level ss) + 1"
proof (induction ss)
  case (Cons t ss)
  show ?case
  proof (cases "spell_id t = sp")
    case True
    then have "t = s" using Cons.prems(1-3) by (metis distinct_map inj_onD list.set_intros(1))
    moreover have "map (raise_spell sp) ss = ss" using True Cons.prems(1) by (intro raise_spell_others) auto
    ultimately show ?thesis using True Cons.prems by (simp add: to_uchar_def del: map_map)
  next
    case False
    then show ?thesis using Cons by auto
  qed
qed simp

lemma sum_update: "k < length xs \<Longrightarrow> sum_list (xs[k := x]) = sum_list xs + (x - xs ! k)" for xs :: "int list"
  by (induction xs arbitrary: k) (auto split: nat.split)

definition no_new_points :: "world_env \<Rightarrow> character \<Rightarrow> character \<Rightarrow> bool" where
  "no_new_points env c c' \<longleftrightarrow> points_ok env c' \<and> stat_total c' = stat_total c \<and> skill_total c' = skill_total c"

lemma no_new_pointsI:
  "points_ok env c \<Longrightarrow> training_part c' = training_part c \<Longrightarrow> no_new_points env c c'"
  using training_partD [of c' c] by (simp add: no_new_points_def)

lemma no_new_points_trans:
  "no_new_points env c d \<Longrightarrow> training_part c' = training_part d \<Longrightarrow> no_new_points env c c'"
  using training_partD [of c' d] by (simp add: no_new_points_def)

lemma train_stat_step:
  assumes steady: "steady env" and lim: "training_limits env c" and ok: "points_ok env c" and run: "train_stat env i c = Inr c'"
  shows "no_new_points env c c'"
proof (cases "c' = c")
  case False
  define k where "k = nat (i - 1)"
  let ?c = "c\<lparr>ch_base := (ch_base c)[k := to_short (ch_base c ! k + 1)], ch_statpoints := to_short (ch_statpoints c - 1)\<rparr>"
  obtain d where d: "\<not> ch_statpoints c \<le> 0" "k < 6" "CalculateStats env ?c = Inr d" "c' = send (stats_reply env d) d"
    using run False by (auto simp: train_stat_def Let_def bind_out_Inr_iff k_def split: if_splits)
  have len: "k < length (ch_base c)" using d(2) ok by (simp add: points_ok_def)
  have pos: "\<forall>x \<in> set (ch_base c). 0 \<le> x" "0 \<le> ch_base c ! k" using ok len by (auto simp: points_ok_def)
  have "ch_base c ! k \<le> sum_list (ch_base c)" "0 \<le> sum_list (ch_base c)"
    using len pos(1) by (auto intro: Groups_List.member_le_sum_list sum_list_nonneg)
  moreover have "sum_list (ch_base c) + ch_statpoints c \<le> 32767" using ok lim by (simp add: points_ok_def stat_total_def training_limits_def)
  ultimately have "to_short (ch_base c ! k + 1) = ch_base c ! k + 1" "to_short (ch_statpoints c - 1) = ch_statpoints c - 1"
    using d(1) pos(2) by (auto simp: to_short_id short_range_def)
  moreover have "\<forall>x \<in> set ((ch_base c)[k := ch_base c ! k + 1]). 0 \<le> x"
    using pos set_update_subset_insert [of "ch_base c" k "ch_base c ! k + 1"] by fastforce
  ultimately have "no_new_points env c ?c"
    using ok d(1) len by (simp add: no_new_points_def points_ok_def stat_total_def skill_total_def sum_update)
  then show ?thesis using CalculateStats_training [OF steady d(3)] d(4) no_new_points_trans by simp
qed (use ok in \<open>simp add: no_new_pointsI\<close>)

lemma train_skill_step:
  assumes lim: "training_limits env c" and ok: "points_ok env c"
  shows "no_new_points env c (train_skill env i c)"
proof (cases "ch_skillpoints c \<le> 0 \<or> SpellLevel (to_short i) c \<ge> w_config env ''MaxSkillLevel'' \<or> i \<notin> spell_id ` set (spells c)")
  case True
  then show ?thesis
    using no_new_pointsI [OF ok, of c] train_spells_none by (auto simp: train_skill_def)
next
  case False
  have dist: "distinct (map spell_id (spells c))" using ok by (simp add: points_ok_def)
  from False obtain s where s: "find (\<lambda>s. spell_id s = i) (spells c) = Some s" "s \<in> set (spells c)" "spell_id s = i"
    by (cases "find (\<lambda>s. spell_id s = i) (spells c)") (auto simp: find_Some_iff find_None_iff)
  have s2: "to_short i = i" "0 \<le> spell_level s" using ok s(2,3) to_short_id by (auto simp: points_ok_def)
  then have low: "spell_level s < w_config env ''MaxSkillLevel''" using False s(1) by (simp add: SpellLevel_def)
  have max: "w_config env ''MaxSkillLevel'' \<le> 255" using lim by (simp add: training_limits_def)
  have i: "HasSpell i c" using s by (auto simp: HasSpell_def)
  obtain b where b: "train_skill env i c = send b (c\<lparr>spells := map (raise_spell i) (spells c), ch_skillpoints := to_short (ch_skillpoints c - 1)\<rparr>)"
    using train_spells_once [OF dist, of i "[]" c] False s2(1) i by (auto simp: train_skill_def)
  have sum: "sum_list (map spell_level (map (raise_spell i) (spells c))) = sum_list (map spell_level (spells c)) + 1"
    using dist s(2,3) s2(2) low max by (intro sum_raise) auto
  have ids: "map spell_id (map (raise_spell i) (spells c)) = map spell_id (spells c)" by simp
  have "short_range (spell_id x) \<and> 0 \<le> spell_level x \<and> spell_level x \<le> w_config env ''MaxSkillLevel''"
    if x: "x \<in> set (map (raise_spell i) (spells c))" for x
  proof -
    obtain t where t: "t \<in> set (spells c)" "x = raise_spell i t" using x by auto
    have "t = s" if "spell_id t = i" using dist s(2,3) that t(1) by (metis distinct_map inj_onD)
    then show ?thesis using t ok low max by (cases "spell_id t = i") (auto simp: points_ok_def to_uchar_def)
  qed
  moreover have "to_short (ch_skillpoints c - 1) = ch_skillpoints c - 1"
  proof -
    have "0 \<le> sum_list (map spell_level (spells c))" using ok by (intro sum_list_nonneg) (auto simp: points_ok_def)
    moreover have "sum_list (map spell_level (spells c)) + ch_skillpoints c \<le> 32767"
      using ok lim by (simp add: points_ok_def skill_total_def training_limits_def)
    ultimately show ?thesis using False by (intro to_short_id) (simp add: short_range_def)
  qed
  ultimately show ?thesis
    using ok False ids sum dist unfolding b
    by (simp add: no_new_points_def points_ok_def stat_total_def skill_total_def send_def del: map_map)
qed

lemma AddSpell_step:
  assumes steady: "steady env" and lim: "training_limits env c" and ok: "points_ok env c" and sp: "short_range sp"
    and run: "AddSpell env sp c = Inr (b, c')"
  shows "no_new_points env c c'"
proof (cases "c' = c")
  case False
  let ?c = "c\<lparr>spells := spells c @ [\<lparr>spell_id = sp, spell_level = 0\<rparr>]\<rparr>"
  have s: "\<not> HasSpell sp c" "w_rules env ?c = Inr c'"
    using run False by (auto simp: AddSpell_def CheckQuestRules_def bind_out_Inr_iff split: if_splits)
  then have "no_new_points env c ?c"
    using ok sp lim by (auto simp: no_new_points_def points_ok_def stat_total_def skill_total_def HasSpell_def training_limits_def)
  moreover have "training_part c' = training_part ?c" using steady s(2) by (simp add: steady_def)
  ultimately show ?thesis by (rule no_new_points_trans)
qed (use ok in \<open>simp add: no_new_pointsI\<close>)

lemma StatSkill_Take_step:
  assumes steady: "steady env" and lim: "training_limits env c" and ok: "points_ok env c" and run: "StatSkill_Take env npcs r c = Inr c'"
  shows "no_new_points env c c'"
proof -
  have "(\<exists>b. c' = c \<or> c' = send b c) \<or> (\<exists>n m x d y e b. DelItem env 1 m c = Inr (x, d) \<and> AddSpell env (to_short n) d = Inr (y, e) \<and> c' = send b e)"
    using run by (fastforce simp: StatSkill_Take_def bind_out_Inr_iff Let_def split: if_splits option.splits)
  then show ?thesis
  proof (elim disjE exE conjE)
    fix n m x d y e b
    assume s: "DelItem env 1 m c = Inr (x, d)" "AddSpell env (to_short n) d = Inr (y, e)" "c' = send b e"
    have t: "training_part d = training_part c" by (rule DelItem_training [OF steady s(1)])
    have "training_limits env d" using lim training_partD(4) [OF t] by (simp add: training_limits_def)
    then have "no_new_points env d e" using AddSpell_step [OF steady _ _ _ s(2)] ok training_partD(1) [OF t] by simp
    then show ?thesis using training_partD [OF t] by (simp add: s(3) no_new_points_def training_partD [OF training_simps(2)])
  qed (use no_new_pointsI [OF ok] in auto)
qed

lemma StatSkill_Remove_step:
  assumes steady: "steady env" and ok: "points_ok env c" and run: "StatSkill_Remove env r c = Inr c'"
  shows "points_ok env c' \<and> stat_total c' = stat_total c \<and> skill_total c' \<le> skill_total c"
proof (cases "c' = c")
  case False
  then obtain sp x d b where s: "DelSpell env sp c = Inr (x, d)" "c' = d \<or> c' = send b d"
    using run by (auto simp: StatSkill_Remove_def bind_out_Inr_iff Let_def split: if_splits)
  let ?c = "c\<lparr>spells := filter (\<lambda>s. spell_id s \<noteq> sp) (spells c)\<rparr>"
  have "training_part d = training_part ?c"
    using s(1) steady by (auto simp: DelSpell_def CheckQuestRules_def bind_out_Inr_iff steady_def)
  then have t: "training_part c' = training_part ?c" using s(2) by auto
  have "sum_list (map spell_level (filter (\<lambda>s. spell_id s \<noteq> sp) ss)) \<le> sum_list (map spell_level ss)"
    if "\<forall>s \<in> set ss. 0 \<le> spell_level s" for ss :: "spell list"
    using that by (induction ss) auto
  then have "sum_list (map spell_level (filter (\<lambda>s. spell_id s \<noteq> sp) (spells c))) \<le> sum_list (map spell_level (spells c))"
    using ok by (simp add: points_ok_def)
  then have "points_ok env ?c \<and> stat_total ?c = stat_total c \<and> skill_total ?c \<le> skill_total c"
    using ok by (auto simp: points_ok_def stat_total_def skill_total_def distinct_map_filter)
  then show ?thesis using training_partD [OF t] by simp
qed (use ok in simp)

lemma StatSkill_Junk_step:
  assumes steady: "steady env" and lim: "training_limits env c" and run: "StatSkill_Junk env c = Inr c'" and "c' \<noteq> c"
  shows "points_ok env c' \<and> stat_total c' = ch_level c * w_config env ''StatPerLevel'' \<and>
    skill_total c' = ch_level c * w_config env ''SkillPerLevel''"
proof -
  let ?c = "(CancelSpell (c\<lparr>ch_base := replicate 6 0, spells := []\<rparr>))\<lparr>ch_statpoints := to_short (ch_level c * w_config env ''StatPerLevel''),
     ch_skillpoints := to_short (ch_level c * w_config env ''SkillPerLevel'')\<rparr>"
  obtain d b where d: "CalculateStats env ?c = Inr d" "c' = send b d"
    using run assms(4) by (auto simp: StatSkill_Junk_def character_Reset_def bind_out_Inr_iff Let_def CancelSpell_def split: if_splits)
  have "training_part c' = training_part ?c" using CalculateStats_training [OF steady d(1)] d(2) by simp
  then have t: "training_part c' = (replicate 6 0, ch_level c * w_config env ''StatPerLevel'', ch_level c * w_config env ''SkillPerLevel'', [], ch_level c)"
    using lim by (simp add: training_part_def CancelSpell_def to_short_id short_range_def training_limits_def)
  then show ?thesis using lim by (simp add: training_part_def points_ok_def stat_total_def skill_total_def training_limits_def eval_nat_numeral)
qed

text \<open>
  C22: A skill master makes no points. Learning a skill, training a stat or a skill and looking at the list keep
  the sum of a character's stats and stat points and that of its skill levels and skill points; forgetting a
  skill loses the points spent on it; only starting anew gives points, those of the level. What is left is
  never negative, the totals never exceed what the level gives, no skill is known twice, and no level is
  above \<open>MaxSkillLevel\<close>. The rules of quests must leave stats and points alone, and what a level gives must fit a \<open>short\<close>.
\<close>

theorem points_kept:
  assumes steady: "steady env" and lim: "training_limits env c" and ok: "points_ok env c" and run: "skill_handler env npcs a r c = Inr c'"
  shows "points_ok env c' \<and>
    (if a = Skill_junk \<and> c' \<noteq> c
     then stat_total c' = ch_level c * w_config env ''StatPerLevel'' \<and> skill_total c' = ch_level c * w_config env ''SkillPerLevel''
     else stat_total c' = stat_total c \<and> (if a = Skill_remove then skill_total c' \<le> skill_total c else skill_total c' = skill_total c))"
proof (cases a)
  case Skill_open
  then have "training_part c' = training_part c"
    using run by (auto simp: skill_handler_def StatSkill_Open_def bind_out_Inr_iff Let_def split_def split: option.splits)
  then show ?thesis using training_partD [of c' c] ok Skill_open by simp
next
  case Skill_take
  then show ?thesis using StatSkill_Take_step [OF steady lim ok] run by (simp add: skill_handler_def no_new_points_def)
next
  case Skill_remove
  then show ?thesis using StatSkill_Remove_step [OF steady ok] run by (simp add: skill_handler_def)
next
  case Skill_add
  then have "no_new_points env c c'"
    using run train_stat_step [OF steady lim ok] train_skill_step [OF lim ok] no_new_pointsI [OF ok]
    by (auto simp: skill_handler_def StatSkill_Add_def bind_out_Inr_iff split: if_splits)
  then show ?thesis using Skill_add by (simp add: no_new_points_def)
next
  case Skill_junk
  then show ?thesis
    using StatSkill_Junk_step [OF steady lim] run ok by (cases "c' = c") (simp_all add: skill_handler_def)
qed

text \<open>A character of level 20 with a free stat point spends it on strength, then all is reset.\<close>

definition training_character :: character where
  "training_character = sample_character\<lparr>ch_level := 20, ch_statpoints := 1, ch_skillpoints := 2,
     spells := [\<lparr>spell_id = 4, spell_level = 7\<rparr>], ch_npc_type := ENF_Skills\<rparr>"

theorem points_kept_witness:
  "\<exists>c'. skill_handler sample_env [] Skill_add (PacketReader_new [0, 0, 2, 2, 254]) training_character = Inr c' \<and>
    stat_total c' = 22 \<and> points_ok sample_env c'"
proof -
  have cfg: "w_config sample_env ''StatPerLevel'' = 3" "w_config sample_env ''SkillPerLevel'' = 4" "w_config sample_env ''MaxSkillLevel'' = 100"
    by (simp_all add: sample_env_def sample_config_def)
  have steady: "steady sample_env" by (simp add: steady_def sample_env_def)
  have lim: "training_limits sample_env training_character" by (simp add: training_limits_def cfg training_character_def)
  have ok: "points_ok sample_env training_character" "stat_total training_character = 22"
    by (simp_all add: points_ok_def cfg training_character_def sample_character_def stat_total_def skill_total_def short_range_def)
  have r: "GetChar (PacketReader_new [0, 0, 2, 2, 254]) = Inr (1, \<lparr>rd_data = [0, 0, 2, 2, 254], rd_pos = 3\<rparr>)"
    "GetShort \<lparr>rd_data = [0, 0, 2, 2, 254], rd_pos = 3\<rparr> = Inr (1, \<lparr>rd_data = [0, 0, 2, 2, 254], rd_pos = 5\<rparr>)" by code_simp+
  let ?c = "training_character\<lparr>ch_base := [2, 2, 3, 4, 5, 6], ch_statpoints := 0\<rparr>"
  have "sane sample_env ?c" using sane_sample by (simp add: sane_def training_character_def)
  then obtain d where "CalculateStats sample_env ?c = Inr d" using calm_stats [OF calm_sample] by metis
  then have "train_stat sample_env 1 training_character = Inr (send (stats_reply sample_env d) d)"
    by (simp add: train_stat_def training_character_def sample_character_def to_short_def)
  then obtain c' where c': "skill_handler sample_env [] Skill_add (PacketReader_new [0, 0, 2, 2, 254]) training_character = Inr c'"
    by (simp add: skill_handler_def StatSkill_Add_def r TRAIN_STAT_def)
  show ?thesis using points_kept [OF steady lim ok(1) c'] c' ok(2) by auto
qed

end
