(* ===== verification/Party.thy ===== *)
theory Party
  imports Trade
begin

text \<open>
  Parties (\<open>src/src/party.cpp\<close>) and their handlers (\<open>handlers/Party.cpp\<close>): a character points at its party and
  a party lists its members. A party is known by its position in the list of all parties that were made; a deleted
  one leaves an empty place behind. The fields \<open>party_trust_send\<close>, \<open>party_trust_recv\<close> and
  \<open>party_send_type\<close> of a character are kept beside the characters. The messages of a party are not modelled.
\<close>

section \<open>The state\<close>

record party =
  pt_leader :: nat
  pt_members :: "nat list"
  pt_expsum :: int

record party_ask =
  ask_send :: "nat option"
  ask_recv :: "nat option"
  ask_type :: int

record social =
  so_players :: players
  so_parties :: "party option list"
  so_asks :: "nat \<Rightarrow> party_ask"

definition the_party :: "nat \<Rightarrow> social \<Rightarrow> party outcome" where
  "the_party k s = (if k < length (so_parties s) then (case so_parties s ! k of Some P \<Rightarrow> Inr P | None \<Rightarrow> Inl Null_Dereference) else Inl Null_Dereference)"

definition try_so :: "(players \<Rightarrow> players outcome) \<Rightarrow> social \<Rightarrow> social outcome" where
  "try_so f s = bind_out (f (so_players s)) (\<lambda>w. Inr (s\<lparr>so_players := w\<rparr>))"

fun send_each :: "nat list \<Rightarrow> PacketBuilder \<Rightarrow> players \<Rightarrow> players outcome" where
  "send_each [] b w = Inr w"
| "send_each (q # qs) b w = bind_out (player w q) (\<lambda>_. send_each qs b (send_to q b w))"

section \<open>The operations\<close>

definition add_member :: "party \<Rightarrow> nat \<Rightarrow> character \<Rightarrow> PacketBuilder \<Rightarrow> PacketBuilder outcome" where
  "add_member P q c b =
     bind_out (hp_percent c) (\<lambda>n.
       Inr (AddChar (of_int n) (AddChar (of_int (ch_level c)) (AddChar (if q = pt_leader P then 1 else 0) (AddShort (pid_short q) b)))))"

fun add_members :: "players \<Rightarrow> party \<Rightarrow> nat list \<Rightarrow> PacketBuilder \<Rightarrow> PacketBuilder outcome" where
  "add_members w P [] b = Inr b"
| "add_members w P (q # qs) b =
     bind_out (player w q) (\<lambda>c. bind_out (add_member P q c b) (\<lambda>b. add_members w P qs (AddBreakString (source_name c) 255 b)))"

definition RefreshMembers :: "party \<Rightarrow> nat \<Rightarrow> bool \<Rightarrow> players \<Rightarrow> players outcome" where
  "RefreshMembers P p create w =
     bind_out (add_members w P (pt_members P) (PacketBuilder_new PACKET_PARTY (if create then PACKET_CREATE else PACKET_LIST))) (\<lambda>b.
     bind_out (player w p) (\<lambda>_. Inr (send_to p b w)))"

definition Party_new :: "nat \<Rightarrow> nat \<Rightarrow> social \<Rightarrow> social outcome" where
  "Party_new leader other s =
     (let k = length (so_parties s); P = \<lparr>pt_leader = leader, pt_members = [leader, other], pt_expsum = 0\<rparr>;
          enter = (\<lambda>c. c\<lparr>ch_party := Some k\<rparr>)
      in bind_out (player (so_players s) leader) (\<lambda>_. bind_out (player (so_players s) other) (\<lambda>_.
         bind_out (RefreshMembers P leader True (alter other enter (alter leader enter (so_players s)))) (\<lambda>w.
         bind_out (RefreshMembers P other True w) (\<lambda>w. Inr (s\<lparr>so_players := w, so_parties := so_parties s @ [Some P]\<rparr>))))))"

definition Party_Join :: "nat \<Rightarrow> nat \<Rightarrow> social \<Rightarrow> social outcome" where
  "Party_Join k p s =
     bind_out (the_party k s) (\<lambda>P. bind_out (player (so_players s) p) (\<lambda>c.
       let P = P\<lparr>pt_members := pt_members P @ [p]\<rparr>;
           w = alter p (\<lambda>c. c\<lparr>ch_party := Some k\<rparr>) (so_players s) in
       bind_out (add_member P p c (PacketBuilder_new PACKET_PARTY PACKET_ADD)) (\<lambda>b.
       bind_out (send_each (filter (\<lambda>q. q \<noteq> p) (pt_members P)) (AddString (source_name c) b) w) (\<lambda>w.
       bind_out (RefreshMembers P p True w) (\<lambda>w.
         Inr (s\<lparr>so_players := w, so_parties := (so_parties s)[k := Some P]\<rparr>))))))"

text \<open>The destructor.\<close>

fun dismiss :: "nat list \<Rightarrow> players \<Rightarrow> players outcome" where
  "dismiss [] w = Inr w"
| "dismiss (q # qs) w =
     bind_out (player w q) (\<lambda>_.
       dismiss qs (send_to q (AddByte 255 (PacketBuilder_new PACKET_PARTY PACKET_CLOSE)) (alter q (\<lambda>c. c\<lparr>ch_party := None\<rparr>) w)))"

definition Party_delete :: "nat \<Rightarrow> social \<Rightarrow> social outcome" where
  "Party_delete k s =
     bind_out (the_party k s) (\<lambda>P. try_so (dismiss (pt_members P)) (s\<lparr>so_parties := (so_parties s)[k := None]\<rparr>))"

definition Party_Leave :: "nat \<Rightarrow> nat \<Rightarrow> social \<Rightarrow> social outcome" where
  "Party_Leave k p s =
     bind_out (the_party k s) (\<lambda>P.
       if length (pt_members P) > 2 \<and> p \<noteq> pt_leader P then
         (let P = P\<lparr>pt_members := remove1 p (pt_members P)\<rparr>;
              b = AddShort (pid_short p) (PacketBuilder_new PACKET_PARTY PACKET_REMOVE) in
          bind_out (player (so_players s) p) (\<lambda>_.
          bind_out (send_each (filter (\<lambda>q. q \<noteq> p) (pt_members P)) b (alter p (\<lambda>c. c\<lparr>ch_party := None\<rparr>) (so_players s))) (\<lambda>w.
            Inr (s\<lparr>so_players := send_to p (AddShort 255 (PacketBuilder_new PACKET_PARTY PACKET_CLOSE)) w,
                   so_parties := (so_parties s)[k := Some P]\<rparr>))))
       else Party_delete k s)"

text \<open>
  \<open>ShareEXP\<close> among the members that are on the map and may fight. The table of experience is an argument; with
  another mode than 1 and 2 the reward stays 0.
\<close>

definition shares :: "int \<Rightarrow> character \<Rightarrow> bool" where
  "shares mapid c \<longleftrightarrow> CanInteractCombat c \<and> ch_mapid c = mapid \<and> \<not> ch_nowhere c"

definition share_level :: "character \<Rightarrow> int" where
  "share_level c = (if ch_level c = 0 then 1 else ch_level c)"

definition exp_share :: "int \<Rightarrow> int \<Rightarrow> double \<Rightarrow> double \<Rightarrow> character \<Rightarrow> int outcome" where
  "exp_share sharemode e members sumlevel c =
     (if sharemode = 1 then d_to_int (d_ceil (d_div (d_of_int e) members))
      else if sharemode = 2 then d_to_int (d_ceil (d_div (d_mul (d_of_int e) (d_of_int (share_level c))) sumlevel))
      else Inr 0)"

definition gain_level :: "world_env \<Rightarrow> character \<Rightarrow> character outcome" where
  "gain_level env c =
     CalculateStats env (c\<lparr>ch_level := to_uchar (ch_level c + 1), ch_statpoints := to_short (ch_statpoints c + w_config env ''StatPerLevel''),
       ch_skillpoints := to_short (ch_skillpoints c + w_config env ''SkillPerLevel'')\<rparr>)"

definition take_share :: "world_env \<Rightarrow> (int \<Rightarrow> int) \<Rightarrow> nat \<Rightarrow> int \<Rightarrow> character \<Rightarrow> character outcome" where
  "take_share env table p reward c =
     bind_out (int_result (ch_exp c + reward)) (\<lambda>e.
       let c = c\<lparr>ch_exp := e\<rparr>; up = ch_level c < w_config env ''MaxLevel'' \<and> e \<ge> table (ch_level c + 1);
           b = AddChar (if up then 1 else 0) (AddInt (of_int reward) (AddShort (pid_short p) (PacketBuilder_new PACKET_PARTY PACKET_TARGET_GROUP)))
       in bind_out (if up then gain_level env c else Inr c) (\<lambda>c. Inr (send b c)))"

fun share_all :: "world_env \<Rightarrow> (int \<Rightarrow> int) \<Rightarrow> int \<Rightarrow> int \<Rightarrow> int \<Rightarrow> double \<Rightarrow> double \<Rightarrow> nat list \<Rightarrow> players \<Rightarrow> players outcome" where
  "share_all env table sharemode mapid e members sumlevel [] w = Inr w"
| "share_all env table sharemode mapid e members sumlevel (q # qs) w =
     bind_out (player w q) (\<lambda>c.
       if \<not> shares mapid c then share_all env table sharemode mapid e members sumlevel qs w
       else bind_out (exp_share sharemode e members sumlevel c) (\<lambda>reward.
         bind_out (take_share env table q reward c) (\<lambda>c. share_all env table sharemode mapid e members sumlevel qs (w(q \<mapsto> c)))))"

fun the_players :: "nat list \<Rightarrow> players \<Rightarrow> character list outcome" where
  "the_players [] w = Inr []"
| "the_players (q # qs) w = bind_out (player w q) (\<lambda>c. bind_out (the_players qs w) (\<lambda>cs. Inr (c # cs)))"

definition ShareEXP :: "world_env \<Rightarrow> (int \<Rightarrow> int) \<Rightarrow> nat \<Rightarrow> int \<Rightarrow> int \<Rightarrow> int \<Rightarrow> social \<Rightarrow> social outcome" where
  "ShareEXP env table k e sharemode mapid s =
     bind_out (the_party k s) (\<lambda>P. bind_out (the_players (pt_members P) (so_players s)) (\<lambda>cs.
       let here = filter (shares mapid) cs;
           sumlevel = foldl (\<lambda>d c. d_add d (d_of_int (share_level c))) (Fin 0) here;
           members = foldl (\<lambda>d c. d_add d (Fin 1)) (Fin 0) here
       in if d_eq members (Fin 0) \<or> d_eq sumlevel (Fin 0) then Inr s
          else try_so (share_all env table sharemode mapid e members sumlevel (pt_members P)) s))"

section \<open>The handlers\<close>

definition PARTY_REQUEST_JOIN :: int where "PARTY_REQUEST_JOIN = 0"
definition PARTY_REQUEST_INVITE :: int where "PARTY_REQUEST_INVITE = 1"

definition Party_Request :: "world_env \<Rightarrow> nat \<Rightarrow> PacketReader \<Rightarrow> social \<Rightarrow> social outcome" where
  "Party_Request env p reader s =
     bind_out (GetChar reader) (\<lambda>(type, reader). bind_out (GetShort reader) (\<lambda>(invitee_id, _).
     bind_out (player (so_players s) p) (\<lambda>c.
       let w = so_players s; asks = so_asks s in
       if uint type \<noteq> PARTY_REQUEST_JOIN \<and> uint type \<noteq> PARTY_REQUEST_INVITE then Inr s
       else case GetCharacterPID w (ch_mapid c) (unat invitee_id) of
         None \<Rightarrow> Inr s
       | Some q \<Rightarrow> bind_out (player w q) (\<lambda>d.
           if p = q \<or> \<not> InRange env c d then Inr s
           else
             (let b = AddString (source_name c) (AddShort (pid_short p) (AddChar type (PacketBuilder_new PACKET_PARTY PACKET_REQUEST)));
                  asks = asks(p := (asks p)\<lparr>ask_send := Some q, ask_type := uint type\<rparr>)
              in Inr (s\<lparr>so_players := send_to q b w, so_asks := asks(q := (asks q)\<lparr>ask_recv := Some p\<rparr>)\<rparr>))))))"

text \<open>The two branches of \<open>Party_Accept\<close>: \<open>q\<close> leaves its party and enters that of \<open>p\<close>, or a new one.\<close>

definition leave_party :: "nat \<Rightarrow> social \<Rightarrow> social outcome" where
  "leave_party q s =
     bind_out (player (so_players s) q) (\<lambda>d. case ch_party d of None \<Rightarrow> Inr s | Some k \<Rightarrow> Party_Leave k q s)"

definition enter_party :: "nat \<Rightarrow> nat \<Rightarrow> social \<Rightarrow> social outcome" where
  "enter_party p q s =
     bind_out (leave_party q s) (\<lambda>s. bind_out (player (so_players s) p) (\<lambda>c.
       case ch_party c of None \<Rightarrow> Party_new p q s | Some k \<Rightarrow> Party_Join k q s))"

definition accept_ask :: "nat \<Rightarrow> nat \<Rightarrow> social \<Rightarrow> social outcome" where
  "accept_ask p q s =
     (if ask_type (so_asks s q) = PARTY_REQUEST_JOIN then enter_party p q s
      else if ask_type (so_asks s q) = PARTY_REQUEST_INVITE then enter_party q p s
      else Inr s)"

definition forget_ask :: "nat \<Rightarrow> nat \<Rightarrow> social \<Rightarrow> social" where
  "forget_ask p q s =
     (let asks = (so_asks s)(p := (so_asks s p)\<lparr>ask_recv := None\<rparr>)
      in s\<lparr>so_asks := asks(q := (asks q)\<lparr>ask_send := None\<rparr>)\<rparr>)"

definition Party_Accept :: "world_env \<Rightarrow> nat \<Rightarrow> PacketReader \<Rightarrow> social \<Rightarrow> social outcome" where
  "Party_Accept env p reader s =
     bind_out (GetChar reader) (\<lambda>(_, reader). bind_out (GetShort reader) (\<lambda>(inviter_id, _).
     bind_out (player (so_players s) p) (\<lambda>c.
       case GetCharacterPID (so_players s) (ch_mapid c) (unat inviter_id) of
         None \<Rightarrow> Inr s
       | Some q \<Rightarrow> bind_out (player (so_players s) q) (\<lambda>d.
           if \<not> InRange env c d \<or> ask_send (so_asks s q) \<noteq> Some p \<or> ask_recv (so_asks s p) \<noteq> Some q then Inr s
           else bind_out (accept_ask p q s) (\<lambda>s. Inr (forget_ask p q s))))))"

text \<open>The handler named \<open>Packet_Remove\<close> in the code.\<close>

definition Party_Remove :: "nat \<Rightarrow> PacketReader \<Rightarrow> social \<Rightarrow> social outcome" where
  "Party_Remove p reader s =
     bind_out (player (so_players s) p) (\<lambda>c.
       case ch_party c of
         None \<Rightarrow> Inr s
       | Some k \<Rightarrow> bind_out (GetShort reader) (\<lambda>(i, _). bind_out (the_party k s) (\<lambda>P.
           if uint i = int p \<or> p = pt_leader P
           then (if so_players s (unat i) = None then Inr s else Party_Leave k (unat i) s)
           else Inr s)))"

definition Party_Take :: "nat \<Rightarrow> PacketReader \<Rightarrow> social \<Rightarrow> social outcome" where
  "Party_Take p reader s =
     bind_out (player (so_players s) p) (\<lambda>c.
       case ch_party c of None \<Rightarrow> Inr s | Some k \<Rightarrow> bind_out (the_party k s) (\<lambda>P. try_so (RefreshMembers P p False) s))"


section \<open>Members and parties point at each other\<close>

text \<open>The party every player points at, and that the two directions agree.\<close>

type_synonym pointers = "nat \<Rightarrow> nat option option"

definition pointers_of :: "players \<Rightarrow> pointers" where
  "pointers_of w = (\<lambda>p. map_option ch_party (w p))"

definition party_ok :: "pointers \<Rightarrow> nat \<Rightarrow> party \<Rightarrow> bool" where
  "party_ok f k P \<longleftrightarrow>
     distinct (pt_members P) \<and> 2 \<le> length (pt_members P) \<and> pt_leader P \<in> set (pt_members P) \<and>
     (\<forall>q \<in> set (pt_members P). f q = Some (Some k))"

definition paired :: "pointers \<Rightarrow> party option list \<Rightarrow> bool" where
  "paired f ps \<longleftrightarrow>
     (\<forall>p k. f p = Some (Some k) \<longrightarrow> k < length ps \<and> (\<exists>P. ps ! k = Some P \<and> p \<in> set (pt_members P))) \<and>
     (\<forall>k P. k < length ps \<longrightarrow> ps ! k = Some P \<longrightarrow> party_ok f k P)"

definition social_ok :: "social \<Rightarrow> bool" where
  "social_ok s \<longleftrightarrow> paired (pointers_of (so_players s)) (so_parties s)"

lemma pointers_of_simps:
  "pointers_of (alter p f w) = (if w p = None then pointers_of w else (pointers_of w)(p := Some (ch_party (f (the (w p))))))"
  "pointers_of (w(p \<mapsto> c)) = (pointers_of w)(p := Some (ch_party c))"
  "pointers_of (w(p := None)) = (pointers_of w)(p := None)"
  "pointers_of (send_to p b w) = pointers_of w"
  by (auto simp: pointers_of_def alter_def send_to_def send_def fun_eq_iff option.map_comp comp_def split: option.splits)

lemma pointers_of_Some: "w p = Some c \<Longrightarrow> pointers_of w p = Some (ch_party c)"
  by (simp add: pointers_of_def)

lemma pointers_of_None: "w p = None \<Longrightarrow> pointers_of w p = None"
  by (simp add: pointers_of_def)

lemma send_each_pointers: "send_each qs b w = Inr w' \<Longrightarrow> pointers_of w' = pointers_of w"
  by (induction qs arbitrary: w) (auto simp: bind_out_Inr_iff pointers_of_simps)

lemma RefreshMembers_pointers: "RefreshMembers P p create w = Inr w' \<Longrightarrow> pointers_of w' = pointers_of w"
  by (auto simp: RefreshMembers_def bind_out_Inr_iff pointers_of_simps)

lemma dismiss_pointers:
  "dismiss qs w = Inr w' \<Longrightarrow> pointers_of w' = (\<lambda>q. if q \<in> set qs then Some None else pointers_of w q)"
proof (induction qs arbitrary: w)
  case (Cons q qs)
  then obtain c where c: "w q = Some c"
    "dismiss qs (send_to q (AddByte 255 (PacketBuilder_new PACKET_PARTY PACKET_CLOSE)) (alter q (\<lambda>c. c\<lparr>ch_party := None\<rparr>) w)) = Inr w'"
    by (auto simp: bind_out_Inr_iff)
  show ?case using Cons.IH [OF c(2)] c(1) by (auto simp: pointers_of_simps fun_eq_iff)
qed auto

subsection \<open>The four changes of the pairing\<close>

lemma paired_pointer: "paired f ps \<Longrightarrow> f p = Some (Some k) \<Longrightarrow> k < length ps \<and> (\<exists>P. ps ! k = Some P \<and> p \<in> set (pt_members P))"
  by (auto simp: paired_def)

lemma paired_party: "paired f ps \<Longrightarrow> k < length ps \<Longrightarrow> ps ! k = Some P \<Longrightarrow> party_ok f k P"
  by (simp add: paired_def)

lemma party_member: "party_ok f k P \<Longrightarrow> q \<in> set (pt_members P) \<Longrightarrow> f q = Some (Some k)"
  by (simp add: party_ok_def)

lemma party_ok_cong: "party_ok f k P \<Longrightarrow> (\<And>q. q \<in> set (pt_members P) \<Longrightarrow> g q = f q) \<Longrightarrow> party_ok g k P"
  by (simp add: party_ok_def)

text \<open>A change of the party at \<open>k\<close> and of the pointers of those who are or were in it.\<close>

lemma paired_update:
  assumes "paired f ps" "k < length ps" and others: "\<And>q. g q \<noteq> f q \<Longrightarrow> f q = Some None \<or> f q = Some (Some k)"
    and new: "\<And>q. g q \<noteq> f q \<Longrightarrow> g q = Some None \<or> g q = Some (Some k)"
    and at_k: "\<And>q. g q = Some (Some k) \<Longrightarrow> \<exists>P. x = Some P \<and> q \<in> set (pt_members P)"
    and ok: "\<And>P. x = Some P \<Longrightarrow> party_ok g k P"
  shows "paired g (ps[k := x])"
  unfolding paired_def
proof (intro conjI allI impI)
  fix p j assume j: "g p = Some (Some j)"
  have old: "f p = Some (Some j)" if "j \<noteq> k" using new [of p] j that by fastforce
  then have "j < length ps" using paired_pointer [OF assms(1)] assms(2) by blast
  then show "j < length (ps[k := x])" by simp
  show "\<exists>P. ps[k := x] ! j = Some P \<and> p \<in> set (pt_members P)"
  proof (cases "j = k")
    case True
    then show ?thesis using at_k [of p] j assms(2) by simp
  next
    case False
    then show ?thesis using paired_pointer [OF assms(1) old] by simp
  qed
next
  fix j P assume j: "j < length (ps[k := x])" "ps[k := x] ! j = Some P"
  show "party_ok g j P"
  proof (cases "j = k")
    case True
    then show ?thesis using ok j assms(2) by simp
  next
    case False
    then have P: "party_ok f j P" using paired_party [OF assms(1)] j by simp
    moreover have "g q = f q" if "q \<in> set (pt_members P)" for q
      using party_member [OF P that] others [of q] False by fastforce
    ultimately show ?thesis by (rule party_ok_cong)
  qed
qed

lemma paired_new:
  assumes "paired f ps" "f p = Some None" "f q = Some None" "p \<noteq> q"
  shows "paired (f(p := Some (Some (length ps)), q := Some (Some (length ps)))) (ps @ [Some \<lparr>pt_leader = p, pt_members = [p, q], pt_expsum = 0\<rparr>])"
proof -
  let ?P = "\<lparr>pt_leader = p, pt_members = [p, q], pt_expsum = 0\<rparr>" and ?k = "length ps"
  let ?g = "f(p := Some (Some ?k), q := Some (Some ?k))"
  have all: "paired f (ps @ [None])"
    using assms(1) unfolding paired_def by (auto simp: nth_append less_Suc_eq)
  have "f r \<noteq> Some (Some ?k)" for r using paired_pointer [OF assms(1), of r ?k] by auto
  then have "paired ?g ((ps @ [None])[?k := Some ?P])"
    using assms by (intro paired_update [OF all]) (auto simp: party_ok_def split: if_splits)
  then show ?thesis by simp
qed

lemma paired_join:
  assumes "paired f ps" "k < length ps" "ps ! k = Some P" "f p = Some None"
  shows "paired (f(p := Some (Some k))) (ps[k := Some (P\<lparr>pt_members := pt_members P @ [p]\<rparr>)])"
proof -
  have P: "party_ok f k P" by (rule paired_party [OF assms(1-3)])
  have "p \<notin> set (pt_members P)" using party_member [OF P] assms(4) by auto
  then show ?thesis
    using paired_pointer [OF assms(1), of _ k] assms P
    by (intro paired_update [OF assms(1,2)]) (auto simp: party_ok_def split: if_splits)
qed

lemma paired_leave:
  assumes "paired f ps" "k < length ps" "ps ! k = Some P" "p \<in> set (pt_members P)" "2 < length (pt_members P)" "p \<noteq> pt_leader P"
  shows "paired (f(p := Some None)) (ps[k := Some (P\<lparr>pt_members := remove1 p (pt_members P)\<rparr>)])"
proof -
  have P: "party_ok f k P" by (rule paired_party [OF assms(1-3)])
  then show ?thesis
    using paired_pointer [OF assms(1), of _ k] assms P
    by (intro paired_update [OF assms(1,2)]) (auto simp: party_ok_def length_remove1 set_remove1_eq split: if_splits)
qed

lemma paired_delete:
  assumes "paired f ps" "k < length ps" "ps ! k = Some P"
  shows "paired (\<lambda>q. if q \<in> set (pt_members P) then Some None else f q) (ps[k := None])"
proof -
  have P: "party_ok f k P" by (rule paired_party [OF assms])
  show ?thesis
    using paired_pointer [OF assms(1), of _ k] assms party_member [OF P]
    by (intro paired_update [OF assms(1,2)]) (auto split: if_splits)
qed


subsection \<open>The operations keep it\<close>

definition asks_ok :: "(nat \<Rightarrow> party_ask) \<Rightarrow> bool" where
  "asks_ok asks \<longleftrightarrow> (\<forall>p. ask_send (asks p) \<noteq> Some p)"

lemma the_party_Inr: "the_party k s = Inr P \<longleftrightarrow> k < length (so_parties s) \<and> so_parties s ! k = Some P"
  by (auto simp: the_party_def split: option.split)

lemma try_so_Inr: "try_so f s = Inr s' \<longleftrightarrow> (\<exists>w. f (so_players s) = Inr w \<and> s' = s\<lparr>so_players := w\<rparr>)"
  by (auto simp: try_so_def bind_out_Inr_iff)

lemma Party_new_ok:
  assumes "Party_new p q s = Inr s'" "social_ok s" "p \<noteq> q"
    and "pointers_of (so_players s) p = Some None" "pointers_of (so_players s) q = Some None"
  shows "social_ok s' \<and> so_asks s' = so_asks s"
proof -
  let ?k = "length (so_parties s)"
  let ?enter = "\<lambda>c. c\<lparr>ch_party := Some ?k\<rparr>"
  obtain w c d where w: "s' = s\<lparr>so_players := w, so_parties := so_parties s @ [Some \<lparr>pt_leader = p, pt_members = [p, q], pt_expsum = 0\<rparr>]\<rparr>"
    "pointers_of w = pointers_of (alter q ?enter (alter p ?enter (so_players s)))" "so_players s p = Some c" "so_players s q = Some d"
    using assms(1) by (auto simp: Party_new_def Let_def bind_out_Inr_iff dest!: RefreshMembers_pointers)
  have "pointers_of w = (pointers_of (so_players s))(p := Some (Some ?k), q := Some (Some ?k))"
    using w assms(3) by (auto simp: pointers_of_simps fun_eq_iff)
  then show ?thesis
    using paired_new [OF assms(2) [unfolded social_ok_def] assms(4,5,3)] w(1) by (simp add: social_ok_def)
qed

lemma Party_Join_ok:
  assumes "Party_Join k p s = Inr s'" "social_ok s" "pointers_of (so_players s) p = Some None"
  shows "social_ok s' \<and> so_asks s' = so_asks s"
proof -
  obtain P w c where w: "k < length (so_parties s)" "so_parties s ! k = Some P" "so_players s p = Some c"
    "s' = s\<lparr>so_players := w, so_parties := (so_parties s)[k := Some (P\<lparr>pt_members := pt_members P @ [p]\<rparr>)]\<rparr>"
    "pointers_of w = pointers_of (alter p (\<lambda>c. c\<lparr>ch_party := Some k\<rparr>) (so_players s))"
    using assms(1) by (auto simp: Party_Join_def Let_def bind_out_Inr_iff the_party_Inr dest!: RefreshMembers_pointers send_each_pointers)
  then have "pointers_of w = (pointers_of (so_players s))(p := Some (Some k))" by (simp add: pointers_of_simps)
  then show ?thesis
    using paired_join [OF assms(2) [unfolded social_ok_def] w(1,2) assms(3)] w(4) by (simp add: social_ok_def)
qed

lemma Party_delete_ok:
  assumes "Party_delete k s = Inr s'" "social_ok s"
  shows "social_ok s' \<and> so_asks s' = so_asks s \<and>
    (\<forall>q. pointers_of (so_players s) q = Some (Some k) \<longrightarrow> pointers_of (so_players s') q = Some None) \<and>
    (\<forall>q. pointers_of (so_players s) q = Some None \<longrightarrow> pointers_of (so_players s') q = Some None)"
proof -
  obtain P w where w: "k < length (so_parties s)" "so_parties s ! k = Some P" "s' = s\<lparr>so_parties := (so_parties s)[k := None], so_players := w\<rparr>"
    "pointers_of w = (\<lambda>q. if q \<in> set (pt_members P) then Some None else pointers_of (so_players s) q)"
    using assms(1) by (auto simp: Party_delete_def bind_out_Inr_iff the_party_Inr try_so_Inr dest!: dismiss_pointers)
  then show ?thesis
    using paired_delete [OF assms(2) [unfolded social_ok_def] w(1,2)] paired_pointer [OF assms(2) [unfolded social_ok_def], of _ k]
    by (auto simp: social_ok_def)
qed

lemma Party_Leave_ok:
  assumes "Party_Leave k p s = Inr s'" "social_ok s" "pointers_of (so_players s) p = Some (Some k)"
  shows "social_ok s' \<and> so_asks s' = so_asks s \<and> pointers_of (so_players s') p = Some None \<and>
    (\<forall>q. pointers_of (so_players s) q = Some None \<longrightarrow> pointers_of (so_players s') q = Some None)"
proof -
  obtain P where P: "k < length (so_parties s)" "so_parties s ! k = Some P" "p \<in> set (pt_members P)"
    using paired_pointer [OF assms(2) [unfolded social_ok_def] assms(3)] by auto
  then have the: "the_party k s = Inr P" by (simp add: the_party_Inr)
  show ?thesis
  proof (cases "length (pt_members P) > 2 \<and> p \<noteq> pt_leader P")
    case True
    then obtain w where w: "s' = s\<lparr>so_players := w, so_parties := (so_parties s)[k := Some (P\<lparr>pt_members := remove1 p (pt_members P)\<rparr>)]\<rparr>"
      "pointers_of w = (pointers_of (so_players s))(p := Some None)"
      using assms(1) the by (auto simp: Party_Leave_def Let_def bind_out_Inr_iff pointers_of_simps dest!: send_each_pointers)
    then show ?thesis
      using paired_leave [OF assms(2) [unfolded social_ok_def] P] True by (simp add: social_ok_def)
  next
    case False
    then have "Party_delete k s = Inr s'" using assms(1) the unfolding Party_Leave_def bind_out_Inr_iff by auto
    then show ?thesis using Party_delete_ok [of k s s'] assms(2,3) by blast
  qed
qed

lemma leave_party_ok:
  assumes "leave_party q s = Inr s'" "social_ok s"
  shows "social_ok s' \<and> so_asks s' = so_asks s \<and> pointers_of (so_players s') q = Some None \<and>
    (\<forall>r. pointers_of (so_players s) r = Some None \<longrightarrow> pointers_of (so_players s') r = Some None)"
proof -
  obtain d where d: "so_players s q = Some d" using assms(1) by (auto simp: leave_party_def bind_out_Inr_iff)
  show ?thesis
    using assms d Party_Leave_ok [of _ q s s'] by (cases "ch_party d") (auto simp: leave_party_def bind_out_Inr_iff pointers_of_Some)
qed

lemma enter_party_ok:
  assumes "enter_party p q s = Inr s'" "social_ok s" "p \<noteq> q"
  shows "social_ok s' \<and> so_asks s' = so_asks s"
proof -
  obtain s1 c where s1: "leave_party q s = Inr s1" "so_players s1 p = Some c"
    "(case ch_party c of None \<Rightarrow> Party_new p q s1 | Some k \<Rightarrow> Party_Join k q s1) = Inr s'"
    using assms(1) by (auto simp: enter_party_def bind_out_Inr_iff)
  note out = leave_party_ok [OF s1(1) assms(2)]
  show ?thesis
    using s1 out Party_new_ok [of p q s1 s', OF _ _ assms(3)] Party_Join_ok [of _ q s1 s']
    by (cases "ch_party c") (auto simp: pointers_of_Some)
qed


lemma Party_Request_ok:
  assumes "Party_Request env p reader s = Inr s'"
  shows "pointers_of (so_players s') = pointers_of (so_players s) \<and> so_parties s' = so_parties s \<and>
    (asks_ok (so_asks s) \<longrightarrow> asks_ok (so_asks s'))"
  using assms unfolding Party_Request_def Let_def bind_out_Inr_iff
  by (auto simp: bind_out_Inr_iff pointers_of_simps asks_ok_def split: if_splits option.splits)

lemma Party_Accept_ok:
  assumes "Party_Accept env p reader s = Inr s'" "social_ok s" "asks_ok (so_asks s)"
  shows "social_ok s' \<and> asks_ok (so_asks s')"
proof -
  have "s' = s \<or> (\<exists>q t. ask_send (so_asks s q) = Some p \<and> accept_ask p q s = Inr t \<and> s' = forget_ask p q t)"
    using assms(1) unfolding Party_Accept_def bind_out_Inr_iff
    by (clarsimp simp: bind_out_Inr_iff split: option.splits if_splits) blast
  then consider "s' = s" | q t where "ask_send (so_asks s q) = Some p" "accept_ask p q s = Inr t" "s' = forget_ask p q t"
    by blast
  then show ?thesis
  proof cases
    case 2
    then have "p \<noteq> q" using assms(3) by (auto simp: asks_ok_def)
    then have "social_ok t \<and> so_asks t = so_asks s"
      using 2(2) enter_party_ok [of p q s t] enter_party_ok [of q p s t] assms(2) by (auto simp: accept_ask_def split: if_splits)
    then show ?thesis using 2(3) assms(3) by (simp add: forget_ask_def social_ok_def asks_ok_def Let_def)
  qed (use assms in simp)
qed

text \<open>Whom a \<open>Party_Remove\<close> of \<open>p\<close> removes; the code does not ask whether it is a member of the same party.\<close>

definition own_member :: "nat \<Rightarrow> PacketReader \<Rightarrow> social \<Rightarrow> bool" where
  "own_member p reader s \<longleftrightarrow>
     (\<forall>i r. GetShort reader = Inr (i, r) \<longrightarrow> so_players s (unat i) \<noteq> None \<longrightarrow>
        pointers_of (so_players s) (unat i) = pointers_of (so_players s) p)"

lemma Party_Remove_ok:
  assumes "Party_Remove p reader s = Inr s'" "social_ok s" "own_member p reader s"
  shows "social_ok s' \<and> so_asks s' = so_asks s"
proof -
  have "s' = s \<or> (\<exists>c k i r. so_players s p = Some c \<and> ch_party c = Some k \<and> GetShort reader = Inr (i, r) \<and>
      so_players s (unat i) \<noteq> None \<and> Party_Leave k (unat i) s = Inr s')"
    using assms(1) unfolding Party_Remove_def bind_out_Inr_iff
    by (auto split: option.splits if_splits simp: bind_out_Inr_iff)
  then show ?thesis
    using assms(2,3) Party_Leave_ok [of _ _ s s'] unfolding own_member_def by (auto simp: pointers_of_Some)
qed

section \<open>Sharing experience\<close>

definition keeps_party :: "world_env \<Rightarrow> bool" where
  "keeps_party env \<longleftrightarrow> (\<forall>c c'. w_rules env c = Inr c' \<longrightarrow> ch_party c' = ch_party c)"

lemma CalculateStats_party:
  assumes "keeps_party env" "CalculateStats env c = Inr c'"
  shows "ch_party c' = ch_party c"
proof -
  have cap: "ch_party (cap_health c) = ch_party c" for c by (simp add: cap_health_def send_def Let_def)
  have "ch_party c1 = ch_party c" if "update_stats env c = Inr c1" for c1
    using that unfolding update_stats_def Let_def by (auto simp: bind_out_Inr_iff cap)
  moreover have "UpdateHP c1 = Inr c2 \<Longrightarrow> ch_party c2 = ch_party c1" for c1 c2
    by (auto simp: UpdateHP_def bind_out_Inr_iff Let_def)
  ultimately show ?thesis
    using assms unfolding CalculateStats_def CalculateStats_with_def keeps_party_def CheckQuestRules_def bind_out_Inr_iff
    by (fastforce split: if_splits)
qed

lemma take_share_party: "keeps_party env \<Longrightarrow> take_share env table p r c = Inr c' \<Longrightarrow> ch_party c' = ch_party c"
  by (auto simp: take_share_def gain_level_def send_def bind_out_Inr_iff Let_def dest!: CalculateStats_party split: if_splits)

lemma share_all_pointers:
  "keeps_party env \<Longrightarrow> share_all env table sharemode mapid e members sumlevel qs w = Inr w' \<Longrightarrow> pointers_of w' = pointers_of w"
proof (induction qs arbitrary: w)
  case (Cons q qs)
  obtain c where c: "w q = Some c" using Cons.prems(2) by (auto simp: bind_out_Inr_iff)
  show ?case
  proof (cases "shares mapid c")
    case True
    then obtain r c1 where r: "take_share env table q r c = Inr c1"
      "share_all env table sharemode mapid e members sumlevel qs (w(q \<mapsto> c1)) = Inr w'"
      using Cons.prems(2) c by (auto simp: bind_out_Inr_iff)
    have same: "pointers_of (w(q \<mapsto> c1)) = pointers_of w"
      using take_share_party [OF Cons.prems(1) r(1)] pointers_of_Some [of w q c] c by (simp add: pointers_of_simps fun_upd_idem)
    show ?thesis by (rule trans [OF Cons.IH [OF Cons.prems(1) r(2)] same])
  next
    case False
    then show ?thesis using Cons c by (simp add: bind_out_Inr_iff)
  qed
qed simp

lemma ShareEXP_ok:
  assumes "keeps_party env" "ShareEXP env table k e sharemode mapid s = Inr s'"
  shows "pointers_of (so_players s') = pointers_of (so_players s) \<and> so_parties s' = so_parties s \<and> so_asks s' = so_asks s"
  using assms(2) unfolding ShareEXP_def bind_out_Inr_iff Let_def
  by (auto simp: try_so_Inr dest!: share_all_pointers [OF assms(1)] split: if_splits)


section \<open>The invariant\<close>

text \<open>
  What happens to the parties of a world: the handlers, experience that is shared, characters that log in and out
  (\<open>Character::Logout\<close> leaves the party before the character goes), and everything that changes no pointer to a party.
  A \<open>Party_Remove\<close> that removes somebody of another party is left out, as it breaks the invariant.
\<close>

inductive social_step :: "world_env \<Rightarrow> social \<Rightarrow> social \<Rightarrow> bool" for env where
  Requests: "Party_Request env p reader s = Inr s' \<Longrightarrow> social_step env s s'"
| Accepts: "Party_Accept env p reader s = Inr s' \<Longrightarrow> social_step env s s'"
| Removes: "Party_Remove p reader s = Inr s' \<Longrightarrow> own_member p reader s \<Longrightarrow> social_step env s s'"
| Lists: "Party_Take p reader s = Inr s' \<Longrightarrow> social_step env s s'"
| Shares: "keeps_party env \<Longrightarrow> ShareEXP env table k e sharemode mapid s = Inr s' \<Longrightarrow> social_step env s s'"
| Logs_out: "leave_party p s = Inr s' \<Longrightarrow> social_step env s (s'\<lparr>so_players := (so_players s')(p := None)\<rparr>)"
| Logs_in: "so_players s p = None \<Longrightarrow> ch_party c = None \<Longrightarrow>
    social_step env s (s\<lparr>so_players := (so_players s)(p \<mapsto> c), so_asks := (so_asks s)(p := \<lparr>ask_send = None, ask_recv = None, ask_type = 0\<rparr>)\<rparr>)"
| Acts: "\<forall>q. map_option ch_party (w q) = map_option ch_party (so_players s q) \<Longrightarrow> social_step env s (s\<lparr>so_players := w\<rparr>)"

inductive_cases social_step_cases: "social_step env s s'"

definition no_parties :: social where
  "no_parties = \<lparr>so_players = Map.empty, so_parties = [], so_asks = (\<lambda>_. \<lparr>ask_send = None, ask_recv = None, ask_type = 0\<rparr>)\<rparr>"

lemma paired_silent:
  assumes "paired f ps" "f p = None \<or> f p = Some None" "x = None \<or> x = Some None"
  shows "paired (f(p := x)) ps"
  unfolding paired_def
proof (intro conjI allI impI)
  fix q k assume "(f(p := x)) q = Some (Some k)"
  then have q: "f q = Some (Some k)" using assms(3) by (auto split: if_splits)
  show "k < length ps" "\<exists>P. ps ! k = Some P \<and> q \<in> set (pt_members P)"
    using paired_pointer [OF assms(1) q] by auto
next
  fix k P assume k: "k < length ps" "ps ! k = Some P"
  have P: "party_ok f k P" by (rule paired_party [OF assms(1) k])
  have "p \<notin> set (pt_members P)" using party_member [OF P] assms(2) by auto
  then show "party_ok (f(p := x)) k P" by (intro party_ok_cong [OF P]) auto
qed

lemma social_step_ok:
  assumes "social_step env s s'" "social_ok s" "asks_ok (so_asks s)"
  shows "social_ok s' \<and> asks_ok (so_asks s')"
  using assms
proof cases
  case (Requests p reader)
  then show ?thesis using Party_Request_ok [of env p reader s s'] assms by (simp add: social_ok_def)
next
  case (Accepts p reader)
  then show ?thesis using Party_Accept_ok [of env p reader s s'] assms by simp
next
  case (Removes p reader)
  then show ?thesis using Party_Remove_ok [of p reader s s'] assms by simp
next
  case (Lists p reader)
  then show ?thesis
    using assms by (auto simp: Party_Take_def bind_out_Inr_iff try_so_Inr social_ok_def dest!: RefreshMembers_pointers split: option.splits)
next
  case (Shares table k e sharemode mapid)
  then show ?thesis using ShareEXP_ok [of env table k e sharemode mapid s s'] assms by (simp add: social_ok_def)
next
  case (Logs_out p t)
  then show ?thesis
    using leave_party_ok [of p s t] assms paired_silent [of "pointers_of (so_players t)" "so_parties t" p None]
    by (auto simp: social_ok_def pointers_of_simps)
next
  case (Logs_in p c)
  then show ?thesis
    using assms paired_silent [of "pointers_of (so_players s)" "so_parties s" p "Some None"]
      pointers_of_None [of "so_players s" p]
    by (simp add: social_ok_def pointers_of_simps asks_ok_def)
next
  case (Acts w)
  then show ?thesis using assms by (simp add: social_ok_def pointers_of_def)
qed

lemma social_reachable:
  "(social_step env)\<^sup>*\<^sup>* no_parties s \<Longrightarrow> social_ok s \<and> asks_ok (so_asks s)"
proof (induction rule: rtranclp_induct)
  case base
  then show ?case by (simp add: no_parties_def social_ok_def paired_def pointers_of_def asks_ok_def)
next
  case (step s s')
  then show ?case using social_step_ok by blast
qed



text \<open>Two characters log in; the second asks to join, and the first accepts.\<close>

definition small_party :: social where
  "small_party = no_parties\<lparr>so_players := [1 \<mapsto> sample_character, 2 \<mapsto> sample_character\<lparr>ch_pid := 2, ch_name := ''bob''\<rparr>]\<rparr>"

lemma small_party_reached: "(social_step env)\<^sup>*\<^sup>* no_parties small_party"
proof -
  let ?s = "no_parties\<lparr>so_players := [1 \<mapsto> sample_character]\<rparr>"
  have p: "ch_party sample_character = None" "ch_party (sample_character\<lparr>ch_pid := 2, ch_name := ''bob''\<rparr>) = None"
    by (simp_all add: sample_character_def)
  have same: "(so_asks no_parties)(q := \<lparr>ask_send = None, ask_recv = None, ask_type = 0\<rparr>) = so_asks no_parties" for q
    by (simp add: no_parties_def fun_eq_iff)
  have "social_step env no_parties ?s"
    using Logs_in [of no_parties 1, OF _ p(1), of env] unfolding same by (simp add: no_parties_def)
  moreover have "social_step env ?s small_party"
    using Logs_in [of ?s 2, OF _ p(2), of env] same [of 2] by (simp add: small_party_def)
  ultimately show ?thesis by (meson r_into_rtranclp rtranclp.rtrancl_into_rtrancl)
qed


text \<open>
  Without the condition the invariant breaks: the leader of a party of three removes a member of another party, who
  then points at no party but is still listed by its own.
\<close>

lemma remove_takes_strangers:
  "\<exists>s reader s'. social_ok s \<and> Party_Remove 1 reader s = Inr s' \<and> \<not> social_ok s'"
proof -
  let ?w = "\<lambda>p. if p \<in> {1, 2, 3} then Some (sample_character\<lparr>ch_pid := p, ch_party := Some 0\<rparr>)
    else if p \<in> {4, 5} then Some (sample_character\<lparr>ch_pid := p, ch_party := Some 1\<rparr>) else None"
  let ?s = "\<lparr>so_players = ?w, so_parties = [Some \<lparr>pt_leader = 1, pt_members = [1, 2, 3], pt_expsum = 0\<rparr>,
      Some \<lparr>pt_leader = 4, pt_members = [4, 5], pt_expsum = 0\<rparr>], so_asks = (\<lambda>_. \<lparr>ask_send = None, ask_recv = None, ask_type = 0\<rparr>)\<rparr>"
  have ok: "social_ok ?s"
    unfolding social_ok_def paired_def party_ok_def pointers_of_def by (auto simp: less_Suc_eq split: if_splits)
  have "map_sum id (\<lambda>s. (map_option ch_party (so_players s 4), so_parties s)) (Party_Remove 1 (PacketReader_new [0, 0, 5, 254]) ?s) =
      Inr (Some None, so_parties ?s)"
    by code_simp
  then obtain s' where s': "Party_Remove 1 (PacketReader_new [0, 0, 5, 254]) ?s = Inr s'"
    "map_option ch_party (so_players s' 4) = Some None" "so_parties s' = so_parties ?s"
    by (cases "Party_Remove 1 (PacketReader_new [0, 0, 5, 254]) ?s") auto
  have "\<not> social_ok s'"
  proof
    assume bad: "social_ok s'"
    have "party_ok (pointers_of (so_players s')) 1 \<lparr>pt_leader = 4, pt_members = [4, 5], pt_expsum = 0\<rparr>"
      by (rule paired_party [OF bad [unfolded social_ok_def]]) (simp_all add: s'(3))
    then show False using s'(2) by (auto simp: party_ok_def pointers_of_def)
  qed
  then show ?thesis using ok s'(1) by blast
qed

end
