(* ===== verification/World_State.thy ===== *)
theory World_State
  imports Floor Npc_Data Party
begin

text \<open>
  The state of the game: the maps of the world with who stands on them, the characters, their parties and the
  arenas; and the operations of \<open>map.cpp\<close>, \<open>character.cpp\<close> and \<open>arena.cpp\<close> that put a character somewhere:
  entering, leaving, warping, dying, refreshing. The main property is that an arena counts the characters in it.
\<close>

section \<open>The state\<close>

text \<open>
  An NPC (\<open>np_key\<close> stands for its address, \<open>np_parent\<close> is the key of its parent, \<open>op_attacker\<close> a player id), an
  arena with the places to stand on and to be sent to, an area of the world, and the game: all areas in the order of
  their ids, the players, their parties, and for each player its arena with the kills in it, the NPCs that list it as
  an attacker, the name of its home and the packets its client has queued for itself; \<open>gm_rolls\<close> counts the random
  numbers drawn.
\<close>

record npc_opponent =
  op_attacker :: nat
  op_damage :: int
  op_last_hit :: double

record npc =
  np_key :: nat
  np_index :: int
  np_id :: int
  np_x :: int
  np_y :: int
  np_direction :: int
  np_alive :: bool
  np_temporary :: bool
  np_parent :: "nat option"
  np_attack :: bool
  np_hp :: int
  np_totaldamage :: int
  np_damagelist :: "npc_opponent list"
  np_spawn_type :: int
  np_spawn_time :: int
  np_spawn_x :: int
  np_spawn_y :: int
  np_act_speed :: double
  np_walk_idle_for :: int
  np_dead_since :: double
  np_last_act :: double
  np_last_talk :: double

record arena =
  an_spawns :: "(int \<times> int \<times> int \<times> int) list"
  an_block :: int
  an_occupants :: int

record area =
  ar_map :: map_data
  ar_who :: "nat list"
  ar_npcs :: "npc list"
  ar_arena :: "arena option"
  ar_quake :: "int \<times> int"
  ar_evacuate :: bool

record fighter =
  ft_arena :: "nat option"
  ft_next :: "nat option"
  ft_kills :: int

datatype internal_action = Internal_null | Internal_warp

record game =
  gm_areas :: "area list"
  gm_players :: players
  gm_parties :: "party option list"
  gm_asks :: "nat \<Rightarrow> party_ask"
  gm_fighters :: "nat \<Rightarrow> fighter"
  gm_registered :: "nat \<Rightarrow> (nat \<times> nat) list"
  gm_home :: "nat \<Rightarrow> string"
  gm_delayed :: "nat \<Rightarrow> (internal_action \<times> double) list"
  gm_rolls :: nat
  gm_timestamps :: "nat \<Rightarrow> int"

record home =
  hm_id :: string
  hm_map :: int
  hm_x :: int
  hm_y :: int
  hm_level :: int
  hm_race :: int

text \<open>
  What the game depends on besides \<open>world_env\<close>: other configuration values, texts, the time, the random numbers, and
  what the quests of a character do when it has killed an NPC or a player or has used a spell.
\<close>

record game_env =
  g_env :: world_env
  g_real :: "string \<Rightarrow> double"
  g_text :: "string \<Rightarrow> string"
  g_i18n :: "string \<Rightarrow> string"
  g_access :: "nat \<Rightarrow> int"
  g_npc_data :: "int \<Rightarrow> npc_data"
  g_enf :: "enf_data pub"
  g_exp_table :: "int \<Rightarrow> int"
  g_instruments :: "int list"
  g_now :: double
  g_homes :: "home list"
  g_roll :: "nat \<Rightarrow> u32 \<times> u32"
  g_speeds :: "double list"
  g_killed_npc :: "int \<Rightarrow> character \<Rightarrow> character outcome"
  g_killed_player :: "character \<Rightarrow> character outcome"
  g_used_spell :: "int \<Rightarrow> character \<Rightarrow> character outcome"

definition g_config :: "game_env \<Rightarrow> string \<Rightarrow> int" where
  "g_config g = w_config (g_env g)"

text \<open>\<open>World::GetMap\<close> falls back to the first map; the position in the list of maps.\<close>

definition GetMap :: "int \<Rightarrow> game \<Rightarrow> nat outcome" where
  "GetMap i gm =
     (if 1 \<le> i \<and> i \<le> int (length (gm_areas gm)) then Inr (nat (i - 1))
      else if gm_areas gm \<noteq> [] then Inr 0
      else Inl (Runtime_Error ''fallback map''))"

text \<open>The area a character is on, \<open>character->map\<close>: wherever it is set, it is set to the map of \<open>mapid\<close>.\<close>

definition area_of :: "nat \<Rightarrow> game \<Rightarrow> (nat \<times> area) outcome" where
  "area_of p gm =
     bind_out (player (gm_players gm) p) (\<lambda>c. bind_out (GetMap (ch_mapid c) gm) (\<lambda>k. Inr (k, gm_areas gm ! k)))"

definition with_players :: "(players \<Rightarrow> players) \<Rightarrow> game \<Rightarrow> game" where
  "with_players f gm = gm\<lparr>gm_players := f (gm_players gm)\<rparr>"

definition try_players :: "(players \<Rightarrow> players outcome) \<Rightarrow> game \<Rightarrow> game outcome" where
  "try_players f gm = bind_out (f (gm_players gm)) (\<lambda>w. Inr (gm\<lparr>gm_players := w\<rparr>))"

definition with_area :: "nat \<Rightarrow> (area \<Rightarrow> area) \<Rightarrow> game \<Rightarrow> game" where
  "with_area k f gm = gm\<lparr>gm_areas := (gm_areas gm)[k := f (gm_areas gm ! k)]\<rparr>"

text \<open>A packet to those of a list of characters that satisfy a condition.\<close>

definition send_in :: "nat list \<Rightarrow> (nat \<Rightarrow> character \<Rightarrow> bool) \<Rightarrow> PacketBuilder \<Rightarrow> players \<Rightarrow> players" where
  "send_in who to b w = (\<lambda>q. if q \<in> set who then map_option (\<lambda>d. if to q d then send b d else d) (w q) else w q)"

text \<open>\<open>PKExcept\<close>: the list of the configuration; the search for the first comma starts at the second character.\<close>

function except_ids :: "string \<Rightarrow> nat \<Rightarrow> int \<Rightarrow> int list outcome" where
  "except_ids s p lastp =
     (case find_from (\<lambda>c. c = CHR '','') (p + 1) s of
        None \<Rightarrow> Inr []
      | Some q \<Rightarrow>
          bind_out (to_int (take (q - nat (lastp + 1)) (drop (nat (lastp + 1)) s))) (\<lambda>i.
          bind_out (except_ids s q (int q)) (\<lambda>is. Inr (i # is))))"
  by pat_completeness auto
termination
proof (relation "measure (\<lambda>(s, p, _). length s - p)", goal_cases)
  case (2 s p lastp q x)
  then show ?case using find_from_Some [of "\<lambda>c. c = CHR '',''" "p + 1" s q] by auto
qed simp

declare except_ids.simps [simp del, loop_simps]

definition PKExceptUnserialize :: "string \<Rightarrow> int list outcome" where
  "PKExceptUnserialize s = except_ids (if s \<noteq> [] \<and> last s \<noteq> CHR '','' then s @ '','' else s) 0 (- 1)"

definition PKExcept :: "game_env \<Rightarrow> int \<Rightarrow> game \<Rightarrow> bool outcome" where
  "PKExcept g mapid gm =
     (if mapid = g_config g ''JailMap'' then Inr True
      else bind_out (GetMap mapid gm) (\<lambda>k.
        if ar_arena (gm_areas gm ! k) \<noteq> None then Inr True
        else bind_out (PKExceptUnserialize (g_text g ''PKExcept'')) (\<lambda>is. Inr (mapid \<in> set is))))"

section \<open>How a character looks\<close>

definition IsHideInvisible :: "character \<Rightarrow> bool" where
  "IsHideInvisible c \<longleftrightarrow> ch_hidden c AND 1 \<noteq> 0"

definition PaddedGuildTag :: "world_env \<Rightarrow> character \<Rightarrow> string" where
  "PaddedGuildTag env c =
     (let tag = (if enabled env ''ShowLevel''
                 then (let t = to_string_int (ch_level c) in if length t < 3 then CHR ''L'' # t else t)
                 else (case ch_guild c of None \<Rightarrow> [] | Some t \<Rightarrow> t))
      in tag @ replicate (3 - length tag) (CHR '' ''))"

text \<open>The graphic of a place of the paperdoll: the cosmetic one, if there is one, and 65535 for nothing.\<close>

definition doll_shown :: "int \<Rightarrow> character \<Rightarrow> nat \<Rightarrow> int" where
  "doll_shown gfx c slot =
     (let gfx = (if cosmetic_paperdoll c ! slot \<noteq> 0 then to_ushort (cosmetic_paperdoll c ! slot) else to_ushort gfx)
      in if gfx = 65535 then 0 else gfx)"

definition AddPaperdollData :: "world_env \<Rightarrow> character \<Rightarrow> string \<Rightarrow> PacketBuilder \<Rightarrow> PacketBuilder outcome" where
  "AddPaperdollData env c format b =
     bind_out (item_data env (paperdoll c ! Weapon)) (\<lambda>wep.
     bind_out (item_data env (paperdoll c ! Boots)) (\<lambda>boots.
     bind_out (item_data env (paperdoll c ! Armor)) (\<lambda>armor.
     bind_out (item_data env (paperdoll c ! Hat)) (\<lambda>hat.
     bind_out (item_data env (paperdoll c ! Shield)) (\<lambda>shield.
       let sh = (if i_subtype wep = EIF_TwoHanded \<and> i_dual wep \<noteq> 0 then i_dual wep else i_param shield);
           part = (\<lambda>p. if p = CHR ''B'' then [doll_shown (i_param boots) c Boots]
                       else if p = CHR ''A'' then [doll_shown (i_param armor) c Armor]
                       else if p = CHR ''H'' then [doll_shown (i_param hat) c Hat]
                       else if p = CHR ''W'' then [doll_shown (i_param wep) c Weapon]
                       else if p = CHR ''S'' then [doll_shown sh c Shield]
                       else if p = CHR ''0'' then [0] else [])
       in Inr (foldl (\<lambda>b n. AddShort (of_int n) b) b (concat (map part format))))))))"

text \<open>The part of a packet that describes a character, the same in \<open>Enter\<close>, \<open>Walk\<close> and \<open>Refresh\<close>.\<close>

definition add_looks :: "world_env \<Rightarrow> nat \<Rightarrow> character \<Rightarrow> PacketBuilder \<Rightarrow> PacketBuilder outcome" where
  "add_looks env p c b =
     (let b = AddBreakString (bytes_of (ch_name c)) 0xFF b;
          b = AddShort (of_int (ch_y c)) (AddShort (of_int (ch_x c)) (AddShort (of_int (ch_mapid c)) (AddShort (of_nat p) b)));
          b = AddString (bytes_of (PaddedGuildTag env c)) (AddChar 6 (AddChar (of_int (ch_direction c)) b));
          b = AddChar (of_int (ch_hairstyle c)) (AddChar (of_int (ch_gender c)) (AddChar (of_int (ch_level c)) b));
          b = AddChar (of_int (ch_race c)) (AddChar (of_int (ch_haircolor c)) b);
          b = AddShort (of_int (ch_hp c)) (AddShort (of_int (d_maxhp (stats c))) b);
          b = AddShort (of_int (ch_tp c)) (AddShort (of_int (d_maxtp (stats c))) b)
      in bind_out (AddPaperdollData env c ''B000A0HSW'' b) (\<lambda>b.
         Inr (AddChar (if IsHideInvisible c then 1 else 0) (AddChar (of_int (ch_sitting c)) b))))"

definition appear_packet :: "world_env \<Rightarrow> nat \<Rightarrow> character \<Rightarrow> PacketBuilder outcome" where
  "appear_packet env p c =
     bind_out (add_looks env p c (AddByte 255 (PacketBuilder_new PACKET_PLAYERS PACKET_AGREE))) (\<lambda>b. Inr (AddChar 1 (AddByte 255 b)))"

definition enter_packet :: "world_env \<Rightarrow> int \<Rightarrow> nat \<Rightarrow> character \<Rightarrow> PacketBuilder outcome" where
  "enter_packet env animation p c =
     bind_out (add_looks env p c (AddByte 255 (PacketBuilder_new PACKET_PLAYERS PACKET_AGREE))) (\<lambda>b.
       Inr (AddChar 1 (AddByte 255 (AddChar (of_int animation) b))))"

definition remove_packet :: "nat \<Rightarrow> PacketBuilder" where
  "remove_packet p = AddShort (of_nat p) (PacketBuilder_new PACKET_AVATAR PACKET_REMOVE)"

section \<open>Entering and leaving\<close>

definition Enter :: "game_env \<Rightarrow> nat \<Rightarrow> int \<Rightarrow> nat \<Rightarrow> game \<Rightarrow> game outcome" where
  "Enter g p animation k gm =
     (let gm = with_area k (\<lambda>a. a\<lparr>ar_who := ar_who a @ [p]\<rparr>) gm;
          gm = with_players (alter p (\<lambda>c. CancelSpell (c\<lparr>ch_last_walk := g_now g, ch_attacks := 0\<rparr>))) gm in
      bind_out (player (gm_players gm) p) (\<lambda>c.
      bind_out (enter_packet (g_env g) animation p c) (\<lambda>b.
        try_players (rules_on (g_env g) p)
          (with_players (send_in (ar_who (gm_areas gm ! k)) (\<lambda>q d. q \<noteq> p \<and> InRange (g_env g) c d) b) gm))))"

definition leave_packet :: "int \<Rightarrow> nat \<Rightarrow> PacketBuilder" where
  "leave_packet animation p = (if animation \<noteq> 0 then AddChar (of_int animation) (remove_packet p) else remove_packet p)"

text \<open>The request of a wedding that \<open>Leave\<close> also cancels is not modelled.\<close>

definition Leave :: "game_env \<Rightarrow> nat \<Rightarrow> int \<Rightarrow> bool \<Rightarrow> nat \<Rightarrow> game \<Rightarrow> game outcome" where
  "Leave g p animation silent k gm =
     bind_out (player (gm_players gm) p) (\<lambda>c.
       let gm = (if silent then gm
                 else with_players (send_in (ar_who (gm_areas gm ! k)) (\<lambda>q d. q \<noteq> p \<and> InRange (g_env g) c d) (leave_packet animation p)) gm)
       in Inr (with_area k (\<lambda>a. a\<lparr>ar_who := removeAll p (ar_who a)\<rparr>) gm))"

section \<open>Warping\<close>

definition warp_packet :: "game_env \<Rightarrow> int \<Rightarrow> int \<Rightarrow> int \<Rightarrow> character \<Rightarrow> game \<Rightarrow> PacketBuilder outcome" where
  "warp_packet g mapid x y c gm =
     (let b = PacketBuilder_new PACKET_WARP PACKET_REQUEST in
      if ch_mapid c = mapid \<and> \<not> ch_nowhere c
      then Inr (AddChar (of_int y) (AddChar (of_int x) (AddShort (of_int mapid) (AddChar 1 b))))
      else
        let m = ar_map (gm_areas gm ! nat (mapid - 1)); b = AddShort (of_int mapid) (AddChar 2 b) in
        bind_out (if g_config g ''GlobalPK'' \<noteq> 0 then bind_out (PKExcept g mapid gm) (\<lambda>x. Inr (\<not> x)) else Inr False) (\<lambda>pk.
          let b = (if pk then AddByte 1 (AddByte 0xFF b) else AddByte (m_rid m ! 1) (AddByte (m_rid m ! 0) b))
          in Inr (AddChar 0 (AddChar 0 (AddThree (of_int (m_filesize m)) (AddByte (m_rid m ! 3) (AddByte (m_rid m ! 2) b)))))))"

text \<open>A trade is ended on both sides; the agreement of the partner is left as it was.\<close>

definition trade_close_packet :: "nat \<Rightarrow> PacketBuilder" where
  "trade_close_packet p = AddShort (of_nat p) (PacketBuilder_new PACKET_TRADE PACKET_CLOSE)"

definition end_trade :: "game_env \<Rightarrow> nat \<Rightarrow> players \<Rightarrow> players outcome" where
  "end_trade g p w =
     bind_out (player w p) (\<lambda>c.
       if \<not> trading c then Inr w
       else case trade_partner c of
         None \<Rightarrow> Inl Null_Dereference
       | Some q \<Rightarrow>
           bind_out (player w q) (\<lambda>_.
             let w = alter q (\<lambda>d. (send (trade_close_packet p) d)\<lparr>trading := False, trade_inventory := []\<rparr>) w;
                 w = alter p (\<lambda>c. c\<lparr>trading := False, trade_inventory := [], trade_agree := False\<rparr>) w in
             bind_out (rules_on (g_env g) p w) (\<lambda>w.
             bind_out (rules_on (g_env g) q w) (\<lambda>w.
               Inr (alter p (\<lambda>c. c\<lparr>trade_partner := None\<rparr>) (alter q (\<lambda>d. d\<lparr>trade_partner := None\<rparr>) w))))))"

definition arrive :: "int \<Rightarrow> int \<Rightarrow> int \<Rightarrow> character \<Rightarrow> character" where
  "arrive mapid x y c =
     c\<lparr>ch_mapid := mapid, ch_x := x, ch_y := y, ch_sitting := 0, ch_npc := None, ch_npc_type := 0, ch_board := None,
       ch_jukebox_open := False, ch_guild_join := [], ch_guild_invite := []\<rparr>"

text \<open>At the end of a warp the character leaves its arena, and enters the one it is sent to.\<close>

definition count_arena :: "nat \<Rightarrow> int \<Rightarrow> game \<Rightarrow> game" where
  "count_arena k d = with_area k (\<lambda>a. a\<lparr>ar_arena := map_option (\<lambda>r. r\<lparr>an_occupants := an_occupants r + d\<rparr>) (ar_arena a)\<rparr>)"

definition with_fighter :: "nat \<Rightarrow> (fighter \<Rightarrow> fighter) \<Rightarrow> game \<Rightarrow> game" where
  "with_fighter p f gm = gm\<lparr>gm_fighters := (gm_fighters gm)(p := f (gm_fighters gm p))\<rparr>"

definition leave_arena :: "nat \<Rightarrow> game \<Rightarrow> game" where
  "leave_arena p gm =
     (case ft_arena (gm_fighters gm p) of
        None \<Rightarrow> gm
      | Some k \<Rightarrow> with_fighter p (\<lambda>f. f\<lparr>ft_arena := None\<rparr>) (count_arena k (- 1) gm))"

definition enter_arena :: "nat \<Rightarrow> game \<Rightarrow> game" where
  "enter_arena p gm =
     (case ft_next (gm_fighters gm p) of
        None \<Rightarrow> gm
      | Some k \<Rightarrow> count_arena k 1 (with_fighter p (\<lambda>f. f\<lparr>ft_arena := Some k, ft_next := None\<rparr>) gm))"

text \<open>\<open>inside\<close> tells whether the character is on a map, which is left then.\<close>

definition Warp_from :: "bool \<Rightarrow> game_env \<Rightarrow> nat \<Rightarrow> int \<Rightarrow> int \<Rightarrow> int \<Rightarrow> int \<Rightarrow> game \<Rightarrow> game outcome" where
  "Warp_from inside g p mapid x y animation gm =
     bind_out (player (gm_players gm) p) (\<lambda>c.
       if mapid \<le> 0 \<or> mapid > int (length (gm_areas gm)) \<or> \<not> m_exists (ar_map (gm_areas gm ! nat (mapid - 1))) then Inr gm
       else
         bind_out (warp_packet g mapid x y c gm) (\<lambda>b.
         bind_out (area_of p gm) (\<lambda>(k, a).
         bind_out (if inside \<and> m_exists (ar_map a) then Leave g p animation False k gm else Inr gm) (\<lambda>gm.
         bind_out (try_players (end_trade g p) (with_players (alter p (arrive mapid x y)) gm)) (\<lambda>gm.
         bind_out (Enter g p animation (nat (mapid - 1))
             (with_players (alter p (\<lambda>c. c\<lparr>ch_warp_anim := animation, ch_nowhere := False\<rparr>)) gm)) (\<lambda>gm.
           Inr (enter_arena p (leave_arena p (with_players (send_to p b) gm)))))))))"

definition Warp :: "game_env \<Rightarrow> nat \<Rightarrow> int \<Rightarrow> int \<Rightarrow> int \<Rightarrow> int \<Rightarrow> game \<Rightarrow> game outcome" where
  "Warp = Warp_from True"

section \<open>Refreshing\<close>

definition add_npc_looks :: "npc \<Rightarrow> PacketBuilder \<Rightarrow> PacketBuilder" where
  "add_npc_looks n b =
     AddChar (of_int (np_direction n)) (AddChar (of_int (np_y n)) (AddChar (of_int (np_x n)) (AddShort (of_int (np_id n))
       (AddChar (of_int (np_index n)) b))))"

definition add_item_looks :: "map_item \<Rightarrow> PacketBuilder \<Rightarrow> PacketBuilder" where
  "add_item_looks it b =
     AddThree (of_int (mi_amount it)) (AddChar (of_int (mi_y it)) (AddChar (of_int (mi_x it)) (AddShort (of_int (mi_id it))
       (AddShort (of_int (mi_uid it)) b))))"

definition sees_npc :: "world_env \<Rightarrow> npc \<Rightarrow> character \<Rightarrow> bool" where
  "sees_npc env n c \<longleftrightarrow> \<not> ch_nowhere c \<and> InRange_at env c (np_x n) (np_y n)"

fun add_all_looks :: "world_env \<Rightarrow> players \<Rightarrow> nat list \<Rightarrow> PacketBuilder \<Rightarrow> PacketBuilder outcome" where
  "add_all_looks env w [] b = Inr b"
| "add_all_looks env w (q # qs) b =
     bind_out (player w q) (\<lambda>d. bind_out (add_looks env q d b) (\<lambda>b. add_all_looks env w qs (AddByte 255 b)))"

definition Refresh :: "game_env \<Rightarrow> nat \<Rightarrow> game \<Rightarrow> game outcome" where
  "Refresh g p gm =
     bind_out (player (gm_players gm) p) (\<lambda>c. bind_out (area_of p gm) (\<lambda>(k, a).
       let w = gm_players gm;
           qs = filter (\<lambda>q. case w q of None \<Rightarrow> False | Some d \<Rightarrow> InRange (g_env g) c d) (ar_who a);
           ns = filter (\<lambda>n. sees_npc (g_env g) n c \<and> np_alive n) (ar_npcs a);
           its = filter (\<lambda>it. sees_item (g_env g) it c) (m_items (ar_map a));
           b = AddByte 255 (AddChar (of_nat (length qs)) (PacketBuilder_new PACKET_REFRESH PACKET_REPLY)) in
       bind_out (add_all_looks (g_env g) w qs b) (\<lambda>b.
         let b = AddByte 255 (foldl (\<lambda>b n. add_npc_looks n b) b ns)
         in Inr (with_players (send_to p (foldl (\<lambda>b it. add_item_looks it b) b its)) gm))))"

section \<open>Dying\<close>

text \<open>\<open>World::GetHome\<close>, and \<open>SpawnMap\<close>, \<open>SpawnX\<close>, \<open>SpawnY\<close> of a character.\<close>

definition null_home :: home where
  "null_home = \<lparr>hm_id = [], hm_map = 1, hm_x = 0, hm_y = 0, hm_level = -1, hm_race = -1\<rparr>"

fun best_home :: "character \<Rightarrow> home list \<Rightarrow> int \<Rightarrow> home option \<Rightarrow> home option" where
  "best_home c [] level best = best"
| "best_home c (h # hs) level best =
     (if hm_level h \<le> ch_level c \<and> hm_level h > level \<and> (hm_race h < 0 \<or> hm_race h = ch_race c)
      then best_home c hs (hm_level h) (Some h) else best_home c hs level best)"

definition GetHome :: "home list \<Rightarrow> string \<Rightarrow> character \<Rightarrow> home" where
  "GetHome homes name c =
     (case find (\<lambda>h. hm_id h = name) homes of
        Some h \<Rightarrow> h
      | None \<Rightarrow> (case best_home c homes (- 2) None of Some h \<Rightarrow> h | None \<Rightarrow> null_home))"

definition home_of :: "game_env \<Rightarrow> nat \<Rightarrow> character \<Rightarrow> game \<Rightarrow> home" where
  "home_of g p c gm = GetHome (g_homes g) (gm_home gm p) c"

text \<open>\<open>DropAll\<close>: first what is carried, but for lore items, then what is worn, but for lore and cursed items.\<close>

definition fall_packet :: "character \<Rightarrow> int \<Rightarrow> int \<Rightarrow> map_item \<Rightarrow> PacketBuilder" where
  "fall_packet c i amount it =
     AddChar (of_int (d_maxweight (stats c))) (AddChar (of_int (d_weight (stats c))) (AddChar (of_int (ch_y c)) (AddChar (of_int (ch_x c))
       (AddShort (of_int (mi_uid it)) (AddInt 0 (AddThree (of_int amount) (AddShort (of_int i) (PacketBuilder_new PACKET_ITEM PACKET_DROP))))))))"

definition fall :: "world_env \<Rightarrow> nat \<Rightarrow> double \<Rightarrow> int \<Rightarrow> int \<Rightarrow> character \<Rightarrow> map_data \<times> players \<Rightarrow> map_item \<times> map_data \<times> players" where
  "fall env owner until i amount c s =
     (let n = length (m_items (fst s)); (it, m, w) = map_AddItem env i amount (ch_x c) (ch_y c) None s
      in (it, m\<lparr>m_items := own_dropped owner until n (m_items m)\<rparr>, w))"

fun drop_carried :: "world_env \<Rightarrow> nat \<Rightarrow> double \<Rightarrow> nat \<Rightarrow> item list \<Rightarrow> map_data \<times> players \<Rightarrow> (map_data \<times> players) outcome" where
  "drop_carried env owner until p [] s = Inr s"
| "drop_carried env owner until p (t # ts) s =
     bind_out (item_data env (item_id t)) (\<lambda>d. bind_out (player (snd s) p) (\<lambda>c.
       if i_special d = EIF_Lore then drop_carried env owner until p ts s
       else
         (let (it, m, w) = fall env owner until (item_id t) (item_amount t) c s
          in drop_carried env owner until p ts
               (m, alter p (\<lambda>c. (send (fall_packet c (item_id t) (item_amount t) it) c)\<lparr>inventory := remove1 t (inventory c)\<rparr>) w))))"

definition undressed_packet :: "world_env \<Rightarrow> nat \<Rightarrow> int \<Rightarrow> int \<Rightarrow> character \<Rightarrow> PacketBuilder outcome" where
  "undressed_packet env p i subloc c =
     bind_out (AddPaperdollData env c ''BAHWS'' (AddChar 0 (AddChar 1 (AddShort (of_nat p) (PacketBuilder_new PACKET_PAPERDOLL PACKET_REMOVE))))) (\<lambda>b.
       let s = stats c in
       Inr (foldl (\<lambda>b n. AddShort (of_int n) b) (AddChar (of_int subloc) (AddShort (of_int i) b))
         ([d_maxhp s, d_maxtp s] @ display env c @ [d_mindam s, d_maxdam s, d_accuracy s, d_evade s, d_armor s])))"

definition drop_worn :: "world_env \<Rightarrow> nat \<Rightarrow> double \<Rightarrow> nat \<Rightarrow> nat \<Rightarrow> map_data \<times> players \<Rightarrow> (map_data \<times> players) outcome" where
  "drop_worn env owner until p slot s =
     bind_out (player (snd s) p) (\<lambda>c. let i = paperdoll c ! slot in
       if i = 0 then Inr s
       else bind_out (item_data env i) (\<lambda>d.
         if i_special d = EIF_Lore \<or> i_special d = EIF_Cursed then Inr s
         else
           (let (it, m, w) = fall env owner until i 1 c s;
                subloc = (if slot = Ring2 \<or> slot = Armlet2 \<or> slot = Bracer2 then 1 else 0) in
            bind_out (run_on p (Unequip env i subloc) w) (\<lambda>(removed, w). bind_out (player w p) (\<lambda>c.
            bind_out (if removed then bind_out (undressed_packet env p i subloc c) (\<lambda>b. Inr (send_to p b w)) else Inr w) (\<lambda>w.
            bind_out (run_on p (DelItem env i 1) w) (\<lambda>(_, w).
              Inr (m, alter p (\<lambda>c. send (fall_packet c i 1 it) c) w))))))))"

fun drop_all_worn :: "world_env \<Rightarrow> nat \<Rightarrow> double \<Rightarrow> nat \<Rightarrow> nat list \<Rightarrow> map_data \<times> players \<Rightarrow> (map_data \<times> players) outcome" where
  "drop_all_worn env owner until p [] s = Inr s"
| "drop_all_worn env owner until p (i # is) s = bind_out (drop_worn env owner until p i s) (drop_all_worn env owner until p is)"

definition DropAll :: "game_env \<Rightarrow> nat option \<Rightarrow> nat \<Rightarrow> map_data \<times> players \<Rightarrow> (map_data \<times> players) outcome" where
  "DropAll g killer p s =
     bind_out (player (snd s) p) (\<lambda>c.
       if \<not> CanInteractItems c then Inr s
       else
         let owner = (case killer of Some q \<Rightarrow> q | None \<Rightarrow> p);
             until = d_add (g_now g) (g_real g (if killer = None then ''ProtectDeathDrop'' else ''ProtectPKDrop'')) in
         bind_out (drop_carried (g_env g) owner until p (inventory c) s) (\<lambda>(m, w).
         bind_out (run_on p (\<lambda>c. bind_out (CalculateStats (g_env g) c) (\<lambda>c. Inr ((), c))) w) (\<lambda>(_, w).
           drop_all_worn (g_env g) owner until p [0..<15] (m, w))))"

definition on_floor :: "nat \<Rightarrow> (map_data \<times> players \<Rightarrow> (map_data \<times> players) outcome) \<Rightarrow> game \<Rightarrow> game outcome" where
  "on_floor k f gm =
     bind_out (f (ar_map (gm_areas gm ! k), gm_players gm)) (\<lambda>(m, w).
       Inr ((with_area k (\<lambda>a. a\<lparr>ar_map := m\<rparr>) gm)\<lparr>gm_players := w\<rparr>))"

definition delay :: "nat \<Rightarrow> internal_action \<Rightarrow> double \<Rightarrow> game \<Rightarrow> game" where
  "delay p act time gm = gm\<lparr>gm_delayed := (gm_delayed gm)(p := gm_delayed gm p @ [(act, time)])\<rparr>"

definition DeathRespawn :: "game_env \<Rightarrow> nat \<Rightarrow> game \<Rightarrow> game outcome" where
  "DeathRespawn g p gm =
     bind_out (player (gm_players gm) p) (\<lambda>c.
     bind_out (d_to_short (d_div (d_mul (d_of_int (d_maxhp (stats c))) (g_real g ''DeathRecover'')) (d_of_int 100))) (\<lambda>hp.
     bind_out (area_of p gm) (\<lambda>(k, _). let gm = with_players (alter p (\<lambda>c. c\<lparr>ch_hp := hp\<rparr>)) gm in
     bind_out (if g_config g ''Deadly'' \<noteq> 0 then on_floor k (DropAll g None p) gm else Inr gm) (\<lambda>gm.
     bind_out (Leave g p 0 True k gm) (\<lambda>gm. bind_out (player (gm_players gm) p) (\<lambda>c.
       let h = home_of g p c gm;
           gm = with_players (alter p (\<lambda>c. c\<lparr>ch_nowhere := True, ch_mapid := hm_map h, ch_x := hm_x h, ch_y := hm_y h\<rparr>)) gm
       in Inr (delay p Internal_warp (Fin 0) (delay p Internal_null (dbl (3 / 2)) gm))))))))"

text \<open>The handler of the packet that is queued then.\<close>

definition Internal_Warp_handler :: "game_env \<Rightarrow> nat \<Rightarrow> game \<Rightarrow> game outcome" where
  "Internal_Warp_handler g p gm =
     bind_out (player (gm_players gm) p) (\<lambda>c. let h = home_of g p c gm in Warp_from False g p (hm_map h) (hm_x h) (hm_y h) 0 gm)"

text \<open>Damage by spikes.\<close>

definition near_ids :: "nat list \<Rightarrow> int \<Rightarrow> int \<Rightarrow> int \<Rightarrow> players \<Rightarrow> nat list" where
  "near_ids who x y distance w =
     filter (\<lambda>q. case w q of None \<Rightarrow> False | Some d \<Rightarrow> \<bar>ch_x d - x\<bar> + \<bar>ch_y d - y\<bar> \<le> to_uchar distance) who"

definition SpikeDamage :: "game_env \<Rightarrow> nat list \<Rightarrow> nat \<Rightarrow> int \<Rightarrow> players \<Rightarrow> players outcome" where
  "SpikeDamage g who p amount w =
     bind_out (player w p) (\<lambda>c.
       let limitamount = min amount (ch_hp c);
           amount = (if g_config g ''LimitDamage'' \<noteq> 0 then limitamount else amount);
           c = c\<lparr>ch_hp := to_short (ch_hp c - limitamount)\<rparr>;
           b2 = AddShort (of_int (d_maxhp (stats c))) (AddShort (of_int (ch_hp c)) (AddShort (of_int amount)
                  (AddChar 2 (PacketBuilder_new PACKET_EFFECT PACKET_SPEC)))) in
       bind_out (hp_percent c) (\<lambda>n.
         let b3 = AddThree (of_int amount) (AddChar (if ch_hp c = 0 then 1 else 0) (AddChar (of_int n)
                    (AddShort (of_nat p) (PacketBuilder_new PACKET_EFFECT PACKET_ADMIN))));
             near = near_ids who (ch_x c) (ch_y c) (g_config g ''SeeDistance'') w
         in Inr (send_in near (\<lambda>q d. q \<noteq> p) b3 (w(p \<mapsto> send b2 c)))))"

text \<open>A small game, for examples: \<open>alice\<close> and \<open>bob\<close> in a hall.\<close>

definition hall :: area where
  "hall = \<lparr>ar_map = blank_map\<lparr>m_id := 1, m_width := 20, m_height := 2, m_tiles := replicate 40 new_tile, m_exists := True\<rparr>, ar_who = [1, 2],
     ar_npcs = [], ar_arena = None, ar_quake = (0, 0), ar_evacuate = False\<rparr>"

definition small_game :: game where
  "small_game = \<lparr>gm_areas = [hall],
     gm_players = [1 \<mapsto> sample_character\<lparr>ch_mapid := 1\<rparr>, 2 \<mapsto> sample_character\<lparr>ch_pid := 2, ch_name := ''bob'', ch_mapid := 1, ch_x := 13\<rparr>],
     gm_parties = [], gm_asks = (\<lambda>_. \<lparr>ask_send = None, ask_recv = None, ask_type = 0\<rparr>), gm_fighters = (\<lambda>_. \<lparr>ft_arena = None, ft_next = None, ft_kills = 0\<rparr>), gm_registered = (\<lambda>_. []),
     gm_home = (\<lambda>_. []), gm_delayed = (\<lambda>_. []), gm_rolls = 0, gm_timestamps = (\<lambda>_. 0)\<rparr>"

definition small_genv :: game_env where
  "small_genv = \<lparr>g_env = sample_env, g_real = (\<lambda>_. Fin 0), g_text = (\<lambda>_. []), g_i18n = id, g_access = (\<lambda>_. 0),
     g_npc_data = (\<lambda>_. blank_npc_data), g_enf = k_enf small_configs, g_exp_table = (\<lambda>n. n * 100), g_instruments = [], g_now = Fin 5,
     g_homes = [], g_roll = (\<lambda>_. (0, 0)), g_speeds = [], g_killed_npc = (\<lambda>_. Inr), g_killed_player = Inr, g_used_spell = (\<lambda>_. Inr)\<rparr>"

end
