(* ===== verification/Area.thy ===== *)
theory Area
  imports World_State
begin

text \<open>
  Walking and turning (\<open>map.cpp\<close>, \<open>handlers/Walk.cpp\<close>, \<open>Face.cpp\<close>, \<open>Sit.cpp\<close>).
  Walking computes from two lists of coordinates who comes into view and who goes out of it; the main property
  is that these are exactly the players within \<open>SeeDistance\<close> after and before the step.
\<close>

section \<open>Walking\<close>

datatype walk_result = WalkFail | WalkOK | WalkWarped

definition DIRECTION_DOWN :: int where "DIRECTION_DOWN = 0"
definition DIRECTION_LEFT :: int where "DIRECTION_LEFT = 1"
definition DIRECTION_UP :: int where "DIRECTION_UP = 2"
definition DIRECTION_RIGHT :: int where "DIRECTION_RIGHT = 3"

lemmas directions = DIRECTION_DOWN_def DIRECTION_LEFT_def DIRECTION_UP_def DIRECTION_RIGHT_def

text \<open>
  The position a step leads to. A coordinate that wraps around fails, but the test for going down looks at
  the wrong one.
\<close>

definition walk_target :: "int \<Rightarrow> int \<Rightarrow> int \<Rightarrow> (int \<times> int) option" where
  "walk_target dir x y =
     (if dir = DIRECTION_UP then (if to_uchar (y - 1) > y then None else Some (x, to_uchar (y - 1)))
      else if dir = DIRECTION_RIGHT then (if to_uchar (x + 1) < x then None else Some (to_uchar (x + 1), y))
      else if dir = DIRECTION_DOWN then (if x < x then None else Some (x, to_uchar (y + 1)))
      else if dir = DIRECTION_LEFT then (if to_uchar (x - 1) > x then None else Some (to_uchar (x - 1), y))
      else Some (x, y))"

text \<open>The coordinates that come into view and, behind, the ones that go out of it.\<close>

definition view_edge :: "int \<Rightarrow> int \<Rightarrow> int \<Rightarrow> int \<Rightarrow> int \<Rightarrow> (int \<times> int) \<times> (int \<times> int)" where
  "view_edge dir sd x y i =
     (if dir = DIRECTION_UP then ((x + i, y - sd + \<bar>i\<bar>), (x + i, y + sd + 1 - \<bar>i\<bar>))
      else if dir = DIRECTION_RIGHT then ((x + sd - \<bar>i\<bar>, y + i), (x - sd - 1 + \<bar>i\<bar>, y + i))
      else if dir = DIRECTION_DOWN then ((x + i, y + sd - \<bar>i\<bar>), (x + i, y - sd - 1 + \<bar>i\<bar>))
      else ((x - sd + \<bar>i\<bar>, y + i), (x + sd + 1 - \<bar>i\<bar>, y + i)))"

definition view_edges :: "int \<Rightarrow> int \<Rightarrow> int \<Rightarrow> int \<Rightarrow> ((int \<times> int) \<times> (int \<times> int)) list" where
  "view_edges dir sd x y = (if 0 \<le> dir \<and> dir \<le> 3 then map (view_edge dir sd x y) [- sd..sd] else [])"

text \<open>The loops over characters, NPCs and items: one is listed for every coordinate it is found at.\<close>

definition coming :: "((int \<times> int) \<times> (int \<times> int)) list \<Rightarrow> ('a \<Rightarrow> int \<times> int) \<Rightarrow> 'a list \<Rightarrow> 'a list" where
  "coming edges pos xs = concat (map (\<lambda>a. map (\<lambda>_. a) (filter (\<lambda>(new, old). pos a \<noteq> old \<and> pos a = new) edges)) xs)"

definition going :: "((int \<times> int) \<times> (int \<times> int)) list \<Rightarrow> ('a \<Rightarrow> int \<times> int) \<Rightarrow> 'a list \<Rightarrow> 'a list" where
  "going edges pos xs = concat (map (\<lambda>a. map (\<lambda>_. a) (filter (\<lambda>(new, old). pos a = old) edges)) xs)"

definition coming_items :: "((int \<times> int) \<times> (int \<times> int)) list \<Rightarrow> map_item list \<Rightarrow> map_item list" where
  "coming_items edges its =
     concat (map (\<lambda>it. map (\<lambda>_. it) (filter (\<lambda>(new, old). (mi_x it, mi_y it) = new) edges)) its)"

definition place_of :: "players \<Rightarrow> nat \<Rightarrow> int \<times> int" where
  "place_of w q = (case w q of None \<Rightarrow> (- 1, - 1) | Some d \<Rightarrow> (ch_x d, ch_y d))"

fun part_from :: "nat \<Rightarrow> nat list \<Rightarrow> players \<Rightarrow> players" where
  "part_from p [] w = w"
| "part_from p (q # qs) w = part_from p qs (send_to p (remove_packet q) (send_to q (remove_packet p) w))"

fun meet_with :: "world_env \<Rightarrow> PacketBuilder \<Rightarrow> nat \<Rightarrow> nat list \<Rightarrow> players \<Rightarrow> players outcome" where
  "meet_with env b p [] w = Inr w"
| "meet_with env b p (q # qs) w =
     bind_out (player w q) (\<lambda>d. bind_out (appear_packet env q d) (\<lambda>rb.
       meet_with env b p qs (send_to p rb (send_to q b w))))"

definition walk_packet :: "nat \<Rightarrow> int \<Rightarrow> character \<Rightarrow> PacketBuilder" where
  "walk_packet p dir c =
     AddChar (of_int (ch_y c)) (AddChar (of_int (ch_x c)) (AddChar (of_int dir) (AddShort (of_nat p) (PacketBuilder_new PACKET_WALK PACKET_PLAYER))))"

definition walk_reply :: "map_item list \<Rightarrow> PacketBuilder" where
  "walk_reply its = foldl (\<lambda>b it. add_item_looks it b) (AddByte 255 (AddByte 255 (PacketBuilder_new PACKET_WALK PACKET_REPLY))) its"

definition npc_appears :: "npc \<Rightarrow> PacketBuilder" where
  "npc_appears n = add_npc_looks n (AddByte 255 (AddChar 0 (PacketBuilder_new PACKET_RANGE PACKET_REPLY)))"

text \<open>\<open>NPC::RemoveFromView\<close>: the NPC is moved out of the view of the client, then killed.\<close>

definition RemoveFromView :: "npc \<Rightarrow> character \<Rightarrow> character" where
  "RemoveFromView n c =
     (let far = (if ch_x c > 200 \<and> ch_y c > 200 then 0 else 252);
          b = AddChar 0 (AddChar far (AddChar far (AddChar (of_int (np_index n)) (PacketBuilder_new PACKET_NPC PACKET_PLAYER))));
          b2 = AddShort (of_int (np_index n)) (AddChar 0 (AddShort 0 (PacketBuilder_new PACKET_NPC PACKET_SPEC)))
      in send b2 (send (AddByte 255 (AddByte 255 (AddByte 255 b))) c))"

text \<open>Where a step leads: a warp that can be used, a way that is blocked, or a free place.\<close>

datatype step = Blocked | Through map_warp | Free

definition step_to :: "game_env \<Rightarrow> bool \<Rightarrow> character \<Rightarrow> area \<Rightarrow> players \<Rightarrow> int \<Rightarrow> int \<Rightarrow> step outcome" where
  "step_to g admin c a w x y =
     (let m = ar_map a; npcs = map (\<lambda>n. (np_x n, np_y n)) (filter np_alive (ar_npcs a)) in
      if \<not> InBounds m x y then Inr Blocked
      else bind_out (if admin then Inr True else map_Walkable (g_env g) w (ar_who a) npcs m x y False) (\<lambda>walkable.
        if \<not> walkable then Inr Blocked
        else if \<not> admin \<and> Occupied w (ar_who a) npcs m x y PlayerOnly False \<and>
                d_less (g_now g) (d_add (ch_last_walk c) (g_real g ''GhostTimer'')) then Inr Blocked
        else bind_out (GetWarp m x y) (\<lambda>warp.
          if is_warp warp then
            (if ch_level c \<ge> wp_levelreq warp \<and> (wp_spec warp = Warp_NoDoor \<or> wp_open warp) then Inr (Through warp)
             else if \<not> admin then Inr Blocked else Inr Free)
          else Inr Free)))"

definition StatusMsg :: "game_env \<Rightarrow> string \<Rightarrow> character \<Rightarrow> character" where
  "StatusMsg g message c =
     send (AddString (bytes_of (text_cap message (g_config g ''ChatMaxWidth'') ''...'')) (PacketBuilder_new PACKET_MESSAGE PACKET_OPEN)) c"

definition walk_warp :: "game_env \<Rightarrow> nat \<Rightarrow> map_warp \<Rightarrow> game \<Rightarrow> game outcome" where
  "walk_warp g p warp gm =
     bind_out (GetMap (wp_map warp) gm) (\<lambda>k. bind_out (area_of p gm) (\<lambda>(j, a).
       if g_access g p < 1 \<and> ar_evacuate (gm_areas gm ! k) \<and> m_id (ar_map (gm_areas gm ! k)) \<noteq> m_id (ar_map a)
       then Refresh g p (with_players (alter p (StatusMsg g (g_i18n g ''map_evacuate_block''))) gm)
       else Warp g p (to_short (wp_map warp)) (wp_x warp) (wp_y warp) 0 gm))"

text \<open>
  The step itself: first the two lists are computed, then the packets are sent in the order of the code. At its end
  spikes may hurt, or kill, who stands on them.
\<close>

definition stepped :: "game_env \<Rightarrow> int \<Rightarrow> int \<Rightarrow> int \<Rightarrow> character \<Rightarrow> character" where
  "stepped g dir x y c = (CancelSpell (c\<lparr>ch_last_walk := g_now g, ch_attacks := 0\<rparr>))\<lparr>ch_direction := dir, ch_x := x, ch_y := y\<rparr>"

definition walk_step :: "game_env \<Rightarrow> nat \<Rightarrow> int \<Rightarrow> int \<Rightarrow> int \<Rightarrow> area \<Rightarrow> players \<Rightarrow> players outcome" where
  "walk_step g p dir x y a w =
     (let w = alter p (stepped g dir x y) w; env = g_env g;
          edges = view_edges dir (w_config env ''SeeDistance'') x y;
          others = filter (\<lambda>q. q \<noteq> p) (ar_who a);
          living = filter np_alive (ar_npcs a); np_at = (\<lambda>n. (np_x n, np_y n)) in
      bind_out (player w p) (\<lambda>c.
      bind_out (appear_packet env p c) (\<lambda>b.
      bind_out (meet_with env b p (coming edges (place_of w) others) (part_from p (going edges (place_of w) others) w)) (\<lambda>w.
        let w = send_in (ar_who a) (\<lambda>q d. q \<noteq> p \<and> InRange env c d) (walk_packet p dir c) w;
            w = send_to p (walk_reply (coming_items edges (m_items (ar_map a)))) w;
            w = foldl (\<lambda>w n. send_to p (npc_appears n) w) w (coming edges np_at living);
            w = foldl (\<lambda>w n. alter p (RemoveFromView n) w) w (going edges np_at living)
        in rules_on env p w))))"

definition spikes :: "game_env \<Rightarrow> nat \<Rightarrow> nat \<Rightarrow> game \<Rightarrow> (walk_result \<times> game) outcome" where
  "spikes g p k gm =
     bind_out (player (gm_players gm) p) (\<lambda>c. bind_out (GetSpec (ar_map (gm_areas gm ! k)) (ch_x c) (ch_y c)) (\<lambda>spec.
       let damage = g_real g ''SpikeDamage'' in
       if d_less (Fin 0) damage \<and> (spec = Tile_Spikes2 \<or> spec = Tile_Spikes3) \<and> \<not> IsHideInvisible c then
         bind_out (d_to_int (d_mul (d_of_int (d_maxhp (stats c))) damage)) (\<lambda>amount.
         bind_out (try_players (SpikeDamage g (ar_who (gm_areas gm ! k)) p amount) gm) (\<lambda>gm.
         bind_out (player (gm_players gm) p) (\<lambda>c.
           if ch_hp c = 0 then bind_out (DeathRespawn g p gm) (\<lambda>gm. Inr (WalkWarped, gm)) else Inr (WalkOK, gm))))
       else Inr (WalkOK, gm)))"

definition Walk :: "game_env \<Rightarrow> nat \<Rightarrow> int \<Rightarrow> bool \<Rightarrow> game \<Rightarrow> (walk_result \<times> game) outcome" where
  "Walk g p dir admin gm =
     bind_out (player (gm_players gm) p) (\<lambda>c. bind_out (area_of p gm) (\<lambda>(k, a).
       case walk_target dir (ch_x c) (ch_y c) of
         None \<Rightarrow> Inr (WalkFail, gm)
       | Some (x, y) \<Rightarrow>
           bind_out (step_to g admin c a (gm_players gm) x y) (\<lambda>s.
             case s of
               Blocked \<Rightarrow> Inr (WalkFail, gm)
             | Through warp \<Rightarrow> bind_out (walk_warp g p warp gm) (\<lambda>gm. Inr (WalkWarped, gm))
             | Free \<Rightarrow> bind_out (try_players (walk_step g p dir x y a) gm) (spikes g p k))))"


section \<open>Handlers\<close>

definition Face :: "game_env \<Rightarrow> nat \<Rightarrow> int \<Rightarrow> game \<Rightarrow> game outcome" where
  "Face g p dir gm =
     bind_out (player (gm_players gm) p) (\<lambda>c. bind_out (area_of p gm) (\<lambda>(k, a).
       let w = alter p (\<lambda>c. CancelSpell (c\<lparr>ch_direction := dir\<rparr>)) (gm_players gm);
           b = AddChar (of_int dir) (AddShort (of_nat p) (PacketBuilder_new PACKET_FACE PACKET_PLAYER))
       in Inr (gm\<lparr>gm_players := send_in (ar_who a) (\<lambda>q d. q \<noteq> p \<and> InRange (g_env g) c d) b w\<rparr>)))"

definition place_packet :: "nat \<Rightarrow> character \<Rightarrow> PacketBuilder \<Rightarrow> PacketBuilder" where
  "place_packet p c b = AddChar (of_int (ch_y c)) (AddChar (of_int (ch_x c)) (AddShort (of_nat p) b))"

definition sit_packet :: "PacketFamily \<Rightarrow> nat \<Rightarrow> character \<Rightarrow> PacketBuilder" where
  "sit_packet family p c = AddChar 0 (AddChar (of_int (ch_direction c)) (place_packet p c (PacketBuilder_new family PACKET_PLAYER)))"

definition Sit :: "game_env \<Rightarrow> nat \<Rightarrow> int \<Rightarrow> game \<Rightarrow> game outcome" where
  "Sit g p sit_type gm =
     bind_out (player (gm_players gm) p) (\<lambda>c. bind_out (area_of p gm) (\<lambda>(k, a).
       let w = alter p (\<lambda>c. CancelSpell (c\<lparr>ch_sitting := sit_type\<rparr>)) (gm_players gm);
           b = sit_packet (if sit_type = 1 then PACKET_CHAIR else PACKET_SIT) p c
       in Inr (gm\<lparr>gm_players := send_in (ar_who a) (\<lambda>q d. q \<noteq> p \<and> InRange (g_env g) c d) b w\<rparr>)))"

definition Stand :: "game_env \<Rightarrow> nat \<Rightarrow> game \<Rightarrow> game outcome" where
  "Stand g p gm =
     bind_out (player (gm_players gm) p) (\<lambda>c. bind_out (area_of p gm) (\<lambda>(k, a).
       let w = alter p (\<lambda>c. CancelSpell (c\<lparr>ch_sitting := 0\<rparr>)) (gm_players gm);
           b = place_packet p c (PacketBuilder_new PACKET_SIT PACKET_REMOVE)
       in Inr (gm\<lparr>gm_players := send_in (ar_who a) (\<lambda>q d. q \<noteq> p \<and> InRange (g_env g) c d) b w\<rparr>)))"

definition Face_Player :: "game_env \<Rightarrow> nat \<Rightarrow> PacketReader \<Rightarrow> game \<Rightarrow> game outcome" where
  "Face_Player g p reader gm =
     bind_out (GetChar reader) (\<lambda>(dir, _). bind_out (player (gm_players gm) p) (\<lambda>c.
       if ch_sitting c \<noteq> 0 then Inr gm else if uint dir \<le> 3 then Face g p (uint dir) gm else Inr gm))"

definition Sit_Request :: "game_env \<Rightarrow> nat \<Rightarrow> PacketReader \<Rightarrow> game \<Rightarrow> game outcome" where
  "Sit_Request g p reader gm =
     bind_out (GetChar reader) (\<lambda>(action, _). bind_out (player (gm_players gm) p) (\<lambda>c.
       if action = 1 \<and> ch_sitting c = 0 then Sit g p 2 (with_players (send_to p (sit_packet PACKET_SIT p c)) gm)
       else if ch_sitting c = 2
       then Stand g p (with_players (send_to p (place_packet p c (PacketBuilder_new PACKET_SIT PACKET_CLOSE))) gm)
       else Inr gm))"

text \<open>\<open>walk_common\<close>; the trade is ended as in \<open>Warp\<close>.\<close>

definition leave_shop :: "character \<Rightarrow> character" where
  "leave_shop c = c\<lparr>ch_npc := None, ch_npc_type := 0, ch_board := None, ch_jukebox_open := False\<rparr>"

definition walk_common :: "game_env \<Rightarrow> bool \<Rightarrow> nat \<Rightarrow> PacketReader \<Rightarrow> game \<Rightarrow> game outcome" where
  "walk_common g admin p reader gm =
     bind_out (GetChar reader) (\<lambda>(dir, reader). bind_out (GetThree reader) (\<lambda>(ts, reader).
     bind_out (GetChar reader) (\<lambda>(x, reader). bind_out (GetChar reader) (\<lambda>(y, _).
     bind_out (player (gm_players gm) p) (\<lambda>c.
       let stamp = Timestamp (sint ts) in
       if g_config g ''EnforceTimestamps'' \<noteq> 0 \<and> ts_minus stamp (gm_timestamps gm p) < 36 then Inr gm
       else
         let gm = gm\<lparr>gm_timestamps := (gm_timestamps gm)(p := stamp)\<rparr> in
         if ch_sitting c \<noteq> 0 then Inr gm
         else
           bind_out (if uint dir \<le> 3 then
               bind_out (try_players (end_trade g p) (with_players (alter p leave_shop) gm)) (Walk g p (uint dir) admin)
             else Inr (WalkFail, gm)) (\<lambda>(result, gm).
           bind_out (player (gm_players gm) p) (\<lambda>c.
             if result = WalkFail \<or> result = WalkOK \<and> (ch_x c \<noteq> uint x \<or> ch_y c \<noteq> uint y) then Refresh g p gm
             else Inr gm)))))))"

definition Walk_Admin :: "game_env \<Rightarrow> nat \<Rightarrow> PacketReader \<Rightarrow> game \<Rightarrow> game outcome" where
  "Walk_Admin g p reader gm =
     bind_out (player (gm_players gm) p) (\<lambda>c.
       if ch_admin c < w_admin_config (g_env g) ''nowall'' then Inr gm else walk_common g True p reader gm)"

definition Walk_Player :: "game_env \<Rightarrow> nat \<Rightarrow> PacketReader \<Rightarrow> game \<Rightarrow> game outcome" where
  "Walk_Player g p reader gm = walk_common g False p reader gm"

section \<open>NPCs walk\<close>

definition npc_moved :: "npc \<Rightarrow> PacketBuilder" where
  "npc_moved n =
     AddByte 255 (AddByte 255 (AddByte 255 (AddChar (of_int (np_direction n)) (AddChar (of_int (np_y n)) (AddChar (of_int (np_x n))
       (AddChar (of_int (np_index n)) (PacketBuilder_new PACKET_NPC PACKET_PLAYER)))))))"

text \<open>\<open>Map::Walk\<close> for the NPC at position \<open>j\<close> of the area \<open>k\<close>; an aggressive one and a child go through administrators.\<close>

definition npc_Walk :: "game_env \<Rightarrow> nat \<Rightarrow> nat \<Rightarrow> int \<Rightarrow> game \<Rightarrow> (walk_result \<times> game) outcome" where
  "npc_Walk g k j dir gm =
     (let a = gm_areas gm ! k; n = ar_npcs a ! j; w = gm_players gm; env = g_env g;
          npcs = map (\<lambda>n. (np_x n, np_y n)) (filter np_alive (ar_npcs a)) in
      case walk_target dir (np_x n) (np_y n) of
        None \<Rightarrow> Inr (WalkFail, gm)
      | Some (x, y) \<Rightarrow>
          bind_out (ENF_Get (g_enf g) (of_int (np_id n))) (\<lambda>enf.
          bind_out (map_Walkable env w (ar_who a) npcs (ar_map a) x y True) (\<lambda>walkable.
            if \<not> walkable \<or> Occupied w (ar_who a) npcs (ar_map a) x y PlayerAndNPC (n_type enf = 2 \<or> np_parent n \<noteq> None)
            then Inr (WalkFail, gm)
            else
              (let n = n\<lparr>np_x := x, np_y := y, np_direction := dir\<rparr>;
                   edges = view_edges dir (w_config env ''SeeDistance'') x y;
                   new = coming edges (place_of w) (ar_who a); old = going edges (place_of w) (ar_who a);
                   w = foldl (\<lambda>w q. send_to q (npc_appears n) w) w new;
                   w = send_in (ar_who a) (\<lambda>q d. sees_npc env n d) (npc_moved n) w;
                   w = foldl (\<lambda>w q. alter q (RemoveFromView n) w) w old
               in Inr (WalkOK, (with_area k (\<lambda>a. a\<lparr>ar_npcs := (ar_npcs a)[j := n]\<rparr>) gm)\<lparr>gm_players := w\<rparr>)))))"


section \<open>What comes into view\<close>

definition far :: "int \<times> int \<Rightarrow> int \<times> int \<Rightarrow> int" where
  "far P Q = \<bar>fst P - fst Q\<bar> + \<bar>snd P - snd Q\<bar>"

text \<open>The position before a step in a direction.\<close>

definition behind :: "int \<Rightarrow> int \<times> int \<Rightarrow> int \<times> int" where
  "behind dir P =
     (if dir = DIRECTION_UP then (fst P, snd P + 1) else if dir = DIRECTION_RIGHT then (fst P - 1, snd P)
      else if dir = DIRECTION_DOWN then (fst P, snd P - 1) else (fst P + 1, snd P))"

lemma direction_cases:
  "0 \<le> dir \<Longrightarrow> dir \<le> 3 \<Longrightarrow> dir = DIRECTION_UP \<or> dir = DIRECTION_RIGHT \<or> dir = DIRECTION_DOWN \<or> dir = DIRECTION_LEFT"
  by (auto simp: directions)

lemma edge_front:
  assumes "0 \<le> sd" "0 \<le> dir" "dir \<le> 3"
  shows "Q \<in> fst ` set (view_edges dir sd x y) \<longleftrightarrow> far Q (x, y) \<le> sd \<and> \<not> far Q (behind dir (x, y)) \<le> sd"
proof -
  obtain X Y where Q: "Q = (X, Y)" by fastforce
  have ex: "(\<exists>i. - sd \<le> i \<and> i \<le> sd \<and> a = b + i \<and> P i) \<longleftrightarrow> \<bar>a - b\<bar> \<le> sd \<and> P (a - b)" for a b :: int and P
    by (auto intro!: exI [of _ "a - b"])
  show ?thesis
    using direction_cases [OF assms(2,3)] assms
  proof (elim disjE)
    assume d: "dir = DIRECTION_UP"
    have "Q \<in> fst ` set (view_edges dir sd x y) \<longleftrightarrow> (\<exists>i. - sd \<le> i \<and> i \<le> sd \<and> X = x + i \<and> Y = y - sd + \<bar>i\<bar>)"
      using assms d by (auto simp: view_edges_def view_edge_def Q image_image image_iff)
    then show ?thesis unfolding ex using d by (auto simp: Q far_def behind_def)
  next
    assume d: "dir = DIRECTION_RIGHT"
    have "Q \<in> fst ` set (view_edges dir sd x y) \<longleftrightarrow> (\<exists>i. - sd \<le> i \<and> i \<le> sd \<and> Y = y + i \<and> X = x + sd - \<bar>i\<bar>)"
      using assms d by (auto simp: view_edges_def view_edge_def Q image_image image_iff directions)
    then show ?thesis unfolding ex using d by (auto simp: Q far_def behind_def directions)
  next
    assume d: "dir = DIRECTION_DOWN"
    have "Q \<in> fst ` set (view_edges dir sd x y) \<longleftrightarrow> (\<exists>i. - sd \<le> i \<and> i \<le> sd \<and> X = x + i \<and> Y = y + sd - \<bar>i\<bar>)"
      using assms d by (auto simp: view_edges_def view_edge_def Q image_image image_iff directions)
    then show ?thesis unfolding ex using d by (auto simp: Q far_def behind_def directions)
  next
    assume d: "dir = DIRECTION_LEFT"
    have "Q \<in> fst ` set (view_edges dir sd x y) \<longleftrightarrow> (\<exists>i. - sd \<le> i \<and> i \<le> sd \<and> Y = y + i \<and> X = x - sd + \<bar>i\<bar>)"
      using assms d by (auto simp: view_edges_def view_edge_def Q image_image image_iff directions)
    then show ?thesis unfolding ex using d by (auto simp: Q far_def behind_def directions)
  qed
qed

lemma edge_back:
  assumes "0 \<le> sd" "0 \<le> dir" "dir \<le> 3"
  shows "Q \<in> snd ` set (view_edges dir sd x y) \<longleftrightarrow> far Q (behind dir (x, y)) \<le> sd \<and> \<not> far Q (x, y) \<le> sd"
proof -
  obtain X Y where Q: "Q = (X, Y)" by fastforce
  have ex: "(\<exists>i. - sd \<le> i \<and> i \<le> sd \<and> a = b + i \<and> P i) \<longleftrightarrow> \<bar>a - b\<bar> \<le> sd \<and> P (a - b)" for a b :: int and P
    by (auto intro!: exI [of _ "a - b"])
  show ?thesis
    using direction_cases [OF assms(2,3)] assms
  proof (elim disjE)
    assume d: "dir = DIRECTION_UP"
    have "Q \<in> snd ` set (view_edges dir sd x y) \<longleftrightarrow> (\<exists>i. - sd \<le> i \<and> i \<le> sd \<and> X = x + i \<and> Y = y + sd + 1 - \<bar>i\<bar>)"
      using assms d by (auto simp: view_edges_def view_edge_def Q image_image image_iff)
    then show ?thesis unfolding ex using d by (auto simp: Q far_def behind_def)
  next
    assume d: "dir = DIRECTION_RIGHT"
    have "Q \<in> snd ` set (view_edges dir sd x y) \<longleftrightarrow> (\<exists>i. - sd \<le> i \<and> i \<le> sd \<and> Y = y + i \<and> X = x - sd - 1 + \<bar>i\<bar>)"
      using assms d by (auto simp: view_edges_def view_edge_def Q image_image image_iff directions)
    then show ?thesis unfolding ex using d by (auto simp: Q far_def behind_def directions)
  next
    assume d: "dir = DIRECTION_DOWN"
    have "Q \<in> snd ` set (view_edges dir sd x y) \<longleftrightarrow> (\<exists>i. - sd \<le> i \<and> i \<le> sd \<and> X = x + i \<and> Y = y - sd - 1 + \<bar>i\<bar>)"
      using assms d by (auto simp: view_edges_def view_edge_def Q image_image image_iff directions)
    then show ?thesis unfolding ex using d by (auto simp: Q far_def behind_def directions)
  next
    assume d: "dir = DIRECTION_LEFT"
    have "Q \<in> snd ` set (view_edges dir sd x y) \<longleftrightarrow> (\<exists>i. - sd \<le> i \<and> i \<le> sd \<and> Y = y + i \<and> X = x + sd + 1 - \<bar>i\<bar>)"
      using assms d by (auto simp: view_edges_def view_edge_def Q image_image image_iff directions)
    then show ?thesis unfolding ex using d by (auto simp: Q far_def behind_def directions)
  qed
qed

lemma edges_distinct:
  "distinct (map fst (view_edges dir sd x y))" "distinct (map snd (view_edges dir sd x y))"
  by (auto simp: view_edges_def view_edge_def distinct_map inj_on_def)

lemma filter_once:
  "distinct (map f es) \<Longrightarrow> map (\<lambda>_. a) (filter (\<lambda>e. v = f e) es) = (if v \<in> f ` set es then [a] else [])"
proof (induction es)
  case (Cons e es)
  show ?case
  proof (cases "v = f e")
    case True
    then have "v \<notin> f ` set es" using Cons.prems by auto
    then show ?thesis using Cons True by simp
  next
    case False
    then show ?thesis using Cons by auto
  qed
qed simp

lemma concat_filter: "(\<And>a. f a = (if P a then [a] else [])) \<Longrightarrow> concat (map f xs) = filter P xs"
  by (induction xs) auto

text \<open>Everything is found once, and exactly in the difference of the two views.\<close>

lemma coming_eq:
  assumes "0 \<le> sd" "0 \<le> dir" "dir \<le> 3"
  shows "coming (view_edges dir sd x y) pos xs = filter (\<lambda>a. far (pos a) (x, y) \<le> sd \<and> \<not> far (pos a) (behind dir (x, y)) \<le> sd) xs"
proof -
  let ?es = "view_edges dir sd x y"
  have "map (\<lambda>_. a) (filter (\<lambda>(new, old). pos a \<noteq> old \<and> pos a = new) ?es) =
      (if far (pos a) (x, y) \<le> sd \<and> \<not> far (pos a) (behind dir (x, y)) \<le> sd then [a] else [])" for a
  proof (cases "pos a \<in> fst ` set ?es")
    case True
    then have "pos a \<notin> snd ` set ?es" unfolding edge_front [OF assms] edge_back [OF assms] by blast
    then have "filter (\<lambda>(new, old). pos a \<noteq> old \<and> pos a = new) ?es = filter (\<lambda>e. pos a = fst e) ?es"
      by (intro filter_cong) (auto simp: split_def)
    then show ?thesis using filter_once [OF edges_distinct(1), of a "pos a"] True edge_front [OF assms, of "pos a"] by simp
  next
    case False
    then have "filter (\<lambda>(new, old). pos a \<noteq> old \<and> pos a = new) ?es = []"
      by (auto simp: filter_empty_conv split_def image_iff)
    then show ?thesis using False edge_front [OF assms, of "pos a"] by auto
  qed
  then show ?thesis unfolding coming_def by (rule concat_filter)
qed

lemma going_eq:
  assumes "0 \<le> sd" "0 \<le> dir" "dir \<le> 3"
  shows "going (view_edges dir sd x y) pos xs = filter (\<lambda>a. far (pos a) (behind dir (x, y)) \<le> sd \<and> \<not> far (pos a) (x, y) \<le> sd) xs"
proof -
  let ?es = "view_edges dir sd x y"
  have "map (\<lambda>_. a) (filter (\<lambda>(new, old). pos a = old) ?es) =
      (if far (pos a) (behind dir (x, y)) \<le> sd \<and> \<not> far (pos a) (x, y) \<le> sd then [a] else [])" for a
    using filter_once [OF edges_distinct(2), of a "pos a" dir sd x y] edge_back [OF assms, of "pos a"] by (simp add: split_def)
  then show ?thesis unfolding going_def by (rule concat_filter)
qed

lemma coming_items_eq:
  assumes "0 \<le> sd" "0 \<le> dir" "dir \<le> 3"
  shows "coming_items (view_edges dir sd x y) its =
    filter (\<lambda>it. far (mi_x it, mi_y it) (x, y) \<le> sd \<and> \<not> far (mi_x it, mi_y it) (behind dir (x, y)) \<le> sd) its"
proof -
  let ?es = "view_edges dir sd x y"
  have "map (\<lambda>_. it) (filter (\<lambda>(new, old). (mi_x it, mi_y it) = new) ?es) =
      (if far (mi_x it, mi_y it) (x, y) \<le> sd \<and> \<not> far (mi_x it, mi_y it) (behind dir (x, y)) \<le> sd then [it] else [])" for it
    using filter_once [OF edges_distinct(1), of it "(mi_x it, mi_y it)" dir sd x y] edge_front [OF assms, of "(mi_x it, mi_y it)"]
    by (simp add: split_def)
  then show ?thesis unfolding coming_items_def by (rule concat_filter)
qed


section \<open>What the clients are sent\<close>

definition received :: "packet list \<Rightarrow> character \<Rightarrow> character" where
  "received ps c = c\<lparr>outbox := outbox c @ ps\<rparr>"

lemma received_simps [simp]:
  "received [] c = c" "received ps (received qs c) = received (qs @ ps) c"
  "ch_x (received ps c) = ch_x c" "ch_y (received ps c) = ch_y c" "ch_nowhere (received ps c) = ch_nowhere c"
  "outbox (received ps c) = outbox c @ ps"
  by (simp_all add: received_def)

lemma send_received: "send b c = received [To_Self b] c"
  by (simp add: send_def received_def)

lemma map_received_Nil [simp]: "map_option (received []) x = x"
  by (cases x) simp_all

lemma received_fields:
  "cosmetic_paperdoll (received ps c) = cosmetic_paperdoll c" "paperdoll (received ps c) = paperdoll c" "ch_name (received ps c) = ch_name c"
  "ch_mapid (received ps c) = ch_mapid c" "ch_direction (received ps c) = ch_direction c" "ch_hidden (received ps c) = ch_hidden c"
  "ch_guild (received ps c) = ch_guild c" "ch_level (received ps c) = ch_level c" "ch_gender (received ps c) = ch_gender c"
  "ch_hairstyle (received ps c) = ch_hairstyle c" "ch_haircolor (received ps c) = ch_haircolor c" "ch_race (received ps c) = ch_race c"
  "stats (received ps c) = stats c" "ch_hp (received ps c) = ch_hp c" "ch_tp (received ps c) = ch_tp c" "ch_sitting (received ps c) = ch_sitting c"
  by (simp_all add: received_def)

lemma looks_received [simp]:
  "InRange env (received ps c) d = InRange env c d" "InRange env c (received ps d) = InRange env c d"
  "appear_packet env p (received ps c) = appear_packet env p c" "walk_packet p dir (received ps c) = walk_packet p dir c"
proof -
  have "add_looks env p (received ps c) b = add_looks env p c b" for b
    unfolding add_looks_def AddPaperdollData_def PaddedGuildTag_def doll_shown_def IsHideInvisible_def received_fields received_simps
    by (rule refl)
  then show "appear_packet env p (received ps c) = appear_packet env p c" by (simp add: appear_packet_def)
qed (simp_all add: InRange_def walk_packet_def received_def)

definition gets :: "nat \<Rightarrow> packet list \<Rightarrow> players \<Rightarrow> players \<Rightarrow> bool" where
  "gets q ps w w' \<longleftrightarrow> w' q = map_option (received ps) (w q)"

lemma gets_trans: "gets q ps w w1 \<Longrightarrow> gets q rs w1 w2 \<Longrightarrow> gets q (ps @ rs) w w2"
  by (simp add: gets_def option.map_comp comp_def)

lemma gets_after: "gets q [] w w1 \<Longrightarrow> gets q rs w1 w2 \<Longrightarrow> gets q rs w w2"
  "gets q ps w w1 \<Longrightarrow> gets q [] w1 w2 \<Longrightarrow> gets q ps w w2"
  using gets_trans by fastforce+

lemma gets_refl [simp]: "gets q [] w w"
  by (simp add: gets_def option.map_ident)

lemma send_to_gets: "gets q (if q = p then [To_Self b] else []) w (send_to p b w)"
  by (cases "w p") (auto simp: gets_def send_to_def alter_def send_received)

lemma part_from_others:
  "q \<noteq> p \<Longrightarrow> distinct qs \<Longrightarrow> gets q (if q \<in> set qs then [To_Self (remove_packet p)] else []) w (part_from p qs w)"
proof (induction qs arbitrary: w)
  case (Cons r qs)
  let ?w = "send_to p (remove_packet r) (send_to r (remove_packet p) w)"
  have "gets q (if q = r then [To_Self (remove_packet p)] else []) w ?w"
    using gets_trans [OF send_to_gets [of q r "remove_packet p" w] send_to_gets [of q p "remove_packet r"]] Cons.prems(1) by simp
  moreover have "gets q (if q \<in> set qs then [To_Self (remove_packet p)] else []) ?w (part_from p qs ?w)"
    using Cons.IH [of ?w] Cons.prems by simp
  ultimately show ?case using gets_trans Cons.prems(2) by (cases "q = r") fastforce+
qed simp

lemma part_from_self:
  "p \<notin> set qs \<Longrightarrow> gets p (map (\<lambda>q. To_Self (remove_packet q)) qs) w (part_from p qs w)"
proof (induction qs arbitrary: w)
  case (Cons r qs)
  let ?w = "send_to p (remove_packet r) (send_to r (remove_packet p) w)"
  have "gets p [To_Self (remove_packet r)] w ?w"
    using gets_trans [OF send_to_gets [of p r "remove_packet p" w] send_to_gets [of p p "remove_packet r"]] Cons.prems by simp
  then show ?case using gets_trans [OF _ Cons.IH [of ?w]] Cons.prems by fastforce
qed simp

definition shown :: "world_env \<Rightarrow> players \<Rightarrow> nat \<Rightarrow> packet \<Rightarrow> bool" where
  "shown env w q k \<longleftrightarrow> (\<exists>d b. w q = Some d \<and> appear_packet env q d = Inr b \<and> k = To_Self b)"

lemma shown_gets: "gets q ps w w' \<Longrightarrow> shown env w' q k \<Longrightarrow> shown env w q k"
  by (auto simp: shown_def gets_def)

lemma meet_with_others:
  "meet_with env b p qs w = Inr w' \<Longrightarrow> q \<noteq> p \<Longrightarrow> distinct qs \<Longrightarrow> gets q (if q \<in> set qs then [To_Self b] else []) w w'"
proof (induction qs arbitrary: w)
  case (Cons r qs)
  from Cons.prems(1) obtain rb where rb: "meet_with env b p qs (send_to p rb (send_to r b w)) = Inr w'"
    by (auto simp: bind_out_Inr_iff)
  have "gets q (if q = r then [To_Self b] else []) w (send_to p rb (send_to r b w))"
    using gets_trans [OF send_to_gets [of q r b w] send_to_gets [of q p rb]] Cons.prems(2) by simp
  moreover have "gets q (if q \<in> set qs then [To_Self b] else []) (send_to p rb (send_to r b w)) w'"
    using Cons.IH [OF rb] Cons.prems(2,3) by simp
  ultimately show ?case using gets_trans Cons.prems(3) by (cases "q = r") fastforce+
qed simp

lemma meet_with_self:
  "meet_with env b p qs w = Inr w' \<Longrightarrow> p \<notin> set qs \<Longrightarrow> distinct qs \<Longrightarrow>
   \<exists>ks. gets p ks w w' \<and> list_all2 (shown env w) qs ks"
proof (induction qs arbitrary: w)
  case (Cons r qs)
  from Cons.prems(1) obtain d rb where rb: "w r = Some d" "appear_packet env r d = Inr rb"
    "meet_with env b p qs (send_to p rb (send_to r b w)) = Inr w'"
    by (auto simp: bind_out_Inr_iff)
  let ?w = "send_to p rb (send_to r b w)"
  have 1: "gets p [To_Self rb] w ?w"
    using gets_trans [OF send_to_gets [of p r b w] send_to_gets [of p p rb]] Cons.prems(2) by simp
  obtain ks where ks: "gets p ks ?w w'" "list_all2 (shown env ?w) qs ks"
    using Cons.IH [OF rb(3)] Cons.prems(2,3) by auto
  have "gets q [] w ?w" if "q \<in> set qs" for q
    using gets_trans [OF send_to_gets [of q r b w] send_to_gets [of q p rb "send_to r b w"]] that Cons.prems(2,3) by (auto split: if_splits)
  then have "list_all2 (shown env w) qs ks"
    using ks(2) shown_gets [of _ "[]" w ?w env] by (auto simp: list_all2_conv_all_nth)
  moreover have "shown env w r (To_Self rb)" using rb(1,2) by (auto simp: shown_def)
  ultimately show ?case using gets_trans [OF 1 ks(1)] by (intro exI [of _ "To_Self rb # ks"]) auto
qed auto

lemma send_in_gets:
  "w q = Some d \<Longrightarrow> gets q (if q \<in> set who \<and> to q d then [To_Self b] else []) w (send_in who to b w)"
  by (auto simp: gets_def send_in_def send_received)

lemma send_in_nobody: "\<forall>d. \<not> to p d \<Longrightarrow> gets p [] w (send_in who to b w)"
  by (cases "w p") (auto simp: gets_def send_in_def)

lemma npcs_gets:
  "q \<noteq> p \<Longrightarrow> gets q [] w (foldl (\<lambda>w n. send_to p (f n) w) w ns)"
  "gets p (map (\<lambda>n. To_Self (f n)) ns) w (foldl (\<lambda>w n. send_to p (f n) w) w ns)"
proof (induction ns arbitrary: w)
  case (Cons n ns)
  {
    case 1
    then show ?case using gets_trans [OF send_to_gets [of q p "f n" w] Cons.IH(1) [of "send_to p (f n) w"]] by simp
  next
    case 2
    then show ?case using gets_trans [OF send_to_gets [of p p "f n" w] Cons.IH(2) [of "send_to p (f n) w"]] by simp
  }
qed simp_all

lemma RemoveFromView_received: "\<exists>ps. RemoveFromView n c = received ps c"
  by (auto simp: RemoveFromView_def Let_def send_received)

lemma npcs_leave:
  "q \<noteq> p \<Longrightarrow> gets q [] w (foldl (\<lambda>w n. alter p (RemoveFromView n) w) w ns)"
  "\<exists>ps. gets p ps w (foldl (\<lambda>w n. alter p (RemoveFromView n) w) w ns)"
proof (induction ns arbitrary: w)
  case (Cons n ns)
  {
    case 1
    have "gets q [] w (alter p (RemoveFromView n) w)" using 1 by (simp add: gets_def alter_def)
    then show ?case using gets_trans Cons.IH(1) [OF 1] by fastforce
  next
    case 2
    have "\<exists>ps. gets p ps w (alter p (RemoveFromView n) w)"
      using RemoveFromView_received by (cases "w p") (auto simp: gets_def)
    then show ?case using gets_trans Cons.IH(2) by fastforce
  }
qed (auto intro: exI [of _ "[]"])


text \<open>Rules of quests that only send packets.\<close>

definition silent :: "world_env \<Rightarrow> bool" where
  "silent env \<longleftrightarrow> (\<forall>c c'. w_rules env c = Inr c' \<longrightarrow> (\<exists>ps. c' = received ps c))"

definition visible :: "world_env \<Rightarrow> int \<times> int \<Rightarrow> int \<times> int \<Rightarrow> bool" where
  "visible env P Q \<longleftrightarrow> far Q P \<le> w_config env ''SeeDistance''"

text \<open>Out of sight and into sight, by a move from one position to another.\<close>

definition lost :: "world_env \<Rightarrow> int \<times> int \<Rightarrow> int \<times> int \<Rightarrow> int \<times> int \<Rightarrow> bool" where
  "lost env P P' Q \<longleftrightarrow> visible env P Q \<and> \<not> visible env P' Q"

definition met :: "world_env \<Rightarrow> int \<times> int \<Rightarrow> int \<times> int \<Rightarrow> int \<times> int \<Rightarrow> bool" where
  "met env P P' Q \<longleftrightarrow> visible env P' Q \<and> \<not> visible env P Q"

definition standing :: "players \<Rightarrow> area \<Rightarrow> bool" where
  "standing w a \<longleftrightarrow> distinct (ar_who a) \<and> (\<forall>q \<in> set (ar_who a). \<exists>d. w q = Some d \<and> \<not> ch_nowhere d)"

lemma InRange_visible:
  "\<not> ch_nowhere c \<Longrightarrow> \<not> ch_nowhere d \<Longrightarrow> InRange env c d = visible env (ch_x c, ch_y c) (ch_x d, ch_y d)"
  by (simp add: InRange_def visible_def far_def abs_minus_commute)

lemma stepped_simps [simp]:
  "ch_x (stepped g dir x y c) = x" "ch_y (stepped g dir x y c) = y" "ch_nowhere (stepped g dir x y c) = ch_nowhere c"
  "outbox (stepped g dir x y c) = outbox c"
  by (simp_all add: stepped_def CancelSpell_def)

text \<open>What a step sends to those on the map, and to the one who walks.\<close>

definition others_told :: "world_env \<Rightarrow> nat \<Rightarrow> PacketBuilder \<Rightarrow> PacketBuilder \<Rightarrow> int \<times> int \<Rightarrow> int \<times> int \<Rightarrow> int \<times> int \<Rightarrow> packet list" where
  "others_told env p looks moves P P' Q =
     (if lost env P P' Q then [To_Self (remove_packet p)] else []) @
     (if met env P P' Q then [To_Self looks] else []) @ (if visible env P' Q then [To_Self moves] else [])"

text \<open>The stages of a step: who is left, who is met, and what is sent about the step itself.\<close>

definition left_behind :: "game_env \<Rightarrow> nat \<Rightarrow> int \<times> int \<Rightarrow> int \<times> int \<Rightarrow> area \<Rightarrow> players \<Rightarrow> nat list" where
  "left_behind g p P P' a w = filter (\<lambda>q. q \<noteq> p \<and> lost (g_env g) P P' (place_of w q)) (ar_who a)"

definition newly_met :: "game_env \<Rightarrow> nat \<Rightarrow> int \<times> int \<Rightarrow> int \<times> int \<Rightarrow> area \<Rightarrow> players \<Rightarrow> nat list" where
  "newly_met g p P P' a w = filter (\<lambda>q. q \<noteq> p \<and> met (g_env g) P P' (place_of w q)) (ar_who a)"

definition newly_seen :: "game_env \<Rightarrow> int \<times> int \<Rightarrow> int \<times> int \<Rightarrow> area \<Rightarrow> map_item list \<times> npc list" where
  "newly_seen g P P' a =
     (filter (\<lambda>it. met (g_env g) P P' (mi_x it, mi_y it)) (m_items (ar_map a)),
      filter (\<lambda>n. np_alive n \<and> met (g_env g) P P' (np_x n, np_y n)) (ar_npcs a))"

lemma walk_step_stages:
  assumes run: "walk_step g p dir x y a w = Inr w'" and dir: "0 \<le> dir" "dir \<le> 3" and sd: "0 \<le> w_config (g_env g) ''SeeDistance''"
    and c: "w p = Some c" "behind dir (x, y) = (ch_x c, ch_y c)"
  obtains b w2 w3 ns where "appear_packet (g_env g) p (stepped g dir x y c) = Inr b"
    "meet_with (g_env g) b p (newly_met g p (ch_x c, ch_y c) (x, y) a w)
       (part_from p (left_behind g p (ch_x c, ch_y c) (x, y) a w) (alter p (stepped g dir x y) w)) = Inr w2"
    "w3 = send_in (ar_who a) (\<lambda>q d. q \<noteq> p \<and> InRange (g_env g) (stepped g dir x y c) d) (walk_packet p dir (stepped g dir x y c)) w2"
    "rules_on (g_env g) p (foldl (\<lambda>w n. alter p (RemoveFromView n) w) (foldl (\<lambda>w n. send_to p (npc_appears n) w)
        (send_to p (walk_reply (fst (newly_seen g (ch_x c, ch_y c) (x, y) a))) w3) (snd (newly_seen g (ch_x c, ch_y c) (x, y) a))) ns) = Inr w'"
proof -
  let ?edges = "view_edges dir (w_config (g_env g) ''SeeDistance'') x y" and ?w = "alter p (stepped g dir x y) w"
  have same: "place_of ?w q = place_of w q" if "q \<noteq> p" for q using that by (simp add: place_of_def)
  have lists: "going ?edges (place_of ?w) (filter (\<lambda>q. q \<noteq> p) (ar_who a)) = left_behind g p (ch_x c, ch_y c) (x, y) a w"
    "coming ?edges (place_of ?w) (filter (\<lambda>q. q \<noteq> p) (ar_who a)) = newly_met g p (ch_x c, ch_y c) (x, y) a w"
    "coming_items ?edges (m_items (ar_map a)) = fst (newly_seen g (ch_x c, ch_y c) (x, y) a)"
    "coming ?edges (\<lambda>n. (np_x n, np_y n)) (filter np_alive (ar_npcs a)) = snd (newly_seen g (ch_x c, ch_y c) (x, y) a)"
    unfolding going_eq [OF sd dir] coming_eq [OF sd dir] coming_items_eq [OF sd dir] c(2) lost_def met_def visible_def
      left_behind_def newly_met_def newly_seen_def filter_filter fst_conv snd_conv
    by (auto intro!: filter_cong simp: same)
  show thesis
    using run c(1) by (auto simp: walk_step_def Let_def bind_out_Inr_iff lists intro!: that)
qed

lemma walk_step_others:
  assumes run: "walk_step g p dir x y a w = Inr w'" and dir: "0 \<le> dir" "dir \<le> 3" and sd: "0 \<le> w_config (g_env g) ''SeeDistance''"
    and c: "w p = Some c" "behind dir (x, y) = (ch_x c, ch_y c)" and nowhere: "\<not> ch_nowhere c"
    and who: "standing w a" and q: "q \<in> set (ar_who a)" "q \<noteq> p" and b: "appear_packet (g_env g) p (stepped g dir x y c) = Inr b"
  shows "gets q (others_told (g_env g) p b (walk_packet p dir (stepped g dir x y c)) (ch_x c, ch_y c) (x, y) (place_of w q)) w w'"
proof -
  let ?env = "g_env g" and ?P = "(ch_x c, ch_y c)" and ?P' = "(x, y)" and ?c = "stepped g dir x y c" and ?w = "alter p (stepped g dir x y) w"
  obtain b2 w2 w3 ns where b2: "appear_packet ?env p ?c = Inr b2"
    and s2: "meet_with ?env b2 p (newly_met g p ?P ?P' a w) (part_from p (left_behind g p ?P ?P' a w) ?w) = Inr w2" and s:
    "w3 = send_in (ar_who a) (\<lambda>q d. q \<noteq> p \<and> InRange ?env ?c d) (walk_packet p dir ?c) w2"
    "rules_on ?env p (foldl (\<lambda>w n. alter p (RemoveFromView n) w) (foldl (\<lambda>w n. send_to p (npc_appears n) w)
        (send_to p (walk_reply (fst (newly_seen g ?P ?P' a))) w3) (snd (newly_seen g ?P ?P' a))) ns) = Inr w'"
    by (rule walk_step_stages [OF run dir sd c])
  have s1: "meet_with ?env b p (newly_met g p ?P ?P' a w) (part_from p (left_behind g p ?P ?P' a w) ?w) = Inr w2"
    using s2 b b2 by simp
  have dist: "distinct (left_behind g p ?P ?P' a w)" "distinct (newly_met g p ?P ?P' a w)"
    using who by (auto simp: standing_def left_behind_def newly_met_def)
  obtain d where d: "w q = Some d" "\<not> ch_nowhere d" using who q(1) by (auto simp: standing_def)
  have 1: "gets q (if lost ?env ?P ?P' (place_of w q) then [To_Self (remove_packet p)] else []) ?w (part_from p (left_behind g p ?P ?P' a w) ?w)"
    using part_from_others [OF q(2) dist(1), of ?w] q by (simp add: left_behind_def)
  have 2: "gets q (if met ?env ?P ?P' (place_of w q) then [To_Self b] else []) (part_from p (left_behind g p ?P ?P' a w) ?w) w2"
    using meet_with_others [OF s1 q(2) dist(2)] q by (simp add: newly_met_def)
  note 12 = gets_trans [OF 1 2]
  then obtain ps where "w2 q = Some (received ps d)" using q(2) d(1) by (auto simp: gets_def)
  then have "gets q (if visible ?env ?P' (place_of w q) then [To_Self (walk_packet p dir ?c)] else []) w2 w3"
    using send_in_gets [of w2 q "received ps d" "ar_who a" "\<lambda>q d. q \<noteq> p \<and> InRange ?env ?c d" "walk_packet p dir ?c"] q d nowhere
    by (simp add: s(1) InRange_visible place_of_def)
  moreover have "gets q [] w3 w'" 
  proof -
    have 4: "gets q [] w3 (send_to p k w3)" for k using send_to_gets [of q p k w3] q(2) by simp
    have 5: "gets q [] v w'" if "rules_on ?env p v = Inr w'" for v using that q(2) by (auto simp: rules_on_Inr gets_def)
    show ?thesis
      by (rule gets_after(1) [OF 4 gets_after(1) [OF npcs_gets(1) [OF q(2)] gets_after(1) [OF npcs_leave(1) [OF q(2)] 5 [OF s(2)]]]])
  qed
  ultimately have "gets q (if visible ?env ?P' (place_of w q) then [To_Self (walk_packet p dir ?c)] else []) w2 w'"
    by (rule gets_after(2))
  then have "gets q (others_told ?env p b (walk_packet p dir ?c) ?P ?P' (place_of w q)) ?w w'"
    using gets_trans [OF 12] by (simp add: others_told_def)
  then show ?thesis using q(2) by (simp add: gets_def)
qed

lemma walk_step_self:
  assumes run: "walk_step g p dir x y a w = Inr w'" and dir: "0 \<le> dir" "dir \<le> 3" and sd: "0 \<le> w_config (g_env g) ''SeeDistance''"
    and c: "w p = Some c" "behind dir (x, y) = (ch_x c, ch_y c)" and who: "standing w a" and silent: "silent (g_env g)"
  shows "\<exists>ls extra. list_all2 (shown (g_env g) w) (newly_met g p (ch_x c, ch_y c) (x, y) a w) ls \<and>
    w' p = Some (received (map (\<lambda>q. To_Self (remove_packet q)) (left_behind g p (ch_x c, ch_y c) (x, y) a w) @ ls @
      [To_Self (walk_reply (fst (newly_seen g (ch_x c, ch_y c) (x, y) a)))] @
      map (\<lambda>n. To_Self (npc_appears n)) (snd (newly_seen g (ch_x c, ch_y c) (x, y) a)) @ extra) (stepped g dir x y c))"
proof -
  let ?env = "g_env g" and ?P = "(ch_x c, ch_y c)" and ?P' = "(x, y)" and ?c = "stepped g dir x y c" and ?w = "alter p (stepped g dir x y) w"
  let ?gone = "left_behind g p ?P ?P' a w" and ?new = "newly_met g p ?P ?P' a w" and ?seen = "newly_seen g ?P ?P' a"
  obtain b w2 w3 ns where s: "meet_with ?env b p ?new (part_from p ?gone ?w) = Inr w2"
    "w3 = send_in (ar_who a) (\<lambda>q d. q \<noteq> p \<and> InRange ?env ?c d) (walk_packet p dir ?c) w2"
    "rules_on ?env p (foldl (\<lambda>w n. alter p (RemoveFromView n) w) (foldl (\<lambda>w n. send_to p (npc_appears n) w)
        (send_to p (walk_reply (fst ?seen)) w3) (snd ?seen)) ns) = Inr w'"
    by (rule walk_step_stages [OF run dir sd c])
  have dist: "distinct ?gone" "distinct ?new" "p \<notin> set ?gone" "p \<notin> set ?new"
    using who by (auto simp: standing_def left_behind_def newly_met_def)
  have 1: "gets p (map (\<lambda>q. To_Self (remove_packet q)) ?gone) ?w (part_from p ?gone ?w)" by (rule part_from_self [OF dist(3)])
  obtain ls where ls: "gets p ls (part_from p ?gone ?w) w2" "list_all2 (shown ?env (part_from p ?gone ?w)) ?new ls"
    using meet_with_self [OF s(1) dist(4,2)] by blast
  have same: "shown ?env w q k" if "shown ?env (part_from p ?gone ?w) q k" "q \<in> set ?new" for q k
  proof -
    have "q \<noteq> p" using that(2) dist(4) by auto
    then show ?thesis using shown_gets [OF part_from_others [OF _ dist(1), of q p ?w] that(1)] by (simp add: shown_def)
  qed
  have seen: "list_all2 (shown ?env w) ?new ls"
    using ls(2) same nth_mem [of _ ?new] unfolding list_all2_conv_all_nth by metis
  have 3: "gets p [] w2 w3" unfolding s(2) by (rule send_in_nobody) simp
  have 4: "gets p [To_Self (walk_reply (fst ?seen))] w3 (send_to p (walk_reply (fst ?seen)) w3)"
    using send_to_gets [of p p _ w3] by simp
  note 5 = npcs_gets(2) [of p npc_appears "snd ?seen" "send_to p (walk_reply (fst ?seen)) w3"]
  obtain e1 where 6: "gets p e1 (foldl (\<lambda>w n. send_to p (npc_appears n) w) (send_to p (walk_reply (fst ?seen)) w3) (snd ?seen))
      (foldl (\<lambda>w n. alter p (RemoveFromView n) w) (foldl (\<lambda>w n. send_to p (npc_appears n) w)
        (send_to p (walk_reply (fst ?seen)) w3) (snd ?seen)) ns)" using npcs_leave(2) by blast
  obtain e2 where 7: "gets p e2 (foldl (\<lambda>w n. alter p (RemoveFromView n) w) (foldl (\<lambda>w n. send_to p (npc_appears n) w)
        (send_to p (walk_reply (fst ?seen)) w3) (snd ?seen)) ns) w'"
    using s(3) silent by (fastforce simp: rules_on_Inr gets_def silent_def CheckQuestRules_def)
  note all = gets_trans [OF 1 gets_trans [OF ls(1) gets_after(1) [OF 3 gets_trans [OF 4 gets_trans [OF 5 gets_trans [OF 6 7]]]]]]
  show ?thesis
    using all seen c(1) by (intro exI [of _ ls] exI [of _ "e1 @ e2"]) (simp add: gets_def)
qed


definition told :: "game_env \<Rightarrow> nat \<Rightarrow> int \<times> int \<Rightarrow> int \<times> int \<Rightarrow> area \<Rightarrow> players \<Rightarrow> packet list \<Rightarrow> bool" where
  "told g p P P' a w ks \<longleftrightarrow>
     (\<exists>ls extra. list_all2 (shown (g_env g) w) (newly_met g p P P' a w) ls \<and>
       ks = map (\<lambda>q. To_Self (remove_packet q)) (left_behind g p P P' a w) @ ls @ [To_Self (walk_reply (fst (newly_seen g P P' a)))] @
         map (\<lambda>n. To_Self (npc_appears n)) (snd (newly_seen g P P' a)) @ extra)"

lemma walk_target_behind:
  assumes "walk_target dir x y = Some Q" "0 \<le> dir" "dir \<le> 3" "0 \<le> x" "x < 256" "0 \<le> y" "y < 255"
  shows "behind dir Q = (x, y) \<and> far (x, y) Q = 1"
proof -
  have "to_uchar (n - 1) = (if n = 0 then 255 else n - 1)" if "0 \<le> n" "n < 256" for n
    using that by (auto simp: to_uchar_def mod_pos_pos_trivial)
  moreover have "to_uchar (n + 1) = (if n = 255 then 0 else n + 1)" if "0 \<le> n" "n < 256" for n
    using that by (auto simp: to_uchar_def mod_pos_pos_trivial)
  ultimately show ?thesis
    using assms direction_cases [OF assms(2,3)]
    by (auto simp: walk_target_def behind_def far_def directions split: if_splits)
qed

text \<open>
  C6: After a step every client shows who is in sight, no more and no less. When a character has walked, it
  stands next to where it was and looks the way it walked; every other player on the map is sent
  its removal exactly if it went out of that player's sight, its looks exactly if it came into sight,
  and the step exactly if it is in sight now, in this order; and the one who walks is sent the removal of everyone
  who went out of sight, the looks of everyone who came into sight, the items that came into sight, and the NPCs
  that did. Sight is the distance \<open>SeeDistance\<close>, counted along the axes, and the code finds these sets from two
  lists of coordinates alone. The rules of quests must only send packets, and spikes do no damage.
\<close>

theorem walk_shows:
  assumes run: "Walk g p dir admin gm = Inr (WalkOK, gm')" and dir: "0 \<le> dir" "dir \<le> 3"
    and sd: "0 \<le> w_config (g_env g) ''SeeDistance''" and silent: "silent (g_env g)" "\<not> d_less (Fin 0) (g_real g ''SpikeDamage'')"
    and c: "gm_players gm p = Some c" "\<not> ch_nowhere c" "0 \<le> ch_x c" "ch_x c < 256" "0 \<le> ch_y c" "ch_y c < 255"
    and a: "area_of p gm = Inr (k, a)" "standing (gm_players gm) a"
  shows "\<exists>c' ks b. gm_players gm' p = Some c' \<and> far (ch_x c, ch_y c) (ch_x c', ch_y c') = 1 \<and> ch_direction c' = dir \<and>
    appear_packet (g_env g) p c' = Inr b \<and> outbox c' = outbox c @ ks \<and>
    told g p (ch_x c, ch_y c) (ch_x c', ch_y c') a (gm_players gm) ks \<and>
    (\<forall>q \<in> set (ar_who a). q \<noteq> p \<longrightarrow>
       gets q (others_told (g_env g) p b (walk_packet p dir c') (ch_x c, ch_y c) (ch_x c', ch_y c') (place_of (gm_players gm) q))
         (gm_players gm) (gm_players gm'))"
proof -
  obtain w x y where s0: "walk_target dir (ch_x c) (ch_y c) = Some (x, y)" "step_to g admin c a (gm_players gm) x y = Inr w"
    using run a(1) c(1) by (auto simp: Walk_def bind_out_Inr_iff try_players_def split: option.splits)
  obtain w' where s: "walk_target dir (ch_x c) (ch_y c) = Some (x, y)" "walk_step g p dir x y a (gm_players gm) = Inr w'"
    "gm' = gm\<lparr>gm_players := w'\<rparr>"
    using run a(1) c(1) s0 silent(2) by (cases w) (auto simp: Walk_def bind_out_Inr_iff try_players_def spikes_def Let_def)
  have prev: "behind dir (x, y) = (ch_x c, ch_y c)" "far (ch_x c, ch_y c) (x, y) = 1"
    using walk_target_behind [OF s(1) dir c(3-6)] by auto
  obtain b where b: "appear_packet (g_env g) p (stepped g dir x y c) = Inr b"
    by (rule walk_step_stages [OF s(2) dir sd c(1) prev(1)]) (rule that)
  obtain ls extra where ls: "list_all2 (shown (g_env g) (gm_players gm)) (newly_met g p (ch_x c, ch_y c) (x, y) a (gm_players gm)) ls"
    "w' p = Some (received (map (\<lambda>q. To_Self (remove_packet q)) (left_behind g p (ch_x c, ch_y c) (x, y) a (gm_players gm)) @ ls @
      [To_Self (walk_reply (fst (newly_seen g (ch_x c, ch_y c) (x, y) a)))] @
      map (\<lambda>n. To_Self (npc_appears n)) (snd (newly_seen g (ch_x c, ch_y c) (x, y) a)) @ extra) (stepped g dir x y c))"
    using walk_step_self [OF s(2) dir sd c(1) prev(1) a(2) silent(1)] by blast
  have others: "gets q (others_told (g_env g) p b (walk_packet p dir (stepped g dir x y c)) (ch_x c, ch_y c) (x, y) (place_of (gm_players gm) q))
      (gm_players gm) w'" if "q \<in> set (ar_who a)" "q \<noteq> p" for q
    by (rule walk_step_others [OF s(2) dir sd c(1) prev(1) c(2) a(2) that b])
  let ?c' = "received (map (\<lambda>q. To_Self (remove_packet q)) (left_behind g p (ch_x c, ch_y c) (x, y) a (gm_players gm)) @ ls @
      [To_Self (walk_reply (fst (newly_seen g (ch_x c, ch_y c) (x, y) a)))] @
      map (\<lambda>n. To_Self (npc_appears n)) (snd (newly_seen g (ch_x c, ch_y c) (x, y) a)) @ extra) (stepped g dir x y c)"
  have c': "ch_x ?c' = x" "ch_y ?c' = y" "ch_direction ?c' = dir" by (simp_all add: received_fields stepped_def)
  have told: "told g p (ch_x c, ch_y c) (x, y) a (gm_players gm)
      (map (\<lambda>q. To_Self (remove_packet q)) (left_behind g p (ch_x c, ch_y c) (x, y) a (gm_players gm)) @ ls @
      [To_Self (walk_reply (fst (newly_seen g (ch_x c, ch_y c) (x, y) a)))] @
      map (\<lambda>n. To_Self (npc_appears n)) (snd (newly_seen g (ch_x c, ch_y c) (x, y) a)) @ extra)"
    unfolding told_def using ls(1) by blast
  show ?thesis
    by (rule exI [of _ ?c'], intro exI conjI ballI impI, unfold c')
       (use ls(2) s(3) prev(2) b told others in simp_all)
qed

text \<open>\<open>alice\<close> walks to the right; \<open>bob\<close>, twelve steps away, comes into sight.\<close>

theorem walk_shows_witness:
  "\<exists>gm' b m d. Walk small_genv 1 DIRECTION_RIGHT False small_game = Inr (WalkOK, gm') \<and> gm_players gm' 2 = Some d \<and>
    outbox d = [To_Self b, To_Self m]"
proof -
  let ?res = "Walk small_genv 1 DIRECTION_RIGHT False small_game"
  have "map_sum id (\<lambda>r. (fst r, map_option (\<lambda>c. (ch_x c, ch_y c)) (gm_players (snd r) 1))) ?res = Inr (WalkOK, Some (2, 1))"
    by code_simp
  then obtain gm' c1 where run: "?res = Inr (WalkOK, gm')" and c1: "gm_players gm' 1 = Some c1" "ch_x c1 = 2" "ch_y c1 = 1"
    by (cases ?res) auto
  have env: "0 \<le> w_config (g_env small_genv) ''SeeDistance''" "w_config (g_env small_genv) ''SeeDistance'' = 11" "silent (g_env small_genv)"
    by (auto simp: small_genv_def sample_env_def sample_config_def silent_def intro: exI [of _ "[]"])
  have still: "\<not> d_less (Fin 0) (g_real small_genv ''SpikeDamage'')" by (simp add: small_genv_def)
  have c: "gm_players small_game 1 = Some (sample_character\<lparr>ch_mapid := 1\<rparr>)" by (simp add: small_game_def)
  have pos: "\<not> ch_nowhere (sample_character\<lparr>ch_mapid := 1\<rparr>)" "ch_x (sample_character\<lparr>ch_mapid := 1\<rparr>) = 1"
    "ch_y (sample_character\<lparr>ch_mapid := 1\<rparr>) = 1"
    by (simp_all add: sample_character_def)
  have a: "area_of 1 small_game = Inr (0, hall)" by (simp add: area_of_def GetMap_def small_game_def player_def)
  have who: "standing (gm_players small_game) hall" by (simp add: standing_def hall_def small_game_def sample_character_def)
  obtain c' ks b where r: "gm_players gm' 1 = Some c'"
    "\<forall>q\<in>set (ar_who hall). q \<noteq> 1 \<longrightarrow>
       gets q (others_told (g_env small_genv) 1 b (walk_packet 1 DIRECTION_RIGHT c') (1, 1) (ch_x c', ch_y c')
         (place_of (gm_players small_game) q)) (gm_players small_game) (gm_players gm')"
    using walk_shows [OF run _ _ env(1,3) still c _ _ _ _ _ a who] pos by (auto simp: directions)
  have two: "gets 2 (others_told (g_env small_genv) 1 b (walk_packet 1 DIRECTION_RIGHT c') (1, 1) (2, 1) (13, 1))
      (gm_players small_game) (gm_players gm')"
    using r(2) [rule_format, of 2] r(1) c1 by (simp add: hall_def place_of_def small_game_def sample_character_def)
  have told: "others_told (g_env small_genv) 1 b m (1, 1) (2, 1) (13, 1) = [To_Self b, To_Self m]" for m
    by (simp add: others_told_def lost_def met_def visible_def far_def env(2))
  show ?thesis
    using run two unfolding told by (auto simp: gets_def small_game_def received_def sample_character_def)
qed

end
