(* ===== verification/Arena.thy ===== *)
theory Arena
  imports World_State
begin

text \<open>
  Arenas (\<open>src/src/arena.cpp\<close>): sending those who wait into the arena, and hits in it. Proved: an arena
  counts the characters that are in it.
\<close>

section \<open>The operations\<close>

text \<open>The timer of the arena calls \<open>Spawn\<close>; \<open>k\<close> is the area of the arena.\<close>

definition waiting :: "players \<Rightarrow> nat list \<Rightarrow> int \<Rightarrow> int \<Rightarrow> nat list" where
  "waiting w who x y = filter (\<lambda>q. case w q of None \<Rightarrow> False | Some d \<Rightarrow> ch_x d = x \<and> ch_y d = y) who"

definition send_area :: "nat \<Rightarrow> PacketBuilder \<Rightarrow> game \<Rightarrow> game" where
  "send_area k b gm = with_players (send_in (ar_who (gm_areas gm ! k)) (\<lambda>_ _. True) b) gm"

fun spawn_actions :: "players \<Rightarrow> nat list \<Rightarrow> (int \<times> int \<times> int \<times> int) list \<Rightarrow> (nat \<times> int \<times> int) list" where
  "spawn_actions w who [] = []"
| "spawn_actions w who ((sx, sy, dx, dy) # spawns) =
     (case waiting w who sx sy of [] \<Rightarrow> spawn_actions w who spawns | q # _ \<Rightarrow> (q, dx, dy) # spawn_actions w who spawns)"

definition call_up :: "nat \<Rightarrow> nat \<Rightarrow> game \<Rightarrow> game" where
  "call_up k p = with_fighter p (\<lambda>f. f\<lparr>ft_next := Some k, ft_kills := 0\<rparr>)"

fun warp_all :: "game_env \<Rightarrow> int \<Rightarrow> (nat \<times> int \<times> int) list \<Rightarrow> game \<Rightarrow> game outcome" where
  "warp_all g mapid [] gm = Inr gm"
| "warp_all g mapid ((p, x, y) # acts) gm = bind_out (Warp g p mapid x y 0 gm) (warp_all g mapid acts)"

definition Arena_Spawn :: "game_env \<Rightarrow> nat \<Rightarrow> bool \<Rightarrow> game \<Rightarrow> game outcome" where
  "Arena_Spawn g k force gm =
     (let a = gm_areas gm ! k; w = gm_players gm in
      case ar_arena a of
        None \<Rightarrow> Inr gm
      | Some r \<Rightarrow>
          (let newplayers = sum_list (map (\<lambda>(sx, sy, _). length (waiting w (ar_who a) sx sy)) (an_spawns r)) in
           if newplayers = 0 then Inr gm
           else if an_occupants r \<ge> an_block r \<and> \<not> force then Inr (send_area k (PacketBuilder_new PACKET_ARENA PACKET_DROP) gm)
           else
             (let acts = spawn_actions w (ar_who a) (an_spawns r);
                  gm = foldl (\<lambda>gm (q, _). call_up k q gm) gm acts in
              bind_out (warp_all g (m_id (ar_map a)) acts gm) (\<lambda>gm.
                Inr (send_area k (AddChar (of_nat newplayers) (PacketBuilder_new PACKET_ARENA PACKET_USE)) gm)))))"

text \<open>A hit: who stands before the attacker, in the same arena, is out; of two the attacker has won.\<close>

definition before :: "character \<Rightarrow> int \<times> int" where
  "before c =
     (if ch_direction c = 2 then (ch_x c, ch_y c - 1) else if ch_direction c = 3 then (ch_x c + 1, ch_y c)
      else if ch_direction c = 0 then (ch_x c, ch_y c + 1) else if ch_direction c = 1 then (ch_x c - 1, ch_y c)
      else (ch_x c, ch_y c))"

definition kill_packet :: "int \<Rightarrow> character \<Rightarrow> character \<Rightarrow> PacketBuilder" where
  "kill_packet kills c d =
     AddBreakString (source_name d) 255 (AddBreakString (source_name c) 255 (AddByte 255 (AddInt (of_int kills)
       (AddByte 255 (AddChar 0 (AddByte 255 (AddShort 0 (PacketBuilder_new PACKET_ARENA PACKET_SPEC))))))))"

definition win_packet :: "int \<Rightarrow> character \<Rightarrow> character \<Rightarrow> PacketBuilder" where
  "win_packet kills c d =
     AddBreakString (source_name d) 255 (AddBreakString (source_name c) 255 (AddByte 255 (AddInt (of_int kills)
       (AddBreakString (source_name c) 255 (PacketBuilder_new PACKET_ARENA PACKET_ACCEPT)))))"

definition to_schar :: "int \<Rightarrow> int" where
  "to_schar n = (n + 128) mod 256 - 128"

text \<open>The first one who stands before the attacker.\<close>

definition stands_before :: "nat \<Rightarrow> character \<Rightarrow> game \<Rightarrow> nat option" where
  "stands_before k c gm =
     find (\<lambda>q. ft_arena (gm_fighters gm q) = Some k)
       (waiting (gm_players gm) (ar_who (gm_areas gm ! k)) (fst (before c)) (snd (before c)))"

definition knock_out :: "game_env \<Rightarrow> nat \<Rightarrow> nat \<Rightarrow> character \<Rightarrow> nat \<Rightarrow> character \<Rightarrow> int \<Rightarrow> game \<Rightarrow> game outcome" where
  "knock_out g k p c q d kills gm =
     (let a = gm_areas gm ! k; m = ar_map a; out = (\<lambda>q. (q, m_relog_x m, m_relog_y m));
          two = (case ar_arena a of Some r \<Rightarrow> an_occupants r = 2 | None \<Rightarrow> False)
      in warp_all g (m_id m) (if two then [out q, out p] else [out q])
           (send_area k (if two then win_packet kills c d else kill_packet kills c d) gm))"

definition Arena_Attack :: "game_env \<Rightarrow> nat \<Rightarrow> nat \<Rightarrow> game \<Rightarrow> game outcome" where
  "Arena_Attack g k p gm =
     bind_out (player (gm_players gm) p) (\<lambda>c.
       case stands_before k c gm of
         None \<Rightarrow> Inr gm
       | Some q \<Rightarrow>
           bind_out (player (gm_players gm) q) (\<lambda>d.
             let kills = to_schar (ft_kills (gm_fighters gm p) + 1)
             in knock_out g k p c q d kills (with_fighter p (\<lambda>f. f\<lparr>ft_kills := kills\<rparr>) gm)))"

section \<open>An arena counts who is in it\<close>

text \<open>What of a game the arenas depend on.\<close>

definition arenas :: "game \<Rightarrow> arena option list" where
  "arenas gm = map ar_arena (gm_areas gm)"

definition fights :: "game \<Rightarrow> nat \<Rightarrow> nat option" where
  "fights gm = (\<lambda>p. ft_arena (gm_fighters gm p))"

definition same_arenas :: "game \<Rightarrow> game \<Rightarrow> bool" where
  "same_arenas gm gm' \<longleftrightarrow> arenas gm' = arenas gm \<and> fights gm' = fights gm"

definition counted :: "game \<Rightarrow> bool" where
  "counted gm \<longleftrightarrow> finite {p. fights gm p \<noteq> None} \<and>
     (\<forall>k r. k < length (gm_areas gm) \<longrightarrow> arenas gm ! k = Some r \<longrightarrow> an_occupants r = int (card {p. fights gm p = Some k}))"

lemma same_arenas_refl [simp]: "same_arenas gm gm"
  by (simp add: same_arenas_def)

lemma same_arenas_trans: "same_arenas a b \<Longrightarrow> same_arenas b c \<Longrightarrow> same_arenas a c"
  by (simp add: same_arenas_def)

lemma arenas_length: "arenas gm' = arenas gm \<Longrightarrow> length (gm_areas gm') = length (gm_areas gm)"
  unfolding arenas_def by (metis length_map)

lemma same_arenas_counted: "same_arenas gm gm' \<Longrightarrow> counted gm \<Longrightarrow> counted gm'"
  using arenas_length [of gm' gm] by (simp add: same_arenas_def counted_def)

lemma same_players [simp]:
  "same_arenas gm (gm'\<lparr>gm_players := w\<rparr>) = same_arenas gm gm'" "same_arenas gm (with_players f gm') = same_arenas gm gm'"
  "same_arenas (gm\<lparr>gm_players := w\<rparr>) gm' = same_arenas gm gm'" "same_arenas (with_players f gm) gm' = same_arenas gm gm'"
  by (simp_all add: same_arenas_def arenas_def fights_def with_players_def)

lemma try_players_same: "try_players f gm = Inr gm' \<Longrightarrow> same_arenas gm gm'"
  by (auto simp: try_players_def bind_out_Inr_iff)

lemma with_area_same: "(\<And>a. ar_arena (f a) = ar_arena a) \<Longrightarrow> same_arenas gm (with_area k f gm)"
  using list_update_id [of "map ar_arena (gm_areas gm)" k]
  by (cases "k < length (gm_areas gm)")
     (auto simp: same_arenas_def arenas_def fights_def with_area_def map_update list_update_beyond)

lemma Leave_same: "Leave g p animation silent k gm = Inr gm' \<Longrightarrow> same_arenas gm gm'"
proof -
  assume run: "Leave g p animation silent k gm = Inr gm'"
  have "same_arenas x (with_area k (\<lambda>a. a\<lparr>ar_who := removeAll p (ar_who a)\<rparr>) x)" for x by (rule with_area_same) simp
  from this [of gm] this [of "with_players _ gm"] show ?thesis
    using run unfolding Leave_def bind_out_Inr_iff Let_def by (auto split: if_splits)
qed

lemma Enter_same: "Enter g p animation k gm = Inr gm' \<Longrightarrow> same_arenas gm gm'"
proof -
  assume run: "Enter g p animation k gm = Inr gm'"
  let ?a = "with_area k (\<lambda>a. a\<lparr>ar_who := ar_who a @ [p]\<rparr>) gm"
  have "same_arenas gm ?a" by (rule with_area_same) simp
  moreover have "same_arenas ?a gm'"
    using run unfolding Enter_def Let_def bind_out_Inr_iff by (auto dest!: try_players_same)
  ultimately show ?thesis by (rule same_arenas_trans)
qed

text \<open>Counting: leaving and entering.\<close>

lemma count_arena_at:
  "arenas (count_arena k d gm) = (arenas gm)[k := map_option (\<lambda>r. r\<lparr>an_occupants := an_occupants r + d\<rparr>) (arenas gm ! k)]"
  "fights (count_arena k d gm) = fights gm" "length (gm_areas (count_arena k d gm)) = length (gm_areas gm)"
  "gm_fighters (count_arena k d gm) = gm_fighters gm"
  by (cases "k < length (gm_areas gm)"; simp add: arenas_def fights_def count_arena_def with_area_def map_update list_update_beyond)+

lemma with_fighter_at:
  "arenas (with_fighter p f gm) = arenas gm" "fights (with_fighter p f gm) = (fights gm)(p := ft_arena (f (gm_fighters gm p)))"
  "gm_areas (with_fighter p f gm) = gm_areas gm"
  by (simp_all add: arenas_def fights_def with_fighter_def fun_eq_iff)

lemma length_arenas [simp]: "length (arenas gm) = length (gm_areas gm)"
  by (simp add: arenas_def)

lemma ft_arena_fights: "ft_arena (gm_fighters gm p) = fights gm p"
  by (simp add: fights_def)

lemma leave_arena_counted:
  assumes "counted gm"
  shows "counted (leave_arena p gm) \<and> fights (leave_arena p gm) = (fights gm)(p := None)"
proof (cases "fights gm p")
  case None
  then show ?thesis using assms by (simp add: leave_arena_def ft_arena_fights fun_upd_idem)
next
  case (Some k)
  let ?F = "fights gm"
  have fin: "finite {q. ?F q \<noteq> None}" using assms by (simp add: counted_def)
  have "{q. (?F(p := None)) q = Some j} = (if j = k then {q. ?F q = Some k} - {p} else {q. ?F q = Some j})" for j
    using Some by auto
  moreover have here: "finite {q. ?F q = Some k}" by (rule finite_subset [OF _ fin]) auto
  moreover have "0 < card {q. ?F q = Some k}" using here Some by (auto simp: card_gt_0_iff)
  ultimately have card: "int (card {q. (?F(p := None)) q = Some j}) = int (card {q. ?F q = Some j}) + (if j = k then - 1 else 0)" for j
    using Some by (auto simp: card_Diff_singleton of_nat_diff)
  have "finite {q. (?F(p := None)) q \<noteq> None}" by (rule finite_subset [OF _ fin]) auto
  then show ?thesis
    using assms Some card by (auto simp: leave_arena_def ft_arena_fights counted_def count_arena_at with_fighter_at nth_list_update)
qed


lemma enter_arena_counted:
  assumes "counted gm" "fights gm p = None"
  shows "counted (enter_arena p gm)"
proof (cases "ft_next (gm_fighters gm p)")
  case None
  then show ?thesis using assms(1) by (simp add: enter_arena_def)
next
  case (Some k)
  let ?F = "fights gm"
  have fin: "finite {q. ?F q \<noteq> None}" using assms(1) by (simp add: counted_def)
  have "{q. (?F(p := Some k)) q = Some j} = (if j = k then insert p {q. ?F q = Some k} else {q. ?F q = Some j})" for j
    using assms(2) by auto
  moreover have "finite {q. ?F q = Some k}" by (rule finite_subset [OF _ fin]) auto
  ultimately have card: "int (card {q. (?F(p := Some k)) q = Some j}) = int (card {q. ?F q = Some j}) + (if j = k then 1 else 0)" for j
    using assms(2) by auto
  have "{q. (?F(p := Some k)) q \<noteq> None} \<subseteq> insert p {q. ?F q \<noteq> None}" by auto
  then have "finite {q. (?F(p := Some k)) q \<noteq> None}" by (rule finite_subset) (simp only: finite_insert fin)
  then show ?thesis
    using assms Some card by (auto simp: enter_arena_def counted_def count_arena_at with_fighter_at nth_list_update)
qed

lemma Warp_from_counted:
  assumes "Warp_from inside g p mapid x y animation gm = Inr gm'" "counted gm"
  shows "counted gm'"
proof -
  have "gm' = gm \<or> (\<exists>gm1. same_arenas gm gm1 \<and> gm' = enter_arena p (leave_arena p gm1))"
  proof (cases "mapid \<le> 0 \<or> mapid > int (length (gm_areas gm)) \<or> \<not> m_exists (ar_map (gm_areas gm ! nat (mapid - 1)))")
    case True
    then show ?thesis using assms(1) unfolding Warp_from_def bind_out_Inr_iff by auto
  next
    case False
    obtain a :: area and c d w b pk where "(if inside \<and> m_exists (ar_map a) then Leave g p animation False w gm else Inr gm) = Inr b"
      and b: "try_players (end_trade g p) (with_players (alter p (arrive mapid x y)) b) = Inr c"
        "Enter g p animation (nat (mapid - 1)) (with_players (alter p (\<lambda>c. c\<lparr>ch_warp_anim := animation, ch_nowhere := False\<rparr>)) c) = Inr d"
        "gm' = enter_arena p (leave_arena p (with_players (send_to p pk) d))"
      using assms(1) False unfolding Warp_from_def by (auto simp: bind_out_Inr_iff split: prod.splits)
    then have "same_arenas gm b" by (auto dest: Leave_same split: if_splits)
    moreover have "same_arenas b c" using try_players_same [OF b(1)] by simp
    moreover have "same_arenas c d" using Enter_same [OF b(2)] by simp
    ultimately have "same_arenas gm d" by (blast intro: same_arenas_trans)
    then show ?thesis using b(3) by (metis same_players(2))
  qed
  then show ?thesis
    using assms(2) same_arenas_counted leave_arena_counted enter_arena_counted
    by (metis fun_upd_same)
qed

lemma warp_all_counted: "warp_all g mapid acts gm = Inr gm' \<Longrightarrow> counted gm \<Longrightarrow> counted gm'"
proof (induction acts arbitrary: gm)
  case (Cons act acts)
  obtain p x y where act: "act = (p, x, y)" by (cases act)
  obtain gm1 where "Warp g p mapid x y 0 gm = Inr gm1" "warp_all g mapid acts gm1 = Inr gm'"
    using Cons.prems(1) by (auto simp: act bind_out_Inr_iff)
  then show ?case using Cons.IH Warp_from_counted Cons.prems(2) unfolding Warp_def by blast
qed simp

lemma with_fighter_same: "ft_arena (f (gm_fighters gm p)) = ft_arena (gm_fighters gm p) \<Longrightarrow> same_arenas gm (with_fighter p f gm)"
  by (simp add: same_arenas_def with_fighter_at) (simp add: fights_def fun_eq_iff)

lemma call_all_same: "same_arenas gm (foldl (\<lambda>gm (q, _). call_up k q gm) gm acts)"
proof (induction acts arbitrary: gm)
  case (Cons act acts)
  have "same_arenas gm (call_up k (fst act) gm)" unfolding call_up_def by (rule with_fighter_same) simp
  then show ?case using Cons.IH [of "call_up k (fst act) gm"] same_arenas_trans by (auto split: prod.splits)
qed simp

lemma send_area_counted [simp]: "counted (send_area k b gm) = counted gm"
  using same_arenas_counted [of gm "send_area k b gm"] same_arenas_counted [of "send_area k b gm" gm]
  by (auto simp: send_area_def)

lemma Arena_Spawn_counted:
  assumes "Arena_Spawn g k force gm = Inr gm'" "counted gm"
  shows "counted gm'"
  using assms call_all_same [of gm k] same_arenas_counted warp_all_counted
  unfolding Arena_Spawn_def Let_def
  by (auto simp: bind_out_Inr_iff split: option.splits if_splits) blast+

lemma Arena_Attack_counted:
  assumes "Arena_Attack g k p gm = Inr gm'" "counted gm"
  shows "counted gm'"
proof -
  obtain c where c: "gm_players gm p = Some c" using assms(1) by (auto simp: Arena_Attack_def bind_out_Inr_iff)
  have hit: "counted (with_fighter p (\<lambda>f. f\<lparr>ft_kills := n\<rparr>) gm)" for n
    by (rule same_arenas_counted [OF with_fighter_same assms(2)]) simp
  show ?thesis
  proof (cases "stands_before k c gm")
    case None
    then show ?thesis using assms c by (simp add: Arena_Attack_def bind_out_Inr_iff)
  next
    case (Some q)
    then obtain d n where "knock_out g k p c q d n (with_fighter p (\<lambda>f. f\<lparr>ft_kills := n\<rparr>) gm) = Inr gm'"
      using assms(1) c by (auto simp: Arena_Attack_def Let_def bind_out_Inr_iff)
    then show ?thesis
      unfolding knock_out_def Let_def by (rule warp_all_counted) (simp add: hit)
  qed
qed


section \<open>The invariant\<close>

text \<open>What touches arenas: warps, calls into an arena, hits in it, and characters that leave for good.\<close>

inductive arena_step :: "game_env \<Rightarrow> game \<Rightarrow> game \<Rightarrow> bool" for g where
  Warps: "Warp_from inside g p mapid x y animation gm = Inr gm' \<Longrightarrow> arena_step g gm gm'"
| Calls: "Arena_Spawn g k force gm = Inr gm' \<Longrightarrow> arena_step g gm gm'"
| Hits: "Arena_Attack g k p gm = Inr gm' \<Longrightarrow> arena_step g gm gm'"
| Quits: "arena_step g gm (leave_arena p gm)"
| Others: "same_arenas gm gm' \<Longrightarrow> arena_step g gm gm'"

lemma arena_step_counted: "arena_step g gm gm' \<Longrightarrow> counted gm \<Longrightarrow> counted gm'"
  by (induction rule: arena_step.induct)
     (blast intro: Warp_from_counted Arena_Spawn_counted Arena_Attack_counted same_arenas_counted leave_arena_counted [THEN conjunct1])+

text \<open>
  C21: An arena counts the characters in it. From a game with nobody in an arena, by warps, calls into an arena, hits
  and everything that touches no arena, the number of occupants of every arena is the number of characters that are in it; a
  hit that ends a fight of two looks at this number.
\<close>

theorem arena_counts:
  assumes "(arena_step g)\<^sup>*\<^sup>* gm gm'" and nobody: "\<forall>p. ft_arena (gm_fighters gm p) = None"
    and empty: "\<forall>a \<in> set (gm_areas gm). \<forall>r. ar_arena a = Some r \<longrightarrow> an_occupants r = 0"
    and k: "k < length (gm_areas gm')" "ar_arena (gm_areas gm' ! k) = Some r"
  shows "an_occupants r = int (card {p. ft_arena (gm_fighters gm' p) = Some k})"
proof -
  have "counted gm"
    unfolding counted_def using nobody empty by (auto simp: fights_def arenas_def)
  then have "counted gm'"
    using assms(1) by (induction rule: rtranclp_induct [OF assms(1)]) (auto intro: arena_step_counted)
  then show ?thesis using k by (simp add: counted_def fights_def arenas_def)
qed

text \<open>\<open>alice\<close> stands on the place of an arena and is called.\<close>

definition small_arena :: game where
  "small_arena = small_game\<lparr>gm_areas := [hall\<lparr>ar_arena := Some \<lparr>an_spawns = [(1, 1, 5, 1)], an_block = 2, an_occupants = 0\<rparr>\<rparr>]\<rparr>"

theorem arena_counts_witness:
  "\<exists>gm' r. Arena_Spawn small_genv 0 False small_arena = Inr gm' \<and> ar_arena (gm_areas gm' ! 0) = Some r \<and>
    an_occupants r = int (card {p. ft_arena (gm_fighters gm' p) = Some 0}) \<and> an_occupants r = 1"
proof -
  let ?run = "Arena_Spawn small_genv 0 False small_arena"
  have "map_sum id (\<lambda>gm. map (map_option an_occupants \<circ> ar_arena) (gm_areas gm)) ?run = Inr [Some 1]" by code_simp
  then obtain gm' where run: "?run = Inr gm'" and occ: "map (map_option an_occupants \<circ> ar_arena) (gm_areas gm') = [Some 1]"
    by (cases ?run) auto
  from occ obtain a r where a: "gm_areas gm' = [a]" "ar_arena a = Some r" "an_occupants r = 1"
    by (auto simp: map_eq_Cons_conv)
  have "(arena_step small_genv)\<^sup>*\<^sup>* small_arena gm'" using Calls [OF run] by blast
  then have "an_occupants r = int (card {p. ft_arena (gm_fighters gm' p) = Some 0})"
    by (rule arena_counts) (auto simp: small_arena_def small_game_def a)
  then show ?thesis using run a by auto
qed

end
