(* ===== verification/Npc.thy ===== *)
theory Npc
  imports Area Arena
begin

text \<open>
  NPCs that fight (\<open>src/src/npc.cpp\<close>): damage done to them, the kill with the drop and the experience, death, their
  own attacks and what they do on their own. An NPC keeps a ledger of who has damaged it how much; the main property
  is that this ledger always adds up and agrees with the lists of NPCs the characters keep. Random numbers are drawn
  from \<open>g_roll\<close>, one after the other.
\<close>

section \<open>NPCs and random numbers\<close>

definition ENF_Passive :: int where "ENF_Passive = 1"
definition ENF_Aggressive :: int where "ENF_Aggressive = 2"

definition enf_of :: "game_env \<Rightarrow> npc \<Rightarrow> enf_data outcome" where
  "enf_of g n = ENF_Get (g_enf g) (of_int (np_id n))"

text \<open>An NPC is found by its key, which stands for its address.\<close>

definition the_npc :: "nat \<Rightarrow> nat \<Rightarrow> game \<Rightarrow> npc outcome" where
  "the_npc k key gm =
     (case find (\<lambda>n. np_key n = key) (ar_npcs (gm_areas gm ! k)) of None \<Rightarrow> Inl Null_Dereference | Some n \<Rightarrow> Inr n)"

definition with_npc :: "nat \<Rightarrow> nat \<Rightarrow> (npc \<Rightarrow> npc) \<Rightarrow> game \<Rightarrow> game" where
  "with_npc k key f = with_area k (\<lambda>a. a\<lparr>ar_npcs := map (\<lambda>n. if np_key n = key then f n else n) (ar_npcs a)\<rparr>)"

definition roll_int :: "game_env \<Rightarrow> int \<Rightarrow> int \<Rightarrow> game \<Rightarrow> (int \<times> game) outcome" where
  "roll_int g lo hi gm =
     bind_out (rand_int (g_roll g (gm_rolls gm)) lo hi) (\<lambda>n. Inr (n, gm\<lparr>gm_rolls := gm_rolls gm + 1\<rparr>))"

definition roll_real :: "game_env \<Rightarrow> double \<Rightarrow> double \<Rightarrow> game \<Rightarrow> double \<times> game" where
  "roll_real g lo hi gm = (rand_double (g_roll g (gm_rolls gm)) lo hi, gm\<lparr>gm_rolls := gm_rolls gm + 1\<rparr>)"

text \<open>A packet to those who see an NPC, and the health of something in percent.\<close>

definition send_seeing :: "game_env \<Rightarrow> nat \<Rightarrow> npc \<Rightarrow> PacketBuilder \<Rightarrow> game \<Rightarrow> game" where
  "send_seeing g k n b gm = with_players (send_in (ar_who (gm_areas gm ! k)) (\<lambda>_ d. sees_npc (g_env g) n d) b) gm"

definition percent :: "int \<Rightarrow> int \<Rightarrow> int outcome" where
  "percent hp maxhp =
     bind_out (d_to_int (d_mul (d_div (d_of_int hp) (d_of_int maxhp)) (d_of_int 100))) (\<lambda>n. Inr (max 0 (min n 100)))"

definition with_social :: "(social \<Rightarrow> social outcome) \<Rightarrow> game \<Rightarrow> game outcome" where
  "with_social f gm =
     bind_out (f \<lparr>so_players = gm_players gm, so_parties = gm_parties gm, so_asks = gm_asks gm\<rparr>) (\<lambda>s.
       Inr (gm\<lparr>gm_players := so_players s, gm_parties := so_parties s, gm_asks := so_asks s\<rparr>))"

text \<open>The constructor; \<open>old\<close> is what lies in the memory of the fields that are not set.\<close>

definition new_npc :: "npc \<Rightarrow> int \<Rightarrow> int \<Rightarrow> int \<Rightarrow> int \<Rightarrow> int \<Rightarrow> int \<Rightarrow> bool \<Rightarrow> npc" where
  "new_npc old nid x y spawn_type spawn_time index temporary =
     old\<lparr>np_id := nid, np_temporary := temporary, np_index := index, np_spawn_x := x, np_x := x, np_spawn_y := y, np_y := y,
         np_alive := False, np_attack := False, np_totaldamage := 0, np_damagelist := [], np_spawn_type := min spawn_type 7,
         np_spawn_time := (if spawn_type \<ge> 7 then 0 else spawn_time), np_walk_idle_for := 0,
         np_direction := (if spawn_type \<ge> 7 then take_bit 2 spawn_time else DIRECTION_DOWN), np_parent := None\<rparr>"

section \<open>Death without a killer\<close>

text \<open>The characters of the ledger forget the NPC.\<close>

definition unregister :: "nat \<Rightarrow> nat \<Rightarrow> nat list \<Rightarrow> game \<Rightarrow> game" where
  "unregister k key ps gm =
     gm\<lparr>gm_registered := (\<lambda>p. if p \<in> set ps then removeAll (k, key) (gm_registered gm p) else gm_registered gm p)\<rparr>"

definition clear_ledger :: "nat \<Rightarrow> nat \<Rightarrow> npc \<Rightarrow> game \<Rightarrow> game" where
  "clear_ledger k key n gm =
     with_npc k key (\<lambda>n. n\<lparr>np_damagelist := [], np_totaldamage := 0\<rparr>) (unregister k key (map op_attacker (np_damagelist n)) gm)"

text \<open>A temporary NPC is taken off the map; characters that talk to it do so no more (\<open>NPC::~NPC\<close>).\<close>

definition remove_npc :: "nat \<Rightarrow> nat \<Rightarrow> game \<Rightarrow> game" where
  "remove_npc k key gm =
     (let who = ar_who (gm_areas gm ! k); forget = (\<lambda>d. if ch_npc d = Some key then d\<lparr>ch_npc := None, ch_npc_type := 0\<rparr> else d) in
      with_players (\<lambda>w q. if q \<in> set who then map_option forget (w q) else w q)
        (with_area k (\<lambda>a. a\<lparr>ar_npcs := filter (\<lambda>n. np_key n \<noteq> key) (ar_npcs a)\<rparr>) gm))"

definition died_packet :: "npc \<Rightarrow> PacketBuilder" where
  "died_packet n =
     AddThree (of_int (np_hp n)) (AddInt 0 (AddChar (of_int (np_y n)) (AddChar (of_int (np_x n)) (AddShort 0 (AddShort 0
       (AddShort (of_int (np_index n)) (AddChar 0 (AddShort 0 (PacketBuilder_new PACKET_NPC PACKET_SPEC)))))))))"

definition fall_dead :: "game_env \<Rightarrow> nat \<Rightarrow> nat \<Rightarrow> npc \<Rightarrow> bool \<Rightarrow> int \<Rightarrow> game \<Rightarrow> game" where
  "fall_dead g k key n vis now gm =
     (let gm = with_npc k key (\<lambda>n. n\<lparr>np_alive := False, np_parent := None, np_dead_since := d_of_int now\<rparr>) gm;
          gm = clear_ledger k key n gm;
          gm = (if vis then send_seeing g k n (died_packet n) gm else gm)
      in if np_temporary n then remove_npc k key gm else gm)"

definition Die :: "game_env \<Rightarrow> nat \<Rightarrow> nat \<Rightarrow> bool \<Rightarrow> game \<Rightarrow> game outcome" where
  "Die g k key vis gm =
     bind_out (the_npc k key gm) (\<lambda>n.
       if \<not> np_alive n then Inr gm
       else bind_out (d_to_int (g_now g)) (\<lambda>now. Inr (fall_dead g k key n vis now gm)))"

section \<open>The drop\<close>

text \<open>\<open>util::rand\<close> with a \<open>double\<close>: which drops pass their chance.\<close>

fun lucky_drops :: "game_env \<Rightarrow> double \<Rightarrow> npc_drop list \<Rightarrow> game \<Rightarrow> npc_drop list \<times> game" where
  "lucky_drops g rate [] gm = ([], gm)"
| "lucky_drops g rate (d # ds) gm =
     (let (r, gm) = roll_real g (Fin 0) (d_of_int 100) gm; (lucky, gm) = lucky_drops g rate ds gm
      in (if d_le r (d_mul (dr_chance d) rate) then d # lucky else lucky, gm))"

fun first_drop :: "game_env \<Rightarrow> double \<Rightarrow> npc_drop list \<Rightarrow> game \<Rightarrow> npc_drop option \<times> game" where
  "first_drop g rate [] gm = (None, gm)"
| "first_drop g rate (d # ds) gm =
     (let (r, gm) = roll_real g (Fin 0) (d_of_int 100) gm
      in if d_le r (d_mul (dr_chance d) rate) then (Some d, gm) else first_drop g rate ds gm)"

definition choose_drop :: "game_env \<Rightarrow> npc_data \<Rightarrow> game \<Rightarrow> (npc_drop option \<times> game) outcome" where
  "choose_drop g data gm =
     (let rate = g_real g ''DropRate''; mode = g_config g ''DropRateMode'' in
      if mode = 1 then
        (let (ds, gm) = lucky_drops g rate (nd_drops data) gm in
         if ds = [] then Inr (None, gm)
         else bind_out (roll_int g 0 (int (length ds) - 1) gm) (\<lambda>(i, gm).
           if 0 \<le> i \<and> i < int (length ds) then Inr (Some (ds ! nat i), gm) else Inl Read_Out_Of_Bounds))
      else if mode = 2 then Inr (first_drop g rate (nd_drops data) gm)
      else if mode = 3 then
        (let (r, gm) = roll_real g (Fin 0) (nd_chance_total data) gm in
         Inr (find (\<lambda>d. d_le (dr_offset d) r \<and> d_less r (d_add (dr_offset d) (dr_chance d))) (nd_drops data), gm))
      else Inr (None, gm))"

text \<open>Who gets it: the mode of sharing decides. The test of mode 2 is the one of the code.\<close>

fun most_damage :: "npc_opponent list \<Rightarrow> int \<Rightarrow> nat option \<Rightarrow> nat option" where
  "most_damage [] best who = who"
| "most_damage (x # xs) best who =
     (if op_damage x > best then most_damage xs (op_damage x) (Some (op_attacker x)) else most_damage xs best who)"

fun rewarded :: "int \<Rightarrow> int \<Rightarrow> npc_opponent list \<Rightarrow> nat option" where
  "rewarded r sofar [] = None"
| "rewarded r sofar (x # xs) =
     (if r \<ge> sofar \<and> r < op_damage x then Some (op_attacker x) else rewarded r (sofar + op_damage x) xs)"

definition sees_from :: "game_env \<Rightarrow> npc \<Rightarrow> players \<Rightarrow> nat \<Rightarrow> bool" where
  "sees_from g n w p = (case w p of None \<Rightarrow> False | Some d \<Rightarrow> sees_npc (g_env g) n d)"

definition drop_winner :: "game_env \<Rightarrow> nat \<Rightarrow> npc \<Rightarrow> game \<Rightarrow> (nat option \<times> game) outcome" where
  "drop_winner g p n gm =
     (let mode = g_config g ''ShareMode''; near = filter (\<lambda>x. sees_from g n (gm_players gm) (op_attacker x)) (np_damagelist n) in
      if mode = 0 then Inr (Some p, gm)
      else if mode = 1 then Inr (most_damage (np_damagelist n) 0 None, gm)
      else if mode = 2 then bind_out (roll_int g 0 (np_totaldamage n - 1) gm) (\<lambda>(r, gm). Inr (rewarded r 0 near, gm))
      else if mode = 3 then bind_out (roll_int g 0 (int (length (np_damagelist n)) - 1) gm) (\<lambda>(r, gm).
        Inr (if 0 \<le> r \<and> r < int (length near) then Some (op_attacker (near ! nat r)) else None, gm))
      else Inr (None, gm))"

text \<open>What the packets say about it: the identifier, the item, the amount and the winner.\<close>

record dropped =
  dp_uid :: int
  dp_id :: int
  dp_amount :: int
  dp_winner :: "nat option"

definition make_drop :: "game_env \<Rightarrow> nat \<Rightarrow> nat \<Rightarrow> npc \<Rightarrow> npc_drop option \<Rightarrow> game \<Rightarrow> (dropped \<times> game) outcome" where
  "make_drop g k p n choice gm =
     (case choice of
        None \<Rightarrow> Inr (\<lparr>dp_uid = 0, dp_id = 0, dp_amount = 0, dp_winner = None\<rparr>, gm)
      | Some d \<Rightarrow>
          bind_out (roll_int g (dr_min d) (dr_max d) gm) (\<lambda>(a, gm). let amount = min a (g_config g ''MaxItem'') in
          if dr_id d \<le> 0 \<or> dr_id d \<ge> int (length (pub_data (w_eif (g_env g)))) \<or> amount \<le> 0
          then Inr (\<lparr>dp_uid = 0, dp_id = dr_id d, dp_amount = amount, dp_winner = None\<rparr>, gm)
          else
            let uid = GenerateItemID (ar_map (gm_areas gm ! k)) in
            bind_out (drop_winner g p n gm) (\<lambda>(winner, gm).
              let it = \<lparr>mi_uid = to_short uid, mi_id = to_short (dr_id d), mi_amount = amount, mi_x = np_x n, mi_y = np_y n,
                        mi_owner = int (case winner of Some q \<Rightarrow> q | None \<Rightarrow> p),
                        mi_unprotecttime = d_add (g_now g) (d_of_int (g_config g ''ProtectNPCDrop''))\<rparr>;
                  gm = with_area k (\<lambda>a. a\<lparr>ar_map := (ar_map a)\<lparr>m_items := m_items (ar_map a) @ [it]\<rparr>\<rparr>) gm
              in Inr (\<lparr>dp_uid = uid, dp_id = dr_id d, dp_amount = amount, dp_winner = winner\<rparr>, gm))))"

section \<open>Experience\<close>

text \<open>
  The levels gained: the table has 254 entries, and reading behind it is undefined. A level is gained at most 254 times
  unless the rules of quests change the level; the fuel of 255 is enough then.
\<close>

definition exp_needed :: "game_env \<Rightarrow> int \<Rightarrow> int outcome" where
  "exp_needed g level = (if level < 254 then Inr (g_exp_table g level) else Inl Read_Out_Of_Bounds)"

fun level_ups :: "game_env \<Rightarrow> nat \<Rightarrow> bool \<Rightarrow> character \<Rightarrow> (bool \<times> character) outcome" where
  "level_ups g 0 up c = Inl (Runtime_Error ''levels without end'')"
| "level_ups g (Suc fuel) up c =
     (if ch_level c < g_config g ''MaxLevel'' then
        bind_out (exp_needed g (ch_level c + 1)) (\<lambda>e.
          if ch_exp c \<ge> e then bind_out (gain_level (g_env g) c) (level_ups g fuel True) else Inr (up, c))
      else Inr (up, c))"

definition gain_exp :: "nat \<Rightarrow> int \<Rightarrow> game \<Rightarrow> game outcome" where
  "gain_exp p reward gm =
     bind_out (player (gm_players gm) p) (\<lambda>c. bind_out (int_result (ch_exp c + reward)) (\<lambda>e.
       Inr (with_players (alter p (\<lambda>c. c\<lparr>ch_exp := e\<rparr>)) gm)))"

text \<open>The reward for one character: at once, by its party, or put into the sum of its party.\<close>

definition share_of :: "game_env \<Rightarrow> enf_data \<Rightarrow> double \<Rightarrow> int outcome" where
  "share_of g enf part = d_to_int (d_ceil (d_mul (d_mul (d_of_int (n_exp enf)) (g_real g ''ExpRate'')) part))"

definition whole_exp :: "game_env \<Rightarrow> enf_data \<Rightarrow> int outcome" where
  "whole_exp g enf = d_to_int (d_ceil (d_mul (d_of_int (n_exp enf)) (g_real g ''ExpRate'')))"

definition reward_alone :: "game_env \<Rightarrow> nat \<Rightarrow> nat \<Rightarrow> int \<Rightarrow> game \<Rightarrow> game outcome" where
  "reward_alone g k q reward gm =
     (let mode = g_config g ''PartyShareMode'' in
      bind_out (player (gm_players gm) q) (\<lambda>c.
        if reward \<le> 0 then Inr gm
        else case ch_party c of
          Some t \<Rightarrow> if mode \<noteq> 0
                    then with_social (ShareEXP (g_env g) (g_exp_table g) t reward mode (m_id (ar_map (gm_areas gm ! k)))) gm
                    else gain_exp q reward gm
        | None \<Rightarrow> gain_exp q reward gm))"

definition add_expsum :: "nat \<Rightarrow> int \<Rightarrow> game \<Rightarrow> game outcome" where
  "add_expsum t reward gm =
     (if t < length (gm_parties gm) then
        (case gm_parties gm ! t of
           None \<Rightarrow> Inl Null_Dereference
         | Some P \<Rightarrow> bind_out (int_result (pt_expsum P + reward)) (\<lambda>e.
             Inr (gm\<lparr>gm_parties := (gm_parties gm)[t := Some (P\<lparr>pt_expsum := e\<rparr>)]\<rparr>)))
      else Inl Null_Dereference)"

text \<open>\<open>ts\<close> are the parties the sums of which are shared at the end; mode 3 does not enter its party there.\<close>

definition reward_shared :: "game_env \<Rightarrow> bool \<Rightarrow> nat \<Rightarrow> int \<Rightarrow> nat list \<times> game \<Rightarrow> (nat list \<times> game) outcome" where
  "reward_shared g note_party q reward s =
     (let (ts, gm) = s; mode = g_config g ''PartyShareMode'' in
      bind_out (player (gm_players gm) q) (\<lambda>c.
        if reward \<le> 0 then Inr s
        else case ch_party c of
          Some t \<Rightarrow> if mode \<noteq> 0 then bind_out (add_expsum t reward gm) (\<lambda>gm. Inr (if note_party then (insort t (removeAll t ts), gm) else (ts, gm)))
                    else bind_out (gain_exp q reward gm) (\<lambda>gm. Inr (ts, gm))
        | None \<Rightarrow> bind_out (gain_exp q reward gm) (\<lambda>gm. Inr (ts, gm))))"

definition reward_one :: "game_env \<Rightarrow> nat \<Rightarrow> nat \<Rightarrow> nat option \<Rightarrow> npc \<Rightarrow> enf_data \<Rightarrow> npc_opponent \<Rightarrow> nat \<Rightarrow> nat list \<times> game \<Rightarrow>
    (nat list \<times> game) outcome" where
  "reward_one g k p best n enf x q s =
     (let mode = g_config g ''ShareMode''; alone = (\<lambda>r. bind_out (reward_alone g k q r (snd s)) (\<lambda>gm. Inr (fst s, gm))) in
      if mode = 0 then (if q = p then bind_out (whole_exp g enf) alone else Inr s)
      else if mode = 1 then (if Some q = best then bind_out (whole_exp g enf) alone else Inr s)
      else if mode = 2 then
        bind_out (share_of g enf (d_div (d_of_int (op_damage x)) (d_of_int (np_totaldamage n)))) (\<lambda>r. reward_shared g True q r s)
      else if mode = 3 then
        bind_out (share_of g enf (d_div (d_of_int (int (length (np_damagelist n)))) (Fin 1))) (\<lambda>r. reward_shared g False q r s)
      else Inr s)"

definition cap_exp :: "game_env \<Rightarrow> nat \<Rightarrow> game \<Rightarrow> (bool \<times> game) outcome" where
  "cap_exp g q gm =
     bind_out (run_on q (\<lambda>c. level_ups g 255 False (c\<lparr>ch_exp := min (ch_exp c) (g_config g ''MaxExp'')\<rparr>)) (gm_players gm)) (\<lambda>(up, w).
       Inr (up, gm\<lparr>gm_players := w\<rparr>))"

section \<open>The kill\<close>

definition by_spell :: "int \<Rightarrow> (PacketBuilder \<Rightarrow> PacketBuilder) \<Rightarrow> PacketBuilder \<Rightarrow> PacketBuilder" where
  "by_spell sid f b = (if sid \<noteq> - 1 then f b else b)"

definition fighting_family :: "int \<Rightarrow> PacketFamily" where
  "fighting_family sid = (if sid = - 1 then PACKET_NPC else PACKET_CAST)"

definition kill_notice :: "game_env \<Rightarrow> nat \<Rightarrow> npc \<Rightarrow> int \<Rightarrow> int \<Rightarrow> dropped \<Rightarrow> nat \<Rightarrow> bool \<Rightarrow> bool \<Rightarrow> players \<Rightarrow> PacketBuilder outcome" where
  "kill_notice g p n amount sid fallen q listed up w =
     bind_out (player w p) (\<lambda>from. bind_out (player w q) (\<lambda>c.
     bind_out (player w (case dp_winner fallen of Some v \<Rightarrow> v | None \<Rightarrow> p)) (\<lambda>winner.
       let b = PacketBuilder_new (fighting_family sid) (if up then PACKET_ACCEPT else PACKET_SPEC);
           b = by_spell sid (AddShort (of_int sid)) b;
           b = AddShort (pid_short (case dp_winner fallen of Some v \<Rightarrow> v | None \<Rightarrow> p)) b;
           b = AddShort (of_int (np_index n)) (AddChar (of_int (ch_direction winner)) b);
           b = AddShort (of_int (dp_id fallen)) (AddShort (of_int (dp_uid fallen)) b);
           b = AddChar (of_int (np_y n)) (AddChar (of_int (np_x n)) b);
           b = AddThree (of_int amount) (AddInt (of_int (dp_amount fallen)) b);
           b = by_spell sid (AddShort (of_int (ch_tp from))) b;
           b = (if (if g_config g ''ShareMode'' = 0 then q = p else listed) then AddInt (of_int (ch_exp c)) b else b);
           s = stats c
       in Inr (if up then foldl (\<lambda>b x. AddShort (of_int x) b) (AddChar (of_int (ch_level c)) b)
                 [ch_statpoints c, ch_skillpoints c, d_maxhp s, d_maxtp s, d_maxsp s] else b))))"

definition level_up_packet :: "nat \<Rightarrow> PacketBuilder" where
  "level_up_packet q = AddShort (pid_short q) (PacketBuilder_new PACKET_ITEM PACKET_ACCEPT)"

text \<open>One character of the map: it is rewarded if it is in the ledger, and told if it is in the ledger or sees the NPC.\<close>

definition reward_and_tell :: "game_env \<Rightarrow> nat \<Rightarrow> nat \<Rightarrow> npc \<Rightarrow> enf_data \<Rightarrow> int \<Rightarrow> int \<Rightarrow> dropped \<Rightarrow> nat option \<Rightarrow> nat \<Rightarrow>
    nat list \<times> game \<Rightarrow> (nat list \<times> game) outcome" where
  "reward_and_tell g k p n enf amount sid fallen best q s =
     bind_out (player (gm_players (snd s)) q) (\<lambda>c.
       let opp = find (\<lambda>x. op_attacker x = q) (np_damagelist n) in
       if opp = None \<and> \<not> sees_npc (g_env g) n c then Inr s
       else
         bind_out (case opp of
             Some x \<Rightarrow>
               if n_exp enf \<noteq> 0
               then bind_out (reward_one g k p best n enf x q s) (\<lambda>s. bind_out (cap_exp g q (snd s)) (\<lambda>(up, gm). Inr (up, fst s, gm)))
               else Inr (False, s)
           | None \<Rightarrow> Inr (False, s)) (\<lambda>(up, s).
         bind_out (kill_notice g p n amount sid fallen q (opp \<noteq> None) up (gm_players (snd s))) (\<lambda>b.
         bind_out (player (gm_players (snd s)) q) (\<lambda>c.
           let who = ar_who (gm_areas (snd s) ! k);
               tell = (if up then send_in who (\<lambda>r d. r \<noteq> q \<and> InRange (g_env g) d c) (level_up_packet q) else id)
           in Inr (fst s, with_players (\<lambda>w. send_to q b (tell w)) (snd s))))))"

fun reward_all :: "game_env \<Rightarrow> nat \<Rightarrow> nat \<Rightarrow> npc \<Rightarrow> enf_data \<Rightarrow> int \<Rightarrow> int \<Rightarrow> dropped \<Rightarrow> nat option \<Rightarrow> nat list \<Rightarrow>
    nat list \<times> game \<Rightarrow> (nat list \<times> game) outcome" where
  "reward_all g k p n enf amount sid fallen best [] s = Inr s"
| "reward_all g k p n enf amount sid fallen best (q # qs) s =
     bind_out (reward_and_tell g k p n enf amount sid fallen best q s) (reward_all g k p n enf amount sid fallen best qs)"

text \<open>A boss takes its children along: those of one kind that are not temporary in silence, with one packet for all.\<close>

fun kill_children :: "game_env \<Rightarrow> nat \<Rightarrow> nat list \<Rightarrow> int \<Rightarrow> game \<Rightarrow> (int \<times> game) outcome" where
  "kill_children g k [] childid gm = Inr (childid, gm)"
| "kill_children g k (key # keys) childid gm =
     bind_out (the_npc k key gm) (\<lambda>n.
       if \<not> np_temporary n \<and> (childid = - 1 \<or> childid = np_id n)
       then bind_out (Die g k key False gm) (kill_children g k keys (np_id n))
       else bind_out (Die g k key True gm) (kill_children g k keys childid))"

fun enfs_of :: "game_env \<Rightarrow> npc list \<Rightarrow> (npc \<times> enf_data) list outcome" where
  "enfs_of g [] = Inr []"
| "enfs_of g (n # ns) = bind_out (enf_of g n) (\<lambda>e. bind_out (enfs_of g ns) (\<lambda>es. Inr ((n, e) # es)))"

definition kill_brood :: "game_env \<Rightarrow> nat \<Rightarrow> enf_data \<Rightarrow> game \<Rightarrow> game outcome" where
  "kill_brood g k enf gm =
     (if n_boss enf = 0 then Inr gm
      else
        bind_out (enfs_of g (ar_npcs (gm_areas gm ! k))) (\<lambda>es.
        let keys = map (np_key \<circ> fst) (filter (\<lambda>(n, e). n_child e \<noteq> 0 \<and> n_boss e = 0 \<and> np_alive n) es) in
        bind_out (kill_children g k keys (- 1) gm) (\<lambda>(childid, gm).
          Inr (if childid = - 1 then gm
               else send_area k (AddShort (of_int childid) (PacketBuilder_new PACKET_NPC PACKET_JUNK)) gm))))"

fun share_parties :: "game_env \<Rightarrow> nat \<Rightarrow> nat list \<Rightarrow> game \<Rightarrow> game outcome" where
  "share_parties g k [] gm = Inr gm"
| "share_parties g k (t # ts) gm =
     bind_out (with_social (\<lambda>s. bind_out (the_party t s) (\<lambda>P.
         bind_out (ShareEXP (g_env g) (g_exp_table g) t (pt_expsum P) (g_config g ''PartyShareMode'') (m_id (ar_map (gm_areas gm ! k))) s) (\<lambda>s.
         bind_out (the_party t s) (\<lambda>P. Inr (s\<lparr>so_parties := (so_parties s)[t := Some (P\<lparr>pt_expsum := 0\<rparr>)]\<rparr>))))) gm)
       (share_parties g k ts)"

text \<open>The drop and the experience, then the end of the NPC.\<close>

definition reward_kill :: "game_env \<Rightarrow> nat \<Rightarrow> nat \<Rightarrow> npc \<Rightarrow> enf_data \<Rightarrow> int \<Rightarrow> int \<Rightarrow> game \<Rightarrow> game outcome" where
  "reward_kill g k p n enf amount sid gm =
     bind_out (choose_drop g (g_npc_data g (np_id n)) gm) (\<lambda>(choice, gm).
     bind_out (make_drop g k p n choice gm) (\<lambda>(fallen, gm).
     let best = (if g_config g ''ShareMode'' = 1 then most_damage (np_damagelist n) 0 None else None) in
     bind_out (reward_all g k p n enf amount sid fallen best (ar_who (gm_areas gm ! k)) ([], gm)) (\<lambda>(ts, gm).
       share_parties g k ts gm)))"

definition Killed :: "game_env \<Rightarrow> nat \<Rightarrow> nat \<Rightarrow> nat \<Rightarrow> int \<Rightarrow> int \<Rightarrow> game \<Rightarrow> game outcome" where
  "Killed g k key p amount sid gm =
     bind_out (d_to_int (g_now g)) (\<lambda>now. bind_out (the_npc k key gm) (\<lambda>n. bind_out (enf_of g n) (\<lambda>enf.
       let gm = with_npc k key (\<lambda>n. n\<lparr>np_alive := False, np_dead_since := d_of_int now\<rparr>) gm in
       bind_out (reward_kill g k p n enf amount sid gm) (\<lambda>gm.
       bind_out (kill_brood g k enf (clear_ledger k key n gm)) (\<lambda>gm.
       let gm = (if np_temporary n then remove_npc k key gm else gm) in
       bind_out (run_on p (\<lambda>c. bind_out (g_killed_npc g (n_id enf) c) (\<lambda>c. Inr ((), c))) (gm_players gm)) (\<lambda>(_, w).
         Inr (gm\<lparr>gm_players := w\<rparr>)))))))"

section \<open>Damage\<close>

text \<open>The ledger: sums that would not grow are left alone.\<close>

definition grow :: "int \<Rightarrow> int \<Rightarrow> int outcome" where
  "grow old n = bind_out (int_result (old + n)) (\<lambda>t. Inr (if t > old then t else old))"

fun blame :: "nat \<Rightarrow> int \<Rightarrow> double \<Rightarrow> npc_opponent list \<Rightarrow> npc_opponent list outcome" where
  "blame p n now [] = Inr []"
| "blame p n now (x # xs) =
     bind_out (if op_attacker x = p then bind_out (grow (op_damage x) n) (\<lambda>d. Inr (x\<lparr>op_damage := d, op_last_hit := now\<rparr>)) else Inr x) (\<lambda>x.
     bind_out (blame p n now xs) (\<lambda>xs. Inr (x # xs)))"

definition note_damage :: "nat \<Rightarrow> nat \<Rightarrow> nat \<Rightarrow> int \<Rightarrow> double \<Rightarrow> npc \<Rightarrow> game \<Rightarrow> game outcome" where
  "note_damage k key p n now m gm =
     bind_out (grow (np_totaldamage m) n) (\<lambda>old. bind_out (blame p n now (np_damagelist m)) (\<lambda>xs.
       let found = p \<in> set (map op_attacker (np_damagelist m));
           xs = (if found then xs else xs @ [\<lparr>op_attacker = p, op_damage = n, op_last_hit = now\<rparr>]);
           gm = with_npc k key (\<lambda>m. m\<lparr>np_totaldamage := old, np_damagelist := xs\<rparr>) gm
       in Inr (if found then gm else gm\<lparr>gm_registered := (gm_registered gm)(p := gm_registered gm p @ [(k, key)])\<rparr>)))"

definition hurt_packet :: "character \<Rightarrow> nat \<Rightarrow> npc \<Rightarrow> int \<Rightarrow> int \<Rightarrow> int \<Rightarrow> PacketBuilder" where
  "hurt_packet c p n amount sid health =
     (let b = PacketBuilder_new (fighting_family sid) PACKET_REPLY;
          b = by_spell sid (AddShort (of_int sid)) b;
          b = AddChar (of_int (ch_direction c)) (AddShort (pid_short p) b);
          b = AddShort (of_int health) (AddThree (of_int amount) (AddShort (of_int (np_index n)) b))
      in if sid \<noteq> - 1 then AddShort (of_int (ch_tp c)) b else AddChar 1 b)"

definition Damage :: "game_env \<Rightarrow> nat \<Rightarrow> nat \<Rightarrow> nat \<Rightarrow> int \<Rightarrow> int \<Rightarrow> game \<Rightarrow> game outcome" where
  "Damage g k key p amount sid gm =
     bind_out (the_npc k key gm) (\<lambda>n. bind_out (enf_of g n) (\<lambda>enf. bind_out (player (gm_players gm) p) (\<lambda>c.
       let limitamount = min (np_hp n) amount;
           amount = (if g_config g ''LimitDamage'' \<noteq> 0 then limitamount else amount);
           fights = n_type enf = ENF_Passive \<or> n_type enf = ENF_Aggressive;
           hp = (if fights then np_hp n - amount else 0); amount = (if fights then amount else 0);
           gm = with_npc k key (\<lambda>n. n\<lparr>np_hp := hp\<rparr>) gm in
       bind_out (note_damage k key p limitamount (g_now g) n gm) (\<lambda>gm.
         if hp > 0 then
           bind_out (percent hp (n_hp enf)) (\<lambda>health.
             Inr (send_seeing g k n (hurt_packet c p n amount sid health) gm))
         else Killed g k key p amount sid gm))))"

section \<open>The attack of an NPC\<close>

definition npc_vars :: "npc \<Rightarrow> enf_data \<Rightarrow> int \<Rightarrow> string \<Rightarrow> (string \<times> int) list" where
  "npc_vars n enf mapid prefix =
     map (\<lambda>(name, x). (prefix @ name, x))
       [(''npc'', 1), (''hp'', np_hp n), (''maxhp'', n_hp enf), (''mindam'', n_mindam enf), (''maxdam'', n_maxdam enf),
        (''accuracy'', n_accuracy enf), (''evade'', n_evade enf), (''armor'', n_armor enf),
        (''x'', np_x n), (''y'', np_y n), (''direction'', np_direction n), (''mapid'', mapid)]"

text \<open>
  The two formulas of a hit, with the variables of both sides: the damage, and the rate below which a random number must
  lie; what misses does no damage.
\<close>

definition eval_formula :: "game_env \<Rightarrow> string \<Rightarrow> (string \<times> double) list \<Rightarrow> game \<Rightarrow> (double \<times> game) outcome" where
  "eval_formula g name vars gm =
     bind_out (rpn_parse (w_formulas (g_env g) name)) (\<lambda>stack.
     bind_out (rpn_eval (w_libm (g_env g)) (g_roll g) stack (map_of vars) (gm_rolls gm)) (\<lambda>(d, k). Inr (d, gm\<lparr>gm_rolls := k\<rparr>)))"

definition strike :: "game_env \<Rightarrow> (string \<times> int) list \<Rightarrow> double \<Rightarrow> int \<Rightarrow> bool \<Rightarrow> double \<Rightarrow> game \<Rightarrow> (int \<times> game) outcome" where
  "strike g vars modifier amount critical rand gm =
     (let vars = map (\<lambda>(name, x). (name, d_of_int x)) vars @
            [(''modifier'', modifier), (''damage'', d_of_int amount), (''critical'', d_of_int (if critical then 1 else 0))] in
      bind_out (eval_formula g ''damage'' vars gm) (\<lambda>(d, gm). bind_out (d_to_int d) (\<lambda>amount.
      bind_out (eval_formula g ''hit_rate'' vars gm) (\<lambda>(hit_rate, gm).
        Inr (max (if d_less hit_rate rand then 0 else amount) 0, gm)))))"

definition is_critical :: "game_env \<Rightarrow> int \<Rightarrow> int \<Rightarrow> double \<Rightarrow> bool" where
  "is_critical g dir1 dir2 rand \<longleftrightarrow> \<bar>dir1 - dir2\<bar> \<noteq> 2 \<or> d_less rand (g_real g ''CriticalRate'')"

text \<open>What is taken from a character of its health, and what the packets say.\<close>

definition limited :: "game_env \<Rightarrow> int \<Rightarrow> int \<Rightarrow> int" where
  "limited g amount hp = (if g_config g ''LimitDamage'' \<noteq> 0 then min amount hp else amount)"

definition tell_party :: "character \<Rightarrow> character outcome" where
  "tell_party c = (if ch_party c \<noteq> None then UpdateHP c else Inr c)"

definition face_towards :: "int \<Rightarrow> int \<Rightarrow> int" where
  "face_towards xdiff ydiff =
     (if \<bar>xdiff\<bar> > \<bar>ydiff\<bar> then (if xdiff < 0 then DIRECTION_RIGHT else DIRECTION_LEFT)
      else (if ydiff < 0 then DIRECTION_DOWN else DIRECTION_UP))"

definition npc_attack_packet :: "npc \<Rightarrow> nat \<Rightarrow> character \<Rightarrow> int \<Rightarrow> PacketBuilder outcome" where
  "npc_attack_packet n q d amount =
     bind_out (percent (ch_hp d) (d_maxhp (stats d))) (\<lambda>health.
       Inr (AddByte 255 (AddByte 255 (AddThree (of_int health) (AddThree (of_int amount) (AddShort (pid_short q) (AddChar (of_int (np_direction n))
         (AddChar (if ch_hp d = 0 then 2 else 1) (AddChar (of_int (np_index n)) (AddByte 255 (PacketBuilder_new PACKET_NPC PACKET_PLAYER)))))))))))"

definition npc_Attack :: "game_env \<Rightarrow> nat \<Rightarrow> nat \<Rightarrow> nat \<Rightarrow> game \<Rightarrow> game outcome" where
  "npc_Attack g k key q gm =
     bind_out (the_npc k key gm) (\<lambda>n. bind_out (enf_of g n) (\<lambda>enf. bind_out (player (gm_players gm) q) (\<lambda>d.
     bind_out (roll_int g (n_mindam enf) (n_maxdam enf + g_config g ''NPCAdjustMaxDam'') gm) (\<lambda>(amount, gm).
     let (rand, gm) = roll_real g (Fin 0) (Fin 1) gm;
         vars = npc_vars n enf (m_id (ar_map (gm_areas gm ! k))) [] @ FormulaVars (g_env g) d ''target_'' in
     bind_out (strike g vars (d_div (Fin 1) (g_real g ''MobRate'')) amount (is_critical g (ch_direction d) (np_direction n) rand) rand gm) (\<lambda>(amount, gm).
     let limitamount = min amount (ch_hp d); amount = limited g amount (ch_hp d);
         n = n\<lparr>np_direction := face_towards (np_x n - ch_x d) (np_y n - ch_y d)\<rparr> in
     bind_out (tell_party (d\<lparr>ch_hp := to_short (ch_hp d - limitamount)\<rparr>)) (\<lambda>d.
     let gm = with_players (\<lambda>w. w(q \<mapsto> d)) (with_npc k key (\<lambda>_. n) gm) in
     bind_out (npc_attack_packet n q d amount) (\<lambda>b.
     let gm = with_players (send_in (ar_who (gm_areas gm ! k)) (\<lambda>r c. r \<noteq> q \<and> InRange (g_env g) c d) b) gm in
     bind_out (if ch_hp d = 0 then DeathRespawn g q gm else Inr gm) (\<lambda>gm. bind_out (player (gm_players gm) q) (\<lambda>d.
       Inr (with_players (send_to q (AddShort (of_int (ch_tp d)) (AddShort (of_int (ch_hp d)) b))) gm))))))))))"

section \<open>Spawning\<close>

definition npc_spot_free :: "game_env \<Rightarrow> nat \<Rightarrow> bool \<Rightarrow> int \<Rightarrow> int \<Rightarrow> game \<Rightarrow> bool outcome" where
  "npc_spot_free g k crowded x y gm =
     (let a = gm_areas gm ! k; npcs = map (\<lambda>n. (np_x n, np_y n)) (filter np_alive (ar_npcs a)) in
      bind_out (map_Walkable (g_env g) (gm_players gm) (ar_who a) npcs (ar_map a) x y True) (\<lambda>walkable.
        Inr (walkable \<and> (crowded \<or> \<not> Occupied (gm_players gm) (ar_who a) npcs (ar_map a) x y NPCOnly False))))"

text \<open>Up to 200 random places around the spawn; \<open>left\<close> counts those left, the position is the last one tried.\<close>

fun try_places :: "game_env \<Rightarrow> nat \<Rightarrow> npc \<Rightarrow> nat \<Rightarrow> game \<Rightarrow> (bool \<times> npc \<times> game) outcome" where
  "try_places g k n 0 gm = Inr (False, n, gm)"
| "try_places g k n (Suc left) gm =
     bind_out (if np_temporary n \<and> left = 199 then Inr (np_spawn_x n, np_spawn_y n, gm)
       else bind_out (roll_int g (np_spawn_x n - 2) (np_spawn_x n + 2) gm) (\<lambda>(x, gm).
            bind_out (roll_int g (np_spawn_y n - 2) (np_spawn_y n + 2) gm) (\<lambda>(y, gm). Inr (to_uchar x, to_uchar y, gm)))) (\<lambda>(x, y, gm).
     let n = n\<lparr>np_x := x, np_y := y\<rparr> in
     bind_out (npc_spot_free g k (199 - left > 100) x y gm) (\<lambda>ok.
       if ok then bind_out (roll_int g 0 3 gm) (\<lambda>(dir, gm). Inr (True, n\<lparr>np_direction := dir\<rparr>, gm))
       else try_places g k n left gm))"

text \<open>
  The linear scan: a loop from \<open>s - 2\<close> to \<open>s + 2\<close> over an \<open>unsigned char\<close>. It is empty where \<open>s - 2\<close> wraps, and
  without end where \<open>s + 2\<close> is at least 255.
\<close>

definition scan_values :: "int \<Rightarrow> int list" where
  "scan_values s =
     (if s + 2 \<ge> 255 then map (\<lambda>i. to_uchar (s - 2 + i)) [0..255] else if s < 2 then [] else [s - 2..s + 2])"

definition after_scan :: "int \<Rightarrow> int" where
  "after_scan s = (if s < 2 then to_uchar (s - 2) else s + 3)"

fun scan_column :: "game_env \<Rightarrow> nat \<Rightarrow> int \<Rightarrow> int list \<Rightarrow> game \<Rightarrow> int option outcome" where
  "scan_column g k x [] gm = Inr None"
| "scan_column g k x (y # ys) gm =
     bind_out (npc_spot_free g k True x y gm) (\<lambda>ok. if ok then Inr (Some y) else scan_column g k x ys gm)"

fun linear_scan :: "game_env \<Rightarrow> nat \<Rightarrow> npc \<Rightarrow> int list \<Rightarrow> game \<Rightarrow> npc outcome" where
  "linear_scan g k n [] gm =
     (if np_spawn_x n + 2 \<ge> 255 then Inl (Runtime_Error ''endless scan'')
      else Inr (if np_spawn_x n < 2 then n\<lparr>np_x := after_scan (np_spawn_x n)\<rparr>
                else n\<lparr>np_x := after_scan (np_spawn_x n), np_y := after_scan (np_spawn_y n)\<rparr>))"
| "linear_scan g k n (x # xs) gm =
     bind_out (scan_column g k x (scan_values (np_spawn_y n)) gm) (\<lambda>found.
       case found of
         Some y \<Rightarrow> Inr (n\<lparr>np_x := x, np_y := y\<rparr>)
       | None \<Rightarrow> if np_spawn_y n + 2 \<ge> 255 then Inl (Runtime_Error ''endless scan'') else linear_scan g k n xs gm)"

definition npc_place :: "game_env \<Rightarrow> nat \<Rightarrow> npc \<Rightarrow> game \<Rightarrow> (npc \<times> game) outcome" where
  "npc_place g k n gm =
     (if np_spawn_type n < 7 then
        bind_out (try_places g k n 200 gm) (\<lambda>(found, n, gm).
          if found then Inr (n, gm)
          else bind_out (linear_scan g k n (scan_values (np_spawn_x n)) gm) (\<lambda>n. Inr (n, gm)))
      else Inr (n, gm))"

definition npc_speed :: "game_env \<Rightarrow> npc \<Rightarrow> double" where
  "npc_speed g n = g_speeds g ! nat (np_spawn_type n)"

definition spawned_packet :: "npc \<Rightarrow> PacketBuilder" where
  "spawned_packet n = add_npc_looks n (AddByte 255 (AddChar 0 (PacketBuilder_new PACKET_RANGE PACKET_REPLY)))"

definition spawn_one :: "game_env \<Rightarrow> nat \<Rightarrow> nat \<Rightarrow> nat option \<Rightarrow> game \<Rightarrow> game outcome" where
  "spawn_one g k key parent gm =
     bind_out (the_npc k key gm) (\<lambda>n.
       if np_alive n then Inr gm
       else bind_out (enf_of g n) (\<lambda>enf.
         bind_out (npc_place g k (if parent = None then n else n\<lparr>np_parent := parent\<rparr>) gm) (\<lambda>(n, gm).
           let n = n\<lparr>np_alive := True, np_hp := n_hp enf, np_last_act := g_now g, np_last_talk := g_now g, np_act_speed := npc_speed g n\<rparr>
           in Inr (send_seeing g k n (spawned_packet n) (with_npc k key (\<lambda>_. n) gm)))))"

fun spawn_children :: "game_env \<Rightarrow> nat \<Rightarrow> nat \<Rightarrow> nat list \<Rightarrow> game \<Rightarrow> game outcome" where
  "spawn_children g k parent [] gm = Inr gm"
| "spawn_children g k parent (key # keys) gm = bind_out (spawn_one g k key (Some parent) gm) (spawn_children g k parent keys)"

definition npc_Spawn :: "game_env \<Rightarrow> nat \<Rightarrow> nat \<Rightarrow> game \<Rightarrow> game outcome" where
  "npc_Spawn g k key gm =
     bind_out (the_npc k key gm) (\<lambda>n. bind_out (enf_of g n) (\<lambda>enf.
       if np_alive n then Inr gm
       else
         bind_out (if n_boss enf \<noteq> 0
             then bind_out (enfs_of g (ar_npcs (gm_areas gm ! k))) (\<lambda>es.
               spawn_children g k key (map (np_key \<circ> fst) (filter (\<lambda>(_, e). n_child e \<noteq> 0) es)) gm)
             else Inr gm) (spawn_one g k key None)))"

section \<open>What an NPC does\<close>

text \<open>
  The attacker an NPC turns to is the nearest of its ledger, or the one of the same distance that has done more damage; the
  distance is an \<open>unsigned char\<close>, the damage an \<open>unsigned short\<close>.
\<close>

definition chase_distance :: "npc \<Rightarrow> character \<Rightarrow> int" where
  "chase_distance n c = (let d = \<bar>ch_x c - np_x n\<bar> + \<bar>ch_y c - np_y n\<bar> in if d = 0 then 1 else d)"

definition to_ushort16 :: "int \<Rightarrow> int" where
  "to_ushort16 n = n mod 65536"

fun choose_attacker :: "game_env \<Rightarrow> int \<Rightarrow> npc \<Rightarrow> players \<Rightarrow> npc_opponent list \<Rightarrow> nat option \<times> int \<times> int \<Rightarrow> (nat option \<times> int \<times> int) outcome" where
  "choose_attacker g mapid n w [] best = Inr best"
| "choose_attacker g mapid n w (x # xs) (who, distance, damage) =
     bind_out (player w (op_attacker x)) (\<lambda>c.
       let d = chase_distance n c in
       if ch_mapid c \<noteq> mapid \<or> ch_nowhere c \<or> d_less (op_last_hit x) (d_sub (g_now g) (g_real g ''NPCBoredTimer''))
       then choose_attacker g mapid n w xs (who, distance, damage)
       else if d < distance \<or> d = distance \<and> op_damage x > damage
       then choose_attacker g mapid n w xs (Some (op_attacker x), to_uchar d, to_ushort16 (op_damage x))
       else choose_attacker g mapid n w xs (who, distance, damage))"

text \<open>An aggressive NPC, and a child whose attacker is known, turn to whoever is nearer.\<close>

fun nearest_character :: "npc \<Rightarrow> players \<Rightarrow> nat list \<Rightarrow> nat option \<times> int \<Rightarrow> (nat option \<times> int) outcome" where
  "nearest_character n w [] best = Inr best"
| "nearest_character n w (q # qs) (who, distance) =
     bind_out (player w q) (\<lambda>c.
       if IsHideNpc c \<or> \<not> CanInteractCombat c then nearest_character n w qs (who, distance)
       else
         (let d = chase_distance n c
          in nearest_character n w qs (if d < distance then (Some q, to_uchar d) else (who, distance))))"

definition pick_target :: "game_env \<Rightarrow> nat \<Rightarrow> npc \<Rightarrow> enf_data \<Rightarrow> game \<Rightarrow> nat option outcome" where
  "pick_target g k n enf gm =
     (let a = gm_areas gm ! k; mapid = m_id (ar_map a); w = gm_players gm; chase = to_uchar (g_config g ''NPCChaseDistance'') in
      bind_out (if n_type enf = ENF_Passive \<or> n_type enf = ENF_Aggressive then
          bind_out (choose_attacker g mapid n w (np_damagelist n) (None, chase, 0)) (\<lambda>best.
            case np_parent n of
              None \<Rightarrow> Inr best
            | Some key \<Rightarrow> bind_out (the_npc k key gm) (\<lambda>m. choose_attacker g mapid n w (np_damagelist m) best))
        else Inr (None, chase, 0)) (\<lambda>(who, distance, _).
      if n_type enf = ENF_Aggressive \<or> np_parent n \<noteq> None \<and> who \<noteq> None then
        bind_out (nearest_character n w (ar_who a) (who, if who = None then chase else min chase distance)) (\<lambda>(closest, _).
          Inr (if closest = None then who else closest))
      else Inr who))"

definition npc_go :: "game_env \<Rightarrow> nat \<Rightarrow> nat \<Rightarrow> int \<Rightarrow> game \<Rightarrow> (walk_result \<times> game) outcome" where
  "npc_go g k key dir gm =
     (let keys = map np_key (ar_npcs (gm_areas gm ! k))
      in if key \<in> set keys then npc_Walk g k (length (takeWhile (\<lambda>x. x \<noteq> key) keys)) dir gm else Inl Null_Dereference)"

definition turn_npc :: "nat \<Rightarrow> nat \<Rightarrow> int \<Rightarrow> game \<Rightarrow> game" where
  "turn_npc k key dir = with_npc k key (\<lambda>n. n\<lparr>np_direction := dir\<rparr>)"

text \<open>Towards a target that is not next to it: straight, else to the side, else anywhere.\<close>

definition approach :: "game_env \<Rightarrow> nat \<Rightarrow> nat \<Rightarrow> int \<Rightarrow> int \<Rightarrow> game \<Rightarrow> game outcome" where
  "approach g k key xdiff ydiff gm =
     (let dir = face_towards xdiff ydiff in
      bind_out (npc_go g k key dir (turn_npc k key dir gm)) (\<lambda>(r, gm).
        if r \<noteq> WalkFail then Inr gm
        else
          let dir = (if dir = DIRECTION_UP \<or> dir = DIRECTION_DOWN then (if xdiff < 0 then DIRECTION_RIGHT else DIRECTION_LEFT) else dir) in
          bind_out (npc_go g k key dir (turn_npc k key dir gm)) (\<lambda>(r, gm).
            if r \<noteq> WalkFail then Inr gm
            else bind_out (roll_int g 0 3 gm) (\<lambda>(dir, gm). bind_out (npc_go g k key dir gm) (\<lambda>(_, gm). Inr gm)))))"

definition wander :: "game_env \<Rightarrow> nat \<Rightarrow> nat \<Rightarrow> npc \<Rightarrow> game \<Rightarrow> game outcome" where
  "wander g k key n gm =
     bind_out (if np_walk_idle_for n = 0 then roll_int g 1 10 gm
               else Inr (11, with_npc k key (\<lambda>n. n\<lparr>np_walk_idle_for := np_walk_idle_for n - 1\<rparr>) gm)) (\<lambda>(act, gm).
     bind_out (if 1 \<le> act \<and> act \<le> 6 then bind_out (npc_go g k key (np_direction n) gm) (\<lambda>(_, gm). Inr gm) else Inr gm) (\<lambda>gm.
     bind_out (if 7 \<le> act \<and> act \<le> 9 then bind_out (roll_int g 0 3 gm) (\<lambda>(dir, gm). bind_out (npc_go g k key dir gm) (\<lambda>(_, gm). Inr gm)) else Inr gm) (\<lambda>gm.
       if act = 10 then bind_out (roll_int g 1 4 gm) (\<lambda>(m, gm). Inr (with_npc k key (\<lambda>n. n\<lparr>np_walk_idle_for := m\<rparr>) gm)) else Inr gm)))"

text \<open>A child without a parent takes the first boss of the map; then the next time to act is drawn.\<close>

definition adopt :: "game_env \<Rightarrow> nat \<Rightarrow> nat \<Rightarrow> npc \<Rightarrow> enf_data \<Rightarrow> game \<Rightarrow> game outcome" where
  "adopt g k key n enf gm =
     (if n_child enf \<noteq> 0 \<and> np_parent n = None then
        bind_out (enfs_of g (ar_npcs (gm_areas gm ! k))) (\<lambda>es.
          case find (\<lambda>(_, e). n_boss e \<noteq> 0) es of
            None \<Rightarrow> Inr gm
          | Some (m, _) \<Rightarrow> Inr (with_npc k key (\<lambda>n. n\<lparr>np_parent := Some (np_key m)\<rparr>) gm))
      else Inr gm)"

definition next_act :: "game_env \<Rightarrow> nat \<Rightarrow> nat \<Rightarrow> npc \<Rightarrow> game \<Rightarrow> game outcome" where
  "next_act g k key n gm =
     bind_out (d_to_int (d_mul (np_act_speed n) (d_of_int 750))) (\<lambda>lo. bind_out (d_to_int (d_mul (np_act_speed n) (d_of_int 1250))) (\<lambda>hi.
     bind_out (roll_int g lo hi gm) (\<lambda>(r, gm).
       Inr (with_npc k key (\<lambda>n. n\<lparr>np_last_act := d_add (np_last_act n) (d_div (d_of_int r) (d_of_int 1000))\<rparr>) gm))))"

definition npc_Act :: "game_env \<Rightarrow> nat \<Rightarrow> nat \<Rightarrow> game \<Rightarrow> game outcome" where
  "npc_Act g k key gm =
     bind_out (the_npc k key gm) (\<lambda>n. bind_out (enf_of g n) (\<lambda>enf.
     bind_out (adopt g k key n enf gm) (\<lambda>gm. bind_out (next_act g k key n gm) (\<lambda>gm. bind_out (the_npc k key gm) (\<lambda>n.
       if np_spawn_type n = 7 then Inr gm
       else bind_out (pick_target g k n enf gm) (\<lambda>target.
         case target of
           None \<Rightarrow> wander g k key n gm
         | Some q \<Rightarrow> bind_out (player (gm_players gm) q) (\<lambda>c.
             let xdiff = np_x n - ch_x c; ydiff = np_y n - ch_y c in
             if \<bar>xdiff\<bar> + \<bar>ydiff\<bar> \<le> 1 then npc_Attack g k key q gm else approach g k key xdiff ydiff gm)))))))"

section \<open>What an NPC says\<close>

definition Msg_NPC :: "game_env \<Rightarrow> nat \<Rightarrow> npc \<Rightarrow> string \<Rightarrow> game \<Rightarrow> game outcome" where
  "Msg_NPC g k n message gm =
     bind_out (enf_of g n) (\<lambda>enf.
       let message = text_cap message (g_config g ''ChatMaxWidth'' - text_width (ucfirst (string_of (n_name enf)) @ ''  '')) ''...'';
           b = AddString (bytes_of message) (AddChar (of_nat (length message)) (AddChar (of_int (np_index n))
                 (AddByte 255 (AddByte 255 (PacketBuilder_new PACKET_NPC PACKET_PLAYER)))))
       in Inr (send_seeing g k n b gm))"

definition InCharacterRange :: "game_env \<Rightarrow> nat \<Rightarrow> npc \<Rightarrow> game \<Rightarrow> bool" where
  "InCharacterRange g k n gm = list_ex (sees_from g n (gm_players gm)) (ar_who (gm_areas gm ! k))"

definition npc_Talk :: "game_env \<Rightarrow> nat \<Rightarrow> nat \<Rightarrow> game \<Rightarrow> game outcome" where
  "npc_Talk g k key gm =
     bind_out (the_npc k key gm) (\<lambda>n.
       let data = g_npc_data g (np_id n); a = gm_areas gm ! k;
           alike = (\<lambda>m. np_id m = np_id n \<and> np_spawn_x m = np_spawn_x n \<and> np_spawn_y m = np_spawn_y n);
           talkers = filter (\<lambda>m. alike m \<and> np_alive m \<and> InCharacterRange g k m gm) (ar_npcs a) in
       if nd_talk_phrases data = [] then Inr gm
       else
         let gm = with_area k (\<lambda>a. a\<lparr>ar_npcs := map (\<lambda>m. if alike m then m\<lparr>np_last_talk := g_now g\<rparr> else m) (ar_npcs a)\<rparr>) gm in
         if talkers = [] then Inr gm
         else
           let (r, gm) = roll_real g (Fin 0) (Fin 1) gm in
           if d_le r (nd_talk_chance data) then
             bind_out (roll_int g 0 (int (length talkers) - 1) gm) (\<lambda>(i, gm).
             bind_out (roll_int g 0 (int (length (nd_talk_phrases data)) - 1) gm) (\<lambda>(j, gm).
               if 0 \<le> i \<and> i < int (length talkers) \<and> 0 \<le> j \<and> j < int (length (nd_talk_phrases data))
               then Msg_NPC g k (talkers ! nat i) (nd_talk_phrases data ! nat j) gm else Inl Read_Out_Of_Bounds))
           else Inr gm)"

section \<open>The ledger\<close>

text \<open>
  What the ledgers say: for every area its NPCs with their keys, the damage by each attacker and the total. An attacker is
  listed once, the total is the sum, and an NPC is in the list of a character exactly if the character is in its ledger.
\<close>

type_synonym entry = "nat \<times> (nat \<times> int) list \<times> int"

definition entry_of :: "npc \<Rightarrow> entry" where
  "entry_of n = (np_key n, map (\<lambda>x. (op_attacker x, op_damage x)) (np_damagelist n), np_totaldamage n)"

definition books :: "game \<Rightarrow> entry list list" where
  "books gm = map (\<lambda>a. map entry_of (ar_npcs a)) (gm_areas gm)"

definition entry_ok :: "entry \<Rightarrow> bool" where
  "entry_ok e \<longleftrightarrow> distinct (map fst (fst (snd e))) \<and> snd (snd e) = sum_list (map snd (fst (snd e)))"

definition attacks :: "entry list list \<Rightarrow> nat \<Rightarrow> nat \<Rightarrow> nat \<Rightarrow> bool" where
  "attacks bs k key p \<longleftrightarrow> k < length bs \<and> (\<exists>e \<in> set (bs ! k). fst e = key \<and> p \<in> fst ` set (fst (snd e)))"

definition books_ok :: "entry list list \<Rightarrow> (nat \<Rightarrow> (nat \<times> nat) list) \<Rightarrow> bool" where
  "books_ok bs reg \<longleftrightarrow>
     (\<forall>es \<in> set bs. distinct (map fst es) \<and> (\<forall>e \<in> set es. entry_ok e)) \<and>
     (\<forall>p k key. (k, key) \<in> set (reg p) \<longleftrightarrow> attacks bs k key p)"

definition ledger_ok :: "game \<Rightarrow> bool" where
  "ledger_ok gm \<longleftrightarrow> books_ok (books gm) (gm_registered gm)"

definition write_entry :: "nat \<Rightarrow> nat \<Rightarrow> (entry \<Rightarrow> entry) \<Rightarrow> entry list list \<Rightarrow> entry list list" where
  "write_entry k key f bs = bs[k := map (\<lambda>e. if fst e = key then f e else e) (bs ! k)]"

lemma books_area: "es \<in> set bs \<Longrightarrow> books_ok bs reg \<Longrightarrow> distinct (map fst es) \<and> (\<forall>e \<in> set es. entry_ok e)"
  by (simp add: books_ok_def)

text \<open>A change of one entry is right where it is, and the lists of the characters follow it.\<close>

lemma books_write:
  assumes "books_ok bs reg" and f: "\<And>e. fst e = key \<Longrightarrow> fst (f e) = key"
    and ok: "\<And>e. k < length bs \<Longrightarrow> e \<in> set (bs ! k) \<Longrightarrow> fst e = key \<Longrightarrow> entry_ok (f e)"
    and reg: "\<And>p j i. (j, i) \<noteq> (k, key) \<Longrightarrow> (j, i) \<in> set (reg' p) \<longleftrightarrow> (j, i) \<in> set (reg p)"
    and here: "\<And>p. (k, key) \<in> set (reg' p) \<longleftrightarrow> (k < length bs \<and> (\<exists>e \<in> set (bs ! k). fst e = key \<and> p \<in> fst ` set (fst (snd (f e)))))"
  shows "books_ok (write_entry k key f bs) reg'"
proof (cases "k < length bs")
  case False
  then have same: "write_entry k key f bs = bs" by (simp add: write_entry_def list_update_beyond)
  have "(j, i) \<in> set (reg' p) \<longleftrightarrow> (j, i) \<in> set (reg p)" for p j i
    using reg [of j i p] here [of p] False assms(1) by (cases "(j, i) = (k, key)") (auto simp: books_ok_def attacks_def)
  then show ?thesis using assms(1) unfolding same books_ok_def by simp
next
  case True
  let ?es = "map (\<lambda>e. if fst e = key then f e else e) (bs ! k)"
  have keys: "map fst ?es = map fst (bs ! k)" using f by auto
  have old: "distinct (map fst (bs ! k)) \<and> (\<forall>e \<in> set (bs ! k). entry_ok e)"
    using books_area [OF nth_mem [OF True] assms(1)] .
  have "distinct (map fst es) \<and> (\<forall>e \<in> set es. entry_ok e)" if "es \<in> set (write_entry k key f bs)" for es
  proof -
    have "es = ?es \<or> es \<in> set bs" using that set_update_subset_insert [of bs k ?es] by (auto simp: write_entry_def)
    then show ?thesis
    proof
      assume es: "es = ?es"
      have "distinct (map fst ?es)" using old by (simp only: keys)
      moreover have "\<forall>e \<in> set ?es. entry_ok e" using old ok [OF True] by auto
      ultimately show ?thesis by (simp only: es)
    qed (rule books_area [OF _ assms(1)])
  qed
  moreover have "(j, i) \<in> set (reg' p) \<longleftrightarrow> attacks (write_entry k key f bs) j i p" for p j i
  proof (cases "(j, i) = (k, key)")
    case here': True
    have "(\<exists>e \<in> set ?es. fst e = key \<and> p \<in> fst ` set (fst (snd e))) \<longleftrightarrow> (\<exists>e \<in> set (bs ! k). fst e = key \<and> p \<in> fst ` set (fst (snd (f e))))"
      unfolding set_map bex_simps using f by (intro bex_cong) (simp_all split: if_split)
    then show ?thesis using here [of p] here' True by (simp add: attacks_def write_entry_def)
  next
    case False
    then have "attacks (write_entry k key f bs) j i p \<longleftrightarrow> attacks bs j i p"
    proof (cases "j = k")
      case same: True
      have "(\<exists>e \<in> set ?es. fst e = i \<and> p \<in> fst ` set (fst (snd e))) \<longleftrightarrow> (\<exists>e \<in> set (bs ! k). fst e = i \<and> p \<in> fst ` set (fst (snd e)))"
        unfolding set_map bex_simps using f False same by (intro bex_cong) (simp_all split: if_split)
      then show ?thesis using True same by (simp add: attacks_def write_entry_def)
    qed (simp add: attacks_def write_entry_def)
    then show ?thesis using reg [OF False] assms(1) by (simp add: books_ok_def)
  qed
  ultimately show ?thesis by (simp add: books_ok_def)
qed

subsection \<open>What leaves the ledgers alone\<close>

definition same_books :: "game \<Rightarrow> game \<Rightarrow> bool" where
  "same_books gm gm' \<longleftrightarrow> books gm' = books gm \<and> gm_registered gm' = gm_registered gm"

lemma same_books_refl [simp]: "same_books gm gm"
  by (simp add: same_books_def)

lemma same_books_trans: "same_books a b \<Longrightarrow> same_books b c \<Longrightarrow> same_books a c"
  by (simp add: same_books_def)

lemma same_books_ledger: "same_books gm gm' \<Longrightarrow> ledger_ok gm' = ledger_ok gm"
  by (simp add: same_books_def ledger_ok_def)

text \<open>Updates of the game that touch neither areas nor the lists of the characters.\<close>

lemma books_same_areas: "gm_areas gm' = gm_areas gm \<Longrightarrow> gm_registered gm' = gm_registered gm \<Longrightarrow> same_books gm gm'"
  by (simp add: same_books_def books_def)

lemma same_books_updates [simp]:
  "same_books gm (gm'\<lparr>gm_players := w\<rparr>) = same_books gm gm'" "same_books gm (with_players f gm') = same_books gm gm'"
  "same_books gm (gm'\<lparr>gm_rolls := n\<rparr>) = same_books gm gm'" "same_books gm (gm'\<lparr>gm_parties := ps\<rparr>) = same_books gm gm'"
  "same_books gm (gm'\<lparr>gm_asks := asks\<rparr>) = same_books gm gm'" "same_books gm (gm'\<lparr>gm_fighters := fs\<rparr>) = same_books gm gm'"
  "same_books gm (gm'\<lparr>gm_delayed := ds\<rparr>) = same_books gm gm'" "same_books gm (send_seeing g k m b gm') = same_books gm gm'"
  "same_books gm (send_area k b gm') = same_books gm gm'" "same_books gm (with_fighter p h gm') = same_books gm gm'"
  "same_books gm (delay p act t gm') = same_books gm gm'"
  by (simp_all add: same_books_def books_def with_players_def send_seeing_def send_area_def with_fighter_def delay_def)

lemma same_books_from [simp]:
  "same_books (gm\<lparr>gm_players := w\<rparr>) gm' = same_books gm gm'" "same_books (with_players f gm) gm' = same_books gm gm'"
  "same_books (gm\<lparr>gm_rolls := n\<rparr>) gm' = same_books gm gm'" "same_books (with_fighter p h gm) gm' = same_books gm gm'"
  "same_books (send_area k b gm) gm' = same_books gm gm'"
  by (simp_all add: same_books_def books_def with_players_def with_fighter_def send_area_def)

lemma with_area_books: "(\<And>a. map entry_of (ar_npcs (f a)) = map entry_of (ar_npcs a)) \<Longrightarrow> same_books gm (with_area k f gm)"
  using list_update_id [of "map (\<lambda>a. map entry_of (ar_npcs a)) (gm_areas gm)" k]
  by (cases "k < length (gm_areas gm)") (auto simp: same_books_def books_def with_area_def map_update list_update_beyond)

lemma with_area_parts [simp]:
  "same_books gm (with_area k (ar_map_update h) gm)" "same_books gm (with_area k (ar_who_update u) gm)"
  by (rule with_area_books; simp)+

lemma books_with_npc:
  assumes "\<And>n. np_key n = key \<Longrightarrow> entry_of (f n) = F (entry_of n)"
  shows "books (with_npc k key f gm) = write_entry k key F (books gm)"
proof -
  have "map entry_of (map (\<lambda>n. if np_key n = key then f n else n) ns) = map (\<lambda>e. if fst e = key then F e else e) (map entry_of ns)" for ns
    using assms by (auto simp: entry_of_def)
  then show ?thesis
    by (cases "k < length (gm_areas gm)") (simp_all add: books_def with_npc_def with_area_def write_entry_def map_update list_update_beyond del: map_map)
qed

lemma with_npc_books: "(\<And>n. entry_of (f n) = entry_of n) \<Longrightarrow> same_books gm (with_npc k key f gm)"
  unfolding with_npc_def by (rule with_area_books) auto

lemma with_npc_registered [simp]: "gm_registered (with_npc k key f gm) = gm_registered gm" "gm_registered (with_area k h gm) = gm_registered gm"
  "gm_registered (with_players u gm) = gm_registered gm"
  by (simp_all add: with_npc_def with_area_def with_players_def)

lemma try_players_books: "try_players f gm = Inr gm' \<Longrightarrow> same_books gm gm'"
  by (auto simp: try_players_def bind_out_Inr_iff)

lemma with_social_books: "with_social f gm = Inr gm' \<Longrightarrow> same_books gm gm'"
  by (auto simp: with_social_def bind_out_Inr_iff)

lemma roll_int_books: "roll_int g lo hi gm = Inr (n, gm') \<Longrightarrow> same_books gm gm'"
  by (auto simp: roll_int_def bind_out_Inr_iff)

lemma roll_real_books: "roll_real g lo hi gm = (r, gm') \<Longrightarrow> same_books gm gm'"
  by (auto simp: roll_real_def)

lemma Leave_books: "Leave g p animation hush k gm = Inr gm' \<Longrightarrow> same_books gm gm'"
  unfolding Leave_def Let_def
  by (auto simp: bind_out_Inr_iff split: if_splits intro: with_area_books same_books_trans [OF _ with_area_books])

lemma on_floor_books: "on_floor k f gm = Inr gm' \<Longrightarrow> same_books gm gm'"
  by (auto simp: on_floor_def bind_out_Inr_iff)

lemma DeathRespawn_books:
  assumes "DeathRespawn g p gm = Inr gm'"
  shows "same_books gm gm'"
proof -
  obtain hp k a b h where "(if g_config g ''Deadly'' \<noteq> 0 then on_floor k (DropAll g None p) (with_players h gm) else Inr (with_players h gm)) = Inr a"
    "Leave g p 0 True k a = Inr b" "same_books b gm'"
    using assms unfolding DeathRespawn_def Let_def by (auto simp: bind_out_Inr_iff split: prod.splits)
  then show ?thesis
    using on_floor_books [of k "DropAll g None p" "with_players h gm" a] Leave_books [of g p 0 True k a b]
    by (auto intro: same_books_trans split: if_splits)
qed

lemma lucky_drops_books: "lucky_drops g rate ds gm = (xs, gm') \<Longrightarrow> same_books gm gm'"
  by (induction ds arbitrary: gm xs gm')
     (auto simp: Let_def split: prod.splits if_splits dest!: roll_real_books intro: same_books_trans)

lemma first_drop_books: "first_drop g rate ds gm = (x, gm') \<Longrightarrow> same_books gm gm'"
  by (induction ds arbitrary: gm x gm')
     (auto simp: Let_def split: prod.splits if_splits dest!: roll_real_books intro: same_books_trans)

lemma choose_drop_books:
  assumes "choose_drop g data gm = Inr (x, gm')"
  shows "same_books gm gm'"
  using assms unfolding choose_drop_def Let_def
  by (auto simp: bind_out_Inr_iff split: prod.splits if_splits
      dest!: roll_int_books lucky_drops_books first_drop_books roll_real_books intro: same_books_trans first_drop_books)

lemma drop_winner_books: "drop_winner g p n gm = Inr (x, gm') \<Longrightarrow> same_books gm gm'"
  unfolding drop_winner_def Let_def by (auto simp: bind_out_Inr_iff split: if_splits dest!: roll_int_books)

lemma make_drop_books:
  assumes "make_drop g k p n choice gm = Inr (x, gm')"
  shows "same_books gm gm'"
proof (cases choice)
  case (Some d)
  obtain a gm1 where a: "roll_int g (dr_min d) (dr_max d) gm = Inr (a, gm1)"
    using assms Some by (auto simp: make_drop_def bind_out_Inr_iff)
  have add: "same_books z (with_area k (\<lambda>a. a\<lparr>ar_map := (ar_map a)\<lparr>m_items := m_items (ar_map a) @ [it]\<rparr>\<rparr>) z)" for z it
    by (rule with_area_books) simp
  have "same_books gm1 gm'"
    using assms a unfolding Some make_drop_def Let_def
    by (auto simp: bind_out_Inr_iff split: if_splits dest!: drop_winner_books intro: same_books_trans [OF _ add])
  then show ?thesis using roll_int_books [OF a] same_books_trans by blast
qed (use assms in \<open>simp add: make_drop_def\<close>)

lemma gain_exp_books: "gain_exp p r gm = Inr gm' \<Longrightarrow> same_books gm gm'"
  by (auto simp: gain_exp_def bind_out_Inr_iff)

lemma reward_alone_books: "reward_alone g k q r gm = Inr gm' \<Longrightarrow> same_books gm gm'"
  unfolding reward_alone_def Let_def
  by (auto simp: bind_out_Inr_iff split: if_splits option.splits dest!: gain_exp_books with_social_books)

lemma add_expsum_books: "add_expsum t r gm = Inr gm' \<Longrightarrow> same_books gm gm'"
  by (auto simp: add_expsum_def bind_out_Inr_iff split: if_splits option.splits)

lemma reward_shared_books: "reward_shared g note_party q r (ts, gm) = Inr (ts', gm') \<Longrightarrow> same_books gm gm'"
  unfolding reward_shared_def Let_def
  by (auto simp: bind_out_Inr_iff split: if_splits option.splits dest!: gain_exp_books add_expsum_books)

lemma reward_one_books: "reward_one g k p best n enf x q (ts, gm) = Inr (ts', gm') \<Longrightarrow> same_books gm gm'"
  unfolding reward_one_def Let_def
  by (auto simp: bind_out_Inr_iff split: if_splits dest!: reward_alone_books reward_shared_books)

lemma cap_exp_books: "cap_exp g q gm = Inr (up, gm') \<Longrightarrow> same_books gm gm'"
  by (auto simp: cap_exp_def bind_out_Inr_iff)

lemma reward_and_tell_books:
  assumes "reward_and_tell g k p n enf amount sid fallen best q (ts, gm) = Inr (ts', gm')"
  shows "same_books gm gm'"
proof -
  let ?opp = "find (\<lambda>x. op_attacker x = q) (np_damagelist n)"
  have "same_books gm gm1" if "(case ?opp of
             Some x \<Rightarrow>
               if n_exp enf \<noteq> 0
               then bind_out (reward_one g k p best n enf x q (ts, gm)) (\<lambda>s. bind_out (cap_exp g q (snd s)) (\<lambda>(up, gm). Inr (up, fst s, gm)))
               else Inr (False, ts, gm)
           | None \<Rightarrow> Inr (False, ts, gm)) = Inr (up, ts1, gm1)" for up ts1 gm1
    using that by (auto simp: bind_out_Inr_iff split: option.splits if_splits dest!: reward_one_books cap_exp_books intro: same_books_trans)
  then show ?thesis
    using assms unfolding reward_and_tell_def Let_def by (auto simp: bind_out_Inr_iff split: if_splits)
qed

lemma reward_all_books:
  "reward_all g k p n enf amount sid fallen best qs (ts, gm) = Inr (ts', gm') \<Longrightarrow> same_books gm gm'"
proof (induction qs arbitrary: ts gm)
  case (Cons q qs)
  then obtain ts1 gm1 where "reward_and_tell g k p n enf amount sid fallen best q (ts, gm) = Inr (ts1, gm1)"
    "reward_all g k p n enf amount sid fallen best qs (ts1, gm1) = Inr (ts', gm')"
    by (auto simp: bind_out_Inr_iff)
  then show ?case using Cons.IH reward_and_tell_books same_books_trans by blast
qed simp

lemma share_parties_books: "share_parties g k ts gm = Inr gm' \<Longrightarrow> same_books gm gm'"
  by (induction ts arbitrary: gm) (auto simp: bind_out_Inr_iff dest!: with_social_books intro: same_books_trans)

subsection \<open>Closing a ledger\<close>

lemma the_npc_Inr: "the_npc k key gm = Inr n \<Longrightarrow> n \<in> set (ar_npcs (gm_areas gm ! k)) \<and> np_key n = key"
  by (auto simp: the_npc_def find_Some_iff split: option.splits)

lemma unregister_books [simp]: "books (unregister k key ps gm) = books gm"
  "gm_registered (unregister k key ps gm) = (\<lambda>p. if p \<in> set ps then removeAll (k, key) (gm_registered gm p) else gm_registered gm p)"
  by (simp_all add: unregister_def books_def)

lemma books_nth: "k < length (gm_areas gm) \<Longrightarrow> books gm ! k = map entry_of (ar_npcs (gm_areas gm ! k))" "length (books gm) = length (gm_areas gm)"
  by (simp_all add: books_def)

lemma books_key_unique:
  assumes "books_ok bs reg" "k < length bs" "e \<in> set (bs ! k)" "e' \<in> set (bs ! k)" "fst e = fst e'"
  shows "e = e'"
  using books_area [OF nth_mem [OF assms(2)] assms(1)] assms(3-5) by (auto simp: distinct_map inj_on_def)

text \<open>An NPC of the game whose ledger is the one given.\<close>

definition open_book :: "nat \<Rightarrow> nat \<Rightarrow> npc \<Rightarrow> game \<Rightarrow> bool" where
  "open_book k key n gm \<longleftrightarrow> k < length (gm_areas gm) \<and> entry_of n \<in> set (books gm ! k) \<and> np_key n = key"

lemma open_book_same: "same_books gm gm' \<Longrightarrow> open_book k key n gm \<Longrightarrow> open_book k key n gm'"
  using books_nth(2) [of gm] books_nth(2) [of gm'] by (simp add: open_book_def same_books_def)

lemma the_npc_open: "the_npc k key gm = Inr n \<Longrightarrow> k < length (gm_areas gm) \<Longrightarrow> open_book k key n gm"
  using the_npc_Inr [of k key gm n] by (auto simp: open_book_def books_nth)

lemma clear_ledger_ok:
  assumes "ledger_ok gm" "open_book k key n gm"
  shows "ledger_ok (clear_ledger k key n gm)"
proof -
  let ?ps = "map op_attacker (np_damagelist n)" and ?F = "\<lambda>e :: entry. (fst e, [], 0)"
  have ok: "books_ok (books gm) (gm_registered gm)" using assms(1) by (simp add: ledger_ok_def)
  have b: "books (clear_ledger k key n gm) = write_entry k key ?F (books gm)"
    unfolding clear_ledger_def by (subst books_with_npc [where F = ?F]) (auto simp: entry_of_def)
  have reg: "gm_registered (clear_ledger k key n gm) = (\<lambda>p. if p \<in> set ?ps then removeAll (k, key) (gm_registered gm p) else gm_registered gm p)"
    by (simp add: clear_ledger_def)
  have here: "(k, key) \<notin> set (gm_registered gm p)" if "p \<notin> set ?ps" for p
  proof
    assume "(k, key) \<in> set (gm_registered gm p)"
    then have "attacks (books gm) k key p" using ok by (simp add: books_ok_def)
    then obtain e where e: "k < length (books gm)" "e \<in> set (books gm ! k)" "fst e = key" "p \<in> fst ` set (fst (snd e))"
      unfolding attacks_def by blast
    have "e = entry_of n"
      by (rule books_key_unique [OF ok e(1,2)]) (use e(3) assms(2) in \<open>auto simp: open_book_def entry_of_def\<close>)
    then show False using e(4) that by (auto simp: entry_of_def)
  qed
  show ?thesis
    unfolding ledger_ok_def b reg
  proof (rule books_write [OF ok], goal_cases)
    case (3 p j i)
    then show ?case by auto
  next
    case (4 p)
    then show ?case using here [of p] by simp
  qed (simp_all add: entry_ok_def)
qed

lemma clear_ledger_nobody:
  assumes "ledger_ok gm" "open_book k key n gm"
  shows "\<not> attacks (books (clear_ledger k key n gm)) k key p"
proof -
  have "ledger_ok (clear_ledger k key n gm)" by (rule clear_ledger_ok [OF assms])
  moreover have "books (clear_ledger k key n gm) = write_entry k key (\<lambda>e. (fst e, [], 0)) (books gm)"
    unfolding clear_ledger_def by (subst books_with_npc [where F = "\<lambda>e. (fst e, [], 0)"]) (auto simp: entry_of_def)
  ultimately show ?thesis by (auto simp: attacks_def write_entry_def split: if_splits)
qed

text \<open>An NPC without attackers can be taken off the map.\<close>

lemma remove_npc_ok:
  assumes "ledger_ok gm" "\<And>p. \<not> attacks (books gm) k key p"
  shows "ledger_ok (remove_npc k key gm)"
proof -
  have ok: "books_ok (books gm) (gm_registered gm)" using assms(1) by (simp add: ledger_ok_def)
  have b: "books (remove_npc k key gm) = (books gm)[k := filter (\<lambda>e. fst e \<noteq> key) (books gm ! k)]"
    by (cases "k < length (gm_areas gm)")
       (simp_all add: remove_npc_def books_def with_players_def with_area_def Let_def map_update list_update_beyond filter_map comp_def entry_of_def)
  have reg: "gm_registered (remove_npc k key gm) = gm_registered gm" by (simp add: remove_npc_def Let_def)
  have same: "attacks ((books gm)[k := filter (\<lambda>e. fst e \<noteq> key) (books gm ! k)]) j i p \<longleftrightarrow> attacks (books gm) j i p" for j i p
  proof (cases "j = k")
    case True
    then show ?thesis using assms(2) [of p] by (cases "i = key") (auto simp: attacks_def)
  qed (simp add: attacks_def)
  have "distinct (map fst es) \<and> (\<forall>e \<in> set es. entry_ok e)" if es: "es \<in> set ((books gm)[k := filter (\<lambda>e. fst e \<noteq> key) (books gm ! k)])" for es
  proof (cases "k < length (books gm)")
    case True
    have "es = filter (\<lambda>e. fst e \<noteq> key) (books gm ! k) \<or> es \<in> set (books gm)"
      using es set_update_subset_insert [of "books gm" k] by auto
    then show ?thesis
      using books_area [OF nth_mem [OF True] ok] books_area [OF _ ok] by (auto simp: distinct_map_filter)
  next
    case False
    then show ?thesis using es books_area [OF _ ok] by (simp add: list_update_beyond)
  qed
  then show ?thesis using ok unfolding ledger_ok_def books_ok_def b reg same by simp
qed

lemma close_ledger_ok:
  assumes "ledger_ok gm" "open_book k key n gm" "same_books (clear_ledger k key n gm) gm'"
  shows "ledger_ok (if gone then remove_npc k key gm' else gm')"
proof -
  have "ledger_ok gm'" using clear_ledger_ok [OF assms(1,2)] same_books_ledger [OF assms(3)] by simp
  moreover have "\<not> attacks (books gm') k key p" for p
    using clear_ledger_nobody [OF assms(1,2)] assms(3) by (simp add: same_books_def)
  ultimately show ?thesis using remove_npc_ok by simp
qed

lemma areas_length [simp]:
  "length (gm_areas (with_npc k key f gm)) = length (gm_areas gm)" "length (gm_areas (send_seeing g k m b gm)) = length (gm_areas gm)"
  "length (gm_areas (clear_ledger k key m gm)) = length (gm_areas gm)" "length (gm_areas (remove_npc k key gm)) = length (gm_areas gm)"
  by (simp_all add: with_npc_def with_area_def send_seeing_def with_players_def clear_ledger_def unregister_def remove_npc_def Let_def)

lemma ledger_ok_updates [simp]:
  "ledger_ok (send_area k b gm) = ledger_ok gm" "ledger_ok (gm\<lparr>gm_players := w\<rparr>) = ledger_ok gm"
  "ledger_ok (send_seeing g k m b gm) = ledger_ok gm"
  by (simp_all add: ledger_ok_def books_def send_area_def send_seeing_def with_players_def)

text \<open>A death gives no character an NPC it did not have.\<close>

definition forgets :: "game \<Rightarrow> game \<Rightarrow> bool" where
  "forgets gm gm' \<longleftrightarrow> (\<forall>p. set (gm_registered gm' p) \<subseteq> set (gm_registered gm p))"

lemma forgets_registered [simp]:
  "gm_registered (send_seeing g k n b gm) = gm_registered gm" "gm_registered (remove_npc k key gm) = gm_registered gm"
  "gm_registered (send_area k b gm) = gm_registered gm"
  by (simp_all add: send_seeing_def remove_npc_def Let_def send_area_def with_players_def)

lemma Die_ok:
  assumes "Die g k key vis gm = Inr gm'" "ledger_ok gm" "k < length (gm_areas gm)"
  shows "ledger_ok gm' \<and> length (gm_areas gm') = length (gm_areas gm) \<and> forgets gm gm'"
proof -
  obtain n where n: "the_npc k key gm = Inr n" using assms(1) by (auto simp: Die_def bind_out_Inr_iff)
  have "ledger_ok (fall_dead g k key n vis now gm) \<and> length (gm_areas (fall_dead g k key n vis now gm)) = length (gm_areas gm) \<and>
    forgets gm (fall_dead g k key n vis now gm)" for now
  proof -
    let ?a = "with_npc k key (\<lambda>n. n\<lparr>np_alive := False, np_parent := None, np_dead_since := d_of_int now\<rparr>) gm"
    have a: "same_books gm ?a" by (rule with_npc_books) (simp add: entry_of_def)
    have "ledger_ok ?a" "open_book k key n ?a"
      using assms(2) same_books_ledger [OF a] open_book_same [OF a] the_npc_open [OF n assms(3)] by simp_all
    then have "ledger_ok (fall_dead g k key n vis now gm)" unfolding fall_dead_def Let_def
      by (rule close_ledger_ok) (cases vis; simp)
    moreover have "gm_registered (fall_dead g k key n vis now gm) = gm_registered (clear_ledger k key n gm)"
      by (simp add: fall_dead_def clear_ledger_def Let_def fun_eq_iff)
    then have "forgets gm (fall_dead g k key n vis now gm)" by (auto simp: forgets_def clear_ledger_def)
    moreover have "length (gm_areas (fall_dead g k key n vis now gm)) = length (gm_areas gm)" by (simp add: fall_dead_def Let_def)
    ultimately show ?thesis by simp
  qed
  then show ?thesis using assms n by (auto simp: Die_def bind_out_Inr_iff forgets_def split: if_splits)
qed

lemma kill_children_ok:
  "kill_children g k keys childid gm = Inr (c, gm') \<Longrightarrow> ledger_ok gm \<Longrightarrow> k < length (gm_areas gm) \<Longrightarrow> ledger_ok gm' \<and> forgets gm gm'"
proof (induction keys arbitrary: childid gm)
  case (Cons key keys)
  then obtain gm1 vis i where step: "Die g k key vis gm = Inr gm1" "kill_children g k keys i gm1 = Inr (c, gm')"
    by (auto simp: bind_out_Inr_iff split: if_splits)
  then show ?case using Cons.IH [OF step(2)] Die_ok [OF step(1) Cons.prems(2,3)] Cons.prems(3) by (auto simp: forgets_def)
qed (simp add: forgets_def)

lemma kill_brood_ok:
  "kill_brood g k enf gm = Inr gm' \<Longrightarrow> ledger_ok gm \<Longrightarrow> k < length (gm_areas gm) \<Longrightarrow> ledger_ok gm' \<and> forgets gm gm'"
  unfolding kill_brood_def Let_def forgets_def
  by (simp add: bind_out_Inr_iff split: if_splits) (auto dest!: kill_children_ok simp del: subset_iff simp: forgets_def subset_eq)

lemma reward_kill_books:
  assumes "reward_kill g k p n enf amount sid gm = Inr gm'"
  shows "same_books gm gm'"
proof -
  obtain choice gm1 fallen gm2 best ts gm3 where "choose_drop g (g_npc_data g (np_id n)) gm = Inr (choice, gm1)"
    "make_drop g k p n choice gm1 = Inr (fallen, gm2)"
    "reward_all g k p n enf amount sid fallen best (ar_who (gm_areas gm2 ! k)) ([], gm2) = Inr (ts, gm3)"
    "share_parties g k ts gm3 = Inr gm'"
    using assms unfolding reward_kill_def Let_def bind_out_Inr_iff by (auto simp: bind_out_Inr_iff)
  then show ?thesis
    by (blast intro: same_books_trans choose_drop_books make_drop_books reward_all_books share_parties_books)
qed

lemma Killed_ok:
  assumes K: "Killed g k key p amount sid gm = Inr gm'" and ok: "ledger_ok gm" and k: "k < length (gm_areas gm)"
  shows "ledger_ok gm'"
proof -
  obtain now n enf gm1 gm2 w where n: "the_npc k key gm = Inr n"
    and g1: "reward_kill g k p n enf amount sid (with_npc k key (\<lambda>n. n\<lparr>np_alive := False, np_dead_since := d_of_int now\<rparr>) gm) = Inr gm1"
    and g2: "kill_brood g k enf (clear_ledger k key n gm1) = Inr gm2"
    and gm': "gm' = (if np_temporary n then remove_npc k key gm2 else gm2)\<lparr>gm_players := w\<rparr>"
    using K unfolding Killed_def Let_def by (auto simp: bind_out_Inr_iff)
  have "same_books gm (with_npc k key (\<lambda>n. n\<lparr>np_alive := False, np_dead_since := d_of_int now\<rparr>) gm)"
    by (rule with_npc_books) (simp add: entry_of_def)
  then have s: "same_books gm gm1" using reward_kill_books [OF g1] same_books_trans by blast
  have ok1: "ledger_ok gm1" "open_book k key n gm1"
    using same_books_ledger [OF s] ok open_book_same [OF s the_npc_open [OF n k]] by simp_all
  have ok2: "ledger_ok gm2" "forgets (clear_ledger k key n gm1) gm2"
    using kill_brood_ok [OF g2] clear_ledger_ok [OF ok1] ok1(2) by (simp_all add: open_book_def)
  have "\<not> attacks (books gm2) k key q" for q
  proof -
    have "(k, key) \<notin> set (gm_registered (clear_ledger k key n gm1) q)"
      using clear_ledger_nobody [OF ok1, of q] clear_ledger_ok [OF ok1] by (simp add: ledger_ok_def books_ok_def)
    then have "(k, key) \<notin> set (gm_registered gm2 q)" using ok2(2) unfolding forgets_def by blast
    then show ?thesis using ok2(1) by (simp add: ledger_ok_def books_ok_def)
  qed
  then show ?thesis using ok2(1) remove_npc_ok [of gm2 k key] unfolding gm' by simp
qed

subsection \<open>Damage\<close>

lemma grow_Inr: "grow old n = Inr t \<Longrightarrow> 0 \<le> n \<Longrightarrow> t = old + n"
  by (auto simp: grow_def int_result_def bind_out_Inr_iff split: if_splits)

lemma blame_Inr:
  "blame p n now xs = Inr ys \<Longrightarrow> 0 \<le> n \<Longrightarrow>
     map (\<lambda>x. (op_attacker x, op_damage x)) ys = map (\<lambda>x. (op_attacker x, if op_attacker x = p then op_damage x + n else op_damage x)) xs"
  by (induction xs arbitrary: ys) (auto simp: bind_out_Inr_iff split: if_splits dest!: grow_Inr)

lemma sum_with_one:
  "distinct (map fst xs) \<Longrightarrow> p \<in> set (map fst xs) \<Longrightarrow>
     sum_list (map (\<lambda>x. if fst x = p then snd x + n else snd x) xs) = sum_list (map snd xs) + (n :: int)"
proof (induction xs)
  case (Cons x xs)
  have "sum_list (map (\<lambda>x. if fst x = p then snd x + n else snd x) xs) = sum_list (map snd xs)" if "fst x = p"
    by (rule arg_cong [where f = sum_list], rule map_cong) (use Cons.prems that in \<open>auto simp: image_iff\<close>)
  then show ?case using Cons by (cases "fst x = p") auto
qed simp

text \<open>What the ledger of an NPC says after damage.\<close>

definition noted :: "nat \<Rightarrow> int \<Rightarrow> entry \<Rightarrow> entry" where
  "noted p n e =
     (fst e, if p \<in> set (map fst (fst (snd e))) then map (\<lambda>x. (fst x, if fst x = p then snd x + n else snd x)) (fst (snd e))
             else fst (snd e) @ [(p, n)], snd (snd e) + n)"

lemma noted_ok:
  assumes "entry_ok e"
  shows "entry_ok (noted p n e)"
proof (cases "p \<in> set (map fst (fst (snd e)))")
  case True
  have "sum_list (map (\<lambda>x. if fst x = p then snd x + n else snd x) (fst (snd e))) = sum_list (map snd (fst (snd e))) + n"
    by (rule sum_with_one) (use assms True in \<open>simp_all add: entry_ok_def\<close>)
  then show ?thesis using assms True by (simp add: entry_ok_def noted_def comp_def)
qed (use assms in \<open>auto simp: entry_ok_def noted_def\<close>)

lemma noted_attackers: "fst ` set (fst (snd (noted p n e))) = insert p (fst ` set (fst (snd e)))"
  by (force simp: noted_def image_iff)

lemma books_registered: "books (gm\<lparr>gm_registered := reg\<rparr>) = books gm"
  by (simp add: books_def)

lemma note_damage_ok:
  assumes N: "note_damage k key p n now m gm = Inr gm'" and n: "0 \<le> n"
    and ok: "ledger_ok gm" and m: "open_book k key m gm"
  shows "ledger_ok gm' \<and> length (gm_areas gm') = length (gm_areas gm)"
proof -
  let ?found = "p \<in> set (map op_attacker (np_damagelist m))"
  let ?xs = "\<lambda>xs. if ?found then xs else xs @ [\<lparr>op_attacker = p, op_damage = n, op_last_hit = now\<rparr>]"
  let ?f = "\<lambda>t xs m. m\<lparr>np_totaldamage := t, np_damagelist := ?xs xs\<rparr>"
  obtain t xs where t: "grow (np_totaldamage m) n = Inr t" and xs: "blame p n now (np_damagelist m) = Inr xs"
    and gm': "gm' = (if ?found then with_npc k key (?f t xs) gm
        else (with_npc k key (?f t xs) gm)\<lparr>gm_registered := (gm_registered gm)(p := gm_registered gm p @ [(k, key)])\<rparr>)"
    using N unfolding note_damage_def Let_def by (auto simp: bind_out_Inr_iff)
  let ?F = "\<lambda>e :: entry. (fst e, snd (noted p n (entry_of m)))"
  have bok: "books_ok (books gm) (gm_registered gm)" using ok by (simp add: ledger_ok_def)
  have same: "e = entry_of m" if "e \<in> set (books gm ! k)" "fst e = key" for e
    by (rule books_key_unique [OF bok]) (use that m in \<open>auto simp: open_book_def books_nth entry_of_def\<close>)
  have key: "fst (entry_of m) = key" using m by (simp add: open_book_def entry_of_def)
  have new: "entry_of (?f t xs x) = ?F (entry_of x)" for x
    using grow_Inr [OF t n] blame_Inr [OF xs n] by (auto simp: entry_of_def noted_def image_image comp_def)
  have b: "books gm' = write_entry k key ?F (books gm)"
    unfolding gm' if_distrib [where f = books] books_registered if_cancel by (rule books_with_npc, rule new)
  have F: "?F (entry_of m) = noted p n (entry_of m)" by (simp add: noted_def)
  have old: "entry_ok (entry_of m)" using books_area [OF nth_mem bok] m by (auto simp: open_book_def books_nth)
  have reg: "(j, i) \<in> set (gm_registered gm' q) \<longleftrightarrow> (j, i) \<in> set (gm_registered gm q) \<or> \<not> ?found \<and> q = p \<and> (j, i) = (k, key)" for q j i
    unfolding gm' by auto
  have "books_ok (write_entry k key ?F (books gm)) (gm_registered gm')"
  proof (rule books_write [OF bok], goal_cases)
    case (2 e)
    then show ?case using noted_ok [OF old] same F by metis
  next
    case (3 q j i)
    then show ?case using reg by auto
  next
    case (4 q)
    have "(k, key) \<in> set (gm_registered gm q) \<longleftrightarrow> q \<in> fst ` set (fst (snd (entry_of m)))"
    proof -
      have "(\<exists>e \<in> set (books gm ! k). fst e = key \<and> q \<in> fst ` set (fst (snd e))) \<longleftrightarrow> q \<in> fst ` set (fst (snd (entry_of m)))"
        using same key m unfolding open_book_def by blast
      then show ?thesis using bok m by (simp add: books_ok_def attacks_def open_book_def books_nth)
    qed
    moreover have "(\<exists>e \<in> set (books gm ! k). fst e = key \<and> q \<in> fst ` set (fst (snd (?F e)))) \<longleftrightarrow> q = p \<or> q \<in> fst ` set (fst (snd (entry_of m)))"
      using m key noted_attackers [of p n "entry_of m"] by (auto simp: open_book_def)
    moreover have "?found \<longleftrightarrow> p \<in> fst ` set (fst (snd (entry_of m)))" by (force simp: entry_of_def image_iff)
    ultimately show ?case using m reg [of k key q] by (auto simp: open_book_def books_nth)
  qed (simp add: key)
  then show ?thesis unfolding ledger_ok_def b by (simp add: gm')
qed


lemma bind_outE: "bind_out m f = Inr y \<Longrightarrow> (\<And>x. m = Inr x \<Longrightarrow> f x = Inr y \<Longrightarrow> P) \<Longrightarrow> P"
  by (auto simp: bind_out_Inr_iff)

lemma bind_outE_pair: "bind_out m (\<lambda>(a, b). f a b) = Inr y \<Longrightarrow> (\<And>a b. m = Inr (a, b) \<Longrightarrow> f a b = Inr y \<Longrightarrow> P) \<Longrightarrow> P"
  by (auto simp: bind_out_Inr_iff)

lemma bind_outE_triple: "bind_out m (\<lambda>(a, b, c). f a b c) = Inr y \<Longrightarrow> (\<And>a b c. m = Inr (a, b, c) \<Longrightarrow> f a b c = Inr y \<Longrightarrow> P) \<Longrightarrow> P"
  by (auto simp: bind_out_Inr_iff)

lemma case_pairE: "(case m of (a, b) \<Rightarrow> f a b) = z \<Longrightarrow> (\<And>a b. m = (a, b) \<Longrightarrow> f a b = z \<Longrightarrow> P) \<Longrightarrow> P"
  by (cases m) simp

lemma Damage_ok:
  assumes D: "Damage g k key p amount sid gm = Inr gm'" and n: "the_npc k key gm = Inr n" "0 \<le> np_hp n" "0 \<le> amount"
    and ok: "ledger_ok gm" and k: "k < length (gm_areas gm)"
  shows "ledger_ok gm'"
  using D unfolding Damage_def Let_def n(1) bind_out.simps
proof (elim bind_outE, goal_cases)
  case (1 enf c gm1)
  have a: "same_books gm (with_npc k key (\<lambda>n. n\<lparr>np_hp := hp\<rparr>) gm)" for hp by (rule with_npc_books) (simp add: entry_of_def)
  have "ledger_ok gm1 \<and> length (gm_areas gm1) = length (gm_areas gm)"
    using note_damage_ok [OF 1(3)] n ok same_books_ledger [OF a] open_book_same [OF a the_npc_open [OF n(1) k]] by simp
  then have "send_seeing g k n b gm1 = gm' \<or> Killed g k key p am sid gm1 = Inr gm' \<Longrightarrow> ledger_ok gm'" for b am
    using Killed_ok k by auto
  then show ?case using 1(4) by (simp only: bind_out_Inr_iff sum.inject split: if_split_asm) blast+
qed

subsection \<open>What an NPC does leaves the ledgers alone\<close>

text \<open>Writing an NPC back that was read before, with the same ledger.\<close>

lemma write_back:
  assumes ok: "ledger_ok gm" and n: "open_book k key n gm" and same: "entry_of n' = entry_of n"
  shows "same_books gm (with_npc k key (\<lambda>_. n') gm)"
proof -
  have bok: "books_ok (books gm) (gm_registered gm)" using ok by (simp add: ledger_ok_def)
  have "e = entry_of n" if "e \<in> set (books gm ! k)" "fst e = key" for e
    by (rule books_key_unique [OF bok]) (use that n in \<open>auto simp: open_book_def books_nth entry_of_def\<close>)
  then have "map (\<lambda>e. if fst e = key then entry_of n else e) (books gm ! k) = books gm ! k"
    by (intro map_idI) simp
  then have "write_entry k key (\<lambda>_. entry_of n) (books gm) = books gm" unfolding write_entry_def by (simp only: list_update_id)
  moreover have "books (with_npc k key (\<lambda>_. n') gm) = write_entry k key (\<lambda>_. entry_of n) (books gm)"
    by (rule books_with_npc) (rule same)
  ultimately show ?thesis by (simp add: same_books_def)
qed

lemma eval_formula_books: "eval_formula g name vars gm = Inr (d, gm') \<Longrightarrow> same_books gm gm'"
  by (auto simp: eval_formula_def bind_out_Inr_iff)

lemma strike_books: "strike g vars m amount c r gm = Inr (x, gm') \<Longrightarrow> same_books gm gm'"
  unfolding strike_def Let_def by (auto simp: bind_out_Inr_iff dest!: eval_formula_books intro: same_books_trans)

lemma npc_Attack_books:
  assumes A: "npc_Attack g k key q gm = Inr gm'" and ok: "ledger_ok gm" and k: "k < length (gm_areas gm)"
  shows "same_books gm gm'"
  using A unfolding npc_Attack_def Let_def
proof (elim bind_outE_pair bind_outE case_pairE, goal_cases)
  case (1 n enf c amount gm1 rand gm2 amount' gm3 d b gm4 d')
  have s: "same_books gm gm3"
    using roll_int_books [OF 1(4)] roll_real_books [OF 1(5)] strike_books [OF 1(6)] same_books_trans by blast
  have "same_books gm3 (with_npc k key (\<lambda>_. n\<lparr>np_direction := dir\<rparr>) gm3)" for dir
    by (rule write_back [OF _ open_book_same [OF s the_npc_open [OF 1(1) k]]]) (use same_books_ledger [OF s] ok in \<open>simp_all add: entry_of_def\<close>)
  moreover have "same_books x gm4" if "(if c then DeathRespawn g q (with_players f (with_players h x)) else Inr (with_players f (with_players h x))) = Inr gm4" for f h x c
    using that DeathRespawn_books [of g q "with_players f (with_players h x)" gm4] by (auto split: if_splits)
  ultimately have "same_books gm gm4" using s 1(9) same_books_trans by blast
  then show ?case using 1(11) by auto
qed


lemma npc_Walk_books: "npc_Walk g k j dir gm = Inr (r, gm') \<Longrightarrow> same_books gm gm'"
proof -
  have "same_books gm (with_area k (\<lambda>a. a\<lparr>ar_npcs := (ar_npcs a)[j := (ar_npcs (gm_areas gm ! k) ! j)\<lparr>np_x := x, np_y := y, np_direction := dir\<rparr>]\<rparr>) gm)" for x y
  proof (cases "k < length (gm_areas gm)")
    case True
    let ?ns = "ar_npcs (gm_areas gm ! k)"
    have "entry_of ((?ns ! j)\<lparr>np_x := x, np_y := y, np_direction := dir\<rparr>) = entry_of (?ns ! j)" by (simp add: entry_of_def)
    then have "map entry_of (?ns[j := (?ns ! j)\<lparr>np_x := x, np_y := y, np_direction := dir\<rparr>]) = map entry_of ?ns"
      by (cases "j < length ?ns") (simp_all add: map_update list_update_beyond list_update_same_conv)
    then show ?thesis
      using True by (simp add: same_books_def books_def with_area_def map_update list_update_same_conv)
  qed (simp add: same_books_def books_def with_area_def list_update_beyond)
  then show "npc_Walk g k j dir gm = Inr (r, gm') \<Longrightarrow> ?thesis"
    unfolding npc_Walk_def Let_def by (auto simp: bind_out_Inr_iff split: option.splits if_splits)
qed

lemma npc_go_books: "npc_go g k key dir gm = Inr (r, gm') \<Longrightarrow> same_books gm gm'"
  unfolding npc_go_def Let_def by (auto split: if_splits dest: npc_Walk_books)

lemma turn_npc_books [simp]: "same_books gm (turn_npc k key dir gm)"
  unfolding turn_npc_def by (rule with_npc_books) (simp add: entry_of_def)

lemma turn_npc_trans: "same_books (turn_npc k key dir gm) gm' \<Longrightarrow> same_books gm gm'"
  by (rule same_books_trans [OF turn_npc_books])

lemma approach_books: "approach g k key xd yd gm = Inr gm' \<Longrightarrow> same_books gm gm'"
  unfolding approach_def Let_def
proof (elim bind_outE_pair, goal_cases)
  case (1 r gm1)
  have s: "same_books gm gm1" by (rule turn_npc_trans [OF npc_go_books [OF 1(1)]])
  show ?case
  proof (cases "r = WalkFail")
    case True
    have "same_books gm1 gm'"
      using 1(2) unfolding True simp_thms if_False
    proof (elim bind_outE_pair, goal_cases)
      case (1 r2 gm2)
      have "same_books gm2 gm'"
        using 1(2) by (auto simp: bind_out_Inr_iff split: if_split_asm dest!: npc_go_books roll_int_books intro: same_books_trans)
      then show ?case using turn_npc_trans [OF npc_go_books [OF 1(1)]] same_books_trans by blast
    qed
    then show ?thesis using s same_books_trans by blast
  qed (use 1(2) s in simp)
qed

lemma wander_books:
  "wander g k key n gm = Inr gm' \<Longrightarrow> same_books gm gm'"
  unfolding wander_def
proof (elim bind_outE_pair bind_outE, goal_cases)
  case (1 act gm1 gm2 gm3)
  have w: "same_books z (with_npc k key (\<lambda>n. n\<lparr>np_walk_idle_for := m\<rparr>) z)" "same_books z (with_npc k key (\<lambda>n. n\<lparr>np_walk_idle_for := np_walk_idle_for n - 1\<rparr>) z)" for m z
    by (rule with_npc_books; simp add: entry_of_def)+
  have "same_books gm gm1" using 1(1) w(2) by (auto split: if_splits dest: roll_int_books)
  moreover have "same_books gm1 gm2" using 1(2) by (auto simp: bind_out_Inr_iff split: if_splits dest: npc_go_books)
  moreover have "same_books gm2 gm3"
    using 1(3) by (auto simp: bind_out_Inr_iff split: if_splits dest!: npc_go_books roll_int_books intro: same_books_trans)
  moreover have "same_books gm3 gm'"
    using 1(4) w(1) by (auto simp: bind_out_Inr_iff split: if_splits dest!: roll_int_books intro: same_books_trans)
  ultimately show ?case using same_books_trans by blast
qed

lemma adopt_books: "adopt g k key n enf gm = Inr gm' \<Longrightarrow> same_books gm gm'"
  unfolding adopt_def by (auto simp: bind_out_Inr_iff entry_of_def split: if_splits option.splits intro!: with_npc_books)

lemma next_act_books: "next_act g k key n gm = Inr gm' \<Longrightarrow> same_books gm gm'"
  unfolding next_act_def
proof (elim bind_outE_pair bind_outE, goal_cases)
  case (1 lo hi r gm1)
  have "same_books gm1 (with_npc k key (\<lambda>n. n\<lparr>np_last_act := d_add (np_last_act n) (d_div (d_of_int r) (d_of_int 1000))\<rparr>) gm1)"
    by (rule with_npc_books) (simp add: entry_of_def)
  then show ?case using roll_int_books [OF 1(3)] 1(4) same_books_trans by blast
qed

lemma npc_Act_books:
  assumes A: "npc_Act g k key gm = Inr gm'" and ok: "ledger_ok gm" and k: "k < length (gm_areas gm)"
  shows "same_books gm gm'"
  using A unfolding npc_Act_def
proof (elim bind_outE, goal_cases)
  case (1 n enf gm1 gm2 n')
  have s: "same_books gm gm2" using adopt_books [OF 1(3)] next_act_books [OF 1(4)] same_books_trans by blast
  then have len: "length (gm_areas gm2) = length (gm_areas gm)" using books_nth(2) [of gm] books_nth(2) [of gm2] by (simp add: same_books_def)
  have ok2: "ledger_ok gm2" using same_books_ledger [OF s] ok by simp
  have "same_books gm2 gm'"
  proof (cases "np_spawn_type n' = 7")
    case False
    then show ?thesis
      using 1(6) npc_Attack_books [OF _ ok2] k len
      by (auto simp: bind_out_Inr_iff Let_def split: option.splits if_split_asm dest: wander_books approach_books)
  qed (use 1(6) in simp)
  then show ?case using s same_books_trans by blast
qed

lemma Msg_NPC_books: "Msg_NPC g k n msg gm = Inr gm' \<Longrightarrow> same_books gm gm'"
  unfolding Msg_NPC_def Let_def by (auto simp: bind_out_Inr_iff)

lemma npc_Talk_books: "npc_Talk g k key gm = Inr gm' \<Longrightarrow> same_books gm gm'"
  unfolding npc_Talk_def Let_def
proof (elim bind_outE, goal_cases)
  case (1 n)
  let ?gm = "with_area k (\<lambda>a. a\<lparr>ar_npcs := map (\<lambda>m. if np_id m = np_id n \<and> np_spawn_x m = np_spawn_x n \<and> np_spawn_y m = np_spawn_y n
    then m\<lparr>np_last_talk := g_now g\<rparr> else m) (ar_npcs a)\<rparr>) gm"
  have "same_books gm ?gm" by (rule with_area_books) (simp add: entry_of_def)
  moreover have "same_books ?gm gm' \<or> gm' = gm"
    using 1(2) by (auto simp: bind_out_Inr_iff split: if_split_asm prod.splits dest!: roll_int_books roll_real_books Msg_NPC_books intro: same_books_trans)
  ultimately show ?case using same_books_trans by auto
qed

subsection \<open>Spawning\<close>

lemma try_places_books:
  "try_places g k n left gm = Inr (found, n', gm') \<Longrightarrow> same_books gm gm' \<and> entry_of n' = entry_of n"
proof (induction left arbitrary: n gm)
  case (Suc left)
  show ?case
    using Suc.prems unfolding try_places.simps Let_def
  proof (elim bind_outE_triple bind_outE, goal_cases)
    case (1 x y gm1 ok)
    have "same_books gm gm1"
      using 1(1) by (auto simp: bind_out_Inr_iff split: if_split_asm dest!: roll_int_books intro: same_books_trans)
    moreover have "same_books gm1 gm' \<and> entry_of n' = entry_of n"
    proof (cases ok)
      case True
      then show ?thesis using 1(3) by (auto simp: bind_out_Inr_iff entry_of_def dest!: roll_int_books)
    next
      case False
      then show ?thesis using 1(3) Suc.IH [of "n\<lparr>np_x := x, np_y := y\<rparr>" gm1] by (simp add: entry_of_def)
    qed
    ultimately show ?case using same_books_trans by blast
  qed
qed simp

lemma linear_scan_entry: "linear_scan g k n xs gm = Inr n' \<Longrightarrow> entry_of n' = entry_of n"
  by (induction xs) (auto simp: bind_out_Inr_iff entry_of_def split: if_split_asm option.splits)

lemma npc_place_books: "npc_place g k n gm = Inr (n', gm') \<Longrightarrow> same_books gm gm' \<and> entry_of n' = entry_of n"
  unfolding npc_place_def
  by (auto simp: bind_out_Inr_iff split: if_split_asm dest!: try_places_books linear_scan_entry)

lemma spawn_one_books:
  assumes S: "spawn_one g k key parent gm = Inr gm'" and ok: "ledger_ok gm" and k: "k < length (gm_areas gm)"
  shows "same_books gm gm'"
proof -
  obtain n where n: "the_npc k key gm = Inr n" using S by (auto simp: spawn_one_def bind_out_Inr_iff)
  have "same_books gm gm'" if "\<not> np_alive n"
    using S unfolding spawn_one_def n bind_out.simps Let_def if_not_P [OF that]
  proof (elim bind_outE_pair bind_outE, goal_cases)
    case (1 enf n1 gm1)
    have s: "same_books gm gm1" "entry_of n1 = entry_of n" using npc_place_books [OF 1(2)] by (auto simp: entry_of_def split: if_splits)
    have "same_books gm1 (with_npc k key (\<lambda>_. n1\<lparr>np_alive := True, np_hp := n_hp enf, np_last_act := g_now g, np_last_talk := g_now g, np_act_speed := npc_speed g n1\<rparr>) gm1)"
      by (rule write_back [OF _ open_book_same [OF s(1) the_npc_open [OF n k]]])
         (use same_books_ledger [OF s(1)] ok s(2) in \<open>simp_all add: entry_of_def\<close>)
    then show ?case using s(1) 1(3) same_books_trans by auto
  qed
  then show ?thesis using S n by (cases "np_alive n") (auto simp: spawn_one_def)
qed

lemma same_books_length: "same_books gm gm' \<Longrightarrow> length (gm_areas gm') = length (gm_areas gm)"
  using books_nth(2) [of gm] books_nth(2) [of gm'] by (simp add: same_books_def)

lemma spawn_children_books:
  "spawn_children g k parent keys gm = Inr gm' \<Longrightarrow> ledger_ok gm \<Longrightarrow> k < length (gm_areas gm) \<Longrightarrow> same_books gm gm'"
proof (induction keys arbitrary: gm)
  case (Cons key keys)
  then obtain gm1 where g1: "spawn_one g k key (Some parent) gm = Inr gm1" "spawn_children g k parent keys gm1 = Inr gm'"
    by (auto simp: bind_out_Inr_iff)
  have s: "same_books gm gm1" by (rule spawn_one_books [OF g1(1) Cons.prems(2,3)])
  have "same_books gm1 gm'"
    by (rule Cons.IH [OF g1(2)]) (use same_books_ledger [OF s] same_books_length [OF s] Cons.prems in simp_all)
  then show ?case using s same_books_trans by blast
qed simp

lemma npc_Spawn_books:
  assumes S: "npc_Spawn g k key gm = Inr gm'" and ok: "ledger_ok gm" and k: "k < length (gm_areas gm)"
  shows "same_books gm gm'"
  using S unfolding npc_Spawn_def
proof (elim bind_outE, goal_cases)
  case (1 n enf)
  show ?case
  proof (cases "np_alive n")
    case False
    then obtain gm1 where g1: "gm1 = gm \<or> (\<exists>keys. spawn_children g k key keys gm = Inr gm1)" "spawn_one g k key None gm1 = Inr gm'"
      using 1(3) by (auto simp: bind_out_Inr_iff split: if_split_asm)
    have s: "same_books gm gm1" using g1(1) spawn_children_books [OF _ ok k] by auto
    have "same_books gm1 gm'"
      by (rule spawn_one_books [OF g1(2)]) (use same_books_ledger [OF s] same_books_length [OF s] ok k in simp_all)
    then show ?thesis using s same_books_trans by blast
  qed (use 1(3) in simp)
qed


section \<open>Who gets the drop by chance\<close>

text \<open>
  The test of the random mode compares the number with the damage of one attacker, not with the sum up to it: somebody who
  has done no more damage than those before together never wins, and neither does anybody for many numbers.
\<close>

lemma rewarded_above: "rewarded r sofar xs = Some p \<Longrightarrow> 0 \<le> sofar \<Longrightarrow> \<forall>x \<in> set xs. 0 \<le> op_damage x \<Longrightarrow> \<exists>x \<in> set xs. op_attacker x = p \<and> sofar < op_damage x"
proof (induction xs arbitrary: sofar)
  case (Cons x xs)
  then have "0 \<le> op_damage x" by simp
  then show ?case using Cons.IH [of "sofar + op_damage x"] Cons.prems by (cases "r \<ge> sofar \<and> r < op_damage x") force+
qed simp

section \<open>A character leaves the game\<close>

text \<open>Of \<open>Character::Logout\<close>, what is done to the NPCs: each one of the list of the character forgets it.\<close>

fun strike_out :: "nat \<Rightarrow> npc_opponent list \<Rightarrow> npc_opponent list \<times> int" where
  "strike_out p [] = ([], 0)"
| "strike_out p (x # xs) =
     (if op_attacker x = p then (xs, op_damage x) else (let (ys, d) = strike_out p xs in (x # ys, d)))"

definition forget_attacker :: "nat \<Rightarrow> npc \<Rightarrow> npc" where
  "forget_attacker p n =
     (let (xs, d) = strike_out p (np_damagelist n) in n\<lparr>np_totaldamage := np_totaldamage n - d, np_damagelist := xs\<rparr>)"

definition leave_ledgers :: "nat \<Rightarrow> game \<Rightarrow> game" where
  "leave_ledgers p gm =
     (let gm' = foldl (\<lambda>gm (k, key). with_npc k key (forget_attacker p) gm) gm (gm_registered gm p)
      in gm'\<lparr>gm_registered := (gm_registered gm')(p := [])\<rparr>)"

fun struck :: "nat \<Rightarrow> (nat \<times> int) list \<Rightarrow> (nat \<times> int) list \<times> int" where
  "struck p [] = ([], 0)"
| "struck p (x # xs) = (if fst x = p then (xs, snd x) else (let (ys, d) = struck p xs in (x # ys, d)))"

definition forgot :: "nat \<Rightarrow> entry \<Rightarrow> entry" where
  "forgot p e = (fst e, fst (struck p (fst (snd e))), snd (snd e) - snd (struck p (fst (snd e))))"

lemma strike_out_struck:
  "struck p (map (\<lambda>x. (op_attacker x, op_damage x)) xs) =
     (map (\<lambda>x. (op_attacker x, op_damage x)) (fst (strike_out p xs)), snd (strike_out p xs))"
  by (induction xs) (auto simp: split_beta)

lemma forget_attacker_entry: "entry_of (forget_attacker p n) = forgot p (entry_of n)"
  by (simp add: forget_attacker_def forgot_def entry_of_def strike_out_struck split_beta)

lemma struck_keys: "map fst (fst (struck p xs)) = remove1 p (map fst xs)"
  by (induction xs) (auto simp: split_beta)

lemma struck_sum: "sum_list (map snd (fst (struck p xs))) = sum_list (map snd xs) - snd (struck p xs)"
  by (induction xs) (auto simp: split_beta)

lemma forgot_ok: "entry_ok e \<Longrightarrow> entry_ok (forgot p e)"
  by (simp add: entry_ok_def forgot_def struck_keys struck_sum)

lemma forgot_attackers: "entry_ok e \<Longrightarrow> fst ` set (fst (snd (forgot p e))) = fst ` set (fst (snd e)) - {p}"
  unfolding set_map [symmetric] by (simp add: entry_ok_def forgot_def struck_keys)

lemma books_forget:
  assumes ok: "books_ok bs (reg(p := ys))"
  shows "books_ok (write_entry k key (forgot p) bs) (reg(p := removeAll (k, key) ys))"
proof (rule books_write [OF ok], goal_cases)
  case (1 e)
  then show ?case by (simp add: forgot_def)
next
  case (2 e)
  then show ?case using books_area [OF nth_mem ok] forgot_ok by blast
next
  case (3 q j i)
  then show ?case by auto
next
  case (4 q)
  have "(k, key) \<in> set ((reg(p := ys)) q) \<longleftrightarrow> k < length bs \<and> (\<exists>e \<in> set (bs ! k). fst e = key \<and> q \<in> fst ` set (fst (snd e)))"
    using ok by (simp add: books_ok_def attacks_def)
  moreover have "q \<in> fst ` set (fst (snd (forgot p e))) \<longleftrightarrow> q \<noteq> p \<and> q \<in> fst ` set (fst (snd e))" if "k < length bs" "e \<in> set (bs ! k)" for e
    using forgot_attackers [of e p] books_area [OF nth_mem [OF that(1)] ok] that(2) by auto
  ultimately show ?case by (cases "q = p") (simp_all, blast)
qed

lemma leave_ledgers_step:
  assumes "books_ok (books gm) (reg(p := ys))" "set ys \<subseteq> set zs"
  shows "books_ok (books (foldl (\<lambda>gm (k, key). with_npc k key (forget_attacker p) gm) gm zs)) (reg(p := []))"
  using assms
proof (induction zs arbitrary: gm ys)
  case (Cons z zs)
  obtain k key where z: "z = (k, key)" by fastforce
  have "books (with_npc k key (forget_attacker p) gm) = write_entry k key (forgot p) (books gm)"
    by (rule books_with_npc) (rule forget_attacker_entry)
  then have "books_ok (books (with_npc k key (forget_attacker p) gm)) (reg(p := removeAll (k, key) ys))"
    using books_forget [OF Cons.prems(1)] by simp
  moreover have "set (removeAll (k, key) ys) \<subseteq> set zs" using Cons.prems(2) by (auto simp: z)
  ultimately show ?case unfolding z foldl_Cons prod.case by (rule Cons.IH)
qed simp

lemma fold_registered: "gm_registered (foldl (\<lambda>gm (k, key). with_npc k key f gm) gm zs) = gm_registered gm"
  by (induction zs arbitrary: gm) (auto split: prod.splits)

lemma leave_ledgers_ok:
  assumes "ledger_ok gm"
  shows "ledger_ok (leave_ledgers p gm)"
proof -
  have "books_ok (books gm) ((gm_registered gm)(p := gm_registered gm p))" using assms by (simp add: ledger_ok_def)
  from leave_ledgers_step [OF this order_refl]
  show ?thesis unfolding ledger_ok_def leave_ledgers_def Let_def by (simp add: fold_registered books_registered)
qed

section \<open>The ledger in every game that is reached\<close>

text \<open>
  What touches ledgers: damage (callers hit living NPCs, which have health, and never with less than nothing), deaths, what
  an NPC does on its own, and characters that leave.
\<close>

inductive npc_step :: "game_env \<Rightarrow> game \<Rightarrow> game \<Rightarrow> bool" for g where
  Hit: "Damage g k key p amount sid gm = Inr gm' \<Longrightarrow> the_npc k key gm = Inr n \<Longrightarrow> 0 \<le> np_hp n \<Longrightarrow> 0 \<le> amount \<Longrightarrow>
    k < length (gm_areas gm) \<Longrightarrow> npc_step g gm gm'"
| Dies: "Die g k key vis gm = Inr gm' \<Longrightarrow> k < length (gm_areas gm) \<Longrightarrow> npc_step g gm gm'"
| Spawns: "npc_Spawn g k key gm = Inr gm' \<Longrightarrow> k < length (gm_areas gm) \<Longrightarrow> npc_step g gm gm'"
| Acts: "npc_Act g k key gm = Inr gm' \<Longrightarrow> k < length (gm_areas gm) \<Longrightarrow> npc_step g gm gm'"
| Talks: "npc_Talk g k key gm = Inr gm' \<Longrightarrow> npc_step g gm gm'"
| Leaves: "npc_step g gm (leave_ledgers p gm)"
| Others: "same_books gm gm' \<Longrightarrow> npc_step g gm gm'"

lemma npc_step_ledger: "npc_step g gm gm' \<Longrightarrow> ledger_ok gm \<Longrightarrow> ledger_ok gm'"
proof (induction rule: npc_step.induct)
  case (Hit k key p amount sid gm gm' n)
  then show ?case by (blast intro: Damage_ok)
next
  case (Dies k key vis gm gm')
  then show ?case using Die_ok by blast
next
  case (Spawns k key gm gm')
  then show ?case using npc_Spawn_books same_books_ledger by blast
next
  case (Acts k key gm gm')
  then show ?case using npc_Act_books same_books_ledger by blast
next
  case (Talks k key gm gm')
  then show ?case using npc_Talk_books same_books_ledger by blast
qed (simp_all add: leave_ledgers_ok same_books_ledger)

text \<open>
  C5: The ledger of an NPC adds up. From a game in which nobody has hurt an NPC, whatever hits, deaths with drops and
  experience, spawns, attacks and walks of NPCs, and logouts follow: an attacker is listed once by an NPC, the total damage
  is the sum of what is listed, and an NPC is in the list of a character exactly if the character is in the ledger of the
  NPC, so that no freed character stays in a ledger.
\<close>

theorem damage_ledger:
  assumes "(npc_step g)\<^sup>*\<^sup>* gm gm'" and none: "\<forall>a \<in> set (gm_areas gm). \<forall>n \<in> set (ar_npcs a). np_damagelist n = [] \<and> np_totaldamage n = 0"
    and apart: "\<forall>a \<in> set (gm_areas gm). distinct (map np_key (ar_npcs a))" and free: "\<forall>p. gm_registered gm p = []"
    and here: "k < length (gm_areas gm')" "n \<in> set (ar_npcs (gm_areas gm' ! k))"
  shows "distinct (map op_attacker (np_damagelist n)) \<and> np_totaldamage n = sum_list (map op_damage (np_damagelist n)) \<and>
    (\<forall>p. (k, np_key n) \<in> set (gm_registered gm' p) \<longleftrightarrow> p \<in> op_attacker ` set (np_damagelist n))"
proof -
  have "np_damagelist m = []" if "j < length (gm_areas gm)" "m \<in> set (ar_npcs (gm_areas gm ! j))" for j m
    using none nth_mem [OF that(1)] that(2) by blast
  then have "ledger_ok gm"
    unfolding ledger_ok_def books_ok_def attacks_def using none apart free
    by (auto simp: books_def entry_of_def entry_ok_def comp_def)
  then have ok: "ledger_ok gm'"
    using assms(1) by (induction rule: rtranclp_induct [OF assms(1)]) (auto intro: npc_step_ledger)
  then have bok: "books_ok (books gm') (gm_registered gm')" by (simp add: ledger_ok_def)
  have e: "entry_of n \<in> set (books gm' ! k)" "k < length (books gm')" using here by (simp_all add: books_nth)
  have "entry_ok (entry_of n)" using books_area [OF nth_mem [OF e(2)] bok] e(1) by blast
  moreover have "attacks (books gm') k (np_key n) p \<longleftrightarrow> p \<in> op_attacker ` set (np_damagelist n)" for p
  proof -
    have "e' = entry_of n" if "e' \<in> set (books gm' ! k)" "fst e' = np_key n" for e'
      by (rule books_key_unique [OF bok e(2)]) (use that e(1) in \<open>auto simp: entry_of_def\<close>)
    moreover have "fst (entry_of n) = np_key n" "fst ` set (fst (snd (entry_of n))) = op_attacker ` set (np_damagelist n)"
      by (simp_all add: entry_of_def image_image)
    ultimately show ?thesis using e unfolding attacks_def by metis
  qed
  ultimately show ?thesis using bok by (simp add: entry_ok_def entry_of_def books_ok_def comp_def)
qed

text \<open>A rat in the hall that \<open>alice\<close> hits.\<close>

definition rat :: npc where
  "rat = \<lparr>np_key = 7, np_index = 0, np_id = 1, np_x = 1, np_y = 0, np_direction = 0, np_alive = True, np_temporary = False, np_parent = None,
     np_attack = False, np_hp = 8, np_totaldamage = 0, np_damagelist = [], np_spawn_type = 0, np_spawn_time = 0, np_spawn_x = 1, np_spawn_y = 0,
     np_act_speed = Fin 1, np_walk_idle_for = 0, np_dead_since = Fin 0, np_last_act = Fin 0, np_last_talk = Fin 0\<rparr>"

definition rat_game :: game where
  "rat_game = small_game\<lparr>gm_areas := [hall\<lparr>ar_npcs := [rat]\<rparr>]\<rparr>"

definition rat_genv :: game_env where
  "rat_genv = small_genv\<lparr>g_enf := \<lparr>pub_rid = [], pub_len = [], pub_data = [ENF_Data, ENF_Data\<lparr>n_id := 1, n_type := ENF_Passive, n_hp := 4\<rparr>]\<rparr>\<rparr>"

theorem damage_ledger_witness:
  "\<exists>gm' n. Damage rat_genv 0 7 1 4 (- 1) rat_game = Inr gm' \<and> ar_npcs (gm_areas gm' ! 0) = [n] \<and> np_totaldamage n = 4 \<and>
    np_totaldamage n = sum_list (map op_damage (np_damagelist n)) \<and> (0, 7) \<in> set (gm_registered gm' 1)"
proof -
  let ?run = "Damage rat_genv 0 7 1 4 (- 1) rat_game"
  have "map_sum id (\<lambda>gm. map (map (\<lambda>n. (np_key n, np_totaldamage n, map op_attacker (np_damagelist n))) \<circ> ar_npcs) (gm_areas gm)) ?run = Inr [[(7, 4, [1])]]"
    by code_simp
  then obtain gm' where run: "?run = Inr gm'"
    and areas: "map (map (\<lambda>n. (np_key n, np_totaldamage n, map op_attacker (np_damagelist n))) \<circ> ar_npcs) (gm_areas gm') = [[(7, 4, [1])]]"
    by (cases ?run) auto
  from areas obtain a n where a: "gm_areas gm' = [a]" "ar_npcs a = [n]" "np_key n = 7" "np_totaldamage n = 4" "map op_attacker (np_damagelist n) = [1]"
    by (auto simp: map_eq_Cons_conv)
  have "the_npc 0 7 rat_game = Inr rat" by (simp add: the_npc_def rat_game_def small_game_def hall_def rat_def)
  then have step: "npc_step rat_genv rat_game gm'" by (rule Hit [OF run]) (simp_all add: rat_def rat_game_def)
  have "distinct (map op_attacker (np_damagelist n)) \<and> np_totaldamage n = sum_list (map op_damage (np_damagelist n)) \<and>
      (\<forall>p. (0, np_key n) \<in> set (gm_registered gm' p) \<longleftrightarrow> p \<in> op_attacker ` set (np_damagelist n))"
    by (rule damage_ledger [OF r_into_rtranclp [of "npc_step rat_genv", OF step]])
       (simp_all add: a rat_game_def rat_def small_game_def)
  moreover have "1 \<in> op_attacker ` set (np_damagelist n)" using a(5) by (metis list.set_intros(1) list.set_map)
  ultimately show ?thesis using run a by auto
qed

end
