(* ===== verification/Combat.thy ===== *)
theory Combat
  imports Npc
begin

text \<open>
  Fights of characters (\<open>src/src/map.cpp\<close>, \<open>character.cpp\<close>, \<open>handlers/Attack.cpp\<close>, \<open>Spell.cpp\<close>): hits with a weapon on NPCs
  and on other characters, and spells, from the chant to its effect. Proved: a weapon hits the first target in line, and
  whatever is hit and cast the ledgers of the NPCs stay right; a healing spell never takes health and costs its energy.
\<close>

section \<open>Spells and rights\<close>

definition ESF_Heal :: int where "ESF_Heal = 0"
definition ESF_Damage :: int where "ESF_Damage = 1"
definition ESF_Bard :: int where "ESF_Bard = 2"
definition ESF_NPCOnly :: int where "ESF_NPCOnly = 0"
definition ESF_Friendly :: int where "ESF_Friendly = 1"
definition ESF_Normal :: int where "ESF_Normal = 0"
definition ESF_Self :: int where "ESF_Self = 1"
definition ESF_Group :: int where "ESF_Group = 3"

definition spell_data :: "world_env \<Rightarrow> int \<Rightarrow> esf_data outcome" where
  "spell_data env i = ESF_Get (w_esf env) (of_int i)"

definition CanInteractPKCombat :: "character \<Rightarrow> bool" where
  "CanInteractPKCombat c \<longleftrightarrow> ch_nointeract c AND 32 = 0"

definition IsInstrument :: "game_env \<Rightarrow> int \<Rightarrow> bool" where
  "IsInstrument g graphic \<longleftrightarrow> graphic \<in> set (g_instruments g)"

text \<open>Whether players may fight each other on a map; the list of exceptions is only read if the map does not say so.\<close>

definition pk_here :: "game_env \<Rightarrow> nat \<Rightarrow> game \<Rightarrow> bool outcome" where
  "pk_here g k gm =
     (let m = ar_map (gm_areas gm ! k) in
      if m_pk m then Inr True
      else if g_config g ''GlobalPK'' \<noteq> 0 then bind_out (PKExcept g (m_id m) gm) (\<lambda>x. Inr (\<not> x)) else Inr False)"

section \<open>The line of a weapon\<close>

definition ahead :: "int \<Rightarrow> int \<times> int \<Rightarrow> int \<times> int" where
  "ahead dir P =
     (if dir = DIRECTION_UP then (fst P, snd P - 1) else if dir = DIRECTION_RIGHT then (fst P + 1, snd P)
      else if dir = DIRECTION_DOWN then (fst P, snd P + 1) else if dir = DIRECTION_LEFT then (fst P - 1, snd P) else P)"

definition weapon_range :: "game_env \<Rightarrow> character \<Rightarrow> int outcome" where
  "weapon_range g c =
     bind_out (item_data (g_env g) (paperdoll c ! Weapon)) (\<lambda>wep.
       Inr (if i_subtype wep = EIF_Ranged then g_config g ''RangedDistance'' else 1))"

text \<open>An arrow flies on over a tile that an NPC can walk on.\<close>

definition flies_over :: "game_env \<Rightarrow> nat \<Rightarrow> game \<Rightarrow> int \<times> int \<Rightarrow> bool outcome" where
  "flies_over g k gm P =
     (let a = gm_areas gm ! k in
      map_Walkable (g_env g) (gm_players gm) (ar_who a) (map (\<lambda>n. (np_x n, np_y n)) (filter np_alive (ar_npcs a))) (ar_map a)
        (to_uchar (fst P)) (to_uchar (snd P)) True)"

fun npc_there :: "game_env \<Rightarrow> character \<Rightarrow> int \<times> int \<Rightarrow> npc list \<Rightarrow> npc option outcome" where
  "npc_there g c P [] = Inr None"
| "npc_there g c P (n # ns) =
     bind_out (enf_of g n) (\<lambda>enf.
       if (n_type enf = ENF_Passive \<or> n_type enf = ENF_Aggressive \<or> ch_admin c \<ge> w_admin_config (g_env g) ''killnpc'') \<and>
          np_alive n \<and> (np_x n, np_y n) = P
       then Inr (Some n) else npc_there g c P ns)"

fun player_there :: "int \<Rightarrow> int \<times> int \<Rightarrow> players \<Rightarrow> nat list \<Rightarrow> nat option outcome" where
  "player_there mapid P w [] = Inr None"
| "player_there mapid P w (q # qs) =
     bind_out (player w q) (\<lambda>d.
       if ch_mapid d = mapid \<and> \<not> ch_nowhere d \<and> (ch_x d, ch_y d) = P then Inr (Some q) else player_there mapid P w qs)"

text \<open>What a shot meets first: \<open>there\<close> says what can be hit on a tile, \<open>free\<close> whether it flies on.\<close>

fun shot :: "(int \<times> int \<Rightarrow> 'a option outcome) \<Rightarrow> (int \<times> int \<Rightarrow> bool outcome) \<Rightarrow> int \<Rightarrow> nat \<Rightarrow> int \<times> int \<Rightarrow> 'a option outcome" where
  "shot there free dir 0 P = Inr None"
| "shot there free dir (Suc i) P =
     (let P = ahead dir P in
      bind_out (there P) (\<lambda>hit.
        case hit of
          Some n \<Rightarrow> Inr (Some n)
        | None \<Rightarrow> bind_out (free P) (\<lambda>ok. if ok then shot there free dir i P else Inr None)))"

definition shot_npc :: "game_env \<Rightarrow> nat \<Rightarrow> character \<Rightarrow> int \<Rightarrow> game \<Rightarrow> npc option outcome" where
  "shot_npc g k c reach gm =
     shot (\<lambda>P. npc_there g c P (ar_npcs (gm_areas gm ! k))) (flies_over g k gm) (ch_direction c) (nat reach) (ch_x c, ch_y c)"

definition shot_player :: "game_env \<Rightarrow> nat \<Rightarrow> character \<Rightarrow> int \<Rightarrow> game \<Rightarrow> nat option outcome" where
  "shot_player g k c reach gm =
     shot (\<lambda>P. player_there (m_id (ar_map (gm_areas gm ! k))) P (gm_players gm) (ar_who (gm_areas gm ! k))) (flies_over g k gm)
       (ch_direction c) (nat reach) (ch_x c, ch_y c)"

section \<open>A hit\<close>

text \<open>On an NPC. A first hit can be made critical by the configuration.\<close>

definition hit_npc :: "game_env \<Rightarrow> nat \<Rightarrow> nat \<Rightarrow> npc \<Rightarrow> game \<Rightarrow> game outcome" where
  "hit_npc g k p n gm =
     bind_out (player (gm_players gm) p) (\<lambda>c. bind_out (enf_of g n) (\<lambda>enf.
     bind_out (roll_int g (d_mindam (stats c)) (d_maxdam (stats c)) gm) (\<lambda>(amount, gm).
     let (rand, gm) = roll_real g (Fin 0) (Fin 1) gm;
         critical = is_critical g (np_direction n) (ch_direction c) rand \<or> g_config g ''CriticalFirstHit'' \<noteq> 0 \<and> np_hp n = n_hp enf;
         vars = FormulaVars (g_env g) c [] @ npc_vars n enf (m_id (ar_map (gm_areas gm ! k))) ''target_'' in
     bind_out (strike g vars (g_real g ''MobRate'') amount critical rand gm) (\<lambda>(amount, gm).
       Damage g k (np_key n) p (limited g amount (np_hp n)) (- 1) gm))))"

definition bool_int :: "bool \<Rightarrow> int" where
  "bool_int b = (if b then 1 else 0)"

definition avatar_packet :: "PacketAction \<Rightarrow> u16 \<Rightarrow> nat \<Rightarrow> int \<Rightarrow> int \<Rightarrow> int \<Rightarrow> int \<Rightarrow> PacketBuilder" where
  "avatar_packet act from q amount dir health hp =
     AddChar (of_int (bool_int (hp = 0))) (AddChar (of_int health) (AddChar (of_int dir) (AddThree (of_int amount)
       (AddShort (pid_short q) (AddShort from (PacketBuilder_new PACKET_AVATAR act))))))"

text \<open>Death and what it means to the quests of the killer, then the health of the victim for its own client.\<close>

definition after_hit :: "game_env \<Rightarrow> nat \<Rightarrow> nat \<Rightarrow> int \<Rightarrow> game \<Rightarrow> game outcome" where
  "after_hit g p q hp gm =
     bind_out (if hp = 0
         then bind_out (DeathRespawn g q gm) (\<lambda>gm.
              bind_out (run_on p (\<lambda>c. bind_out (g_killed_player g c) (\<lambda>c. Inr ((), c))) (gm_players gm)) (\<lambda>(_, w). Inr (gm\<lparr>gm_players := w\<rparr>)))
         else Inr gm) (\<lambda>gm. bind_out (player (gm_players gm) q) (\<lambda>d.
       Inr (with_players (send_to q (AddShort (of_int (ch_tp d)) (AddShort (of_int (ch_hp d)) (PacketBuilder_new PACKET_RECOVER PACKET_PLAYER)))) gm)))"

definition hit_player :: "game_env \<Rightarrow> nat \<Rightarrow> nat \<Rightarrow> nat \<Rightarrow> game \<Rightarrow> game outcome" where
  "hit_player g k p q gm =
     bind_out (player (gm_players gm) p) (\<lambda>c. bind_out (player (gm_players gm) q) (\<lambda>d.
     bind_out (roll_int g (d_mindam (stats c)) (d_maxdam (stats c)) gm) (\<lambda>(amount, gm).
     let (rand, gm) = roll_real g (Fin 0) (Fin 1) gm;
         vars = FormulaVars (g_env g) c [] @ FormulaVars (g_env g) d ''target_'' in
     bind_out (strike g vars (g_real g ''PKRate'') amount (is_critical g (ch_direction d) (ch_direction c) rand) rand gm) (\<lambda>(amount, gm).
     let limitamount = min amount (ch_hp d); amount = limited g amount (ch_hp d);
         hp = to_short (ch_hp d - limitamount); gm = with_players (alter q (\<lambda>d. d\<lparr>ch_hp := hp\<rparr>)) gm in
     bind_out (percent hp (d_maxhp (stats d))) (\<lambda>health.
     let gm = with_players (send_to p (avatar_packet PACKET_REPLY 0 q amount (ch_direction c) health hp)) gm;
         gm = with_players (send_in (ar_who (gm_areas gm ! k)) (\<lambda>r x. r \<noteq> p \<and> InRange (g_env g) d x)
                (avatar_packet PACKET_REPLY (pid_short p) q amount (ch_direction c) health hp)) gm
     in after_hit g p q hp gm)))))"

definition AttackPK :: "game_env \<Rightarrow> nat \<Rightarrow> nat \<Rightarrow> game \<Rightarrow> (bool \<times> game) outcome" where
  "AttackPK g k p gm =
     bind_out (player (gm_players gm) p) (\<lambda>c.
       if \<not> CanInteractPKCombat c then Inr (False, gm)
       else bind_out (weapon_range g c) (\<lambda>reach. bind_out (shot_player g k c reach gm) (\<lambda>target.
         case target of
           None \<Rightarrow> Inr (False, gm)
         | Some q \<Rightarrow> bind_out (hit_player g k p q gm) (\<lambda>gm. Inr (True, gm)))))"

section \<open>The attack\<close>

text \<open>A ranged weapon needs arrows; the one item that is a gun does not.\<close>

definition may_attack :: "eif_data \<Rightarrow> eif_data \<Rightarrow> bool" where
  "may_attack wep shield \<longleftrightarrow>
     \<not> (i_subtype wep = EIF_Ranged \<and> i_subtype shield \<noteq> EIF_Arrows \<and> (i_id wep \<noteq> 365 \<or> i_name wep \<noteq> bytes_of ''Gun''))"

definition attack_packet :: "nat \<Rightarrow> int \<Rightarrow> PacketBuilder" where
  "attack_packet p dir = AddChar (of_int dir) (AddShort (pid_short p) (PacketBuilder_new PACKET_ATTACK PACKET_PLAYER))"

text \<open>The last part: those around see the attack, then the first NPC in line is hit.\<close>

definition attack_npcs :: "game_env \<Rightarrow> nat \<Rightarrow> nat \<Rightarrow> int \<Rightarrow> bool \<Rightarrow> game \<Rightarrow> game outcome" where
  "attack_npcs g k p dir instrument gm =
     bind_out (player (gm_players gm) p) (\<lambda>c.
     let gm = with_players (send_in (ar_who (gm_areas gm ! k)) (\<lambda>q d. q \<noteq> p \<and> InRange (g_env g) c d) (attack_packet p dir)) gm in
       if instrument \<or> \<not> CanInteractCombat c then Inr gm
       else bind_out (weapon_range g c) (\<lambda>reach. bind_out (shot_npc g k c reach gm) (\<lambda>target.
         case target of None \<Rightarrow> Inr gm | Some n \<Rightarrow> hit_npc g k p n gm)))"

definition map_Attack :: "game_env \<Rightarrow> nat \<Rightarrow> nat \<Rightarrow> int \<Rightarrow> game \<Rightarrow> game outcome" where
  "map_Attack g k p dir gm =
     bind_out (player (gm_players gm) p) (\<lambda>c.
     bind_out (item_data (g_env g) (paperdoll c ! Weapon)) (\<lambda>wep. bind_out (item_data (g_env g) (paperdoll c ! Shield)) (\<lambda>shield.
       if \<not> may_attack wep shield then Inr gm
       else
         bind_out (int_result (ch_attacks c + 1)) (\<lambda>attacks.
         let gm = with_players (alter p (\<lambda>c. CancelSpell (c\<lparr>ch_direction := dir, ch_attacks := attacks\<rparr>))) gm;
             instrument = i_param wep \<noteq> 0 \<and> IsInstrument g (i_param wep) in
         bind_out (case ft_arena (gm_fighters gm p) of Some j \<Rightarrow> Arena_Attack g j p gm | None \<Rightarrow> Inr gm) (\<lambda>gm.
         bind_out (if instrument then Inr False else pk_here g k gm) (\<lambda>pk.
         bind_out (if pk then AttackPK g k p gm else Inr (False, gm)) (\<lambda>(hit, gm).
           if hit then Inr gm else attack_npcs g k p dir instrument gm)))))))"

definition Attack_Use :: "game_env \<Rightarrow> nat \<Rightarrow> PacketReader \<Rightarrow> game \<Rightarrow> game outcome" where
  "Attack_Use g p reader gm =
     bind_out (GetChar reader) (\<lambda>(dir, reader). bind_out (GetThree reader) (\<lambda>(ts, _).
     bind_out (player (gm_players gm) p) (\<lambda>c.
       let stamp = Timestamp (sint ts); ts_diff = ts_minus stamp (gm_timestamps gm p); enforced = g_config g ''EnforceTimestamps'' \<noteq> 0 in
       if enforced \<and> ts_diff < 48 then Inr gm
       else
         let gm = gm\<lparr>gm_timestamps := (gm_timestamps gm)(p := stamp)\<rparr>; limit = g_config g ''LimitAttack'' in
         if ch_sitting c \<noteq> 0 then Inr gm
         else if g_config g ''EnforceWeight'' \<ge> 1 \<and> d_weight (stats c) > d_maxweight (stats c) then Inr gm
         else if limit \<noteq> 0 \<and> ch_attacks c \<ge> limit then Inr gm
         else bind_out (area_of p gm) (\<lambda>(k, _).
           map_Attack g k p (if \<not> enforced \<or> ts_diff \<ge> 60 then ch_direction c else uint dir) gm))))"

section \<open>Spells\<close>

text \<open>
  Healing: what is gained, the health after it, and the packets. Without \<open>LimitDamage\<close> the sum is stored in a \<open>short\<close>
  before it is cut to the maximum.
\<close>

definition hp_gain :: "game_env \<Rightarrow> int \<Rightarrow> character \<Rightarrow> int" where
  "hp_gain g hp c = max 0 (if g_config g ''LimitDamage'' \<noteq> 0 then min hp (d_maxhp (stats c) - ch_hp c) else hp)"

definition add_hp :: "bool \<Rightarrow> int \<Rightarrow> character \<Rightarrow> character" where
  "add_hp capped gain c =
     (let hp = to_short (ch_hp c + gain) in c\<lparr>ch_hp := if capped then min hp (d_maxhp (stats c)) else hp\<rparr>)"

definition pay_tp :: "esf_data \<Rightarrow> character \<Rightarrow> character" where
  "pay_tp spell c = c\<lparr>ch_tp := to_short (ch_tp c - s_tp spell)\<rparr>"

definition SpellSelf :: "game_env \<Rightarrow> nat \<Rightarrow> nat \<Rightarrow> int \<Rightarrow> game \<Rightarrow> game outcome" where
  "SpellSelf g k p sid gm =
     bind_out (player (gm_players gm) p) (\<lambda>c. bind_out (spell_data (g_env g) sid) (\<lambda>spell.
       if s_id spell = 0 \<or> s_kind spell \<noteq> ESF_Heal \<or> ch_tp c < s_tp spell then Inr gm
       else
         let c = pay_tp spell c; c = add_hp True (hp_gain g (s_hp spell) c) c in
         bind_out (percent (ch_hp c) (d_maxhp (stats c))) (\<lambda>health.
         let b = AddChar (of_int health) (AddInt (of_int (s_hp spell)) (AddShort (of_int sid) (AddShort (pid_short p)
                   (PacketBuilder_new PACKET_SPELL PACKET_TARGET_SELF))));
             gm = with_players (\<lambda>w. w(p \<mapsto> c)) gm;
             gm = with_players (send_in (ar_who (gm_areas gm ! k)) (\<lambda>q d. q \<noteq> p \<and> InRange (g_env g) c d) b) gm
         in Inr (with_players (send_to p (AddShort 1 (AddShort (of_int (ch_tp c)) (AddShort (of_int (ch_hp c)) b)))) gm))))"

text \<open>The damage of a spell, to an NPC and to a player.\<close>

definition spell_damage :: "game_env \<Rightarrow> character \<Rightarrow> esf_data \<Rightarrow> (string \<times> int) list \<Rightarrow> double \<Rightarrow> game \<Rightarrow> (int \<times> game) outcome" where
  "spell_damage g c spell target rate gm =
     bind_out (roll_int g (d_mindam (stats c) + s_mindam spell) (d_maxdam (stats c) + s_maxdam spell) gm) (\<lambda>(amount, gm).
     let (rand, gm) = roll_real g (Fin 0) (Fin 1) gm
     in strike g (FormulaVars (g_env g) c [] @ target) rate amount (d_less rand (g_real g ''CriticalRate'')) rand gm)"

definition SpellAttack :: "game_env \<Rightarrow> nat \<Rightarrow> nat \<Rightarrow> npc \<Rightarrow> int \<Rightarrow> game \<Rightarrow> game outcome" where
  "SpellAttack g k p n sid gm =
     bind_out (player (gm_players gm) p) (\<lambda>c.
       if \<not> CanInteractCombat c then Inr gm
       else bind_out (spell_data (g_env g) sid) (\<lambda>spell.
         if s_id spell = 0 \<or> s_kind spell \<noteq> ESF_Damage \<or> ch_tp c < s_tp spell then Inr gm
         else bind_out (enf_of g n) (\<lambda>enf.
           if (n_type enf = ENF_Passive \<or> n_type enf = ENF_Aggressive) \<and> np_alive n then
             (let c = pay_tp spell c; gm = with_players (\<lambda>w. w(p \<mapsto> c)) gm in
              bind_out (spell_damage g c spell (npc_vars n enf (m_id (ar_map (gm_areas gm ! k))) ''target_'') (g_real g ''MobRate'') gm) (\<lambda>(amount, gm).
                Damage g k (np_key n) p (limited g amount (np_hp n)) sid gm))
           else Inr gm)))"

definition update_party :: "nat \<Rightarrow> game \<Rightarrow> game outcome" where
  "update_party q gm =
     bind_out (run_on q (\<lambda>d. bind_out (tell_party d) (\<lambda>d. Inr ((), d))) (gm_players gm)) (\<lambda>(_, w). Inr (gm\<lparr>gm_players := w\<rparr>))"

definition spell_hits :: "game_env \<Rightarrow> nat \<Rightarrow> nat \<Rightarrow> nat \<Rightarrow> int \<Rightarrow> esf_data \<Rightarrow> game \<Rightarrow> game outcome" where
  "spell_hits g k p q sid spell gm =
     (let gm = with_players (alter p (pay_tp spell)) gm in
      bind_out (player (gm_players gm) p) (\<lambda>c. bind_out (player (gm_players gm) q) (\<lambda>d.
      bind_out (spell_damage g c spell (FormulaVars (g_env g) d ''target_'') (g_real g ''PKRate'') gm) (\<lambda>(amount, gm).
      let limitamount = min amount (ch_hp d); amount = limited g amount (ch_hp d);
          hp = to_short (ch_hp d - limitamount); gm = with_players (alter q (\<lambda>d. d\<lparr>ch_hp := hp\<rparr>)) gm in
      bind_out (percent hp (d_maxhp (stats d))) (\<lambda>health.
      let b = AddShort (of_int sid) (avatar_packet PACKET_ADMIN (pid_short p) q amount (ch_direction c) health hp);
          gm = with_players (send_in (ar_who (gm_areas gm ! k)) (\<lambda>_ x. InRange (g_env g) d x) b) gm
      in bind_out (after_hit g p q hp gm) (update_party q))))))"

text \<open>Who may not fight heals others by one point only.\<close>

definition may_help :: "game_env \<Rightarrow> nat \<Rightarrow> character \<Rightarrow> game \<Rightarrow> bool outcome" where
  "may_help g k c gm =
     (if CanInteractCombat c then Inr True else if \<not> CanInteractPKCombat c then Inr False else pk_here g k gm)"

definition heal_packet :: "nat \<Rightarrow> nat \<Rightarrow> int \<Rightarrow> int \<Rightarrow> int \<Rightarrow> int \<Rightarrow> PacketBuilder" where
  "heal_packet p q dir sid display_hp health =
     AddChar (of_int health) (AddInt (of_int display_hp) (AddShort (of_int sid) (AddChar (of_int dir) (AddShort (pid_short p)
       (AddShort (pid_short q) (PacketBuilder_new PACKET_SPELL PACKET_TARGET_OTHER))))))"

definition spell_heals :: "game_env \<Rightarrow> nat \<Rightarrow> nat \<Rightarrow> nat \<Rightarrow> int \<Rightarrow> esf_data \<Rightarrow> game \<Rightarrow> game outcome" where
  "spell_heals g k p q sid spell gm =
     (let gm = with_players (alter p (pay_tp spell)) gm in
      bind_out (player (gm_players gm) p) (\<lambda>c. bind_out (player (gm_players gm) q) (\<lambda>d.
      bind_out (if p = q then Inr True else may_help g k c gm) (\<lambda>able.
      let gain = hp_gain g (s_hp spell) d; gain = (if able then gain else min gain 1); display_hp = (if able then s_hp spell else gain);
          d = add_hp (g_config g ''LimitDamage'' = 0) gain d; gm = with_players (\<lambda>w. w(q \<mapsto> d)) gm in
      bind_out (percent (ch_hp d) (d_maxhp (stats d))) (\<lambda>health.
      let b = heal_packet p q (ch_direction c) sid display_hp health;
          gm = with_players (send_in (ar_who (gm_areas gm ! k)) (\<lambda>r x. r \<noteq> q \<and> InRange (g_env g) d x) b) gm;
          gm = with_players (send_to q (AddShort (of_int (ch_hp d)) b)) gm
      in update_party q gm)))))"

definition SpellAttackPK :: "game_env \<Rightarrow> nat \<Rightarrow> nat \<Rightarrow> nat \<Rightarrow> int \<Rightarrow> game \<Rightarrow> game outcome" where
  "SpellAttackPK g k p q sid gm =
     bind_out (player (gm_players gm) p) (\<lambda>c. bind_out (spell_data (g_env g) sid) (\<lambda>spell.
       if s_id spell = 0 \<or> s_kind spell \<noteq> ESF_Heal \<and> s_kind spell \<noteq> ESF_Damage \<or> ch_tp c < s_tp spell then Inr gm
       else
         bind_out (if s_kind spell = ESF_Damage then pk_here g k gm else Inr False) (\<lambda>pk.
         if pk \<and> \<not> CanInteractPKCombat c then Inr gm
         else
           bind_out (if pk then spell_hits g k p q sid spell gm
                     else if s_kind spell = ESF_Heal then spell_heals g k p q sid spell gm else Inr gm) (\<lambda>gm.
           bind_out (player (gm_players gm) p) (\<lambda>c.
             Inr (with_players (send_to p (AddShort (of_int (ch_tp c)) (AddShort (of_int (ch_hp c)) (PacketBuilder_new PACKET_RECOVER PACKET_PLAYER)))) gm))))))"

text \<open>A party: the members on the map of the caster, one after the other, into one packet.\<close>

definition group_entry :: "nat \<Rightarrow> int \<Rightarrow> int \<Rightarrow> PacketBuilder \<Rightarrow> PacketBuilder" where
  "group_entry q health hp b =
     AddShort (of_int hp) (AddChar (of_int health) (AddShort (pid_short q) (AddByte 255 (AddByte 255 (AddByte 255 (AddByte 255 (AddByte 255 b)))))))"

definition on_map :: "nat \<Rightarrow> game \<Rightarrow> nat \<Rightarrow> bool outcome" where
  "on_map j gm q = bind_out (player (gm_players gm) q) (\<lambda>d. bind_out (GetMap (ch_mapid d) gm) (\<lambda>i. Inr (i = j)))"

fun group_heal :: "game_env \<Rightarrow> nat \<Rightarrow> bool \<Rightarrow> esf_data \<Rightarrow> nat list \<Rightarrow> PacketBuilder \<Rightarrow> nat list \<Rightarrow> game \<Rightarrow> (PacketBuilder \<times> nat list \<times> game) outcome" where
  "group_heal g j able spell [] b near gm = Inr (b, near, gm)"
| "group_heal g j able spell (q # qs) b near gm =
     bind_out (on_map j gm q) (\<lambda>here.
       if \<not> here then group_heal g j able spell qs b near gm
       else bind_out (player (gm_players gm) q) (\<lambda>d.
         let gain = hp_gain g (s_hp spell) d; gain = (if able then gain else min gain 1);
             d = add_hp (g_config g ''LimitDamage'' = 0) gain d in
         bind_out (percent (ch_hp d) (d_maxhp (stats d))) (\<lambda>health.
           group_heal g j able spell qs (group_entry q health (ch_hp d) b)
             (near @ filter (\<lambda>r. case gm_players gm r of Some x \<Rightarrow> InRange (g_env g) d x | None \<Rightarrow> False) (ar_who (gm_areas gm ! j)))
             (with_players (\<lambda>w. w(q \<mapsto> d)) gm))))"

definition SpellGroup :: "game_env \<Rightarrow> nat \<Rightarrow> nat \<Rightarrow> int \<Rightarrow> game \<Rightarrow> game outcome" where
  "SpellGroup g k p sid gm =
     bind_out (player (gm_players gm) p) (\<lambda>c. bind_out (spell_data (g_env g) sid) (\<lambda>spell.
       if s_id spell = 0 \<or> s_kind spell \<noteq> ESF_Heal \<or> ch_party c = None \<or> ch_tp c < s_tp spell then Inr gm
       else
         bind_out (the_party (the (ch_party c)) \<lparr>so_players = gm_players gm, so_parties = gm_parties gm, so_asks = gm_asks gm\<rparr>) (\<lambda>P.
         bind_out (may_help g k c gm) (\<lambda>able.
         let c = pay_tp spell c; gm = with_players (\<lambda>w. w(p \<mapsto> c)) gm;
             b = AddShort (of_int (if able then s_hp spell else min (s_hp spell) 1)) (AddShort (of_int (ch_tp c)) (AddShort (pid_short p)
                   (AddShort (of_int sid) (PacketBuilder_new PACKET_SPELL PACKET_TARGET_GROUP)))) in
         bind_out (group_heal g k able spell (pt_members P) b [] gm) (\<lambda>(b, near, gm).
           Inr (with_players (send_in near (\<lambda>_ _. True) b) gm))))))"

section \<open>The chant\<close>

text \<open>
  The fields of a character that only spells use: the spell, the target, when the last spell took effect, and the time the
  event of the chant is registered for. An event is a call of \<open>character_cast_spell\<close>.
\<close>

record chant =
  cn_spell :: int
  cn_target :: int
  cn_fired :: double
  cn_delay :: double

type_synonym casting = "(nat \<Rightarrow> chant) \<times> game"

definition TargetSelf :: int where "TargetSelf = 1"
definition TargetNPC :: int where "TargetNPC = 2"
definition TargetPlayer :: int where "TargetPlayer = 3"
definition TargetGroup :: int where "TargetGroup = 4"

definition GetNPCIndex :: "int \<Rightarrow> npc list \<Rightarrow> npc option" where
  "GetNPCIndex index ns = find (\<lambda>n. np_index n = index) ns"

definition character_with_pid :: "int \<Rightarrow> nat list \<Rightarrow> nat option" where
  "character_with_pid pid who = find (\<lambda>q. int q = pid) who"

definition SpellCooldownTime :: "game_env \<Rightarrow> chant \<Rightarrow> double" where
  "SpellCooldownTime g ch =
     (let cooldown = d_sub (d_add (cn_fired ch) (g_real g ''SpellCastCooldown'')) (g_now g)
      in if d_less cooldown (Fin 0) then Fin 0 else cooldown)"

text \<open>The effect; the answer says whether the quests of the caster are told.\<close>

definition spell_effect :: "game_env \<Rightarrow> nat \<Rightarrow> nat \<Rightarrow> int \<Rightarrow> chant \<Rightarrow> esf_data \<Rightarrow> game \<Rightarrow> (bool \<times> game) outcome" where
  "spell_effect g k p target ch spell gm =
     (let a = gm_areas gm ! k; told = (\<lambda>m. bind_out m (\<lambda>gm. Inr (True, gm))) in
      if target = TargetSelf then
        (if s_target_restrict spell \<noteq> ESF_Friendly \<or> s_target spell \<noteq> ESF_Self then Inr (False, gm)
         else told (SpellSelf g k p (to_ushort16 (to_short (cn_spell ch))) gm))
      else if target = TargetNPC then
        (if s_target_restrict spell = ESF_Friendly \<or> s_target spell \<noteq> ESF_Normal then Inr (False, gm)
         else case GetNPCIndex (to_uchar (cn_target ch)) (ar_npcs a) of
           None \<Rightarrow> Inr (True, gm) | Some n \<Rightarrow> told (SpellAttack g k p n (to_ushort16 (to_short (cn_spell ch))) gm))
      else if target = TargetPlayer then
        (if s_target_restrict spell = ESF_NPCOnly \<or> s_target spell \<noteq> ESF_Normal then Inr (False, gm)
         else case character_with_pid (cn_target ch) (ar_who a) of
           None \<Rightarrow> Inr (True, gm)
         | Some q \<Rightarrow> if s_target_restrict spell \<noteq> ESF_Friendly \<and> q = p then Inr (False, gm)
                     else told (SpellAttackPK g k p q (to_ushort16 (to_short (cn_spell ch))) gm))
      else if target = TargetGroup then
        (if s_target_restrict spell \<noteq> ESF_Friendly \<or> s_target spell \<noteq> ESF_Group then Inr (False, gm)
         else told (SpellGroup g k p (to_ushort16 (to_short (cn_spell ch))) gm))
      else Inr (False, gm))"

definition SpellAct :: "game_env \<Rightarrow> nat \<Rightarrow> casting \<Rightarrow> casting outcome" where
  "SpellAct g p s =
     (let (chants, gm) = s; ch = chants p in
      bind_out (player (gm_players gm) p) (\<lambda>c. bind_out (spell_data (g_env g) (cn_spell ch)) (\<lambda>spell.
        let quiet = with_players (alter p CancelSpell) gm in
        if s_id spell = 0 \<or> s_kind spell = ESF_Bard then Inr (chants, quiet)
        else
          let chants = chants(p := ch\<lparr>cn_fired := g_now g\<rparr>) in
          bind_out (area_of p quiet) (\<lambda>(k, _). bind_out (spell_effect g k p (ch_spell_target c) ch spell quiet) (\<lambda>(tell_quests, gm).
            if \<not> tell_quests then Inr (chants, gm)
            else bind_out (run_on p (\<lambda>c. bind_out (g_used_spell g (to_short (cn_spell ch)) c) (\<lambda>c. Inr ((), c))) (gm_players gm)) (\<lambda>(_, w).
              Inr (chants, gm\<lparr>gm_players := w\<rparr>)))))))"

definition character_cast_spell :: "game_env \<Rightarrow> nat \<Rightarrow> casting \<Rightarrow> casting outcome" where
  "character_cast_spell g p s =
     (let (chants, gm) = s in
      bind_out (player (gm_players gm) p) (\<lambda>c.
        if \<not> ch_spell_event c then Inr s
        else
          let gm = with_players (alter p (\<lambda>c. c\<lparr>ch_spell_event := False\<rparr>)) gm in
          bind_out (spell_data (g_env g) (cn_spell (chants p))) (\<lambda>spell.
            if s_id spell = 0 then Inr (chants, gm)
            else if ch_spell_target c \<noteq> 0 then SpellAct g p (chants, gm)
            else Inr (chants, with_players (alter p (\<lambda>c. c\<lparr>ch_spell_ready := True\<rparr>)) gm))))"

definition Spell_Request :: "game_env \<Rightarrow> nat \<Rightarrow> PacketReader \<Rightarrow> casting \<Rightarrow> casting outcome" where
  "Spell_Request g p reader s =
     (let (chants, gm) = s in
      bind_out (GetShort reader) (\<lambda>(sid, reader). bind_out (GetThree reader) (\<lambda>(ts, _).
        let sid = uint sid; gm = gm\<lparr>gm_timestamps := (gm_timestamps gm)(p := Timestamp (sint ts))\<rparr>;
            gm = with_players (alter p CancelSpell) gm in
        bind_out (player (gm_players gm) p) (\<lambda>c.
          if \<not> HasSpell (to_short sid) c then Inr (chants, gm)
          else bind_out (spell_data (g_env g) sid) (\<lambda>spell.
            if s_id spell = 0 then Inr (chants, gm)
            else
              let ch = (chants p)\<lparr>cn_spell := sid\<rparr>;
                  ch = ch\<lparr>cn_delay := d_add (d_mul (d_div (d_of_int 47) (d_of_int 100)) (d_of_int (s_cast_time spell))) (SpellCooldownTime g ch)\<rparr>;
                  b = AddShort (of_int sid) (AddShort (pid_short p) (PacketBuilder_new PACKET_SPELL PACKET_REQUEST)) in
              bind_out (area_of p gm) (\<lambda>(k, a).
                let gm = with_players (alter p (\<lambda>c. c\<lparr>ch_spell_event := True\<rparr>)) gm
                in Inr (chants(p := ch), with_players (send_in (ar_who a) (\<lambda>q d. q \<noteq> p \<and> InRange (g_env g) c d) b) gm)))))))"

text \<open>The three packets that choose a target: the time since the request must fit the time the spell takes.\<close>

definition aim :: "game_env \<Rightarrow> nat \<Rightarrow> int \<Rightarrow> int \<Rightarrow> int \<Rightarrow> casting \<Rightarrow> casting outcome" where
  "aim g p target target_id ts s =
     (let (chants, gm) = s; stamp = Timestamp ts; ts_diff = ts_minus stamp (gm_timestamps gm p);
          chants = chants(p := (chants p)\<lparr>cn_target := target_id\<rparr>);
          gm = with_players (alter p (\<lambda>c. c\<lparr>ch_spell_target := target\<rparr>)) gm in
      bind_out (if g_config g ''EnforceTimestamps'' \<noteq> 0
          then bind_out (spell_data (g_env g) (cn_spell (chants p))) (\<lambda>spell.
            Inr (ts_diff \<ge> (s_cast_time spell - 1) * 47 + 35 \<and> ts_diff \<le> max (s_cast_time spell) 1 * 50))
          else Inr True) (\<lambda>in_time.
        if \<not> in_time then Inr (chants, with_players (alter p CancelSpell) gm)
        else
          let gm = gm\<lparr>gm_timestamps := (gm_timestamps gm)(p := stamp)\<rparr> in
          bind_out (player (gm_players gm) p) (\<lambda>c. if ch_spell_ready c then SpellAct g p (chants, gm) else Inr (chants, gm))))"

definition chanting :: "nat \<Rightarrow> game \<Rightarrow> bool outcome" where
  "chanting p gm = bind_out (player (gm_players gm) p) (\<lambda>c. Inr (ch_spell_event c \<or> ch_spell_ready c))"

definition Spell_Target_Self :: "game_env \<Rightarrow> nat \<Rightarrow> PacketReader \<Rightarrow> casting \<Rightarrow> casting outcome" where
  "Spell_Target_Self g p reader s =
     bind_out (GetChar reader) (\<lambda>(_, reader). bind_out (GetShort reader) (\<lambda>(_, reader). bind_out (GetThree reader) (\<lambda>(ts, _).
     bind_out (chanting p (snd s)) (\<lambda>chants. if chants then aim g p TargetSelf 0 (sint ts) s else Inr s))))"

definition Spell_Target_Other :: "game_env \<Rightarrow> nat \<Rightarrow> PacketReader \<Rightarrow> casting \<Rightarrow> casting outcome" where
  "Spell_Target_Other g p reader s =
     bind_out (GetChar reader) (\<lambda>(target_type, reader). bind_out (GetChar reader) (\<lambda>(_, reader). bind_out (GetShort reader) (\<lambda>(_, reader).
     bind_out (GetShort reader) (\<lambda>(_, reader). bind_out (GetShort reader) (\<lambda>(victim_id, reader). bind_out (GetThree reader) (\<lambda>(ts, _).
     bind_out (chanting p (snd s)) (\<lambda>chants.
       if \<not> chants then Inr s
       else if target_type = 1 then aim g p TargetPlayer (uint victim_id) (sint ts) s
       else if target_type = 2 then aim g p TargetNPC (uint victim_id) (sint ts) s
       else Inr (fst s, with_players (alter p CancelSpell) (snd s)))))))))"

definition Spell_Target_Group :: "game_env \<Rightarrow> nat \<Rightarrow> PacketReader \<Rightarrow> casting \<Rightarrow> casting outcome" where
  "Spell_Target_Group g p reader s =
     bind_out (GetShort reader) (\<lambda>(_, reader). bind_out (GetThree reader) (\<lambda>(ts, _).
     bind_out (chanting p (snd s)) (\<lambda>chants. if chants then aim g p TargetGroup 0 (sint ts) s else Inr s)))"


section \<open>A weapon hits the first in line\<close>

fun tile_ahead :: "int \<Rightarrow> nat \<Rightarrow> int \<times> int \<Rightarrow> int \<times> int" where
  "tile_ahead dir 0 P = P"
| "tile_ahead dir (Suc i) P = tile_ahead dir i (ahead dir P)"

lemma shot_first:
  assumes "shot there free dir reach P = Inr hit"
  shows "(\<exists>i n. i < reach \<and> hit = Some n \<and> there (tile_ahead dir (Suc i) P) = Inr (Some n) \<and>
      (\<forall>j < i. there (tile_ahead dir (Suc j) P) = Inr None \<and> free (tile_ahead dir (Suc j) P) = Inr True)) \<or>
    hit = None \<and> (\<exists>i \<le> reach. (\<forall>j < i. there (tile_ahead dir (Suc j) P) = Inr None \<and> (Suc j < i \<longrightarrow> free (tile_ahead dir (Suc j) P) = Inr True)) \<and>
      (i < reach \<longrightarrow> 0 < i \<and> free (tile_ahead dir i P) = Inr False))"
  using assms
proof (induction reach arbitrary: P)
  case (Suc m)
  let ?P = "ahead dir P"
  from Suc.prems obtain h where h: "there ?P = Inr h" by (auto simp: Let_def bind_out_Inr_iff)
  show ?case
  proof (cases h)
    case (Some n)
    then have "hit = Some n" using Suc.prems h by (simp add: Let_def)
    then show ?thesis using h Some by (intro disjI1 exI [of _ 0] exI [of _ n]) simp
  next
    case None
    then obtain ok where ok: "free ?P = Inr ok" using Suc.prems h by (auto simp: Let_def bind_out_Inr_iff)
    show ?thesis
    proof (cases ok)
      case False
      then have "hit = None" using Suc.prems h ok None by (simp add: Let_def)
      then show ?thesis using h ok None False by (intro disjI2 conjI exI [of _ "Suc 0"]) auto
    next
      case True
      then have run: "shot there free dir m ?P = Inr hit" using Suc.prems h ok None by (simp add: Let_def)
      from Suc.IH [OF run] show ?thesis
      proof (elim disjE exE conjE, goal_cases)
        case (1 i n)
        then show ?case using h ok None True by (intro disjI1 exI [of _ "Suc i"] exI [of _ n]) (auto simp: less_Suc_eq_0_disj)
      next
        case (2 i)
        then show ?case using h ok None True by (intro disjI2 conjI exI [of _ "Suc i"]) (auto simp: less_Suc_eq_0_disj gr0_conv_Suc)
      qed
    qed
  qed
qed simp

lemma npc_there_Some: "npc_there g c P ns = Inr (Some n) \<Longrightarrow> n \<in> set ns \<and> np_alive n \<and> (np_x n, np_y n) = P"
  by (induction ns) (auto simp: bind_out_Inr_iff split: if_splits)

section \<open>Hits are steps of the ledgers\<close>

lemma strike_nonneg: "strike g vars m amount c r gm = Inr (x, gm') \<Longrightarrow> 0 \<le> x"
  unfolding strike_def Let_def by (auto simp: bind_out_Inr_iff)

lemma limited_nonneg: "0 \<le> amount \<Longrightarrow> 0 \<le> hp \<Longrightarrow> 0 \<le> limited g amount hp"
  by (simp add: limited_def)

text \<open>An NPC that is not changed by drawing random numbers.\<close>

lemma same_rolls: "roll_int g lo hi gm = Inr (n, gm') \<Longrightarrow> gm_areas gm' = gm_areas gm" "roll_real g dlo dhi gm = (d, gm') \<Longrightarrow> gm_areas gm' = gm_areas gm"
  "strike g vars m amount c r gm = Inr (n, gm') \<Longrightarrow> gm_areas gm' = gm_areas gm"
  by (auto simp: roll_int_def roll_real_def strike_def eval_formula_def Let_def bind_out_Inr_iff)

lemma the_npc_areas: "gm_areas gm' = gm_areas gm \<Longrightarrow> the_npc k key gm' = the_npc k key gm"
  by (simp add: the_npc_def)

lemma hit_npc_steps:
  assumes "hit_npc g k p n gm = Inr gm'" "the_npc k (np_key n) gm = Inr n" "0 \<le> np_hp n" "k < length (gm_areas gm)"
  shows "(npc_step g)\<^sup>*\<^sup>* gm gm'"
  using assms(1) unfolding hit_npc_def Let_def
proof (elim bind_outE_pair bind_outE case_pairE, goal_cases)
  case (1 c enf amount gm1 rand gm2 amount' gm3)
  have areas: "gm_areas gm3 = gm_areas gm"
    using same_rolls(1) [OF 1(3)] same_rolls(2) [OF 1(4)] same_rolls(3) [OF 1(5)] by simp
  have "same_books gm gm3"
    using roll_int_books [OF 1(3)] roll_real_books [OF 1(4)] strike_books [OF 1(5)] same_books_trans by blast
  then have "npc_step g gm gm3" by (rule Others)
  moreover have "npc_step g gm3 gm'"
    by (rule Hit [OF 1(6)]) (use the_npc_areas [OF areas] assms areas limited_nonneg strike_nonneg [OF 1(5)] in simp_all)
  ultimately show ?case by simp
qed

section \<open>Healing\<close>

text \<open>Nobody loses health, nobody gets more than the maximum.\<close>

definition unhurt :: "players \<Rightarrow> players \<Rightarrow> bool" where
  "unhurt w w' \<longleftrightarrow> (\<forall>q. (w q = None \<longrightarrow> w' q = None) \<and>
     (\<forall>c. w q = Some c \<longrightarrow> (\<exists>d. w' q = Some d \<and> stats d = stats c \<and> ch_hp c \<le> ch_hp d \<and> ch_hp d \<le> d_maxhp (stats c))))"

definition room :: "game_env \<Rightarrow> int \<Rightarrow> players \<Rightarrow> bool" where
  "room g n w \<longleftrightarrow> (\<forall>q c. w q = Some c \<longrightarrow> 0 \<le> ch_hp c \<and> ch_hp c \<le> d_maxhp (stats c) \<and>
     d_maxhp (stats c) + (if g_config g ''LimitDamage'' \<noteq> 0 then 0 else max 0 n) \<le> 32767)"

lemma unhurt_refl: "room g n w \<Longrightarrow> unhurt w w"
  by (auto simp: unhurt_def room_def)

lemma unhurt_trans: "unhurt a b \<Longrightarrow> unhurt b c \<Longrightarrow> unhurt a c"
  unfolding unhurt_def by (smt (verit) not_None_eq)

lemma room_unhurt:
  assumes "room g n w" "unhurt w w'"
  shows "room g n w'"
  unfolding room_def
proof (intro allI impI)
  fix q d assume d: "w' q = Some d"
  then obtain c where "w q = Some c" using assms(2) by (cases "w q") (auto simp: unhurt_def)
  then show "0 \<le> ch_hp d \<and> ch_hp d \<le> d_maxhp (stats d) \<and> d_maxhp (stats d) + (if g_config g ''LimitDamage'' \<noteq> 0 then 0 else max 0 n) \<le> 32767"
    using assms d unfolding room_def unhurt_def by fastforce
qed

lemma unhurt_alter:
  assumes "unhurt w w'" "\<And>c. stats (f c) = stats c \<and> ch_hp (f c) = ch_hp c"
  shows "unhurt w (alter q f w')"
  using assms unfolding unhurt_def alter_def by (fastforce split: if_splits)

lemma unhurt_send_to: "unhurt w w' \<Longrightarrow> unhurt w (send_to q b w')"
  unfolding send_to_def by (rule unhurt_alter) (simp_all add: send_def)

lemma unhurt_send_in: "unhurt w w' \<Longrightarrow> unhurt w (send_in who to b w')"
  unfolding unhurt_def send_in_def by (fastforce simp: send_def split: if_splits)

lemma unhurt_put:
  assumes "unhurt w w'" "w' q = Some c" "stats d = stats c" "ch_hp c \<le> ch_hp d" "ch_hp d \<le> d_maxhp (stats c)"
  shows "unhurt w (w'(q \<mapsto> d))"
  using assms unfolding unhurt_def by (smt (verit) fun_upd_apply option.sel option.distinct(1))

lemma unhurt_same:
  assumes "unhurt w w'" "w' q = Some c" "stats d = stats c" "ch_hp d = ch_hp c"
  shows "unhurt w (w'(q \<mapsto> d))"
  using assms unfolding unhurt_def by (smt (verit) fun_upd_apply option.sel option.distinct(1))

lemma add_hp_room:
  assumes "w q = Some c" "room g n w" "0 \<le> gain" "gain \<le> hp_gain g n c" "capped \<or> g_config g ''LimitDamage'' \<noteq> 0"
  shows "ch_hp c \<le> ch_hp (add_hp capped gain c) \<and> ch_hp (add_hp capped gain c) \<le> d_maxhp (stats c) \<and> stats (add_hp capped gain c) = stats c"
proof -
  have r: "0 \<le> ch_hp c" "ch_hp c \<le> d_maxhp (stats c)" "d_maxhp (stats c) + (if g_config g ''LimitDamage'' \<noteq> 0 then 0 else max 0 n) \<le> 32767"
    using assms(1,2) by (auto simp: room_def)
  then have "short_range (ch_hp c + gain)" using assms(3,4) by (auto simp: hp_gain_def short_range_def split: if_splits)
  then show ?thesis using r assms(3-5) by (auto simp: add_hp_def Let_def to_short_id hp_gain_def split: if_splits)
qed

lemma hp_gain_nonneg: "0 \<le> hp_gain g n c"
  by (simp add: hp_gain_def)

lemma update_party_unhurt: "update_party q gm = Inr gm' \<Longrightarrow> unhurt w (gm_players gm) \<Longrightarrow> unhurt w (gm_players gm')"
proof -
  assume run: "update_party q gm = Inr gm'" and un: "unhurt w (gm_players gm)"
  obtain d d' where d: "gm_players gm q = Some d" "tell_party d = Inr d'" "gm_players gm' = (gm_players gm)(q \<mapsto> d')"
    using run by (auto simp: update_party_def run_on_def bind_out_Inr_iff)
  have "stats d' = stats d" "ch_hp d' = ch_hp d"
    using d(2) by (auto simp: tell_party_def UpdateHP_def bind_out_Inr_iff Let_def split: if_splits)
  then show "unhurt w (gm_players gm')" unfolding d(3) by (rule unhurt_same [OF un d(1)])
qed


lemma pay_tp_same [simp]: "stats (pay_tp spell c) = stats c" "ch_hp (pay_tp spell c) = ch_hp c"
  by (simp_all add: pay_tp_def)

lemma hp_gain_same [simp]: "hp_gain g n (pay_tp spell c) = hp_gain g n c"
  by (simp add: hp_gain_def)

lemma add_hp_pay: "ch_hp (add_hp capped gain (pay_tp spell c)) = ch_hp (add_hp capped gain c)" "stats (add_hp capped gain (pay_tp spell c)) = stats c"
  by (simp_all add: add_hp_def Let_def)

lemma pay_room: "room g n w \<Longrightarrow> unhurt w (alter p (pay_tp spell) w)"
  by (rule unhurt_alter [OF unhurt_refl]) simp_all

lemma SpellSelf_unhurt:
  assumes run: "SpellSelf g k p sid gm = Inr gm'" and sp: "spell_data (g_env g) sid = Inr spell" and room: "room g (s_hp spell) (gm_players gm)"
  shows "unhurt (gm_players gm) (gm_players gm')"
proof -
  obtain c where c: "gm_players gm p = Some c" using run by (auto simp: SpellSelf_def bind_out_Inr_iff)
  have "unhurt (gm_players gm) ((gm_players gm)(p \<mapsto> add_hp True (hp_gain g (s_hp spell) c) (pay_tp spell c)))"
    by (rule unhurt_put [OF unhurt_refl [OF room] c])
       (use add_hp_room [OF c room hp_gain_nonneg order_refl] in \<open>simp_all add: add_hp_pay\<close>)
  then show ?thesis
    using run c sp unhurt_refl [OF room] unfolding SpellSelf_def Let_def
    by (auto simp: bind_out_Inr_iff with_players_def split: if_split_asm intro!: unhurt_send_to unhurt_send_in)
qed

lemma spell_heals_unhurt:
  assumes run: "spell_heals g k p q sid spell gm = Inr gm'" and room: "room g (s_hp spell) (gm_players gm)"
  shows "unhurt (gm_players gm) (gm_players gm')"
  using run unfolding spell_heals_def Let_def
proof (elim bind_outE, goal_cases)
  case (1 c d able health)
  let ?w = "alter p (pay_tp spell) (gm_players gm)"
  let ?gain = "if able then hp_gain g (s_hp spell) d else min (hp_gain g (s_hp spell) d) 1"
  have un: "unhurt (gm_players gm) ?w" by (rule pay_room [OF room])
  have d: "?w q = Some d" using 1(2) by (simp add: with_players_def)
  have "unhurt (gm_players gm) (?w(q \<mapsto> add_hp (g_config g ''LimitDamage'' = 0) ?gain d))"
  proof (rule unhurt_put [OF un d])
    have "0 \<le> ?gain" "?gain \<le> hp_gain g (s_hp spell) d" using hp_gain_nonneg [of g "s_hp spell" d] by auto
    from add_hp_room [OF d room_unhurt [OF room un] this, of "g_config g ''LimitDamage'' = 0"]
    show "stats (add_hp (g_config g ''LimitDamage'' = 0) ?gain d) = stats d" "ch_hp d \<le> ch_hp (add_hp (g_config g ''LimitDamage'' = 0) ?gain d)"
      "ch_hp (add_hp (g_config g ''LimitDamage'' = 0) ?gain d) \<le> d_maxhp (stats d)"
      by auto
  qed
  then show ?case
    by (intro update_party_unhurt [OF 1(5)]) (simp add: with_players_def unhurt_send_to unhurt_send_in)
qed

lemma group_heal_unhurt:
  "group_heal g j able spell qs b near gm = Inr (b', near', gm') \<Longrightarrow> room g (s_hp spell) (gm_players gm) \<Longrightarrow> unhurt (gm_players gm) (gm_players gm')"
proof (induction qs arbitrary: b near gm)
  case (Cons q qs)
  obtain here where here: "on_map j gm q = Inr here" using Cons.prems by (auto simp: bind_out_Inr_iff)
  show ?case
  proof (cases here)
    case False
    then show ?thesis using Cons.IH Cons.prems here by simp
  next
    case True
    obtain d where d: "gm_players gm q = Some d" using Cons.prems(1) here True by (auto simp: bind_out_Inr_iff)
    let ?gain = "if able then hp_gain g (s_hp spell) d else min (hp_gain g (s_hp spell) d) 1"
    let ?gm = "with_players (\<lambda>w. w(q \<mapsto> add_hp (g_config g ''LimitDamage'' = 0) ?gain d)) gm"
    have un: "unhurt (gm_players gm) (gm_players ?gm)"
    proof -
      have "0 \<le> ?gain" "?gain \<le> hp_gain g (s_hp spell) d" using hp_gain_nonneg [of g "s_hp spell" d] by auto
      from add_hp_room [OF d Cons.prems(2) this, of "g_config g ''LimitDamage'' = 0"]
      show ?thesis using unhurt_put [OF unhurt_refl [OF Cons.prems(2)] d] by (simp add: with_players_def)
    qed
    obtain b1 near1 where rest: "group_heal g j able spell qs b1 near1 ?gm = Inr (b', near', gm')"
      using Cons.prems(1) here True d by (auto simp: bind_out_Inr_iff Let_def simp del: if_split)
    show ?thesis
      using Cons.IH [OF rest room_unhurt [OF Cons.prems(2) un]] un unhurt_trans by blast
  qed
qed (simp add: unhurt_refl)

lemma SpellGroup_unhurt:
  assumes run: "SpellGroup g k p sid gm = Inr gm'" and sp: "spell_data (g_env g) sid = Inr spell" and room: "room g (s_hp spell) (gm_players gm)"
  shows "unhurt (gm_players gm) (gm_players gm')"
proof -
  obtain c where c: "gm_players gm p = Some c" using run by (auto simp: SpellGroup_def bind_out_Inr_iff)
  let ?gm = "with_players (\<lambda>w. w(p \<mapsto> pay_tp spell c)) gm"
  have un: "unhurt (gm_players gm) (gm_players ?gm)"
    using unhurt_same [OF unhurt_refl [OF room] c, of "pay_tp spell c"] by (simp add: with_players_def)
  have "unhurt (gm_players gm) (gm_players (with_players (send_in near to b) gm1))" if "group_heal g k able spell ms b0 near0 ?gm = Inr (b1, near1, gm1)"
    for near to b gm1 b1 near1 able ms b0 near0
    using unhurt_trans [OF un group_heal_unhurt [OF that room_unhurt [OF room un]]] by (simp add: with_players_def unhurt_send_in)
  note healed = this
  show ?thesis
    using run c sp unhurt_refl [OF room] unfolding SpellGroup_def Let_def
    by (auto simp: bind_out_Inr_iff split: if_split_asm dest!: healed)
qed

lemma SpellAttackPK_unhurt:
  assumes run: "SpellAttackPK g k p q sid gm = Inr gm'" and sp: "spell_data (g_env g) sid = Inr spell" "s_kind spell = ESF_Heal"
    and room: "room g (s_hp spell) (gm_players gm)"
  shows "unhurt (gm_players gm) (gm_players gm')"
proof -
  obtain c where c: "gm_players gm p = Some c" using run by (auto simp: SpellAttackPK_def bind_out_Inr_iff)
  show ?thesis
    using run c sp unhurt_refl [OF room] unfolding SpellAttackPK_def
    by (auto simp: bind_out_Inr_iff with_players_def ESF_Heal_def ESF_Damage_def split: if_split_asm intro!: unhurt_send_to
        dest!: spell_heals_unhurt [OF _ room])
qed

lemma SpellAttack_heal:
  assumes "SpellAttack g k p n sid gm = Inr gm'" "spell_data (g_env g) sid = Inr spell" "s_kind spell = ESF_Heal"
  shows "gm' = gm"
  using assms by (auto simp: SpellAttack_def bind_out_Inr_iff ESF_Heal_def ESF_Damage_def split: if_split_asm)

lemma spell_effect_unhurt:
  assumes "spell_effect g k p target ch spell gm = Inr (tell_quests, gm')" and sp: "spell_data (g_env g) (cn_spell ch) = Inr spell" "s_kind spell = ESF_Heal"
    and id: "0 \<le> cn_spell ch" "cn_spell ch < 65536" and room: "room g (s_hp spell) (gm_players gm)"
  shows "unhurt (gm_players gm) (gm_players gm')"
proof -
  have "to_ushort16 (to_short (cn_spell ch)) = cn_spell ch"
    using id by (simp add: to_ushort16_def to_short_def mod_diff_left_eq)
  then show ?thesis
    using assms(1) SpellSelf_unhurt [OF _ sp(1) room] SpellGroup_unhurt [OF _ sp(1) room] SpellAttackPK_unhurt [OF _ sp room]
      SpellAttack_heal [OF _ sp] unhurt_refl [OF room]
    unfolding spell_effect_def Let_def
    by (simp add: bind_out_Inr_iff split: if_split_asm option.split_asm) blast+
qed


section \<open>The two properties\<close>

text \<open>
  C9: A weapon hits the first NPC in line. What \<open>Attack\<close> hits is alive, stands on one of the tiles within the range straight
  ahead, and all tiles before it hold nothing that can be hit and let the shot pass; and if nothing is hit, then no tile up to
  the end of the range, or up to the first tile that stops the shot, holds anything that can be hit.
\<close>

theorem attack_hits_first:
  assumes "shot_npc g k c reach gm = Inr hit"
  shows "(\<exists>i n. i < nat reach \<and> hit = Some n \<and> n \<in> set (ar_npcs (gm_areas gm ! k)) \<and> np_alive n \<and>
      (np_x n, np_y n) = tile_ahead (ch_direction c) (Suc i) (ch_x c, ch_y c) \<and>
      (\<forall>j < i. npc_there g c (tile_ahead (ch_direction c) (Suc j) (ch_x c, ch_y c)) (ar_npcs (gm_areas gm ! k)) = Inr None \<and>
        flies_over g k gm (tile_ahead (ch_direction c) (Suc j) (ch_x c, ch_y c)) = Inr True)) \<or>
    hit = None \<and> (\<exists>i \<le> nat reach.
      (\<forall>j < i. npc_there g c (tile_ahead (ch_direction c) (Suc j) (ch_x c, ch_y c)) (ar_npcs (gm_areas gm ! k)) = Inr None) \<and>
      (i < nat reach \<longrightarrow> 0 < i \<and> flies_over g k gm (tile_ahead (ch_direction c) i (ch_x c, ch_y c)) = Inr False))"
  using shot_first [OF assms [unfolded shot_npc_def]] npc_there_Some by (elim disjE exE conjE; blast)

theorem attack_hits_first_witness:
  "\<exists>n. shot_npc rat_genv 0 (sample_character\<lparr>ch_direction := DIRECTION_UP\<rparr>) 1 rat_game = Inr (Some n) \<and> (np_x n, np_y n) = (1, 0)"
proof -
  have run: "shot_npc rat_genv 0 (sample_character\<lparr>ch_direction := DIRECTION_UP\<rparr>) 1 rat_game = Inr (Some rat)" by code_simp
  from attack_hits_first [OF run] show ?thesis
    using run by (auto simp: sample_character_def directions ahead_def)
qed

text \<open>
  C17: A healing spell hurts nobody. Whoever casts one, on itself, on another or on its party, everybody keeps at least the
  health it had and nobody gets more than its maximum; where \<open>LimitDamage\<close> is off, this needs that the maximum and what the
  spell gives are together a \<open>short\<close>. The quests that are told of the spell are assumed to leave health alone.
\<close>

theorem healing_harmless:
  assumes run: "SpellAct g p (chants, gm) = Inr (chants', gm')"
    and sp: "spell_data (g_env g) (cn_spell (chants p)) = Inr spell" "s_kind spell = ESF_Heal"
    and spell_id: "0 \<le> cn_spell (chants p)" "cn_spell (chants p) < 65536"
    and fits: "\<forall>q c. gm_players gm q = Some c \<longrightarrow> 0 \<le> ch_hp c \<and> ch_hp c \<le> d_maxhp (stats c) \<and>
      d_maxhp (stats c) + (if g_config g ''LimitDamage'' \<noteq> 0 then 0 else max 0 (s_hp spell)) \<le> 32767"
    and quests: "\<forall>i c c'. g_used_spell g i c = Inr c' \<longrightarrow> ch_hp c' = ch_hp c \<and> stats c' = stats c"
    and who: "gm_players gm q = Some c"
  shows "\<exists>d. gm_players gm' q = Some d \<and> ch_hp c \<le> ch_hp d \<and> ch_hp d \<le> d_maxhp (stats c)"
proof -
  let ?quiet = "with_players (alter p CancelSpell) gm"
  have room: "room g (s_hp spell) (gm_players gm)" using fits by (simp add: room_def)
  have un: "unhurt (gm_players gm) (gm_players ?quiet)"
    unfolding with_players_def by (simp, rule unhurt_alter [OF unhurt_refl [OF room]]) (simp add: CancelSpell_def)
  have "unhurt (gm_players gm) (gm_players gm')"
    using run sp(1) unfolding SpellAct_def Let_def prod.case
  proof (elim bind_outE, goal_cases)
    case (1 a spell')
    have spell': "spell' = spell" using 1(1,3) by simp
    show ?case
    proof (cases "s_id spell = 0 \<or> s_kind spell = ESF_Bard")
      case True
      then show ?thesis using 1(4) un by (auto simp: spell')
    next
      case False
      show ?thesis
        using 1(4) unfolding spell' if_not_P [OF False]
      proof (elim bind_outE_pair, goal_cases)
        case (1 k area tell_quests gm1)
        have un1: "unhurt (gm_players gm) (gm_players gm1)"
          using unhurt_trans [OF un spell_effect_unhurt [OF 1(2) sp spell_id room_unhurt [OF room un]]] .
        have "gm' = gm1 \<or> (\<exists>d d'. gm_players gm1 p = Some d \<and> g_used_spell g (to_short (cn_spell (chants p))) d = Inr d' \<and>
            gm_players gm' = (gm_players gm1)(p \<mapsto> d'))"
          using 1(3) by (auto simp: bind_out_Inr_iff run_on_def split: if_split_asm)
        then show ?case
        proof (elim disjE exE conjE, goal_cases)
          case (2 d d')
          then show ?case using unhurt_same [OF un1, of p d d'] quests by auto
        qed (use un1 in simp)
      qed
    qed
  qed
  then show ?thesis using who by (auto simp: unhurt_def)
qed

text \<open>\<open>alice\<close> heals herself.\<close>

definition heal_genv :: game_env where
  "heal_genv = small_genv\<lparr>g_env := sample_env\<lparr>w_esf := \<lparr>pub_rid = [], pub_len = [],
     pub_data = [ESF_Data, ESF_Data\<lparr>s_id := 1, s_kind := ESF_Heal, s_target_restrict := ESF_Friendly, s_target := ESF_Self, s_hp := 5, s_tp := 2\<rparr>]\<rparr>\<rparr>\<rparr>"

definition wounded :: character where
  "wounded = sample_character\<lparr>ch_mapid := 1, ch_hp := 5, ch_tp := 10, ch_spell_target := 1, stats := (stats sample_character)\<lparr>d_maxhp := 10\<rparr>\<rparr>"

definition heal_game :: game where
  "heal_game = small_game\<lparr>gm_players := [1 \<mapsto> wounded]\<rparr>"

theorem healing_harmless_witness:
  "\<exists>chants' gm' d. SpellAct heal_genv 1 (\<lambda>_. \<lparr>cn_spell = 1, cn_target = 0, cn_fired = Fin 0, cn_delay = Fin 0\<rparr>, heal_game) = Inr (chants', gm') \<and>
    gm_players gm' 1 = Some d \<and> 5 \<le> ch_hp d \<and> ch_hp d \<le> 10"
proof -
  let ?ch = "\<lambda>_ :: nat. \<lparr>cn_spell = 1, cn_target = 0, cn_fired = Fin 0, cn_delay = Fin 0\<rparr>"
  let ?run = "SpellAct heal_genv 1 (?ch, heal_game)"
  have "map_sum id (\<lambda>s. map_option ch_hp (gm_players (snd s) 1)) ?run = Inr (Some 10)" by code_simp
  then obtain chants' gm' where run: "?run = Inr (chants', gm')" by (cases ?run) auto
  have sp: "spell_data (g_env heal_genv) (cn_spell (?ch 1)) =
      Inr (ESF_Data\<lparr>s_id := 1, s_kind := ESF_Heal, s_target_restrict := ESF_Friendly, s_target := ESF_Self, s_hp := 5, s_tp := 2\<rparr>)"
    by code_simp
  have "\<exists>d. gm_players gm' 1 = Some d \<and> ch_hp wounded \<le> ch_hp d \<and> ch_hp d \<le> d_maxhp (stats wounded)"
    by (rule healing_harmless [OF run sp]) (auto simp: heal_game_def wounded_def heal_genv_def small_genv_def)
  then show ?thesis using run by (auto simp: wounded_def)
qed

end
