(* ===== verification/Spec2Isabelle.thy ===== *)
theory Spec2Isabelle
  imports Packet_IO Rpn Config EOP_Context EOClient Floor Database Masters Area Arena Npc Combat
begin

text \<open>
  A verification development for ETHEOS, a game server in C++ for the protocol of Endless Online. It models the logic of the
  server from the bytes of a connection up to what the characters, NPCs and maps of the game do, and proves the properties
  that keep the game sound: packets are neither lost nor misread, items and gold are neither made nor lost, pointers between
  objects agree, texts of players never become SQL, and loops return.

  \<^bold>\<open>The program and its parts.\<close> A server (\<open>eoserver.cpp\<close>) keeps a list of clients (\<open>socket.cpp\<close>) with a ring buffer for each
  direction. A client (\<open>eoclient.cpp\<close>) cuts the bytes that arrive into packets, decodes them and checks the sequence number
  (\<open>packet.cpp\<close>), queues them and hands them to the handlers (\<open>handlers/\<close>). A handler reads the packet, checks what it asks for and
  changes the character that sent it (\<open>character.cpp\<close>), its map (\<open>map.cpp\<close>), its party (\<open>party.cpp\<close>) or an NPC (\<open>npc.cpp\<close>), and sends
  packets to those concerned. What items, spells, classes and NPCs are is read from files (\<open>eodata.cpp\<close>, \<open>npc_data.cpp\<close>, \<open>map.cpp\<close>) and
  from the configuration (\<open>config.cpp\<close>); quests are programs in a language of their own (\<open>eoplus/\<close>), damage is computed by formulas
  (\<open>util/rpn.cpp\<close>), and everything that lasts goes through SQL (\<open>database.cpp\<close>).

  \<^bold>\<open>Theories and sources.\<close>
  \<^item> \<open>Prelude\<close>: the types of C++ the server uses, results that are not normal (exceptions, undefined behaviour), \<open>std::string\<close>, lemmas.
  \<^item> \<open>Codec\<close>: the locale of an encoding with its decoding; interpreted in \<open>Packet_Codec\<close> and \<open>Character_Data\<close>.
  \<^item> \<open>Packet_Ids\<close>, \<open>Packet_Codec\<close>, \<open>Packet_IO\<close> (\<open>packet.cpp\<close>, \<open>fwd/packet.hpp\<close>): identifiers, numbers to base 253, obfuscation, the reader and
    the builder. Round trips; reads that stay in the packet.
  \<^item> \<open>Util_Strings\<close>, \<open>Util_Numbers\<close>, \<open>Double\<close>, \<open>Variant\<close> (\<open>util.cpp\<close>, \<open>util/variant.cpp\<close>): texts, numbers, IEEE doubles, values of four types.
  \<^item> \<open>Rpn\<close> (\<open>util/rpn.cpp\<close>): formulas. Evaluating the text of a formula tree gives its value.
  \<^item> \<open>Config\<close> (\<open>config.cpp\<close>): configuration files with includes and environment variables.
  \<^item> \<open>EOP_Lexer\<close>, \<open>EOP_Parser\<close>, \<open>EOP_Grammar\<close>, \<open>EOP_Context\<close> (\<open>eoplus/\<close>): the language of quests against a grammar, and its interpreter.
  \<^item> \<open>Socket_Client\<close> (\<open>socket.cpp\<close>), \<open>EOClient\<close> (\<open>eoclient.cpp\<close>, \<open>eoserver.cpp\<close>, \<open>handlers.cpp\<close>): buffers that refine queues, framing, sequence
    numbers, the queue of packets, uploads.
  \<^item> \<open>EOData\<close>, \<open>Npc_Data\<close>, \<open>Game_Map\<close> (\<open>eodata.cpp\<close>, \<open>npc_data.cpp\<close>, \<open>map.cpp\<close>): the files of the game and what is read from them.
  \<^item> \<open>Character_Data\<close>, \<open>Character\<close> (\<open>character.cpp\<close>): saved items, inventory, paperdoll, spells, offers, statistics.
  \<^item> \<open>Players\<close>: the characters that play, and sending to them. \<open>Trade\<close>, \<open>Chest\<close>, \<open>Bank\<close>, \<open>Floor\<close>, \<open>Masters\<close>, \<open>Party\<close>: the handlers of the same
    names (\<open>Masters\<close>: shops and skill masters; \<open>Floor\<close>: items) and \<open>party.cpp\<close>.
  \<^item> \<open>World_State\<close>, \<open>Area\<close>, \<open>Arena\<close>, \<open>Npc\<close>, \<open>Combat\<close> (\<open>map.cpp\<close>, \<open>character.cpp\<close>, \<open>arena.cpp\<close>, \<open>npc.cpp\<close>): the state of the whole game,
    entering, leaving, warping and dying, walking, arenas, NPCs that fight, weapons and spells.
  \<^item> \<open>Database\<close> (\<open>database.cpp\<close>): queries with arguments, escaping, transactions and their log.

  \<^bold>\<open>State.\<close> A class is a record with its fields. Bytes and packet arithmetic are words; a \<open>short\<close>, an \<open>unsigned char\<close> or an \<open>int\<close> field of a
  character, map or NPC is an integer that is taken into the range of its type where it is stored (\<open>to_short\<close>, \<open>to_uchar\<close>), and an
  \<open>int\<close> operation that overflows is an error (\<open>int_result\<close>). A pointer to a character is its player id, to an NPC its key, to a map or a
  party its position; following one to something that is gone is the error \<open>Null_Dereference\<close>. What a client is sent is kept, in
  order, with the character. An operation that can throw or be undefined returns \<open>outcome\<close>. The network, the clock, \<open>std::rand\<close>, files,
  the environment, the database server, the C library's transcendental functions and what quests do to a character are arguments.

  \<^bold>\<open>Lemma groups.\<close> Every component has an invariant or a reference and a lemma for each operation, then the property that rests on them.
  \<^item> Refinement: ring buffers to queues (locale of a byte queue), packets to a parser of the whole stream, the inventory and the floor to
    finite maps (locale of bounded counts), shop handlers to deals, walking to the set of those in sight.
  \<^item> Invariants over reachable states: traders, parties, arenas, ledgers of NPCs, contexts of quests, and the conservation of items and
    gold by every handler that moves them.
  \<^item> Round trips: numbers, packets, obfuscation, tokens, shops, saved items.
  \<^item> Termination and bounds: lexer, includes, nested states, statistics.
  \<^item> Atomicity of bulk queries, and arguments that stay arguments.

  \<^bold>\<open>Bounds and fuel.\<close> Loops whose end is not structural take fuel or are partial, and the properties say when they return: reading
  configuration files (depth of includes; enough where they go down a rank), \<open>SetState\<close> (nested calls; enough above the rank of a state),
  \<open>text_word_wrap\<close> and the lexer (partial functions with exact conditions), the phrases of an NPC (number of phrases). The levels gained
  at once use fuel 255, since the table of experience has 254 entries. The 200 tries of a spawn are the code's own.

  \<^bold>\<open>Not modelled.\<close> The timers and the saving of the world (\<open>world.cpp\<close>), the rules quests offer (\<open>quest.cpp\<close>), guilds, accounts and login, boards,
  effects on whole maps (timed spikes, drains, quakes), commands of administrators, and the handlers of one step. Threads, the console, hash functions, HTTP, the start of the
  process and tables of default values are input and output, libraries or constants. Registration of timers and output to the log are
  left out everywhere. Memory is modelled as far as pointers that dangle: their use is an error, allocation never fails.
\<close>

end
